(* ===== verification/Np_Prelude.thy ===== *)
theory Np_Prelude
  imports Main "HOL-Library.Word" "HOL-Library.Monad_Syntax"
begin

text \<open>
  The prelude of the npfs development: the fixed-width integers of
  \<^verbatim>\<open>include/npfs.h\<close> (\<open>u8\<close>, \<open>u16\<close>, \<open>u32\<close>, \<open>u64\<close>), C strings as byte lists, the errno
  values the library uses, the theorem collections of the development, and the generic facts
  about lists, options and words that the component theories share.
\<close>

unbundle bit_operations_syntax

type_synonym u8 = "8 word"
type_synonym u16 = "16 word"
type_synonym u32 = "32 word"
type_synonym u64 = "64 word"

text \<open>
  A C string is the list of its bytes without the terminating NUL, so \<^verbatim>\<open>strlen\<close> is
  \<open>length\<close>; a \<^verbatim>\<open>char *\<close> that may be NULL is an \<open>option\<close>. Addresses of heap objects are
  natural numbers, NULL is \<open>None\<close>.
\<close>

type_synonym bytes = "u8 list"
type_synonym cstring = "u8 list"
type_synonym addr = nat
type_synonym ptr = "addr option"

definition cstr :: "string \<Rightarrow> cstring" where
  "cstr s = map of_char s"

subsection \<open>Theorem collections\<close>

text \<open>
  \<open>wire_simps\<close> evaluates the packet primitives on buffers in canonical form,
  \<open>fcall_defs\<close> unfolds the request handlers, \<open>pool_simps\<close> holds the facts about the
  fid pool that the handlers use.
\<close>

named_theorems wire_simps "evaluation of packet primitives on canonical buffers"
named_theorems fcall_defs "definitions of the request handlers"
named_theorems pool_simps "fid pool facts used by the request handlers"

subsection \<open>Errno values\<close>

abbreviation (input) EPERM :: int where "EPERM \<equiv> 1"
abbreviation (input) ENOENT :: int where "ENOENT \<equiv> 2"
abbreviation (input) EIO :: int where "EIO \<equiv> 5"
abbreviation (input) ENOMEM :: int where "ENOMEM \<equiv> 12"
abbreviation (input) EEXIST :: int where "EEXIST \<equiv> 17"
abbreviation (input) ENOTDIR :: int where "ENOTDIR \<equiv> 20"
abbreviation (input) ENOSYS :: int where "ENOSYS \<equiv> 38"

subsection \<open>Lists\<close>

lemma take_drop_Cons_nth: "i < length xs \<Longrightarrow> drop i xs = xs ! i # drop (Suc i) xs"
  by (simp add: Cons_nth_drop_Suc)

lemma list_eq_update_append:
  "xs[length (take n xs) := v] = take n xs @ (drop n xs)[0 := v]" if "n < length xs"
  using that by (simp add: upd_conv_take_nth_drop take_drop_Cons_nth)

subsection \<open>Options\<close>

lemma bind_SomeD: "Option.bind m f = Some y \<Longrightarrow> \<exists>x. m = Some x \<and> f x = Some y"
  by (cases m) auto

subsection \<open>Words\<close>

lemma sint_u32_shift:
  fixes w :: u32
  shows "sint w = (int (unat w) + 2 ^ 31) mod 2 ^ 32 - 2 ^ 31"
  by (simp add: sint_uint signed_take_bit_eq_take_bit_shift take_bit_eq_mod)

lemma sint_small: "sint w = int (unat w)" if "unat w < 2 ^ 31" for w :: u32
proof -
  have "int (unat w) < 2 ^ 31"
    using that by (metis of_nat_less_iff of_nat_numeral of_nat_power)
  then show ?thesis
    by (simp add: sint_u32_shift)
qed

lemma sint_large: "sint w = int (unat w) - 2 ^ 32" if "2 ^ 31 \<le> unat w" for w :: u32
proof -
  have "2 ^ 31 \<le> int (unat w)"
    using that by (metis of_nat_le_iff of_nat_numeral of_nat_power)
  moreover have "int (unat w) < 2 ^ 32"
    using uint_bounded [of w] by simp
  ultimately have "(int (unat w) - 2 ^ 31) mod 2 ^ 32 = int (unat w) - 2 ^ 31"
    by (intro mod_pos_pos_trivial) auto
  then have "((int (unat w) - 2 ^ 31) + 2 ^ 32) mod 2 ^ 32 = int (unat w) - 2 ^ 31"
    by (simp only: mod_add_self2)
  then show ?thesis
    by (simp add: sint_u32_shift add.commute)
qed

lemma sint_le_unat: "sint w \<le> int (unat w)" for w :: u32
proof (cases "unat w < 2 ^ 31")
  case True
  then show ?thesis by (simp only: sint_small)
next
  case False
  then have "sint w = int (unat w) - 2 ^ 32" by (intro sint_large) simp
  then show ?thesis by simp
qed

lemma sint_sub_4_neg: "sint (w - 4) < 0" if "\<not> 4 \<le> w" for w :: u32
proof -
  have "uint w < 4" using that by (simp add: word_le_def)
  then have "uint w = 0 \<or> uint w = 1 \<or> uint w = 2 \<or> uint w = 3"
    using uint_ge_0 [of w] by linarith
  then have "w = 0 \<or> w = 1 \<or> w = 2 \<or> w = 3"
    by (metis word_of_int_uint word_of_int_0 word_of_int_1 word_of_int_numeral)
  then show ?thesis by auto
qed

end
