(* ===== verification/Cbuf.thy ===== *)
theory Cbuf
  imports Np_Prelude
begin

text \<open>
  The packet cursor \<^verbatim>\<open>struct cbuf\<close> of \<^verbatim>\<open>libnpfs/np.c\<close> and its primitives: the size
  check, the allocation of a run of bytes, and the little-endian readers and writers for 8, 16,
  32 and 64 bit integers and for counted strings.

  The three pointers of the C structure are offsets into the block \<open>cb_mem\<close> they point into.
  They are integers, because \<^verbatim>\<open>buf_init\<close> takes a signed length and \<^verbatim>\<open>buf_alloc\<close> can move
  the cursor backwards. An access outside the block is undefined behaviour in C; the model
  records it in \<open>cb_fault\<close>, so that memory safety is a statement about that flag.
\<close>

record cbuf =
  cb_mem :: bytes
  cb_sp :: int
  cb_p :: int
  cb_ep :: int
  cb_fault :: bool

definition buf_init :: "bytes \<Rightarrow> int \<Rightarrow> int \<Rightarrow> cbuf" where
  "buf_init mem data datalen =
     \<lparr>cb_mem = mem, cb_sp = data, cb_p = data, cb_ep = data + datalen, cb_fault = False\<rparr>"

definition buf_check_overflow :: "cbuf \<Rightarrow> bool" where
  "buf_check_overflow buf \<longleftrightarrow> cb_p buf > cb_ep buf"

definition buf_check_size :: "cbuf \<Rightarrow> int \<Rightarrow> cbuf \<times> bool" where
  "buf_check_size buf len =
     (if cb_p buf + len > cb_ep buf
      then (if cb_p buf < cb_ep buf then buf\<lparr>cb_p := cb_ep buf + 1\<rparr> else buf, False)
      else (buf, True))"

definition buf_alloc :: "cbuf \<Rightarrow> int \<Rightarrow> cbuf \<times> int option" where
  "buf_alloc buf len =
     (let (buf, ok) = buf_check_size buf len
      in if ok then (buf\<lparr>cb_p := cb_p buf + len\<rparr>, Some (cb_p buf)) else (buf, None))"

text \<open>Reading and writing \<open>n\<close> consecutive bytes at an offset (\<open>p[0]\<close>, \<open>p[1]\<close>, \dots).\<close>

definition cb_in_range :: "cbuf \<Rightarrow> int \<Rightarrow> nat \<Rightarrow> bool" where
  "cb_in_range buf at n \<longleftrightarrow> 0 \<le> at \<and> at + int n \<le> int (length (cb_mem buf))"

definition cb_store :: "cbuf \<Rightarrow> int \<Rightarrow> bytes \<Rightarrow> cbuf" where
  "cb_store buf at bs =
     (if cb_in_range buf at (length bs)
      then buf\<lparr>cb_mem := take (nat at) (cb_mem buf) @ bs @ drop (nat at + length bs) (cb_mem buf)\<rparr>
      else buf\<lparr>cb_fault := True\<rparr>)"

definition cb_load :: "cbuf \<Rightarrow> int \<Rightarrow> nat \<Rightarrow> bytes \<times> cbuf" where
  "cb_load buf at n =
     (if cb_in_range buf at n then (take n (drop (nat at) (cb_mem buf)), buf)
      else (replicate n 0, buf\<lparr>cb_fault := True\<rparr>))"

subsection \<open>Little-endian integers\<close>

definition enc8 :: "u8 \<Rightarrow> bytes" where
  "enc8 val = [val]"

definition enc16 :: "u16 \<Rightarrow> bytes" where
  "enc16 val = [ucast val, ucast (drop_bit 8 val)]"

definition enc32 :: "u32 \<Rightarrow> bytes" where
  "enc32 val = [ucast val, ucast (drop_bit 8 val), ucast (drop_bit 16 val), ucast (drop_bit 24 val)]"

definition enc64 :: "u64 \<Rightarrow> bytes" where
  "enc64 val =
     [ucast val, ucast (drop_bit 8 val), ucast (drop_bit 16 val), ucast (drop_bit 24 val),
      ucast (drop_bit 32 val), ucast (drop_bit 40 val), ucast (drop_bit 48 val),
      ucast (drop_bit 56 val)]"

text \<open>A writer also stores the value through \<open>pval\<close>; \<open>old\<close> is what \<open>*pval\<close> held before.\<close>

definition buf_put_int8 :: "cbuf \<Rightarrow> u8 \<Rightarrow> u8 \<Rightarrow> cbuf \<times> u8" where
  "buf_put_int8 buf val old =
     (let (buf, ok) = buf_check_size buf 1
      in if ok then ((cb_store buf (cb_p buf) (enc8 val))\<lparr>cb_p := cb_p buf + 1\<rparr>, val)
         else (buf, old))"

definition buf_put_int16 :: "cbuf \<Rightarrow> u16 \<Rightarrow> u16 \<Rightarrow> cbuf \<times> u16" where
  "buf_put_int16 buf val old =
     (let (buf, ok) = buf_check_size buf 2
      in if ok then ((cb_store buf (cb_p buf) (enc16 val))\<lparr>cb_p := cb_p buf + 2\<rparr>, val)
         else (buf, old))"

definition buf_put_int32 :: "cbuf \<Rightarrow> u32 \<Rightarrow> u32 \<Rightarrow> cbuf \<times> u32" where
  "buf_put_int32 buf val old =
     (let (buf, ok) = buf_check_size buf 4
      in if ok then ((cb_store buf (cb_p buf) (enc32 val))\<lparr>cb_p := cb_p buf + 4\<rparr>, val)
         else (buf, old))"

definition buf_put_int64 :: "cbuf \<Rightarrow> u64 \<Rightarrow> u64 \<Rightarrow> cbuf \<times> u64" where
  "buf_put_int64 buf val old =
     (let (buf, ok) = buf_check_size buf 8
      in if ok then ((cb_store buf (cb_p buf) (enc64 val))\<lparr>cb_p := cb_p buf + 8\<rparr>, val)
         else (buf, old))"

definition buf_get_int8 :: "cbuf \<Rightarrow> u8 \<times> cbuf" where
  "buf_get_int8 buf =
     (let (buf, ok) = buf_check_size buf 1
      in if ok then
           (let (p, buf) = cb_load buf (cb_p buf) 1
            in (p ! 0, buf\<lparr>cb_p := cb_p buf + 1\<rparr>))
         else (0, buf))"

definition buf_get_int16 :: "cbuf \<Rightarrow> u16 \<times> cbuf" where
  "buf_get_int16 buf =
     (let (buf, ok) = buf_check_size buf 2
      in if ok then
           (let (p, buf) = cb_load buf (cb_p buf) 2
            in (ucast (p ! 0) OR push_bit 8 (ucast (p ! 1)), buf\<lparr>cb_p := cb_p buf + 2\<rparr>))
         else (0, buf))"

definition buf_get_int32 :: "cbuf \<Rightarrow> u32 \<times> cbuf" where
  "buf_get_int32 buf =
     (let (buf, ok) = buf_check_size buf 4
      in if ok then
           (let (p, buf) = cb_load buf (cb_p buf) 4
            in (ucast (p ! 0) OR push_bit 8 (ucast (p ! 1)) OR push_bit 16 (ucast (p ! 2)) OR
                push_bit 24 (ucast (p ! 3)), buf\<lparr>cb_p := cb_p buf + 4\<rparr>))
         else (0, buf))"

definition buf_get_int64 :: "cbuf \<Rightarrow> u64 \<times> cbuf" where
  "buf_get_int64 buf =
     (let (buf, ok) = buf_check_size buf 8
      in if ok then
           (let (p, buf) = cb_load buf (cb_p buf) 8
            in (ucast (p ! 0) OR push_bit 8 (ucast (p ! 1)) OR push_bit 16 (ucast (p ! 2)) OR
                push_bit 24 (ucast (p ! 3)) OR push_bit 32 (ucast (p ! 4)) OR
                push_bit 40 (ucast (p ! 5)) OR push_bit 48 (ucast (p ! 6)) OR
                push_bit 56 (ucast (p ! 7)), buf\<lparr>cb_p := cb_p buf + 8\<rparr>))
         else (0, buf))"

subsection \<open>Counted strings\<close>

text \<open>
  \<^verbatim>\<open>struct Npstr\<close>: a 16 bit length and a pointer. \<open>s_str\<close> holds the bytes the pointer
  points at (\<open>None\<close> for NULL); nothing in the library changes them while the packet lives.
\<close>

record Npstr =
  s_len :: u16
  s_str :: "bytes option"

definition np_strzero :: Npstr where
  "np_strzero = \<lparr>s_len = 0, s_str = None\<rparr>"

text \<open>\<open>s\<close> may be NULL; \<open>old\<close> is what \<open>*ps\<close> held before.\<close>

definition buf_put_str :: "cbuf \<Rightarrow> cstring option \<Rightarrow> Npstr \<Rightarrow> cbuf \<times> Npstr" where
  "buf_put_str buf s old =
     (let slen = (case s of None \<Rightarrow> 0 | Some cs \<Rightarrow> int (length cs));
          cs = (case s of None \<Rightarrow> [] | Some cs \<Rightarrow> cs);
          (buf, ok) = buf_check_size buf (2 + slen)
      in if ok then
           (let (buf, _) = buf_put_int16 buf (word_of_int slen) 0;
                (buf, str) = buf_alloc buf slen
            in (case str of
                  None \<Rightarrow> (buf\<lparr>cb_fault := True\<rparr>, old)
                | Some at \<Rightarrow> (cb_store buf at cs, \<lparr>s_len = word_of_int slen, s_str = Some cs\<rparr>)))
         else (buf, old))"

definition buf_get_str :: "cbuf \<Rightarrow> Npstr \<times> cbuf" where
  "buf_get_str buf =
     (let (len, buf) = buf_get_int16 buf;
          (buf, str) = buf_alloc buf (int (unat len))
      in (case str of
            None \<Rightarrow> (\<lparr>s_len = len, s_str = None\<rparr>, buf)
          | Some at \<Rightarrow>
              (let (bs, buf) = cb_load buf at (unat len) in (\<lparr>s_len = len, s_str = Some bs\<rparr>, buf))))"

definition encstr :: "cstring \<Rightarrow> bytes" where
  "encstr cs = enc16 (of_nat (length cs)) @ cs"

definition npstr :: "cstring \<Rightarrow> Npstr" where
  "npstr cs = \<lparr>s_len = of_nat (length cs), s_str = Some cs\<rparr>"

subsection \<open>Canonical buffers\<close>

text \<open>
  \<open>cbf pre xs post sp\<close> is a buffer whose block is \<open>pre @ xs @ post\<close>, with the cursor after
  \<open>pre\<close> and the end after \<open>xs\<close>: \<open>pre\<close> has been read or written, \<open>xs\<close> is what is left.
  \<open>obf\<close> is the same buffer after a refused access, when \<^verbatim>\<open>buf_check_size\<close> has moved the
  cursor one past the end. Every primitive maps canonical buffers to canonical buffers, and the
  equations below evaluate it by rewriting.
\<close>

definition cbf :: "bytes \<Rightarrow> bytes \<Rightarrow> bytes \<Rightarrow> int \<Rightarrow> cbuf" where
  "cbf pre xs post sp =
     \<lparr>cb_mem = pre @ xs @ post, cb_sp = sp, cb_p = int (length pre),
      cb_ep = int (length pre + length xs), cb_fault = False\<rparr>"

definition obf :: "bytes \<Rightarrow> bytes \<Rightarrow> bytes \<Rightarrow> int \<Rightarrow> cbuf" where
  "obf pre xs post sp = (cbf pre xs post sp)\<lparr>cb_p := int (length pre + length xs) + 1\<rparr>"

lemma cbf_sel [simp]:
  "cb_mem (cbf pre xs post sp) = pre @ xs @ post"
  "cb_sp (cbf pre xs post sp) = sp"
  "cb_p (cbf pre xs post sp) = int (length pre)"
  "cb_fault (cbf pre xs post sp) = False"
  "cb_mem (obf pre xs post sp) = pre @ xs @ post"
  "cb_fault (obf pre xs post sp) = False"
  by (simp_all add: cbf_def obf_def)

lemma cbf_buf_init: "sp = int (length pre) \<Longrightarrow> n = int (length xs) \<Longrightarrow>
    buf_init (pre @ xs @ post) sp n = cbf pre xs post sp"
  by (simp add: buf_init_def cbf_def)

lemma buf_check_overflow_cbf [simp, wire_simps]: "\<not> buf_check_overflow (cbf pre xs post sp)"
  by (simp add: buf_check_overflow_def cbf_def)

lemma buf_check_overflow_obf [simp, wire_simps]: "buf_check_overflow (obf pre xs post sp)"
  by (simp add: buf_check_overflow_def obf_def cbf_def)

lemma check_size_fits: "n \<le> int (length xs) \<Longrightarrow>
    buf_check_size (cbf pre xs post sp) n = (cbf pre xs post sp, True)"
  by (simp add: buf_check_size_def cbf_def)

lemma check_size_short: "int (length xs) < n \<Longrightarrow> xs \<noteq> [] \<Longrightarrow>
    buf_check_size (cbf pre xs post sp) n = (obf pre xs post sp, False)"
  by (simp add: buf_check_size_def cbf_def obf_def)

lemma check_size_end: "0 < n \<Longrightarrow>
    buf_check_size (cbf pre [] post sp) n = (cbf pre [] post sp, False)"
  by (simp add: buf_check_size_def cbf_def)

lemma check_size_obf: "0 \<le> n \<Longrightarrow>
    buf_check_size (obf pre xs post sp) n = (obf pre xs post sp, False)"
  by (simp add: buf_check_size_def cbf_def obf_def)

lemmas check_size_simps = check_size_fits check_size_short check_size_end check_size_obf

lemma cbf_store_step: "n = length bs \<Longrightarrow> n \<le> length xs \<Longrightarrow>
    (cb_store (cbf pre xs post sp) (int (length pre)) bs)\<lparr>cb_p := int (length pre) + int n\<rparr> =
    cbf (pre @ bs) (drop n xs) post sp"
  by (simp add: cb_store_def cb_in_range_def cbf_def)

lemma cbf_store_back: "length ys = length bs \<Longrightarrow> at = int (length pre) \<Longrightarrow>
    cb_store (cbf (pre @ ys) xs post sp) at bs = cbf (pre @ bs) xs post sp"
  by (simp add: cb_store_def cb_in_range_def cbf_def)

lemma cbf_load: "n \<le> length xs \<Longrightarrow>
    cb_load (cbf pre xs post sp) (int (length pre)) n = (take n xs, cbf pre xs post sp)"
  by (simp add: cb_load_def cb_in_range_def cbf_def)

lemma cbf_advance: "n \<le> length xs \<Longrightarrow>
    (cbf pre xs post sp)\<lparr>cb_p := int (length pre) + int n\<rparr> =
    cbf (pre @ take n xs) (drop n xs) post sp"
  by (simp add: cbf_def)

lemma buf_alloc_fits: "n \<le> length xs \<Longrightarrow>
    buf_alloc (cbf pre xs post sp) (int n) =
      (cbf (pre @ take n xs) (drop n xs) post sp, Some (int (length pre)))"
  by (simp add: buf_alloc_def check_size_simps cbf_advance)

lemma buf_alloc_short: "length xs < n \<Longrightarrow> xs \<noteq> [] \<Longrightarrow>
    buf_alloc (cbf pre xs post sp) (int n) = (obf pre xs post sp, None)"
  by (simp add: buf_alloc_def check_size_simps)

lemma buf_alloc_obf: "buf_alloc (obf pre xs post sp) (int n) = (obf pre xs post sp, None)"
  by (simp add: buf_alloc_def check_size_simps)

subsection \<open>The integer codecs\<close>

lemma enc_length [simp]:
  "length (enc8 a) = 1" "length (enc16 b) = 2" "length (enc32 c) = 4" "length (enc64 d) = 8"
  by (simp_all add: enc8_def enc16_def enc32_def enc64_def)

text \<open>Joining one more byte to the low \<open>n\<close> bits of a word.\<close>

lemma take_bit_join_byte:
  fixes v :: "'a::len word"
  shows "take_bit n v OR push_bit n (ucast (ucast (drop_bit n v) :: u8)) = take_bit (n + 8) v"
proof (rule bit_word_eqI)
  fix i assume i: "i < LENGTH('a)"
  show "bit (take_bit n v OR push_bit n (ucast (ucast (drop_bit n v) :: u8))) i =
        bit (take_bit (n + 8) v) i"
  proof (cases "i < n")
    case True
    then show ?thesis
      by (simp add: bit_or_iff bit_take_bit_iff bit_push_bit_iff)
  next
    case False
    then obtain k where "i = n + k" by (metis le_add_diff_inverse not_less)
    with i show ?thesis
      by (auto simp: bit_or_iff bit_take_bit_iff bit_push_bit_iff bit_ucast_iff bit_drop_bit_eq
          dest: bit_imp_le_length)
  qed
qed

lemmas join_byte = take_bit_join_byte [symmetric]

lemma dec16_enc16: "ucast (enc16 v ! 0) OR push_bit 8 (ucast (enc16 v ! 1)) = v"
proof -
  have "v = take_bit 16 v" by (simp add: take_bit_word_eq_self)
  then show ?thesis
    using join_byte [of 0 v] join_byte [of 8 v] by (simp add: enc16_def)
qed

lemma dec32_enc32:
  "ucast (enc32 v ! 0) OR push_bit 8 (ucast (enc32 v ! 1)) OR push_bit 16 (ucast (enc32 v ! 2)) OR
   push_bit 24 (ucast (enc32 v ! 3)) = v"
proof -
  have "v = take_bit 32 v" by (simp add: take_bit_word_eq_self)
  then show ?thesis
    using join_byte [of 0 v] join_byte [of 8 v] join_byte [of 16 v] join_byte [of 24 v]
    by (simp add: enc32_def or.assoc)
qed

lemma dec64_enc64:
  "ucast (enc64 v ! 0) OR push_bit 8 (ucast (enc64 v ! 1)) OR push_bit 16 (ucast (enc64 v ! 2)) OR
   push_bit 24 (ucast (enc64 v ! 3)) OR push_bit 32 (ucast (enc64 v ! 4)) OR
   push_bit 40 (ucast (enc64 v ! 5)) OR push_bit 48 (ucast (enc64 v ! 6)) OR
   push_bit 56 (ucast (enc64 v ! 7)) = v"
proof -
  have "v = take_bit 64 v" by (simp add: take_bit_word_eq_self)
  then show ?thesis
    using join_byte [of 0 v] join_byte [of 8 v] join_byte [of 16 v] join_byte [of 24 v]
      join_byte [of 32 v] join_byte [of 40 v] join_byte [of 48 v] join_byte [of 56 v]
    by (simp add: enc64_def or.assoc)
qed

subsection \<open>The codec interface\<close>

text \<open>
  What the message constructors and the parser rely on for every kind of field: where there is
  room, \<open>put\<close> appends the encoding of the value and stores it, and \<open>get\<close> on a buffer that
  starts with an encoding returns the value and consumes exactly that encoding. \<open>rep\<close> is
  the form in which the structure keeps the value (an \<open>Npstr\<close> for a C string), \<open>ok\<close> the
  values the wire format can carry.
\<close>

fun put_all :: "(cbuf \<Rightarrow> 'v \<Rightarrow> 's \<Rightarrow> cbuf \<times> 's) \<Rightarrow> 'v list \<Rightarrow> cbuf \<Rightarrow> 's list \<Rightarrow> cbuf \<times> 's list" where
  "put_all put [] buf olds = (buf, [])"
| "put_all put (v # vs) buf olds =
     (let (buf, s) = put buf v (hd olds); (buf, ss) = put_all put vs buf (tl olds) in (buf, s # ss))"

fun get_all :: "(cbuf \<Rightarrow> 's \<times> cbuf) \<Rightarrow> nat \<Rightarrow> cbuf \<Rightarrow> 's list \<times> cbuf" where
  "get_all get 0 buf = ([], buf)"
| "get_all get (Suc n) buf = (let (s, buf) = get buf; (ss, buf) = get_all get n buf in (s # ss, buf))"

locale wire_codec =
  fixes put :: "cbuf \<Rightarrow> 'v \<Rightarrow> 's \<Rightarrow> cbuf \<times> 's"
    and get :: "cbuf \<Rightarrow> 's \<times> cbuf"
    and enc :: "'v \<Rightarrow> bytes"
    and rep :: "'v \<Rightarrow> 's"
    and ok :: "'v \<Rightarrow> bool"
  assumes put_fits: "length (enc v) \<le> length xs \<Longrightarrow> ok v \<Longrightarrow>
      put (cbf pre xs post sp) v old =
        (cbf (pre @ enc v) (drop (length (enc v)) xs) post sp, rep v)"
    and get_enc: "ok v \<Longrightarrow>
      get (cbf pre (enc v @ xs) post sp) = (rep v, cbf (pre @ enc v) xs post sp)"
begin

lemma put_then_get:
  assumes "ok v" and "length (enc v) \<le> length xs"
  shows "get (cbf pre (drop (length pre) (cb_mem (fst (put (cbf pre xs post sp) v old)))) [] sp) =
    (rep v, cbf (pre @ enc v) (drop (length (enc v)) xs @ post) [] sp)"
  using assms by (simp add: put_fits get_enc)

lemma put_all_fits:
  "length (concat (map enc vs)) \<le> length xs \<Longrightarrow> list_all ok vs \<Longrightarrow>
    put_all put vs (cbf pre xs post sp) olds =
      (cbf (pre @ concat (map enc vs)) (drop (length (concat (map enc vs))) xs) post sp, map rep vs)"
proof (induction vs arbitrary: pre xs olds)
  case Nil
  then show ?case by simp
next
  case (Cons v vs)
  then show ?case by (simp add: put_fits add.commute)
qed

lemma get_all_enc:
  "list_all ok vs \<Longrightarrow>
    get_all get (length vs) (cbf pre (concat (map enc vs) @ xs) post sp) =
      (map rep vs, cbf (pre @ concat (map enc vs)) xs post sp)"
proof (induction vs arbitrary: pre)
  case Nil
  then show ?case by simp
next
  case (Cons v vs)
  then show ?case by (simp add: get_enc)
qed

end

text \<open>
  The integers also promise what happens without room: a partly filled field marks the buffer
  as overflowed, but a field that starts exactly at the end of the buffer leaves no trace, and
  the reader then yields zero.
\<close>

locale atom_codec = wire_codec put get enc "\<lambda>v. v" "\<lambda>_. True"
  for put :: "cbuf \<Rightarrow> 'a::zero \<Rightarrow> 'a \<Rightarrow> cbuf \<times> 'a" and get :: "cbuf \<Rightarrow> 'a \<times> cbuf"
    and enc :: "'a \<Rightarrow> bytes" +
  fixes n :: nat
  assumes enc_len: "length (enc v) = n" and n_pos: "0 < n"
    and put_short: "length xs < n \<Longrightarrow> xs \<noteq> [] \<Longrightarrow>
      put (cbf pre xs post sp) v old = (obf pre xs post sp, old)"
    and put_end: "put (cbf pre [] post sp) v old = (cbf pre [] post sp, old)"
    and put_obf: "put (obf pre xs post sp) v old = (obf pre xs post sp, old)"
    and get_short: "length xs < n \<Longrightarrow> xs \<noteq> [] \<Longrightarrow>
      get (cbf pre xs post sp) = (0, obf pre xs post sp)"
    and get_end: "get (cbf pre [] post sp) = (0, cbf pre [] post sp)"
    and get_obf: "get (obf pre xs post sp) = (0, obf pre xs post sp)"
begin

lemma enc_inject: "enc v = enc w \<Longrightarrow> v = w"
  using get_enc [where v = v and pre = "[]" and xs = "[]"] get_enc [where v = w and pre = "[]" and xs = "[]"] by simp

lemma put_overflow_iff:
  "buf_check_overflow (fst (put (cbf pre xs post sp) v old)) \<longleftrightarrow> 0 < length xs \<and> length xs < n"
proof (cases "length xs < n")
  case True
  then show ?thesis by (cases "xs = []") (simp_all add: put_short put_end)
next
  case False
  then show ?thesis by (simp add: put_fits enc_len)
qed

end

lemmas put_int_defs = buf_put_int8_def buf_put_int16_def buf_put_int32_def buf_put_int64_def
lemmas get_int_defs = buf_get_int8_def buf_get_int16_def buf_get_int32_def buf_get_int64_def

lemma check_size_num_fits: "k \<le> length xs \<Longrightarrow>
    buf_check_size (cbf pre xs post sp) (int k) = (cbf pre xs post sp, True)"
  by (rule check_size_fits) simp

lemma cbf_store_num: "k = length bs \<Longrightarrow> k \<le> length xs \<Longrightarrow> m = int k \<Longrightarrow>
    (cb_store (cbf pre xs post sp) (int (length pre)) bs)\<lparr>cb_p := int (length pre) + m\<rparr> =
    cbf (pre @ bs) (drop k xs) post sp"
  using cbf_store_step by blast

lemma cbf_advance_num: "k \<le> length xs \<Longrightarrow> m = int k \<Longrightarrow>
    (cbf pre xs post sp)\<lparr>cb_p := int (length pre) + m\<rparr> =
    cbf (pre @ take k xs) (drop k xs) post sp"
  using cbf_advance by blast

interpretation i8: atom_codec buf_put_int8 buf_get_int8 enc8 1
  by unfold_locales
    (auto simp: buf_put_int8_def buf_get_int8_def check_size_simps Let_def
      cbf_store_num [where k = 1] cbf_load cbf_advance_num [where k = 1] enc8_def)

interpretation i16: atom_codec buf_put_int16 buf_get_int16 enc16 2
  by unfold_locales
    (auto simp: buf_put_int16_def buf_get_int16_def check_size_simps Let_def
      cbf_store_num [where k = 2] cbf_load cbf_advance_num [where k = 2] dec16_enc16 [unfolded One_nat_def] nth_append)

interpretation i32: atom_codec buf_put_int32 buf_get_int32 enc32 4
  by unfold_locales
    (auto simp: buf_put_int32_def buf_get_int32_def check_size_simps Let_def
      cbf_store_num [where k = 4] cbf_load cbf_advance_num [where k = 4] dec32_enc32 [unfolded One_nat_def] nth_append)

interpretation i64: atom_codec buf_put_int64 buf_get_int64 enc64 8
  by unfold_locales
    (auto simp: buf_put_int64_def buf_get_int64_def check_size_simps Let_def
      cbf_store_num [where k = 8] cbf_load cbf_advance_num [where k = 8] dec64_enc64 [unfolded One_nat_def] nth_append)

subsection \<open>The string codec\<close>

definition cs_of :: "cstring option \<Rightarrow> cstring" where
  "cs_of s = (case s of None \<Rightarrow> [] | Some cs \<Rightarrow> cs)"

lemma cs_of_simps [simp]: "cs_of None = []" "cs_of (Some cs) = cs"
  by (simp_all add: cs_of_def)

lemma encstr_length [simp]: "length (encstr cs) = 2 + length cs"
  by (simp add: encstr_def)

text \<open>
  A string of any length is written in full; the length prefix keeps its low 16 bits only.
\<close>

lemma buf_put_str_fits:
  assumes "2 + length (cs_of s) \<le> length xs"
  shows "buf_put_str (cbf pre xs post sp) s old =
    (cbf (pre @ encstr (cs_of s)) (drop (2 + length (cs_of s)) xs) post sp, npstr (cs_of s))"
proof -
  have len: "(case s of None \<Rightarrow> 0 | Some cs \<Rightarrow> int (length cs)) = int (length (cs_of s))"
    by (simp add: cs_of_def split: option.splits)
  have cs: "(case s of None \<Rightarrow> [] | Some cs \<Rightarrow> cs) = cs_of s"
    by (simp add: cs_of_def)
  have put: "buf_put_int16 (cbf pre xs post sp) v 0 = (cbf (pre @ enc16 v) (drop 2 xs) post sp, v)" for v
    using assms by (simp add: i16.put_fits)
  have "cb_store (cbf (pre @ enc16 v @ ys) zs post sp) (int (length pre) + 2) (cs_of s) =
      cbf (pre @ enc16 v @ cs_of s) zs post sp" if "length ys = length (cs_of s)" for v ys zs
    using cbf_store_back [OF that, of "int (length pre) + 2" "pre @ enc16 v"] by simp
  then show ?thesis
    unfolding buf_put_str_def len cs using assms
    by (simp add: check_size_simps Let_def put buf_alloc_fits npstr_def encstr_def add.commute)
qed

lemma buf_put_str_end: "buf_put_str (cbf pre [] post sp) s old = (cbf pre [] post sp, old)"
  by (simp add: buf_put_str_def check_size_end split: option.splits)

lemma buf_put_str_short: "length xs < 2 + length (cs_of s) \<Longrightarrow> xs \<noteq> [] \<Longrightarrow>
    buf_put_str (cbf pre xs post sp) s old = (obf pre xs post sp, old)"
  by (auto simp: buf_put_str_def cs_of_def check_size_simps split: option.splits)

lemma buf_put_str_obf: "buf_put_str (obf pre xs post sp) s old = (obf pre xs post sp, old)"
  by (simp add: buf_put_str_def check_size_obf split: option.splits)

interpretation str: wire_codec buf_put_str buf_get_str "\<lambda>s. encstr (cs_of s)"
    "\<lambda>s. npstr (cs_of s)" "\<lambda>s. length (cs_of s) < 2 ^ 16"
proof
  fix v :: "cstring option" and xs pre post :: bytes and sp :: int and old :: Npstr
  assume "length (encstr (cs_of v)) \<le> length xs"
  then show "buf_put_str (cbf pre xs post sp) v old =
      (cbf (pre @ encstr (cs_of v)) (drop (length (encstr (cs_of v))) xs) post sp, npstr (cs_of v))"
    by (simp add: buf_put_str_fits)
next
  fix v :: "cstring option" and pre xs post :: bytes and sp :: int
  assume small: "length (cs_of v) < 2 ^ 16"
  then have len: "unat (of_nat (length (cs_of v)) :: u16) = length (cs_of v)"
      "uint (of_nat (length (cs_of v)) :: u16) = int (length (cs_of v))"
    by (simp_all add: unat_of_nat uint_nat)
  show "buf_get_str (cbf pre (encstr (cs_of v) @ xs) post sp) =
      (npstr (cs_of v), cbf (pre @ encstr (cs_of v)) xs post sp)"
    by (simp add: buf_get_str_def encstr_def i16.get_enc len buf_alloc_fits npstr_def cb_load_def
        cb_in_range_def)
qed

text \<open>A string field at the exact end of a message reads as the empty string.\<close>

lemma buf_get_str_end: "buf_get_str (cbf pre [] post sp) = (npstr [], cbf pre [] post sp)"
  using buf_alloc_fits [of 0 "[]" pre post sp]
  by (simp add: buf_get_str_def i16.get_end npstr_def cb_load_def cb_in_range_def)

lemma buf_get_str_obf:
  "buf_get_str (obf pre xs post sp) = (\<lparr>s_len = 0, s_str = None\<rparr>, obf pre xs post sp)"
  using buf_alloc_obf [of pre xs post sp 0] by (simp add: buf_get_str_def i16.get_obf)

lemmas codec_put =
  i8.put_fits i16.put_fits i32.put_fits i64.put_fits buf_put_str_fits
lemmas codec_get =
  i8.get_enc i16.get_enc i32.get_enc i64.get_enc
lemmas codec_put_bad =
  i8.put_short i16.put_short i32.put_short i64.put_short
  i8.put_end i16.put_end i32.put_end i64.put_end buf_put_str_end
  i8.put_obf i16.put_obf i32.put_obf i64.put_obf buf_put_str_obf
lemmas codec_get_bad =
  i8.get_short i16.get_short i32.get_short i64.get_short
  i8.get_end i16.get_end i32.get_end i64.get_end buf_get_str_end
  i8.get_obf i16.get_obf i32.get_obf i64.get_obf buf_get_str_obf

lemma buf_get_str_enc [wire_simps]: "length cs < 2 ^ 16 \<Longrightarrow>
    buf_get_str (cbf pre (encstr cs @ xs) post sp) = (npstr cs, cbf (pre @ encstr cs) xs post sp)"
  using str.get_enc [of "Some cs"] by simp

declare codec_put [wire_simps] codec_get [wire_simps]

end
