(* ===== verification/Npfcall.thy ===== *)
theory Npfcall
  imports Cbuf
begin

text \<open>
  The protocol structures of \<^verbatim>\<open>include/npfs.h\<close> (message types, qids, stat, statfs and attribute
  records, and \<^verbatim>\<open>struct Npfcall\<close>, one message), the writers and readers of
  \<^verbatim>\<open>libnpfs/np.c\<close> for their composite fields, and the counted-string helpers.
\<close>

subsection \<open>Message types\<close>

abbreviation (input) "Tfirst \<equiv> (6 :: u8)"
abbreviation (input) "Tlerror \<equiv> (6 :: u8)"
abbreviation (input) "Rlerror \<equiv> (7 :: u8)"
abbreviation (input) "Tstatfs \<equiv> (8 :: u8)"
abbreviation (input) "Rstatfs \<equiv> (9 :: u8)"
abbreviation (input) "Tlopen \<equiv> (12 :: u8)"
abbreviation (input) "Rlopen \<equiv> (13 :: u8)"
abbreviation (input) "Tlcreate \<equiv> (14 :: u8)"
abbreviation (input) "Rlcreate \<equiv> (15 :: u8)"
abbreviation (input) "Tsymlink \<equiv> (16 :: u8)"
abbreviation (input) "Rsymlink \<equiv> (17 :: u8)"
abbreviation (input) "Tmknod \<equiv> (18 :: u8)"
abbreviation (input) "Rmknod \<equiv> (19 :: u8)"
abbreviation (input) "Trename \<equiv> (20 :: u8)"
abbreviation (input) "Rrename \<equiv> (21 :: u8)"
abbreviation (input) "Treadlink \<equiv> (22 :: u8)"
abbreviation (input) "Rreadlink \<equiv> (23 :: u8)"
abbreviation (input) "Tgetattr \<equiv> (24 :: u8)"
abbreviation (input) "Rgetattr \<equiv> (25 :: u8)"
abbreviation (input) "Tsetattr \<equiv> (26 :: u8)"
abbreviation (input) "Rsetattr \<equiv> (27 :: u8)"
abbreviation (input) "Txattrwalk \<equiv> (30 :: u8)"
abbreviation (input) "Rxattrwalk \<equiv> (31 :: u8)"
abbreviation (input) "Txattrcreate \<equiv> (32 :: u8)"
abbreviation (input) "Rxattrcreate \<equiv> (33 :: u8)"
abbreviation (input) "Treaddir \<equiv> (40 :: u8)"
abbreviation (input) "Rreaddir \<equiv> (41 :: u8)"
abbreviation (input) "Tfsync \<equiv> (50 :: u8)"
abbreviation (input) "Rfsync \<equiv> (51 :: u8)"
abbreviation (input) "Tlock \<equiv> (52 :: u8)"
abbreviation (input) "Rlock \<equiv> (53 :: u8)"
abbreviation (input) "Tgetlock \<equiv> (54 :: u8)"
abbreviation (input) "Rgetlock \<equiv> (55 :: u8)"
abbreviation (input) "Tlink \<equiv> (70 :: u8)"
abbreviation (input) "Rlink \<equiv> (71 :: u8)"
abbreviation (input) "Tmkdir \<equiv> (72 :: u8)"
abbreviation (input) "Rmkdir \<equiv> (73 :: u8)"
abbreviation (input) "Trenameat \<equiv> (74 :: u8)"
abbreviation (input) "Rrenameat \<equiv> (75 :: u8)"
abbreviation (input) "Tunlinkat \<equiv> (76 :: u8)"
abbreviation (input) "Runlinkat \<equiv> (77 :: u8)"
abbreviation (input) "Tversion \<equiv> (100 :: u8)"
abbreviation (input) "Rversion \<equiv> (101 :: u8)"
abbreviation (input) "Tauth \<equiv> (102 :: u8)"
abbreviation (input) "Rauth \<equiv> (103 :: u8)"
abbreviation (input) "Tattach \<equiv> (104 :: u8)"
abbreviation (input) "Rattach \<equiv> (105 :: u8)"
abbreviation (input) "Terror \<equiv> (106 :: u8)"
abbreviation (input) "Rerror \<equiv> (107 :: u8)"
abbreviation (input) "Tflush \<equiv> (108 :: u8)"
abbreviation (input) "Rflush \<equiv> (109 :: u8)"
abbreviation (input) "Twalk \<equiv> (110 :: u8)"
abbreviation (input) "Rwalk \<equiv> (111 :: u8)"
abbreviation (input) "Topen \<equiv> (112 :: u8)"
abbreviation (input) "Ropen \<equiv> (113 :: u8)"
abbreviation (input) "Tcreate \<equiv> (114 :: u8)"
abbreviation (input) "Rcreate \<equiv> (115 :: u8)"
abbreviation (input) "Tread \<equiv> (116 :: u8)"
abbreviation (input) "Rread \<equiv> (117 :: u8)"
abbreviation (input) "Twrite \<equiv> (118 :: u8)"
abbreviation (input) "Rwrite \<equiv> (119 :: u8)"
abbreviation (input) "Tclunk \<equiv> (120 :: u8)"
abbreviation (input) "Rclunk \<equiv> (121 :: u8)"
abbreviation (input) "Tremove \<equiv> (122 :: u8)"
abbreviation (input) "Rremove \<equiv> (123 :: u8)"
abbreviation (input) "Tstat \<equiv> (124 :: u8)"
abbreviation (input) "Rstat \<equiv> (125 :: u8)"
abbreviation (input) "Twstat \<equiv> (126 :: u8)"
abbreviation (input) "Rwstat \<equiv> (127 :: u8)"
abbreviation (input) "Rlast \<equiv> (128 :: u8)"

subsection \<open>Modes, permissions, limits\<close>

abbreviation (input) "Oread \<equiv> (0x00 :: u8)"
abbreviation (input) "Owrite \<equiv> (0x01 :: u8)"
abbreviation (input) "Ordwr \<equiv> (0x02 :: u8)"
abbreviation (input) "Oexcl \<equiv> (0x04 :: u8)"
abbreviation (input) "Otrunc \<equiv> (0x10 :: u8)"
abbreviation (input) "Orclose \<equiv> (0x40 :: u8)"
abbreviation (input) "Oappend \<equiv> (0x80 :: u8)"
abbreviation (input) "Onotopen \<equiv> (0xFFFF :: u16)"
abbreviation (input) "Dmdir \<equiv> (0x80000000 :: u32)"
abbreviation (input) "Dmsymlink \<equiv> (0x02000000 :: u32)"
abbreviation (input) "Dmlink \<equiv> (0x01000000 :: u32)"
abbreviation (input) "Dmdevice \<equiv> (0x00800000 :: u32)"
abbreviation (input) "Dmnamedpipe \<equiv> (0x00200000 :: u32)"
abbreviation (input) "Dmsocket \<equiv> (0x00100000 :: u32)"
abbreviation (input) "Qtdir \<equiv> (0x80 :: u16)"
abbreviation (input) "Qtauth \<equiv> (0x08 :: u16)"
abbreviation (input) "Ftxattr \<equiv> (0x100 :: u16)"
abbreviation (input) "NOTAG \<equiv> (0xFFFF :: u16)"
abbreviation (input) "NOFID \<equiv> (0xFFFFFFFF :: u32)"
abbreviation (input) "MAXWELEM \<equiv> (16 :: nat)"
abbreviation (input) "IOHDRSZ \<equiv> (24 :: u32)"

subsection \<open>Structures\<close>

record Npqid =
  q_type :: u8
  q_version :: u32
  q_path :: u64

record Npstat =
  st_size :: u16
  st_type :: u16
  st_dev :: u32
  st_qid :: Npqid
  st_mode :: u32
  st_atime :: u32
  st_mtime :: u32
  st_length :: u64
  st_name :: Npstr
  st_uid :: Npstr
  st_gid :: Npstr
  st_muid :: Npstr
  st_extension :: Npstr
  st_n_uid :: u32
  st_n_gid :: u32
  st_n_muid :: u32

record Npwstat =
  ws_size :: u16
  ws_type :: u16
  ws_dev :: u32
  ws_qid :: Npqid
  ws_mode :: u32
  ws_atime :: u32
  ws_mtime :: u32
  ws_length :: u64
  ws_name :: "cstring option"
  ws_uid :: "cstring option"
  ws_gid :: "cstring option"
  ws_muid :: "cstring option"
  ws_extension :: "cstring option"
  ws_n_uid :: u32
  ws_n_gid :: u32
  ws_n_muid :: u32

record Npstatfs =
  sf_type :: u32
  sf_bsize :: u32
  sf_blocks :: u64
  sf_bfree :: u64
  sf_bavail :: u64
  sf_files :: u64
  sf_ffree :: u64
  sf_fsid :: u64
  sf_namelen :: u32

record Npattrs =
  at_mask :: u64
  at_mode :: u32
  at_uid :: u32
  at_gid :: u32
  at_nlink :: u64
  at_rdev :: u64
  at_size :: u64
  at_blksize :: u64
  at_blocks :: u64
  at_atime_sec :: u64
  at_atime_nsec :: u64
  at_mtime_sec :: u64
  at_mtime_nsec :: u64
  at_ctime_sec :: u64
  at_ctime_nsec :: u64
  at_btime_sec :: u64
  at_btime_nsec :: u64
  at_gen :: u64
  at_data_version :: u64

text \<open>
  One message. \<open>fc_pkt\<close> is the block \<^verbatim>\<open>pkt\<close> points at. \<open>fc_data\<close> holds the bytes that can
  be reached through \<^verbatim>\<open>data\<close>, at most \<open>fc_count\<close> of them: fewer when the pointer does not cover
  the count. \<open>fc_wnames\<close> and \<open>fc_wqids\<close> are the used parts of the arrays.
\<close>

record Npfcall =
  fc_size :: u32
  fc_type :: u8
  fc_tag :: u16
  fc_pkt :: bytes
  fc_fid :: u32
  fc_msize :: u32
  fc_version :: Npstr
  fc_afid :: u32
  fc_uname :: Npstr
  fc_aname :: Npstr
  fc_qid :: Npqid
  fc_ename :: Npstr
  fc_oldtag :: u16
  fc_newfid :: u32
  fc_nwname :: u16
  fc_wnames :: "Npstr list"
  fc_nwqid :: u16
  fc_wqids :: "Npqid list"
  fc_mode :: u8
  fc_iounit :: u32
  fc_name :: Npstr
  fc_perm :: u32
  fc_offset :: u64
  fc_count :: u32
  fc_data :: "bytes option"
  fc_stat :: Npstat
  fc_ecode :: u32
  fc_extension :: Npstr
  fc_n_uname :: u32
  fc_stfs :: Npstatfs
  fc_flags :: u32
  fc_gid :: u32
  fc_major :: u32
  fc_minor :: u32
  fc_symtgt :: Npstr
  fc_dfid :: u32
  fc_mask :: u64
  fc_attrs :: Npattrs
  fc_asize :: u64
  fc_locktype :: u8
  fc_locklength :: u64
  fc_procid :: u32
  fc_clientid :: Npstr
  fc_lockstatus :: u8
  fc_oname :: Npstr

subsection \<open>Writing and reading one field\<close>

text \<open>
  A step over a buffer and the structure being filled: \<open>put sel upd v\<close> writes \<open>v\<close> and stores
  it in the field with selector \<open>sel\<close> and update \<open>upd\<close> (the \<open>pval\<close> argument of the C writer);
  \<open>get upd\<close> reads a field.
\<close>

type_synonym 'r step = "cbuf \<times> 'r \<Rightarrow> cbuf \<times> 'r"

definition putf :: "(cbuf \<Rightarrow> 'v \<Rightarrow> 'f \<Rightarrow> cbuf \<times> 'f) \<Rightarrow> ('r \<Rightarrow> 'f) \<Rightarrow> (('f \<Rightarrow> 'f) \<Rightarrow> 'r \<Rightarrow> 'r) \<Rightarrow> 'v \<Rightarrow> 'r step" where
  "putf put sel upd v s =
     (case put (fst s) v (sel (snd s)) of (b, x) \<Rightarrow> (b, upd (\<lambda>_. x) (snd s)))"

definition getf :: "(cbuf \<Rightarrow> 'f \<times> cbuf) \<Rightarrow> (('f \<Rightarrow> 'f) \<Rightarrow> 'r \<Rightarrow> 'r) \<Rightarrow> 'r step" where
  "getf get upd s = (case get (fst s) of (x, b) \<Rightarrow> (b, upd (\<lambda>_. x) (snd s)))"

abbreviation "put8 \<equiv> putf buf_put_int8"
abbreviation "put16 \<equiv> putf buf_put_int16"
abbreviation "put32 \<equiv> putf buf_put_int32"
abbreviation "put64 \<equiv> putf buf_put_int64"
abbreviation "putstr \<equiv> putf buf_put_str"
abbreviation "get8 \<equiv> getf buf_get_int8"
abbreviation "get16 \<equiv> getf buf_get_int16"
abbreviation "get32 \<equiv> getf buf_get_int32"
abbreviation "get64 \<equiv> getf buf_get_int64"
abbreviation "getstr \<equiv> getf buf_get_str"

fun steps :: "('s \<Rightarrow> 's) list \<Rightarrow> 's \<Rightarrow> 's" where
  "steps [] s = s"
| "steps (f # fs) s = steps fs (f s)"

text \<open>The writers called with a NULL \<open>pval\<close>.\<close>

definition put16_null :: "u16 \<Rightarrow> 'r step" where
  "put16_null v s = (fst (buf_put_int16 (fst s) v 0), snd s)"

definition put32_null :: "u32 \<Rightarrow> 'r step" where
  "put32_null v s = (fst (buf_put_int32 (fst s) v 0), snd s)"

end
