(* ===== verification/Np_Fields.thy ===== *)
theory Np_Fields
  imports Npfcall
begin

text \<open>
  The composite fields of \<^verbatim>\<open>libnpfs/np.c\<close>: qids, stat and statfs records and directory
  entries, with their sizes; the counted-string helpers; and the three entry points that
  serialize a stat record or a directory entry into a caller's buffer and parse one back.
\<close>

subsection \<open>Writers\<close>

definition buf_put_qid :: "cbuf \<Rightarrow> Npqid \<Rightarrow> Npqid \<Rightarrow> cbuf \<times> Npqid" where
  "buf_put_qid buf qid pqid =
     steps
      [put8 q_type q_type_update (q_type qid),
       put32 q_version q_version_update (q_version qid),
       put64 q_path q_path_update (q_path qid)] (buf, pqid)"

definition buf_put_wstat :: "cbuf \<Rightarrow> Npwstat \<Rightarrow> Npstat \<Rightarrow> int \<Rightarrow> bool \<Rightarrow> cbuf \<times> Npstat" where
  "buf_put_wstat bufp wstat stat statsz dotu =
     steps
      ([put16 st_size st_size_update (word_of_int statsz),
        put16 st_type st_type_update (ws_type wstat),
        put32 st_dev st_dev_update (ws_dev wstat),
        putf buf_put_qid st_qid st_qid_update (ws_qid wstat),
        put32 st_mode st_mode_update (ws_mode wstat),
        put32 st_atime st_atime_update (ws_atime wstat),
        put32 st_mtime st_mtime_update (ws_mtime wstat),
        put64 st_length st_length_update (ws_length wstat),
        putstr st_name st_name_update (ws_name wstat),
        putstr st_uid st_uid_update (ws_uid wstat),
        putstr st_gid st_gid_update (ws_gid wstat),
        putstr st_muid st_muid_update (ws_muid wstat)] @
       (if dotu then
         [putstr st_extension st_extension_update (ws_extension wstat),
          put32 st_n_uid st_n_uid_update (ws_n_uid wstat),
          put32 st_n_gid st_n_gid_update (ws_n_gid wstat),
          put32 st_n_muid st_n_muid_update (ws_n_muid wstat)]
        else [\<lambda>s. (fst s, (snd s)\<lparr>st_extension := np_strzero\<rparr>)])) (bufp, stat)"

definition buf_put_statfs :: "cbuf \<Rightarrow> Npstatfs \<Rightarrow> Npstatfs \<Rightarrow> cbuf \<times> Npstatfs" where
  "buf_put_statfs bufp stfs stat =
     steps
      [put32 sf_type sf_type_update (sf_type stfs),
       put32 sf_bsize sf_bsize_update (sf_bsize stfs),
       put64 sf_blocks sf_blocks_update (sf_blocks stfs),
       put64 sf_bfree sf_bfree_update (sf_bfree stfs),
       put64 sf_bavail sf_bavail_update (sf_bavail stfs),
       put64 sf_files sf_files_update (sf_files stfs),
       put64 sf_ffree sf_ffree_update (sf_ffree stfs),
       put64 sf_fsid sf_fsid_update (sf_fsid stfs),
       put32 sf_namelen sf_namelen_update (sf_namelen stfs)] (bufp, stat)"

definition buf_put_dirent :: "cbuf \<Rightarrow> Npqid \<Rightarrow> u64 \<Rightarrow> u8 \<Rightarrow> cstring \<Rightarrow> cbuf" where
  "buf_put_dirent bufp qid offset type name =
     (let (bufp, _) = buf_put_qid bufp qid qid;
          (bufp, _) = buf_put_int64 bufp offset 0;
          (bufp, _) = buf_put_int8 bufp type 0;
          (bufp, _) = buf_put_str bufp (Some name) np_strzero
      in bufp)"

subsection \<open>Readers\<close>

definition qid0 :: Npqid where
  "qid0 = \<lparr>q_type = 0, q_version = 0, q_path = 0\<rparr>"

definition buf_get_qid :: "cbuf \<Rightarrow> Npqid \<times> cbuf" where
  "buf_get_qid buf =
     prod.swap (steps [get8 q_type_update, get32 q_version_update, get64 q_path_update] (buf, qid0))"

text \<open>\<open>stat\<close> is what the structure held before: without \<open>dotu\<close> the numeric ids keep their values.\<close>

definition buf_get_stat :: "cbuf \<Rightarrow> Npstat \<Rightarrow> bool \<Rightarrow> cbuf \<times> Npstat" where
  "buf_get_stat buf stat dotu =
     steps
      ([get16 st_size_update, get16 st_type_update, get32 st_dev_update,
        getf buf_get_qid st_qid_update,
        get32 st_mode_update, get32 st_atime_update, get32 st_mtime_update, get64 st_length_update,
        getstr st_name_update, getstr st_uid_update, getstr st_gid_update, getstr st_muid_update] @
       (if dotu then
         [getstr st_extension_update, get32 st_n_uid_update, get32 st_n_gid_update,
          get32 st_n_muid_update]
        else [\<lambda>s. (fst s, (snd s)\<lparr>st_extension := np_strzero\<rparr>)])) (buf, stat)"

definition buf_get_statfs :: "cbuf \<Rightarrow> Npstatfs \<Rightarrow> cbuf \<times> Npstatfs" where
  "buf_get_statfs bufp stfs =
     steps
      [get32 sf_type_update, get32 sf_bsize_update, get64 sf_blocks_update, get64 sf_bfree_update,
       get64 sf_bavail_update, get64 sf_files_update, get64 sf_ffree_update, get64 sf_fsid_update,
       get32 sf_namelen_update] (bufp, stfs)"

subsection \<open>Sizes\<close>

definition strlen_opt :: "cstring option \<Rightarrow> int" where
  "strlen_opt s = (case s of None \<Rightarrow> 0 | Some cs \<Rightarrow> int (length cs))"

definition size_wstat :: "Npwstat option \<Rightarrow> bool \<Rightarrow> int" where
  "size_wstat wstat dotu =
     (case wstat of
        None \<Rightarrow> 0
      | Some w \<Rightarrow>
          2 + 4 + 13 + 4 + 4 + 4 + 8 + 8 +
          strlen_opt (ws_name w) + strlen_opt (ws_uid w) + strlen_opt (ws_gid w) +
          strlen_opt (ws_muid w) +
          (if dotu then 4 + 4 + 4 + 2 + strlen_opt (ws_extension w) else 0))"

definition size_statfs :: "Npstatfs \<Rightarrow> int" where
  "size_statfs stfs = 4 + 8 + 8 + 8 + 8 + 8 + 8 + 8 + 4"

subsection \<open>Counted strings\<close>

text \<open>
  \<^verbatim>\<open>np_strdup\<close> copies the bytes and terminates them: as a C string the result ends at the first
  NUL. Reading through a NULL pointer is \<open>None\<close>.
\<close>

definition np_strdup :: "Npstr \<Rightarrow> cstring option" where
  "np_strdup str =
     (case s_str str of
        None \<Rightarrow> (if s_len str = 0 then Some [] else None)
      | Some bs \<Rightarrow> Some (takeWhile (\<lambda>b. b \<noteq> 0) (take (unat (s_len str)) bs)))"

definition byte_at :: "bytes \<Rightarrow> u8" where
  "byte_at xs = (case xs of [] \<Rightarrow> 0 | x # _ \<Rightarrow> x)"

fun strncmp :: "bytes \<Rightarrow> bytes \<Rightarrow> nat \<Rightarrow> int" where
  "strncmp xs ys 0 = 0"
| "strncmp xs ys (Suc n) =
     (if byte_at xs \<noteq> byte_at ys then uint (byte_at xs) - uint (byte_at ys)
      else if byte_at xs = 0 then 0
      else strncmp (tl xs) (tl ys) n)"

text \<open>
  \<^verbatim>\<open>np_strcmp\<close> looks at \<open>cs[str->len]\<close> when the first \<open>str->len\<close> bytes agree; an index past the
  terminating NUL of \<open>cs\<close> is outside the string, and the model yields \<open>None\<close>.
\<close>

definition np_strcmp :: "Npstr \<Rightarrow> cstring \<Rightarrow> int option" where
  "np_strcmp str cs =
     (case s_str str of
        None \<Rightarrow> (if s_len str = 0 then Some (if cs = [] then 0 else 1) else None)
      | Some bs \<Rightarrow>
          (let ret = strncmp bs cs (unat (s_len str))
           in if ret \<noteq> 0 then Some ret
              else if unat (s_len str) < length cs then Some 1
              else if unat (s_len str) = length cs then Some 0
              else None))"

definition np_strncmp :: "Npstr \<Rightarrow> cstring \<Rightarrow> nat \<Rightarrow> int option" where
  "np_strncmp str cs len =
     (if len \<le> unat (s_len str)
      then (case s_str str of
              None \<Rightarrow> (if len = 0 then Some 0 else None)
            | Some bs \<Rightarrow> Some (strncmp bs cs len))
      else np_strcmp str cs)"

subsection \<open>Serializing into a caller's buffer\<close>

text \<open>
  The result is the number of bytes written, 0 when the record does not fit, together with the
  buffer; \<open>buf\<close> must hold at least \<open>buflen\<close> bytes, or the access is out of bounds
  (\<open>cb_fault\<close>). \<open>junk\<close> is the uninitialised local \<^verbatim>\<open>Npstat stat\<close>.
\<close>

definition np_serialize_stat :: "Npstat \<Rightarrow> Npwstat \<Rightarrow> bytes \<Rightarrow> int \<Rightarrow> bool \<Rightarrow> int \<times> cbuf" where
  "np_serialize_stat junk wstat buf buflen dotu =
     (let statsz = size_wstat (Some wstat) dotu; bufp = buf_init buf 0 buflen
      in if statsz > buflen then (0, bufp)
         else let (bufp, _) = buf_put_wstat bufp wstat junk statsz dotu
              in if buf_check_overflow bufp then (0, bufp) else (cb_p bufp - cb_sp bufp, bufp))"

definition np_serialize_dirent :: "Npqid \<Rightarrow> u64 \<Rightarrow> u8 \<Rightarrow> cstring \<Rightarrow> bytes \<Rightarrow> int \<Rightarrow> int \<times> cbuf" where
  "np_serialize_dirent qid offset type name buf buflen =
     (let dsz = 13 + 8 + 1 + 2 + int (length name); bufp = buf_init buf 0 buflen
      in if dsz > buflen then (0, bufp)
         else let bufp = buf_put_dirent bufp qid offset type name
              in if buf_check_overflow bufp then (0, bufp) else (cb_p bufp - cb_sp bufp, bufp))"

definition np_deserialize_stat :: "Npstat \<Rightarrow> bytes \<Rightarrow> int \<Rightarrow> bool \<Rightarrow> int \<times> Npstat \<times> bool" where
  "np_deserialize_stat stat buf buflen dotu =
     (let (bufp, stat) = buf_get_stat (buf_init buf 0 buflen) stat dotu
      in if buf_check_overflow bufp then (0, stat, cb_fault bufp)
         else (cb_p bufp - cb_sp bufp, stat, cb_fault bufp))"

subsection \<open>Encodings of the composite fields\<close>

definition encqid :: "Npqid \<Rightarrow> bytes" where
  "encqid q = enc8 (q_type q) @ enc32 (q_version q) @ enc64 (q_path q)"

definition encstatfs :: "Npstatfs \<Rightarrow> bytes" where
  "encstatfs s = enc32 (sf_type s) @ enc32 (sf_bsize s) @ enc64 (sf_blocks s) @ enc64 (sf_bfree s) @
     enc64 (sf_bavail s) @ enc64 (sf_files s) @ enc64 (sf_ffree s) @ enc64 (sf_fsid s) @
     enc32 (sf_namelen s)"

text \<open>The stat record of the 9P2000 specification: \<open>size[2]\<close> counts the bytes after itself.\<close>

definition encwstat_body :: "Npwstat \<Rightarrow> bool \<Rightarrow> bytes" where
  "encwstat_body w dotu =
     enc16 (ws_type w) @ enc32 (ws_dev w) @ encqid (ws_qid w) @ enc32 (ws_mode w) @
     enc32 (ws_atime w) @ enc32 (ws_mtime w) @ enc64 (ws_length w) @
     encstr (cs_of (ws_name w)) @ encstr (cs_of (ws_uid w)) @ encstr (cs_of (ws_gid w)) @
     encstr (cs_of (ws_muid w)) @
     (if dotu then encstr (cs_of (ws_extension w)) @ enc32 (ws_n_uid w) @ enc32 (ws_n_gid w) @
                   enc32 (ws_n_muid w)
      else [])"

definition encwstat :: "Npwstat \<Rightarrow> bool \<Rightarrow> bytes" where
  "encwstat w dotu = enc16 (of_nat (length (encwstat_body w dotu))) @ encwstat_body w dotu"

definition encdirent :: "Npqid \<Rightarrow> u64 \<Rightarrow> u8 \<Rightarrow> cstring \<Rightarrow> bytes" where
  "encdirent qid offset type name = encqid qid @ enc64 offset @ enc8 type @ encstr name"

text \<open>The parsed form of a stat record; \<open>st\<close> supplies the ids a non-\<open>dotu\<close> record lacks.\<close>

definition stat_of :: "Npwstat \<Rightarrow> bool \<Rightarrow> Npstat \<Rightarrow> Npstat" where
  "stat_of w dotu st =
     \<lparr>st_size = of_nat (length (encwstat_body w dotu)), st_type = ws_type w, st_dev = ws_dev w,
      st_qid = ws_qid w, st_mode = ws_mode w, st_atime = ws_atime w, st_mtime = ws_mtime w,
      st_length = ws_length w, st_name = npstr (cs_of (ws_name w)), st_uid = npstr (cs_of (ws_uid w)),
      st_gid = npstr (cs_of (ws_gid w)), st_muid = npstr (cs_of (ws_muid w)),
      st_extension = (if dotu then npstr (cs_of (ws_extension w)) else np_strzero),
      st_n_uid = (if dotu then ws_n_uid w else st_n_uid st),
      st_n_gid = (if dotu then ws_n_gid w else st_n_gid st),
      st_n_muid = (if dotu then ws_n_muid w else st_n_muid st)\<rparr>"

definition wstat_ok :: "Npwstat \<Rightarrow> bool" where
  "wstat_ok w \<longleftrightarrow>
     length (cs_of (ws_name w)) < 2 ^ 16 \<and> length (cs_of (ws_uid w)) < 2 ^ 16 \<and>
     length (cs_of (ws_gid w)) < 2 ^ 16 \<and> length (cs_of (ws_muid w)) < 2 ^ 16 \<and>
     length (cs_of (ws_extension w)) < 2 ^ 16"

subsection \<open>The composite codecs\<close>

lemma putf_pair [wire_simps]: "putf put sel upd v (b, r) =
    (case put b v (sel r) of (b', x) \<Rightarrow> (b', upd (\<lambda>_. x) r))"
  by (simp add: putf_def)

lemma getf_pair [wire_simps]: "getf get upd (b, r) = (case get b of (x, b') \<Rightarrow> (b', upd (\<lambda>_. x) r))"
  by (simp add: getf_def)

lemma put_null_pair [wire_simps]:
  "put16_null v16 (b, r) = (fst (buf_put_int16 b v16 0), r)"
  "put32_null v32 (b, r) = (fst (buf_put_int32 b v32 0), r)"
  by (simp_all add: put16_null_def put32_null_def)

lemma encqid_length [simp]: "length (encqid q) = 13"
  by (simp add: encqid_def)

interpretation qid: wire_codec buf_put_qid buf_get_qid encqid "\<lambda>q. q" "\<lambda>_. True"
  by unfold_locales
    (simp_all add: buf_put_qid_def buf_get_qid_def encqid_def qid0_def wire_simps)

lemma strlen_opt_cs_of: "strlen_opt s = int (length (cs_of s))"
  by (simp add: strlen_opt_def cs_of_def split: option.splits)

lemma size_wstat_body: "size_wstat (Some w) dotu = int (length (encwstat_body w dotu))"
  by (simp add: size_wstat_def encwstat_body_def strlen_opt_cs_of)

lemma encwstat_length: "length (encwstat w dotu) = 2 + length (encwstat_body w dotu)"
  by (simp add: encwstat_def)

lemma buf_put_wstat_fits:
  assumes "length (encwstat w dotu) \<le> length xs"
  shows "buf_put_wstat (cbf pre xs post sp) w st (size_wstat (Some w) dotu) dotu =
    (cbf (pre @ encwstat w dotu) (drop (length (encwstat w dotu)) xs) post sp, stat_of w dotu st)"
  using assms unfolding buf_put_wstat_def size_wstat_body encwstat_def
  by (cases dotu)
    (simp_all add: encwstat_body_def stat_of_def wire_simps qid.put_fits ac_simps)

lemma buf_get_stat_enc:
  assumes "wstat_ok w"
  shows "buf_get_stat (cbf pre (encwstat w dotu @ xs) post sp) st dotu =
    (cbf (pre @ encwstat w dotu) xs post sp, stat_of w dotu st)"
  using assms unfolding buf_get_stat_def encwstat_def wstat_ok_def
  by (cases dotu)
    (simp_all add: encwstat_body_def stat_of_def wire_simps qid.get_enc)

lemma buf_put_statfs_fits:
  "length (encstatfs s) \<le> length xs \<Longrightarrow> buf_put_statfs (cbf pre xs post sp) s old =
    (cbf (pre @ encstatfs s) (drop (length (encstatfs s)) xs) post sp, s)"
  by (simp add: buf_put_statfs_def encstatfs_def wire_simps)

lemma buf_get_statfs_enc:
  "buf_get_statfs (cbf pre (encstatfs s @ xs) post sp) old = (cbf (pre @ encstatfs s) xs post sp, s)"
  by (simp add: buf_get_statfs_def encstatfs_def wire_simps)

lemma buf_put_dirent_fits:
  "length (encdirent q off ty nm) \<le> length xs \<Longrightarrow> buf_put_dirent (cbf pre xs post sp) q off ty nm =
    cbf (pre @ encdirent q off ty nm) (drop (length (encdirent q off ty nm)) xs) post sp"
  by (simp add: buf_put_dirent_def encdirent_def wire_simps qid.put_fits ac_simps)

declare qid.put_fits [wire_simps] qid.get_enc [wire_simps]

end
