(* ===== verification/Np_Create.thy ===== *)
theory Np_Create
  imports Np_Fields
begin

text \<open>
  The message constructors of \<^verbatim>\<open>libnpfs/np.c\<close> for 9P2000 and 9P2000.u: one definition per
  \<^verbatim>\<open>np_create_*\<close> function, built like the C from \<^verbatim>\<open>np_create_common\<close>, a sequence of field
  writers and \<^verbatim>\<open>np_post_check\<close>.

  The first argument \<open>mal\<close> is what \<^verbatim>\<open>malloc\<close> returned: \<open>None\<close> for NULL, \<open>Some fc\<close> for a
  block whose previous content (the fields and the bytes behind them) is arbitrary. The result is
  the message, or why there is none: \<open>CNoMem\<close> is NULL with the error "no memory" recorded,
  \<open>CNull\<close> is NULL with no error recorded, \<open>CUndef\<close> marks undefined behaviour (an access
  through NULL or outside the allocated block).
\<close>

datatype cerr = CNoMem | CNull | CUndef

type_synonym created = "cerr + Npfcall"

text \<open>The first \<open>n\<close> bytes of an uninitialised block.\<close>

definition fresh_block :: "nat \<Rightarrow> bytes \<Rightarrow> bytes" where
  "fresh_block n junk = take n (junk @ replicate n 0)"

definition np_create_common :: "Npfcall option \<Rightarrow> u32 \<Rightarrow> u8 \<Rightarrow> cerr + cbuf \<times> Npfcall" where
  "np_create_common mal sz ty =
     (let sz = sz + (4 + 1 + 2)
      in case mal of
           None \<Rightarrow> Inl CNoMem
         | Some fc \<Rightarrow>
             Inr (steps
               [put32 fc_size fc_size_update sz,
                put8 fc_type fc_type_update ty,
                put16 fc_tag fc_tag_update NOTAG]
               (buf_init (fresh_block (unat sz) (fc_pkt fc)) 0 (sint sz), fc)))"

definition np_post_check :: "cbuf \<times> Npfcall \<Rightarrow> created" where
  "np_post_check s =
     (if cb_fault (fst s) then Inl CUndef
      else if buf_check_overflow (fst s) then Inl CNull
      else Inr ((snd s)\<lparr>fc_pkt := cb_mem (fst s)\<rparr>))"

text \<open>The body every constructor shares.\<close>

definition np_create :: "Npfcall option \<Rightarrow> u32 \<Rightarrow> u8 \<Rightarrow> Npfcall step list \<Rightarrow> created" where
  "np_create mal sz ty puts =
     (case np_create_common mal sz ty of
        Inl e \<Rightarrow> Inl e
      | Inr s \<Rightarrow> np_post_check (steps puts s))"

abbreviation "strlen cs \<equiv> of_nat (length cs) :: u32"
abbreviation "strlen0 s \<equiv> of_nat (length (cs_of s)) :: u32"

subsection \<open>Data blocks\<close>

text \<open>
  \<^verbatim>\<open>buf_alloc(bufp, count)\<close> takes a signed length, so a count of \<open>2\<^sup>3\<^sup>1\<close> or more moves the cursor
  backwards. \<open>cb_reach\<close> is what can be read through the pointer. \<open>src\<close> is the \<^verbatim>\<open>memmove\<close>
  source: nothing for the \<^verbatim>\<open>np_alloc\<close> functions.
\<close>

definition cb_reach :: "cbuf \<Rightarrow> int \<Rightarrow> nat \<Rightarrow> bytes" where
  "cb_reach buf at n = (if 0 \<le> at then take n (drop (nat at) (cb_mem buf)) else [])"

definition cb_memmove :: "cbuf \<Rightarrow> int \<Rightarrow> bytes \<Rightarrow> nat \<Rightarrow> cbuf" where
  "cb_memmove buf at src n =
     (if n \<le> length src then cb_store buf at (take n src) else buf\<lparr>cb_fault := True\<rparr>)"

definition alloc_data :: "u32 \<Rightarrow> bytes option \<Rightarrow> Npfcall step" where
  "alloc_data count src s =
     (case buf_alloc (fst s) (sint count) of
        (buf, None) \<Rightarrow> (buf, (snd s)\<lparr>fc_data := None\<rparr>)
      | (buf, Some at) \<Rightarrow>
          (let buf = (case src of None \<Rightarrow> buf | Some d \<Rightarrow> cb_memmove buf at d (unat count))
           in (buf, (snd s)\<lparr>fc_data := Some (cb_reach buf at (unat count))\<rparr>)))"

subsection \<open>9P2000 constructors\<close>

definition np_create_tversion :: "Npfcall option \<Rightarrow> u32 \<Rightarrow> cstring \<Rightarrow> created" where
  "np_create_tversion mal msize version =
     np_create mal (4 + 2 + strlen version) Tversion
       [put32 fc_msize fc_msize_update msize,
        putstr fc_version fc_version_update (Some version)]"

definition np_create_rversion :: "Npfcall option \<Rightarrow> u32 \<Rightarrow> cstring \<Rightarrow> created" where
  "np_create_rversion mal msize version =
     np_create mal (4 + 2 + strlen version) Rversion
       [put32 fc_msize fc_msize_update msize,
        putstr fc_version fc_version_update (Some version)]"

definition np_create_tauth ::
  "Npfcall option \<Rightarrow> u32 \<Rightarrow> cstring option \<Rightarrow> cstring option \<Rightarrow> u32 \<Rightarrow> bool \<Rightarrow> created" where
  "np_create_tauth mal fid uname aname n_uname dotu =
     np_create mal (4 + 2 + 2 + strlen0 uname + strlen0 aname) Tauth
       ([put32 fc_fid fc_fid_update fid,
         putstr fc_uname fc_uname_update uname,
         putstr fc_aname fc_aname_update aname] @
        (if dotu then [put32 fc_n_uname fc_n_uname_update n_uname] else []))"

definition np_create_rauth :: "Npfcall option \<Rightarrow> Npqid \<Rightarrow> created" where
  "np_create_rauth mal aqid =
     np_create mal 13 Rauth [putf buf_put_qid fc_qid fc_qid_update aqid]"

definition np_create_rerror :: "Npfcall option \<Rightarrow> cstring \<Rightarrow> int \<Rightarrow> bool \<Rightarrow> created" where
  "np_create_rerror mal ename ecode dotu =
     np_create mal (2 + strlen ename + (if dotu then 4 else 0)) Rerror
       ([putstr fc_ename fc_ename_update (Some ename)] @
        (if dotu then [put32 fc_ecode fc_ecode_update (word_of_int ecode)] else []))"

text \<open>\<^verbatim>\<open>np_create_rerror1\<close> copies the bytes of a counted string.\<close>

definition put_raw_ename :: "Npstr \<Rightarrow> Npfcall step" where
  "put_raw_ename ename s =
     (case buf_alloc (fst s) (int (unat (s_len ename))) of
        (buf, None) \<Rightarrow> (buf\<lparr>cb_fault := True\<rparr>, snd s)
      | (buf, Some at) \<Rightarrow>
          (cb_memmove buf at (cs_of (s_str ename)) (unat (s_len ename)),
           (snd s)\<lparr>fc_ename := ename\<rparr>))"

definition np_create_rerror1 :: "Npfcall option \<Rightarrow> Npstr \<Rightarrow> int \<Rightarrow> bool \<Rightarrow> created" where
  "np_create_rerror1 mal ename ecode dotu =
     np_create mal (2 + ucast (s_len ename) + (if dotu then 4 else 0)) Rerror
       ([put_raw_ename ename] @
        (if dotu then [put32 fc_ecode fc_ecode_update (word_of_int ecode)] else []))"

definition np_create_tflush :: "Npfcall option \<Rightarrow> u16 \<Rightarrow> created" where
  "np_create_tflush mal oldtag =
     np_create mal 2 Tflush [put16 fc_oldtag fc_oldtag_update oldtag]"

definition np_create_rflush :: "Npfcall option \<Rightarrow> created" where
  "np_create_rflush mal = np_create mal 0 Rflush []"

definition np_create_tattach ::
  "Npfcall option \<Rightarrow> u32 \<Rightarrow> u32 \<Rightarrow> cstring option \<Rightarrow> cstring option \<Rightarrow> u32 \<Rightarrow> bool \<Rightarrow> created" where
  "np_create_tattach mal fid afid uname aname n_uname dotu =
     np_create mal (4 + 4 + 2 + 2 + strlen0 uname + strlen0 aname + (if dotu then 4 else 0)) Tattach
       ([put32 fc_fid fc_fid_update fid,
         put32 fc_afid fc_afid_update afid,
         putstr fc_uname fc_uname_update uname,
         putstr fc_aname fc_aname_update aname] @
        (if dotu then [put32 fc_n_uname fc_n_uname_update n_uname] else []))"

definition np_create_rattach :: "Npfcall option \<Rightarrow> Npqid \<Rightarrow> created" where
  "np_create_rattach mal qid =
     np_create mal 13 Rattach [putf buf_put_qid fc_qid fc_qid_update qid]"

text \<open>The loops over \<open>wnames\<close> and \<open>wqids\<close>; an array entry that is not written keeps its old value.\<close>

definition put_wnames :: "cstring list \<Rightarrow> Npfcall step" where
  "put_wnames names s =
     (case put_all buf_put_str (map Some names) (fst s)
         (fc_wnames (snd s) @ replicate (length names) np_strzero) of
        (buf, xs) \<Rightarrow> (buf, (snd s)\<lparr>fc_wnames := xs\<rparr>))"

definition put_wqids :: "Npqid list \<Rightarrow> Npfcall step" where
  "put_wqids qids s =
     (case put_all buf_put_qid qids (fst s) (fc_wqids (snd s) @ replicate (length qids) qid0) of
        (buf, xs) \<Rightarrow> (buf, (snd s)\<lparr>fc_wqids := xs\<rparr>))"

definition np_create_twalk :: "Npfcall option \<Rightarrow> u32 \<Rightarrow> u32 \<Rightarrow> u16 \<Rightarrow> cstring list \<Rightarrow> created" where
  "np_create_twalk mal fid newfid nwname wnames =
     (if unat nwname > MAXWELEM then Inl CNull
      else if length wnames < unat nwname then Inl CUndef
      else
        let names = take (unat nwname) wnames
        in np_create mal (4 + 4 + 2 + ucast nwname * 2 + sum_list (map strlen names)) Twalk
             [put32 fc_fid fc_fid_update fid,
              put32 fc_newfid fc_newfid_update newfid,
              put16 fc_nwname fc_nwname_update nwname,
              put_wnames names])"

definition np_create_rwalk :: "Npfcall option \<Rightarrow> int \<Rightarrow> Npqid list \<Rightarrow> created" where
  "np_create_rwalk mal nwqid wqids =
     (if nwqid > int MAXWELEM then Inl CNull
      else if length wqids < nat nwqid then Inl CUndef
      else
        np_create mal (word_of_int (2 + nwqid * 13)) Rwalk
          [put16 fc_nwqid fc_nwqid_update (word_of_int nwqid),
           put_wqids (take (nat nwqid) wqids)])"

definition np_create_topen :: "Npfcall option \<Rightarrow> u32 \<Rightarrow> u8 \<Rightarrow> created" where
  "np_create_topen mal fid mode =
     np_create mal (4 + 1) Topen
       [put32 fc_fid fc_fid_update fid,
        put8 fc_mode fc_mode_update mode]"

definition np_create_ropen :: "Npfcall option \<Rightarrow> Npqid \<Rightarrow> u32 \<Rightarrow> created" where
  "np_create_ropen mal qid iounit =
     np_create mal (13 + 4) Ropen
       [putf buf_put_qid fc_qid fc_qid_update qid,
        put32 fc_iounit fc_iounit_update iounit]"

definition np_create_tcreate :: "Npfcall option \<Rightarrow> u32 \<Rightarrow> cstring \<Rightarrow> u32 \<Rightarrow> u8 \<Rightarrow> created" where
  "np_create_tcreate mal fid name perm mode =
     np_create mal (4 + 2 + strlen name + 4 + 1) Tcreate
       [put32 fc_fid fc_fid_update fid,
        putstr fc_name fc_name_update (Some name),
        put32 fc_perm fc_perm_update perm,
        put8 fc_mode fc_mode_update mode]"

definition np_create_rcreate :: "Npfcall option \<Rightarrow> Npqid \<Rightarrow> u32 \<Rightarrow> created" where
  "np_create_rcreate mal qid iounit =
     np_create mal (13 + 4) Rcreate
       [putf buf_put_qid fc_qid fc_qid_update qid,
        put32 fc_iounit fc_iounit_update iounit]"

definition np_create_tread :: "Npfcall option \<Rightarrow> u32 \<Rightarrow> u64 \<Rightarrow> u32 \<Rightarrow> created" where
  "np_create_tread mal fid offset count =
     np_create mal (4 + 8 + 4) Tread
       [put32 fc_fid fc_fid_update fid,
        put64 fc_offset fc_offset_update offset,
        put32 fc_count fc_count_update count]"

definition np_alloc_rread :: "Npfcall option \<Rightarrow> u32 \<Rightarrow> created" where
  "np_alloc_rread mal count =
     np_create mal (4 + count) Rread
       [put32 fc_count fc_count_update count,
        alloc_data count None]"

text \<open>
  \<^verbatim>\<open>np_create_rread\<close> dereferences the result of \<^verbatim>\<open>np_alloc_rread\<close> without a check; the data area
  starts after \<open>size[4] type[1] tag[2] count[4]\<close>.
\<close>

definition np_create_rread :: "Npfcall option \<Rightarrow> u32 \<Rightarrow> bytes \<Rightarrow> created" where
  "np_create_rread mal count data =
     (case np_alloc_rread mal count of
        Inl _ \<Rightarrow> Inl CUndef
      | Inr fc \<Rightarrow>
          (case fc_data fc of
             None \<Rightarrow> Inr fc
           | Some _ \<Rightarrow>
               (let buf = cb_memmove (buf_init (fc_pkt fc) 0 0) 11 data (unat count)
                in if cb_fault buf then Inl CUndef
                   else Inr (fc\<lparr>fc_pkt := cb_mem buf, fc_data := Some (take (unat count) data)\<rparr>))))"

text \<open>\<open>None\<close> when the assertion fails or the packet is shorter than the header.\<close>

definition np_set_rread_count :: "Npfcall \<Rightarrow> u32 \<Rightarrow> Npfcall option" where
  "np_set_rread_count fc count =
     (if \<not> count \<le> fc_count fc then None
      else
        let sz = 4 + 1 + 2 + 4 + count;
            (buf, fsize) = buf_put_int32 (buf_init (fc_pkt fc) 0 (sint sz)) sz (fc_size fc);
            (buf', fcount) =
              buf_put_int32 (buf_init (cb_mem buf) 7 (sint (sz - 7))) count (fc_count fc)
        in if cb_fault buf \<or> cb_fault buf' then None
           else Some (fc\<lparr>fc_size := fsize, fc_count := fcount, fc_pkt := cb_mem buf'\<rparr>))"

definition np_create_twrite :: "Npfcall option \<Rightarrow> u32 \<Rightarrow> u64 \<Rightarrow> u32 \<Rightarrow> bytes \<Rightarrow> created" where
  "np_create_twrite mal fid offset count data =
     np_create mal (4 + 8 + 4 + count) Twrite
       [put32 fc_fid fc_fid_update fid,
        put64 fc_offset fc_offset_update offset,
        put32 fc_count fc_count_update count,
        alloc_data count (Some data)]"

definition np_create_rwrite :: "Npfcall option \<Rightarrow> u32 \<Rightarrow> created" where
  "np_create_rwrite mal count =
     np_create mal 4 Rwrite [put32 fc_count fc_count_update count]"

definition np_create_tclunk :: "Npfcall option \<Rightarrow> u32 \<Rightarrow> created" where
  "np_create_tclunk mal fid = np_create mal 4 Tclunk [put32 fc_fid fc_fid_update fid]"

definition np_create_rclunk :: "Npfcall option \<Rightarrow> created" where
  "np_create_rclunk mal = np_create mal 0 Rclunk []"

definition np_create_tremove :: "Npfcall option \<Rightarrow> u32 \<Rightarrow> created" where
  "np_create_tremove mal fid = np_create mal 4 Tremove [put32 fc_fid fc_fid_update fid]"

definition np_create_rremove :: "Npfcall option \<Rightarrow> created" where
  "np_create_rremove mal = np_create mal 0 Rremove []"

definition np_create_tstat :: "Npfcall option \<Rightarrow> u32 \<Rightarrow> created" where
  "np_create_tstat mal fid = np_create mal 4 Tstat [put32 fc_fid fc_fid_update fid]"

definition put_wstat :: "Npwstat \<Rightarrow> int \<Rightarrow> bool \<Rightarrow> Npfcall step" where
  "put_wstat wstat statsz dotu s =
     (case buf_put_wstat (fst s) wstat (fc_stat (snd s)) statsz dotu of
        (buf, st) \<Rightarrow> (buf, (snd s)\<lparr>fc_stat := st\<rparr>))"

definition np_create_rstat :: "Npfcall option \<Rightarrow> Npwstat \<Rightarrow> bool \<Rightarrow> created" where
  "np_create_rstat mal wstat dotu =
     (let statsz = size_wstat (Some wstat) dotu
      in np_create mal (word_of_int (2 + 2 + statsz)) Rstat
           [put16_null (word_of_int (statsz + 2)),
            put_wstat wstat statsz dotu])"

definition np_create_twstat :: "Npfcall option \<Rightarrow> u32 \<Rightarrow> Npwstat \<Rightarrow> bool \<Rightarrow> created" where
  "np_create_twstat mal fid wstat dotu =
     (let statsz = size_wstat (Some wstat) dotu
      in np_create mal (word_of_int (4 + 2 + 2 + statsz)) Twstat
           [put32 fc_fid fc_fid_update fid,
            put16_null (word_of_int (statsz + 2)),
            put_wstat wstat statsz dotu])"

definition np_create_rwstat :: "Npfcall option \<Rightarrow> created" where
  "np_create_rwstat mal = np_create mal 0 Rwstat []"

subsection \<open>The tag of a finished packet\<close>

definition np_set_tag :: "Npfcall \<Rightarrow> u16 \<Rightarrow> Npfcall option" where
  "np_set_tag fc tag =
     (if 7 \<le> length (fc_pkt fc)
      then Some (fc\<lparr>fc_tag := tag,
                    fc_pkt := (fc_pkt fc)[5 := ucast tag, 6 := ucast (drop_bit 8 tag)]\<rparr>)
      else None)"

end
