(* ===== verification/Np_Create_L.thy ===== *)
theory Np_Create_L
  imports Np_Create
begin

text \<open>
  The message constructors of \<^verbatim>\<open>libnpfs/np.c\<close> for the 9P2000.L extension, and the errno
  translation of \<^verbatim>\<open>libnpfs/sys-Linux.c\<close> that \<^verbatim>\<open>np_create_rlerror\<close> uses.
\<close>

definition np_errno_to_linux :: "u32 \<Rightarrow> u32" where
  "np_errno_to_linux ecode = ecode"

definition np_create_lerror :: "Npfcall option \<Rightarrow> u32 \<Rightarrow> created" where
  "np_create_lerror mal ecode = np_create mal 4 Tlerror [put32 fc_ecode fc_ecode_update ecode]"

definition np_create_rlerror :: "Npfcall option \<Rightarrow> u32 \<Rightarrow> created" where
  "np_create_rlerror mal ecode =
     np_create mal 4 Rlerror [put32 fc_ecode fc_ecode_update (np_errno_to_linux ecode)]"

definition np_create_tstatfs :: "Npfcall option \<Rightarrow> u32 \<Rightarrow> created" where
  "np_create_tstatfs mal fid = np_create mal 4 Tstatfs [put32 fc_fid fc_fid_update fid]"

definition np_create_rstatfs :: "Npfcall option \<Rightarrow> Npstatfs \<Rightarrow> created" where
  "np_create_rstatfs mal stfs =
     np_create mal (word_of_int (size_statfs stfs)) Rstatfs
       [putf buf_put_statfs fc_stfs fc_stfs_update stfs]"

definition np_create_tlopen :: "Npfcall option \<Rightarrow> u32 \<Rightarrow> u32 \<Rightarrow> created" where
  "np_create_tlopen mal fid flags =
     np_create mal (4 + 4) Tlopen
       [put32 fc_fid fc_fid_update fid,
        put32 fc_flags fc_flags_update flags]"

definition np_create_rlopen :: "Npfcall option \<Rightarrow> Npqid \<Rightarrow> u32 \<Rightarrow> created" where
  "np_create_rlopen mal qid iounit =
     np_create mal (13 + 4) Rlopen
       [putf buf_put_qid fc_qid fc_qid_update qid,
        put32 fc_iounit fc_iounit_update iounit]"

definition np_create_tlcreate ::
  "Npfcall option \<Rightarrow> u32 \<Rightarrow> cstring \<Rightarrow> u32 \<Rightarrow> u32 \<Rightarrow> u32 \<Rightarrow> created" where
  "np_create_tlcreate mal fid name flags mode gid =
     np_create mal (4 + 2 + strlen name + 4 + 4 + 4) Tlcreate
       [put32 fc_fid fc_fid_update fid,
        putstr fc_name fc_name_update (Some name),
        put32 fc_flags fc_flags_update flags,
        put32 fc_perm fc_perm_update mode,
        put32 fc_gid fc_gid_update gid]"

definition np_create_rlcreate :: "Npfcall option \<Rightarrow> Npqid \<Rightarrow> u32 \<Rightarrow> created" where
  "np_create_rlcreate mal qid iounit =
     np_create mal (13 + 4) Rlcreate
       [putf buf_put_qid fc_qid fc_qid_update qid,
        put32 fc_iounit fc_iounit_update iounit]"

definition np_create_tsymlink ::
  "Npfcall option \<Rightarrow> u32 \<Rightarrow> cstring \<Rightarrow> cstring \<Rightarrow> u32 \<Rightarrow> created" where
  "np_create_tsymlink mal dfid name symtgt gid =
     np_create mal (4 + 2 + strlen name + 2 + strlen symtgt + 4) Tsymlink
       [put32 fc_fid fc_fid_update dfid,
        putstr fc_name fc_name_update (Some name),
        putstr fc_symtgt fc_symtgt_update (Some symtgt),
        put32 fc_gid fc_gid_update gid]"

definition np_create_rsymlink :: "Npfcall option \<Rightarrow> Npqid \<Rightarrow> created" where
  "np_create_rsymlink mal qid =
     np_create mal 13 Rsymlink [putf buf_put_qid fc_qid fc_qid_update qid]"

definition np_create_tmknod ::
  "Npfcall option \<Rightarrow> u32 \<Rightarrow> cstring \<Rightarrow> u32 \<Rightarrow> u32 \<Rightarrow> u32 \<Rightarrow> u32 \<Rightarrow> created" where
  "np_create_tmknod mal dfid name mode major minor gid =
     np_create mal (4 + 2 + strlen name + 4 + 4 + 4 + 4) Tmknod
       [put32 fc_fid fc_fid_update dfid,
        putstr fc_name fc_name_update (Some name),
        put32 fc_perm fc_perm_update mode,
        put32 fc_major fc_major_update major,
        put32 fc_minor fc_minor_update minor,
        put32 fc_gid fc_gid_update gid]"

definition np_create_rmknod :: "Npfcall option \<Rightarrow> Npqid \<Rightarrow> created" where
  "np_create_rmknod mal qid =
     np_create mal 13 Rmknod [putf buf_put_qid fc_qid fc_qid_update qid]"

definition np_create_trename :: "Npfcall option \<Rightarrow> u32 \<Rightarrow> u32 \<Rightarrow> cstring \<Rightarrow> created" where
  "np_create_trename mal fid dfid name =
     np_create mal (4 + 4 + 2 + strlen name) Trename
       [put32 fc_fid fc_fid_update fid,
        put32 fc_dfid fc_dfid_update dfid,
        putstr fc_name fc_name_update (Some name)]"

definition np_create_rrename :: "Npfcall option \<Rightarrow> created" where
  "np_create_rrename mal = np_create mal 0 Rrename []"

definition np_create_treadlink :: "Npfcall option \<Rightarrow> u32 \<Rightarrow> created" where
  "np_create_treadlink mal fid = np_create mal 4 Treadlink [put32 fc_fid fc_fid_update fid]"

definition np_create_rreadlink :: "Npfcall option \<Rightarrow> cstring \<Rightarrow> created" where
  "np_create_rreadlink mal target =
     np_create mal (2 + strlen target) Rreadlink [putstr fc_symtgt fc_symtgt_update (Some target)]"

definition np_create_tgetattr :: "Npfcall option \<Rightarrow> u32 \<Rightarrow> u64 \<Rightarrow> created" where
  "np_create_tgetattr mal fid msk =
     np_create mal (4 + 8) Tgetattr
       [put32 fc_fid fc_fid_update fid,
        put64 fc_mask fc_mask_update msk]"

text \<open>A writer of one field of \<open>fc->attrs\<close> (\<open>at\<close> in the C).\<close>

definition put_at :: "(cbuf \<Rightarrow> 'v \<Rightarrow> 'f \<Rightarrow> cbuf \<times> 'f) \<Rightarrow> (Npattrs \<Rightarrow> 'f) \<Rightarrow>
    (('f \<Rightarrow> 'f) \<Rightarrow> Npattrs \<Rightarrow> Npattrs) \<Rightarrow> 'v \<Rightarrow> Npfcall step" where
  "put_at put sel upd v =
     putf put (\<lambda>fc. sel (fc_attrs fc)) (\<lambda>f. fc_attrs_update (upd f)) v"

definition np_create_rgetattr :: "Npfcall option \<Rightarrow> u64 \<Rightarrow> Npattrs \<Rightarrow> Npqid \<Rightarrow> created" where
  "np_create_rgetattr mal msk attrs qid =
     np_create mal (8 + 13 + 4 + 4 + 4 + 8 + 8 + 8 + 8 + 8 +
                    8 + 8 + 8 + 8 + 8 + 8 + 8 + 8 + 8 + 8) Rgetattr
       [put64 fc_mask fc_mask_update msk,
        putf buf_put_qid fc_qid fc_qid_update qid,
        put_at buf_put_int32 at_mode at_mode_update (at_mode attrs),
        put_at buf_put_int32 at_uid at_uid_update (at_uid attrs),
        put_at buf_put_int32 at_gid at_gid_update (at_gid attrs),
        put_at buf_put_int64 at_nlink at_nlink_update (at_nlink attrs),
        put_at buf_put_int64 at_rdev at_rdev_update (at_rdev attrs),
        put_at buf_put_int64 at_size at_size_update (at_size attrs),
        put_at buf_put_int64 at_blksize at_blksize_update (at_blksize attrs),
        put_at buf_put_int64 at_blocks at_blocks_update (at_blocks attrs),
        put_at buf_put_int64 at_atime_sec at_atime_sec_update (at_atime_sec attrs),
        put_at buf_put_int64 at_atime_nsec at_atime_nsec_update (at_atime_nsec attrs),
        put_at buf_put_int64 at_mtime_sec at_mtime_sec_update (at_mtime_sec attrs),
        put_at buf_put_int64 at_mtime_nsec at_mtime_nsec_update (at_mtime_nsec attrs),
        put_at buf_put_int64 at_ctime_sec at_ctime_sec_update (at_ctime_sec attrs),
        put_at buf_put_int64 at_ctime_nsec at_ctime_nsec_update (at_ctime_nsec attrs),
        put_at buf_put_int64 at_btime_sec at_btime_sec_update (at_btime_sec attrs),
        put_at buf_put_int64 at_btime_nsec at_btime_nsec_update (at_btime_nsec attrs),
        put_at buf_put_int64 at_gen at_gen_update (at_gen attrs),
        put_at buf_put_int64 at_data_version at_data_version_update (at_data_version attrs)]"

definition np_create_tsetattr :: "Npfcall option \<Rightarrow> u32 \<Rightarrow> u32 \<Rightarrow> Npattrs \<Rightarrow> created" where
  "np_create_tsetattr mal fid msk attrs =
     np_create mal (4 + 4 + 4 + 4 + 8 + 8 + 8 + 8) Tsetattr
       [put32 fc_fid fc_fid_update fid,
        put32_null msk,
        \<lambda>s. (fst s, (snd s)\<lparr>fc_mask := ucast msk, fc_attrs := (fc_attrs (snd s))\<lparr>at_mask := ucast msk\<rparr>\<rparr>),
        put_at buf_put_int32 at_mode at_mode_update (at_mode attrs),
        put_at buf_put_int32 at_uid at_uid_update (at_uid attrs),
        put_at buf_put_int32 at_gid at_gid_update (at_gid attrs),
        put_at buf_put_int64 at_size at_size_update (at_size attrs),
        put_at buf_put_int64 at_atime_sec at_atime_sec_update (at_atime_sec attrs),
        put_at buf_put_int64 at_atime_nsec at_atime_nsec_update (at_atime_nsec attrs),
        put_at buf_put_int64 at_mtime_sec at_mtime_sec_update (at_mtime_sec attrs),
        put_at buf_put_int64 at_mtime_nsec at_mtime_nsec_update (at_mtime_nsec attrs)]"

definition np_create_rsetattr :: "Npfcall option \<Rightarrow> created" where
  "np_create_rsetattr mal = np_create mal 0 Rsetattr []"

definition np_create_txattrwalk :: "Npfcall option \<Rightarrow> u32 \<Rightarrow> u32 \<Rightarrow> cstring \<Rightarrow> created" where
  "np_create_txattrwalk mal fid newfid name =
     np_create mal (4 + 4 + 2 + strlen name) Txattrwalk
       [put32 fc_fid fc_fid_update fid,
        put32 fc_newfid fc_newfid_update newfid,
        putstr fc_name fc_name_update (Some name)]"

definition np_create_rxattrwalk :: "Npfcall option \<Rightarrow> u64 \<Rightarrow> created" where
  "np_create_rxattrwalk mal asize =
     np_create mal 8 Rxattrwalk [put64 fc_asize fc_asize_update asize]"

definition np_create_txattrcreate ::
  "Npfcall option \<Rightarrow> u32 \<Rightarrow> cstring \<Rightarrow> u64 \<Rightarrow> u32 \<Rightarrow> created" where
  "np_create_txattrcreate mal fid name asize flags =
     np_create mal (4 + 2 + strlen name + 8 + 4) Txattrcreate
       [put32 fc_fid fc_fid_update fid,
        putstr fc_name fc_name_update (Some name),
        put64 fc_asize fc_asize_update asize,
        put32 fc_flags fc_flags_update flags]"

definition np_create_rxattrcreate :: "Npfcall option \<Rightarrow> created" where
  "np_create_rxattrcreate mal = np_create mal 0 Rxattrcreate []"

definition np_create_treaddir :: "Npfcall option \<Rightarrow> u32 \<Rightarrow> u64 \<Rightarrow> u32 \<Rightarrow> created" where
  "np_create_treaddir mal fid offset count =
     np_create mal (4 + 8 + 4) Treaddir
       [put32 fc_fid fc_fid_update fid,
        put64 fc_offset fc_offset_update offset,
        put32 fc_count fc_count_update count]"

text \<open>\<^verbatim>\<open>np_create_rreaddir\<close> copies through the pointer without looking whether it is NULL.\<close>

definition alloc_data_unchecked :: "u32 \<Rightarrow> bytes \<Rightarrow> Npfcall step" where
  "alloc_data_unchecked count src s =
     (let t = alloc_data count (Some src) s
      in if fc_data (snd t) = None then ((fst t)\<lparr>cb_fault := True\<rparr>, snd t) else t)"

definition np_create_rreaddir :: "Npfcall option \<Rightarrow> u32 \<Rightarrow> bytes \<Rightarrow> created" where
  "np_create_rreaddir mal count data =
     np_create mal (4 + count) Rreaddir
       [put32 fc_count fc_count_update count,
        alloc_data_unchecked count data]"

definition np_alloc_rreaddir :: "Npfcall option \<Rightarrow> u32 \<Rightarrow> created" where
  "np_alloc_rreaddir mal count =
     np_create mal (4 + count) Rreaddir
       [put32 fc_count fc_count_update count,
        alloc_data count None]"

definition np_set_rreaddir_count :: "Npfcall \<Rightarrow> u32 \<Rightarrow> Npfcall option" where
  "np_set_rreaddir_count fc count =
     (if \<not> count \<le> fc_count fc then None
      else
        let sz = 4 + 1 + 2 + 4 + count;
            (buf, fsize) = buf_put_int32 (buf_init (fc_pkt fc) 0 (sint sz)) sz (fc_size fc);
            (buf', fcount) =
              buf_put_int32 (buf_init (cb_mem buf) 7 (sint (sz - 7))) count (fc_count fc)
        in if cb_fault buf \<or> cb_fault buf' then None
           else Some (fc\<lparr>fc_size := fsize, fc_count := fcount, fc_pkt := cb_mem buf'\<rparr>))"

definition np_create_tfsync :: "Npfcall option \<Rightarrow> u32 \<Rightarrow> created" where
  "np_create_tfsync mal fid = np_create mal 4 Tfsync [put32 fc_fid fc_fid_update fid]"

definition np_create_rfsync :: "Npfcall option \<Rightarrow> created" where
  "np_create_rfsync mal = np_create mal 0 Rfsync []"

definition np_create_tlock ::
  "Npfcall option \<Rightarrow> u32 \<Rightarrow> u8 \<Rightarrow> u32 \<Rightarrow> u64 \<Rightarrow> u64 \<Rightarrow> u32 \<Rightarrow> cstring \<Rightarrow> created" where
  "np_create_tlock mal fid type flags offset len procid clientid =
     np_create mal (4 + 1 + 4 + 8 + 8 + 4 + 2 + strlen clientid) Tlock
       [put32 fc_fid fc_fid_update fid,
        put8 fc_locktype fc_locktype_update type,
        put32 fc_flags fc_flags_update flags,
        put64 fc_offset fc_offset_update offset,
        put64 fc_locklength fc_locklength_update len,
        put32 fc_procid fc_procid_update procid,
        putstr fc_clientid fc_clientid_update (Some clientid)]"

definition np_create_rlock :: "Npfcall option \<Rightarrow> u8 \<Rightarrow> created" where
  "np_create_rlock mal status =
     np_create mal 1 Rlock [put8 fc_lockstatus fc_lockstatus_update status]"

definition np_create_tgetlock ::
  "Npfcall option \<Rightarrow> u32 \<Rightarrow> u8 \<Rightarrow> u64 \<Rightarrow> u64 \<Rightarrow> u32 \<Rightarrow> cstring \<Rightarrow> created" where
  "np_create_tgetlock mal fid type offset len procid clientid =
     np_create mal (4 + 1 + 8 + 8 + 4 + 2 + strlen clientid) Tgetlock
       [put32 fc_fid fc_fid_update fid,
        put8 fc_locktype fc_locktype_update type,
        put64 fc_offset fc_offset_update offset,
        put64 fc_locklength fc_locklength_update len,
        put32 fc_procid fc_procid_update procid,
        putstr fc_clientid fc_clientid_update (Some clientid)]"

definition np_create_rgetlock ::
  "Npfcall option \<Rightarrow> u8 \<Rightarrow> u64 \<Rightarrow> u64 \<Rightarrow> u32 \<Rightarrow> cstring \<Rightarrow> created" where
  "np_create_rgetlock mal type offset len procid clientid =
     np_create mal (1 + 8 + 8 + 4 + 2 + strlen clientid) Rgetlock
       [put8 fc_locktype fc_locktype_update type,
        put64 fc_offset fc_offset_update offset,
        put64 fc_locklength fc_locklength_update len,
        put32 fc_procid fc_procid_update procid,
        putstr fc_clientid fc_clientid_update (Some clientid)]"

definition np_create_tlink :: "Npfcall option \<Rightarrow> u32 \<Rightarrow> u32 \<Rightarrow> cstring \<Rightarrow> created" where
  "np_create_tlink mal dfid fid name =
     np_create mal (4 + 4 + 2 + strlen name) Tlink
       [put32 fc_dfid fc_dfid_update dfid,
        put32 fc_fid fc_fid_update fid,
        putstr fc_name fc_name_update (Some name)]"

definition np_create_rlink :: "Npfcall option \<Rightarrow> created" where
  "np_create_rlink mal = np_create mal 0 Rlink []"

definition np_create_tmkdir :: "Npfcall option \<Rightarrow> u32 \<Rightarrow> cstring \<Rightarrow> u32 \<Rightarrow> u32 \<Rightarrow> created" where
  "np_create_tmkdir mal dfid name mode gid =
     np_create mal (4 + 2 + strlen name + 4 + 4) Tmkdir
       [put32 fc_fid fc_fid_update dfid,
        putstr fc_name fc_name_update (Some name),
        put32 fc_perm fc_perm_update mode,
        put32 fc_gid fc_gid_update gid]"

definition np_create_rmkdir :: "Npfcall option \<Rightarrow> Npqid \<Rightarrow> created" where
  "np_create_rmkdir mal qid =
     np_create mal 13 Rmkdir [putf buf_put_qid fc_qid fc_qid_update qid]"

definition np_create_trenameat ::
  "Npfcall option \<Rightarrow> u32 \<Rightarrow> cstring \<Rightarrow> u32 \<Rightarrow> cstring \<Rightarrow> created" where
  "np_create_trenameat mal odfid oname ndfid nname =
     np_create mal (4 + 2 + strlen oname + 4 + 2 + strlen nname) Trenameat
       [put32 fc_fid fc_fid_update odfid,
        putstr fc_oname fc_oname_update (Some oname),
        put32 fc_newfid fc_newfid_update ndfid,
        putstr fc_name fc_name_update (Some nname)]"

definition np_create_rrenameat :: "Npfcall option \<Rightarrow> created" where
  "np_create_rrenameat mal = np_create mal 0 Rrenameat []"

definition np_create_tunlinkat :: "Npfcall option \<Rightarrow> u32 \<Rightarrow> cstring \<Rightarrow> u32 \<Rightarrow> created" where
  "np_create_tunlinkat mal dfid name flags =
     np_create mal (4 + 2 + strlen name + 4) Tunlinkat
       [put32 fc_fid fc_fid_update dfid,
        putstr fc_name fc_name_update (Some name),
        put32 fc_flags fc_flags_update flags]"

definition np_create_runlinkat :: "Npfcall option \<Rightarrow> created" where
  "np_create_runlinkat mal = np_create mal 0 Runlinkat []"

end
