(* ===== verification/Np_Deserialize.thy ===== *)
theory Np_Deserialize
  imports Np_Create_L
begin

text \<open>
  The message parser \<^verbatim>\<open>np_deserialize\<close> of \<^verbatim>\<open>libnpfs/np.c\<close>. Its \<^verbatim>\<open>switch\<close> over the message
  type is split into three definitions, for the 9P2000 messages and two halves of the 9P2000.L
  ones. Each yields \<open>None\<close> for a type it does not handle, otherwise whether the case ended with
  \<^verbatim>\<open>break\<close> (\<open>True\<close>) or \<^verbatim>\<open>goto error\<close> (\<open>False\<close>) and the buffer and the structure at that point.
  The theory also proves that the parser never leaves the packet.
\<close>

type_synonym pstate = "cbuf \<times> Npfcall"

definition fields :: "Npfcall step list \<Rightarrow> pstate \<Rightarrow> (bool \<times> pstate) option" where
  "fields fs s = Some (True, steps fs s)"

text \<open>A read whose value is dropped, a constant store, and a block of \<open>fc->count\<close> bytes.\<close>

definition skip16 :: "Npfcall step" where
  "skip16 s = (snd (buf_get_int16 (fst s)), snd s)"

definition setf :: "(Npfcall \<Rightarrow> Npfcall) \<Rightarrow> Npfcall step" where
  "setf f s = (fst s, f (snd s))"

definition get_data :: "Npfcall step" where
  "get_data s = alloc_data (fc_count (snd s)) None s"

definition get_fc_stat :: "bool \<Rightarrow> Npfcall step" where
  "get_fc_stat dotu s =
     (case buf_get_stat (fst s) (fc_stat (snd s)) dotu of (b, st) \<Rightarrow> (b, (snd s)\<lparr>fc_stat := st\<rparr>))"

definition get_fc_statfs :: "Npfcall step" where
  "get_fc_statfs s =
     (case buf_get_statfs (fst s) (fc_stfs (snd s)) of (b, st) \<Rightarrow> (b, (snd s)\<lparr>fc_stfs := st\<rparr>))"

definition get_wnames :: "Npfcall step" where
  "get_wnames s =
     (case get_all buf_get_str (unat (fc_nwname (snd s))) (fst s) of
        (xs, b) \<Rightarrow> (b, (snd s)\<lparr>fc_wnames := xs\<rparr>))"

definition get_wqids :: "Npfcall step" where
  "get_wqids s =
     (case get_all buf_get_qid (unat (fc_nwqid (snd s))) (fst s) of
        (xs, b) \<Rightarrow> (b, (snd s)\<lparr>fc_wqids := xs\<rparr>))"

abbreviation "getqid \<equiv> getf buf_get_qid fc_qid_update"

definition deserialize_9p2000 :: "u8 \<Rightarrow> bool \<Rightarrow> pstate \<Rightarrow> (bool \<times> pstate) option" where
  "deserialize_9p2000 type dotu s =
     (if type = Tversion \<or> type = Rversion then
        fields [get32 fc_msize_update, getstr fc_version_update] s
      else if type = Tauth then
        fields ([get32 fc_afid_update, getstr fc_uname_update, getstr fc_aname_update] @
          (if dotu then [get32 fc_n_uname_update] else [setf (fc_n_uname_update (\<lambda>_. - 1))])) s
      else if type = Rauth then fields [getqid] s
      else if type = Tflush then fields [get16 fc_oldtag_update] s
      else if type = Tattach then
        fields ([get32 fc_fid_update, get32 fc_afid_update, getstr fc_uname_update,
                 getstr fc_aname_update] @
          (if dotu then [get32 fc_n_uname_update] else [setf (fc_n_uname_update (\<lambda>_. - 1))])) s
      else if type = Rattach then fields [getqid] s
      else if type = Rerror then
        fields ([getstr fc_ename_update] @
          (if dotu then [get32 fc_ecode_update] else [setf (fc_ecode_update (\<lambda>_. - 1))])) s
      else if type = Twalk then
        (let s = steps [get32 fc_fid_update, get32 fc_newfid_update, get16 fc_nwname_update] s
         in if unat (fc_nwname (snd s)) > MAXWELEM then Some (False, s) else fields [get_wnames] s)
      else if type = Rwalk then
        (let s = steps [get16 fc_nwqid_update] s
         in if unat (fc_nwqid (snd s)) > MAXWELEM then Some (False, s) else fields [get_wqids] s)
      else if type = Topen then fields [get32 fc_fid_update, get8 fc_mode_update] s
      else if type = Ropen \<or> type = Rcreate then fields [getqid, get32 fc_iounit_update] s
      else if type = Tcreate then
        fields ([get32 fc_fid_update, getstr fc_name_update, get32 fc_perm_update,
                 get8 fc_mode_update] @
          (if dotu then [getstr fc_extension_update]
           else [setf (fc_extension_update (\<lambda>_. np_strzero))])) s
      else if type = Tread then
        fields [get32 fc_fid_update, get64 fc_offset_update, get32 fc_count_update] s
      else if type = Rread then fields [get32 fc_count_update, get_data] s
      else if type = Twrite then
        fields [get32 fc_fid_update, get64 fc_offset_update, get32 fc_count_update, get_data] s
      else if type = Rwrite then fields [get32 fc_count_update] s
      else if type = Tclunk \<or> type = Tremove \<or> type = Tstat then fields [get32 fc_fid_update] s
      else if type = Rflush \<or> type = Rclunk \<or> type = Rremove \<or> type = Rwstat then fields [] s
      else if type = Rstat then fields [skip16, get_fc_stat dotu] s
      else if type = Twstat then fields [get32 fc_fid_update, skip16, get_fc_stat dotu] s
      else None)"

text \<open>One field of \<open>fc->attrs\<close>.\<close>

definition get_at :: "(cbuf \<Rightarrow> 'f \<times> cbuf) \<Rightarrow> (('f \<Rightarrow> 'f) \<Rightarrow> Npattrs \<Rightarrow> Npattrs) \<Rightarrow> Npfcall step" where
  "get_at get upd = getf get (\<lambda>f. fc_attrs_update (upd f))"

definition deserialize_rgetattr :: "pstate \<Rightarrow> (bool \<times> pstate) option" where
  "deserialize_rgetattr s =
     fields
      [get64 fc_mask_update, getqid,
       get_at buf_get_int32 at_mode_update,
       get_at buf_get_int32 at_uid_update,
       get_at buf_get_int32 at_gid_update,
       get_at buf_get_int64 at_nlink_update,
       get_at buf_get_int64 at_rdev_update,
       get_at buf_get_int64 at_size_update,
       get_at buf_get_int64 at_blksize_update,
       get_at buf_get_int64 at_blocks_update,
       get_at buf_get_int64 at_atime_sec_update,
       get_at buf_get_int64 at_atime_nsec_update,
       get_at buf_get_int64 at_mtime_sec_update,
       get_at buf_get_int64 at_mtime_nsec_update,
       get_at buf_get_int64 at_ctime_sec_update,
       get_at buf_get_int64 at_ctime_nsec_update,
       get_at buf_get_int64 at_btime_sec_update,
       get_at buf_get_int64 at_btime_nsec_update,
       get_at buf_get_int64 at_gen_update,
       get_at buf_get_int64 at_data_version_update] s"

definition deserialize_tsetattr :: "pstate \<Rightarrow> (bool \<times> pstate) option" where
  "deserialize_tsetattr s =
     fields
      [get32 fc_fid_update,
       getf buf_get_int32 (\<lambda>f. fc_mask_update (\<lambda>_. ucast (f 0))),
       setf (\<lambda>fc. fc\<lparr>fc_attrs := (fc_attrs fc)\<lparr>at_mask := fc_mask fc\<rparr>\<rparr>),
       get_at buf_get_int32 at_mode_update,
       get_at buf_get_int32 at_uid_update,
       get_at buf_get_int32 at_gid_update,
       get_at buf_get_int64 at_size_update,
       get_at buf_get_int64 at_atime_sec_update,
       get_at buf_get_int64 at_atime_nsec_update,
       get_at buf_get_int64 at_mtime_sec_update,
       get_at buf_get_int64 at_mtime_nsec_update] s"

definition deserialize_9p2000L_1 :: "u8 \<Rightarrow> pstate \<Rightarrow> (bool \<times> pstate) option" where
  "deserialize_9p2000L_1 type s =
     (if type = Rlerror then fields [get32 fc_ecode_update] s
      else if type = Tstatfs then fields [get32 fc_fid_update] s
      else if type = Rstatfs then fields [get_fc_statfs] s
      else if type = Tlopen then fields [get32 fc_fid_update, get32 fc_flags_update] s
      else if type = Rlopen then fields [getqid, get32 fc_iounit_update] s
      else if type = Tlcreate then
        fields [get32 fc_fid_update, getstr fc_name_update, get32 fc_flags_update,
                get32 fc_perm_update, get32 fc_gid_update] s
      else if type = Rlcreate then fields [getqid, get32 fc_iounit_update] s
      else if type = Tsymlink then
        fields [get32 fc_dfid_update, getstr fc_name_update, getstr fc_symtgt_update,
                get32 fc_gid_update] s
      else if type = Rsymlink then fields [getqid] s
      else if type = Tmknod then
        fields [get32 fc_fid_update, getstr fc_name_update, get32 fc_perm_update,
                get32 fc_major_update, get32 fc_minor_update, get32 fc_gid_update] s
      else if type = Rmknod then fields [getqid] s
      else if type = Trename then
        fields [get32 fc_fid_update, get32 fc_dfid_update, getstr fc_name_update] s
      else if type = Rrename then fields [] s
      else if type = Treadlink then fields [get32 fc_fid_update] s
      else if type = Rreadlink then fields [getstr fc_symtgt_update] s
      else if type = Tgetattr then fields [get32 fc_fid_update, get64 fc_mask_update] s
      else if type = Rgetattr then deserialize_rgetattr s
      else None)"

definition deserialize_9p2000L_2 :: "u8 \<Rightarrow> pstate \<Rightarrow> (bool \<times> pstate) option" where
  "deserialize_9p2000L_2 type s =
     (if type = Tsetattr then deserialize_tsetattr s
      else if type = Rsetattr then fields [] s
      else if type = Txattrwalk then
        fields [get32 fc_fid_update, get32 fc_newfid_update, getstr fc_name_update] s
      else if type = Rxattrwalk then fields [get64 fc_asize_update] s
      else if type = Txattrcreate then
        fields [get32 fc_fid_update, getstr fc_name_update, get64 fc_asize_update,
                get32 fc_flags_update] s
      else if type = Rxattrcreate then fields [] s
      else if type = Treaddir then
        fields [get32 fc_fid_update, get64 fc_offset_update, get32 fc_count_update] s
      else if type = Rreaddir then fields [get32 fc_count_update, get_data] s
      else if type = Tfsync then fields [get32 fc_fid_update] s
      else if type = Rfsync then fields [] s
      else if type = Tlock then
        fields [get32 fc_fid_update, get8 fc_locktype_update, get32 fc_flags_update,
                get64 fc_offset_update, get64 fc_locklength_update, get32 fc_procid_update,
                getstr fc_clientid_update] s
      else if type = Rlock then fields [get8 fc_lockstatus_update] s
      else if type = Tgetlock \<or> type = Rgetlock then
        fields [get32 fc_fid_update, get8 fc_locktype_update, get64 fc_offset_update,
                get64 fc_locklength_update, get32 fc_procid_update, getstr fc_clientid_update] s
      else if type = Tlink then
        fields [get32 fc_dfid_update, get32 fc_fid_update, getstr fc_name_update] s
      else if type = Rlink then fields [] s
      else if type = Tmkdir then
        fields [get32 fc_fid_update, getstr fc_name_update, get32 fc_perm_update,
                get32 fc_gid_update] s
      else if type = Rmkdir then fields [getqid] s
      else if type = Trenameat then
        fields [get32 fc_fid_update, getstr fc_oname_update, get32 fc_newfid_update,
                getstr fc_name_update] s
      else if type = Rrenameat then fields [] s
      else if type = Tunlinkat then
        fields [get32 fc_fid_update, getstr fc_name_update, get32 fc_flags_update] s
      else if type = Runlinkat then fields [] s
      else None)"

text \<open>
  The result is the return value (0 on error), the structure, and whether the parser read
  outside the block \<open>data\<close> points at.
\<close>

definition deserialize_switch :: "u8 \<Rightarrow> bool \<Rightarrow> pstate \<Rightarrow> bool \<times> pstate" where
  "deserialize_switch type dotu s =
     (case deserialize_9p2000 type dotu s of
        Some r \<Rightarrow> r
      | None \<Rightarrow>
          (case deserialize_9p2000L_1 type s of
             Some r \<Rightarrow> r
           | None \<Rightarrow>
               (case deserialize_9p2000L_2 type s of
                  Some r \<Rightarrow> r
                | None \<Rightarrow> (False, s))))"

definition deserialize_header :: "Npfcall \<Rightarrow> bytes \<Rightarrow> pstate" where
  "deserialize_header fc data =
     (let (sz, b0) = buf_get_int32 (buf_init data 0 4);
          b = (buf_init data 4 (sint (sz - 4)))\<lparr>cb_fault := cb_fault b0\<rparr>
      in steps [get8 fc_type_update, get16 fc_tag_update,
                setf (\<lambda>fc. fc\<lparr>fc_fid := NOFID, fc_afid := NOFID, fc_newfid := NOFID\<rparr>)]
           (b, fc\<lparr>fc_size := sz\<rparr>))"

definition np_deserialize :: "Npfcall \<Rightarrow> bytes \<Rightarrow> bool \<Rightarrow> int \<times> Npfcall \<times> bool" where
  "np_deserialize fc data dotu =
     (let s = deserialize_header fc data;
          (ok, s) = deserialize_switch (fc_type (snd s)) dotu s
      in if ok \<and> \<not> buf_check_overflow (fst s)
         then (sint (fc_size (snd s)), snd s, cb_fault (fst s))
         else (0, snd s, cb_fault (fst s)))"

subsection \<open>Memory safety\<close>

text \<open>
  A buffer is safe when nothing has been read out of bounds so far and the part before \<open>cb_ep\<close>
  lies inside the block. Every reader keeps that; only the block of \<open>fc->count\<close> bytes, which
  is the last thing a message holds, may move the cursor in front of the block.
\<close>

definition cb_safe :: "cbuf \<Rightarrow> bool" where
  "cb_safe b \<longleftrightarrow> \<not> cb_fault b \<and> 0 \<le> cb_p b \<and> cb_ep b \<le> int (length (cb_mem b))"

lemma cb_safe_no_fault [simp]: "cb_safe b \<Longrightarrow> \<not> cb_fault b"
  by (simp add: cb_safe_def)

lemma check_size_safe: "cb_safe b \<Longrightarrow> buf_check_size b n = (b', ok) \<Longrightarrow> cb_safe b'"
  by (auto simp: buf_check_size_def cb_safe_def split: if_splits)

lemma check_size_room: "buf_check_size b n = (b', True) \<Longrightarrow> b' = b \<and> cb_p b + n \<le> cb_ep b"
  by (auto simp: buf_check_size_def split: if_splits)

lemma cb_load_safe: "cb_safe b \<Longrightarrow> cb_p b + int n \<le> cb_ep b \<Longrightarrow>
    cb_load b (cb_p b) n = (take n (drop (nat (cb_p b)) (cb_mem b)), b)"
  by (simp add: cb_load_def cb_in_range_def cb_safe_def)

lemma cb_safe_advance: "cb_safe b \<Longrightarrow> 0 \<le> n \<Longrightarrow> cb_safe (b\<lparr>cb_p := cb_p b + n\<rparr>)"
  by (simp add: cb_safe_def)

lemma get_int_safe [simp]:
  assumes "cb_safe b"
  shows "cb_safe (snd (buf_get_int8 b))" "cb_safe (snd (buf_get_int16 b))"
    "cb_safe (snd (buf_get_int32 b))" "cb_safe (snd (buf_get_int64 b))"
  using assms
  by (auto simp: get_int_defs cb_load_safe cb_safe_advance
      dest: check_size_safe check_size_room split: prod.splits)

lemma buf_alloc_safe:
  assumes "cb_safe b" "buf_alloc b (int n) = (b', r)"
  shows "cb_safe b' \<and> (\<forall>at. r = Some at \<longrightarrow> cb_in_range b' at n)"
  using assms
  by (auto simp: buf_alloc_def cb_safe_def cb_in_range_def buf_check_size_def split: if_splits)

lemma get_str_safe [simp]:
  assumes "cb_safe b"
  shows "cb_safe (snd (buf_get_str b))"
proof -
  obtain len b1 where b1: "buf_get_int16 b = (len, b1)" by fastforce
  obtain b2 r where b2: "buf_alloc b1 (int (unat len)) = (b2, r)" by fastforce
  have "cb_safe b1" using get_int_safe(2) [OF assms] b1 by simp
  from buf_alloc_safe [OF this b2] show ?thesis
    by (simp add: buf_get_str_def b1 b2 Let_def cb_load_def split: option.splits del: of_nat_unat)
qed

lemma getf_safe [simp]:
  "(\<And>b. cb_safe b \<Longrightarrow> cb_safe (snd (get b))) \<Longrightarrow> cb_safe (fst s) \<Longrightarrow> cb_safe (fst (getf get upd s))"
  by (simp add: getf_def split_beta)

lemma get_qid_safe [simp]: "cb_safe b \<Longrightarrow> cb_safe (snd (buf_get_qid b))"
  by (simp add: buf_get_qid_def)

lemma get_at_safe [simp]:
  "(\<And>b. cb_safe b \<Longrightarrow> cb_safe (snd (get b))) \<Longrightarrow> cb_safe (fst s) \<Longrightarrow> cb_safe (fst (get_at get upd s))"
  by (simp add: get_at_def)

lemma skip_set_safe [simp]:
  "cb_safe (fst s) \<Longrightarrow> cb_safe (fst (skip16 s))"
  "fst (setf f s) = fst s"
  by (simp_all add: skip16_def setf_def)

lemma get_stat_safe [simp]:
  "cb_safe (fst s) \<Longrightarrow> cb_safe (fst (get_fc_stat dotu s))"
  "cb_safe (fst s) \<Longrightarrow> cb_safe (fst (get_fc_statfs s))"
  by (simp_all add: get_fc_stat_def buf_get_stat_def get_fc_statfs_def buf_get_statfs_def
      split_beta)

lemma get_all_safe: "(\<And>b. cb_safe b \<Longrightarrow> cb_safe (snd (get b))) \<Longrightarrow> cb_safe b \<Longrightarrow>
    cb_safe (snd (get_all get n b))"
  by (induction n arbitrary: b) (simp_all add: split_beta Let_def)

lemma get_walk_safe [simp]:
  "cb_safe (fst s) \<Longrightarrow> cb_safe (fst (get_wnames s))"
  "cb_safe (fst s) \<Longrightarrow> cb_safe (fst (get_wqids s))"
  by (simp_all add: get_wnames_def get_wqids_def split_beta get_all_safe)

lemma get_data_fault [simp]: "cb_fault (fst (get_data s)) = cb_fault (fst s)"
  by (auto simp: get_data_def alloc_data_def buf_alloc_def buf_check_size_def Let_def
      split: prod.splits)

definition no_fault :: "(bool \<times> pstate) option \<Rightarrow> bool" where
  "no_fault r \<longleftrightarrow> (case r of None \<Rightarrow> True | Some (ok, t) \<Rightarrow> \<not> cb_fault (fst t))"

lemma no_fault_simps [simp]:
  "no_fault None" "no_fault (Some (ok, t)) \<longleftrightarrow> \<not> cb_fault (fst t)"
  "no_fault (fields fs s) \<longleftrightarrow> \<not> cb_fault (fst (steps fs s))"
  by (simp_all add: no_fault_def fields_def)

lemma deserialize_9p2000_safe: "cb_safe (fst s) \<Longrightarrow> no_fault (deserialize_9p2000 type dotu s)"
  unfolding deserialize_9p2000_def Let_def if_distrib [of no_fault] by simp

lemma deserialize_9p2000L_1_safe: "cb_safe (fst s) \<Longrightarrow> no_fault (deserialize_9p2000L_1 type s)"
  unfolding deserialize_9p2000L_1_def deserialize_rgetattr_def if_distrib [of no_fault] by simp

lemma deserialize_9p2000L_2_safe: "cb_safe (fst s) \<Longrightarrow> no_fault (deserialize_9p2000L_2 type s)"
  unfolding deserialize_9p2000L_2_def deserialize_tsetattr_def if_distrib [of no_fault] by simp

lemma deserialize_switch_safe:
  assumes "cb_safe (fst s)"
  shows "\<not> cb_fault (fst (snd (deserialize_switch type dotu s)))"
  using deserialize_9p2000_safe [OF assms, of type dotu] deserialize_9p2000L_1_safe [OF assms, of type]
    deserialize_9p2000L_2_safe [OF assms, of type] assms
  by (auto simp: deserialize_switch_def no_fault_def split: option.splits prod.splits)

text \<open>The size field of a packet, as the parser and the connection's reader take it.\<close>

definition pkt_size :: "bytes \<Rightarrow> u32" where
  "pkt_size data = fst (buf_get_int32 (buf_init data 0 4))"

lemma buf_end_bound:
  fixes sz :: u32
  assumes "unat sz \<le> n" "4 \<le> n"
  shows "4 + sint (sz - 4) \<le> int n"
proof (cases "4 \<le> sz")
  case True
  then have "unat (sz - 4) = unat sz - 4" "4 \<le> unat sz"
    by (simp_all add: unat_sub word_le_nat_alt)
  then show ?thesis
    using sint_le_unat [of "sz - 4"] assms by linarith
next
  case False
  then have "sint (sz - 4) < 0"
    by (rule sint_sub_4_neg)
  then show ?thesis using assms by simp
qed

lemma deserialize_header_safe:
  assumes "4 \<le> length data" "unat (pkt_size data) \<le> length data"
  shows "cb_safe (fst (deserialize_header fc data))"
proof -
  obtain sz b0 where b0: "buf_get_int32 (buf_init data 0 4) = (sz, b0)" by fastforce
  have "cb_safe (buf_init data 0 4)" using assms(1) by (simp add: cb_safe_def buf_init_def)
  then have "cb_safe b0" using get_int_safe(3) b0 by fastforce
  moreover have "4 + sint (sz - 4) \<le> int (length data)"
    using assms buf_end_bound [of sz "length data"] by (simp add: pkt_size_def b0)
  ultimately have "cb_safe ((buf_init data 4 (sint (sz - 4)))\<lparr>cb_fault := cb_fault b0\<rparr>)"
    by (simp add: cb_safe_def buf_init_def)
  then show ?thesis
    by (simp add: deserialize_header_def b0)
qed

end
