(* ===== verification/Wire.thy ===== *)
theory Wire
  imports Np_Deserialize
begin

text \<open>
  The frame of a 9P message, \<open>size[4] type[1] tag[2] body\<close>, as a specification independent of the
  C code, and what \<^verbatim>\<open>np_create_common\<close>, \<^verbatim>\<open>np_post_check\<close>, \<^verbatim>\<open>np_set_tag\<close> and the head of
  \<^verbatim>\<open>np_deserialize\<close> do with it. The locale \<open>msg_family\<close> is the contract between the constructors
  and the parser of a family of messages; the round trip is proved once inside it.
\<close>

definition wire :: "u8 \<Rightarrow> u16 \<Rightarrow> bytes \<Rightarrow> bytes" where
  "wire ty tag body = enc32 (of_nat (7 + length body)) @ enc8 ty @ enc16 tag @ body"

lemma wire_length [simp]: "length (wire ty tag body) = 7 + length body"
  by (simp add: wire_def)

subsection \<open>Constructing a packet\<close>

lemma fresh_block_length [simp]: "length (fresh_block n junk) = n"
  by (simp add: fresh_block_def)

lemma sint_of_nat_u32: "n < 2 ^ 31 \<Longrightarrow> sint (of_nat n :: u32) = int n"
  by (subst sint_small) (simp_all add: unat_of_nat)

lemma unat_of_nat_u32: "n < 2 ^ 32 \<Longrightarrow> unat (of_nat n :: u32) = n"
  by (simp add: unat_of_nat)

definition head_fields :: "Npfcall \<Rightarrow> u32 \<Rightarrow> u8 \<Rightarrow> u16 \<Rightarrow> Npfcall" where
  "head_fields fc sz ty tag = fc\<lparr>fc_size := sz, fc_type := ty, fc_tag := tag\<rparr>"

definition same_head :: "Npfcall \<Rightarrow> Npfcall \<Rightarrow> bool" where
  "same_head fc fc' \<longleftrightarrow> fc_size fc' = fc_size fc \<and> fc_type fc' = fc_type fc \<and> fc_tag fc' = fc_tag fc"

lemma np_create_common_wire:
  assumes n: "n + 7 < 2 ^ 31"
  shows "\<exists>pre xs. np_create_common (Some fc) (of_nat n) ty =
      Inr (cbf pre xs [] 0, head_fields fc (of_nat (7 + n)) ty NOTAG) \<and>
    length xs = n \<and> pre = enc32 (of_nat (7 + n)) @ enc8 ty @ enc16 NOTAG"
proof -
  have sz: "of_nat n + (4 + 1 + 2) = (of_nat (7 + n) :: u32)" by simp
  let ?xs = "fresh_block (7 + n) (fc_pkt fc)"
  have "unat (of_nat (7 + n) :: u32) = 7 + n" using n by (intro unat_of_nat_u32) simp
  moreover have "sint (of_nat (7 + n) :: u32) = int (7 + n)"
    using n by (intro sint_of_nat_u32) simp
  moreover have "buf_init ?xs 0 (int (7 + n)) = cbf [] ?xs [] 0"
    using cbf_buf_init [of 0 "[]" "int (7 + n)" ?xs "[]"] by simp
  ultimately have "np_create_common (Some fc) (of_nat n) ty =
      Inr (cbf (enc32 (of_nat (7 + n)) @ enc8 ty @ enc16 NOTAG) (drop 7 ?xs) [] 0,
           head_fields fc (of_nat (7 + n)) ty NOTAG)"
    unfolding np_create_common_def sz Let_def
    by (simp only: option.case steps.simps) (simp add: wire_simps head_fields_def)
  then show ?thesis by fastforce
qed

lemma np_create_wire:
  assumes body: "n = length body" "n + 7 < 2 ^ 31" and sz: "sz = of_nat n"
    and puts: "\<And>pre xs h. length xs = n \<Longrightarrow>
      \<exists>fc'. steps puts (cbf pre xs [] 0, h) = (cbf (pre @ body) [] [] 0, fc') \<and> same_head h fc'"
  shows "\<exists>fc'. np_create (Some fc) sz ty puts = Inr fc' \<and> fc_pkt fc' = wire ty NOTAG body \<and>
    fc_size fc' = of_nat (7 + length body) \<and> fc_type fc' = ty \<and> fc_tag fc' = NOTAG"
proof -
  obtain pre xs where common: "np_create_common (Some fc) (of_nat n) ty =
      Inr (cbf pre xs [] 0, head_fields fc (of_nat (7 + n)) ty NOTAG)"
    and "length xs = n" and pre: "pre = enc32 (of_nat (7 + n)) @ enc8 ty @ enc16 NOTAG"
    using np_create_common_wire [OF body(2)] by blast
  then obtain fc' where "steps puts (cbf pre xs [] 0, head_fields fc (of_nat (7 + n)) ty NOTAG) =
      (cbf (pre @ body) [] [] 0, fc')" "same_head (head_fields fc (of_nat (7 + n)) ty NOTAG) fc'"
    using puts by blast
  then show ?thesis
    unfolding np_create_def sz common
    by (simp add: np_post_check_def wire_def pre body(1) same_head_def head_fields_def)
qed

lemma alloc_data_put:
  assumes "length xs \<ge> length d" "length d < 2 ^ 31"
  shows "alloc_data (of_nat (length d)) (Some d) (cbf pre xs post sp, fc) =
    (cbf (pre @ d) (drop (length d) xs) post sp, fc\<lparr>fc_data := Some d\<rparr>)"
proof -
  have "cb_store (cbf (pre @ take (length d) xs) (drop (length d) xs) post sp) (int (length pre)) d =
      cbf (pre @ d) (drop (length d) xs) post sp"
    using assms(1) by (intro cbf_store_back) simp_all
  then show ?thesis
    using assms
    by (simp add: alloc_data_def sint_of_nat_u32 buf_alloc_fits unat_of_nat_u32 cb_memmove_def
        cb_reach_def)
qed

lemma alloc_data_get:
  assumes "length d < 2 ^ 31"
  shows "alloc_data (of_nat (length d)) None (cbf pre (d @ xs) post sp, fc) =
    (cbf (pre @ d) xs post sp, fc\<lparr>fc_data := Some d\<rparr>)"
  using assms
  by (simp add: alloc_data_def sint_of_nat_u32 buf_alloc_fits unat_of_nat_u32 cb_reach_def)

subsection \<open>Setting the tag\<close>

lemma np_set_tag_wire:
  assumes "fc_pkt fc = wire ty tag0 body"
  shows "\<exists>fc'. np_set_tag fc tag = Some fc' \<and> fc_pkt fc' = wire ty tag body \<and>
    fc_tag fc' = tag \<and> fc_size fc' = fc_size fc \<and> fc_type fc' = fc_type fc"
  by (simp add: np_set_tag_def assms)
    (simp add: wire_def enc32_def enc16_def enc8_def)

subsection \<open>Reading a packet\<close>

lemma deserialize_header_wire:
  assumes "7 + length body < 2 ^ 31"
  shows "deserialize_header fc (wire ty tag body @ rest) =
    (cbf (enc32 (of_nat (7 + length body)) @ enc8 ty @ enc16 tag) body rest 4,
     (head_fields fc (of_nat (7 + length body)) ty tag)\<lparr>fc_fid := NOFID, fc_afid := NOFID, fc_newfid := NOFID\<rparr>)"
proof -
  let ?sz = "of_nat (7 + length body) :: u32"
  let ?tl = "enc8 ty @ enc16 tag @ body"
  have data: "wire ty tag body @ rest = [] @ enc32 ?sz @ (?tl @ rest)"
      "wire ty tag body @ rest = enc32 ?sz @ ?tl @ rest"
    by (simp_all add: wire_def)
  have "buf_init (wire ty tag body @ rest) 0 4 = cbf [] (enc32 ?sz @ []) (?tl @ rest) 0"
    unfolding data(1) by (subst cbf_buf_init) simp_all
  then have get: "buf_get_int32 (buf_init (wire ty tag body @ rest) 0 4) =
      (?sz, cbf (enc32 ?sz) [] (?tl @ rest) 0)"
    by (simp only: i32.get_enc) simp
  have "?sz - 4 = of_nat (3 + length body)" by simp
  then have "sint (?sz - 4) = int (3 + length body)"
    using assms by (simp only: sint_of_nat_u32)
  then have "buf_init (wire ty tag body @ rest) 4 (sint (?sz - 4)) = cbf (enc32 ?sz) ?tl rest 4"
    unfolding data(2) by (subst cbf_buf_init) simp_all
  then have "(buf_init (wire ty tag body @ rest) 4 (sint (?sz - 4)))\<lparr>cb_fault := False\<rparr> =
      cbf (enc32 ?sz) ?tl rest 4"
    by (simp add: cbf_def)
  then show ?thesis
    unfolding deserialize_header_def get
    by (simp only: prod.case Let_def cbf_sel steps.simps)
      (simp add: wire_simps setf_def head_fields_def)
qed

text \<open>How the parser goes on after the header of a well-framed packet.\<close>

lemma np_deserialize_wire:
  assumes small: "7 + length body < 2 ^ 31"
    and switch: "\<And>pre h. \<exists>b fc'. deserialize_switch ty dotu (cbf pre body rest 4, h) = (True, b, fc') \<and>
      \<not> buf_check_overflow b \<and> \<not> cb_fault b \<and> same_head h fc' \<and> P fc'"
  shows "\<exists>fc'. np_deserialize fc (wire ty tag body @ rest) dotu = (int (7 + length body), fc', False) \<and>
    fc_type fc' = ty \<and> fc_tag fc' = tag \<and> P fc'"
proof -
  let ?n = "of_nat (7 + length body) :: u32"
  let ?h = "head_fields fc ?n ty tag \<lparr>fc_fid := NOFID, fc_afid := NOFID, fc_newfid := NOFID\<rparr>"
  obtain b fc' where "deserialize_switch ty dotu (cbf (enc32 ?n @ enc8 ty @ enc16 tag) body rest 4, ?h) =
      (True, b, fc')" "\<not> buf_check_overflow b" "\<not> cb_fault b" "same_head ?h fc'" "P fc'"
    using switch by blast
  moreover have "fc_type ?h = ty" "fc_tag ?h = tag" "fc_size ?h = ?n"
    by (simp_all add: head_fields_def)
  moreover have "sint ?n = int (7 + length body)"
    using small by (rule sint_of_nat_u32)
  ultimately show ?thesis
    unfolding np_deserialize_def deserialize_header_wire [OF small] Let_def snd_conv
    by (simp add: same_head_def)
qed

subsection \<open>Message families\<close>

text \<open>
  \<open>ty\<close> and \<open>body\<close> specify the wire form of a message, \<open>create\<close> is the C constructor applied to
  its parts, \<open>carries\<close> says that a structure holds these parts. \<open>ok\<close> are the messages the
  wire format can carry, \<open>creatable\<close> those the constructor encodes as specified.
\<close>

locale msg_family =
  fixes ty :: "'m \<Rightarrow> u8"
    and body :: "bool \<Rightarrow> 'm \<Rightarrow> bytes"
    and create :: "Npfcall \<Rightarrow> bool \<Rightarrow> 'm \<Rightarrow> created"
    and ok :: "'m \<Rightarrow> bool"
    and creatable :: "bool \<Rightarrow> 'm \<Rightarrow> bool"
    and carries :: "bool \<Rightarrow> 'm \<Rightarrow> Npfcall \<Rightarrow> bool"
  assumes created: "ok m \<Longrightarrow> creatable dotu m \<Longrightarrow> 7 + length (body dotu m) < 2 ^ 31 \<Longrightarrow>
      \<exists>fc'. create fc dotu m = Inr fc' \<and> fc_pkt fc' = wire (ty m) NOTAG (body dotu m) \<and>
        fc_size fc' = of_nat (7 + length (body dotu m)) \<and> fc_type fc' = ty m \<and> fc_tag fc' = NOTAG"
    and parsed: "ok m \<Longrightarrow> 7 + length (body dotu m) < 2 ^ 31 \<Longrightarrow>
      \<exists>fc'. deserialize_switch (ty m) dotu (cbf pre (body dotu m) post sp, fc) =
          (True, cbf (pre @ body dotu m) [] post sp, fc') \<and> carries dotu m fc' \<and> same_head fc fc'"
begin

lemma deserialize_wire:
  assumes "ok m" "7 + length (body dotu m) < 2 ^ 31"
  shows "\<exists>fc'. np_deserialize fc (wire (ty m) tag (body dotu m) @ rest) dotu =
      (int (7 + length (body dotu m)), fc', False) \<and>
    fc_type fc' = ty m \<and> fc_tag fc' = tag \<and> carries dotu m fc'"
  by (rule np_deserialize_wire [OF assms(2)])
    (metis parsed [OF assms] buf_check_overflow_cbf cbf_sel(4))

lemma roundtrip:
  assumes "ok m" "creatable dotu m" "7 + length (body dotu m) < 2 ^ 31"
  shows "\<exists>fc1 fc2 fc'. create fc dotu m = Inr fc1 \<and> np_set_tag fc1 tag = Some fc2 \<and>
    fc_size fc2 = of_nat (length (fc_pkt fc2)) \<and>
    np_deserialize fc0 (fc_pkt fc2 @ rest) dotu = (int (length (fc_pkt fc2)), fc', False) \<and>
    fc_type fc' = ty m \<and> fc_tag fc' = tag \<and> carries dotu m fc'"
proof -
  obtain fc1 where c: "create fc dotu m = Inr fc1" "fc_pkt fc1 = wire (ty m) NOTAG (body dotu m)"
      "fc_size fc1 = of_nat (7 + length (body dotu m))"
    using created [OF assms] by blast
  obtain fc2 where t: "np_set_tag fc1 tag = Some fc2" "fc_pkt fc2 = wire (ty m) tag (body dotu m)"
      "fc_size fc2 = fc_size fc1"
    using np_set_tag_wire [OF c(2)] by blast
  show ?thesis
    using deserialize_wire [OF assms(1,3), of fc0 tag rest] c t by auto
qed

end

end
