(* ===== verification/Wire_9P.thy ===== *)
theory Wire_9P
  imports Wire
begin

text \<open>
  The 9P2000 and 9P2000.u messages: their wire forms as the protocol specifies them (the layouts
  at the top of \<^verbatim>\<open>include/npfs.h\<close>'s message list and the comments of \<^verbatim>\<open>libnpfs/np.c\<close>), the
  proof that the constructors of \<^verbatim>\<open>np.c\<close> build exactly these bytes and that \<^verbatim>\<open>np_deserialize\<close>
  reads them back.
\<close>

datatype (plugins only: code) msg =
    MTversion u32 cstring
  | MRversion u32 cstring
  | MTauth u32 cstring cstring u32
  | MRauth Npqid
  | MRerror cstring u32
  | MTflush u16
  | MRflush
  | MTattach u32 u32 cstring cstring u32
  | MRattach Npqid
  | MTwalk u32 u32 "cstring list"
  | MRwalk "Npqid list"
  | MTopen u32 u8
  | MRopen Npqid u32
  | MTcreate u32 cstring u32 u8 cstring
  | MRcreate Npqid u32
  | MTread u32 u64 u32
  | MRread bytes
  | MTwrite u32 u64 bytes
  | MRwrite u32
  | MTclunk u32
  | MRclunk
  | MTremove u32
  | MRremove
  | MTstat u32
  | MRstat Npwstat
  | MTwstat u32 Npwstat
  | MRwstat

fun msg_type :: "msg \<Rightarrow> u8" where
  "msg_type (MTversion _ _) = Tversion"
| "msg_type (MRversion _ _) = Rversion"
| "msg_type (MTauth _ _ _ _) = Tauth"
| "msg_type (MRauth _) = Rauth"
| "msg_type (MRerror _ _) = Rerror"
| "msg_type (MTflush _) = Tflush"
| "msg_type MRflush = Rflush"
| "msg_type (MTattach _ _ _ _ _) = Tattach"
| "msg_type (MRattach _) = Rattach"
| "msg_type (MTwalk _ _ _) = Twalk"
| "msg_type (MRwalk _) = Rwalk"
| "msg_type (MTopen _ _) = Topen"
| "msg_type (MRopen _ _) = Ropen"
| "msg_type (MTcreate _ _ _ _ _) = Tcreate"
| "msg_type (MRcreate _ _) = Rcreate"
| "msg_type (MTread _ _ _) = Tread"
| "msg_type (MRread _) = Rread"
| "msg_type (MTwrite _ _ _) = Twrite"
| "msg_type (MRwrite _) = Rwrite"
| "msg_type (MTclunk _) = Tclunk"
| "msg_type MRclunk = Rclunk"
| "msg_type (MTremove _) = Tremove"
| "msg_type MRremove = Rremove"
| "msg_type (MTstat _) = Tstat"
| "msg_type (MRstat _) = Rstat"
| "msg_type (MTwstat _ _) = Twstat"
| "msg_type MRwstat = Rwstat"

text \<open>The layouts of the specification; \<open>dotu\<close> adds the 9P2000.u fields.\<close>

fun msg_body :: "bool \<Rightarrow> msg \<Rightarrow> bytes" where
  "msg_body dotu (MTversion msize version) = enc32 msize @ encstr version"
| "msg_body dotu (MRversion msize version) = enc32 msize @ encstr version"
| "msg_body dotu (MTauth afid uname aname n_uname) =
     enc32 afid @ encstr uname @ encstr aname @ (if dotu then enc32 n_uname else [])"
| "msg_body dotu (MRauth aqid) = encqid aqid"
| "msg_body dotu (MRerror ename ecode) = encstr ename @ (if dotu then enc32 ecode else [])"
| "msg_body dotu (MTflush oldtag) = enc16 oldtag"
| "msg_body dotu MRflush = []"
| "msg_body dotu (MTattach fid afid uname aname n_uname) =
     enc32 fid @ enc32 afid @ encstr uname @ encstr aname @ (if dotu then enc32 n_uname else [])"
| "msg_body dotu (MRattach qid) = encqid qid"
| "msg_body dotu (MTwalk fid newfid wnames) =
     enc32 fid @ enc32 newfid @ enc16 (of_nat (length wnames)) @ concat (map encstr wnames)"
| "msg_body dotu (MRwalk wqids) = enc16 (of_nat (length wqids)) @ concat (map encqid wqids)"
| "msg_body dotu (MTopen fid mode) = enc32 fid @ enc8 mode"
| "msg_body dotu (MRopen qid iounit) = encqid qid @ enc32 iounit"
| "msg_body dotu (MTcreate fid name perm mode extension) =
     enc32 fid @ encstr name @ enc32 perm @ enc8 mode @ (if dotu then encstr extension else [])"
| "msg_body dotu (MRcreate qid iounit) = encqid qid @ enc32 iounit"
| "msg_body dotu (MTread fid offset count) = enc32 fid @ enc64 offset @ enc32 count"
| "msg_body dotu (MRread data) = enc32 (of_nat (length data)) @ data"
| "msg_body dotu (MTwrite fid offset data) =
     enc32 fid @ enc64 offset @ enc32 (of_nat (length data)) @ data"
| "msg_body dotu (MRwrite count) = enc32 count"
| "msg_body dotu (MTclunk fid) = enc32 fid"
| "msg_body dotu MRclunk = []"
| "msg_body dotu (MTremove fid) = enc32 fid"
| "msg_body dotu MRremove = []"
| "msg_body dotu (MTstat fid) = enc32 fid"
| "msg_body dotu (MRstat stat) = enc16 (of_nat (length (encwstat stat dotu))) @ encwstat stat dotu"
| "msg_body dotu (MTwstat fid stat) =
     enc32 fid @ enc16 (of_nat (length (encwstat stat dotu))) @ encwstat stat dotu"
| "msg_body dotu MRwstat = []"

text \<open>The constructor of \<^verbatim>\<open>np.c\<close> for each message.\<close>

fun msg_create :: "Npfcall \<Rightarrow> bool \<Rightarrow> msg \<Rightarrow> created" where
  "msg_create fc dotu (MTversion msize version) = np_create_tversion (Some fc) msize version"
| "msg_create fc dotu (MRversion msize version) = np_create_rversion (Some fc) msize version"
| "msg_create fc dotu (MTauth afid uname aname n_uname) =
     np_create_tauth (Some fc) afid (Some uname) (Some aname) n_uname dotu"
| "msg_create fc dotu (MRauth aqid) = np_create_rauth (Some fc) aqid"
| "msg_create fc dotu (MRerror ename ecode) = np_create_rerror (Some fc) ename (sint ecode) dotu"
| "msg_create fc dotu (MTflush oldtag) = np_create_tflush (Some fc) oldtag"
| "msg_create fc dotu MRflush = np_create_rflush (Some fc)"
| "msg_create fc dotu (MTattach fid afid uname aname n_uname) =
     np_create_tattach (Some fc) fid afid (Some uname) (Some aname) n_uname dotu"
| "msg_create fc dotu (MRattach qid) = np_create_rattach (Some fc) qid"
| "msg_create fc dotu (MTwalk fid newfid wnames) =
     np_create_twalk (Some fc) fid newfid (of_nat (length wnames)) wnames"
| "msg_create fc dotu (MRwalk wqids) = np_create_rwalk (Some fc) (int (length wqids)) wqids"
| "msg_create fc dotu (MTopen fid mode) = np_create_topen (Some fc) fid mode"
| "msg_create fc dotu (MRopen qid iounit) = np_create_ropen (Some fc) qid iounit"
| "msg_create fc dotu (MTcreate fid name perm mode extension) =
     np_create_tcreate (Some fc) fid name perm mode"
| "msg_create fc dotu (MRcreate qid iounit) = np_create_rcreate (Some fc) qid iounit"
| "msg_create fc dotu (MTread fid offset count) = np_create_tread (Some fc) fid offset count"
| "msg_create fc dotu (MRread data) = np_create_rread (Some fc) (of_nat (length data)) data"
| "msg_create fc dotu (MTwrite fid offset data) =
     np_create_twrite (Some fc) fid offset (of_nat (length data)) data"
| "msg_create fc dotu (MRwrite count) = np_create_rwrite (Some fc) count"
| "msg_create fc dotu (MTclunk fid) = np_create_tclunk (Some fc) fid"
| "msg_create fc dotu MRclunk = np_create_rclunk (Some fc)"
| "msg_create fc dotu (MTremove fid) = np_create_tremove (Some fc) fid"
| "msg_create fc dotu MRremove = np_create_rremove (Some fc)"
| "msg_create fc dotu (MTstat fid) = np_create_tstat (Some fc) fid"
| "msg_create fc dotu (MRstat stat) = np_create_rstat (Some fc) stat dotu"
| "msg_create fc dotu (MTwstat fid stat) = np_create_twstat (Some fc) fid stat dotu"
| "msg_create fc dotu MRwstat = np_create_rwstat (Some fc)"

abbreviation "str_ok cs \<equiv> length cs < 2 ^ 16"

fun msg_ok :: "msg \<Rightarrow> bool" where
  "msg_ok (MTversion _ version) \<longleftrightarrow> str_ok version"
| "msg_ok (MRversion _ version) \<longleftrightarrow> str_ok version"
| "msg_ok (MTauth _ uname aname _) \<longleftrightarrow> str_ok uname \<and> str_ok aname"
| "msg_ok (MRerror ename _) \<longleftrightarrow> str_ok ename"
| "msg_ok (MTattach _ _ uname aname _) \<longleftrightarrow> str_ok uname \<and> str_ok aname"
| "msg_ok (MTwalk _ _ wnames) \<longleftrightarrow> length wnames \<le> MAXWELEM \<and> list_all str_ok wnames"
| "msg_ok (MRwalk wqids) \<longleftrightarrow> length wqids \<le> MAXWELEM"
| "msg_ok (MTcreate _ name _ _ extension) \<longleftrightarrow> str_ok name \<and> str_ok extension"
| "msg_ok (MRstat stat) \<longleftrightarrow> wstat_ok stat"
| "msg_ok (MTwstat _ stat) \<longleftrightarrow> wstat_ok stat"
| "msg_ok _ \<longleftrightarrow> True"

text \<open>
  Two constructors do not follow the layout in the \<open>dotu\<close> variant: \<^verbatim>\<open>np_create_tauth\<close> leaves
  \<open>n_uname\<close> out of the packet's size, \<^verbatim>\<open>np_create_tcreate\<close> takes no \<open>extension\<close>.
\<close>

fun msg_creatable :: "bool \<Rightarrow> msg \<Rightarrow> bool" where
  "msg_creatable dotu (MTauth _ _ _ _) \<longleftrightarrow> \<not> dotu"
| "msg_creatable dotu (MTcreate _ _ _ _ _) \<longleftrightarrow> \<not> dotu"
| "msg_creatable dotu _ \<longleftrightarrow> True"

text \<open>The fields of \<^verbatim>\<open>struct Npfcall\<close> a message is read into.\<close>

fun msg_carries :: "bool \<Rightarrow> msg \<Rightarrow> Npfcall \<Rightarrow> bool" where
  "msg_carries dotu (MTversion msize version) fc \<longleftrightarrow>
     fc_msize fc = msize \<and> fc_version fc = npstr version"
| "msg_carries dotu (MRversion msize version) fc \<longleftrightarrow>
     fc_msize fc = msize \<and> fc_version fc = npstr version"
| "msg_carries dotu (MTauth afid uname aname n_uname) fc \<longleftrightarrow>
     fc_afid fc = afid \<and> fc_uname fc = npstr uname \<and> fc_aname fc = npstr aname \<and>
     fc_n_uname fc = (if dotu then n_uname else - 1)"
| "msg_carries dotu (MRauth aqid) fc \<longleftrightarrow> fc_qid fc = aqid"
| "msg_carries dotu (MRerror ename ecode) fc \<longleftrightarrow>
     fc_ename fc = npstr ename \<and> fc_ecode fc = (if dotu then ecode else - 1)"
| "msg_carries dotu (MTflush oldtag) fc \<longleftrightarrow> fc_oldtag fc = oldtag"
| "msg_carries dotu (MTattach fid afid uname aname n_uname) fc \<longleftrightarrow>
     fc_fid fc = fid \<and> fc_afid fc = afid \<and> fc_uname fc = npstr uname \<and> fc_aname fc = npstr aname \<and>
     fc_n_uname fc = (if dotu then n_uname else - 1)"
| "msg_carries dotu (MRattach qid) fc \<longleftrightarrow> fc_qid fc = qid"
| "msg_carries dotu (MTwalk fid newfid wnames) fc \<longleftrightarrow>
     fc_fid fc = fid \<and> fc_newfid fc = newfid \<and> fc_nwname fc = of_nat (length wnames) \<and>
     fc_wnames fc = map npstr wnames"
| "msg_carries dotu (MRwalk wqids) fc \<longleftrightarrow>
     fc_nwqid fc = of_nat (length wqids) \<and> fc_wqids fc = wqids"
| "msg_carries dotu (MTopen fid mode) fc \<longleftrightarrow> fc_fid fc = fid \<and> fc_mode fc = mode"
| "msg_carries dotu (MRopen qid iounit) fc \<longleftrightarrow> fc_qid fc = qid \<and> fc_iounit fc = iounit"
| "msg_carries dotu (MTcreate fid name perm mode extension) fc \<longleftrightarrow>
     fc_fid fc = fid \<and> fc_name fc = npstr name \<and> fc_perm fc = perm \<and> fc_mode fc = mode \<and>
     fc_extension fc = (if dotu then npstr extension else np_strzero)"
| "msg_carries dotu (MRcreate qid iounit) fc \<longleftrightarrow> fc_qid fc = qid \<and> fc_iounit fc = iounit"
| "msg_carries dotu (MTread fid offset count) fc \<longleftrightarrow>
     fc_fid fc = fid \<and> fc_offset fc = offset \<and> fc_count fc = count"
| "msg_carries dotu (MRread data) fc \<longleftrightarrow>
     fc_count fc = of_nat (length data) \<and> fc_data fc = Some data"
| "msg_carries dotu (MTwrite fid offset data) fc \<longleftrightarrow>
     fc_fid fc = fid \<and> fc_offset fc = offset \<and> fc_count fc = of_nat (length data) \<and>
     fc_data fc = Some data"
| "msg_carries dotu (MRwrite count) fc \<longleftrightarrow> fc_count fc = count"
| "msg_carries dotu (MTclunk fid) fc \<longleftrightarrow> fc_fid fc = fid"
| "msg_carries dotu (MTremove fid) fc \<longleftrightarrow> fc_fid fc = fid"
| "msg_carries dotu (MTstat fid) fc \<longleftrightarrow> fc_fid fc = fid"
| "msg_carries dotu (MRstat stat) fc \<longleftrightarrow> (\<exists>old. fc_stat fc = stat_of stat dotu old)"
| "msg_carries dotu (MTwstat fid stat) fc \<longleftrightarrow>
     fc_fid fc = fid \<and> (\<exists>old. fc_stat fc = stat_of stat dotu old)"
| "msg_carries dotu _ fc \<longleftrightarrow> True"

subsection \<open>The parser\<close>

lemma wire_steps [wire_simps]:
  "setf f (b, fc) = (b, f fc)"
  "skip16 (b, fc) = (snd (buf_get_int16 b), fc)"
  "get_data (b, fc) = alloc_data (fc_count fc) None (b, fc)"
  "get_fc_stat dotu (b, fc) =
     (case buf_get_stat b (fc_stat fc) dotu of (b', st) \<Rightarrow> (b', fc\<lparr>fc_stat := st\<rparr>))"
  by (simp_all add: setf_def skip16_def get_data_def get_fc_stat_def)

lemma get_wnames_enc [wire_simps]:
  assumes "list_all str_ok names" "length names \<le> MAXWELEM"
    "fc_nwname fc = of_nat (length names)"
  shows "get_wnames (cbf pre (concat (map encstr names) @ xs) post sp, fc) =
    (cbf (pre @ concat (map encstr names)) xs post sp, fc\<lparr>fc_wnames := map npstr names\<rparr>)"
  using str.get_all_enc [of "map Some names" pre xs post sp] assms
  by (simp add: get_wnames_def unat_of_nat list_all_iff comp_def)

lemma get_wqids_enc [wire_simps]:
  assumes "length qids \<le> MAXWELEM" "fc_nwqid fc = of_nat (length qids)"
  shows "get_wqids (cbf pre (concat (map encqid qids) @ xs) post sp, fc) =
    (cbf (pre @ concat (map encqid qids)) xs post sp, fc\<lparr>fc_wqids := qids\<rparr>)"
  using qid.get_all_enc [of qids pre xs post sp] assms
  by (simp add: get_wqids_def unat_of_nat list_all_iff)

lemma parse_9p:
  assumes "msg_ok m" "7 + length (msg_body dotu m) < 2 ^ 31"
  shows "\<exists>fc'. deserialize_9p2000 (msg_type m) dotu (cbf pre (msg_body dotu m @ []) post sp, fc) =
      Some (True, cbf (pre @ msg_body dotu m) [] post sp, fc') \<and> msg_carries dotu m fc' \<and> same_head fc fc'"
  using assms
  by (cases m; simp add: deserialize_9p2000_def fields_def wire_simps same_head_def alloc_data_get
      buf_get_stat_enc unat_of_nat del: append_Nil2; auto)

subsection \<open>The constructors\<close>

lemma put_wnames_fits [wire_simps]:
  assumes "length (concat (map encstr names)) \<le> length xs" "list_all str_ok names"
  shows "put_wnames names (cbf pre xs post sp, fc) =
    (cbf (pre @ concat (map encstr names)) (drop (length (concat (map encstr names))) xs) post sp,
     fc\<lparr>fc_wnames := map npstr names\<rparr>)"
  using str.put_all_fits [of "map Some names" xs pre post sp] assms
  by (simp add: put_wnames_def comp_def list_all_iff)

lemma put_wqids_fits [wire_simps]:
  assumes "length (concat (map encqid qids)) \<le> length xs"
  shows "put_wqids qids (cbf pre xs post sp, fc) =
    (cbf (pre @ concat (map encqid qids)) (drop (length (concat (map encqid qids))) xs) post sp,
     fc\<lparr>fc_wqids := qids\<rparr>)"
  using qid.put_all_fits [of qids xs pre post sp] assms
  by (simp add: put_wqids_def list_all_iff)

lemma wnames_size:
  "(of_nat (length (concat (map encstr names))) :: u32) =
     of_nat (length names) * 2 + sum_list (map strlen names)"
  by (induction names) (simp_all add: algebra_simps)

lemma wqids_size: "length (concat (map encqid qids)) = 13 * length qids"
  by (induction qids) simp_all

lemma put_wstat_fits [wire_simps]:
  "length (encwstat w dotu) \<le> length xs \<Longrightarrow> n = size_wstat (Some w) dotu \<Longrightarrow>
   put_wstat w n dotu (cbf pre xs post sp, fc) =
    (cbf (pre @ encwstat w dotu) (drop (length (encwstat w dotu)) xs) post sp,
     fc\<lparr>fc_stat := stat_of w dotu (fc_stat fc)\<rparr>)"
  by (simp add: put_wstat_def buf_put_wstat_fits)

lemmas create_9p_defs =
  np_create_tversion_def np_create_rversion_def np_create_tauth_def np_create_rauth_def
  np_create_rerror_def np_create_tflush_def np_create_rflush_def np_create_tattach_def
  np_create_rattach_def np_create_topen_def np_create_ropen_def np_create_tcreate_def
  np_create_rcreate_def np_create_tread_def np_create_twrite_def np_create_rwrite_def
  np_create_tclunk_def np_create_rclunk_def np_create_tremove_def np_create_rremove_def
  np_create_tstat_def np_create_rwstat_def

definition built :: "created \<Rightarrow> u8 \<Rightarrow> bytes \<Rightarrow> bool" where
  "built r ty body \<longleftrightarrow> (\<exists>fc'. r = Inr fc' \<and> fc_pkt fc' = wire ty NOTAG body \<and>
     fc_size fc' = of_nat (7 + length body) \<and> fc_type fc' = ty \<and> fc_tag fc' = NOTAG)"

lemmas builtI = np_create_wire [OF refl, folded built_def]

lemma created_9p_simple:
  assumes "msg_ok m" "msg_creatable dotu m" "7 + length (msg_body dotu m) < 2 ^ 31"
    "msg_type m \<notin> {Twalk, Rwalk, Rread, Rstat, Twstat}"
  shows "built (msg_create fc dotu m) (msg_type m) (msg_body dotu m)"
  using assms
  apply (cases m; hypsubst?; simp only: msg_create.simps msg_type.simps create_9p_defs)
  apply ((rule builtI)?; simp add: wire_simps same_head_def alloc_data_put)+
  done

lemma created_twalk:
  assumes "msg_ok (MTwalk fid newfid names)" "7 + length (msg_body dotu (MTwalk fid newfid names)) < 2 ^ 31"
  shows "built (msg_create fc dotu (MTwalk fid newfid names)) Twalk (msg_body dotu (MTwalk fid newfid names))"
proof -
  have n: "length names \<le> MAXWELEM" "list_all str_ok names" using assms(1) by simp_all
  then have u: "unat (of_nat (length names) :: u16) = length names"
    by (simp add: unat_of_nat)
  have "ucast (of_nat (length names) :: u16) = (of_nat (length names) :: u32)"
    using n by (simp add: unsigned_of_nat take_bit_nat_eq_self)
  then have "msg_create fc dotu (MTwalk fid newfid names) =
      np_create (Some fc) (4 + 4 + 2 + of_nat (length names) * 2 + sum_list (map strlen names)) Twalk
        [put32 fc_fid fc_fid_update fid, put32 fc_newfid fc_newfid_update newfid,
         put16 fc_nwname fc_nwname_update (of_nat (length names)), put_wnames names]"
    using n by (simp add: np_create_twalk_def u Let_def)
  moreover have "built \<dots> Twalk (msg_body dotu (MTwalk fid newfid names))"
    by (rule builtI) (use assms n wnames_size [of names] in \<open>simp_all add: wire_simps same_head_def add.assoc\<close>)
  ultimately show ?thesis by simp
qed

lemma created_rwalk:
  assumes "msg_ok (MRwalk qids)"
  shows "built (msg_create fc dotu (MRwalk qids)) Rwalk (msg_body dotu (MRwalk qids))"
proof -
  have "msg_create fc dotu (MRwalk qids) = np_create (Some fc) (word_of_int (2 + int (length qids) * 13)) Rwalk
      [put16 fc_nwqid fc_nwqid_update (of_nat (length qids)), put_wqids qids]"
    using assms by (simp add: np_create_rwalk_def)
  moreover have "built \<dots> Rwalk (msg_body dotu (MRwalk qids))"
    by (rule builtI) (use assms wqids_size [of qids] in \<open>simp_all add: wire_simps same_head_def\<close>)
  ultimately show ?thesis by simp
qed

lemma np_alloc_rread_built:
  assumes "n + 11 < 2 ^ 31"
  shows "\<exists>fc' junk. np_alloc_rread (Some fc) (of_nat n) = Inr fc' \<and> length junk = n \<and>
    fc_pkt fc' = wire Rread NOTAG (enc32 (of_nat n) @ junk) \<and> fc_data fc' = Some junk \<and>
    fc_count fc' = of_nat n \<and> fc_size fc' = of_nat (11 + n) \<and> fc_type fc' = Rread \<and>
    fc_tag fc' = NOTAG"
proof -
  obtain pre xs where c: "np_create_common (Some fc) (of_nat (4 + n)) Rread =
      Inr (cbf pre xs [] 0, head_fields fc (of_nat (7 + (4 + n))) Rread NOTAG)"
    "length xs = 4 + n" "pre = enc32 (of_nat (7 + (4 + n))) @ enc8 Rread @ enc16 NOTAG"
    using np_create_common_wire [of "4 + n" fc Rread] assms by auto
  have "alloc_data (of_nat n) None (cbf p (drop 4 xs) [] 0, g) =
      (cbf (p @ drop 4 xs) [] [] 0, g\<lparr>fc_data := Some (drop 4 xs)\<rparr>)" for p g
    using alloc_data_get [of "drop 4 xs" p "[]" "[]" 0 g] assms c(2) by simp
  with c(2) have st: "steps [put32 fc_count fc_count_update (of_nat n), alloc_data (of_nat n) None]
      (cbf pre xs [] 0, h) = (cbf (pre @ enc32 (of_nat n) @ drop 4 xs) [] [] 0,
        h\<lparr>fc_count := of_nat n, fc_data := Some (drop 4 xs)\<rparr>)" for h
    by (simp add: wire_simps)
  have sz: "(4 + of_nat n :: u32) = of_nat (4 + n)" by simp
  show ?thesis
    unfolding np_alloc_rread_def np_create_def sz c(1)
    using c(2,3) st by (simp add: np_post_check_def wire_def head_fields_def)
qed

lemma created_rread:
  assumes "7 + length (msg_body dotu (MRread d)) < 2 ^ 31"
  shows "built (msg_create fc dotu (MRread d)) Rread (msg_body dotu (MRread d))"
proof -
  have n: "length d + 11 < 2 ^ 31" "unat (of_nat (length d) :: u32) = length d"
    using assms by (simp_all add: unat_of_nat_u32)
  obtain fc' junk where a: "np_alloc_rread (Some fc) (of_nat (length d)) = Inr fc'"
    "length junk = length d" "fc_pkt fc' = wire Rread NOTAG (enc32 (of_nat (length d)) @ junk)"
    "fc_data fc' = Some junk" "fc_size fc' = of_nat (11 + length d)" "fc_type fc' = Rread"
    "fc_tag fc' = NOTAG"
    using np_alloc_rread_built [OF n(1), of fc] by blast
  have "cb_memmove (buf_init (fc_pkt fc') 0 0) 11 d (length d) =
      buf_init (wire Rread NOTAG (enc32 (of_nat (length d)) @ d)) 0 0"
    by (simp add: cb_memmove_def cb_store_def cb_in_range_def buf_init_def a(2,3))
      (simp add: wire_def a(2))
  then show ?thesis
    by (simp add: built_def np_create_rread_def a n Let_def)
      (simp add: buf_init_def)
qed

lemma created_stat:
  assumes "7 + length (msg_body dotu m) < 2 ^ 31" "m = MRstat w \<or> m = MTwstat fid w"
  shows "built (msg_create fc dotu m) (msg_type m) (msg_body dotu m)"
proof -
  let ?n = "length (encwstat w dotu)"
  have sw: "size_wstat (Some w) dotu = int ?n - 2"
    by (simp add: size_wstat_body encwstat_length)
  have "built (np_create (Some fc) (of_nat (2 + ?n)) Rstat
      [put16_null (of_nat ?n), put_wstat w (int ?n - 2) dotu]) Rstat (msg_body dotu m)"
    if "m = MRstat w"
    using assms(1) that by (intro builtI) (simp_all add: wire_simps same_head_def sw)
  moreover have "built (np_create (Some fc) (of_nat (6 + ?n)) Twstat
      [put32 fc_fid fc_fid_update fid, put16_null (of_nat ?n), put_wstat w (int ?n - 2) dotu])
      Twstat (msg_body dotu m)"
    if "m = MTwstat fid w"
    using assms(1) that by (intro builtI) (simp_all add: wire_simps same_head_def sw)
  ultimately show ?thesis
    using assms(2) by (auto simp: np_create_rstat_def np_create_twstat_def Let_def sw)
qed

lemma created_9p:
  assumes "msg_ok m" "msg_creatable dotu m" "7 + length (msg_body dotu m) < 2 ^ 31"
  shows "built (msg_create fc dotu m) (msg_type m) (msg_body dotu m)"
proof (cases "msg_type m \<in> {Twalk, Rwalk, Rread, Rstat, Twstat}")
  case True
  then show ?thesis
    using assms created_twalk created_rwalk created_rread created_stat [OF assms(3)] by (cases m) auto
next
  case False
  then show ?thesis using created_9p_simple assms by blast
qed

interpretation m9p: msg_family msg_type msg_body msg_create msg_ok msg_creatable msg_carries
proof
  fix m dotu fc
  assume "msg_ok m" "msg_creatable dotu m" "7 + length (msg_body dotu m) < 2 ^ 31"
  then show "\<exists>fc'. msg_create fc dotu m = Inr fc' \<and>
      fc_pkt fc' = wire (msg_type m) NOTAG (msg_body dotu m) \<and>
      fc_size fc' = of_nat (7 + length (msg_body dotu m)) \<and> fc_type fc' = msg_type m \<and>
      fc_tag fc' = NOTAG"
    using created_9p unfolding built_def by blast
next
  fix m dotu pre post sp fc
  assume "msg_ok m" "7 + length (msg_body dotu m) < 2 ^ 31"
  from parse_9p [OF this, of pre post sp fc]
  show "\<exists>fc'. deserialize_switch (msg_type m) dotu (cbf pre (msg_body dotu m) post sp, fc) =
      (True, cbf (pre @ msg_body dotu m) [] post sp, fc') \<and> msg_carries dotu m fc' \<and> same_head fc fc'"
    by (auto simp: deserialize_switch_def)
qed

text \<open>The packet of a message with a tag.\<close>

abbreviation packet :: "bool \<Rightarrow> u16 \<times> msg \<Rightarrow> bytes" where
  "packet dotu \<equiv> \<lambda>(tag, m). wire (msg_type m) tag (msg_body dotu m)"

end
