(* ===== verification/Wire_L.thy ===== *)
theory Wire_L
  imports Wire_9P
begin

text \<open>
  The 9P2000.L messages: their layouts, the constructors of \<^verbatim>\<open>libnpfs/np.c\<close> and the parser, as in
  \<open>Wire_9P\<close> for 9P2000. \<open>Rgetlock\<close> and \<open>Tlerror\<close> are not messages of this family: the
  parser does not read back what their constructors build (lemmas \<open>rgetlock_rejected\<close> and \<open>lerror_rejected\<close> of \<open>Packets\<close>).
\<close>

datatype (plugins only: code) lmsg =
    MRlerror u32
  | MTstatfs u32
  | MRstatfs Npstatfs
  | MTlopen u32 u32
  | MRlopen Npqid u32
  | MTlcreate u32 cstring u32 u32 u32
  | MRlcreate Npqid u32
  | MTsymlink u32 cstring cstring u32
  | MRsymlink Npqid
  | MTmknod u32 cstring u32 u32 u32 u32
  | MRmknod Npqid
  | MTrename u32 u32 cstring
  | MRrename
  | MTreadlink u32
  | MRreadlink cstring
  | MTgetattr u32 u64
  | MRgetattr u64 Npattrs Npqid
  | MTsetattr u32 u32 Npattrs
  | MRsetattr
  | MTxattrwalk u32 u32 cstring
  | MRxattrwalk u64
  | MTxattrcreate u32 cstring u64 u32
  | MRxattrcreate
  | MTreaddir u32 u64 u32
  | MRreaddir bytes
  | MTfsync u32
  | MRfsync
  | MTlock u32 u8 u32 u64 u64 u32 cstring
  | MRlock u8
  | MTgetlock u32 u8 u64 u64 u32 cstring
  | MTlink u32 u32 cstring
  | MRlink
  | MTmkdir u32 cstring u32 u32
  | MRmkdir Npqid
  | MTrenameat u32 cstring u32 cstring
  | MRrenameat
  | MTunlinkat u32 cstring u32
  | MRunlinkat

primrec lmsg_type :: "lmsg \<Rightarrow> u8" where
  "lmsg_type (MRlerror _) = Rlerror"
| "lmsg_type (MTstatfs _) = Tstatfs"
| "lmsg_type (MRstatfs _) = Rstatfs"
| "lmsg_type (MTlopen _ _) = Tlopen"
| "lmsg_type (MRlopen _ _) = Rlopen"
| "lmsg_type (MTlcreate _ _ _ _ _) = Tlcreate"
| "lmsg_type (MRlcreate _ _) = Rlcreate"
| "lmsg_type (MTsymlink _ _ _ _) = Tsymlink"
| "lmsg_type (MRsymlink _) = Rsymlink"
| "lmsg_type (MTmknod _ _ _ _ _ _) = Tmknod"
| "lmsg_type (MRmknod _) = Rmknod"
| "lmsg_type (MTrename _ _ _) = Trename"
| "lmsg_type MRrename = Rrename"
| "lmsg_type (MTreadlink _) = Treadlink"
| "lmsg_type (MRreadlink _) = Rreadlink"
| "lmsg_type (MTgetattr _ _) = Tgetattr"
| "lmsg_type (MRgetattr _ _ _) = Rgetattr"
| "lmsg_type (MTsetattr _ _ _) = Tsetattr"
| "lmsg_type MRsetattr = Rsetattr"
| "lmsg_type (MTxattrwalk _ _ _) = Txattrwalk"
| "lmsg_type (MRxattrwalk _) = Rxattrwalk"
| "lmsg_type (MTxattrcreate _ _ _ _) = Txattrcreate"
| "lmsg_type MRxattrcreate = Rxattrcreate"
| "lmsg_type (MTreaddir _ _ _) = Treaddir"
| "lmsg_type (MRreaddir _) = Rreaddir"
| "lmsg_type (MTfsync _) = Tfsync"
| "lmsg_type MRfsync = Rfsync"
| "lmsg_type (MTlock _ _ _ _ _ _ _) = Tlock"
| "lmsg_type (MRlock _) = Rlock"
| "lmsg_type (MTgetlock _ _ _ _ _ _) = Tgetlock"
| "lmsg_type (MTlink _ _ _) = Tlink"
| "lmsg_type MRlink = Rlink"
| "lmsg_type (MTmkdir _ _ _ _) = Tmkdir"
| "lmsg_type (MRmkdir _) = Rmkdir"
| "lmsg_type (MTrenameat _ _ _ _) = Trenameat"
| "lmsg_type MRrenameat = Rrenameat"
| "lmsg_type (MTunlinkat _ _ _) = Tunlinkat"
| "lmsg_type MRunlinkat = Runlinkat"

definition encattrs :: "Npattrs \<Rightarrow> bytes" where
  "encattrs a =
     enc32 (at_mode a) @ enc32 (at_uid a) @ enc32 (at_gid a) @ enc64 (at_nlink a) @
     enc64 (at_rdev a) @ enc64 (at_size a) @ enc64 (at_blksize a) @ enc64 (at_blocks a) @
     enc64 (at_atime_sec a) @ enc64 (at_atime_nsec a) @ enc64 (at_mtime_sec a) @
     enc64 (at_mtime_nsec a) @ enc64 (at_ctime_sec a) @ enc64 (at_ctime_nsec a) @
     enc64 (at_btime_sec a) @ enc64 (at_btime_nsec a) @ enc64 (at_gen a) @ enc64 (at_data_version a)"

definition encsetattrs :: "Npattrs \<Rightarrow> bytes" where
  "encsetattrs a =
     enc32 (at_mode a) @ enc32 (at_uid a) @ enc32 (at_gid a) @ enc64 (at_size a) @
     enc64 (at_atime_sec a) @ enc64 (at_atime_nsec a) @ enc64 (at_mtime_sec a) @
     enc64 (at_mtime_nsec a)"

text \<open>The attributes a reply carries, and those a request sets.\<close>

definition attrs_read :: "Npattrs \<Rightarrow> Npattrs \<Rightarrow> bool" where
  "attrs_read a b \<longleftrightarrow> b = a\<lparr>at_mask := at_mask b\<rparr>"

definition setattrs_read :: "u32 \<Rightarrow> Npattrs \<Rightarrow> Npattrs \<Rightarrow> bool" where
  "setattrs_read valid a b \<longleftrightarrow>
     at_mask b = ucast valid \<and> at_mode b = at_mode a \<and> at_uid b = at_uid a \<and> at_gid b = at_gid a \<and>
     at_size b = at_size a \<and> at_atime_sec b = at_atime_sec a \<and>
     at_atime_nsec b = at_atime_nsec a \<and> at_mtime_sec b = at_mtime_sec a \<and>
     at_mtime_nsec b = at_mtime_nsec a"

primrec lmsg_body :: "bool \<Rightarrow> lmsg \<Rightarrow> bytes" where
  "lmsg_body dotu (MRlerror ecode) = enc32 ecode"
| "lmsg_body dotu (MTstatfs fid) = enc32 fid"
| "lmsg_body dotu (MRstatfs stfs) = encstatfs stfs"
| "lmsg_body dotu (MTlopen fid flags) = enc32 fid @ enc32 flags"
| "lmsg_body dotu (MRlopen qid iounit) = encqid qid @ enc32 iounit"
| "lmsg_body dotu (MTlcreate fid name flags mode gid) =
     enc32 fid @ encstr name @ enc32 flags @ enc32 mode @ enc32 gid"
| "lmsg_body dotu (MRlcreate qid iounit) = encqid qid @ enc32 iounit"
| "lmsg_body dotu (MTsymlink dfid name symtgt gid) = enc32 dfid @ encstr name @ encstr symtgt @ enc32 gid"
| "lmsg_body dotu (MRsymlink qid) = encqid qid"
| "lmsg_body dotu (MTmknod dfid name mode major minor gid) =
     enc32 dfid @ encstr name @ enc32 mode @ enc32 major @ enc32 minor @ enc32 gid"
| "lmsg_body dotu (MRmknod qid) = encqid qid"
| "lmsg_body dotu (MTrename fid dfid name) = enc32 fid @ enc32 dfid @ encstr name"
| "lmsg_body dotu MRrename = []"
| "lmsg_body dotu (MTreadlink fid) = enc32 fid"
| "lmsg_body dotu (MRreadlink target) = encstr target"
| "lmsg_body dotu (MTgetattr fid msk) = enc32 fid @ enc64 msk"
| "lmsg_body dotu (MRgetattr msk attrs qid) = enc64 msk @ encqid qid @ encattrs attrs"
| "lmsg_body dotu (MTsetattr fid valid attrs) = enc32 fid @ enc32 valid @ encsetattrs attrs"
| "lmsg_body dotu MRsetattr = []"
| "lmsg_body dotu (MTxattrwalk fid newfid name) = enc32 fid @ enc32 newfid @ encstr name"
| "lmsg_body dotu (MRxattrwalk asize) = enc64 asize"
| "lmsg_body dotu (MTxattrcreate fid name asize flags) = enc32 fid @ encstr name @ enc64 asize @ enc32 flags"
| "lmsg_body dotu MRxattrcreate = []"
| "lmsg_body dotu (MTreaddir fid offset count) = enc32 fid @ enc64 offset @ enc32 count"
| "lmsg_body dotu (MRreaddir data) = enc32 (of_nat (length data)) @ data"
| "lmsg_body dotu (MTfsync fid) = enc32 fid"
| "lmsg_body dotu MRfsync = []"
| "lmsg_body dotu (MTlock fid type flags offset len procid clientid) =
     enc32 fid @ enc8 type @ enc32 flags @ enc64 offset @ enc64 len @ enc32 procid @ encstr clientid"
| "lmsg_body dotu (MRlock status) = enc8 status"
| "lmsg_body dotu (MTgetlock fid type offset len procid clientid) =
     enc32 fid @ enc8 type @ enc64 offset @ enc64 len @ enc32 procid @ encstr clientid"
| "lmsg_body dotu (MTlink dfid fid name) = enc32 dfid @ enc32 fid @ encstr name"
| "lmsg_body dotu MRlink = []"
| "lmsg_body dotu (MTmkdir dfid name mode gid) = enc32 dfid @ encstr name @ enc32 mode @ enc32 gid"
| "lmsg_body dotu (MRmkdir qid) = encqid qid"
| "lmsg_body dotu (MTrenameat odfid oname ndfid nname) = enc32 odfid @ encstr oname @ enc32 ndfid @ encstr nname"
| "lmsg_body dotu MRrenameat = []"
| "lmsg_body dotu (MTunlinkat dfid name flags) = enc32 dfid @ encstr name @ enc32 flags"
| "lmsg_body dotu MRunlinkat = []"

primrec lmsg_create :: "Npfcall \<Rightarrow> bool \<Rightarrow> lmsg \<Rightarrow> created" where
  "lmsg_create fc dotu (MRlerror ecode) = np_create_rlerror (Some fc) ecode"
| "lmsg_create fc dotu (MTstatfs fid) = np_create_tstatfs (Some fc) fid"
| "lmsg_create fc dotu (MRstatfs stfs) = np_create_rstatfs (Some fc) stfs"
| "lmsg_create fc dotu (MTlopen fid flags) = np_create_tlopen (Some fc) fid flags"
| "lmsg_create fc dotu (MRlopen qid iounit) = np_create_rlopen (Some fc) qid iounit"
| "lmsg_create fc dotu (MTlcreate fid name flags mode gid) =
     np_create_tlcreate (Some fc) fid name flags mode gid"
| "lmsg_create fc dotu (MRlcreate qid iounit) = np_create_rlcreate (Some fc) qid iounit"
| "lmsg_create fc dotu (MTsymlink dfid name symtgt gid) =
     np_create_tsymlink (Some fc) dfid name symtgt gid"
| "lmsg_create fc dotu (MRsymlink qid) = np_create_rsymlink (Some fc) qid"
| "lmsg_create fc dotu (MTmknod dfid name mode major minor gid) =
     np_create_tmknod (Some fc) dfid name mode major minor gid"
| "lmsg_create fc dotu (MRmknod qid) = np_create_rmknod (Some fc) qid"
| "lmsg_create fc dotu (MTrename fid dfid name) = np_create_trename (Some fc) fid dfid name"
| "lmsg_create fc dotu MRrename = np_create_rrename (Some fc)"
| "lmsg_create fc dotu (MTreadlink fid) = np_create_treadlink (Some fc) fid"
| "lmsg_create fc dotu (MRreadlink target) = np_create_rreadlink (Some fc) target"
| "lmsg_create fc dotu (MTgetattr fid msk) = np_create_tgetattr (Some fc) fid msk"
| "lmsg_create fc dotu (MRgetattr msk attrs qid) = np_create_rgetattr (Some fc) msk attrs qid"
| "lmsg_create fc dotu (MTsetattr fid valid attrs) = np_create_tsetattr (Some fc) fid valid attrs"
| "lmsg_create fc dotu MRsetattr = np_create_rsetattr (Some fc)"
| "lmsg_create fc dotu (MTxattrwalk fid newfid name) =
     np_create_txattrwalk (Some fc) fid newfid name"
| "lmsg_create fc dotu (MRxattrwalk asize) = np_create_rxattrwalk (Some fc) asize"
| "lmsg_create fc dotu (MTxattrcreate fid name asize flags) =
     np_create_txattrcreate (Some fc) fid name asize flags"
| "lmsg_create fc dotu MRxattrcreate = np_create_rxattrcreate (Some fc)"
| "lmsg_create fc dotu (MTreaddir fid offset count) =
     np_create_treaddir (Some fc) fid offset count"
| "lmsg_create fc dotu (MRreaddir data) =
     np_create_rreaddir (Some fc) (of_nat (length data)) data"
| "lmsg_create fc dotu (MTfsync fid) = np_create_tfsync (Some fc) fid"
| "lmsg_create fc dotu MRfsync = np_create_rfsync (Some fc)"
| "lmsg_create fc dotu (MTlock fid type flags offset len procid clientid) =
     np_create_tlock (Some fc) fid type flags offset len procid clientid"
| "lmsg_create fc dotu (MRlock status) = np_create_rlock (Some fc) status"
| "lmsg_create fc dotu (MTgetlock fid type offset len procid clientid) =
     np_create_tgetlock (Some fc) fid type offset len procid clientid"
| "lmsg_create fc dotu (MTlink dfid fid name) = np_create_tlink (Some fc) dfid fid name"
| "lmsg_create fc dotu MRlink = np_create_rlink (Some fc)"
| "lmsg_create fc dotu (MTmkdir dfid name mode gid) =
     np_create_tmkdir (Some fc) dfid name mode gid"
| "lmsg_create fc dotu (MRmkdir qid) = np_create_rmkdir (Some fc) qid"
| "lmsg_create fc dotu (MTrenameat odfid oname ndfid nname) =
     np_create_trenameat (Some fc) odfid oname ndfid nname"
| "lmsg_create fc dotu MRrenameat = np_create_rrenameat (Some fc)"
| "lmsg_create fc dotu (MTunlinkat dfid name flags) =
     np_create_tunlinkat (Some fc) dfid name flags"
| "lmsg_create fc dotu MRunlinkat = np_create_runlinkat (Some fc)"

primrec lmsg_ok :: "lmsg \<Rightarrow> bool" where
  "lmsg_ok (MRlerror _) \<longleftrightarrow> True"
| "lmsg_ok (MTstatfs _) \<longleftrightarrow> True"
| "lmsg_ok (MRstatfs _) \<longleftrightarrow> True"
| "lmsg_ok (MTlopen _ _) \<longleftrightarrow> True"
| "lmsg_ok (MRlopen _ _) \<longleftrightarrow> True"
| "lmsg_ok (MTlcreate _ name _ _ _) \<longleftrightarrow> str_ok name"
| "lmsg_ok (MRlcreate _ _) \<longleftrightarrow> True"
| "lmsg_ok (MTsymlink _ name symtgt _) \<longleftrightarrow> str_ok name \<and> str_ok symtgt"
| "lmsg_ok (MRsymlink _) \<longleftrightarrow> True"
| "lmsg_ok (MTmknod _ name _ _ _ _) \<longleftrightarrow> str_ok name"
| "lmsg_ok (MRmknod _) \<longleftrightarrow> True"
| "lmsg_ok (MTrename _ _ name) \<longleftrightarrow> str_ok name"
| "lmsg_ok MRrename \<longleftrightarrow> True"
| "lmsg_ok (MTreadlink _) \<longleftrightarrow> True"
| "lmsg_ok (MRreadlink target) \<longleftrightarrow> str_ok target"
| "lmsg_ok (MTgetattr _ _) \<longleftrightarrow> True"
| "lmsg_ok (MRgetattr _ _ _) \<longleftrightarrow> True"
| "lmsg_ok (MTsetattr _ _ _) \<longleftrightarrow> True"
| "lmsg_ok MRsetattr \<longleftrightarrow> True"
| "lmsg_ok (MTxattrwalk _ _ name) \<longleftrightarrow> str_ok name"
| "lmsg_ok (MRxattrwalk _) \<longleftrightarrow> True"
| "lmsg_ok (MTxattrcreate _ name _ _) \<longleftrightarrow> str_ok name"
| "lmsg_ok MRxattrcreate \<longleftrightarrow> True"
| "lmsg_ok (MTreaddir _ _ _) \<longleftrightarrow> True"
| "lmsg_ok (MRreaddir _) \<longleftrightarrow> True"
| "lmsg_ok (MTfsync _) \<longleftrightarrow> True"
| "lmsg_ok MRfsync \<longleftrightarrow> True"
| "lmsg_ok (MTlock _ _ _ _ _ _ clientid) \<longleftrightarrow> str_ok clientid"
| "lmsg_ok (MRlock _) \<longleftrightarrow> True"
| "lmsg_ok (MTgetlock _ _ _ _ _ clientid) \<longleftrightarrow> str_ok clientid"
| "lmsg_ok (MTlink _ _ name) \<longleftrightarrow> str_ok name"
| "lmsg_ok MRlink \<longleftrightarrow> True"
| "lmsg_ok (MTmkdir _ name _ _) \<longleftrightarrow> str_ok name"
| "lmsg_ok (MRmkdir _) \<longleftrightarrow> True"
| "lmsg_ok (MTrenameat _ oname _ nname) \<longleftrightarrow> str_ok oname \<and> str_ok nname"
| "lmsg_ok MRrenameat \<longleftrightarrow> True"
| "lmsg_ok (MTunlinkat _ name _) \<longleftrightarrow> str_ok name"
| "lmsg_ok MRunlinkat \<longleftrightarrow> True"

text \<open>
  The size \<^verbatim>\<open>np_create_tsetattr\<close> computes is smaller than what it writes, and \<^verbatim>\<open>size_statfs\<close> is four
  bytes larger than a statfs record.
\<close>

definition lmsg_creatable :: "bool \<Rightarrow> lmsg \<Rightarrow> bool" where
  "lmsg_creatable dotu m \<longleftrightarrow> lmsg_type m \<notin> {Tsetattr, Rstatfs}"

primrec lmsg_carries :: "bool \<Rightarrow> lmsg \<Rightarrow> Npfcall \<Rightarrow> bool" where
  "lmsg_carries dotu (MRlerror ecode) fc \<longleftrightarrow> fc_ecode fc = ecode"
| "lmsg_carries dotu (MTstatfs fid) fc \<longleftrightarrow> fc_fid fc = fid"
| "lmsg_carries dotu (MRstatfs stfs) fc \<longleftrightarrow> fc_stfs fc = stfs"
| "lmsg_carries dotu (MTlopen fid flags) fc \<longleftrightarrow> fc_fid fc = fid \<and> fc_flags fc = flags"
| "lmsg_carries dotu (MRlopen qid iounit) fc \<longleftrightarrow> fc_qid fc = qid \<and> fc_iounit fc = iounit"
| "lmsg_carries dotu (MTlcreate fid name flags mode gid) fc \<longleftrightarrow>
     fc_fid fc = fid \<and> fc_name fc = npstr name \<and> fc_flags fc = flags \<and>
     fc_perm fc = mode \<and> fc_gid fc = gid"
| "lmsg_carries dotu (MRlcreate qid iounit) fc \<longleftrightarrow> fc_qid fc = qid \<and> fc_iounit fc = iounit"
| "lmsg_carries dotu (MTsymlink dfid name symtgt gid) fc \<longleftrightarrow>
     fc_dfid fc = dfid \<and> fc_name fc = npstr name \<and> fc_symtgt fc = npstr symtgt \<and>
     fc_gid fc = gid"
| "lmsg_carries dotu (MRsymlink qid) fc \<longleftrightarrow> fc_qid fc = qid"
| "lmsg_carries dotu (MTmknod dfid name mode major minor gid) fc \<longleftrightarrow>
     fc_fid fc = dfid \<and> fc_name fc = npstr name \<and> fc_perm fc = mode \<and>
     fc_major fc = major \<and> fc_minor fc = minor \<and> fc_gid fc = gid"
| "lmsg_carries dotu (MRmknod qid) fc \<longleftrightarrow> fc_qid fc = qid"
| "lmsg_carries dotu (MTrename fid dfid name) fc \<longleftrightarrow>
     fc_fid fc = fid \<and> fc_dfid fc = dfid \<and> fc_name fc = npstr name"
| "lmsg_carries dotu MRrename fc \<longleftrightarrow> True"
| "lmsg_carries dotu (MTreadlink fid) fc \<longleftrightarrow> fc_fid fc = fid"
| "lmsg_carries dotu (MRreadlink target) fc \<longleftrightarrow> fc_symtgt fc = npstr target"
| "lmsg_carries dotu (MTgetattr fid msk) fc \<longleftrightarrow> fc_fid fc = fid \<and> fc_mask fc = msk"
| "lmsg_carries dotu (MRgetattr msk attrs qid) fc \<longleftrightarrow>
     fc_mask fc = msk \<and> fc_qid fc = qid \<and> attrs_read attrs (fc_attrs fc)"
| "lmsg_carries dotu (MTsetattr fid valid attrs) fc \<longleftrightarrow>
     fc_fid fc = fid \<and> fc_mask fc = ucast valid \<and> setattrs_read valid attrs (fc_attrs fc)"
| "lmsg_carries dotu MRsetattr fc \<longleftrightarrow> True"
| "lmsg_carries dotu (MTxattrwalk fid newfid name) fc \<longleftrightarrow>
     fc_fid fc = fid \<and> fc_newfid fc = newfid \<and> fc_name fc = npstr name"
| "lmsg_carries dotu (MRxattrwalk asize) fc \<longleftrightarrow> fc_asize fc = asize"
| "lmsg_carries dotu (MTxattrcreate fid name asize flags) fc \<longleftrightarrow>
     fc_fid fc = fid \<and> fc_name fc = npstr name \<and> fc_asize fc = asize \<and> fc_flags fc = flags"
| "lmsg_carries dotu MRxattrcreate fc \<longleftrightarrow> True"
| "lmsg_carries dotu (MTreaddir fid offset count) fc \<longleftrightarrow>
     fc_fid fc = fid \<and> fc_offset fc = offset \<and> fc_count fc = count"
| "lmsg_carries dotu (MRreaddir data) fc \<longleftrightarrow>
     fc_count fc = of_nat (length data) \<and> fc_data fc = Some data"
| "lmsg_carries dotu (MTfsync fid) fc \<longleftrightarrow> fc_fid fc = fid"
| "lmsg_carries dotu MRfsync fc \<longleftrightarrow> True"
| "lmsg_carries dotu (MTlock fid type flags offset len procid clientid) fc \<longleftrightarrow>
     fc_fid fc = fid \<and> fc_locktype fc = type \<and> fc_flags fc = flags \<and>
     fc_offset fc = offset \<and> fc_locklength fc = len \<and> fc_procid fc = procid \<and>
     fc_clientid fc = npstr clientid"
| "lmsg_carries dotu (MRlock status) fc \<longleftrightarrow> fc_lockstatus fc = status"
| "lmsg_carries dotu (MTgetlock fid type offset len procid clientid) fc \<longleftrightarrow>
     fc_fid fc = fid \<and> fc_locktype fc = type \<and> fc_offset fc = offset \<and>
     fc_locklength fc = len \<and> fc_procid fc = procid \<and> fc_clientid fc = npstr clientid"
| "lmsg_carries dotu (MTlink dfid fid name) fc \<longleftrightarrow>
     fc_dfid fc = dfid \<and> fc_fid fc = fid \<and> fc_name fc = npstr name"
| "lmsg_carries dotu MRlink fc \<longleftrightarrow> True"
| "lmsg_carries dotu (MTmkdir dfid name mode gid) fc \<longleftrightarrow>
     fc_fid fc = dfid \<and> fc_name fc = npstr name \<and> fc_perm fc = mode \<and> fc_gid fc = gid"
| "lmsg_carries dotu (MRmkdir qid) fc \<longleftrightarrow> fc_qid fc = qid"
| "lmsg_carries dotu (MTrenameat odfid oname ndfid nname) fc \<longleftrightarrow>
     fc_fid fc = odfid \<and> fc_oname fc = npstr oname \<and> fc_newfid fc = ndfid \<and>
     fc_name fc = npstr nname"
| "lmsg_carries dotu MRrenameat fc \<longleftrightarrow> True"
| "lmsg_carries dotu (MTunlinkat dfid name flags) fc \<longleftrightarrow>
     fc_fid fc = dfid \<and> fc_name fc = npstr name \<and> fc_flags fc = flags"
| "lmsg_carries dotu MRunlinkat fc \<longleftrightarrow> True"

lemmas create_L_defs =
  np_create_rlerror_def np_create_tstatfs_def np_create_tlopen_def np_create_rlopen_def
  np_create_tlcreate_def np_create_rlcreate_def np_create_tsymlink_def np_create_rsymlink_def
  np_create_tmknod_def np_create_rmknod_def np_create_trename_def np_create_rrename_def
  np_create_treadlink_def np_create_rreadlink_def np_create_tgetattr_def np_create_rgetattr_def
  np_create_rsetattr_def np_create_txattrwalk_def np_create_rxattrwalk_def
  np_create_txattrcreate_def np_create_rxattrcreate_def np_create_treaddir_def np_create_tfsync_def
  np_create_rfsync_def np_create_tlock_def np_create_rlock_def np_create_tgetlock_def
  np_create_tlink_def np_create_rlink_def np_create_tmkdir_def np_create_rmkdir_def
  np_create_trenameat_def np_create_rrenameat_def np_create_tunlinkat_def np_create_runlinkat_def

subsection \<open>The parser\<close>

lemma get_fc_statfs_enc [wire_simps]:
  "get_fc_statfs (cbf pre (encstatfs s @ xs) post sp, fc) =
    (cbf (pre @ encstatfs s) xs post sp, fc\<lparr>fc_stfs := s\<rparr>)"
  by (simp add: get_fc_statfs_def buf_get_statfs_enc)

lemma parse_rgetattr:
  "\<exists>fc'. deserialize_rgetattr (cbf pre (lmsg_body dotu (MRgetattr msk attrs qid) @ []) post sp, fc) =
      Some (True, cbf (pre @ lmsg_body dotu (MRgetattr msk attrs qid)) [] post sp, fc') \<and>
    lmsg_carries dotu (MRgetattr msk attrs qid) fc' \<and> same_head fc fc'"
  by (simp add: deserialize_rgetattr_def fields_def get_at_def encattrs_def wire_simps same_head_def
      attrs_read_def del: append_Nil2)

lemma parse_tsetattr:
  "\<exists>fc'. deserialize_tsetattr (cbf pre (lmsg_body dotu (MTsetattr fid valid attrs) @ []) post sp, fc) =
      Some (True, cbf (pre @ lmsg_body dotu (MTsetattr fid valid attrs)) [] post sp, fc') \<and>
    lmsg_carries dotu (MTsetattr fid valid attrs) fc' \<and> same_head fc fc'"
  by (simp add: deserialize_tsetattr_def fields_def get_at_def encsetattrs_def wire_simps same_head_def
      setattrs_read_def del: append_Nil2)

lemma lmsg_not_9p: "deserialize_9p2000 (lmsg_type m) dotu s = None"
  by (cases m; simp add: deserialize_9p2000_def)

definition parse_L :: "u8 \<Rightarrow> pstate \<Rightarrow> (bool \<times> pstate) option" where
  "parse_L type s =
     (case deserialize_9p2000L_1 type s of Some r \<Rightarrow> Some r | None \<Rightarrow> deserialize_9p2000L_2 type s)"

lemma parse_lmsg_simple:
  assumes "lmsg_ok m" "7 + length (lmsg_body dotu m) < 2 ^ 31" "lmsg_type m \<notin> {Rgetattr, Tsetattr}"
  shows "\<exists>fc'. parse_L (lmsg_type m) (cbf pre (lmsg_body dotu m @ []) post sp, fc) =
      Some (True, cbf (pre @ lmsg_body dotu m) [] post sp, fc') \<and> lmsg_carries dotu m fc' \<and> same_head fc fc'"
  using assms
  by (cases m; (hypsubst, simp only: lmsg_type.simps, simp add: parse_L_def deserialize_9p2000L_1_def
        deserialize_9p2000L_2_def fields_def wire_simps same_head_def alloc_data_get del: append_Nil2);
      simp)

lemma parse_lmsg:
  assumes "lmsg_ok m" "7 + length (lmsg_body dotu m) < 2 ^ 31"
  shows "\<exists>fc'. parse_L (lmsg_type m) (cbf pre (lmsg_body dotu m @ []) post sp, fc) =
      Some (True, cbf (pre @ lmsg_body dotu m) [] post sp, fc') \<and> lmsg_carries dotu m fc' \<and> same_head fc fc'"
proof (cases "lmsg_type m \<in> {Rgetattr, Tsetattr}")
  case False
  then show ?thesis using parse_lmsg_simple assms by blast
next
  case True
  have "parse_L Rgetattr s = Some r" if "deserialize_rgetattr s = Some r" for s r
    using that by (simp add: parse_L_def deserialize_9p2000L_1_def)
  moreover have "parse_L Tsetattr s = deserialize_tsetattr s" for s
    by (simp add: parse_L_def deserialize_9p2000L_1_def deserialize_9p2000L_2_def)
  ultimately show ?thesis
    using True parse_rgetattr [of pre dotu _ _ _ post sp fc] parse_tsetattr [of pre dotu _ _ _ post sp fc]
    by (cases m; simp only: lmsg_type.simps; fastforce)
qed

subsection \<open>The constructors\<close>

lemma created_L_simple:
  assumes "lmsg_ok m" "lmsg_type m \<notin> {Rreaddir, Tsetattr, Rstatfs}" "7 + length (lmsg_body dotu m) < 2 ^ 31"
  shows "built (lmsg_create fc dotu m) (lmsg_type m) (lmsg_body dotu m)"
  using assms
  apply (cases m; hypsubst?; simp only: lmsg_create.simps lmsg_type.simps create_L_defs)
  apply ((rule builtI)?; simp add: wire_simps same_head_def put_at_def encattrs_def np_errno_to_linux_def)+
  done

lemma created_rreaddir:
  assumes "7 + length (lmsg_body dotu (MRreaddir d)) < 2 ^ 31"
  shows "built (lmsg_create fc dotu (MRreaddir d)) Rreaddir (lmsg_body dotu (MRreaddir d))"
  unfolding lmsg_create.simps np_create_rreaddir_def
  by (rule builtI) (use assms in \<open>simp_all add: wire_simps same_head_def alloc_data_put
      alloc_data_unchecked_def\<close>)

interpretation m9pL: msg_family lmsg_type lmsg_body lmsg_create lmsg_ok lmsg_creatable lmsg_carries
proof
  fix m dotu fc
  assume m: "lmsg_ok m" "lmsg_creatable dotu m" "7 + length (lmsg_body dotu m) < 2 ^ 31"
  have "built (lmsg_create fc dotu m) (lmsg_type m) (lmsg_body dotu m)"
  proof (cases "lmsg_type m = Rreaddir")
    case True
    with m(3) show ?thesis
      by (cases m; simp only: lmsg_type.simps; simp add: created_rreaddir [simplified])
  next
    case False
    with m created_L_simple show ?thesis by (simp add: lmsg_creatable_def)
  qed
  then show "\<exists>fc'. lmsg_create fc dotu m = Inr fc' \<and>
      fc_pkt fc' = wire (lmsg_type m) NOTAG (lmsg_body dotu m) \<and>
      fc_size fc' = of_nat (7 + length (lmsg_body dotu m)) \<and> fc_type fc' = lmsg_type m \<and>
      fc_tag fc' = NOTAG"
    unfolding built_def by blast
next
  fix m dotu pre post sp fc
  assume "lmsg_ok m" "7 + length (lmsg_body dotu m) < 2 ^ 31"
  from parse_lmsg [OF this, of pre post sp fc]
  show "\<exists>fc'. deserialize_switch (lmsg_type m) dotu (cbf pre (lmsg_body dotu m) post sp, fc) =
      (True, cbf (pre @ lmsg_body dotu m) [] post sp, fc') \<and> lmsg_carries dotu m fc' \<and> same_head fc fc'"
    by (auto simp: deserialize_switch_def lmsg_not_9p parse_L_def split: option.splits)
qed

end
