(* ===== verification/Packets.thy ===== *)
theory Packets
  imports Wire_L
begin

text \<open>
  What the packet layer of \<^verbatim>\<open>libnpfs/np.c\<close> promises its callers: constructors and parser are
  inverse to each other for every message of 9P2000, 9P2000.u and 9P2000.L that the constructors
  encode, the stat and directory-entry serializers produce the specified records, reads are
  trimmed correctly; and the places where the code departs from the protocol.
\<close>

text \<open>A zeroed structure, for evaluating the model.\<close>

definition npstat0 :: Npstat where
  "npstat0 = \<lparr>st_size = 0, st_type = 0, st_dev = 0, st_qid = qid0, st_mode = 0, st_atime = 0,
     st_mtime = 0, st_length = 0, st_name = np_strzero, st_uid = np_strzero, st_gid = np_strzero,
     st_muid = np_strzero, st_extension = np_strzero, st_n_uid = 0, st_n_gid = 0, st_n_muid = 0\<rparr>"

definition npattrs0 :: Npattrs where
  "npattrs0 = \<lparr>at_mask = 0, at_mode = 0, at_uid = 0, at_gid = 0, at_nlink = 0, at_rdev = 0,
     at_size = 0, at_blksize = 0, at_blocks = 0, at_atime_sec = 0, at_atime_nsec = 0,
     at_mtime_sec = 0, at_mtime_nsec = 0, at_ctime_sec = 0, at_ctime_nsec = 0, at_btime_sec = 0,
     at_btime_nsec = 0, at_gen = 0, at_data_version = 0\<rparr>"

definition npfcall0 :: Npfcall where
  "npfcall0 = \<lparr>fc_size = 0, fc_type = 0, fc_tag = 0, fc_pkt = [], fc_fid = 0, fc_msize = 0,
     fc_version = np_strzero, fc_afid = 0, fc_uname = np_strzero, fc_aname = np_strzero,
     fc_qid = qid0, fc_ename = np_strzero, fc_oldtag = 0, fc_newfid = 0, fc_nwname = 0,
     fc_wnames = [], fc_nwqid = 0, fc_wqids = [], fc_mode = 0, fc_iounit = 0, fc_name = np_strzero,
     fc_perm = 0, fc_offset = 0, fc_count = 0, fc_data = None, fc_stat = npstat0, fc_ecode = 0,
     fc_extension = np_strzero, fc_n_uname = 0,
     fc_stfs = \<lparr>sf_type = 0, sf_bsize = 0, sf_blocks = 0, sf_bfree = 0, sf_bavail = 0,
       sf_files = 0, sf_ffree = 0, sf_fsid = 0, sf_namelen = 0\<rparr>,
     fc_flags = 0, fc_gid = 0, fc_major = 0, fc_minor = 0, fc_symtgt = np_strzero, fc_dfid = 0,
     fc_mask = 0, fc_attrs = npattrs0, fc_asize = 0, fc_locktype = 0, fc_locklength = 0,
     fc_procid = 0, fc_clientid = np_strzero, fc_lockstatus = 0, fc_oname = np_strzero\<rparr>"

subsection \<open>Memory safety of the parser\<close>

text \<open>
  (C1) Memory safety of the parser: on every packet of at least four bytes whose size field does
  not exceed the bytes received, and for both protocol variants, \<^verbatim>\<open>np_deserialize\<close> returns without
  having read outside the packet, whatever the packet's bytes are.
\<close>

theorem np_deserialize_safe:
  assumes "4 \<le> length data" "unat (pkt_size data) \<le> length data"
  shows "\<not> snd (snd (np_deserialize fc data dotu))"
proof -
  let ?s = "deserialize_header fc data"
  have "\<not> cb_fault (fst (snd (deserialize_switch (fc_type (snd ?s)) dotu ?s)))"
    using deserialize_switch_safe deserialize_header_safe [OF assms] by blast
  then show ?thesis
    by (simp add: np_deserialize_def split_beta Let_def)
qed

text \<open>A Tversion that ends before its version string.\<close>

theorem np_deserialize_safe_witness:
  "\<not> snd (snd (np_deserialize npfcall0 [11, 0, 0, 0, 100, 1, 0, 0, 32, 0, 0] True))"
  by (rule np_deserialize_safe)
    (simp_all add: pkt_size_def buf_get_int32_def buf_init_def buf_check_size_def cb_load_def
      cb_in_range_def)

subsection \<open>Round trips\<close>

text \<open>
  (C2) Round trip of the 9P2000 and 9P2000.u messages. For every message \<open>m\<close> with strings
  shorter than \<open>2\<^sup>1\<^sup>6\<close> bytes, at most 16 walk elements and a total size below \<open>2\<^sup>3\<^sup>1\<close>, the constructor
  of \<^verbatim>\<open>np.c\<close> returns a packet whose size field is its length; after \<^verbatim>\<open>np_set_tag\<close>,
  \<^verbatim>\<open>np_deserialize\<close> accepts it (whatever follows it in the buffer), returns its length, and
  yields the message's type, tag and every field. Two messages are excluded in the .u variant,
  those of \<open>tauth_dotu_loses_uid\<close> and \<open>tcreate_dotu_no_extension\<close>.
\<close>

theorem roundtrip_9p:
  assumes "msg_ok m" "msg_creatable dotu m" "7 + length (msg_body dotu m) < 2 ^ 31"
  shows "\<exists>fc1 fc2 fc'. msg_create fc dotu m = Inr fc1 \<and> np_set_tag fc1 tag = Some fc2 \<and>
    fc_size fc2 = of_nat (length (fc_pkt fc2)) \<and>
    np_deserialize fc0 (fc_pkt fc2 @ rest) dotu = (int (length (fc_pkt fc2)), fc', False) \<and>
    fc_type fc' = msg_type m \<and> fc_tag fc' = tag \<and> msg_carries dotu m fc'"
  using assms by (rule m9p.roundtrip)

theorem roundtrip_9p_witness:
  "\<exists>fc1 fc2 fc'. np_create_twalk (Some npfcall0) 1 2 2 [cstr ''usr'', cstr ''bin''] = Inr fc1 \<and>
    np_set_tag fc1 7 = Some fc2 \<and> fc_size fc2 = of_nat (length (fc_pkt fc2)) \<and>
    np_deserialize npfcall0 (fc_pkt fc2 @ [1, 2, 3]) True = (int (length (fc_pkt fc2)), fc', False) \<and>
    fc_type fc' = Twalk \<and> fc_tag fc' = 7 \<and> msg_carries True (MTwalk 1 2 [cstr ''usr'', cstr ''bin'']) fc'"
  using roundtrip_9p [of "MTwalk 1 2 [cstr ''usr'', cstr ''bin'']" True npfcall0 7 npfcall0 "[1, 2, 3]"]
  by (simp add: cstr_def)

text \<open>
  (C3) Round trip of the 9P2000.L messages, in the same form, for the messages of every 9P2000.L constructor of
  \<^verbatim>\<open>np.c\<close> but four. Tsetattr and Rstatfs are excluded by \<open>lmsg_creatable\<close>, since their constructors compute a wrong size (lemmas
  \<open>tsetattr_never_built\<close> and \<open>rstatfs_four_stray_bytes\<close>). Rgetlock (\<^verbatim>\<open>np_create_rgetlock\<close>) and Tlerror
  (\<^verbatim>\<open>np_create_lerror\<close>) are not messages of \<open>lmsg\<close>, since the parser does not read them back: it expects
  another layout of the former and does not know the latter (lemmas \<open>rgetlock_rejected\<close> and \<open>lerror_rejected\<close>).
\<close>

theorem roundtrip_L:
  assumes "lmsg_ok m" "lmsg_creatable dotu m" "7 + length (lmsg_body dotu m) < 2 ^ 31"
  shows "\<exists>fc1 fc2 fc'. lmsg_create fc dotu m = Inr fc1 \<and> np_set_tag fc1 tag = Some fc2 \<and>
    fc_size fc2 = of_nat (length (fc_pkt fc2)) \<and>
    np_deserialize fc0 (fc_pkt fc2 @ rest) dotu = (int (length (fc_pkt fc2)), fc', False) \<and>
    fc_type fc' = lmsg_type m \<and> fc_tag fc' = tag \<and> lmsg_carries dotu m fc'"
  using assms by (rule m9pL.roundtrip)

theorem roundtrip_L_witness:
  "\<exists>fc1 fc2 fc'. np_create_tlock (Some npfcall0) 5 1 0 100 20 77 (cstr ''host'') = Inr fc1 \<and>
    np_set_tag fc1 3 = Some fc2 \<and> fc_size fc2 = of_nat (length (fc_pkt fc2)) \<and>
    np_deserialize npfcall0 (fc_pkt fc2 @ []) False = (int (length (fc_pkt fc2)), fc', False) \<and>
    fc_type fc' = Tlock \<and> fc_tag fc' = 3 \<and> lmsg_carries False (MTlock 5 1 0 100 20 77 (cstr ''host'')) fc'"
  using roundtrip_L [of "MTlock 5 1 0 100 20 77 (cstr ''host'')" False npfcall0 3 npfcall0 "[]"]
  by (simp add: cstr_def lmsg_creatable_def)

text \<open>
  (C30) The parser accepts every message the protocol specifies, not only those the library's own
  constructors build: from the specified bytes of any 9P2000.u message, for example a Tcreate with
  an extension or a Tauth with a numeric user, it recovers the type, the tag and all fields and
  returns the length of the packet.
\<close>

theorem deserialize_specified:
  assumes "msg_ok m" "7 + length (msg_body dotu m) < 2 ^ 31"
  shows "\<exists>fc'. np_deserialize fc (wire (msg_type m) tag (msg_body dotu m) @ rest) dotu =
      (int (7 + length (msg_body dotu m)), fc', False) \<and>
    fc_type fc' = msg_type m \<and> fc_tag fc' = tag \<and> msg_carries dotu m fc'"
  using assms by (rule m9p.deserialize_wire)

theorem deserialize_specified_witness:
  "\<exists>fc'. np_deserialize npfcall0 (wire Tcreate 9 (enc32 4 @ encstr (cstr ''f'') @ enc32 420 @ enc8 1 @
        encstr (cstr ''ext'')) @ []) True = (24, fc', False) \<and>
    fc_type fc' = Tcreate \<and> fc_tag fc' = 9 \<and>
    msg_carries True (MTcreate 4 (cstr ''f'') 420 1 (cstr ''ext'')) fc'"
  using deserialize_specified [of "MTcreate 4 (cstr ''f'') 420 1 (cstr ''ext'')" True npfcall0 9 "[]"]
  by (simp add: cstr_def)

subsection \<open>Stat records and directory entries\<close>

lemma serialize_stat_written:
  assumes "length (encwstat w dotu) \<le> length buf" "buflen = int (length buf)"
  shows "np_serialize_stat junk w buf buflen dotu =
    (int (length (encwstat w dotu)),
     cbf (encwstat w dotu) (drop (length (encwstat w dotu)) buf) [] 0)"
proof -
  have "buf_init buf 0 buflen = cbf [] buf [] 0"
    using cbf_buf_init [of 0 "[]" buflen buf "[]"] assms by simp
  then show ?thesis
    using assms buf_put_wstat_fits [of w dotu buf "[]" "[]" 0 junk]
    by (simp add: np_serialize_stat_def Let_def size_wstat_body encwstat_length)
qed

text \<open>
  (C31) Round trip of stat records: when the buffer holds the record, \<^verbatim>\<open>np_serialize_stat\<close> returns its
  length and writes exactly the record of the specification at the buffer's start, leaving the
  rest of the buffer as it was, and \<^verbatim>\<open>np_deserialize_stat\<close> of that buffer consumes the same number
  of bytes and recovers every field.
\<close>

theorem stat_roundtrip:
  assumes "wstat_ok w" "length (encwstat w dotu) \<le> length buf" "buflen = int (length buf)"
  shows "\<exists>b. np_serialize_stat junk w buf buflen dotu = (int (length (encwstat w dotu)), b) \<and>
    \<not> cb_fault b \<and> cb_mem b = encwstat w dotu @ drop (length (encwstat w dotu)) buf \<and>
    np_deserialize_stat old (cb_mem b) buflen dotu =
      (int (length (encwstat w dotu)), stat_of w dotu old, False)"
proof -
  let ?rest = "drop (length (encwstat w dotu)) buf"
  have "buf_init (encwstat w dotu @ ?rest) 0 buflen = cbf [] (encwstat w dotu @ ?rest) [] 0"
    using cbf_buf_init [of 0 "[]" buflen "encwstat w dotu @ ?rest" "[]"] assms by simp
  then show ?thesis
    using serialize_stat_written [OF assms(2,3), of junk] buf_get_stat_enc [OF assms(1), of "[]" dotu ?rest "[]" 0 old]
    by (simp add: np_deserialize_stat_def Let_def)
qed

definition wstat_ex :: Npwstat where
  "wstat_ex = \<lparr>ws_size = 0, ws_type = 0, ws_dev = 0, ws_qid = \<lparr>q_type = 0, q_version = 1, q_path = 42\<rparr>,
     ws_mode = 420, ws_atime = 10, ws_mtime = 20, ws_length = 5, ws_name = Some (cstr ''f''),
     ws_uid = Some (cstr ''u''), ws_gid = Some (cstr ''g''), ws_muid = None, ws_extension = None,
     ws_n_uid = 1, ws_n_gid = 2, ws_n_muid = 3\<rparr>"

theorem stat_roundtrip_witness:
  "\<exists>b. np_serialize_stat npstat0 wstat_ex (replicate 80 0) 80 True = (66, b) \<and> \<not> cb_fault b \<and>
    cb_mem b = encwstat wstat_ex True @ replicate 14 0 \<and>
    np_deserialize_stat npstat0 (cb_mem b) 80 True = (66, stat_of wstat_ex True npstat0, False)"
  using stat_roundtrip [of wstat_ex True "replicate 80 0" 80 npstat0 npstat0]
  by (simp add: wstat_ex_def wstat_ok_def encwstat_length encwstat_body_def cstr_def)

text \<open>
  \<^verbatim>\<open>np_serialize_dirent\<close> writes the 9P2000.L directory entry
  \<open>qid[13] offset[8] type[1] name[s]\<close> at the start of the buffer and returns its length when it
  fits in \<open>buflen\<close> bytes, and otherwise returns 0 and leaves the buffer unchanged.
\<close>

lemma serialize_dirent_written:
  assumes "buflen = int (length buf)"
  shows "np_serialize_dirent qid offset type name buf buflen =
    (let e = encdirent qid offset type name
     in if length e \<le> length buf then (int (length e), cbf e (drop (length e) buf) [] 0)
        else (0, buf_init buf 0 buflen))"
proof -
  have len: "length (encdirent qid offset type name) = 24 + length name"
    by (simp add: encdirent_def)
  have "buf_init buf 0 buflen = cbf [] buf [] 0"
    using cbf_buf_init [of 0 "[]" buflen buf "[]"] assms by simp
  then show ?thesis
    using assms len buf_put_dirent_fits [of qid offset type name buf "[]" "[]" 0]
    by (simp add: np_serialize_dirent_def Let_def)
qed

subsection \<open>Trimming a read reply\<close>

lemma set_rread_count_wire:
  assumes "n + 11 < 2 ^ 31" "k \<le> n" "length data = n" "fc_count fc = of_nat n"
    and pkt: "fc_pkt fc = wire ty tag (enc32 (of_nat n) @ data)"
  shows "np_set_rread_count fc (of_nat k) = Some (fc\<lparr>fc_size := of_nat (11 + k),
    fc_count := of_nat k, fc_pkt := wire ty tag (enc32 (of_nat k) @ take k data) @ drop k data\<rparr>)"
proof -
  let ?sz = "of_nat (11 + k) :: u32"
  have le: "(of_nat k :: u32) \<le> of_nat n"
    using assms(1,2) by (simp add: word_le_nat_alt unat_of_nat_u32)
  have sz: "4 + 1 + 2 + 4 + (of_nat k :: u32) = ?sz" "?sz - 7 = of_nat (4 + k)" by simp_all
  have si: "sint ?sz = int (11 + k)" "sint (of_nat (4 + k) :: u32) = int (4 + k)"
    using assms(1,2) by (simp_all only: sint_of_nat_u32)
  let ?h = "enc8 ty @ enc16 tag" let ?d = "take k data" let ?post = "drop k data"
  let ?o = "enc32 (of_nat (7 + (4 + n)))"
  have "buf_init (fc_pkt fc) 0 (sint ?sz) = cbf [] (?o @ ?h @ enc32 (of_nat n) @ ?d) ?post 0"
    unfolding pkt wire_def si(1)
    using cbf_buf_init [of 0 "[]" "int (11 + k)" "?o @ ?h @ enc32 (of_nat n) @ ?d" ?post] assms(2,3)
    by simp
  then have p1: "buf_put_int32 (buf_init (fc_pkt fc) 0 (sint ?sz)) ?sz v =
      (cbf (enc32 ?sz) (?h @ enc32 (of_nat n) @ ?d) ?post 0, ?sz)" for v
    by (simp only:) (simp add: i32.put_fits)
  let ?b = "cbf (enc32 ?sz) (?h @ enc32 (of_nat n) @ ?d) ?post 0"
  have "buf_init (cb_mem ?b) 7 (sint (?sz - 7)) = cbf (enc32 ?sz @ ?h) (enc32 (of_nat n) @ ?d) ?post 7"
    unfolding sz(2) si(2)
    using cbf_buf_init [of 7 "enc32 ?sz @ ?h" "int (4 + k)" "enc32 (of_nat n) @ ?d" ?post] assms(2,3)
    by simp
  then have p2: "buf_put_int32 (buf_init (cb_mem ?b) 7 (sint (?sz - 7))) (of_nat k) v =
      (cbf (enc32 ?sz @ ?h @ enc32 (of_nat k)) ?d ?post 7, of_nat k)" for v
    by (simp only:) (simp add: i32.put_fits)
  show ?thesis
    unfolding np_set_rread_count_def sz(1) Let_def p1 prod.case p2
    using le assms(2-4) by (simp add: wire_def)
qed

text \<open>
  The reply to a read is allocated for the requested count and trimmed to what was read:
  \<^verbatim>\<open>np_alloc_rread\<close> provides \<open>n\<close> data bytes, and \<^verbatim>\<open>np_set_rread_count\<close> with \<open>k \<le> n\<close> rewrites the
  size and count fields so that the first \<open>fc->size\<close> bytes of the packet are exactly the Rread
  message that carries the first \<open>k\<close> data bytes.
\<close>

lemma rread_trimmed:
  assumes "n + 11 < 2 ^ 31" "k \<le> n"
  shows "\<exists>fc1 data fc2. np_alloc_rread (Some fc) (of_nat n) = Inr fc1 \<and> fc_data fc1 = Some data \<and>
    length data = n \<and> np_set_rread_count fc1 (of_nat k) = Some fc2 \<and>
    unat (fc_size fc2) = 11 + k \<and> fc_count fc2 = of_nat k \<and>
    take (unat (fc_size fc2)) (fc_pkt fc2) = wire Rread NOTAG (enc32 (of_nat k) @ take k data)"
proof -
  obtain fc1 data where a: "np_alloc_rread (Some fc) (of_nat n) = Inr fc1" "length data = n"
    "fc_pkt fc1 = wire Rread NOTAG (enc32 (of_nat n) @ data)" "fc_data fc1 = Some data"
    "fc_count fc1 = of_nat n"
    using np_alloc_rread_built [OF assms(1), of fc] by blast
  have "unat (of_nat (11 + k) :: u32) = 11 + k"
    using assms by (intro unat_of_nat_u32) simp
  then show ?thesis
    using a set_rread_count_wire [OF assms a(2,5,3)] assms(2) by simp
qed

subsection \<open>Comparing counted strings\<close>

lemma uint_eq_iff: "uint a = uint b \<longleftrightarrow> a = b" "uint a = 0 \<longleftrightarrow> a = 0" for a b :: u8
  by (metis word_of_int_uint) (metis unsigned_0 word_of_int_uint)

lemma strncmp_refl_prefix: "0 \<notin> set bs \<Longrightarrow> strncmp bs cs (length bs) = 0 \<longleftrightarrow> take (length bs) cs = bs"
proof (induction bs arbitrary: cs)
  case Nil
  then show ?case by simp
next
  case (Cons b bs)
  then show ?case
    by (cases cs) (auto simp: byte_at_def uint_eq_iff)
qed

text \<open>
  On names without NUL bytes \<^verbatim>\<open>np_strcmp\<close> decides equality: it returns 0 exactly when the
  counted string and the C string are the same bytes, and never reads past the end of either.
\<close>

lemma np_strcmp_eq:
  assumes "0 \<notin> set bs" "length bs < 2 ^ 16"
  shows "\<exists>r. np_strcmp (npstr bs) cs = Some r \<and> (r = 0 \<longleftrightarrow> bs = cs)"
proof -
  have len: "unat (of_nat (length bs) :: u16) = length bs"
    using assms(2) by (simp add: unat_of_nat)
  have "length bs \<le> length cs" if "strncmp bs cs (length bs) = 0"
    using that strncmp_refl_prefix [OF assms(1)] by (metis length_take min.cobounded1)
  then show ?thesis
    using strncmp_refl_prefix [OF assms(1), of cs]
    by (auto simp: np_strcmp_def npstr_def len Let_def)
qed

subsection \<open>Where the packets depart from the protocol\<close>

text \<open>
  A Tauth built in the .u variant loses the numeric user: \<^verbatim>\<open>np_create_tauth\<close> does not count
  \<open>n_uname\<close> in the size, the write that does not fit leaves no trace because it starts exactly at
  the end of the packet, and the packet is the one of the plain variant; the server parses it and
  finds user 0 whatever \<open>n_uname\<close> was.
\<close>

lemma tauth_dotu_loses_uid:
  assumes "str_ok uname" "str_ok aname"
  shows "\<exists>fc' fc2. np_create_tauth (Some fc) afid (Some uname) (Some aname) n_uname True = Inr fc' \<and>
    fc_pkt fc' = wire Tauth NOTAG (enc32 afid @ encstr uname @ encstr aname) \<and>
    np_deserialize fc0 (fc_pkt fc') True = (int (length (fc_pkt fc')), fc2, False) \<and>
    fc_afid fc2 = afid \<and> fc_n_uname fc2 = 0"
proof -
  let ?body = "enc32 afid @ encstr uname @ encstr aname"
  have small: "7 + length ?body < 2 ^ 31" using assms by simp
  have "built (np_create_tauth (Some fc) afid (Some uname) (Some aname) n_uname True) Tauth ?body"
    unfolding np_create_tauth_def
    by (rule builtI) (use small in \<open>simp_all add: wire_simps codec_put_bad same_head_def\<close>)
  moreover have "\<exists>b fc2. deserialize_switch Tauth True (cbf pre (?body @ []) [] 4, h) = (True, b, fc2) \<and>
      \<not> buf_check_overflow b \<and> \<not> cb_fault b \<and> same_head h fc2 \<and> fc_afid fc2 = afid \<and> fc_n_uname fc2 = 0"
    for pre h
    using assms
    by (simp add: deserialize_switch_def deserialize_9p2000_def fields_def wire_simps
        codec_get_bad same_head_def del: append_Nil2)
  then have "\<exists>fc2. np_deserialize fc0 (wire Tauth NOTAG ?body @ []) True =
      (int (7 + length ?body), fc2, False) \<and> fc_type fc2 = Tauth \<and> fc_tag fc2 = NOTAG \<and>
      fc_afid fc2 = afid \<and> fc_n_uname fc2 = 0"
    using np_deserialize_wire [OF small, of Tauth True "[]" "\<lambda>fc. fc_afid fc = afid \<and> fc_n_uname fc = 0"]
    by simp
  ultimately show ?thesis
    unfolding built_def by fastforce
qed

text \<open>
  \<^verbatim>\<open>np_create_tsetattr\<close> never builds a message: the size it computes (48) is smaller than the
  60 bytes it writes, so \<^verbatim>\<open>np_post_check\<close> returns NULL for every argument.
\<close>

lemma tsetattr_never_built: "np_create_tsetattr (Some fc) fid valid attrs = Inl CNull"
proof -
  obtain pre xs where c: "np_create_common (Some fc) (of_nat 48) Tsetattr =
      Inr (cbf pre xs [] 0, head_fields fc (of_nat (7 + 48)) Tsetattr NOTAG)" "length xs = 48"
    using np_create_common_wire [of 48 fc Tsetattr] by auto
  have sz: "(4 + 4 + 4 + 4 + 8 + 8 + 8 + 8 :: u32) = of_nat 48" by simp
  have "drop 44 xs \<noteq> []" using c(2) by simp
  then show ?thesis
    unfolding np_create_tsetattr_def np_create_def sz c(1)
    by (simp add: wire_simps codec_put_bad put_at_def np_post_check_def c(2))
qed

text \<open>
  A packet may claim a count of \<open>2\<^sup>3\<^sup>1\<close> or more without carrying the data: for a Twrite whose
  count field is that large and whose packet ends right after it, \<^verbatim>\<open>np_deserialize\<close> returns the
  packet length as for a valid message, with \<open>fc->count\<close> the claimed value and \<open>fc->data\<close> a
  pointer to the end of the packet, because \<^verbatim>\<open>buf_alloc\<close> takes the length as a signed integer.
\<close>

lemma twrite_huge_count_accepted:
  assumes "2 ^ 31 \<le> unat c"
  shows "\<exists>fc'. np_deserialize fc (wire Twrite tag (enc32 fid @ enc64 off @ enc32 c)) dotu =
      (23, fc', False) \<and> fc_count fc' = c \<and> fc_data fc' = Some []"
proof -
  let ?body = "enc32 fid @ enc64 off @ enc32 c"
  have neg: "sint c < 0"
    using sint_large [OF assms] uint_bounded [of c] by simp
  let ?b = "\<lambda>pre. (cbf (pre @ ?body) [] [] 4)\<lparr>cb_p := int (length (pre @ ?body)) + sint c\<rparr>"
  have "alloc_data c None (cbf (pre @ ?body) [] [] 4, h) = (?b pre, h\<lparr>fc_data := Some []\<rparr>)" for pre h
    using neg by (simp add: alloc_data_def buf_alloc_def buf_check_size_def cb_reach_def cbf_def)
  then have "deserialize_switch Twrite dotu (cbf pre (?body @ []) [] 4, h) =
      (True, ?b pre, h\<lparr>fc_fid := fid, fc_offset := off, fc_count := c, fc_data := Some []\<rparr>)" for pre h
    by (simp add: deserialize_switch_def deserialize_9p2000_def fields_def wire_simps del: append_Nil2)
  moreover have "\<not> buf_check_overflow (?b pre)" "\<not> cb_fault (?b pre)" for pre
    using neg by (simp_all add: buf_check_overflow_def cbf_def)
  ultimately have "\<exists>fc'. np_deserialize fc (wire Twrite tag ?body @ []) dotu =
      (int (7 + length ?body), fc', False) \<and> fc_type fc' = Twrite \<and> fc_tag fc' = tag \<and>
      fc_count fc' = c \<and> fc_data fc' = Some []"
    by (intro np_deserialize_wire) (simp_all add: same_head_def)
  then show ?thesis by auto
qed

text \<open>
  A Tcreate built in the .u variant carries no extension; the parser reads the missing field as
  the empty string.
\<close>

lemma tcreate_dotu_no_extension:
  assumes "str_ok name"
  shows "\<exists>fc' fc2. np_create_tcreate (Some fc) fid name perm mode = Inr fc' \<and>
    np_deserialize fc0 (fc_pkt fc') True = (int (length (fc_pkt fc')), fc2, False) \<and>
    fc_name fc2 = npstr name \<and> fc_extension fc2 = npstr []"
proof -
  let ?body = "enc32 fid @ encstr name @ enc32 perm @ enc8 mode"
  have small: "7 + length ?body < 2 ^ 31" using assms by simp
  have "built (np_create_tcreate (Some fc) fid name perm mode) Tcreate ?body"
    unfolding np_create_tcreate_def
    by (rule builtI) (use small in \<open>simp_all add: wire_simps same_head_def\<close>)
  moreover have "\<exists>fc2. np_deserialize fc0 (wire Tcreate NOTAG ?body @ []) True =
      (int (7 + length ?body), fc2, False) \<and> fc_type fc2 = Tcreate \<and> fc_tag fc2 = NOTAG \<and>
      fc_name fc2 = npstr name \<and> fc_extension fc2 = npstr []"
  proof (rule np_deserialize_wire [OF small])
    fix pre h
    have "\<exists>b fc2. deserialize_switch Tcreate True (cbf pre (?body @ []) [] 4, h) = (True, b, fc2) \<and>
        \<not> buf_check_overflow b \<and> \<not> cb_fault b \<and> same_head h fc2 \<and>
        fc_name fc2 = npstr name \<and> fc_extension fc2 = npstr []"
      using assms
      by (simp add: deserialize_switch_def deserialize_9p2000_def fields_def wire_simps
          codec_get_bad same_head_def del: append_Nil2)
    then show "\<exists>b fc2. deserialize_switch Tcreate True (cbf pre ?body [] 4, h) = (True, b, fc2) \<and>
        \<not> buf_check_overflow b \<and> \<not> cb_fault b \<and> same_head h fc2 \<and>
        fc_name fc2 = npstr name \<and> fc_extension fc2 = npstr []"
      by simp
  qed
  ultimately show ?thesis
    unfolding built_def by fastforce
qed

text \<open>
  The Rstatfs constructor allocates four bytes more than the record: the packet ends with four
  bytes of whatever the block held before.
\<close>

lemma rstatfs_four_stray_bytes:
  "\<exists>fc' stray. np_create_rstatfs (Some fc) stfs = Inr fc' \<and> length stray = 4 \<and>
    fc_pkt fc' = wire Rstatfs NOTAG (encstatfs stfs @ stray)"
proof -
  obtain pre xs where c: "np_create_common (Some fc) (of_nat 64) Rstatfs =
      Inr (cbf pre xs [] 0, head_fields fc (of_nat (7 + 64)) Rstatfs NOTAG)" "length xs = 64"
      "pre = enc32 (of_nat (7 + 64)) @ enc8 Rstatfs @ enc16 NOTAG"
    using np_create_common_wire [of 64 fc Rstatfs] by auto
  have n: "length (encstatfs stfs) = 60" by (simp add: encstatfs_def)
  have sz: "word_of_int (size_statfs stfs) = (of_nat 64 :: u32)" by (simp add: size_statfs_def)
  let ?fc' = "(head_fields fc (of_nat (7 + 64)) Rstatfs NOTAG)
      \<lparr>fc_stfs := stfs, fc_pkt := pre @ encstatfs stfs @ drop 60 xs\<rparr>"
  have "np_create_rstatfs (Some fc) stfs = Inr ?fc'"
    unfolding np_create_rstatfs_def np_create_def sz c(1)
    by (simp add: wire_simps buf_put_statfs_fits np_post_check_def n c(2))
  moreover have "length (drop 60 xs) = 4" "fc_pkt ?fc' = wire Rstatfs NOTAG (encstatfs stfs @ drop 60 xs)"
    by (simp_all add: wire_def n c(2,3))
  ultimately show ?thesis by blast
qed

lemma get_int_advance:
  "1 \<le> length xs \<Longrightarrow> snd (buf_get_int8 (cbf pre xs post sp)) = cbf (pre @ take 1 xs) (drop 1 xs) post sp"
  "4 \<le> length xs \<Longrightarrow> snd (buf_get_int32 (cbf pre xs post sp)) = cbf (pre @ take 4 xs) (drop 4 xs) post sp"
  "8 \<le> length xs \<Longrightarrow> snd (buf_get_int64 (cbf pre xs post sp)) = cbf (pre @ take 8 xs) (drop 8 xs) post sp"
  by (simp_all add: get_int_defs check_size_simps cbf_load cbf_advance_num [where k = 1]
      cbf_advance_num [where k = 4] cbf_advance_num [where k = 8])

lemma fst_getf: "fst (getf get upd s) = snd (get (fst s))"
  by (simp add: getf_def split_beta)

definition getlock_gets :: "Npfcall step list" where
  "getlock_gets = [get32 fc_fid_update, get8 fc_locktype_update, get64 fc_offset_update,
     get64 fc_locklength_update, get32 fc_procid_update, getstr fc_clientid_update]"

lemma getlock_short:
  assumes "length xs = 23 \<or> length xs = 24"
  shows "buf_check_overflow (fst (steps getlock_gets (cbf pre xs post sp, h)))"
  using assms
  by (elim disjE) (simp_all add: getlock_gets_def fst_getf get_int_advance codec_get_bad)

text \<open>
  The library cannot read its own Rgetlock: the constructor follows the protocol
  (\<open>type[1] start[8] length[8] proc_id[4] client_id[s]\<close>) while the parser expects a \<open>fid[4]\<close> in
  front. With a client id of at most one byte the parser rejects the packet.
\<close>

lemma rgetlock_rejected:
  assumes "length clientid \<le> 1"
  shows "\<exists>fc'. np_create_rgetlock (Some fc) type off len procid clientid = Inr fc' \<and>
    fst (np_deserialize fc0 (fc_pkt fc') dotu) = 0"
proof -
  let ?body = "enc8 type @ enc64 off @ enc64 len @ enc32 procid @ encstr clientid"
  have small: "7 + length ?body < 2 ^ 31" using assms by simp
  have "built (np_create_rgetlock (Some fc) type off len procid clientid) Rgetlock ?body"
    unfolding np_create_rgetlock_def
    by (rule builtI) (use small in \<open>simp_all add: wire_simps same_head_def\<close>)
  moreover have "deserialize_switch Rgetlock dotu s = (True, steps getlock_gets s)" for s
    by (simp add: getlock_gets_def deserialize_switch_def deserialize_9p2000_def deserialize_9p2000L_1_def
        deserialize_9p2000L_2_def fields_def)
  moreover have "buf_check_overflow (fst (steps getlock_gets (cbf pre ?body [] 4, h)))" for pre h
    by (rule getlock_short) (use assms in \<open>cases clientid; simp\<close>)
  ultimately have "fst (np_deserialize fc0 (wire Rgetlock NOTAG ?body @ []) dotu) = 0"
    unfolding np_deserialize_def deserialize_header_wire [OF small] Let_def
    by (simp add: head_fields_def del: steps.simps)
  then show ?thesis
    using \<open>built _ _ _\<close> unfolding built_def by fastforce
qed

text \<open>Tlerror is not a message of the protocol; the parser refuses what \<^verbatim>\<open>np_create_lerror\<close> builds.\<close>

lemma lerror_rejected:
  "\<exists>fc'. np_create_lerror (Some fc) ecode = Inr fc' \<and> fst (np_deserialize fc0 (fc_pkt fc') dotu) = 0"
proof -
  have b: "built (np_create_lerror (Some fc) ecode) Tlerror (enc32 ecode)"
    unfolding np_create_lerror_def by (rule builtI; simp add: wire_simps same_head_def)
  have "deserialize_switch Tlerror dotu s = (False, s)" for s
    by (simp add: deserialize_switch_def deserialize_9p2000_def deserialize_9p2000L_1_def deserialize_9p2000L_2_def)
  moreover have small: "7 + length (enc32 ecode) < 2 ^ 31" by simp
  ultimately have "fst (np_deserialize fc0 (wire Tlerror NOTAG (enc32 ecode) @ []) dotu) = 0"
    unfolding np_deserialize_def deserialize_header_wire [OF small] Let_def by (simp add: head_fields_def)
  then show ?thesis using b unfolding built_def by fastforce
qed

text \<open>
  \<^verbatim>\<open>np_serialize_stat\<close> compares the buffer with the size of the record without its own size
  field. For a plain record with an empty \<open>muid\<close> and a buffer exactly that long, it reports
  success and returns a record that lacks its last two bytes.
\<close>

lemma serialize_stat_truncated:
  assumes "cs_of (ws_muid w) = []" "length buf = length (encwstat_body w False)"
  shows "\<exists>b. np_serialize_stat junk w buf (int (length buf)) False = (int (length buf), b) \<and>
    \<not> cb_fault b \<and> cb_mem b = take (length buf) (encwstat w False)"
proof -
  have i: "buf_init buf 0 (int (length buf)) = cbf [] buf [] 0"
    using cbf_buf_init [of 0 "[]" "int (length buf)" buf "[]"] by simp
  show ?thesis
    using assms
    unfolding np_serialize_stat_def i Let_def size_wstat_body
    by (simp add: buf_put_wstat_def encwstat_def encwstat_body_def wire_simps codec_put_bad encstr_def)
qed

end
