(* ===== verification/Links.thy ===== *)
theory Links
  imports Np_Prelude
begin

text \<open>
  Doubly linked lists in a heap, as the fid pool's buckets and the server's request lists use
  them. A heap maps addresses to structures; a step through an address that is not allocated is
  \<open>None\<close>. The list operations are stated over the two link fields of a structure, and their
  correctness is proved once in the locale \<open>links\<close>.
\<close>

type_synonym 'r heap = "addr \<rightharpoonup> 'r"

text \<open>\<^verbatim>\<open>p->field = value\<close>\<close>

definition heap_upd :: "'r heap \<Rightarrow> addr \<Rightarrow> ('r \<Rightarrow> 'r) \<Rightarrow> 'r heap option" where
  "heap_upd h a f = (case h a of None \<Rightarrow> None | Some r \<Rightarrow> Some (h(a \<mapsto> f r)))"

text \<open>\<^verbatim>\<open>if (p) p->field = value\<close>\<close>

definition heap_upd_opt :: "'r heap \<Rightarrow> ptr \<Rightarrow> ('r \<Rightarrow> 'r) \<Rightarrow> 'r heap option" where
  "heap_upd_opt h p f = (case p of None \<Rightarrow> Some h | Some a \<Rightarrow> heap_upd h a f)"

lemma heap_upd_simps [simp]:
  "h a = Some r \<Longrightarrow> heap_upd h a f = Some (h(a \<mapsto> f r))"
  "h a = None \<Longrightarrow> heap_upd h a f = None"
  "heap_upd_opt h None f = Some h"
  "heap_upd_opt h (Some a) f = heap_upd h a f"
  by (simp_all add: heap_upd_def heap_upd_opt_def)

text \<open>
  \<open>dseg nx pv h pr p as q\<close>: starting at \<open>p\<close> and following \<open>nx\<close>, the nodes are \<open>as\<close> and the walk
  ends at \<open>q\<close>; every node's \<open>pv\<close> is its predecessor, \<open>pr\<close> for the first.
\<close>

fun dseg :: "('r \<Rightarrow> ptr) \<Rightarrow> ('r \<Rightarrow> ptr) \<Rightarrow> 'r heap \<Rightarrow> ptr \<Rightarrow> ptr \<Rightarrow> addr list \<Rightarrow> ptr \<Rightarrow> bool" where
  "dseg nx pv h pr p [] q \<longleftrightarrow> p = q"
| "dseg nx pv h pr p (a # as) q \<longleftrightarrow>
     p = Some a \<and> (\<exists>r. h a = Some r \<and> pv r = pr \<and> dseg nx pv h (Some a) (nx r) as q)"

definition lastp :: "ptr \<Rightarrow> addr list \<Rightarrow> ptr" where
  "lastp pr as = (if as = [] then pr else Some (last as))"

lemma lastp_simps [simp]:
  "lastp pr [] = pr" "lastp pr (a # as) = lastp (Some a) as" "lastp pr (as @ [a]) = Some a"
  by (simp_all add: lastp_def)

lemma lastp_append [simp]: "lastp pr (as @ bs) = lastp (lastp pr as) bs"
  by (simp add: lastp_def)

lemma dseg_append: "dseg nx pv h pr p (as @ bs) q \<longleftrightarrow>
    (\<exists>m. dseg nx pv h pr p as m \<and> dseg nx pv h (lastp pr as) m bs q)"
  by (induction as arbitrary: pr p) auto

lemma dseg_frame: "a \<notin> set as \<Longrightarrow> dseg nx pv (h(a := v)) pr p as q = dseg nx pv h pr p as q"
  by (induction as arbitrary: pr p) auto

lemma dseg_cong: "(\<And>a. a \<in> set as \<Longrightarrow> h a = h' a) \<Longrightarrow> dseg nx pv h pr p as q = dseg nx pv h' pr p as q"
  by (induction as arbitrary: pr p) auto

lemma dseg_alloc: "dseg nx pv h pr p as q \<Longrightarrow> a \<in> set as \<Longrightarrow> \<exists>r. h a = Some r"
  by (induction as arbitrary: pr p) auto

lemma dseg_unique: "dseg nx pv h pr p as None \<Longrightarrow> dseg nx pv h pr' p bs None \<Longrightarrow> as = bs"
proof (induction as arbitrary: pr pr' p bs)
  case Nil
  then show ?case by (cases bs) auto
next
  case (Cons a as)
  then show ?case by (cases bs) auto
qed

text \<open>The head pointer identifies an empty list, and a node is the first one iff it has no predecessor.\<close>

lemma dseg_head: "dseg nx pv h pr p as None \<Longrightarrow> p = (if as = [] then None else Some (hd as))"
  by (cases as) auto

lemma dseg_prev:
  assumes "dseg nx pv h None p (xs @ a # ys) q" "h a = Some r"
  shows "pv r = lastp None xs" "nx r = (if ys = [] then q else Some (hd ys))"
  using assms by (auto simp: dseg_append) (cases ys; auto)

subsection \<open>Singly linked lists\<close>

text \<open>
  \<open>chain nx h p as\<close>: following \<open>nx\<close> from \<open>p\<close> gives the nodes \<open>as\<close> and ends with a null pointer; \<open>cseg\<close> ends at
  any pointer.
\<close>

fun cseg :: "('r \<Rightarrow> ptr) \<Rightarrow> 'r heap \<Rightarrow> ptr \<Rightarrow> addr list \<Rightarrow> ptr \<Rightarrow> bool" where
  "cseg nx h p [] q \<longleftrightarrow> p = q"
| "cseg nx h p (a # as) q \<longleftrightarrow> p = Some a \<and> (\<exists>r. h a = Some r \<and> cseg nx h (nx r) as q)"

fun chain :: "('r \<Rightarrow> ptr) \<Rightarrow> 'r heap \<Rightarrow> ptr \<Rightarrow> addr list \<Rightarrow> bool" where
  "chain nx h p [] \<longleftrightarrow> p = None"
| "chain nx h p (a # as) \<longleftrightarrow> p = Some a \<and> (\<exists>r. h a = Some r \<and> chain nx h (nx r) as)"

lemma chain_cong:
  "(\<And>a. a \<in> set as \<Longrightarrow> map_option nx (h' a) = map_option nx (h a)) \<Longrightarrow> chain nx h p as \<Longrightarrow> chain nx h' p as"
proof (induction as arbitrary: p)
  case (Cons a as)
  then obtain r where r: "p = Some a" "h a = Some r" "chain nx h (nx r) as" by auto
  moreover obtain r' where "h' a = Some r'" "nx r' = nx r" using Cons.prems(1) [of a] r(2) by auto
  moreover have "chain nx h' (nx r) as" using Cons.IH [OF _ r(3)] Cons.prems(1) by simp
  ultimately show ?case by simp
qed simp

lemma chain_frame: "a \<notin> set as \<Longrightarrow> chain nx h p as \<Longrightarrow> chain nx (h(a := v)) p as"
  by (rule chain_cong [of as nx _ h]) auto

lemma chain_alloc: "chain nx h p as \<Longrightarrow> a \<in> set as \<Longrightarrow> \<exists>r. h a = Some r"
  by (induction as arbitrary: p) auto

lemma chain_tl: "chain nx h p (a # as) \<Longrightarrow> h a = Some r \<Longrightarrow> chain nx h (nx r) as"
  by simp

lemma chain_unique: "chain nx h p as \<Longrightarrow> chain nx h p bs \<Longrightarrow> as = bs"
proof (induction as arbitrary: p bs)
  case (Cons a as)
  then show ?case by (cases bs) auto
next
  case Nil
  then show ?case by (cases bs) auto
qed

lemma chain_append: "chain nx h p (as @ bs) \<longleftrightarrow> (\<exists>q. cseg nx h p as q \<and> chain nx h q bs)"
  by (induction as arbitrary: p) auto

lemma cseg_append: "cseg nx h p (as @ bs) q \<longleftrightarrow> (\<exists>m. cseg nx h p as m \<and> cseg nx h m bs q)"
  by (induction as arbitrary: p) auto

lemma cseg_frame: "a \<notin> set as \<Longrightarrow> cseg nx (h(a := v)) p as q = cseg nx h p as q"
  by (induction as arbitrary: p) auto

text \<open>Appending a node, and taking one out.\<close>

lemma chain_snoc:
  assumes "chain nx h p as" "distinct (as @ [a])" "h a = Some r" "nx r = None"
  shows "as = [] \<Longrightarrow> chain nx h (Some a) [a]"
    "as \<noteq> [] \<Longrightarrow> nx s = Some a \<Longrightarrow> chain nx (h(last as \<mapsto> s)) p (as @ [a])"
proof -
  show "as = [] \<Longrightarrow> chain nx h (Some a) [a]" using assms by simp
  assume ne: "as \<noteq> []" and s: "nx s = Some a"
  then obtain bs b where as: "as = bs @ [b]" by (metis rev_exhaust)
  have b: "b \<noteq> a" "b \<notin> set bs" using assms(2) as by auto
  obtain q where "cseg nx h p bs q" "chain nx h q [b]" using assms(1) as by (auto simp: chain_append)
  then have "cseg nx (h(b \<mapsto> s)) p bs (Some b)" using b(2) by (simp add: cseg_frame)
  then show "chain nx (h(last as \<mapsto> s)) p (as @ [a])" using assms(3,4) s b as by (auto simp: chain_append cseg_append)
qed

lemma chain_del:
  assumes "chain nx h p (xs @ a # ys)" "distinct (xs @ a # ys)" "h a = Some r"
  shows "xs = [] \<Longrightarrow> chain nx h (nx r) ys"
    "xs \<noteq> [] \<Longrightarrow> nx s = nx r \<Longrightarrow> chain nx (h(last xs \<mapsto> s)) p (xs @ ys)"
proof -
  show "xs = [] \<Longrightarrow> chain nx h (nx r) ys" using assms by simp
  assume ne: "xs \<noteq> []" and s: "nx s = nx r"
  then obtain bs b where xs: "xs = bs @ [b]" by (metis rev_exhaust)
  have b: "b \<notin> set ys" "b \<notin> set bs" using assms(2) xs by auto
  have "cseg nx h p bs (Some b)" "chain nx h (nx r) ys" using assms(1,3) xs by (auto simp: chain_append cseg_append)
  then have "cseg nx (h(b \<mapsto> s)) p bs (Some b)" "chain nx (h(b \<mapsto> s)) (nx r) ys"
    using b by (auto simp: cseg_frame intro: chain_frame)
  then show "chain nx (h(last xs \<mapsto> s)) p (xs @ ys)" using s xs by (auto simp: chain_append cseg_append)
qed

subsection \<open>Unlinking and pushing\<close>

text \<open>
  The two conditional stores every removal performs, and the store into the old head every
  insertion at the front performs.
\<close>

definition unlink :: "('r \<Rightarrow> ptr) \<Rightarrow> ('r \<Rightarrow> ptr) \<Rightarrow> (ptr \<Rightarrow> 'r \<Rightarrow> 'r) \<Rightarrow> (ptr \<Rightarrow> 'r \<Rightarrow> 'r) \<Rightarrow>
    'r heap \<Rightarrow> addr \<Rightarrow> 'r heap option" where
  "unlink nx pv set_nx set_pv h a =
     do { r \<leftarrow> h a;
          h \<leftarrow> heap_upd_opt h (pv r) (set_nx (nx r));
          heap_upd_opt h (nx r) (set_pv (pv r)) }"

definition push :: "(ptr \<Rightarrow> 'r \<Rightarrow> 'r) \<Rightarrow> (ptr \<Rightarrow> 'r \<Rightarrow> 'r) \<Rightarrow> 'r heap \<Rightarrow> ptr \<Rightarrow> addr \<Rightarrow> 'r heap option" where
  "push set_nx set_pv h p a =
     do { h \<leftarrow> heap_upd h a (\<lambda>r. set_pv None (set_nx p r));
          heap_upd_opt h p (set_pv (Some a)) }"

locale links =
  fixes nx :: "'r \<Rightarrow> ptr" and pv :: "'r \<Rightarrow> ptr"
    and set_nx :: "ptr \<Rightarrow> 'r \<Rightarrow> 'r" and set_pv :: "ptr \<Rightarrow> 'r \<Rightarrow> 'r"
    and core :: "'r \<Rightarrow> 'c"
  assumes nx_set [simp]: "nx (set_nx p r) = p" "nx (set_pv p r) = nx r"
    and pv_set [simp]: "pv (set_pv p r) = p" "pv (set_nx p r) = pv r"
    and core_set [simp]: "core (set_nx p r) = core r" "core (set_pv p r) = core r"
begin

abbreviation "dl \<equiv> dseg nx pv"

lemma dl_set_last:
  assumes "dl h pr p (as @ [b]) q" "h b = Some r" "b \<notin> set as"
  shows "dl (h(b \<mapsto> set_nx n r)) pr p (as @ [b]) n"
  using assms by (auto simp: dseg_append dseg_frame)

lemma dl_set_first:
  assumes "dl h pr (Some c) (c # as) q" "h c = Some r" "c \<notin> set as"
  shows "dl (h(c \<mapsto> set_pv n r)) n (Some c) (c # as) q"
  using assms by (auto simp: dseg_frame)

text \<open>What no link operation changes: the set of nodes and everything but their links.\<close>

definition same_cores :: "'r heap \<Rightarrow> 'r heap \<Rightarrow> bool" where
  "same_cores h h' \<longleftrightarrow> (\<forall>a. map_option core (h' a) = map_option core (h a))"

lemma same_cores_refl [simp]: "same_cores h h"
  by (simp add: same_cores_def)

lemma same_cores_trans: "same_cores h h' \<Longrightarrow> same_cores h' h'' \<Longrightarrow> same_cores h h''"
  by (simp add: same_cores_def)

lemma same_cores_upd [simp]:
  "h a = Some r \<Longrightarrow> same_cores h (h(a \<mapsto> set_nx p r))"
  "h a = Some r \<Longrightarrow> same_cores h (h(a \<mapsto> set_pv p r))"
  by (simp_all add: same_cores_def)

lemma upd_prev_dl:
  assumes "dl h None p (xs @ a # ys) None" "distinct (xs @ a # ys)" "h a = Some r"
  shows "\<exists>h1. heap_upd_opt h (pv r) (set_nx (nx r)) = Some h1 \<and> same_cores h h1 \<and>
    (\<forall>b. b \<notin> set xs \<longrightarrow> h1 b = h b) \<and>
    dl h1 None (if xs = [] then nx r else p) xs (nx r) \<and> dl h1 (Some a) (nx r) ys None"
proof (cases xs rule: rev_cases)
  case Nil
  with assms show ?thesis by auto
next
  case (snoc us b)
  have "pv r = Some b" using dseg_prev(1) [OF assms(1,3)] snoc by simp
  moreover obtain s where s: "h b = Some s"
    using dseg_alloc [OF assms(1), of b] snoc by auto
  moreover have "dl (h(b \<mapsto> set_nx (nx r) s)) None p xs (nx r)"
    using assms snoc s by (auto simp: dseg_append dseg_frame)
  moreover have "dl (h(b \<mapsto> set_nx (nx r) s)) (Some a) (nx r) ys None"
    using assms snoc by (auto simp: dseg_append dseg_frame)
  ultimately show ?thesis
    using snoc by (intro exI [of _ "h(b \<mapsto> set_nx (nx r) s)"]) auto
qed

lemma unlink_dl:
  assumes "dl h None p (xs @ a # ys) None" "distinct (xs @ a # ys)" "h a = Some r"
  shows "\<exists>h'. unlink nx pv set_nx set_pv h a = Some h' \<and> same_cores h h' \<and>
    dl h' None (if xs = [] then nx r else p) (xs @ ys) None \<and> h' a = Some r \<and>
    (\<forall>b. b \<notin> set (xs @ ys) \<longrightarrow> h' b = h b)"
proof -
  obtain h1 where h1: "heap_upd_opt h (pv r) (set_nx (nx r)) = Some h1" "same_cores h h1"
    "\<forall>b. b \<notin> set xs \<longrightarrow> h1 b = h b" "dl h1 None (if xs = [] then nx r else p) xs (nx r)"
    "dl h1 (Some a) (nx r) ys None"
    using upd_prev_dl [OF assms] by blast
  show ?thesis
  proof (cases ys)
    case Nil
    then show ?thesis
      using h1 assms dseg_prev(2) [OF assms(1,3)] by (auto simp: unlink_def dseg_append)
  next
    case (Cons c zs)
    have n: "nx r = Some c" using dseg_prev(2) [OF assms(1,3)] Cons by simp
    obtain s where s: "h1 c = Some s" using h1(5) Cons by auto
    let ?h = "h1(c \<mapsto> set_pv (pv r) s)"
    have c: "c \<notin> set xs" "c \<notin> set zs" "c \<noteq> a" "a \<notin> set xs" using assms(2) Cons by auto
    have "dl ?h (pv r) (Some c) (c # zs) None"
      using dl_set_first [of h1 "Some a" c zs None s] h1(5) Cons n s c by simp
    moreover have "dl ?h None (if xs = [] then nx r else p) xs (nx r)"
      using h1(4) c by (simp add: dseg_frame)
    ultimately have "dl ?h None (if xs = [] then nx r else p) (xs @ ys) None"
      unfolding dseg_append using Cons n dseg_prev(1) [OF assms(1,3)] by auto
    moreover have "unlink nx pv set_nx set_pv h a = Some ?h"
      using assms(3) h1(1) n s by (simp add: unlink_def)
    moreover have "same_cores h ?h"
      using same_cores_trans [OF h1(2)] s by simp
    ultimately show ?thesis
      using h1(3) c assms(3) Cons by auto
  qed
qed

lemma push_dl:
  assumes "dl h None p as None" "distinct (a # as)" "h a = Some r"
  shows "\<exists>h'. push set_nx set_pv h p a = Some h' \<and> same_cores h h' \<and>
    dl h' None (Some a) (a # as) None \<and> (\<forall>b. b \<notin> set (a # as) \<longrightarrow> h' b = h b)"
proof -
  let ?h = "h(a \<mapsto> set_pv None (set_nx p r))"
  have core: "same_cores h ?h"
    using assms(3) by (simp add: same_cores_def)
  show ?thesis
  proof (cases as)
    case Nil
    then show ?thesis using assms core by (auto simp: push_def)
  next
    case (Cons c bs)
    obtain s where s: "h c = Some s" "p = Some c" using assms(1) Cons by auto
    have c: "c \<noteq> a" using assms(2) Cons by auto
    let ?h' = "?h(c \<mapsto> set_pv (Some a) s)"
    have "push set_nx set_pv h p a = Some ?h'"
      using assms(3) s c by (simp add: push_def)
    moreover have "dl ?h None (Some c) (c # bs) None"
      using assms Cons s(2) by (auto simp: dseg_frame)
    then have "dl ?h' (Some a) (Some c) (c # bs) None"
      using dl_set_first [of ?h None c bs None s "Some a"] s(1) c assms(2) Cons by simp
    then have "dl ?h' None (Some a) (a # as) None"
      using Cons s(2) c by simp
    moreover have "same_cores h ?h'"
      using same_cores_trans [OF core] s c by simp
    ultimately show ?thesis using Cons by auto
  qed
qed

end

end
