(* ===== verification/Npstate.thy ===== *)
theory Npstate
  imports Packets Links
begin

text \<open>
  The state a request handler works on: the fids and the fid pool of its connection
  (\<^verbatim>\<open>struct Npfid\<close>, \<^verbatim>\<open>struct Npfidpool\<close>), the users and groups the fids refer to, the negotiated
  parameters of \<^verbatim>\<open>struct Npconn\<close>, the thread's error (\<^verbatim>\<open>libnpfs/error.c\<close>) and the file server's
  own state, which the library never looks at (\<open>'e\<close>). An operation returns its result and the
  new state, or \<open>None\<close> where the C code is undefined: an access through NULL or to a freed
  structure, a failed assertion. The theory also holds \<^verbatim>\<open>error.c\<close> and the reference counts of
  \<^verbatim>\<open>libnpfs/user.c\<close>.

  One handler runs at a time in this model; the mutexes of the C code are not represented.
\<close>

record Npfid =
  f_fid :: u32
  f_refcount :: int
  f_omode :: u16
  f_type :: u16
  f_diroffset :: u32
  f_user :: ptr
  f_aux :: ptr
  f_next :: ptr
  f_prev :: ptr

record Npgroup =
  g_refcount :: int
  g_gname :: cstring
  g_gid :: u32
  g_next :: ptr

record Npuser =
  u_refcount :: int
  u_uname :: cstring
  u_uid :: u32
  u_dfltgroup :: ptr
  u_groups :: "ptr list"
  u_next :: ptr

text \<open>
  \<open>c_pool\<close> is the bucket array of \<^verbatim>\<open>conn->fidpool\<close> (\<open>None\<close> when the connection has no pool), \<open>c_brk\<close>
  the next address an allocation returns, \<open>c_mal\<close> what the next calls of \<^verbatim>\<open>malloc\<close> return
  (every call succeeds when the list is used up). \<open>c_upool\<close> and \<open>c_gpool\<close> are the list heads of a
  user pool that keeps its users and groups in lists (\<^verbatim>\<open>struct Upool\<close> of \<^verbatim>\<open>pvusers.c\<close>).
\<close>

record 'e conn =
  c_fids :: "Npfid heap"
  c_pool :: "ptr list option"
  c_brk :: addr
  c_users :: "Npuser heap"
  c_groups :: "Npgroup heap"
  c_upool :: ptr
  c_gpool :: ptr
  c_msize :: u32
  c_dotu :: bool
  c_dotl :: bool
  c_ename :: "cstring option"
  c_ecode :: int
  c_mal :: "Npfcall option list"
  c_env :: 'e

type_synonym ('a, 'e) act = "'e conn \<Rightarrow> ('a \<times> 'e conn) option"

subsection \<open>Error strings\<close>

definition "Eunknownfid = cstr ''unknown fid''"
definition "Ennomem = cstr ''no memory''"
definition "Enoauth = cstr ''no authentication required''"
definition "Enotimpl = cstr ''not implemented''"
definition "Einuse = cstr ''fid already exists''"
definition "Ebadusefid = cstr ''bad use of fid''"
definition "Enotdir = cstr ''not a directory''"
definition "Etoomanywnames = cstr ''too many wnames''"
definition "Eperm = cstr ''permission denied''"
definition "Etoolarge = cstr ''i/o count too large''"
definition "Ebadoffset = cstr ''bad offset in directory read''"
definition "Edirchange = cstr ''cannot convert between files and directories''"
definition "Enotfound = cstr ''file not found''"
definition "Eopen = cstr ''file alread exclusively opened''"
definition "Eexist = cstr ''file or directory already exists''"
definition "Enotempty = cstr ''directory not empty''"
definition "Eunknownuser = cstr ''unknown user''"

lemmas estr_defs = Eunknownfid_def Ennomem_def Enoauth_def Enotimpl_def Einuse_def Ebadusefid_def
  Enotdir_def Etoomanywnames_def Eperm_def Etoolarge_def Ebadoffset_def Edirchange_def
  Enotfound_def Eopen_def Eexist_def Enotempty_def Eunknownuser_def

subsection \<open>The error of the thread\<close>

text \<open>
  The per-thread \<^verbatim>\<open>Nperror\<close> is allocated on first use; its absence reads as no error, as in
  \<^verbatim>\<open>np_rerror\<close>. Error texts are shorter than the 1023 bytes \<^verbatim>\<open>vsnprintf\<close> keeps, and the ones used
  here have no conversions. The allocations of \<^verbatim>\<open>np_werror\<close> itself succeed: the branch in which the error becomes
  \<^verbatim>\<open>Ennomem\<close> is not represented.
\<close>

definition np_werror :: "cstring option \<Rightarrow> int \<Rightarrow> 'e conn \<Rightarrow> 'e conn" where
  "np_werror ename ecode s = s\<lparr>c_ename := ename, c_ecode := ecode\<rparr>"

definition np_rerror :: "'e conn \<Rightarrow> cstring option \<times> int" where
  "np_rerror s = (c_ename s, c_ecode s)"

definition np_haserror :: "'e conn \<Rightarrow> bool" where
  "np_haserror s \<longleftrightarrow> c_ename s \<noteq> None"

text \<open>\<^verbatim>\<open>np_malloc\<close>: \<open>None\<close> is NULL, with the error recorded.\<close>

definition take_mal :: "'e conn \<Rightarrow> Npfcall option \<times> 'e conn" where
  "take_mal s = (case c_mal s of [] \<Rightarrow> (Some npfcall0, s) | m # ms \<Rightarrow> (m, s\<lparr>c_mal := ms\<rparr>))"

definition np_malloc :: "'e conn \<Rightarrow> Npfcall option \<times> 'e conn" where
  "np_malloc s =
     (case take_mal s of
        (None, s) \<Rightarrow> (None, np_werror (Some Ennomem) ENOMEM s)
      | (m, s) \<Rightarrow> (m, s))"

text \<open>A call of one of the constructors of \<open>np.c\<close>, and of \<^verbatim>\<open>np_strdup\<close>, which does not look whether
  its \<^verbatim>\<open>malloc\<close> failed.\<close>

definition build :: "(Npfcall option \<Rightarrow> created) \<Rightarrow> (Npfcall option, 'e) act" where
  "build mk s =
     (let (m, s) = np_malloc s
      in case mk m of
           Inr fc \<Rightarrow> Some (Some fc, s)
         | Inl CUndef \<Rightarrow> None
         | Inl _ \<Rightarrow> Some (None, s))"

lemma build_unlimited: "c_mal s = [] \<Longrightarrow> mk (Some npfcall0) = Inr fc \<Longrightarrow> build mk s = Some (Some fc, s)"
  by (simp add: build_def np_malloc_def take_mal_def)

definition strdup_act :: "Npstr \<Rightarrow> (cstring, 'e) act" where
  "strdup_act str s =
     (case take_mal s of
        (None, s) \<Rightarrow> None
      | (Some _, s) \<Rightarrow> (case np_strdup str of None \<Rightarrow> None | Some cs \<Rightarrow> Some (cs, s)))"

subsection \<open>Users and groups\<close>

definition np_user_incref :: "ptr \<Rightarrow> 'e conn \<Rightarrow> 'e conn option" where
  "np_user_incref u s =
     (case u of
        None \<Rightarrow> Some s
      | Some a \<Rightarrow>
          do { h \<leftarrow> heap_upd (c_users s) a (\<lambda>u. u\<lparr>u_refcount := u_refcount u + 1\<rparr>);
               Some (s\<lparr>c_users := h\<rparr>) })"

definition np_group_incref :: "ptr \<Rightarrow> 'e conn \<Rightarrow> 'e conn option" where
  "np_group_incref g s =
     (case g of
        None \<Rightarrow> Some s
      | Some a \<Rightarrow>
          do { h \<leftarrow> heap_upd (c_groups s) a (\<lambda>g. g\<lparr>g_refcount := g_refcount g + 1\<rparr>);
               Some (s\<lparr>c_groups := h\<rparr>) })"

text \<open>
  The destructors \<^verbatim>\<open>upool->gdestroy\<close> and \<^verbatim>\<open>upool->udestroy\<close> belong to the user pool; those of the
  library's own pools do not touch this state.
\<close>

definition np_group_decref :: "ptr \<Rightarrow> 'e conn \<Rightarrow> 'e conn option" where
  "np_group_decref g s =
     (case g of
        None \<Rightarrow> Some s
      | Some a \<Rightarrow>
          do { r \<leftarrow> c_groups s a;
               let r = r\<lparr>g_refcount := g_refcount r - 1\<rparr>;
               if g_refcount r > 0 then Some (s\<lparr>c_groups := (c_groups s)(a \<mapsto> r)\<rparr>)
               else Some (s\<lparr>c_groups := (c_groups s)(a := None)\<rparr>) })"

fun decref_groups :: "ptr list \<Rightarrow> 'e conn \<Rightarrow> 'e conn option" where
  "decref_groups [] s = Some s"
| "decref_groups (g # gs) s = do { s \<leftarrow> np_group_decref g s; decref_groups gs s }"

definition np_user_decref :: "ptr \<Rightarrow> 'e conn \<Rightarrow> 'e conn option" where
  "np_user_decref u s =
     (case u of
        None \<Rightarrow> Some s
      | Some a \<Rightarrow>
          do { r \<leftarrow> c_users s a;
               let r = r\<lparr>u_refcount := u_refcount r - 1\<rparr>;
               if u_refcount r > 0 then Some (s\<lparr>c_users := (c_users s)(a \<mapsto> r)\<rparr>)
               else do { s \<leftarrow> decref_groups (u_groups r) s;
                         s \<leftarrow> np_group_decref (u_dfltgroup r) s;
                         Some (s\<lparr>c_users := (c_users s)(a := None)\<rparr>) } })"

end
