(* ===== verification/Fidpool.thy ===== *)
theory Fidpool
  imports Npstate
begin

text \<open>
  The fid pool of a connection, \<^verbatim>\<open>libnpfs/fidpool.c\<close>: a hash table of 64 buckets, each a doubly
  linked list of \<^verbatim>\<open>Npfid\<close> structures whose lookups move the hit to the front. The model keeps the
  heap, the bucket array and the links; the theory proves that they implement a finite map from
  fid numbers to fids.
\<close>

abbreviation (input) "FID_HTABLE_SIZE \<equiv> (64 :: nat)"

definition set_f_next :: "ptr \<Rightarrow> Npfid \<Rightarrow> Npfid" where
  "set_f_next p f = f\<lparr>f_next := p\<rparr>"

definition set_f_prev :: "ptr \<Rightarrow> Npfid \<Rightarrow> Npfid" where
  "set_f_prev p f = f\<lparr>f_prev := p\<rparr>"

definition fid_core :: "Npfid \<Rightarrow> Npfid" where
  "fid_core f = f\<lparr>f_next := None, f_prev := None\<rparr>"

interpretation fl: links f_next f_prev set_f_next set_f_prev fid_core
  by unfold_locales (simp_all add: set_f_next_def set_f_prev_def fid_core_def)

subsection \<open>Operations\<close>

definition np_fidpool_create :: "'e conn \<Rightarrow> 'e conn" where
  "np_fidpool_create s =
     (case np_malloc s of
        (None, s) \<Rightarrow> s\<lparr>c_pool := None\<rparr>
      | (Some _, s) \<Rightarrow> s\<lparr>c_pool := Some (replicate FID_HTABLE_SIZE None)\<rparr>)"

text \<open>The loop of \<^verbatim>\<open>np_fid_lookup\<close>, which does not return on a cyclic list.\<close>

partial_function (option) fid_scan :: "Npfid heap \<Rightarrow> ptr \<Rightarrow> u32 \<Rightarrow> ptr option" where
  "fid_scan h p fid =
     (case p of
        None \<Rightarrow> Some None
      | Some a \<Rightarrow>
          (case h a of
             None \<Rightarrow> None
           | Some f \<Rightarrow> if f_fid f = fid then Some (Some a) else fid_scan h (f_next f) fid))"

definition move_to_front :: "Npfid heap \<Rightarrow> ptr \<Rightarrow> addr \<Rightarrow> Npfid heap option" where
  "move_to_front h p a =
     do { f \<leftarrow> h a;
          h \<leftarrow> heap_upd_opt h (f_next f) (set_f_prev (f_prev f));
          q \<leftarrow> f_prev f;
          h \<leftarrow> heap_upd h q (set_f_next (f_next f));
          h \<leftarrow> heap_upd h a (set_f_prev None);
          h \<leftarrow> heap_upd h a (set_f_next p);
          b \<leftarrow> p;
          heap_upd h b (set_f_prev (Some a)) }"

definition np_fid_lookup :: "u32 \<Rightarrow> nat \<Rightarrow> (ptr, 'e) act" where
  "np_fid_lookup fid hash s =
     do { htable \<leftarrow> c_pool s;
          p \<leftarrow> (if hash < length htable then Some (htable ! hash) else None);
          r \<leftarrow> fid_scan (c_fids s) p fid;
          (case r of
             None \<Rightarrow> Some (None, s)
           | Some a \<Rightarrow>
               if r = p then Some (r, s)
               else do { h \<leftarrow> move_to_front (c_fids s) p a;
                         Some (r, s\<lparr>c_fids := h, c_pool := Some (htable[hash := r])\<rparr>) }) }"

definition np_fid_find :: "u32 \<Rightarrow> (ptr, 'e) act" where
  "np_fid_find fid s = np_fid_lookup fid (unat fid mod FID_HTABLE_SIZE) s"

definition np_fid_create :: "u32 \<Rightarrow> ptr \<Rightarrow> (ptr, 'e) act" where
  "np_fid_create fid aux s =
     (let hash = unat fid mod FID_HTABLE_SIZE
      in do { (r, s) \<leftarrow> np_fid_lookup fid hash s;
              (case r of
                 Some a \<Rightarrow> Some (Some a, s)
               | None \<Rightarrow>
                   (case np_malloc s of
                      (None, s) \<Rightarrow> Some (None, s)
                    | (Some _, s) \<Rightarrow>
                        do { htable \<leftarrow> c_pool s;
                             let a = c_brk s;
                             let h = (c_fids s)(a \<mapsto>
                               \<lparr>f_fid = fid, f_refcount = 0, f_omode = Onotopen, f_type = 0,
                                f_diroffset = 0, f_user = None, f_aux = aux,
                                f_next = None, f_prev = None\<rparr>);
                             h \<leftarrow> push set_f_next set_f_prev h (htable ! hash) a;
                             Some (Some a, s\<lparr>c_fids := h, c_brk := a + 1,
                               c_pool := Some (htable[hash := Some a])\<rparr>) })) })"

text \<open>
  The first half of \<^verbatim>\<open>np_fid_destroy\<close> takes the fid out of its bucket. The second half calls the
  file server (\<open>cb\<close>: \<^verbatim>\<open>srv->auth->clunk\<close> for an authentication fid, \<^verbatim>\<open>srv->fiddestroy\<close> otherwise,
  when the server has it), drops the user and frees the structure.
\<close>

definition fid_unlink :: "addr \<Rightarrow> 'e conn \<Rightarrow> 'e conn option" where
  "fid_unlink a s =
     do { f \<leftarrow> c_fids s a;
          htable \<leftarrow> c_pool s;
          let hash = unat (f_fid f) mod FID_HTABLE_SIZE;
          h \<leftarrow> unlink f_next f_prev set_f_next set_f_prev (c_fids s) a;
          Some (s\<lparr>c_fids := h,
            c_pool := Some (if f_prev f = None then htable[hash := f_next f] else htable)\<rparr>) }"

definition fid_free :: "addr \<Rightarrow> 'e conn \<Rightarrow> 'e conn option" where
  "fid_free a s =
     do { f \<leftarrow> c_fids s a;
          s \<leftarrow> np_user_decref (f_user f) s;
          Some (s\<lparr>c_fids := (c_fids s)(a := None)\<rparr>) }"

definition np_fid_destroy :: "(addr \<Rightarrow> Npfid \<Rightarrow> 'e conn \<Rightarrow> 'e conn option) \<Rightarrow> addr \<Rightarrow>
    'e conn \<Rightarrow> 'e conn option" where
  "np_fid_destroy cb a s =
     do { f \<leftarrow> c_fids s a;
          (case c_pool s of
             None \<Rightarrow> Some s
           | Some _ \<Rightarrow>
               do { s \<leftarrow> fid_unlink a s;
                    s \<leftarrow> cb a f s;
                    fid_free a s }) }"

definition np_fid_incref :: "ptr \<Rightarrow> 'e conn \<Rightarrow> 'e conn option" where
  "np_fid_incref p s =
     (case p of
        None \<Rightarrow> Some s
      | Some a \<Rightarrow>
          do { h \<leftarrow> heap_upd (c_fids s) a (\<lambda>f. f\<lparr>f_refcount := f_refcount f + 1\<rparr>);
               Some (s\<lparr>c_fids := h\<rparr>) })"

definition np_fid_decref :: "(addr \<Rightarrow> Npfid \<Rightarrow> 'e conn \<Rightarrow> 'e conn option) \<Rightarrow> ptr \<Rightarrow>
    'e conn \<Rightarrow> 'e conn option" where
  "np_fid_decref cb p s =
     (case p of
        None \<Rightarrow> Some s
      | Some a \<Rightarrow>
          do { f \<leftarrow> c_fids s a;
               let f = f\<lparr>f_refcount := f_refcount f - 1\<rparr>;
               let s = s\<lparr>c_fids := (c_fids s)(a \<mapsto> f)\<rparr>;
               if f_refcount f = 0 then np_fid_destroy cb a s else Some s })"

text \<open>
  The loops of \<^verbatim>\<open>np_fidpool_count\<close> and \<^verbatim>\<open>np_fidpool_list\<close> over one bucket; the second stops at \<open>count\<close>
  entries and takes a reference on every fid it returns.
\<close>

partial_function (option) bucket_list :: "Npfid heap \<Rightarrow> ptr \<Rightarrow> addr list option" where
  "bucket_list h p =
     (case p of
        None \<Rightarrow> Some []
      | Some a \<Rightarrow> do { f \<leftarrow> h a; as \<leftarrow> bucket_list h (f_next f); Some (a # as) })"

fun buckets_list :: "Npfid heap \<Rightarrow> ptr list \<Rightarrow> addr list option" where
  "buckets_list h [] = Some []"
| "buckets_list h (p # ps) = do { as \<leftarrow> bucket_list h p; bs \<leftarrow> buckets_list h ps; Some (as @ bs) }"

definition np_fidpool_count :: "'e conn \<Rightarrow> nat option" where
  "np_fidpool_count s =
     do { htable \<leftarrow> c_pool s; as \<leftarrow> buckets_list (c_fids s) htable; Some (length as) }"

fun incref_all :: "addr list \<Rightarrow> 'e conn \<Rightarrow> 'e conn option" where
  "incref_all [] s = Some s"
| "incref_all (a # as) s = do { s \<leftarrow> np_fid_incref (Some a) s; incref_all as s }"

definition np_fidpool_list :: "nat \<Rightarrow> (addr list, 'e) act" where
  "np_fidpool_list count s =
     do { htable \<leftarrow> c_pool s;
          as \<leftarrow> buckets_list (c_fids s) htable;
          let as = take count as;
          s \<leftarrow> incref_all as s;
          Some (as, s) }"

text \<open>
  \<^verbatim>\<open>np_fidpool_destroy\<close> reads the successor before it gives the fid to the file server, and frees
  the structures without taking them out of the list or dropping their users.
\<close>

partial_function (option) destroy_bucket ::
    "(addr \<Rightarrow> Npfid \<Rightarrow> 'e conn \<Rightarrow> 'e conn option) \<Rightarrow> ptr \<Rightarrow> 'e conn \<Rightarrow> 'e conn option" where
  "destroy_bucket cb p s =
     (case p of
        None \<Rightarrow> Some s
      | Some a \<Rightarrow>
          do { f \<leftarrow> c_fids s a;
               s \<leftarrow> cb a f s;
               destroy_bucket cb (f_next f) (s\<lparr>c_fids := (c_fids s)(a := None)\<rparr>) })"

fun destroy_buckets :: "(addr \<Rightarrow> Npfid \<Rightarrow> 'e conn \<Rightarrow> 'e conn option) \<Rightarrow> ptr list \<Rightarrow>
    'e conn \<Rightarrow> 'e conn option" where
  "destroy_buckets cb [] s = Some s"
| "destroy_buckets cb (p # ps) s = do { s \<leftarrow> destroy_bucket cb p s; destroy_buckets cb ps s }"

definition np_fidpool_destroy :: "(addr \<Rightarrow> Npfid \<Rightarrow> 'e conn \<Rightarrow> 'e conn option) \<Rightarrow>
    'e conn \<Rightarrow> 'e conn option" where
  "np_fidpool_destroy cb s =
     do { htable \<leftarrow> c_pool s;
          s \<leftarrow> destroy_buckets cb htable s;
          Some (s\<lparr>c_pool := None\<rparr>) }"

subsection \<open>The invariant\<close>

text \<open>
  \<open>keys\<close> is the fid number of every allocated structure. In a consistent pool every bucket is a
  well-formed list of distinct nodes, the allocated fids are exactly the nodes of the buckets,
  each in the bucket of its number, and no number is used twice.
\<close>

definition keys :: "Npfid heap \<Rightarrow> addr \<rightharpoonup> u32" where
  "keys h a = map_option f_fid (h a)"

definition fid_hash :: "u32 \<Rightarrow> nat" where
  "fid_hash fid = unat fid mod FID_HTABLE_SIZE"

lemma fid_hash_less [simp]: "fid_hash fid < FID_HTABLE_SIZE"
  by (simp add: fid_hash_def)

definition pool_keys :: "(addr \<rightharpoonup> u32) \<Rightarrow> (nat \<Rightarrow> addr list) \<Rightarrow> bool" where
  "pool_keys ks bs \<longleftrightarrow>
     (\<forall>i<FID_HTABLE_SIZE. \<forall>a \<in> set (bs i). \<exists>k. ks a = Some k \<and> fid_hash k = i) \<and>
     (\<forall>a k. ks a = Some k \<longrightarrow> a \<in> set (bs (fid_hash k))) \<and>
     (\<forall>a b k. ks a = Some k \<longrightarrow> ks b = Some k \<longrightarrow> a = b)"

definition pool_inv :: "Npfid heap \<Rightarrow> ptr list \<Rightarrow> (nat \<Rightarrow> addr list) \<Rightarrow> bool" where
  "pool_inv h tbl bs \<longleftrightarrow>
     length tbl = FID_HTABLE_SIZE \<and>
     (\<forall>i<FID_HTABLE_SIZE. fl.dl h None (tbl ! i) (bs i) None \<and> distinct (bs i)) \<and>
     pool_keys (keys h) bs"

definition pool_ok :: "'e conn \<Rightarrow> bool" where
  "pool_ok s \<longleftrightarrow>
     (\<exists>tbl bs. c_pool s = Some tbl \<and> pool_inv (c_fids s) tbl bs) \<and>
     (\<forall>a \<ge> c_brk s. c_fids s a = None)"

text \<open>The abstract pool: the fids without their links. \<open>holds s fid a\<close>: number \<open>fid\<close> is the fid at \<open>a\<close>.\<close>

definition fid_view :: "'e conn \<Rightarrow> addr \<rightharpoonup> Npfid" where
  "fid_view s a = map_option fid_core (c_fids s a)"

definition holds :: "'e conn \<Rightarrow> u32 \<Rightarrow> addr \<Rightarrow> bool" where
  "holds s fid a \<longleftrightarrow> keys (c_fids s) a = Some fid"

lemma keys_upd [simp]: "keys (h(a := v)) = (keys h)(a := map_option f_fid v)"
  by (auto simp: keys_def)

lemma same_cores_keys: "fl.same_cores h h' \<Longrightarrow> keys h' = keys h"
proof
  fix a assume "fl.same_cores h h'"
  then have "map_option f_fid (map_option fid_core (h' a)) = map_option f_fid (map_option fid_core (h a))"
    by (simp add: fl.same_cores_def)
  then show "keys h' a = keys h a"
    by (simp add: keys_def option.map_comp comp_def fid_core_def)
qed

lemma pool_invD:
  assumes "pool_inv h tbl bs"
  shows "length tbl = FID_HTABLE_SIZE" "i < FID_HTABLE_SIZE \<Longrightarrow> fl.dl h None (tbl ! i) (bs i) None"
    "i < FID_HTABLE_SIZE \<Longrightarrow> distinct (bs i)" "pool_keys (keys h) bs"
  using assms by (auto simp: pool_inv_def)

lemma pool_keys_disjoint:
  "pool_keys ks bs \<Longrightarrow> i < FID_HTABLE_SIZE \<Longrightarrow> j < FID_HTABLE_SIZE \<Longrightarrow> a \<in> set (bs i) \<Longrightarrow> a \<in> set (bs j) \<Longrightarrow> i = j"
  unfolding pool_keys_def by (metis option.inject)

text \<open>Replacing one bucket.\<close>

lemma pool_inv_bucket:
  assumes "pool_inv h tbl bs" "i < FID_HTABLE_SIZE" "fl.dl h' None p as None" "distinct as"
    "\<And>j a. j < FID_HTABLE_SIZE \<Longrightarrow> j \<noteq> i \<Longrightarrow> a \<in> set (bs j) \<Longrightarrow> h' a = h a"
    "pool_keys (keys h') (bs(i := as))"
  shows "pool_inv h' (tbl[i := p]) (bs(i := as))"
proof -
  have "fl.dl h' None (tbl ! j) (bs j) None" if "j < FID_HTABLE_SIZE" "j \<noteq> i" for j
    using dseg_cong [of "bs j" h' h] assms(5) [OF that] pool_invD(2) [OF assms(1) that(1)] by blast
  then show ?thesis
    using assms pool_invD [OF assms(1)] by (simp add: pool_inv_def nth_list_update)
qed

lemma pool_keys_perm:
  "pool_keys ks bs \<Longrightarrow> set as = set (bs i) \<Longrightarrow> pool_keys ks (bs(i := as))"
  unfolding pool_keys_def by auto

subsection \<open>Lookup\<close>

lemma fid_scan_dl:
  "fl.dl h pr p as None \<Longrightarrow> fid_scan h p fid = Some (List.find (\<lambda>a. keys h a = Some fid) as)"
proof (induction as arbitrary: pr p)
  case Nil
  then show ?case by (simp add: fid_scan.simps)
next
  case (Cons a as)
  then show ?case by (auto simp: fid_scan.simps [of h "Some a"] keys_def)
qed

lemma move_to_front_eq:
  assumes "h a = Some f" "f_prev f = Some q" "q \<noteq> a" "p = Some b" "b \<noteq> a"
    "f_next f \<noteq> Some a" "f_next f \<noteq> Some q"
  shows "move_to_front h p a =
    unlink f_next f_prev set_f_next set_f_prev h a \<bind> (\<lambda>h1. push set_f_next set_f_prev h1 p a)"
proof (cases "f_next f")
  case None
  then show ?thesis
    using assms
    by (auto simp: move_to_front_def unlink_def push_def heap_upd_def set_f_next_def set_f_prev_def
        split: option.splits)
next
  case (Some c)
  then show ?thesis
    using assms
    by (cases "h c"; cases "h q")
      (auto simp: move_to_front_def unlink_def push_def heap_upd_def set_f_next_def set_f_prev_def
        fun_upd_twist split: option.splits)
qed

lemma move_to_front_dl:
  assumes "fl.dl h None p (xs @ a # ys) None" "distinct (xs @ a # ys)" "xs \<noteq> []"
  shows "\<exists>h'. move_to_front h p a = Some h' \<and> fl.same_cores h h' \<and>
    fl.dl h' None (Some a) (a # xs @ ys) None \<and> (\<forall>b. b \<notin> set (xs @ a # ys) \<longrightarrow> h' b = h b)"
proof -
  obtain f where f: "h a = Some f" using dseg_alloc [OF assms(1)] by auto
  obtain us q where xs: "xs = us @ [q]" using assms(3) by (cases xs rule: rev_cases) auto
  have prev: "f_prev f = Some q" using dseg_prev(1) [OF assms(1) f] xs by simp
  obtain b where p: "p = Some b" "b \<in> set xs"
    using dseg_head [OF assms(1)] assms(3) by (auto split: if_splits simp: hd_append)
  obtain h1 where h1: "unlink f_next f_prev set_f_next set_f_prev h a = Some h1" "fl.same_cores h h1"
    "fl.dl h1 None p (xs @ ys) None" "h1 a = Some f" "\<forall>b. b \<notin> set (xs @ ys) \<longrightarrow> h1 b = h b"
    using fl.unlink_dl [OF assms(1,2) f] assms(3) by auto
  obtain h2 where h2: "push set_f_next set_f_prev h1 p a = Some h2" "fl.same_cores h1 h2"
    "fl.dl h2 None (Some a) (a # xs @ ys) None" "\<forall>b. b \<notin> set (a # xs @ ys) \<longrightarrow> h2 b = h1 b"
    using fl.push_dl [OF h1(3) _ h1(4)] assms(2) by auto
  have "f_next f = (if ys = [] then None else Some (hd ys))"
    using dseg_prev(2) [OF assms(1) f] by simp
  then have "move_to_front h p a = Some h2"
    using move_to_front_eq [of h a f q p b] f prev p xs assms(2) h1(1) h2(1) by (cases ys) auto
  then show ?thesis
    using h1 h2 fl.same_cores_trans by fastforce
qed

text \<open>\<open>same_rest\<close>: only the fids and the bucket array differ.\<close>

definition rest_of :: "'e conn \<Rightarrow> 'e conn" where
  "rest_of s = s\<lparr>c_fids := Map.empty, c_pool := None\<rparr>"

definition same_rest :: "'e conn \<Rightarrow> 'e conn \<Rightarrow> bool" where
  "same_rest s s' \<longleftrightarrow> rest_of s' = rest_of s"

lemma rest_of_upd [simp]:
  "rest_of (s\<lparr>c_fids := h\<rparr>) = rest_of s" "rest_of (s\<lparr>c_pool := p\<rparr>) = rest_of s"
  "rest_of (s\<lparr>c_brk := b\<rparr>) = (rest_of s)\<lparr>c_brk := b\<rparr>"
  "rest_of (s\<lparr>c_mal := ms\<rparr>) = (rest_of s)\<lparr>c_mal := ms\<rparr>"
  "rest_of (s\<lparr>c_ename := en\<rparr>) = (rest_of s)\<lparr>c_ename := en\<rparr>"
  "rest_of (s\<lparr>c_ecode := ec\<rparr>) = (rest_of s)\<lparr>c_ecode := ec\<rparr>"
  "rest_of (s\<lparr>c_users := us\<rparr>) = (rest_of s)\<lparr>c_users := us\<rparr>"
  by (simp_all add: rest_of_def)

lemma rest_of_sel:
  "c_brk (rest_of s) = c_brk s" "c_users (rest_of s) = c_users s" "c_groups (rest_of s) = c_groups s"
  "c_msize (rest_of s) = c_msize s" "c_dotu (rest_of s) = c_dotu s" "c_dotl (rest_of s) = c_dotl s"
  "c_ename (rest_of s) = c_ename s" "c_ecode (rest_of s) = c_ecode s" "c_mal (rest_of s) = c_mal s"
  "c_env (rest_of s) = c_env s" "c_upool (rest_of s) = c_upool s" "c_gpool (rest_of s) = c_gpool s"
  by (simp_all add: rest_of_def)

lemma same_restD:
  assumes "same_rest s s'"
  shows "c_brk s' = c_brk s" "c_users s' = c_users s" "c_groups s' = c_groups s"
    "c_msize s' = c_msize s" "c_dotu s' = c_dotu s" "c_dotl s' = c_dotl s" "c_ename s' = c_ename s"
    "c_ecode s' = c_ecode s" "c_mal s' = c_mal s" "c_env s' = c_env s" "c_upool s' = c_upool s"
    "c_gpool s' = c_gpool s"
  using assms rest_of_sel [of s] rest_of_sel [of s'] by (simp_all add: same_rest_def)

lemma same_rest_refl [simp]: "same_rest s s"
  by (simp add: same_rest_def)

lemma same_rest_upd [simp]:
  "same_rest s (s'\<lparr>c_fids := h\<rparr>) = same_rest s s'" "same_rest s (s'\<lparr>c_pool := p\<rparr>) = same_rest s s'"
  by (simp_all add: same_rest_def)

lemma same_rest_trans: "same_rest s s' \<Longrightarrow> same_rest s' s'' \<Longrightarrow> same_rest s s''"
  by (simp add: same_rest_def)

lemma find_keys:
  assumes "pool_keys (keys h) bs"
  shows "List.find (\<lambda>a. keys h a = Some fid) (bs (fid_hash fid)) = Some a \<longleftrightarrow> keys h a = Some fid"
    and "List.find (\<lambda>a. keys h a = Some fid) (bs (fid_hash fid)) = None \<longleftrightarrow> (\<forall>a. keys h a \<noteq> Some fid)"
proof -
  have in_b: "keys h a = Some fid \<Longrightarrow> a \<in> set (bs (fid_hash fid))" for a
    using assms unfolding pool_keys_def by blast
  have uniq: "keys h a = Some fid \<Longrightarrow> keys h b = Some fid \<Longrightarrow> a = b" for a b
    using assms unfolding pool_keys_def by blast
  show none: "List.find (\<lambda>a. keys h a = Some fid) (bs (fid_hash fid)) = None \<longleftrightarrow> (\<forall>a. keys h a \<noteq> Some fid)"
    using in_b by (auto simp: find_None_iff)
  show "List.find (\<lambda>a. keys h a = Some fid) (bs (fid_hash fid)) = Some a \<longleftrightarrow> keys h a = Some fid"
  proof
    assume "List.find (\<lambda>a. keys h a = Some fid) (bs (fid_hash fid)) = Some a"
    then show "keys h a = Some fid" by (auto simp: find_Some_iff)
  next
    assume a: "keys h a = Some fid"
    then obtain b where b: "List.find (\<lambda>a. keys h a = Some fid) (bs (fid_hash fid)) = Some b"
      using none by (cases "List.find (\<lambda>a. keys h a = Some fid) (bs (fid_hash fid))") auto
    then have "keys h b = Some fid" by (auto simp: find_Some_iff)
    then show "List.find (\<lambda>a. keys h a = Some fid) (bs (fid_hash fid)) = Some a"
      using uniq a b by blast
  qed
qed

lemma lookup_inv:
  assumes "pool_ok s"
  shows "\<exists>r s'. np_fid_lookup fid (fid_hash fid) s = Some (r, s') \<and> pool_ok s' \<and>
    fid_view s' = fid_view s \<and> same_rest s s' \<and> (\<forall>a. r = Some a \<longleftrightarrow> holds s fid a)"
proof -
  let ?i = "fid_hash fid" and ?h = "c_fids s"
  obtain tbl bs where t: "c_pool s = Some tbl" "pool_inv ?h tbl bs"
    using assms by (auto simp: pool_ok_def)
  note inv = pool_invD [OF t(2)]
  let ?r = "List.find (\<lambda>a. keys ?h a = Some fid) (bs ?i)"
  have dl: "fl.dl ?h None (tbl ! ?i) (bs ?i) None" "distinct (bs ?i)"
    using inv(2,3) by auto
  have scan: "fid_scan ?h (tbl ! ?i) fid = Some ?r" using fid_scan_dl [OF dl(1)] .
  have r: "?r = Some a \<longleftrightarrow> holds s fid a" for a
    using find_keys(1) [OF inv(4)] by (simp add: holds_def)
  show ?thesis
  proof (cases "?r = None \<or> ?r = tbl ! ?i")
    case True
    then have "np_fid_lookup fid ?i s = Some (?r, s)"
      by (auto simp: np_fid_lookup_def t(1) inv(1) scan split: option.splits)
    then show ?thesis using assms r by auto
  next
    case False
    then obtain a where a: "?r = Some a" "?r \<noteq> tbl ! ?i" by auto
    then have "a \<in> set (bs ?i)" by (auto simp: find_Some_iff)
    then obtain xs ys where split: "bs ?i = xs @ a # ys" by (auto simp: in_set_conv_decomp)
    have "xs \<noteq> []" using a dl(1) split by auto
    then obtain h' where h': "move_to_front ?h (tbl ! ?i) a = Some h'" "fl.same_cores ?h h'"
        "fl.dl h' None (Some a) (a # xs @ ys) None" "\<forall>b. b \<notin> set (bs ?i) \<longrightarrow> h' b = ?h b"
      using move_to_front_dl dl unfolding split by metis
    let ?s = "s\<lparr>c_fids := h', c_pool := Some (tbl[?i := Some a])\<rparr>"
    have "pool_inv h' (tbl[?i := Some a]) (bs(?i := a # xs @ ys))"
    proof (rule pool_inv_bucket [OF t(2)])
      show "pool_keys (keys h') (bs(?i := a # xs @ ys))"
        using pool_keys_perm [OF inv(4), of "a # xs @ ys" ?i] split same_cores_keys [OF h'(2)] by auto
      show "h' b = ?h b" if "j < FID_HTABLE_SIZE" "j \<noteq> ?i" "b \<in> set (bs j)" for j b
        using pool_keys_disjoint [OF inv(4) that(1)] that h'(4) fid_hash_less by blast
    qed (use h'(3) dl(2) split in auto)
    moreover have "h' b = None" if "c_brk s \<le> b" for b
      using h'(2) assms that unfolding fl.same_cores_def pool_ok_def by (metis option.map_disc_iff)
    ultimately have "pool_ok ?s" by (auto simp: pool_ok_def)
    moreover have "fid_view ?s = fid_view s"
      using h'(2) by (auto simp: fid_view_def fl.same_cores_def)
    moreover have "np_fid_lookup fid ?i s = Some (?r, ?s)"
      using a h'(1) by (simp add: np_fid_lookup_def t(1) inv(1) scan)
    ultimately show ?thesis using r by auto
  qed
qed

lemma find_spec:
  assumes "pool_ok s"
  shows "\<exists>r s'. np_fid_find fid s = Some (r, s') \<and> pool_ok s' \<and>
    fid_view s' = fid_view s \<and> same_rest s s' \<and> (\<forall>a. r = Some a \<longleftrightarrow> holds s fid a)"
  using lookup_inv [OF assms] by (simp add: np_fid_find_def fid_hash_def)

subsection \<open>Creation\<close>

definition new_fid :: "u32 \<Rightarrow> ptr \<Rightarrow> Npfid" where
  "new_fid fid aux =
     \<lparr>f_fid = fid, f_refcount = 0, f_omode = Onotopen, f_type = 0, f_diroffset = 0, f_user = None,
      f_aux = aux, f_next = None, f_prev = None\<rparr>"

lemma holds_view: "holds s fid a \<longleftrightarrow> (\<exists>f. fid_view s a = Some f \<and> f_fid f = fid)"
  by (auto simp: holds_def keys_def fid_view_def fid_core_def)

lemma np_malloc_cases:
  obtains m ms where "np_malloc s = (Some m, s\<lparr>c_mal := ms\<rparr>)"
  | ms where "np_malloc s = (None, np_werror (Some Ennomem) ENOMEM (s\<lparr>c_mal := ms\<rparr>))"
proof (cases "c_mal s")
  case Nil
  then show thesis using that(1) [of npfcall0 "[]"] by (simp add: np_malloc_def take_mal_def)
next
  case (Cons m ms)
  then show thesis
    using that(1) [of "the m" ms] that(2) [of ms]
    by (cases m) (simp_all add: np_malloc_def take_mal_def)
qed

lemma np_malloc_same_rest:
  assumes "same_rest s s'"
  shows "fst (np_malloc s') = fst (np_malloc s)" "same_rest (snd (np_malloc s)) (snd (np_malloc s'))"
  using assms same_restD(9) [OF assms]
  by (auto simp: same_rest_def np_malloc_def take_mal_def np_werror_def split: list.splits option.splits)

lemma np_malloc_keeps:
  assumes "np_malloc s = (m, s')"
  shows "c_fids s' = c_fids s" "c_pool s' = c_pool s" "c_brk s' = c_brk s"
  using assms
  by (auto simp: np_malloc_def take_mal_def np_werror_def split: list.splits option.splits)

lemma pool_ok_cong:
  "c_fids s' = c_fids s \<Longrightarrow> c_pool s' = c_pool s \<Longrightarrow> c_brk s' = c_brk s \<Longrightarrow> pool_ok s' = pool_ok s"
  by (simp add: pool_ok_def)

lemma pool_keys_insert:
  assumes "pool_keys ks bs" "ks a = None" "\<And>b. ks b \<noteq> Some k"
  shows "pool_keys (ks(a \<mapsto> k)) (bs(fid_hash k := a # bs (fid_hash k)))"
proof -
  have in_b: "b \<in> set (bs (fid_hash l))" if "ks b = Some l" for b l
    using assms(1) that unfolding pool_keys_def by blast
  have out: "a \<notin> set (bs i)" if "i < FID_HTABLE_SIZE" for i
    using assms(1,2) that unfolding pool_keys_def by (metis option.distinct(1))
  have "b \<in> set ((bs(fid_hash k := a # bs (fid_hash k))) (fid_hash l))" if "(ks(a \<mapsto> k)) b = Some l" for b l
    using that in_b [of b l] by (auto split: if_splits)
  then show ?thesis
    using assms out unfolding pool_keys_def by (auto split: if_splits)
qed

lemma pool_ok_brk: "pool_ok s \<Longrightarrow> c_brk s \<le> a \<Longrightarrow> c_fids s a = None"
  by (simp add: pool_ok_def)

lemma fid_view_dom: "fid_view s a = None \<longleftrightarrow> c_fids s a = None"
  by (simp add: fid_view_def)

lemma insert_inv:
  assumes "pool_inv h tbl bs" "h a = None" "\<And>b. keys h b \<noteq> Some fid"
  shows "\<exists>h'. push set_f_next set_f_prev (h(a \<mapsto> new_fid fid aux)) (tbl ! fid_hash fid) a = Some h' \<and>
    fl.same_cores (h(a \<mapsto> new_fid fid aux)) h' \<and>
    pool_inv h' (tbl[fid_hash fid := Some a]) (bs(fid_hash fid := a # bs (fid_hash fid)))"
proof -
  let ?i = "fid_hash fid" and ?h = "h(a \<mapsto> new_fid fid aux)"
  note inv = pool_invD [OF assms(1)]
  have out: "a \<notin> set (bs j)" if "j < FID_HTABLE_SIZE" for j
    using dseg_alloc [OF inv(2) [OF that], of a] assms(2) by auto
  have "fl.dl ?h None (tbl ! ?i) (bs ?i) None"
    using inv(2) [of ?i] out by (simp add: dseg_frame)
  then obtain h' where h': "push set_f_next set_f_prev ?h (tbl ! ?i) a = Some h'" "fl.same_cores ?h h'"
      "fl.dl h' None (Some a) (a # bs ?i) None" "\<forall>b. b \<notin> set (a # bs ?i) \<longrightarrow> h' b = ?h b"
    using fl.push_dl [of ?h "tbl ! ?i" "bs ?i" a] out inv(3) [of ?i] by auto
  have keys: "keys h' = (keys h)(a \<mapsto> fid)"
    using same_cores_keys [OF h'(2)] by (simp add: new_fid_def)
  have "pool_inv h' (tbl[?i := Some a]) (bs(?i := a # bs ?i))"
  proof (rule pool_inv_bucket [OF assms(1)])
    show "pool_keys (keys h') (bs(?i := a # bs ?i))"
      unfolding keys using pool_keys_insert [OF inv(4)] assms(2,3) by (simp add: keys_def)
    show "h' b = h b" if "j < FID_HTABLE_SIZE" "j \<noteq> ?i" "b \<in> set (bs j)" for j b
    proof -
      have "b \<notin> set (bs ?i)"
        using pool_keys_disjoint [OF inv(4) that(1) fid_hash_less that(3)] that(2) by blast
      moreover have "b \<noteq> a" using out [OF that(1)] that(3) by auto
      ultimately show ?thesis using h'(4) by simp
    qed
  qed (use h'(3) out inv(3) [of ?i] in auto)
  with h' show ?thesis by blast
qed

lemma create_spec:
  assumes "pool_ok s" "\<And>a. \<not> holds s fid a"
  shows "case np_malloc s of
      (Some _, s1) \<Rightarrow> \<exists>s'. np_fid_create fid aux s = Some (Some (c_brk s), s') \<and> pool_ok s' \<and>
        fid_view s' = (fid_view s)(c_brk s \<mapsto> new_fid fid aux) \<and>
        same_rest (s1\<lparr>c_brk := c_brk s + 1\<rparr>) s'
    | (None, s1) \<Rightarrow> \<exists>s'. np_fid_create fid aux s = Some (None, s') \<and> pool_ok s' \<and>
        fid_view s' = fid_view s \<and> same_rest s1 s'"
proof -
  obtain s1 where s1: "np_fid_lookup fid (fid_hash fid) s = Some (None, s1)" "pool_ok s1"
      "fid_view s1 = fid_view s" "same_rest s s1"
    using lookup_inv [OF assms(1), of fid] assms(2) by (metis not_Some_eq)
  obtain tbl bs where t: "c_pool s1 = Some tbl" "pool_inv (c_fids s1) tbl bs" "c_fids s1 (c_brk s1) = None"
    using s1(2) by (auto simp: pool_ok_def)
  have no_fid: "keys (c_fids s1) b \<noteq> Some fid" for b
    using assms(2) s1(3) holds_view [of s1 fid b] holds_view [of s fid b] by (auto simp: holds_def)
  obtain m s2 where m: "np_malloc s1 = (m, s2)" by fastforce
  then have m': "np_malloc s = (m, snd (np_malloc s))" "same_rest (snd (np_malloc s)) s2"
    using np_malloc_same_rest [OF s1(4)] by (simp_all add: prod_eq_iff)
  note keep = np_malloc_keeps [OF m]
  show ?thesis
  proof (cases m)
    case (Some x)
    obtain h' where h': "push set_f_next set_f_prev ((c_fids s1)(c_brk s1 \<mapsto> new_fid fid aux))
          (tbl ! fid_hash fid) (c_brk s1) = Some h'"
        "fl.same_cores ((c_fids s1)(c_brk s1 \<mapsto> new_fid fid aux)) h'"
        "pool_inv h' (tbl[fid_hash fid := Some (c_brk s1)]) (bs(fid_hash fid := c_brk s1 # bs (fid_hash fid)))"
      using insert_inv [OF t(2,3)] no_fid by blast
    let ?s' = "s2\<lparr>c_fids := h', c_brk := c_brk s1 + 1, c_pool := Some (tbl[fid_hash fid := Some (c_brk s1)])\<rparr>"
    have "np_fid_create fid aux s = Some (Some (c_brk s1), ?s')"
      using s1(1) h'(1) m t(1) keep Some
      by (simp add: np_fid_create_def fid_hash_def new_fid_def Let_def)
    moreover have v: "fid_view ?s' = (fid_view s1)(c_brk s1 \<mapsto> new_fid fid aux)"
      using h'(2) by (auto simp: fid_view_def fl.same_cores_def fid_core_def new_fid_def)
    moreover have "h' b = None" if "c_brk s1 + 1 \<le> b" for b
      using fid_view_dom [of ?s' b] v pool_ok_brk [OF s1(2), of b] fid_view_dom [of s1 b] that by simp
    then have "pool_ok ?s'"
      using h'(3) by (auto simp: pool_ok_def)
    ultimately show ?thesis
      using m' Some s1(3) same_restD(1) [OF s1(4)] by (auto simp: same_rest_def split: prod.splits)
  next
    case None
    then have "np_fid_create fid aux s = Some (None, s2)"
      using s1(1) m by (simp add: np_fid_create_def fid_hash_def)
    moreover have "pool_ok s2" "fid_view s2 = fid_view s1"
      using s1(2) pool_ok_cong keep by (blast, simp add: fid_view_def fun_eq_iff)
    ultimately show ?thesis
      using m' None s1(3) by (auto split: prod.splits)
  qed
qed

subsection \<open>Destruction\<close>

lemma pool_keys_remove:
  assumes "pool_keys ks bs" "ks a = Some k" "set as = set (bs (fid_hash k)) - {a}"
  shows "pool_keys (ks(a := None)) (bs(fid_hash k := as))"
proof -
  have in_b: "b \<in> set (bs (fid_hash l))" if "ks b = Some l" for b l
    using assms(1) that unfolding pool_keys_def by blast
  have one: "i = fid_hash k" if "i < FID_HTABLE_SIZE" "a \<in> set (bs i)" for i
    using assms(1,2) that unfolding pool_keys_def by (metis option.inject)
  have old: "\<exists>l. ks b = Some l \<and> fid_hash l = i" if "i < FID_HTABLE_SIZE" "b \<in> set (bs i)" for i b
    using assms(1) that unfolding pool_keys_def by blast
  have uniq: "b = c" if "ks b = Some l" "ks c = Some l" for b c l
    using assms(1) that unfolding pool_keys_def by blast
  show ?thesis
    unfolding pool_keys_def
  proof (intro conjI allI impI ballI)
    fix i b assume i: "i < FID_HTABLE_SIZE" and b: "b \<in> set ((bs(fid_hash k := as)) i)"
    have "b \<noteq> a" "b \<in> set (bs i)"
      using b one [OF i] assms(3) by (auto split: if_splits)
    then show "\<exists>l. (ks(a := None)) b = Some l \<and> fid_hash l = i"
      using old [OF i] by simp
  next
    fix b l assume "(ks(a := None)) b = Some l"
    then have "b \<noteq> a" "ks b = Some l" by (simp_all split: if_splits)
    then show "b \<in> set ((bs(fid_hash k := as)) (fid_hash l))"
      using in_b [of b l] by (cases "fid_hash l = fid_hash k") (simp_all add: assms(3))
  next
    fix b c l assume "(ks(a := None)) b = Some l" "(ks(a := None)) c = Some l"
    then show "b = c" using uniq by (auto split: if_splits)
  qed
qed

lemma remove_inv:
  assumes "pool_inv h tbl bs" "h a = Some f"
  shows "\<exists>h' as. unlink f_next f_prev set_f_next set_f_prev h a = Some h' \<and> fl.same_cores h h' \<and>
    h' a = Some f \<and>
    pool_inv (h'(a := None)) (if f_prev f = None then tbl[fid_hash (f_fid f) := f_next f] else tbl)
      (bs(fid_hash (f_fid f) := as))"
proof -
  let ?i = "fid_hash (f_fid f)"
  note inv = pool_invD [OF assms(1)]
  have k: "keys h a = Some (f_fid f)" using assms(2) by (simp add: keys_def)
  then have "a \<in> set (bs ?i)" using inv(4) unfolding pool_keys_def by blast
  then obtain xs ys where split: "bs ?i = xs @ a # ys" by (auto simp: in_set_conv_decomp)
  have dl: "fl.dl h None (tbl ! ?i) (xs @ a # ys) None" "distinct (xs @ a # ys)"
    using inv(2) [of ?i] inv(3) [of ?i] split by auto
  obtain h' where h': "unlink f_next f_prev set_f_next set_f_prev h a = Some h'" "fl.same_cores h h'"
      "fl.dl h' None (if xs = [] then f_next f else tbl ! ?i) (xs @ ys) None" "h' a = Some f"
      "\<forall>b. b \<notin> set (xs @ ys) \<longrightarrow> h' b = h b"
    using fl.unlink_dl [OF dl assms(2)] by blast
  have first: "f_prev f = None \<longleftrightarrow> xs = []"
    using dseg_prev(1) [OF dl(1) assms(2)] by (simp add: lastp_def)
  have "pool_inv (h'(a := None)) (tbl[?i := if xs = [] then f_next f else tbl ! ?i]) (bs(?i := xs @ ys))"
  proof (rule pool_inv_bucket [OF assms(1)])
    show "fl.dl (h'(a := None)) None (if xs = [] then f_next f else tbl ! ?i) (xs @ ys) None"
      using h'(3) dl(2) by (simp add: dseg_frame)
    show "pool_keys (keys (h'(a := None))) (bs(?i := xs @ ys))"
      using pool_keys_remove [OF inv(4) k, of "xs @ ys"] dl(2) split same_cores_keys [OF h'(2)] by auto
    show "(h'(a := None)) b = h b" if "j < FID_HTABLE_SIZE" "j \<noteq> ?i" "b \<in> set (bs j)" for j b
    proof -
      have "b \<notin> set (bs ?i)"
        using pool_keys_disjoint [OF inv(4) that(1) fid_hash_less that(3)] that(2) by blast
      then show ?thesis using h'(5) split by auto
    qed
  qed (use dl(2) in auto)
  with h' first show ?thesis by (intro exI [of _ h'] exI [of _ "xs @ ys"]) auto
qed

lemma unlink_spec:
  assumes "pool_ok s" "c_fids s a = Some f"
  shows "\<exists>s'. fid_unlink a s = Some s' \<and> c_fids s' a = Some f \<and> fid_view s' = fid_view s \<and>
    same_rest s s' \<and> c_pool s' \<noteq> None \<and> pool_ok (s'\<lparr>c_fids := (c_fids s')(a := None)\<rparr>)"
proof -
  obtain tbl bs where t: "c_pool s = Some tbl" "pool_inv (c_fids s) tbl bs"
    using assms(1) by (auto simp: pool_ok_def)
  let ?tbl = "if f_prev f = None then tbl[fid_hash (f_fid f) := f_next f] else tbl"
  obtain h' as where h': "unlink f_next f_prev set_f_next set_f_prev (c_fids s) a = Some h'"
      "fl.same_cores (c_fids s) h'" "h' a = Some f"
      "pool_inv (h'(a := None)) ?tbl (bs(fid_hash (f_fid f) := as))"
    using remove_inv [OF t(2) assms(2)] by blast
  let ?s = "s\<lparr>c_fids := h', c_pool := Some ?tbl\<rparr>"
  have v: "fid_view ?s = fid_view s"
    using h'(2) by (auto simp: fid_view_def fl.same_cores_def)
  have "h' b = None" if "c_brk s \<le> b" for b
    using fid_view_dom [of ?s b] fid_view_dom [of s b] v pool_ok_brk [OF assms(1) that] by simp
  then have "pool_ok (?s\<lparr>c_fids := (c_fids ?s)(a := None)\<rparr>)"
    using h'(4) by (auto simp: pool_ok_def)
  moreover have "fid_unlink a s = Some ?s"
    using h'(1) assms(2) t(1) by (simp add: fid_unlink_def fid_hash_def Let_def)
  ultimately show ?thesis using v h'(3) by auto
qed

text \<open>
  What the library relies on when it calls the file server: the server does not touch the pool
  or the connection's parameters. It may change the mode, type, directory offset and \<open>aux\<close> of a
  fid and take references, on fids and on users; it does not drop any, and does not change whose
  fid it is.
\<close>

definition fid_grow :: "Npfid \<Rightarrow> Npfid \<Rightarrow> bool" where
  "fid_grow f f' \<longleftrightarrow>
     f_refcount f \<le> f_refcount f' \<and> f_fid f' = f_fid f \<and> f_user f' = f_user f \<and>
     f_next f' = f_next f \<and> f_prev f' = f_prev f"

definition fids_grow :: "(addr \<rightharpoonup> Npfid) \<Rightarrow> (addr \<rightharpoonup> Npfid) \<Rightarrow> bool" where
  "fids_grow h h' \<longleftrightarrow> (\<forall>a. rel_option fid_grow (h a) (h' a))"

definition users_grow :: "Npuser heap \<Rightarrow> Npuser heap \<Rightarrow> bool" where
  "users_grow h h' \<longleftrightarrow>
     (\<forall>u r. h u = Some r \<longrightarrow> (\<exists>r'. h' u = Some r' \<and> u_refcount r \<le> u_refcount r'))"

definition cb_frame :: "'e conn \<Rightarrow> 'e conn \<Rightarrow> bool" where
  "cb_frame s s' \<longleftrightarrow>
     c_pool s' = c_pool s \<and> c_brk s' = c_brk s \<and> c_msize s' = c_msize s \<and> c_dotu s' = c_dotu s \<and>
     c_dotl s' = c_dotl s \<and> fids_grow (c_fids s) (c_fids s') \<and> users_grow (c_users s) (c_users s')"

lemma fid_grow_refl [simp]: "fid_grow f f"
  by (simp add: fid_grow_def)

lemma fid_grow_sel:
  assumes "fid_grow f f'"
  shows "f_fid f' = f_fid f" "f_user f' = f_user f" "f_next f' = f_next f" "f_prev f' = f_prev f"
    "f_refcount f \<le> f_refcount f'"
  using assms by (simp_all add: fid_grow_def)

lemma fids_grow_refl [simp]: "fids_grow h h"
  by (simp add: fids_grow_def option.rel_refl)

lemma fids_grow_upd: "fids_grow h h' \<Longrightarrow> fids_grow (h(a := None)) (h'(a := None))"
  by (simp add: fids_grow_def)

lemma fids_growD: "fids_grow h h' \<Longrightarrow> h a = Some f \<Longrightarrow> \<exists>f'. h' a = Some f' \<and> fid_grow f f'"
  unfolding fids_grow_def by (metis option_rel_Some1)

lemma fids_grow_None: "fids_grow h h' \<Longrightarrow> h' a = None \<longleftrightarrow> h a = None"
  unfolding fids_grow_def by (metis option.rel_distinct(1,2) option.exhaust)

lemma fids_grow_view:
  assumes "fids_grow h h'"
  shows "fids_grow (\<lambda>a. map_option fid_core (h a)) (\<lambda>a. map_option fid_core (h' a))"
proof -
  have "fid_grow (fid_core f) (fid_core f')" if "fid_grow f f'" for f f'
    using that by (simp add: fid_grow_def fid_core_def)
  then have "rel_option fid_grow (map_option fid_core x) (map_option fid_core y)" if "rel_option fid_grow x y" for x y
    using that by (cases x; cases y) auto
  then show ?thesis
    using assms unfolding fids_grow_def by blast
qed

text \<open>Changes of fids that leave the numbers and the links alone keep the pool consistent.\<close>

definition same_links :: "Npfid \<Rightarrow> Npfid \<Rightarrow> bool" where
  "same_links f f' \<longleftrightarrow> f_fid f' = f_fid f \<and> f_next f' = f_next f \<and> f_prev f' = f_prev f"

definition fids_linked :: "(addr \<rightharpoonup> Npfid) \<Rightarrow> (addr \<rightharpoonup> Npfid) \<Rightarrow> bool" where
  "fids_linked h h' \<longleftrightarrow> (\<forall>a. rel_option same_links (h a) (h' a))"

lemma fids_grow_linked: "fids_grow h h' \<Longrightarrow> fids_linked h h'"
  unfolding fids_grow_def fids_linked_def
  by (metis (no_types, lifting) fid_grow_sel(1,3,4) option.rel_mono_strong same_links_def)

lemma fids_linked_upd: "h a = Some f \<Longrightarrow> same_links f f' \<Longrightarrow> fids_linked h (h(a \<mapsto> f'))"
  by (simp add: fids_linked_def option.rel_refl same_links_def)

lemma fids_linkedD: "fids_linked h h' \<Longrightarrow> h a = Some f \<Longrightarrow> \<exists>f'. h' a = Some f' \<and> same_links f f'"
  unfolding fids_linked_def by (metis option_rel_Some1)

lemma fids_linked_None: "fids_linked h h' \<Longrightarrow> h' a = None \<longleftrightarrow> h a = None"
  unfolding fids_linked_def by (metis option.rel_distinct(1,2) option.exhaust)

lemma fids_linked_dl: "fids_linked h h' \<Longrightarrow> fl.dl h pr p as q \<Longrightarrow> fl.dl h' pr p as q"
proof (induction as arbitrary: pr p)
  case (Cons a as)
  then obtain f where f: "h a = Some f" "p = Some a" "f_prev f = pr" "fl.dl h (Some a) (f_next f) as q"
    by auto
  obtain f' where "h' a = Some f'" "same_links f f'" using fids_linkedD [OF Cons.prems(1) f(1)] by blast
  then show ?case using f Cons.IH [OF Cons.prems(1) f(4)] by (simp add: same_links_def)
qed simp

lemma fids_linked_keys: "fids_linked h h' \<Longrightarrow> keys h' = keys h"
proof
  fix a assume g: "fids_linked h h'"
  show "keys h' a = keys h a"
    using fids_linkedD [OF g, of a] fids_linked_None [OF g, of a]
    by (cases "h a") (auto simp: keys_def same_links_def)
qed

lemmas fids_grow_keys = fids_linked_keys [OF fids_grow_linked]

lemma pool_ok_linked:
  assumes "pool_ok s" "fids_linked (c_fids s) (c_fids s')" "c_pool s' = c_pool s" "c_brk s' = c_brk s"
  shows "pool_ok s'"
proof -
  obtain tbl bs where t: "c_pool s = Some tbl" "pool_inv (c_fids s) tbl bs"
    using assms(1) by (auto simp: pool_ok_def)
  have "pool_inv (c_fids s') tbl bs"
    using t(2) fids_linked_dl [OF assms(2)] by (simp add: pool_inv_def fids_linked_keys [OF assms(2)])
  moreover have "c_fids s' a = None" if "c_brk s \<le> a" for a
    using pool_ok_brk [OF assms(1) that] fids_linked_None [OF assms(2)] by simp
  ultimately show ?thesis
    using assms(3,4) t(1) by (auto simp: pool_ok_def)
qed

lemmas pool_ok_grow = pool_ok_linked [OF _ fids_grow_linked]

definition user_alive :: "'e conn \<Rightarrow> ptr \<Rightarrow> bool" where
  "user_alive s u \<longleftrightarrow> (\<forall>a. u = Some a \<longrightarrow> (\<exists>r. c_users s a = Some r \<and> 1 < u_refcount r))"

definition drop_user :: "ptr \<Rightarrow> Npuser heap \<Rightarrow> Npuser heap" where
  "drop_user u h =
     (case u of
        None \<Rightarrow> h
      | Some a \<Rightarrow> h(a := map_option (\<lambda>r. r\<lparr>u_refcount := u_refcount r - 1\<rparr>) (h a)))"

lemma user_decref_alive:
  "user_alive s u \<Longrightarrow> np_user_decref u s = Some (s\<lparr>c_users := drop_user u (c_users s)\<rparr>)"
  by (cases u) (auto simp: np_user_decref_def drop_user_def user_alive_def)

text \<open>The three phases of a destruction: out of the list, the server's turn, freed.\<close>

lemma destroy_phases:
  assumes "pool_ok s" "c_fids s a = Some f" "user_alive s (f_user f)"
    and cb: "\<And>s1. c_fids s1 a = Some f \<Longrightarrow> same_rest s s1 \<Longrightarrow> \<exists>s2. cb a f s1 = Some s2 \<and> cb_frame s1 s2"
  obtains s1 s2 where "fid_view s1 = fid_view s" "same_rest s s1" "c_fids s1 a = Some f"
    "cb a f s1 = Some s2" "cb_frame s1 s2"
    "np_fid_destroy cb a s = Some (s2\<lparr>c_users := drop_user (f_user f) (c_users s2), c_fids := (c_fids s2)(a := None)\<rparr>)"
    "pool_ok (s2\<lparr>c_users := drop_user (f_user f) (c_users s2), c_fids := (c_fids s2)(a := None)\<rparr>)"
proof -
  obtain s1 where s1: "fid_unlink a s = Some s1" "c_fids s1 a = Some f" "fid_view s1 = fid_view s"
      "same_rest s s1" "pool_ok (s1\<lparr>c_fids := (c_fids s1)(a := None)\<rparr>)"
    using unlink_spec [OF assms(1,2)] by blast
  obtain s2 where s2: "cb a f s1 = Some s2" "cb_frame s1 s2" using cb [OF s1(2,4)] by blast
  then obtain f2 where f2: "c_fids s2 a = Some f2" "fid_grow f f2"
    using fids_growD s1(2) unfolding cb_frame_def by blast
  have "user_alive s1 (f_user f)"
    using assms(3) same_restD(2) [OF s1(4)] by (simp add: user_alive_def)
  then have alive: "user_alive s2 (f_user f)"
    using s2(2) unfolding cb_frame_def users_grow_def user_alive_def by (metis less_le_trans)
  have f2u: "f_user f2 = f_user f" using f2(2) by (rule fid_grow_sel)
  let ?s = "s2\<lparr>c_users := drop_user (f_user f) (c_users s2), c_fids := (c_fids s2)(a := None)\<rparr>"
  have "fids_grow ((c_fids s1)(a := None)) ((c_fids s2)(a := None))"
    using s2(2) fids_grow_upd unfolding cb_frame_def by blast
  then have "pool_ok ?s"
    using pool_ok_grow [OF s1(5), of ?s] s2(2) by (simp add: cb_frame_def)
  moreover have "np_fid_destroy cb a s = Some ?s"
    using assms(1,2) s1(1) s2(1) f2(1) user_decref_alive [OF alive]
    by (auto simp: np_fid_destroy_def fid_free_def pool_ok_def f2u)
  ultimately show thesis using that s1 s2 by blast
qed

lemma destroy_spec:
  assumes "pool_ok s" "c_fids s a = Some f" "user_alive s (f_user f)"
    and "\<And>s1. c_fids s1 a = Some f \<Longrightarrow> \<exists>s2. cb a f s1 = Some s2 \<and> cb_frame s1 s2"
  shows "\<exists>s'. np_fid_destroy cb a s = Some s' \<and> pool_ok s' \<and>
    fids_grow ((fid_view s)(a := None)) (fid_view s')"
proof -
  obtain s1 s2 where "fid_view s1 = fid_view s" "same_rest s s1" "c_fids s1 a = Some f"
      "cb a f s1 = Some s2" and p: "cb_frame s1 s2"
      "np_fid_destroy cb a s = Some (s2\<lparr>c_users := drop_user (f_user f) (c_users s2), c_fids := (c_fids s2)(a := None)\<rparr>)"
      "pool_ok (s2\<lparr>c_users := drop_user (f_user f) (c_users s2), c_fids := (c_fids s2)(a := None)\<rparr>)"
    by (rule destroy_phases [of s a f cb, OF assms(1-3)]) (use assms(4) in blast)
  have "fids_grow ((c_fids s1)(a := None)) ((c_fids s2)(a := None))"
    using p(1) fids_grow_upd unfolding cb_frame_def by blast
  then have "fids_grow ((fid_view s)(a := None))
      (fid_view (s2\<lparr>c_users := drop_user (f_user f) (c_users s2), c_fids := (c_fids s2)(a := None)\<rparr>))"
    using fids_grow_view unfolding \<open>fid_view s1 = fid_view s\<close> [symmetric]
    by (fastforce simp: fid_view_def [abs_def] fun_upd_def if_distrib cong: if_cong)
  with p show ?thesis by blast
qed

end
