(* ===== verification/Fidpool_Spec.thy ===== *)
theory Fidpool_Spec
  imports Fidpool
begin

text \<open>
  The interface the request handlers use: a store of fids in which every number names at most
  one fid. The locale \<open>fid_store\<close> states the laws and proves what the handlers need of them; the
  pool of \<^verbatim>\<open>fidpool.c\<close> is interpreted as such a store, and its properties follow.
\<close>

locale fid_store =
  fixes ok :: "'s \<Rightarrow> bool"
    and names :: "'s \<Rightarrow> addr \<rightharpoonup> u32"
    and fnd :: "u32 \<Rightarrow> 's \<Rightarrow> (ptr \<times> 's) option"
    and crt :: "u32 \<Rightarrow> ptr \<Rightarrow> 's \<Rightarrow> (ptr \<times> 's) option"
    and rmv :: "addr \<Rightarrow> 's \<Rightarrow> 's option"
    and alive :: "'s \<Rightarrow> addr \<Rightarrow> bool"
  assumes names_inj: "ok s \<Longrightarrow> names s a = Some fid \<Longrightarrow> names s b = Some fid \<Longrightarrow> a = b"
    and fnd_law: "ok s \<Longrightarrow> \<exists>r s'. fnd fid s = Some (r, s') \<and> ok s' \<and> names s' = names s \<and>
      (\<forall>a. r = Some a \<longleftrightarrow> names s a = Some fid)"
    and crt_old: "ok s \<Longrightarrow> names s a = Some fid \<Longrightarrow>
      \<exists>s'. crt fid aux s = Some (Some a, s') \<and> ok s' \<and> names s' = names s"
    and crt_new: "ok s \<Longrightarrow> (\<And>a. names s a \<noteq> Some fid) \<Longrightarrow>
      \<exists>r s'. crt fid aux s = Some (r, s') \<and> ok s' \<and>
        (case r of None \<Rightarrow> names s' = names s
         | Some a \<Rightarrow> names s a = None \<and> names s' = (names s)(a \<mapsto> fid))"
    and rmv_law: "ok s \<Longrightarrow> names s a = Some fid \<Longrightarrow> alive s a \<Longrightarrow>
      \<exists>s'. rmv a s = Some s' \<and> ok s' \<and> names s' = (names s)(a := None)"
begin

text \<open>\<open>at s fid\<close>: what a lookup of \<open>fid\<close> returns.\<close>

definition at :: "'s \<Rightarrow> u32 \<Rightarrow> ptr" where
  "at s fid = fst (the (fnd fid s))"

lemma at_iff:
  assumes "ok s"
  shows "at s fid = Some a \<longleftrightarrow> names s a = Some fid"
proof -
  obtain r s' where "fnd fid s = Some (r, s')" "\<forall>a. r = Some a \<longleftrightarrow> names s a = Some fid"
    using fnd_law [OF assms] by blast
  then show ?thesis by (simp add: at_def)
qed

lemma at_None: "ok s \<Longrightarrow> at s fid = None \<longleftrightarrow> (\<forall>a. names s a \<noteq> Some fid)"
  using at_iff [of s fid] by (cases "at s fid") auto

lemma at_eqI:
  assumes "ok s'" "\<And>a. names s' a = Some fid \<longleftrightarrow> p = Some a"
  shows "at s' fid = p"
proof (cases p)
  case None
  then show ?thesis using at_None [OF assms(1)] assms(2) by simp
next
  case (Some a)
  then show ?thesis using at_iff [OF assms(1), of fid a] assms(2) by simp
qed

lemma fnd_keeps: "ok s \<Longrightarrow> fnd fid s = Some (r, s') \<Longrightarrow> ok s' \<and> r = at s fid \<and> at s' = at s"
proof -
  assume s: "ok s" and f: "fnd fid s = Some (r, s')"
  have s': "ok s'" "names s' = names s" using fnd_law [OF s, of fid] f by auto
  have "at s' k = at s k" for k
    using at_eqI [OF s'(1), of k "at s k"] at_iff [OF s, of k] s'(2) by simp
  then show ?thesis using s'(1) f by (auto simp: at_def)
qed

lemma crt_inserts:
  assumes "ok s" "at s fid = None" "crt fid aux s = Some (Some a, s')"
  shows "ok s' \<and> at s' = (at s)(fid \<mapsto> a)"
proof -
  have s': "ok s'" "names s a = None" "names s' = (names s)(a \<mapsto> fid)"
    using crt_new [OF assms(1), of fid aux] assms(2,3) at_None [OF assms(1)] by auto
  have "at s' k = ((at s)(fid \<mapsto> a)) k" for k
    using at_eqI [OF s'(1), of k "((at s)(fid \<mapsto> a)) k"] at_iff [OF assms(1), of k] s'(2,3)
      at_None [OF assms(1), of fid] assms(2) by auto
  with s'(1) show ?thesis by blast
qed

lemma crt_existing:
  assumes "ok s" "at s fid = Some a"
  shows "\<exists>s'. crt fid aux s = Some (Some a, s') \<and> ok s' \<and> at s' = at s"
proof -
  obtain s' where s': "crt fid aux s = Some (Some a, s')" "ok s'" "names s' = names s"
    using crt_old [OF assms(1)] assms at_iff by blast
  have "at s' k = at s k" for k
    using at_eqI [OF s'(2), of k "at s k"] at_iff [OF assms(1), of k] s'(3) by simp
  with s' show ?thesis by blast
qed

lemma at_remove:
  assumes "ok s" "ok s'" and n: "names s a = Some fid" and n': "names s' = (names s)(a := None)"
  shows "at s' = (at s)(fid := None)"
proof
  fix k
  have "names s' b = Some k \<longleftrightarrow> ((at s)(fid := None)) k = Some b" for b
  proof (cases "k = fid")
    case True
    then show ?thesis using names_inj [OF assms(1) n, of b] by (auto simp: n')
  next
    case False
    then show ?thesis using at_iff [OF assms(1), of k b] n by (auto simp: n')
  qed
  then show "at s' k = ((at s)(fid := None)) k"
    using at_eqI [OF assms(2)] by blast
qed

lemma rmv_deletes:
  assumes "ok s" "at s fid = Some a" "alive s a"
  shows "\<exists>s'. rmv a s = Some s' \<and> ok s' \<and> at s' = (at s)(fid := None)"
proof -
  have n: "names s a = Some fid" using assms at_iff by blast
  then show ?thesis
    using rmv_law [OF assms(1) n assms(3)] at_remove [OF assms(1) _ n] by blast
qed

end

subsection \<open>The pool as a fid store\<close>

definition pool_names :: "'e conn \<Rightarrow> addr \<rightharpoonup> u32" where
  "pool_names s = keys (c_fids s)"

definition quiet :: "addr \<Rightarrow> Npfid \<Rightarrow> 'e conn \<Rightarrow> 'e conn option" where
  "quiet a f s = Some s"

definition fid_user_alive :: "'e conn \<Rightarrow> addr \<Rightarrow> bool" where
  "fid_user_alive s a \<longleftrightarrow> (\<forall>f. c_fids s a = Some f \<longrightarrow> user_alive s (f_user f))"

lemma pool_names_eq: "pool_names s a = map_option f_fid (fid_view s a)"
  by (simp add: pool_names_def keys_def fid_view_def option.map_comp comp_def fid_core_def)

lemma pool_names_view: "fid_view s' = fid_view s \<Longrightarrow> pool_names s' = pool_names s"
  by (simp add: fun_eq_iff pool_names_eq)

lemma pool_names_grow: "fids_grow v (fid_view s') \<Longrightarrow> pool_names s' a = map_option f_fid (v a)"
  using fids_grow_keys [of v "fid_view s'"] by (metis keys_def pool_names_eq)

lemma quiet_frame: "\<exists>s2. quiet a f s1 = Some s2 \<and> cb_frame s1 s2"
  by (auto simp: quiet_def cb_frame_def users_grow_def)

lemma create_old:
  assumes "pool_ok s" "holds s fid a"
  shows "\<exists>s'. np_fid_create fid aux s = Some (Some a, s') \<and> pool_ok s' \<and> fid_view s' = fid_view s"
proof -
  obtain s' where "np_fid_lookup fid (fid_hash fid) s = Some (Some a, s')" "pool_ok s'"
      "fid_view s' = fid_view s"
    using lookup_inv [OF assms(1), of fid] assms(2) by auto
  then show ?thesis by (simp add: np_fid_create_def fid_hash_def Let_def)
qed

lemma create_new:
  assumes "pool_ok s" "\<And>a. \<not> holds s fid a"
  shows "\<exists>r s'. np_fid_create fid aux s = Some (r, s') \<and> pool_ok s' \<and>
      (case r of None \<Rightarrow> pool_names s' = pool_names s
       | Some a \<Rightarrow> pool_names s a = None \<and> pool_names s' = (pool_names s)(a \<mapsto> fid))"
proof -
  obtain m s1 where m: "np_malloc s = (m, s1)" by fastforce
  show ?thesis
  proof (cases m)
    case None
    then obtain s' where "np_fid_create fid aux s = Some (None, s')" "pool_ok s'" "fid_view s' = fid_view s"
      using create_spec [OF assms, of aux] m by auto
    then show ?thesis using pool_names_view by fastforce
  next
    case (Some x)
    then obtain s' where s': "np_fid_create fid aux s = Some (Some (c_brk s), s')" "pool_ok s'"
        "fid_view s' = (fid_view s)(c_brk s \<mapsto> new_fid fid aux)"
      using create_spec [OF assms, of aux] m by auto
    have "pool_names s (c_brk s) = None"
      using pool_ok_brk [OF assms(1), of "c_brk s"] by (simp add: pool_names_def keys_def)
    moreover have "pool_names s' = (pool_names s)(c_brk s \<mapsto> fid)"
      by (simp add: fun_eq_iff pool_names_eq s'(3) new_fid_def)
    ultimately show ?thesis using s' by auto
  qed
qed

interpretation fp: fid_store pool_ok pool_names np_fid_find np_fid_create "np_fid_destroy quiet" fid_user_alive
proof
  fix s :: "'e conn" and a b fid
  assume "pool_ok s" "pool_names s a = Some fid" "pool_names s b = Some fid"
  then show "a = b" by (auto simp: pool_ok_def pool_inv_def pool_keys_def pool_names_def)
next
  fix s :: "'e conn" and fid
  assume "pool_ok s"
  then show "\<exists>r s'. np_fid_find fid s = Some (r, s') \<and> pool_ok s' \<and> pool_names s' = pool_names s \<and>
      (\<forall>a. r = Some a \<longleftrightarrow> pool_names s a = Some fid)"
    using find_spec [of s fid] pool_names_view by (fastforce simp: holds_def pool_names_def)
next
  fix s :: "'e conn" and a fid aux
  assume "pool_ok s" "pool_names s a = Some fid"
  then show "\<exists>s'. np_fid_create fid aux s = Some (Some a, s') \<and> pool_ok s' \<and> pool_names s' = pool_names s"
    using create_old [of s fid a aux] pool_names_view by (fastforce simp: holds_def pool_names_def)
next
  fix s :: "'e conn" and fid aux
  assume "pool_ok s" "\<And>a. pool_names s a \<noteq> Some fid"
  then show "\<exists>r s'. np_fid_create fid aux s = Some (r, s') \<and> pool_ok s' \<and>
      (case r of None \<Rightarrow> pool_names s' = pool_names s
       | Some a \<Rightarrow> pool_names s a = None \<and> pool_names s' = (pool_names s)(a \<mapsto> fid))"
    by (intro create_new) (simp_all add: holds_def pool_names_def)
next
  fix s :: "'e conn" and a fid
  assume "pool_ok s" "pool_names s a = Some fid" "fid_user_alive s a"
  moreover obtain f where "c_fids s a = Some f"
    using \<open>pool_names s a = Some fid\<close> by (auto simp: pool_names_def keys_def)
  ultimately obtain s' where "np_fid_destroy quiet a s = Some s'" "pool_ok s'"
      "fids_grow ((fid_view s)(a := None)) (fid_view s')"
    using destroy_spec [of s a f quiet, OF _ _ _ quiet_frame] by (auto simp: fid_user_alive_def)
  then show "\<exists>s'. np_fid_destroy quiet a s = Some s' \<and> pool_ok s' \<and> pool_names s' = (pool_names s)(a := None)"
    using pool_names_grow by (fastforce simp: pool_names_eq)
qed

subsection \<open>The pool as a finite map\<close>

text \<open>The abstract contents of a pool: what \<^verbatim>\<open>np_fid_find\<close> returns for each number.\<close>

definition pool_map :: "'e conn \<Rightarrow> u32 \<rightharpoonup> addr" where
  "pool_map s fid = fst (the (np_fid_find fid s))"

lemma pool_map_at: "pool_map s = fp.at s"
  by (simp add: fun_eq_iff pool_map_def fp.at_def)

lemma pool_map_holds: "pool_ok s \<Longrightarrow> pool_map s fid = Some a \<longleftrightarrow> holds s fid a"
  by (simp add: pool_map_at fp.at_iff pool_names_def holds_def)

text \<open>
  (C10) Lookup. In a consistent pool \<^verbatim>\<open>np_fid_find\<close> always returns (the bucket lists are acyclic and
  every node is allocated), finds a fid exactly when the pool holds one with that number, and
  its move to the front of the bucket keeps the pool consistent and is invisible: no field of any
  fid but the list links changes, and neither does anything else of the state.
\<close>

theorem fid_find_correct:
  assumes "pool_ok s"
  shows "\<exists>r s'. np_fid_find fid s = Some (r, s') \<and> pool_ok s' \<and> fid_view s' = fid_view s \<and>
    same_rest s s' \<and> (\<forall>a. r = Some a \<longleftrightarrow> holds s fid a)"
  using assms by (rule find_spec)

text \<open>Two fids in one bucket, the second of which a lookup moves to the front.\<close>

definition fid_ex :: "u32 \<Rightarrow> ptr \<Rightarrow> ptr \<Rightarrow> Npfid" where
  "fid_ex fid nx pv = (new_fid fid None)\<lparr>f_refcount := 1, f_next := nx, f_prev := pv\<rparr>"

definition conn0 :: "unit conn" where
  "conn0 = \<lparr>c_fids = Map.empty, c_pool = Some (replicate FID_HTABLE_SIZE None), c_brk = 0,
     c_users = Map.empty, c_groups = Map.empty, c_upool = None, c_gpool = None, c_msize = 8216, c_dotu = True, c_dotl = False,
     c_ename = None, c_ecode = 0, c_mal = [], c_env = ()\<rparr>"

definition conn2 :: "unit conn" where
  "conn2 = conn0\<lparr>c_fids := [0 \<mapsto> fid_ex 1 (Some 1) None, 1 \<mapsto> fid_ex 65 None (Some 0)],
     c_pool := Some ((replicate FID_HTABLE_SIZE None)[1 := Some 0]), c_brk := 2\<rparr>"

lemma pool_ok_conn0: "pool_ok conn0"
  unfolding pool_ok_def pool_inv_def conn0_def
  by (auto simp: pool_keys_def keys_def intro!: exI [of _ "\<lambda>_. []"])

lemma pool_ok_conn2: "pool_ok conn2"
proof -
  let ?bs = "(\<lambda>_. [])(1 := [0, 1 :: addr])"
  have "pool_inv (c_fids conn2) ((replicate FID_HTABLE_SIZE None)[1 := Some 0]) ?bs"
    by (auto simp: pool_inv_def pool_keys_def keys_def conn2_def fid_ex_def new_fid_def fid_hash_def
        nth_list_update split: if_splits)
  then show ?thesis
    by (auto simp: pool_ok_def conn2_def)
qed

theorem fid_find_correct_witness:
  "pool_ok conn2 \<and> (\<exists>r s'. np_fid_find 65 conn2 = Some (r, s') \<and> pool_ok s' \<and>
    fid_view s' = fid_view conn2 \<and> same_rest conn2 s' \<and> (\<forall>a. r = Some a \<longleftrightarrow> holds conn2 65 a))"
  using fid_find_correct [OF pool_ok_conn2, of 65] pool_ok_conn2 by blast

text \<open>
  (C11) Insertion. When no fid has the number, \<^verbatim>\<open>np_fid_create\<close> returns; unless memory is exhausted it
  returns a fid that was not in use, with the initial field values, and the pool is the old one
  with the number mapped to it; every other fid is unchanged.
\<close>

theorem fid_create_correct:
  assumes "pool_ok s" "pool_map s fid = None"
  shows "\<exists>r s'. np_fid_create fid aux s = Some (r, s') \<and> pool_ok s' \<and>
    (case r of
       None \<Rightarrow> fid_view s' = fid_view s \<and> fst (np_malloc s) = None
     | Some a \<Rightarrow> c_fids s a = None \<and> fid_view s' = (fid_view s)(a \<mapsto> new_fid fid aux) \<and>
         pool_map s' = (pool_map s)(fid \<mapsto> a))"
proof -
  have no: "\<not> holds s fid a" for a
    using assms pool_map_holds [OF assms(1), of fid a] by simp
  obtain m s1 where m: "np_malloc s = (m, s1)" by fastforce
  show ?thesis
  proof (cases m)
    case None
    then show ?thesis using create_spec [OF assms(1) no, of aux] m by auto
  next
    case (Some x)
    then obtain s' where s': "np_fid_create fid aux s = Some (Some (c_brk s), s')" "pool_ok s'"
        "fid_view s' = (fid_view s)(c_brk s \<mapsto> new_fid fid aux)"
      using create_spec [OF assms(1) no, of aux] m by auto
    have "pool_map s' = (pool_map s)(fid \<mapsto> c_brk s)"
      using fp.crt_inserts [OF assms(1) _ s'(1)] assms(2) by (simp add: pool_map_at)
    with s' show ?thesis using pool_ok_brk [OF assms(1)] by auto
  qed
qed

theorem fid_create_correct_witness:
  "pool_ok conn2 \<and> pool_map conn2 7 = None \<and> (\<exists>r s'. np_fid_create 7 None conn2 = Some (r, s') \<and> pool_ok s' \<and>
    (case r of
       None \<Rightarrow> fid_view s' = fid_view conn2 \<and> fst (np_malloc conn2) = None
     | Some a \<Rightarrow> c_fids conn2 a = None \<and> fid_view s' = (fid_view conn2)(a \<mapsto> new_fid 7 None) \<and>
         pool_map s' = (pool_map conn2)(7 \<mapsto> a)))"
proof -
  have "pool_map conn2 7 = None"
    using pool_map_holds [OF pool_ok_conn2, of 7]
    by (cases "pool_map conn2 7")
      (auto simp: holds_def keys_def conn2_def fid_ex_def new_fid_def split: if_splits)
  then show ?thesis using fid_create_correct [OF pool_ok_conn2, of 7 None] pool_ok_conn2 by blast
qed

text \<open>
  (C12) Removal. When the fid's user has another reference and the file server keeps to its
  contract, \<^verbatim>\<open>np_fid_destroy\<close> returns, the pool stays consistent, the fid's structure is freed and
  its number is no longer found, while every other number still names the same fid.
\<close>

theorem fid_destroy_correct:
  assumes "pool_ok s" "pool_map s fid = Some a" "c_fids s a = Some f" "user_alive s (f_user f)"
    and "\<And>s1. c_fids s1 a = Some f \<Longrightarrow> \<exists>s2. cb a f s1 = Some s2 \<and> cb_frame s1 s2"
  shows "\<exists>s'. np_fid_destroy cb a s = Some s' \<and> pool_ok s' \<and> c_fids s' a = None \<and>
    pool_map s' = (pool_map s)(fid := None)"
proof -
  obtain s' where s': "np_fid_destroy cb a s = Some s'" "pool_ok s'"
      "fids_grow ((fid_view s)(a := None)) (fid_view s')"
    using destroy_spec [of s a f cb, OF assms(1,3,4,5)] by blast
  have n: "pool_names s' = (pool_names s)(a := None)"
    using pool_names_grow [OF s'(3)] by (simp add: fun_eq_iff pool_names_eq)
  have a: "pool_names s a = Some fid" using assms(1,2) by (simp add: pool_map_at fp.at_iff)
  have "pool_map s' = (pool_map s)(fid := None)"
    using fp.at_remove [OF assms(1) s'(2) a n] by (simp add: pool_map_at)
  then show ?thesis
    using s' fids_grow_None [OF s'(3), of a] by (auto simp: fid_view_dom)
qed

theorem fid_destroy_correct_witness:
  "pool_map conn2 65 = Some 1 \<and> (\<exists>s'. np_fid_destroy quiet 1 conn2 = Some s' \<and> pool_ok s' \<and>
    c_fids s' 1 = None \<and> pool_map s' = (pool_map conn2)(65 := None))"
proof -
  have "holds conn2 65 1" by (simp add: holds_def keys_def conn2_def fid_ex_def new_fid_def)
  then have m: "pool_map conn2 65 = Some 1" using pool_map_holds [OF pool_ok_conn2] by blast
  have f: "c_fids conn2 1 = Some (fid_ex 65 None (Some 0))" by (simp add: conn2_def)
  have u: "user_alive conn2 (f_user (fid_ex 65 None (Some 0)))"
    by (simp add: user_alive_def fid_ex_def new_fid_def)
  show ?thesis
    using fid_destroy_correct [of conn2 65 1 "fid_ex 65 None (Some 0)" quiet, OF pool_ok_conn2 m f u quiet_frame] m by blast
qed

end
