(* ===== verification/Srvops.thy ===== *)
theory Srvops
  imports Fidpool_Spec
begin

text \<open>
  The file server behind the library (\<^verbatim>\<open>struct Npsrv\<close>, \<^verbatim>\<open>struct Npauth\<close>, \<^verbatim>\<open>struct Npuserpool\<close>): the
  operations the library calls through function pointers. They are code of the program that links
  the library, hence parameters of the model. The operations that return a message are one
  function over the datatype of calls; a pointer the library tests for NULL is an \<open>option\<close>, and so is
  \<open>sv_version\<close>, where \<open>None\<close> stands for the library's own \<^verbatim>\<open>np_default_version\<close>. The
  theory also holds the operations \<^verbatim>\<open>np_srv_create\<close> installs (\<^verbatim>\<open>libnpfs/srv.c\<close>, \<^verbatim>\<open>np_default_*\<close>), and
  the contract the library relies on.
\<close>

datatype (plugins only: code) srvcall =
    CallAttach addr ptr Npstr Npstr
  | CallOpen addr u8
  | CallCreate addr Npstr u32 u8 Npstr
  | CallRead addr u64 u32
  | CallWrite addr u64 u32 "bytes option"
  | CallClunk addr
  | CallRemove addr
  | CallStat addr
  | CallWstat addr Npstat
  | CallStatfs addr
  | CallLopen addr u32
  | CallLcreate addr Npstr u32 u32 u32
  | CallSymlink addr Npstr Npstr u32
  | CallMknod addr Npstr u32 u32 u32 u32
  | CallRename addr addr Npstr
  | CallReadlink addr
  | CallGetattr addr u64
  | CallSetattr addr Npattrs
  | CallXattrwalk addr addr Npstr
  | CallXattrcreate addr Npstr u64 u32
  | CallXattrread addr u64 u32
  | CallXattrwrite addr u64 u32 "bytes option"
  | CallReaddir addr u64 u32
  | CallFsync addr
  | CallFlock addr u8 u32 u64 u64 u32 Npstr
  | CallGetlock addr u8 u64 u64 u32 Npstr
  | CallLink addr addr Npstr
  | CallMkdir addr Npstr u32 u32
  | CallRenameat addr Npstr addr Npstr
  | CallUnlinkat addr Npstr

text \<open>
  \<open>au_startauth\<close> and \<open>sv_walk\<close> return their result and the qid they stored; \<open>au_read\<close> the byte
  count and the bytes it put into the buffer.
\<close>

record 'e npauth =
  au_startauth :: "(addr \<Rightarrow> cstring option \<Rightarrow> (int \<times> Npqid, 'e) act) option"
  au_checkauth :: "(addr \<Rightarrow> ptr \<Rightarrow> cstring option \<Rightarrow> (int, 'e) act) option"
  au_read :: "addr \<Rightarrow> u64 \<Rightarrow> u32 \<Rightarrow> (int \<times> bytes, 'e) act"
  au_write :: "addr \<Rightarrow> u64 \<Rightarrow> u32 \<Rightarrow> bytes option \<Rightarrow> (int, 'e) act"
  au_clunk :: "(addr \<Rightarrow> (int, 'e) act) option"

record 'e npsrv =
  sv_msize :: u32
  sv_dotu :: bool
  sv_dotl :: bool
  sv_auth :: "'e npauth option"
  sv_uname2user :: "cstring \<Rightarrow> (ptr, 'e) act"
  sv_uid2user :: "u32 \<Rightarrow> (ptr, 'e) act"
  sv_fiddestroy :: "(addr \<Rightarrow> 'e conn \<Rightarrow> 'e conn option) option"
  sv_version :: "(u32 \<Rightarrow> Npstr \<Rightarrow> (Npfcall option, 'e) act) option"
  sv_clone :: "addr \<Rightarrow> addr \<Rightarrow> (bool, 'e) act"
  sv_walk :: "addr \<Rightarrow> Npstr \<Rightarrow> (bool \<times> Npqid, 'e) act"
  sv_call :: "srvcall \<Rightarrow> (Npfcall option, 'e) act"

text \<open>What \<^verbatim>\<open>np_fid_destroy\<close> and \<^verbatim>\<open>np_fidpool_destroy\<close> tell the server about a fid that goes away.\<close>

abbreviation is_auth :: "Npfid \<Rightarrow> bool" where "is_auth f \<equiv> f_type f AND Qtauth \<noteq> 0"
abbreviation is_dir :: "Npfid \<Rightarrow> bool" where "is_dir f \<equiv> f_type f AND Qtdir \<noteq> 0"

definition destroy_cb :: "'e npsrv \<Rightarrow> addr \<Rightarrow> Npfid \<Rightarrow> 'e conn \<Rightarrow> 'e conn option" where
  "destroy_cb sv a f s =
     (case (if is_auth f then Option.bind (sv_auth sv) au_clunk else None) of
        Some clunk \<Rightarrow> map_option snd (clunk a s)
      | None \<Rightarrow>
          if is_auth f then Some s
          else (case sv_fiddestroy sv of None \<Rightarrow> Some s | Some d \<Rightarrow> d a s))"

definition decref :: "'e npsrv \<Rightarrow> ptr \<Rightarrow> 'e conn \<Rightarrow> 'e conn option" where
  "decref sv p s = np_fid_decref (destroy_cb sv) p s"

subsection \<open>The default operations\<close>

text \<open>
  The end of \<^verbatim>\<open>np_conn_reset\<close>: the old fid pool goes, and for a version request (\<open>msize\<close> is not
  zero) the variant flags are set and a new pool comes. The message size is not stored.
\<close>

definition reset_fids :: "'e npsrv \<Rightarrow> u32 \<Rightarrow> bool \<Rightarrow> bool \<Rightarrow> 'e conn \<Rightarrow> 'e conn option" where
  "reset_fids sv msize dotu dotl s =
     do { s \<leftarrow> (case c_pool s of None \<Rightarrow> Some s | Some _ \<Rightarrow> np_fidpool_destroy (destroy_cb sv) s);
          if msize \<noteq> 0 then Some (np_fidpool_create (s\<lparr>c_dotu := dotu, c_dotl := dotl\<rparr>))
          else Some s }"

definition ver9P2000 :: cstring where "ver9P2000 = cstr ''9P2000''"
definition ver9P2000u :: cstring where "ver9P2000u = cstr ''9P2000.u''"
definition ver9P2000L :: cstring where "ver9P2000L = cstr ''9P2000.L''"

text \<open>The protocol chosen for a version string: the reply's string and the two flags.\<close>

definition choose_version :: "'e npsrv \<Rightarrow> Npstr \<Rightarrow> (cstring \<times> bool \<times> bool) option option" where
  "choose_version sv version =
     do { u \<leftarrow> np_strcmp version ver9P2000u;
          if u = 0 \<and> sv_dotu sv then Some (Some (ver9P2000u, True, False))
          else do {
            l \<leftarrow> np_strcmp version ver9P2000L;
            if l = 0 \<and> sv_dotl sv then Some (Some (ver9P2000L, True, True))
            else do {
              n \<leftarrow> np_strncmp version ver9P2000 6;
              if n = 0 then Some (Some (ver9P2000, False, False)) else Some None } } }"

definition np_default_clone :: "addr \<Rightarrow> addr \<Rightarrow> (bool, 'e) act" where
  "np_default_clone fid newfid s = Some (False, s)"

definition np_default_walk :: "addr \<Rightarrow> Npstr \<Rightarrow> (bool \<times> Npqid, 'e) act" where
  "np_default_walk fid wname s = Some ((False, qid0), np_werror (Some Enotimpl) ENOSYS s)"

text \<open>
  \<^verbatim>\<open>np_default_attach\<close> to \<^verbatim>\<open>np_default_unlinkat\<close>: each records "not implemented" and returns NULL; only
  attach uses EIO.
\<close>

definition np_default_call :: "srvcall \<Rightarrow> (Npfcall option, 'e) act" where
  "np_default_call call s =
     (case call of
        CallAttach _ _ _ _ \<Rightarrow> Some (None, np_werror (Some Enotimpl) EIO s)
      | _ \<Rightarrow> Some (None, np_werror (Some Enotimpl) ENOSYS s))"

text \<open>
  The server \<^verbatim>\<open>np_srv_create\<close> returns, with the user pool given as its two lookups.
\<close>

definition np_srv_create :: "(cstring \<Rightarrow> (ptr, 'e) act) \<Rightarrow> (u32 \<Rightarrow> (ptr, 'e) act) \<Rightarrow> 'e npsrv" where
  "np_srv_create uname2user uid2user =
     \<lparr>sv_msize = 8216, sv_dotu = True, sv_dotl = True, sv_auth = None,
      sv_uname2user = uname2user, sv_uid2user = uid2user, sv_fiddestroy = None, sv_version = None,
      sv_clone = np_default_clone, sv_walk = np_default_walk, sv_call = np_default_call\<rparr>"

end
