(* ===== verification/Fcall.thy ===== *)
theory Fcall
  imports Srvops
begin

text \<open>
  The request handlers of \<^verbatim>\<open>libnpfs/fcall.c\<close> for 9P2000 and 9P2000.u, except \<open>np_version\<close> and
  \<open>np_flush\<close>, which work on the request lists. A handler gets the parsed
  request and returns the reply (\<open>None\<close> for NULL) and the fid it stored in \<^verbatim>\<open>req->fid\<close>, which the
  response later releases.
\<close>

type_synonym 'e handler = "Npfcall \<Rightarrow> (Npfcall option \<times> ptr, 'e) act"

text \<open>
  The opening of almost every handler: look the fid up, refuse an unknown one, take a
  reference. \<open>fail\<close> is \<^verbatim>\<open>np_werror(...); goto done\<close>; \<open>reply\<close> ends with a call of the file server.
\<close>

definition fail :: "cstring \<Rightarrow> int \<Rightarrow> ptr \<Rightarrow> (Npfcall option \<times> ptr, 'e) act" where
  "fail e c rf s = Some ((None, rf), np_werror (Some e) c s)"

definition with_fid :: "u32 \<Rightarrow> (addr \<Rightarrow> Npfid \<Rightarrow> (Npfcall option \<times> ptr, 'e) act) \<Rightarrow>
    (Npfcall option \<times> ptr, 'e) act" where
  "with_fid fid k s =
     do { (r, s) \<leftarrow> np_fid_find fid s;
          (case r of
             None \<Rightarrow> fail Eunknownfid EIO None s
           | Some a \<Rightarrow>
               do { s \<leftarrow> np_fid_incref (Some a) s;
                    f \<leftarrow> c_fids s a;
                    k a f s }) }"

definition reply :: "'e npsrv \<Rightarrow> srvcall \<Rightarrow> ptr \<Rightarrow> (Npfcall option \<times> ptr, 'e) act" where
  "reply sv call rf s = do { (rc, s) \<leftarrow> sv_call sv call s; Some ((rc, rf), s) }"

definition fid_set :: "addr \<Rightarrow> (Npfid \<Rightarrow> Npfid) \<Rightarrow> 'e conn \<Rightarrow> 'e conn option" where
  "fid_set a g s = do { h \<leftarrow> heap_upd (c_fids s) a g; Some (s\<lparr>c_fids := h\<rparr>) }"

text \<open>
  The user of a Tauth or Tattach: by name when there is one and no numeric id, else by id. The
  result \<open>None\<close> is an unknown user, with the error recorded.
\<close>

definition find_user :: "'e npsrv \<Rightarrow> Npfcall \<Rightarrow> (ptr, 'e) act" where
  "find_user sv tc s =
     do { (u, s) \<leftarrow>
            (if s_len (fc_uname tc) \<noteq> 0 \<and> fc_n_uname tc = - 1 then
               do { (uname, s) \<leftarrow> strdup_act (fc_uname tc) s; sv_uname2user sv uname s }
             else sv_uid2user sv (fc_n_uname tc) s);
          (case u of
             None \<Rightarrow> Some (None, np_werror (Some Eunknownuser) EIO s)
           | Some a \<Rightarrow> Some (Some a, s)) }"

definition dup_aname :: "Npfcall \<Rightarrow> (cstring option, 'e) act" where
  "dup_aname tc s =
     (if s_len (fc_aname tc) \<noteq> 0
      then do { (aname, s) \<leftarrow> strdup_act (fc_aname tc) s; Some (Some aname, s) }
      else Some (None, s))"

definition auth_start :: "'e npsrv \<Rightarrow> addr \<Rightarrow> cstring option \<Rightarrow> (Npfcall option, 'e) act" where
  "auth_start sv a aname s =
     do { ((n, aqid), s) \<leftarrow>
            (case Option.bind (sv_auth sv) au_startauth of
               None \<Rightarrow> Some ((0, qid0), s)
             | Some f \<Rightarrow> f a aname s);
          if n \<noteq> 0 then
            (if q_type aqid AND 0x08 \<noteq> 0 then build (\<lambda>mal. np_create_rauth mal aqid) s else None)
          else Some (None, np_werror (Some Enoauth) EIO s) }"

text \<open>\<open>np_auth\<close> drops the fid in \<open>afid\<close> whenever there is no reply, also one it only found.\<close>

definition np_auth :: "'e npsrv \<Rightarrow> 'e handler" where
  "np_auth sv tc s =
     do { (r, s) \<leftarrow> np_fid_find (fc_afid tc) s;
          (case r of
             Some a \<Rightarrow>
               do { s \<leftarrow> decref sv (Some a) (np_werror (Some Einuse) EIO s); Some ((None, None), s) }
           | None \<Rightarrow>
               do { (r, s) \<leftarrow> np_fid_create (fc_afid tc) None s;
                    (case r of
                       None \<Rightarrow> Some ((None, None), s)
                     | Some a \<Rightarrow>
                         do { s \<leftarrow> np_fid_incref (Some a) s;
                              (u, s) \<leftarrow> find_user sv tc s;
                              (rc, s) \<leftarrow>
                                (case u of
                                   None \<Rightarrow> Some (None, s)
                                 | Some _ \<Rightarrow>
                                     do { (aname, s) \<leftarrow> dup_aname tc s;
                                          s \<leftarrow> fid_set a (\<lambda>f. f\<lparr>f_user := u, f_type := Qtauth\<rparr>) s;
                                          auth_start sv a aname s });
                              s \<leftarrow> (case rc of None \<Rightarrow> decref sv (Some a) s | Some _ \<Rightarrow> Some s);
                              Some ((rc, None), s) }) }) }"

text \<open>
  \<open>np_attach\<close>: the part after \<open>fid\<close> has been created. It ends with \<^verbatim>\<open>np_fid_decref(afid)\<close> on every
  path, although only the path through an authentication fid took a reference.
\<close>

definition attach_user :: "'e npsrv \<Rightarrow> Npfcall \<Rightarrow> addr \<Rightarrow> ptr \<Rightarrow> (Npfcall option, 'e) act" where
  "attach_user sv tc a af s =
     do { (u, s) \<leftarrow> find_user sv tc s;
          (case u of
             None \<Rightarrow> Some (None, s)
           | Some _ \<Rightarrow>
               do { s \<leftarrow> fid_set a (\<lambda>f. f\<lparr>f_user := u\<rparr>) s;
                    (aname, s) \<leftarrow> dup_aname tc s;
                    (n, s) \<leftarrow>
                      (case Option.bind (sv_auth sv) au_checkauth of
                         None \<Rightarrow> Some (1, s)
                       | Some f \<Rightarrow> f a af aname s);
                    if n = 0 then Some (None, s)
                    else sv_call sv (CallAttach a af (fc_uname tc) (fc_aname tc)) s }) }"

definition np_attach :: "'e npsrv \<Rightarrow> 'e handler" where
  "np_attach sv tc s =
     do { (r, s) \<leftarrow> np_fid_find (fc_fid tc) s;
          (case r of
             Some _ \<Rightarrow> fail Einuse EIO None s
           | None \<Rightarrow>
               do { (r, s) \<leftarrow> np_fid_create (fc_fid tc) None s;
                    (case r of
                       None \<Rightarrow> Some ((None, None), s)
                     | Some a \<Rightarrow>
                         do { s \<leftarrow> np_fid_incref (Some a) s;
                              (af, s) \<leftarrow> np_fid_find (fc_afid tc) s;
                              (rc, s) \<leftarrow>
                                (case af of
                                   None \<Rightarrow>
                                     if fc_afid tc \<noteq> NOFID
                                     then Some (None, np_werror (Some Eunknownfid) EIO s)
                                     else attach_user sv tc a af s
                                 | Some b \<Rightarrow>
                                     do { f \<leftarrow> c_fids s b;
                                          if \<not> is_auth f
                                          then Some (None, np_werror (Some Ebadusefid) EIO s)
                                          else do { s \<leftarrow> np_fid_incref af s;
                                                    attach_user sv tc a af s } });
                              s \<leftarrow> decref sv af s;
                              Some ((rc, Some a), s) }) }) }"

text \<open>The loop of \<open>np_walk\<close>; the result is the qids of the names walked.\<close>

fun walk_names :: "'e npsrv \<Rightarrow> addr \<Rightarrow> Npstr list \<Rightarrow> Npqid list \<Rightarrow> (Npqid list, 'e) act" where
  "walk_names sv a [] qs s = Some (qs, s)"
| "walk_names sv a (n # ns) qs s =
     do { ((ok, q), s) \<leftarrow> sv_walk sv a n s;
          if \<not> ok then Some (qs, s)
          else
            do { s \<leftarrow> fid_set a (\<lambda>f. f\<lparr>f_type := ucast (q_type q)\<rparr>) s;
                 if ns \<noteq> [] \<and> q_type q AND 0x80 = 0 then Some (qs @ [q], s)
                 else walk_names sv a ns (qs @ [q]) s } }"

text \<open>The end of \<open>np_walk\<close>, from the reference on \<open>newfid\<close> on.\<close>

definition walk_finish :: "'e npsrv \<Rightarrow> Npfcall \<Rightarrow> addr \<Rightarrow> (Npfcall option, 'e) act" where
  "walk_finish sv tc b s =
     do { s \<leftarrow> np_fid_incref (Some b) s;
          (qs, s) \<leftarrow> walk_names sv b (take (unat (fc_nwname tc)) (fc_wnames tc)) [] s;
          if qs = [] \<and> fc_nwname tc \<noteq> 0 then Some (None, s)
          else
            do { let s = np_werror None 0 s;
                 s \<leftarrow> (if fc_fid tc \<noteq> fc_newfid tc \<and> length qs = unat (fc_nwname tc)
                        then np_fid_incref (Some b) s else Some s);
                 build (\<lambda>mal. np_create_rwalk mal (int (length qs)) qs) s } }"

definition np_walk :: "'e npsrv \<Rightarrow> 'e handler" where
  "np_walk sv tc =
     with_fid (fc_fid tc) (\<lambda>a f s.
       if f_omode f \<noteq> Onotopen then fail Ebadusefid EIO (Some a) s
       else if unat (fc_nwname tc) > MAXWELEM then fail Etoomanywnames EIO (Some a) s
       else if fc_fid tc = fc_newfid tc then
         do { (rc, s) \<leftarrow> walk_finish sv tc a s;
              s \<leftarrow> decref sv (Some a) s;
              Some ((rc, Some a), s) }
       else
         do { (r, s) \<leftarrow> np_fid_find (fc_newfid tc) s;
              (case r of
                 Some b \<Rightarrow>
                   do { s \<leftarrow> decref sv (Some b) (np_werror (Some Einuse) EIO s);
                        Some ((None, Some a), s) }
               | None \<Rightarrow>
                   do { (r, s) \<leftarrow> np_fid_create (fc_newfid tc) None s;
                        (case r of
                           None \<Rightarrow> fail Ennomem ENOMEM (Some a) s
                         | Some b \<Rightarrow>
                             do { (ok, s) \<leftarrow> sv_clone sv a b s;
                                  (rc, s) \<leftarrow>
                                    (if \<not> ok then Some (None, s)
                                     else
                                       do { f \<leftarrow> c_fids s a;
                                            s \<leftarrow> np_user_incref (f_user f) s;
                                            s \<leftarrow> fid_set b (\<lambda>g. g\<lparr>f_user := f_user f, f_type := f_type f\<rparr>) s;
                                            walk_finish sv tc b s });
                                  s \<leftarrow> decref sv (Some b) s;
                                  Some ((rc, Some a), s) }) }) })"

definition np_open :: "'e npsrv \<Rightarrow> 'e handler" where
  "np_open sv tc =
     with_fid (fc_fid tc) (\<lambda>a f s.
       if f_omode f \<noteq> Onotopen then fail Ebadusefid EIO (Some a) s
       else if is_dir f \<and> fc_mode tc \<noteq> Oread then fail Eperm EPERM (Some a) s
       else
         do { (rc, s) \<leftarrow> sv_call sv (CallOpen a (fc_mode tc)) s;
              s \<leftarrow> fid_set a (\<lambda>f. f\<lparr>f_omode := ucast (fc_mode tc)\<rparr>) s;
              Some ((rc, Some a), s) })"

text \<open>\<open>special\<close>: the permission bits that only 9P2000.u has.\<close>

definition special :: u32 where
  "special = Dmnamedpipe OR Dmsymlink OR Dmlink OR Dmdevice OR Dmsocket"

definition np_create_req :: "'e npsrv \<Rightarrow> 'e handler" where
  "np_create_req sv tc =
     with_fid (fc_fid tc) (\<lambda>a f s.
       if f_omode f \<noteq> Onotopen then fail Ebadusefid EIO (Some a) s
       else if \<not> is_dir f then fail Enotdir ENOTDIR (Some a) s
       else if fc_perm tc AND Dmdir \<noteq> 0 \<and> fc_mode tc \<noteq> Oread then fail Eperm EPERM (Some a) s
       else if fc_perm tc AND special \<noteq> 0 \<and> \<not> c_dotu s then fail Eperm EPERM (Some a) s
       else
         do { (rc, s) \<leftarrow> sv_call sv (CallCreate a (fc_name tc) (fc_perm tc) (fc_mode tc) (fc_extension tc)) s;
              s \<leftarrow> (case rc of
                      Some r \<Rightarrow>
                        if fc_type r = Rcreate
                        then fid_set a (\<lambda>f. f\<lparr>f_omode := ucast (fc_mode tc), f_type := ucast (q_type (fc_qid r))\<rparr>) s
                        else Some s
                    | None \<Rightarrow> Some s);
              Some ((rc, Some a), s) })"

text \<open>\<^verbatim>\<open>tc->count+IOHDRSZ > conn->msize\<close>, in 32 bit arithmetic.\<close>

definition too_large :: "Npfcall \<Rightarrow> 'e conn \<Rightarrow> bool" where
  "too_large tc s \<longleftrightarrow> fc_count tc + IOHDRSZ > c_msize s"

text \<open>Reading an authentication fid: the data of the reply is filled by the server.\<close>

definition auth_read :: "'e npauth \<Rightarrow> addr \<Rightarrow> Npfcall \<Rightarrow> (Npfcall option, 'e) act" where
  "auth_read au a tc s =
     do { (rc, s) \<leftarrow> build (\<lambda>mal. np_alloc_rread mal (fc_count tc)) s;
          (case rc of
             None \<Rightarrow> Some (None, s)
           | Some r \<Rightarrow>
               do { ((n, bs), s) \<leftarrow> au_read au a (fc_offset tc) (fc_count tc) s;
                    if n < 0 then Some (None, s)
                    else
                      do { let buf = cb_store (buf_init (fc_pkt r) 0 0) 11 bs;
                           r \<leftarrow> (if cb_fault buf then None else Some (r\<lparr>fc_pkt := cb_mem buf\<rparr>));
                           r \<leftarrow> np_set_rread_count r (word_of_int n);
                           Some (Some r, s) } }) }"

definition np_read :: "'e npsrv \<Rightarrow> 'e handler" where
  "np_read sv tc =
     with_fid (fc_fid tc) (\<lambda>a f s.
       if too_large tc s then fail Etoolarge EIO (Some a) s
       else if is_auth f then
         (case sv_auth sv of
            None \<Rightarrow> fail Ebadusefid EIO (Some a) s
          | Some au \<Rightarrow> do { (rc, s) \<leftarrow> auth_read au a tc s; Some ((rc, Some a), s) })
       else if f_type f AND Ftxattr \<noteq> 0 then
         reply sv (CallXattrread a (fc_offset tc) (fc_count tc)) (Some a) s
       else if f_omode f = Onotopen \<or> f_omode f AND 3 = 1 then fail Ebadusefid EIO (Some a) s
       else if is_dir f \<and> fc_offset tc \<noteq> ucast (f_diroffset f) then fail Ebadoffset EIO (Some a) s
       else reply sv (CallRead a (fc_offset tc) (fc_count tc)) (Some a) s)"

definition np_write :: "'e npsrv \<Rightarrow> 'e handler" where
  "np_write sv tc =
     with_fid (fc_fid tc) (\<lambda>a f s.
       if is_auth f then
         (case sv_auth sv of
            None \<Rightarrow> fail Ebadusefid EIO (Some a) s
          | Some au \<Rightarrow>
              do { (n, s) \<leftarrow> au_write au a (fc_offset tc) (fc_count tc) (fc_data tc) s;
                   (rc, s) \<leftarrow> (if n \<ge> 0 then build (\<lambda>mal. np_create_rwrite mal (word_of_int n)) s
                               else Some (None, s));
                   Some ((rc, Some a), s) })
       else if f_type f AND Ftxattr \<noteq> 0 then
         reply sv (CallXattrwrite a (fc_offset tc) (fc_count tc) (fc_data tc)) (Some a) s
       else if f_omode f = Onotopen \<or> is_dir f \<or> f_omode f AND 3 = 0 then fail Ebadusefid EIO (Some a) s
       else if too_large tc s then fail Etoolarge EIO (Some a) s
       else reply sv (CallWrite a (fc_offset tc) (fc_count tc) (fc_data tc)) (Some a) s)"

text \<open>
  The second half of \<open>np_clunk\<close>: the fid goes only when the reply is an Rclunk. A fid opened with
  exactly \<open>Orclose\<close> is removed first; there a NULL reply is dereferenced.
\<close>

definition clunk_file :: "'e npsrv \<Rightarrow> addr \<Rightarrow> Npfid \<Rightarrow> (Npfcall option, 'e) act" where
  "clunk_file sv a f s =
     (if f_omode f \<noteq> Onotopen \<and> f_omode f = 0x40 then
        do { (rc, s) \<leftarrow> sv_call sv (CallRemove a) s;
             r \<leftarrow> rc;
             if fc_type r = Rerror then Some (Some r, s)
             else do { (rc, s) \<leftarrow> build np_create_rclunk s;
                       s \<leftarrow> (case rc of Some _ \<Rightarrow> decref sv (Some a) s | None \<Rightarrow> Some s);
                       Some (rc, s) } }
      else
        do { (rc, s) \<leftarrow> sv_call sv (CallClunk a) s;
             s \<leftarrow> (case rc of
                     Some r \<Rightarrow> if fc_type r = Rclunk then decref sv (Some a) s else Some s
                   | None \<Rightarrow> Some s);
             Some (rc, s) })"

definition np_clunk :: "'e npsrv \<Rightarrow> 'e handler" where
  "np_clunk sv tc =
     with_fid (fc_fid tc) (\<lambda>a f s.
       if is_auth f then
         (case sv_auth sv of
            None \<Rightarrow> fail Ebadusefid EIO (Some a) s
          | Some au \<Rightarrow>
              do { clunk \<leftarrow> au_clunk au;
                   (n, s) \<leftarrow> clunk a s;
                   (rc, s) \<leftarrow> (if n \<noteq> 0 then build np_create_rclunk s else Some (None, s));
                   Some ((rc, Some a), s) })
       else do { (rc, s) \<leftarrow> clunk_file sv a f s; Some ((rc, Some a), s) })"

definition np_remove :: "'e npsrv \<Rightarrow> 'e handler" where
  "np_remove sv tc =
     with_fid (fc_fid tc) (\<lambda>a f s.
       do { (rc, s) \<leftarrow> sv_call sv (CallRemove a) s;
            s \<leftarrow> (case rc of
                    Some r \<Rightarrow> if fc_type r = Rremove then decref sv (Some a) s else Some s
                  | None \<Rightarrow> Some s);
            Some ((rc, Some a), s) })"

definition np_stat :: "'e npsrv \<Rightarrow> 'e handler" where
  "np_stat sv tc = with_fid (fc_fid tc) (\<lambda>a f. reply sv (CallStat a) (Some a))"

definition np_wstat :: "'e npsrv \<Rightarrow> 'e handler" where
  "np_wstat sv tc =
     with_fid (fc_fid tc) (\<lambda>a f s.
       let stat = fc_stat tc
       in if st_type stat \<noteq> - 1 \<or> st_dev stat \<noteq> - 1 \<or> q_version (st_qid stat) \<noteq> - 1 \<or>
             q_path (st_qid stat) \<noteq> - 1 then fail Eperm EPERM (Some a) s
          else if is_dir f \<and> st_mode stat AND Dmdir = 0 \<or> \<not> is_dir f \<and> st_mode stat AND Dmdir \<noteq> 0
          then fail Edirchange EPERM (Some a) s
          else reply sv (CallWstat a stat) (Some a) s)"

lemmas [fcall_defs] = np_auth_def np_attach_def np_walk_def np_open_def np_create_req_def np_read_def
  np_write_def np_clunk_def np_remove_def np_stat_def np_wstat_def

end
