(* ===== verification/Fcall_L.thy ===== *)
theory Fcall_L
  imports Fcall
begin

text \<open>
  The request handlers of \<^verbatim>\<open>libnpfs/fcall.c\<close> for 9P2000.L. Most of them look one fid up and hand the
  request to the file server; the ones that work on a directory refuse an open fid and a fid that
  is not a directory first.
\<close>

definition np_statfs :: "'e npsrv \<Rightarrow> 'e handler" where
  "np_statfs sv tc = with_fid (fc_fid tc) (\<lambda>a f. reply sv (CallStatfs a) (Some a))"

text \<open>The values of the Linux \<^verbatim>\<open>open\<close> flags.\<close>

abbreviation (input) "O_TRUNC \<equiv> (0x200 :: u32)"
abbreviation (input) "O_APPEND \<equiv> (0x400 :: u32)"
abbreviation (input) "O_EXCL \<equiv> (0x80 :: u32)"

definition uflags2omode :: "u32 \<Rightarrow> u8" where
  "uflags2omode flags =
     (let acc = flags AND 3;
          ret = (if acc = 0 then Oread else if acc = 2 then Ordwr else if acc = 1 then Owrite else 0);
          ret = (if flags AND O_TRUNC \<noteq> 0 then ret OR Otrunc else ret);
          ret = (if flags AND O_APPEND \<noteq> 0 then ret OR Oappend else ret)
      in if flags AND O_EXCL \<noteq> 0 then ret OR Oexcl else ret)"

definition np_lopen :: "'e npsrv \<Rightarrow> 'e handler" where
  "np_lopen sv tc =
     with_fid (fc_fid tc) (\<lambda>a f s.
       do { (rc, s) \<leftarrow> sv_call sv (CallLopen a (fc_flags tc)) s;
            s \<leftarrow> fid_set a (\<lambda>f. f\<lparr>f_omode := ucast (uflags2omode (fc_flags tc))\<rparr>) s;
            Some ((rc, Some a), s) })"

text \<open>
  The guards \<open>np_lcreate\<close>, \<open>np_symlink\<close>, \<open>np_mknod\<close>, \<open>np_link\<close>, \<open>np_mkdir\<close>, \<open>np_renameat\<close> and
  \<open>np_unlinkat\<close> have in common: \<open>in_dir f rf k\<close> goes on with \<open>k\<close> for a directory that is not open.
\<close>

definition in_dir :: "Npfid \<Rightarrow> ptr \<Rightarrow> (Npfcall option \<times> ptr, 'e) act \<Rightarrow> (Npfcall option \<times> ptr, 'e) act" where
  "in_dir f rf k s =
     (if f_omode f \<noteq> Onotopen then fail Ebadusefid EIO rf s
      else if \<not> is_dir f then fail Enotdir ENOTDIR rf s
      else k s)"

definition np_lcreate :: "'e npsrv \<Rightarrow> 'e handler" where
  "np_lcreate sv tc =
     with_fid (fc_fid tc) (\<lambda>a f. in_dir f (Some a) (\<lambda>s.
       if fc_perm tc AND Dmdir \<noteq> 0 \<and> fc_mode tc \<noteq> Oread then fail Eperm EPERM (Some a) s
       else
         do { (rc, s) \<leftarrow> sv_call sv (CallLcreate a (fc_name tc) (fc_flags tc) (fc_perm tc) (fc_gid tc)) s;
              s \<leftarrow> (case rc of
                      Some r \<Rightarrow>
                        if fc_type r = Rlcreate
                        then fid_set a (\<lambda>f. f\<lparr>f_omode := ucast (uflags2omode (fc_flags tc)),
                               f_type := ucast (q_type (fc_qid r))\<rparr>) s
                        else Some s
                    | None \<Rightarrow> Some s);
              Some ((rc, Some a), s) }))"

definition np_symlink :: "'e npsrv \<Rightarrow> 'e handler" where
  "np_symlink sv tc =
     with_fid (fc_dfid tc) (\<lambda>a f. in_dir f (Some a)
       (reply sv (CallSymlink a (fc_name tc) (fc_symtgt tc) (fc_gid tc)) (Some a)))"

definition np_mknod :: "'e npsrv \<Rightarrow> 'e handler" where
  "np_mknod sv tc =
     with_fid (fc_fid tc) (\<lambda>a f. in_dir f (Some a) (\<lambda>s.
       if fc_perm tc AND Dmdir \<noteq> 0 \<and> fc_mode tc \<noteq> Oread then fail Eperm EPERM (Some a) s
       else reply sv (CallMknod a (fc_name tc) (fc_perm tc) (fc_major tc) (fc_minor tc) (fc_gid tc))
              (Some a) s))"

text \<open>
  A second fid, held for the call only: \<^verbatim>\<open>np_fid_find\<close>, the error for an unknown number,
  \<^verbatim>\<open>np_fid_incref\<close>, and the \<^verbatim>\<open>np_fid_decref\<close> at \<^verbatim>\<open>done\<close>. \<open>rf0\<close> is \<^verbatim>\<open>req->fid\<close> where the fid is
  unknown.
\<close>

definition with_other :: "'e npsrv \<Rightarrow> u32 \<Rightarrow> ptr \<Rightarrow> (addr \<Rightarrow> Npfid \<Rightarrow> (Npfcall option \<times> ptr, 'e) act) \<Rightarrow>
    (Npfcall option \<times> ptr, 'e) act" where
  "with_other sv fid rf0 k s =
     do { (r, s) \<leftarrow> np_fid_find fid s;
          (case r of
             None \<Rightarrow> fail Eunknownfid EIO rf0 s
           | Some b \<Rightarrow>
               do { s \<leftarrow> np_fid_incref (Some b) s;
                    g \<leftarrow> c_fids s b;
                    (res, s) \<leftarrow> k b g s;
                    s \<leftarrow> decref sv (Some b) s;
                    Some (res, s) }) }"

definition np_rename :: "'e npsrv \<Rightarrow> 'e handler" where
  "np_rename sv tc =
     with_fid (fc_fid tc) (\<lambda>a f. with_other sv (fc_dfid tc) (Some a) (\<lambda>b g.
       reply sv (CallRename a b (fc_name tc)) (Some a)))"

definition np_readlink :: "'e npsrv \<Rightarrow> 'e handler" where
  "np_readlink sv tc = with_fid (fc_fid tc) (\<lambda>a f. reply sv (CallReadlink a) (Some a))"

definition np_getattr :: "'e npsrv \<Rightarrow> 'e handler" where
  "np_getattr sv tc = with_fid (fc_fid tc) (\<lambda>a f. reply sv (CallGetattr a (fc_mask tc)) (Some a))"

definition np_setattr :: "'e npsrv \<Rightarrow> 'e handler" where
  "np_setattr sv tc = with_fid (fc_fid tc) (\<lambda>a f. reply sv (CallSetattr a (fc_attrs tc)) (Some a))"

text \<open>
  The reference taken for the duration of the request makes a refusal destroy the new fid; on
  success the server's own reference keeps it.
\<close>

definition np_xattrwalk :: "'e npsrv \<Rightarrow> 'e handler" where
  "np_xattrwalk sv tc =
     with_fid (fc_fid tc) (\<lambda>a f s.
       do { (r, s) \<leftarrow> np_fid_find (fc_newfid tc) s;
            (case r of
               Some _ \<Rightarrow> fail Einuse EIO (Some a) s
             | None \<Rightarrow>
                 do { (r, s) \<leftarrow> np_fid_create (fc_newfid tc) None s;
                      (case r of
                         None \<Rightarrow> fail Ennomem ENOMEM (Some a) s
                       | Some b \<Rightarrow>
                           do { f \<leftarrow> c_fids s a;
                                s \<leftarrow> np_user_incref (f_user f) s;
                                s \<leftarrow> fid_set b (\<lambda>g. g\<lparr>f_user := f_user f\<rparr>) s;
                                s \<leftarrow> np_fid_incref (Some b) s;
                                (rc, s) \<leftarrow> sv_call sv (CallXattrwalk a b (fc_name tc)) s;
                                s \<leftarrow> (case rc of
                                        Some r \<Rightarrow>
                                          if fc_type r = Rxattrwalk
                                          then fid_set b (\<lambda>g. g\<lparr>f_type := Ftxattr\<rparr>) s
                                          else Some s
                                      | None \<Rightarrow> Some s);
                                s \<leftarrow> decref sv (Some b) s;
                                Some ((rc, Some a), s) }) }) })"

definition np_xattrcreate :: "'e npsrv \<Rightarrow> 'e handler" where
  "np_xattrcreate sv tc =
     with_fid (fc_fid tc) (\<lambda>a f s.
       if f_type f AND Ftxattr \<noteq> 0 then fail Ebadusefid EIO (Some a) s
       else
         do { (rc, s) \<leftarrow> sv_call sv (CallXattrcreate a (fc_name tc) (fc_asize tc) (fc_flags tc)) s;
              s \<leftarrow> (case rc of
                      Some r \<Rightarrow>
                        if fc_type r = Rxattrcreate
                        then fid_set a (\<lambda>f. f\<lparr>f_type := f_type f OR Ftxattr\<rparr>) s
                        else Some s
                    | None \<Rightarrow> Some s);
              Some ((rc, Some a), s) })"

definition np_readdir :: "'e npsrv \<Rightarrow> 'e handler" where
  "np_readdir sv tc =
     with_fid (fc_fid tc) (\<lambda>a f s.
       if too_large tc s then fail Etoolarge EIO (Some a) s
       else if f_omode f = Onotopen \<or> f_omode f AND 3 = 1 \<or> \<not> is_dir f
       then fail Ebadusefid EIO (Some a) s
       else reply sv (CallReaddir a (fc_offset tc) (fc_count tc)) (Some a) s)"

definition np_fsync :: "'e npsrv \<Rightarrow> 'e handler" where
  "np_fsync sv tc = with_fid (fc_fid tc) (\<lambda>a f. reply sv (CallFsync a) (Some a))"

definition np_flock :: "'e npsrv \<Rightarrow> 'e handler" where
  "np_flock sv tc =
     with_fid (fc_fid tc) (\<lambda>a f. reply sv (CallFlock a (fc_locktype tc) (fc_flags tc) (fc_offset tc)
       (fc_locklength tc) (fc_procid tc) (fc_clientid tc)) (Some a))"

definition np_getlock :: "'e npsrv \<Rightarrow> 'e handler" where
  "np_getlock sv tc =
     with_fid (fc_fid tc) (\<lambda>a f. reply sv (CallGetlock a (fc_locktype tc) (fc_offset tc)
       (fc_locklength tc) (fc_procid tc) (fc_clientid tc)) (Some a))"

text \<open>In \<open>np_link\<close> the request gets its fid only once \<open>dfid\<close> is known too.\<close>

definition np_link :: "'e npsrv \<Rightarrow> 'e handler" where
  "np_link sv tc =
     with_fid (fc_fid tc) (\<lambda>a f. with_other sv (fc_dfid tc) None (\<lambda>b g. in_dir g (Some a)
       (reply sv (CallLink b a (fc_name tc)) (Some a))))"

definition np_mkdir :: "'e npsrv \<Rightarrow> 'e handler" where
  "np_mkdir sv tc =
     with_fid (fc_fid tc) (\<lambda>a f. in_dir f (Some a)
       (reply sv (CallMkdir a (fc_name tc) (fc_perm tc) (fc_gid tc)) (Some a)))"

definition np_renameat :: "'e npsrv \<Rightarrow> 'e handler" where
  "np_renameat sv tc =
     with_fid (fc_fid tc) (\<lambda>a f. in_dir f (Some a)
       (with_other sv (fc_newfid tc) (Some a) (\<lambda>b g. in_dir g (Some a)
         (reply sv (CallRenameat a (fc_oname tc) b (fc_name tc)) (Some a)))))"

text \<open>In \<open>np_unlinkat\<close> the request gets its fid after the guards only.\<close>

definition np_unlinkat :: "'e npsrv \<Rightarrow> 'e handler" where
  "np_unlinkat sv tc =
     with_fid (fc_fid tc) (\<lambda>a f. in_dir f None (reply sv (CallUnlinkat a (fc_name tc)) (Some a)))"

lemmas [fcall_defs] = np_statfs_def np_lopen_def np_lcreate_def np_symlink_def np_mknod_def
  np_rename_def np_readlink_def np_getattr_def np_setattr_def np_xattrwalk_def np_xattrcreate_def
  np_readdir_def np_fsync_def np_flock_def np_getlock_def np_link_def np_mkdir_def np_renameat_def
  np_unlinkat_def

end
