(* ===== verification/Contract.thy ===== *)
theory Contract
  imports Fcall_L
begin

text \<open>
  What the library relies on of the code behind its function pointers, as two locales: \<open>user_pool\<close>
  for \<^verbatim>\<open>struct Npuserpool\<close> and \<open>file_server\<close> for \<^verbatim>\<open>struct Npsrv\<close> with its \<^verbatim>\<open>struct Npauth\<close>. The theory
  also has the rules for reasoning about handlers: \<open>runs m Q\<close> says that an operation returns (it is
  defined, no access through a dangling pointer happens) and that its result satisfies \<open>Q\<close>.
\<close>

subsection \<open>Operations that return\<close>

definition runs :: "'a option \<Rightarrow> ('a \<Rightarrow> bool) \<Rightarrow> bool" where
  "runs m Q \<longleftrightarrow> (\<exists>x. m = Some x \<and> Q x)"

named_theorems runs_intros "rules for operations that return"

lemma runs_Some [simp]: "runs (Some x) Q \<longleftrightarrow> Q x"
  by (simp add: runs_def)

lemma runs_None [simp]: "\<not> runs None Q"
  by (simp add: runs_def)

lemma runs_bind [simp]: "runs (Option.bind m f) Q \<longleftrightarrow> runs m (\<lambda>x. runs (f x) Q)"
  by (cases m) simp_all

lemma runs_mono: "runs m P \<Longrightarrow> (\<And>x. P x \<Longrightarrow> Q x) \<Longrightarrow> runs m Q"
  by (auto simp: runs_def)

lemma runs_case_prod: "(\<And>a b. x = (a, b) \<Longrightarrow> runs (f a b) Q) \<Longrightarrow> runs (case x of (a, b) \<Rightarrow> f a b) Q"
  by (cases x) simp

lemma runs_case_option:
  "(x = None \<Longrightarrow> runs n Q) \<Longrightarrow> (\<And>a. x = Some a \<Longrightarrow> runs (f a) Q) \<Longrightarrow>
    runs (case x of None \<Rightarrow> n | Some a \<Rightarrow> f a) Q"
  by (cases x) simp_all

lemma runs_if: "(b \<Longrightarrow> runs m Q) \<Longrightarrow> (\<not> b \<Longrightarrow> runs n Q) \<Longrightarrow> runs (if b then m else n) Q"
  by simp

lemma runs_then:
  "runs m (\<lambda>(x, s). P x s) \<Longrightarrow> (\<And>x s. P x s \<Longrightarrow> runs (k x s) Q) \<Longrightarrow> runs (m \<bind> (\<lambda>(x, s). k x s)) Q"
  by (auto simp: runs_def)

lemma runsD: "runs m Q \<Longrightarrow> m = Some x \<Longrightarrow> Q x"
  by (simp add: runs_def)

subsection \<open>What a callback may do\<close>

text \<open>
  Error texts are at most what \<^verbatim>\<open>np_werror\<close> keeps of them. \<open>cb_step\<close>: a callback stays within
  \<open>cb_frame\<close>, keeps error texts short, and does not make memory scarce where it was not.
\<close>

definition ename_ok :: "'e conn \<Rightarrow> bool" where
  "ename_ok s \<longleftrightarrow> (case c_ename s of None \<Rightarrow> True | Some e \<Rightarrow> length e < 1024)"

definition cb_step :: "'e conn \<Rightarrow> 'e conn \<Rightarrow> bool" where
  "cb_step s s' \<longleftrightarrow>
     cb_frame s s' \<and> (ename_ok s \<longrightarrow> ename_ok s') \<and> (c_mal s = [] \<longrightarrow> c_mal s' = [])"

text \<open>
  \<open>users_kept\<close>: what the library itself does to users. It changes reference counts only, and
  leaves a positive count positive.
\<close>

definition user_kept :: "Npuser \<Rightarrow> Npuser \<Rightarrow> bool" where
  "user_kept u u' \<longleftrightarrow>
     u' = u\<lparr>u_refcount := u_refcount u'\<rparr> \<and> (1 \<le> u_refcount u \<longrightarrow> 1 \<le> u_refcount u')"

definition users_kept :: "'e conn \<Rightarrow> 'e conn \<Rightarrow> bool" where
  "users_kept s s' \<longleftrightarrow>
     (\<forall>a. rel_option user_kept (c_users s a) (c_users s' a)) \<and> c_groups s' = c_groups s \<and>
     c_upool s' = c_upool s \<and> c_gpool s' = c_gpool s \<and> c_env s' = c_env s"

text \<open>\<open>gained\<close>: the caller got a reference on \<open>u\<close>, beside the pool's own.\<close>

definition gained :: "'e conn \<Rightarrow> 'e conn \<Rightarrow> addr \<Rightarrow> bool" where
  "gained s s' u \<longleftrightarrow>
     (\<exists>r'. c_users s' u = Some r' \<and> 2 \<le> u_refcount r' \<and>
        (\<forall>r. c_users s u = Some r \<longrightarrow> u_refcount r < u_refcount r'))"

locale user_pool =
  fixes uok :: "'e conn \<Rightarrow> bool"
    and uname2user :: "cstring \<Rightarrow> (ptr, 'e) act"
    and uid2user :: "u32 \<Rightarrow> (ptr, 'e) act"
  assumes uok_kept: "uok s \<Longrightarrow> users_kept s s' \<Longrightarrow> uok s'"
    and uname2user_law: "uok s \<Longrightarrow> runs (uname2user n s)
      (\<lambda>(u, s'). cb_step s s' \<and> uok s' \<and> (\<forall>a. u = Some a \<longrightarrow> gained s s' a))"
    and uid2user_law: "uok s \<Longrightarrow> runs (uid2user i s)
      (\<lambda>(u, s'). cb_step s s' \<and> uok s' \<and> (\<forall>a. u = Some a \<longrightarrow> gained s s' a))"

text \<open>The fids a call of the server names.\<close>

fun call_fids :: "srvcall \<Rightarrow> addr set" where
  "call_fids (CallAttach a af _ _) = insert a (set_option af)"
| "call_fids (CallRename a b _) = {a, b}"
| "call_fids (CallXattrwalk a b _) = {a, b}"
| "call_fids (CallLink a b _) = {a, b}"
| "call_fids (CallRenameat a _ b _) = {a, b}"
| "call_fids (CallOpen a _) = {a}"
| "call_fids (CallCreate a _ _ _ _) = {a}"
| "call_fids (CallRead a _ _) = {a}"
| "call_fids (CallWrite a _ _ _) = {a}"
| "call_fids (CallClunk a) = {a}"
| "call_fids (CallRemove a) = {a}"
| "call_fids (CallStat a) = {a}"
| "call_fids (CallWstat a _) = {a}"
| "call_fids (CallStatfs a) = {a}"
| "call_fids (CallLopen a _) = {a}"
| "call_fids (CallLcreate a _ _ _ _) = {a}"
| "call_fids (CallSymlink a _ _ _) = {a}"
| "call_fids (CallMknod a _ _ _ _ _) = {a}"
| "call_fids (CallReadlink a) = {a}"
| "call_fids (CallGetattr a _) = {a}"
| "call_fids (CallSetattr a _) = {a}"
| "call_fids (CallXattrcreate a _ _ _) = {a}"
| "call_fids (CallXattrread a _ _) = {a}"
| "call_fids (CallXattrwrite a _ _ _) = {a}"
| "call_fids (CallReaddir a _ _) = {a}"
| "call_fids (CallFsync a) = {a}"
| "call_fids (CallFlock a _ _ _ _ _ _) = {a}"
| "call_fids (CallGetlock a _ _ _ _ _) = {a}"
| "call_fids (CallMkdir a _ _ _) = {a}"
| "call_fids (CallUnlinkat a _) = {a}"

text \<open>A reply the library can put its tag into.\<close>

definition reply_ok :: "Npfcall option \<Rightarrow> bool" where
  "reply_ok rc \<longleftrightarrow> (\<forall>r. rc = Some r \<longrightarrow> 7 \<le> length (fc_pkt r))"

text \<open>
  The laws of a file server: every operation returns when the fids it gets are allocated, and
  is a \<open>cb_step\<close>. An authentication server that starts an authentication gives a qid of
  type Qtauth, returns at most the bytes asked for, and has a \<open>clunk\<close>.
\<close>

locale file_server = user_pool uok "sv_uname2user sv" "sv_uid2user sv"
  for uok :: "'e conn \<Rightarrow> bool" and sv :: "'e npsrv" +
  assumes call_law: "uok s \<Longrightarrow> (\<And>a. a \<in> call_fids call \<Longrightarrow> c_fids s a \<noteq> None) \<Longrightarrow>
      runs (sv_call sv call s) (\<lambda>(rc, s'). cb_step s s' \<and> uok s' \<and> reply_ok rc)"
    and clone_law: "uok s \<Longrightarrow> c_fids s a \<noteq> None \<Longrightarrow> c_fids s b \<noteq> None \<Longrightarrow>
      runs (sv_clone sv a b s) (\<lambda>(ok, s'). cb_step s s' \<and> uok s')"
    and walk_law: "uok s \<Longrightarrow> c_fids s a \<noteq> None \<Longrightarrow>
      runs (sv_walk sv a n s) (\<lambda>(r, s'). cb_step s s' \<and> uok s')"
    and fiddestroy_law: "sv_fiddestroy sv = Some d \<Longrightarrow> uok s \<Longrightarrow> c_fids s a \<noteq> None \<Longrightarrow>
      runs (d a s) (\<lambda>s'. cb_step s s' \<and> uok s')"
    and startauth_law: "sv_auth sv = Some au \<Longrightarrow> au_startauth au = Some f \<Longrightarrow> uok s \<Longrightarrow> c_fids s a \<noteq> None \<Longrightarrow>
      runs (f a an s) (\<lambda>((n, q), s'). cb_step s s' \<and> uok s' \<and> (n \<noteq> 0 \<longrightarrow> q_type q AND 0x08 \<noteq> 0))"
    and checkauth_law: "sv_auth sv = Some au \<Longrightarrow> au_checkauth au = Some g \<Longrightarrow> uok s \<Longrightarrow> c_fids s a \<noteq> None \<Longrightarrow>
      (\<And>b. af = Some b \<Longrightarrow> c_fids s b \<noteq> None) \<Longrightarrow>
      runs (g a af an s) (\<lambda>(n, s'). cb_step s s' \<and> uok s')"
    and auth_read_law: "sv_auth sv = Some au \<Longrightarrow> uok s \<Longrightarrow> c_fids s a \<noteq> None \<Longrightarrow>
      runs (au_read au a off cnt s) (\<lambda>((n, bs), s'). cb_step s s' \<and> uok s' \<and>
        (0 \<le> n \<longrightarrow> nat n = length bs \<and> length bs \<le> unat cnt))"
    and auth_write_law: "sv_auth sv = Some au \<Longrightarrow> uok s \<Longrightarrow> c_fids s a \<noteq> None \<Longrightarrow>
      runs (au_write au a off cnt bytes s) (\<lambda>(n, s'). cb_step s s' \<and> uok s')"
    and auth_clunk_law: "sv_auth sv = Some au \<Longrightarrow> uok s \<Longrightarrow> c_fids s a \<noteq> None \<Longrightarrow>
      \<exists>cl. au_clunk au = Some cl \<and> runs (cl a s) (\<lambda>(n, s'). cb_step s s' \<and> uok s')"

end
