(* ===== verification/Fcall_Safe.thy ===== *)
theory Fcall_Safe
  imports Contract
begin

text \<open>
  The state invariant of a connection and its rules. The invariant says that the fid pool is
  consistent, that every fid has at least the references a lower bound \<open>L\<close> gives it, that the fids
  in \<open>D\<close> are allocated, and that every user has more references than there are fids that belong
  to it. There is one rule for each operation the handlers are made of.
\<close>

subsection \<open>The invariant\<close>

definition fid_users :: "'e conn \<Rightarrow> addr \<Rightarrow> addr set" where
  "fid_users s u = {a. \<exists>f. c_fids s a = Some f \<and> f_user f = Some u}"

definition users_ok :: "'e conn \<Rightarrow> bool" where
  "users_ok s \<longleftrightarrow>
     (\<forall>u. fid_users s u \<noteq> {} \<longrightarrow>
        (\<exists>r. c_users s u = Some r \<and> int (card (fid_users s u)) < u_refcount r))"

definition sinv :: "('e conn \<Rightarrow> bool) \<Rightarrow> bool \<Rightarrow> (addr \<Rightarrow> int) \<Rightarrow> addr set \<Rightarrow> 'e conn \<Rightarrow> bool" where
  "sinv uok M L D s \<longleftrightarrow>
     uok s \<and> pool_ok s \<and> users_ok s \<and> (\<forall>a f. c_fids s a = Some f \<longrightarrow> L a \<le> f_refcount f) \<and>
     D \<subseteq> dom (c_fids s) \<and> ename_ok s \<and> (M \<longrightarrow> c_mal s = [])"

lemma sinvD:
  assumes "sinv uok M L D s"
  shows "uok s" "pool_ok s" "users_ok s" "c_fids s a = Some f \<Longrightarrow> L a \<le> f_refcount f"
    "a \<in> D \<Longrightarrow> c_fids s a \<noteq> None" "ename_ok s" "M \<Longrightarrow> c_mal s = []"
  using assms by (auto simp: sinv_def)

lemma sinv_weaken: "sinv uok M L D s \<Longrightarrow> (\<And>a. L' a \<le> L a) \<Longrightarrow> D' \<subseteq> D \<Longrightarrow> sinv uok M L' D' s"
  unfolding sinv_def by (meson order.trans)

lemma sinv_live: "sinv uok M L D s \<Longrightarrow> a \<in> D \<Longrightarrow> \<exists>f. c_fids s a = Some f \<and> L a \<le> f_refcount f"
  by (auto simp: sinv_def)

lemma finite_fids: "pool_ok s \<Longrightarrow> finite (dom (c_fids s))"
proof -
  assume "pool_ok s"
  then have "dom (c_fids s) \<subseteq> {..<c_brk s}" 
    by (metis domIff lessThan_iff not_le pool_ok_brk subsetI)
  then show ?thesis by (rule finite_subset) simp
qed

lemma finite_fid_users_dom: "finite (dom (c_fids s)) \<Longrightarrow> finite (fid_users s u)"
  by (erule finite_subset [rotated]) (auto simp: fid_users_def)

lemmas finite_fid_users = finite_fid_users_dom [OF finite_fids]

lemma fid_users_view: "fid_users s u = {a. \<exists>f. fid_view s a = Some f \<and> f_user f = Some u}"
  by (auto simp: fid_users_def fid_view_def fid_core_def)

text \<open>Two states with the same fids up to the links, and the same users.\<close>

lemma users_okI:
  assumes "users_ok s" "\<And>u. fid_users s' u \<subseteq> fid_users s u" "finite (dom (c_fids s))"
    "\<And>u r. c_users s u = Some r \<Longrightarrow> \<exists>r'. c_users s' u = Some r' \<and> u_refcount r \<le> u_refcount r'"
  shows "users_ok s'"
  unfolding users_ok_def
proof (intro allI impI)
  fix u assume "fid_users s' u \<noteq> {}"
  then obtain r where r: "c_users s u = Some r" "int (card (fid_users s u)) < u_refcount r"
    using assms(1,2) unfolding users_ok_def by blast
  moreover obtain r' where "c_users s' u = Some r'" "u_refcount r \<le> u_refcount r'"
    using assms(4) [OF r(1)] by blast
  moreover have "card (fid_users s' u) \<le> card (fid_users s u)"
    by (intro card_mono finite_fid_users_dom assms)
  ultimately show "\<exists>r. c_users s' u = Some r \<and> int (card (fid_users s' u)) < u_refcount r"
    by (intro exI [of _ r']) linarith
qed

lemma users_kept_refl [simp]: "users_kept s s"
  by (simp add: users_kept_def option.rel_refl user_kept_def)

lemma users_keptI:
  "c_users s' = c_users s \<Longrightarrow> c_groups s' = c_groups s \<Longrightarrow> c_upool s' = c_upool s \<Longrightarrow>
    c_gpool s' = c_gpool s \<Longrightarrow> c_env s' = c_env s \<Longrightarrow> users_kept s s'"
  by (simp add: users_kept_def option.rel_refl user_kept_def)

lemma users_kept_rest: "same_rest s s' \<Longrightarrow> users_kept s s'"
  by (rule users_keptI) (auto dest: same_restD)

lemma fid_core_sel [simp]:
  "f_fid (fid_core f) = f_fid f" "f_refcount (fid_core f) = f_refcount f"
  "f_omode (fid_core f) = f_omode f" "f_type (fid_core f) = f_type f"
  "f_diroffset (fid_core f) = f_diroffset f" "f_user (fid_core f) = f_user f"
  by (simp_all add: fid_core_def)

text \<open>Equal views: the fid has the same fields but for the links.\<close>

lemma view_core:
  assumes "fid_view s' a = fid_view s a" "c_fids s' a = Some f"
  obtains g where "c_fids s a = Some g" "fid_core g = fid_core f"
proof -
  have "map_option fid_core (c_fids s a) = Some (fid_core f)" using assms by (simp add: fid_view_def)
  with that show thesis by auto
qed

lemma view_refcount:
  assumes "fid_view s' a = fid_view s a" "c_fids s' a = Some f"
  shows "\<exists>g. c_fids s a = Some g \<and> f_refcount g = f_refcount f"
  by (rule view_core [OF assms]) (metis fid_core_sel(2))

lemma sinvI:
  assumes "sinv uok M L D s" "pool_ok s'" "uok s'" "ename_ok s'" "M \<longrightarrow> c_mal s' = []"
    and "\<And>u r. c_users s u = Some r \<Longrightarrow> \<exists>r'. c_users s' u = Some r' \<and> u_refcount r \<le> u_refcount r'"
    and "\<And>a g. fid_view s' a = Some g \<Longrightarrow> L' a \<le> f_refcount g"
    and "\<And>a g. fid_view s' a = Some g \<Longrightarrow> f_user g \<noteq> None \<Longrightarrow> \<exists>f. fid_view s a = Some f \<and> f_user f = f_user g"
    and "\<And>a. a \<in> D' \<Longrightarrow> fid_view s' a \<noteq> None"
  shows "sinv uok M L' D' s'"
proof -
  have "users_ok s'"
  proof (rule users_okI [OF sinvD(3) [OF assms(1)] _ finite_fids [OF sinvD(2) [OF assms(1)]]])
    show "fid_users s' u \<subseteq> fid_users s u" for u
      using assms(8) by (fastforce simp: fid_users_view)
  qed (use assms(6) in blast)
  moreover have "L' a \<le> f_refcount f" if "c_fids s' a = Some f" for a f
    using assms(7) [of a "fid_core f"] that by (simp add: fid_view_def)
  moreover have "D' \<subseteq> dom (c_fids s')" using assms(9) by (auto simp: fid_view_def)
  ultimately show ?thesis using assms(2-5) by (simp add: sinv_def)
qed

lemma sinv_view:
  assumes "sinv uok M L D s" "pool_ok s'" "fid_view s' = fid_view s" "same_rest s s'" "uok s'"
  shows "sinv uok M L D s'"
proof -
  have "users_ok s'"
    by (rule users_okI [OF sinvD(3) [OF assms(1)] _ finite_fids [OF sinvD(2) [OF assms(1)]]])
      (use assms(3,4) in \<open>auto simp: fid_users_view dest: same_restD(2)\<close>)
  moreover have "\<exists>g. c_fids s a = Some g \<and> f_refcount g = f_refcount f" if "c_fids s' a = Some f" for a f
    using view_refcount [OF fun_cong [OF assms(3), of a]] that by blast
  moreover have "dom (c_fids s') = dom (c_fids s)"
    using arg_cong [OF assms(3), of dom] by (auto simp: fid_view_def dom_def)
  ultimately show ?thesis
    using assms same_restD [OF assms(4)] unfolding sinv_def ename_ok_def by metis
qed

text \<open>After a callback.\<close>

lemma fids_grow_dom: "fids_grow h h' \<Longrightarrow> dom h' = dom h"
  by (auto simp: dom_def fids_grow_None)

lemma fids_grow_old: "fids_grow h h' \<Longrightarrow> h' a = Some f \<Longrightarrow> \<exists>g. h a = Some g \<and> fid_grow g f"
  unfolding fids_grow_def by (metis option_rel_Some2)

lemma fid_users_cb: "cb_frame s s' \<Longrightarrow> fid_users s' u = fid_users s u"
proof -
  assume "cb_frame s s'"
  then have g: "fids_grow (c_fids s) (c_fids s')" by (simp add: cb_frame_def)
  show ?thesis
    unfolding fid_users_def using fids_growD [OF g] fids_grow_old [OF g] fid_grow_sel(2) by (auto; fastforce)
qed

lemma sinv_cb:
  assumes "sinv uok M L D s" "cb_step s s'" "uok s'"
  shows "sinv uok M L D s'"
proof -
  have fr: "fids_grow (c_fids s) (c_fids s')" "users_grow (c_users s) (c_users s')"
    using assms(2) by (simp_all add: cb_step_def cb_frame_def)
  note old = fids_grow_old [OF fr(1)]
  have "users_ok s'"
  proof (rule users_okI [OF sinvD(3) [OF assms(1)] _ finite_fids [OF sinvD(2) [OF assms(1)]]])
    show "fid_users s' u \<subseteq> fid_users s u" for u
      using assms(2) by (simp add: cb_step_def fid_users_cb [of s s' u])
  qed (use fr(2) in \<open>auto simp: users_grow_def\<close>)
  moreover have "pool_ok s'"
    using pool_ok_grow [OF sinvD(2) [OF assms(1)] fr(1)] assms(2) by (simp add: cb_step_def cb_frame_def)
  moreover have "L a \<le> f_refcount f" if "c_fids s' a = Some f" for a f
    using old [OF that] sinvD(4) [OF assms(1)] fid_grow_sel(5) by fastforce
  ultimately show ?thesis
    using assms fids_grow_dom [OF fr(1)] by (auto simp: sinv_def cb_step_def)
qed

text \<open>An update of one fid that leaves its number and its links alone, and does not change its user.\<close>

lemma sinv_upd:
  assumes "sinv uok M L D s" "c_fids s a = Some f" "same_links f f'" "f_user f' = f_user f"
    "L' a \<le> f_refcount f'" "\<And>b. b \<noteq> a \<Longrightarrow> L' b \<le> L b" "uok (s\<lparr>c_fids := (c_fids s)(a \<mapsto> f')\<rparr>)"
  shows "sinv uok M L' D (s\<lparr>c_fids := (c_fids s)(a \<mapsto> f')\<rparr>)"
proof -
  let ?s = "s\<lparr>c_fids := (c_fids s)(a \<mapsto> f')\<rparr>"
  have "pool_ok ?s"
    using pool_ok_linked [OF sinvD(2) [OF assms(1)], of ?s] fids_linked_upd [of "c_fids s" a f f'] assms(2,3)
    by simp
  moreover have "users_ok ?s"
    by (rule users_okI [OF sinvD(3) [OF assms(1)] _ finite_fids [OF sinvD(2) [OF assms(1)]]])
      (use assms(2,4) in \<open>auto simp: fid_users_def split: if_splits\<close>)
  moreover have "L' b \<le> f_refcount g" if "c_fids ?s b = Some g" for b g
    using that sinvD(4) [OF assms(1), of b] assms(5) assms(6) [of b] by (fastforce split: if_splits)
  ultimately show ?thesis
    using assms(1,2,7) by (auto simp: sinv_def ename_ok_def)
qed


subsection \<open>Rules of the fid operations\<close>

text \<open>The fields of the fids that a handler's guards look at.\<close>

definition fid_facts :: "Npfid \<Rightarrow> u32 \<times> u16 \<times> u16 \<times> u32 \<times> ptr" where
  "fid_facts f = (f_fid f, f_omode f, f_type f, f_diroffset f, f_user f)"

definition facts :: "'e conn \<Rightarrow> addr \<Rightarrow> (u32 \<times> u16 \<times> u16 \<times> u32 \<times> ptr) option" where
  "facts s = (\<lambda>a. map_option fid_facts (c_fids s a))"

lemma facts_eq: "facts s a = map_option fid_facts (fid_view s a)"
  by (cases "c_fids s a") (simp_all add: facts_def fid_view_def fid_facts_def)

lemma facts_view: "fid_view s' = fid_view s \<Longrightarrow> facts s' = facts s"
  by (simp add: fun_eq_iff facts_eq)

lemma facts_Some: "facts s' = facts s \<Longrightarrow> c_fids s' a = Some f \<Longrightarrow>
  \<exists>g. c_fids s a = Some g \<and> fid_facts g = fid_facts f"
proof -
  assume v: "facts s' = facts s" and f: "c_fids s' a = Some f"
  have "map_option fid_facts (c_fids s a) = Some (fid_facts f)"
    using fun_cong [OF v, of a] f by (simp add: facts_def)
  then show ?thesis by auto
qed

definition spare :: "'e conn \<Rightarrow> addr \<Rightarrow> bool" where
  "spare s u \<longleftrightarrow> (\<exists>r. c_users s u = Some r \<and> int (card (fid_users s u)) + 1 < u_refcount r)"

context user_pool
begin

lemma find_rule:
  assumes "sinv uok M L D s"
  shows "runs (np_fid_find fid s) (\<lambda>(r, s'). sinv uok M L (D \<union> set_option r) s' \<and>
    fid_view s' = fid_view s \<and> same_rest s s' \<and> (\<forall>a. r = Some a \<longleftrightarrow> holds s fid a))"
proof -
  obtain r s' where f: "np_fid_find fid s = Some (r, s')" "pool_ok s'" "fid_view s' = fid_view s"
      "same_rest s s'" "\<forall>a. r = Some a \<longleftrightarrow> holds s fid a"
    using find_spec [OF sinvD(2) [OF assms]] by blast
  have "sinv uok M L D s'"
    using sinv_view [OF assms f(2-4) uok_kept [OF sinvD(1) [OF assms] users_kept_rest [OF f(4)]]] .
  moreover have "c_fids s' a \<noteq> None" if "r = Some a" for a
    using that f(3,5) fid_view_dom [of s' a] by (auto simp: holds_view)
  ultimately show ?thesis using f by (auto simp: sinv_def)
qed

lemma upd_rule:
  assumes "sinv uok M L D s" "a \<in> D" "\<And>f. same_links f (g f)" "\<And>f. f_user (g f) = f_user f"
    "\<And>f. f_refcount (g f) = f_refcount f"
  shows "runs (fid_set a g s) (\<lambda>s'. sinv uok M L D s' \<and> c_users s' = c_users s)"
proof -
  obtain f where f: "c_fids s a = Some f" "L a \<le> f_refcount f" using sinv_live [OF assms(1,2)] by blast
  have "sinv uok M L D (s\<lparr>c_fids := (c_fids s)(a \<mapsto> g f)\<rparr>)"
    by (rule sinv_upd [OF assms(1) f(1)])
      (use assms f(2) uok_kept [OF sinvD(1) [OF assms(1)] users_keptI] in simp_all)
  then show ?thesis by (simp add: fid_set_def heap_upd_def f(1))
qed

lemma incref_rule:
  assumes "sinv uok M L D s" "a \<in> D"
  shows "runs (np_fid_incref (Some a) s) (\<lambda>s'. sinv uok M (L(a := L a + 1)) D s' \<and> same_rest s s' \<and>
    facts s' = facts s)"
proof -
  obtain f where f: "c_fids s a = Some f" "L a \<le> f_refcount f" using sinv_live [OF assms(1,2)] by blast
  have "sinv uok M (L(a := L a + 1)) D (s\<lparr>c_fids := (c_fids s)(a \<mapsto> f\<lparr>f_refcount := f_refcount f + 1\<rparr>)\<rparr>)"
    by (rule sinv_upd [OF assms(1) f(1)])
      (use assms f(2) uok_kept [OF sinvD(1) [OF assms(1)] users_keptI] in \<open>simp_all add: same_links_def\<close>)
  then show ?thesis
    by (auto simp: np_fid_incref_def heap_upd_def f(1) facts_def fid_facts_def)
qed

lemma malloc_rule:
  assumes "sinv uok M L D s" "np_malloc s = (m, s')"
  shows "sinv uok M L D s'" "c_fids s' = c_fids s" "c_users s' = c_users s" "users_kept s s'"
proof -
  have k: "users_kept s s'" "ename_ok s'" "M \<longrightarrow> c_mal s' = []" "c_users s' = c_users s"
    using assms(2) sinvD(6,7) [OF assms(1)]
    by (auto simp: np_malloc_def take_mal_def np_werror_def ename_ok_def Ennomem_def cstr_def
        intro!: users_keptI split: list.splits option.splits)
  note keep = np_malloc_keeps [OF assms(2)]
  show "sinv uok M L D s'"
    by (rule sinvI [OF assms(1) _ uok_kept [OF sinvD(1) [OF assms(1)] k(1)] k(2,3)])
      (use sinvD(2,4,5) [OF assms(1)] pool_ok_cong [OF keep] keep(1) k(4) in \<open>auto simp: fid_view_def\<close>)
  show "c_fids s' = c_fids s" "c_users s' = c_users s" "users_kept s s'" using keep k by auto
qed

lemma create_rule:
  assumes "sinv uok M L D s" "\<And>a. \<not> holds s fid a"
  shows "runs (np_fid_create fid aux s) (\<lambda>(r, s').
    (case r of
       None \<Rightarrow> sinv uok M L D s'
     | Some b \<Rightarrow> c_fids s b = None \<and> sinv uok M (L(b := 0)) (insert b D) s' \<and> holds s' fid b))"
proof -
  obtain m s1 where m: "np_malloc s = (m, s1)" by fastforce
  note mal = malloc_rule [OF assms(1) m]
  note spec = create_spec [OF sinvD(2) [OF assms(1)] assms(2), of aux, unfolded m]
  show ?thesis
  proof (cases m)
    case None
    then obtain s' where s': "np_fid_create fid aux s = Some (None, s')" "pool_ok s'"
        "fid_view s' = fid_view s" "same_rest s1 s'"
      using spec by auto
    have "sinv uok M L D s'"
      by (rule sinv_view [OF mal(1) s'(2) _ s'(4) uok_kept [OF sinvD(1) [OF mal(1)] users_kept_rest [OF s'(4)]]])
        (simp add: s'(3) fid_view_def mal(2) fun_eq_iff)
    then show ?thesis by (simp add: s'(1))
  next
    case (Some x)
    then obtain s' where s': "np_fid_create fid aux s = Some (Some (c_brk s), s')" "pool_ok s'"
        "fid_view s' = (fid_view s)(c_brk s \<mapsto> new_fid fid aux)" "same_rest (s1\<lparr>c_brk := c_brk s + 1\<rparr>) s'"
      using spec by auto
    note rest = same_restD [OF s'(4)]
    have "users_kept s1 s'" using rest by (intro users_keptI) simp_all
    note uok = uok_kept [OF sinvD(1) [OF mal(1)] this]
    have new: "c_fids s (c_brk s) = None" using pool_ok_brk [OF sinvD(2) [OF assms(1)]] by simp
    have "sinv uok M (L(c_brk s := 0)) (insert (c_brk s) D) s'"
      by (rule sinvI [OF assms(1) s'(2) uok])
        (use sinvD(6,7) [OF mal(1)] rest mal(3) sinvD(5) [OF assms(1)] sinvD(4) [OF assms(1)] in
          \<open>auto simp: s'(3) ename_ok_def new_fid_def fid_view_def split: if_splits\<close>)
    then show ?thesis using s'(1,3) new by (auto simp: holds_view new_fid_def)
  qed
qed

lemma werror_rule:
  "sinv uok M L D s \<Longrightarrow> length (cs_of e) < 1024 \<Longrightarrow> sinv uok M L D (np_werror e c s)"
  by (rule sinvI [of uok M L D s])
    (use uok_kept [of s "np_werror e c s"] pool_ok_cong [of "np_werror e c s" s] in
      \<open>auto simp: sinv_def np_werror_def ename_ok_def fid_view_def users_keptI split: option.splits\<close>)

lemma build_rule:
  assumes "sinv uok M L D s" "\<And>m. mk (Some m) \<noteq> Inl CUndef" "mk None \<noteq> Inl CUndef"
    "\<And>m fc. mk m = Inr fc \<Longrightarrow> P fc"
  shows "runs (build mk s) (\<lambda>(rc, s'). sinv uok M L D s' \<and> users_kept s s' \<and> (\<forall>r. rc = Some r \<longrightarrow> P r))"
proof -
  obtain m s' where m: "np_malloc s = (m, s')" by fastforce
  have "mk m \<noteq> Inl CUndef" using assms(2,3) by (cases m) auto
  then show ?thesis
    using malloc_rule [OF assms(1) m] assms(4)
    by (auto simp: build_def m split: sum.splits cerr.splits)
qed

text \<open>Users: a reference for a fid that is about to get the user, and the fid getting it.\<close>

lemma gained_spare:
  assumes "users_ok s" "cb_step s s'" "gained s s' u"
  shows "spare s' u"
proof -
  have "fid_users s' u = fid_users s u"
    using assms(2) by (simp add: cb_step_def fid_users_cb [of s s' u])
  moreover obtain r' where "c_users s' u = Some r'" "2 \<le> u_refcount r'"
      "\<forall>r. c_users s u = Some r \<longrightarrow> u_refcount r < u_refcount r'"
    using assms(3) by (auto simp: gained_def)
  ultimately show ?thesis
    using assms(1) unfolding spare_def users_ok_def by (cases "fid_users s u = {}") fastforce+
qed

lemma user_incref_rule:
  assumes "sinv uok M L D s" "c_fids s a = Some f"
  shows "runs (np_user_incref (f_user f) s) (\<lambda>s'. sinv uok M L D s' \<and> c_fids s' = c_fids s \<and>
    (\<forall>u. f_user f = Some u \<longrightarrow> spare s' u))"
proof (cases "f_user f")
  case None
  then show ?thesis using assms by (simp add: np_user_incref_def)
next
  case (Some u)
  then have "a \<in> fid_users s u" using assms(2) by (simp add: fid_users_def)
  then obtain r where r: "c_users s u = Some r" "int (card (fid_users s u)) < u_refcount r"
    using sinvD(3) [OF assms(1)] unfolding users_ok_def by blast
  let ?s = "s\<lparr>c_users := (c_users s)(u \<mapsto> r\<lparr>u_refcount := u_refcount r + 1\<rparr>)\<rparr>"
  have "users_kept s ?s" by (auto simp: users_kept_def user_kept_def option.rel_refl r(1))
  note uok = uok_kept [OF sinvD(1) [OF assms(1)] this]
  have "sinv uok M L D ?s"
    by (rule sinvI [OF assms(1) _ uok])
      (use sinvD(2,4-7) [OF assms(1)] pool_ok_cong [of ?s s] r(1) in \<open>auto simp: fid_view_def ename_ok_def\<close>)
  moreover have "spare ?s u" using r(2) by (simp add: spare_def fid_users_def)
  ultimately show ?thesis by (simp add: np_user_incref_def heap_upd_def r(1) Some)
qed

lemma set_user_rule:
  assumes "sinv uok M L D s" "b \<in> D" "\<And>u. x = Some u \<Longrightarrow> spare s u"
    "\<And>f. same_links f (g f)" "\<And>f. f_user (g f) = x" "\<And>f. f_refcount (g f) = f_refcount f"
  shows "runs (fid_set b g s) (\<lambda>s'. sinv uok M L D s' \<and> c_users s' = c_users s)"
proof -
  obtain f where f: "c_fids s b = Some f" "L b \<le> f_refcount f" using sinv_live [OF assms(1,2)] by blast
  let ?s = "s\<lparr>c_fids := (c_fids s)(b \<mapsto> g f)\<rparr>"
  have "pool_ok ?s"
    using pool_ok_linked [OF sinvD(2) [OF assms(1)], of ?s] fids_linked_upd [of "c_fids s" b f "g f"] f(1) assms(4) by simp
  moreover have "users_ok ?s"
    unfolding users_ok_def
  proof (intro allI impI)
    fix u assume ne: "fid_users ?s u \<noteq> {}"
    show "\<exists>r. c_users ?s u = Some r \<and> int (card (fid_users ?s u)) < u_refcount r"
    proof (cases "x = Some u")
      case True
      then obtain r where r: "c_users s u = Some r" "int (card (fid_users s u)) + 1 < u_refcount r"
        using assms(3) by (auto simp: spare_def)
      have "fid_users ?s u \<subseteq> insert b (fid_users s u)" by (auto simp: fid_users_def)
      then have "card (fid_users ?s u) \<le> card (insert b (fid_users s u))"
        by (intro card_mono) (simp_all add: finite_fid_users sinvD(2) [OF assms(1)])
      also have "\<dots> \<le> Suc (card (fid_users s u))" by (rule card_insert_le_m1) simp_all
      finally show ?thesis using r by simp
    next
      case False
      then have sub: "fid_users ?s u \<subseteq> fid_users s u" using assms(5) by (auto simp: fid_users_def split: if_splits)
      then have "card (fid_users ?s u) \<le> card (fid_users s u)"
        by (intro card_mono finite_fid_users sinvD(2) [OF assms(1)])
      moreover obtain r where "c_users s u = Some r" "int (card (fid_users s u)) < u_refcount r"
        using sinvD(3) [OF assms(1)] ne sub unfolding users_ok_def by blast
      ultimately show ?thesis by simp
    qed
  qed
  moreover have "uok ?s" using uok_kept [OF sinvD(1) [OF assms(1)] users_keptI] by simp
  ultimately have "sinv uok M L D ?s"
    using assms(1,2,6) f by (auto simp: sinv_def ename_ok_def)
  then show ?thesis by (simp add: fid_set_def heap_upd_def f(1))
qed

end

subsection \<open>Dropping a reference\<close>

lemma drop_user_kept:
  assumes "user_alive s u"
  shows "users_kept s (s\<lparr>c_users := drop_user u (c_users s), c_fids := h\<rparr>)"
  using assms
  by (auto simp: users_kept_def drop_user_def user_kept_def user_alive_def option.rel_refl split: option.splits)

text \<open>The fid and one reference on its user go together.\<close>

lemma users_ok_drop:
  assumes "users_ok s" "finite (dom (c_fids s))" "c_fids s a = Some f"
  shows "users_ok (s\<lparr>c_users := drop_user (f_user f) (c_users s), c_fids := (c_fids s)(a := None)\<rparr>)"
    (is "users_ok ?s")
  unfolding users_ok_def
proof (intro allI impI)
  fix u assume ne: "fid_users ?s u \<noteq> {}"
  have eq: "fid_users ?s u = fid_users s u - {a}" by (auto simp: fid_users_def)
  then obtain r where r: "c_users s u = Some r" "int (card (fid_users s u)) < u_refcount r"
    using assms(1) ne unfolding users_ok_def by blast
  note fin = finite_fid_users_dom [OF assms(2), of u]
  show "\<exists>r. c_users ?s u = Some r \<and> int (card (fid_users ?s u)) < u_refcount r"
  proof (cases "f_user f = Some u")
    case True
    then have "a \<in> fid_users s u" using assms(3) by (simp add: fid_users_def)
    then have "Suc (card (fid_users ?s u)) = card (fid_users s u)"
      unfolding eq using card_Suc_Diff1 [OF fin] by simp
    then show ?thesis using r True by (simp add: drop_user_def)
  next
    case False
    have "card (fid_users ?s u) \<le> card (fid_users s u)" unfolding eq by (rule card_mono [OF fin]) blast
    then show ?thesis using r False by (auto simp: drop_user_def split: option.splits)
  qed
qed

lemma user_alive_fid:
  assumes "users_ok s" "finite (dom (c_fids s))" "c_fids s a = Some f"
  shows "user_alive s (f_user f)"
  unfolding user_alive_def
proof (intro allI impI)
  fix u assume "f_user f = Some u"
  then have "a \<in> fid_users s u" using assms(3) by (simp add: fid_users_def)
  then have "0 < card (fid_users s u)" "fid_users s u \<noteq> {}"
    using card_gt_0_iff finite_fid_users_dom [OF assms(2)] by blast+
  then show "\<exists>r. c_users s u = Some r \<and> 1 < u_refcount r"
    using assms(1) unfolding users_ok_def by fastforce
qed

context file_server
begin

lemma destroy_cb_rule:
  assumes "uok s" "c_fids s a \<noteq> None"
  shows "runs (destroy_cb sv a f s) (\<lambda>s'. cb_step s s' \<and> uok s')"
proof -
  have refl: "cb_step s s" by (auto simp: cb_step_def cb_frame_def users_grow_def)
  show ?thesis
  proof (cases "sv_auth sv")
    case None
    then show ?thesis
      using assms refl fiddestroy_law [OF _ assms] by (auto simp: destroy_cb_def split: option.splits)
  next
    case (Some au)
    obtain cl where cl: "au_clunk au = Some cl" "runs (cl a s) (\<lambda>(n, s'). cb_step s s' \<and> uok s')"
      using auth_clunk_law [OF Some assms] by blast
    then show ?thesis
      using Some assms refl fiddestroy_law [OF _ assms]
      by (auto simp: destroy_cb_def runs_def split: option.splits)
  qed
qed

lemma destroy_rule:
  assumes "sinv uok M L D s" "c_fids s a = Some f" "L' = L(a := 1)"
  shows "runs (np_fid_destroy (destroy_cb sv) a s) (\<lambda>s'. sinv uok M L' (D - {a}) s' \<and> c_fids s' a = None)"
proof -
  note ok = sinvD [OF assms(1)]
  have cb: "\<exists>s2. destroy_cb sv a f s1 = Some s2 \<and> cb_frame s1 s2"
    if "c_fids s1 a = Some f" "same_rest s s1" for s1
    using destroy_cb_rule [of s1 a f] uok_kept [OF ok(1) users_kept_rest [OF that(2)]] that(1)
    by (auto simp: runs_def cb_step_def)
  obtain s1 s2 where s1: "fid_view s1 = fid_view s" "same_rest s s1" "c_fids s1 a = Some f"
    and s2: "destroy_cb sv a f s1 = Some s2" "cb_frame s1 s2"
    and res: "np_fid_destroy (destroy_cb sv) a s =
      Some (s2\<lparr>c_users := drop_user (f_user f) (c_users s2), c_fids := (c_fids s2)(a := None)\<rparr>)"
    and pool: "pool_ok (s2\<lparr>c_users := drop_user (f_user f) (c_users s2), c_fids := (c_fids s2)(a := None)\<rparr>)"
    by (rule destroy_phases [of s a f "destroy_cb sv", OF ok(2) assms(2)])
      (use user_alive_fid [OF ok(3) finite_fids [OF ok(2)] assms(2)] cb in blast)+
  have step: "cb_step s1 s2" "uok s2"
    using destroy_cb_rule [of s1 a f] uok_kept [OF ok(1) users_kept_rest [OF s1(2)]] s1(3) s2(1)
    by (auto simp: runs_def)
  have g: "fids_grow (c_fids s1) (c_fids s2)" "users_grow (c_users s1) (c_users s2)"
    using s2(2) by (simp_all add: cb_frame_def)
  have dom: "dom (c_fids s2) = dom (c_fids s)"
    using fids_grow_dom [OF g(1)] arg_cong [OF s1(1), of dom] by (auto simp: fid_view_def dom_def)
  then have fin: "finite (dom (c_fids s2))" using finite_fids [OF ok(2)] by simp
  have "users_ok s2"
  proof (rule users_okI [OF ok(3) _ finite_fids [OF ok(2)]])
    show "fid_users s2 u \<subseteq> fid_users s u" for u
      using fid_users_cb [OF s2(2)] s1(1) by (simp add: fid_users_view)
  qed (use g(2) same_restD(2) [OF s1(2)] in \<open>auto simp: users_grow_def\<close>)
  moreover obtain f2 where f2: "c_fids s2 a = Some f2" "f_user f2 = f_user f"
    using fids_growD [OF g(1) s1(3)] fid_grow_sel(2) by blast
  ultimately have u: "users_ok (s2\<lparr>c_users := drop_user (f_user f) (c_users s2), c_fids := (c_fids s2)(a := None)\<rparr>)"
      "user_alive s2 (f_user f)"
    using users_ok_drop [OF _ fin f2(1)] user_alive_fid [OF _ fin f2(1)] by simp_all
  have "L b \<le> f_refcount h" if h: "c_fids s2 b = Some h" for b h
  proof -
    obtain h1 where "c_fids s1 b = Some h1" "f_refcount h1 \<le> f_refcount h"
      using fids_grow_old [OF g(1) h] fid_grow_sel(5) by blast
    then show ?thesis
      using view_refcount [OF fun_cong [OF s1(1)]] ok(4) by fastforce
  qed
  then have "sinv uok M L' (D - {a}) (s2\<lparr>c_users := drop_user (f_user f) (c_users s2), c_fids := (c_fids s2)(a := None)\<rparr>)"
    using u pool uok_kept [OF step(2) drop_user_kept [OF u(2)]] step(1) ok(6,7) dom assms(1,3)
      same_restD(7,9) [OF s1(2)]
    by (auto simp: sinv_def cb_step_def ename_ok_def split: if_splits)
  then show ?thesis by (simp add: res)
qed

text \<open>
  A reference that is not the last known one keeps the fid; with the last one the fid may go.
\<close>

lemma decref_rule:
  assumes "sinv uok M L D s" "a \<in> D" "1 \<le> L a"
  shows "runs (decref sv (Some a) s)
    (\<lambda>s'. sinv uok M (L(a := max 1 (L a - 1))) (if 2 \<le> L a then D else D - {a}) s')"
proof -
  obtain f where f: "c_fids s a = Some f" "L a \<le> f_refcount f" using sinv_live [OF assms(1,2)] by blast
  let ?f = "f\<lparr>f_refcount := f_refcount f - 1\<rparr>"
  let ?s = "s\<lparr>c_fids := (c_fids s)(a \<mapsto> ?f)\<rparr>"
  have inv: "sinv uok M (L(a := L a - 1)) D ?s"
    by (rule sinv_upd [OF assms(1) f(1)])
      (use f(2) uok_kept [OF sinvD(1) [OF assms(1)] users_keptI] in \<open>simp_all add: same_links_def\<close>)
  show ?thesis
  proof (cases "f_refcount f = 1")
    case True
    then have "L a = 1" using f(2) assms(3) by simp
    moreover have "runs (np_fid_destroy (destroy_cb sv) a ?s)
        (\<lambda>s'. sinv uok M (L(a := 1)) (D - {a}) s' \<and> c_fids s' a = None)"
      by (rule destroy_rule [OF inv, of a ?f]) simp_all
    ultimately show ?thesis
      by (simp add: decref_def np_fid_decref_def f(1) True fun_upd_idem_iff) (erule runs_mono, simp)
  next
    case False
    have "sinv uok M (L(a := max 1 (L a - 1))) D ?s"
      by (rule sinv_upd [OF assms(1) f(1)])
        (use f(2) assms(3) False uok_kept [OF sinvD(1) [OF assms(1)] users_keptI] in \<open>simp_all add: same_links_def\<close>)
    then have "sinv uok M (L(a := max 1 (L a - 1))) (if 2 \<le> L a then D else D - {a}) ?s"
      by (rule sinv_weaken) auto
    then show ?thesis using False by (simp add: decref_def np_fid_decref_def f(1))
  qed
qed

lemma decref_None_rule: "runs (decref sv None s) Q \<longleftrightarrow> Q s"
  by (simp add: decref_def np_fid_decref_def)

text \<open>The calls of the server.\<close>

lemma call_rule:
  assumes "sinv uok M L D s" "call_fids call \<subseteq> D"
  shows "runs (sv_call sv call s) (\<lambda>(rc, s'). sinv uok M L D s' \<and> reply_ok rc)"
  by (rule runs_mono [OF call_law [of s call]])
    (use assms sinvD(1,5) [OF assms(1)] sinv_cb [OF assms(1)] in auto)

lemma walk_rule:
  assumes "sinv uok M L D s" "a \<in> D"
  shows "runs (sv_walk sv a n s) (\<lambda>(r, s'). sinv uok M L D s')"
  by (rule runs_mono [OF walk_law [of s a n]])
    (use sinvD(1,5) [OF assms(1)] assms sinv_cb [OF assms(1)] in auto)

lemma clone_rule:
  assumes "sinv uok M L D s" "a \<in> D" "b \<in> D"
  shows "runs (sv_clone sv a b s) (\<lambda>(ok, s'). sinv uok M L D s')"
  by (rule runs_mono [OF clone_law [of s a b]])
    (use sinvD(1,5) [OF assms(1)] assms sinv_cb [OF assms(1)] in auto)

lemma with_fid_rule:
  assumes "sinv uok M L D s"
    and none: "\<And>s'. sinv uok M L D s' \<Longrightarrow> (\<forall>a. \<not> holds s fid a) \<Longrightarrow> c_ename s' = Some Eunknownfid \<Longrightarrow>
      Q ((None, None), s')"
    and some: "\<And>a f f0 s'. sinv uok M (L(a := L a + 1)) (insert a D) s' \<Longrightarrow> c_fids s' a = Some f \<Longrightarrow>
      holds s fid a \<Longrightarrow> c_fids s a = Some f0 \<Longrightarrow> fid_facts f0 = fid_facts f \<Longrightarrow> facts s' = facts s \<Longrightarrow>
      same_rest s s' \<Longrightarrow> runs (k a f s') Q"
  shows "runs (with_fid fid k s) Q"
  unfolding with_fid_def runs_bind
proof (rule runs_mono [OF find_rule [OF assms(1)]], clarify)
  fix r s1 assume s1: "sinv uok M L (D \<union> set_option r) s1" "fid_view s1 = fid_view s" "same_rest s s1"
    and r: "\<forall>a. r = Some a \<longleftrightarrow> holds s fid a"
  show "runs (case r of None \<Rightarrow> fail Eunknownfid 5 None s1
      | Some a \<Rightarrow> np_fid_incref (Some a) s1 \<bind> (\<lambda>s. c_fids s a \<bind> (\<lambda>f. k a f s))) Q"
  proof (cases r)
    case None
    then have "sinv uok M L D (np_werror (Some Eunknownfid) 5 s1)"
      using werror_rule [of M L D s1 "Some Eunknownfid" 5] s1(1) by (simp add: Eunknownfid_def cstr_def)
    then show ?thesis using None r none by (simp add: fail_def np_werror_def)
  next
    case (Some a)
    have i: "runs (np_fid_incref (Some a) s1) (\<lambda>s'. sinv uok M (L(a := L a + 1)) (insert a D) s' \<and>
        same_rest s1 s' \<and> facts s' = facts s1)"
      using incref_rule [of M L "insert a D" s1 a] s1(1) Some by simp
    have "runs (c_fids s2 a \<bind> (\<lambda>f. k a f s2)) Q"
      if s2: "sinv uok M (L(a := L a + 1)) (insert a D) s2" "same_rest s1 s2" "facts s2 = facts s1" for s2
    proof -
      obtain f where f: "c_fids s2 a = Some f" using sinv_live [OF s2(1), of a] by blast
      have fa: "facts s2 = facts s" using s2(3) facts_view [OF s1(2)] by simp
      obtain f0 where "c_fids s a = Some f0" "fid_facts f0 = fid_facts f"
        using facts_Some [OF fa f] by blast
      moreover have "holds s fid a" using r Some by blast
      ultimately show ?thesis
        using some [OF s2(1) f, of f0] fa same_rest_trans [OF s1(3) s2(2)] f by simp
    qed
    then show ?thesis using i Some by (simp add: runs_mono)
  qed
qed

end

end
