(* ===== verification/Fcall_Inv.thy ===== *)
theory Fcall_Inv
  imports Fcall_Safe
begin

text \<open>
  Every request handler of \<^verbatim>\<open>fcall.c\<close> returns and keeps the connection's invariant. \<open>answer\<close> is what a
  handler leaves behind: all fids have a reference, the fid stored in the request is allocated, and
  a reply has room for its tag.
\<close>

definition answer :: "('e conn \<Rightarrow> bool) \<Rightarrow> bool \<Rightarrow> (Npfcall option \<times> ptr) \<times> 'e conn \<Rightarrow> bool" where
  "answer uok M = (\<lambda>((rc, rf), s). sinv uok M (\<lambda>_. 1) (set_option rf) s \<and> reply_ok rc \<and>
     (\<forall>r. rc = Some r \<longrightarrow> fc_type r = Rread \<longrightarrow> rf \<noteq> None))"

abbreviation (input) ready :: "('e conn \<Rightarrow> bool) \<Rightarrow> bool \<Rightarrow> 'e conn \<Rightarrow> bool" where
  "ready uok M \<equiv> sinv uok M (\<lambda>_. 1) {}"

lemma estr_length:
  "length Eunknownfid < 1024" "length Ennomem < 1024" "length Enoauth < 1024" "length Enotimpl < 1024"
  "length Einuse < 1024" "length Ebadusefid < 1024" "length Enotdir < 1024" "length Etoomanywnames < 1024"
  "length Eperm < 1024" "length Etoolarge < 1024" "length Ebadoffset < 1024" "length Edirchange < 1024"
  "length Eunknownuser < 1024"
  by (simp_all add: estr_defs cstr_def)

lemma reply_ok_simps [simp]: "reply_ok None" "reply_ok (Some r) \<longleftrightarrow> 7 \<le> length (fc_pkt r)"
  by (simp_all add: reply_ok_def)

text \<open>
  A fid opened with exactly \<open>Orclose\<close> is left out: there a NULL reply of the server's remove is
  dereferenced.
\<close>

definition rclose_fid :: "u32 \<Rightarrow> 'e conn \<Rightarrow> bool" where
  "rclose_fid fid s \<longleftrightarrow> (\<exists>a f. holds s fid a \<and> c_fids s a = Some f \<and> f_omode f = 0x40 \<and> \<not> is_auth f)"

lemma const_upd [simp]: "(\<lambda>_. c)(a := c) = (\<lambda>_. c)"
  by auto

context file_server
begin

text \<open>With one fid held: bounds \<open>1\<close> and \<open>2\<close> for it.\<close>

abbreviation (input) held :: "bool \<Rightarrow> addr \<Rightarrow> 'e conn \<Rightarrow> bool" where
  "held M a \<equiv> sinv uok M ((\<lambda>_. 1)(a := 2)) {a}"

lemma held_answer: "held M a s \<Longrightarrow> reply_ok rc \<Longrightarrow> answer uok M ((rc, Some a), s)"
  unfolding answer_def by (auto intro: sinv_weaken)

lemma fail_rule: "held M a s \<Longrightarrow> length e < 1024 \<Longrightarrow> runs (fail e c (Some a) s) (answer uok M)"
  by (simp add: fail_def held_answer werror_rule)

lemma reply_rule:
  assumes "held M a s" "call_fids call = {a}"
  shows "runs (reply sv call (Some a) s) (answer uok M)"
  unfolding reply_def runs_bind
  by (rule runs_mono [OF call_rule [OF assms(1)]]) (use assms(2) held_answer in auto)

lemma one_fid_rule:
  assumes "ready uok M s"
    "\<And>a f f0 s'. held M a s' \<Longrightarrow> c_fids s' a = Some f \<Longrightarrow> holds s fid a \<Longrightarrow> c_fids s a = Some f0 \<Longrightarrow>
      fid_facts f0 = fid_facts f \<Longrightarrow> facts s' = facts s \<Longrightarrow> same_rest s s' \<Longrightarrow> runs (k a f s') (answer uok M)"
  shows "runs (with_fid fid k s) (answer uok M)"
  by (rule with_fid_rule [OF assms(1)])
    (use assms(2) in \<open>auto simp: answer_def numeral_2_eq_2 [symmetric]\<close>)

lemmas handler_rules = fail_rule [OF _ estr_length(1)] fail_rule [OF _ estr_length(6)]
  fail_rule [OF _ estr_length(7)] fail_rule [OF _ estr_length(8)] fail_rule [OF _ estr_length(9)]
  fail_rule [OF _ estr_length(10)] fail_rule [OF _ estr_length(11)] fail_rule [OF _ estr_length(12)]
  fail_rule [OF _ estr_length(5)] fail_rule [OF _ estr_length(2)] reply_rule

lemma simple_handlers:
  assumes "ready uok M s"
  shows "runs (np_stat sv tc s) (answer uok M)" "runs (np_statfs sv tc s) (answer uok M)"
    "runs (np_readlink sv tc s) (answer uok M)" "runs (np_getattr sv tc s) (answer uok M)"
    "runs (np_setattr sv tc s) (answer uok M)" "runs (np_fsync sv tc s) (answer uok M)"
    "runs (np_flock sv tc s) (answer uok M)" "runs (np_getlock sv tc s) (answer uok M)"
    "runs (np_wstat sv tc s) (answer uok M)" "runs (np_readdir sv tc s) (answer uok M)"
  unfolding fcall_defs
  by (rule one_fid_rule [OF assms], simp add: Let_def handler_rules)+

lemma in_dir_rule:
  assumes "held M a s" "runs (k s) (answer uok M)"
  shows "runs (in_dir f (Some a) k s) (answer uok M)"
  using assms by (simp add: in_dir_def handler_rules)

lemma dir_handlers:
  assumes "ready uok M s"
  shows "runs (np_symlink sv tc s) (answer uok M)" "runs (np_mknod sv tc s) (answer uok M)"
    "runs (np_mkdir sv tc s) (answer uok M)"
  unfolding fcall_defs
  by (rule one_fid_rule [OF assms], rule in_dir_rule, assumption, simp add: handler_rules)+

lemma unlinkat_rule: "ready uok M s \<Longrightarrow> runs (np_unlinkat sv tc s) (answer uok M)"
proof -
  have "runs (in_dir f None (reply sv (CallUnlinkat a (fc_name tc)) (Some a)) s') (answer uok M)"
    if h: "held M a s'" for a f s'
  proof -
    have "runs (fail e c None s') (answer uok M)" if "length e < 1024" for e c
      using werror_rule [OF h, of "Some e" c] that by (auto simp: fail_def answer_def intro: sinv_weaken)
    then show ?thesis using h by (simp add: in_dir_def reply_rule estr_length)
  qed
  then show "ready uok M s \<Longrightarrow> ?thesis"
    unfolding fcall_defs by (auto intro: one_fid_rule)
qed

text \<open>A call followed by a change of the fid that depends on the reply.\<close>

lemma call_then:
  assumes "held M a s" "call_fids call = {a}"
    "\<And>rc s'. held M a s' \<Longrightarrow> reply_ok rc \<Longrightarrow> runs (k rc s') Q"
  shows "runs (sv_call sv call s \<bind> (\<lambda>(rc, s). k rc s)) Q"
  unfolding runs_bind
  by (rule runs_mono [OF call_rule [OF assms(1)]]) (use assms(2,3) in auto)

lemma set_then:
  assumes "held M a s" "\<And>f. same_links f (g f) \<and> f_user (g f) = f_user f \<and> f_refcount (g f) = f_refcount f"
    "reply_ok rc"
  shows "runs (fid_set a g s \<bind> (\<lambda>s. Some ((rc, Some a), s))) (answer uok M)"
  unfolding runs_bind runs_Some
  by (rule runs_mono [OF upd_rule [OF assms(1)]]) (use assms(2,3) held_answer in auto)

lemma maybe_set_then:
  assumes "held M a s" "\<And>f r. same_links f (g r f) \<and> f_user (g r f) = f_user f \<and> f_refcount (g r f) = f_refcount f"
    "reply_ok rc"
  shows "runs ((case rc of None \<Rightarrow> Some s | Some r \<Rightarrow> if P r then fid_set a (g r) s else Some s) \<bind>
    (\<lambda>s. Some ((rc, Some a), s))) (answer uok M)"
  using assms held_answer [OF assms(1,3)] set_then [OF assms(1) _ assms(3)]
  by (cases rc) auto

lemma opening_handlers:
  assumes "ready uok M s"
  shows "runs (np_open sv tc s) (answer uok M)" "runs (np_lopen sv tc s) (answer uok M)"
    "runs (np_create_req sv tc s) (answer uok M)" "runs (np_lcreate sv tc s) (answer uok M)"
    "runs (np_xattrcreate sv tc s) (answer uok M)"
proof -
  have open_rest: "runs (sv_call sv call s' \<bind> (\<lambda>(rc, s). fid_set a (\<lambda>f. f\<lparr>f_omode := w\<rparr>) s \<bind>
      (\<lambda>s. Some ((rc, Some a), s)))) (answer uok M)" if "held M a s'" "call_fids call = {a}" for a call w s'
    using that by (intro call_then set_then) (auto simp: same_links_def)
  have create_rest: "runs (sv_call sv call s' \<bind> (\<lambda>(rc, s). (case rc of None \<Rightarrow> Some s
      | Some r \<Rightarrow> if P r then fid_set a (\<lambda>f. f\<lparr>f_omode := w, f_type := ty r\<rparr>) s else Some s) \<bind>
      (\<lambda>s. Some ((rc, Some a), s)))) (answer uok M)"
    if "held M a s'" "call_fids call = {a}" for a call w ty P s'
    using that by (intro call_then maybe_set_then) (auto simp: same_links_def)
  show "runs (np_open sv tc s) (answer uok M)" "runs (np_lopen sv tc s) (answer uok M)"
    unfolding fcall_defs by (rule one_fid_rule [OF assms], simp add: handler_rules open_rest del: runs_bind)+
  show "runs (np_create_req sv tc s) (answer uok M)"
    unfolding fcall_defs
    by (rule one_fid_rule [OF assms]) (simp add: handler_rules create_rest del: runs_bind)
  show "runs (np_lcreate sv tc s) (answer uok M)"
    unfolding fcall_defs
    by (rule one_fid_rule [OF assms], rule in_dir_rule) (simp_all add: handler_rules create_rest del: runs_bind)
  have "runs (sv_call sv call s' \<bind> (\<lambda>(rc, s). (case rc of None \<Rightarrow> Some s
      | Some r \<Rightarrow> if P r then fid_set a (\<lambda>f. f\<lparr>f_type := f_type f OR Ftxattr\<rparr>) s else Some s) \<bind>
      (\<lambda>s. Some ((rc, Some a), s)))) (answer uok M)"
    if "held M a s'" "call_fids call = {a}" for a call P s'
    using that by (intro call_then maybe_set_then) (auto simp: same_links_def)
  then show "runs (np_xattrcreate sv tc s) (answer uok M)"
    unfolding fcall_defs by (intro one_fid_rule [OF assms]) (simp add: handler_rules del: runs_bind)
qed

lemma held_decref:
  "held M a s \<Longrightarrow> runs (decref sv (Some a) s) (sinv uok M (\<lambda>_. 1) {a})"
  using decref_rule [of M "(\<lambda>_. 1)(a := 2)" "{a}" s a] by simp

lemma maybe_drop_then:
  assumes "held M a s" "reply_ok rc"
  shows "runs ((case rc of None \<Rightarrow> Some s | Some r \<Rightarrow> if P r then decref sv (Some a) s else Some s) \<bind>
    (\<lambda>s. Some ((rc, Some a), s))) (answer uok M)"
proof -
  have "runs (decref sv (Some a) s) (\<lambda>s'. answer uok M ((rc, Some a), s'))"
    by (rule runs_mono [OF held_decref [OF assms(1)]]) (simp add: answer_def assms(2))
  then show ?thesis using held_answer [OF assms] by (auto split: option.splits)
qed

lemma remove_rule: "ready uok M s \<Longrightarrow> runs (np_remove sv tc s) (answer uok M)"
  unfolding fcall_defs by (rule one_fid_rule, assumption, erule call_then) (simp, erule (1) maybe_drop_then)

text \<open>Replies the library builds itself have their header, and are never undefined.\<close>

lemma build_reply:
  assumes "sinv uok M L D s" "\<And>m. \<exists>body. built (mk (Some m)) ty body" "mk None = Inl CNoMem"
  shows "runs (build mk s) (\<lambda>(rc, s'). sinv uok M L D s' \<and> users_kept s s' \<and> reply_ok rc \<and>
    (\<forall>r. rc = Some r \<longrightarrow> fc_type r = ty))"
proof -
  have b: "\<exists>fc. mk (Some m) = Inr fc \<and> 7 \<le> length (fc_pkt fc) \<and> fc_type fc = ty" for m
    using assms(2) [of m] by (auto simp: built_def)
  have ok: "7 \<le> length (fc_pkt fc) \<and> fc_type fc = ty" if "mk m = Inr fc" for m fc
    using that b [of "the m"] assms(3) by (cases m) auto
  have "mk (Some m) \<noteq> Inl CUndef" for m using b [of m] by auto
  then have "runs (build mk s) (\<lambda>(rc, s'). sinv uok M L D s' \<and> users_kept s s' \<and>
      (\<forall>r. rc = Some r \<longrightarrow> 7 \<le> length (fc_pkt r) \<and> fc_type r = ty))"
    using build_rule [OF assms(1), of mk "\<lambda>fc. 7 \<le> length (fc_pkt fc) \<and> fc_type fc = ty"] assms(3) ok
    by (simp add: assms(3))
  then show ?thesis by (rule runs_mono) (auto simp: reply_ok_def)
qed

lemma small_replies_built:
  "\<exists>body. built (np_create_rclunk (Some m)) Rclunk body" "\<exists>body. built (np_create_rwrite (Some m) n) Rwrite body"
  "\<exists>body. built (np_create_rauth (Some m) q) Rauth body"
  "np_create_rclunk None = Inl CNoMem" "np_create_rwrite None n = Inl CNoMem" "np_create_rauth None q = Inl CNoMem"
  using created_9p_simple [of MRclunk True m] created_9p_simple [of "MRwrite n" True m]
    created_9p_simple [of "MRauth q" True m]
  by (auto simp: create_9p_defs np_create_def np_create_common_def)

lemmas build_small = build_reply [OF _ small_replies_built(1,4)] build_reply [OF _ small_replies_built(2,5)]
  build_reply [OF _ small_replies_built(3,6)]

lemma held_live: "held M a s \<Longrightarrow> c_fids s a \<noteq> None"
  using sinv_live [of uok M "(\<lambda>_. 1)(a := 2)" "{a}" s a] by auto

lemma cb_then:
  assumes "sinv uok M L D s" "runs m (\<lambda>(x, s'). cb_step s s' \<and> uok s' \<and> P x)"
    "\<And>x s'. sinv uok M L D s' \<Longrightarrow> P x \<Longrightarrow> runs (k x s') Q"
  shows "runs (m \<bind> (\<lambda>(x, s). k x s)) Q"
  unfolding runs_bind
  by (rule runs_mono [OF assms(2)]) (use assms(3) sinv_cb [OF assms(1)] in auto)

lemma build_then:
  assumes "held M a s" "\<And>m. \<exists>body. built (mk (Some m)) ty body" "mk None = Inl CNoMem"
  shows "runs (build mk s \<bind> (\<lambda>(rc, s). Some ((rc, Some a), s))) (answer uok M)"
  unfolding runs_bind
  by (rule runs_mono [OF build_reply [OF assms]]) (auto intro: held_answer)

text \<open>The authentication server's answer, or no reply.\<close>

lemma auth_then:
  assumes "held M a s" "runs m (\<lambda>(n, s'). cb_step s s' \<and> uok s')"
    "\<And>n m. \<exists>body. built (mk n (Some m)) ty body" "\<And>n. mk n None = Inl CNoMem"
  shows "runs (m \<bind> (\<lambda>(n, s). (if P n then build (mk n) s else Some (None, s)) \<bind>
    (\<lambda>(rc, s). Some ((rc, Some a), s)))) (answer uok M)"
  by (rule cb_then [OF assms(1), where P = "\<lambda>_. True"])
    (use assms(2) build_then [OF _ assms(3,4)] held_answer in \<open>auto simp del: runs_bind\<close>)

lemma clunk_rule:
  assumes "ready uok M s" "\<not> rclose_fid (fc_fid tc) s"
  shows "runs (np_clunk sv tc s) (answer uok M)"
  unfolding np_clunk_def
proof (rule one_fid_rule [OF assms(1)], rule runs_if)
  fix a f f0 s' assume h: "held M a s'"
  have "runs (au_clunk au \<bind> (\<lambda>clunk. clunk a s' \<bind> (\<lambda>(n, s).
      (if n \<noteq> 0 then build np_create_rclunk s else Some (None, s)) \<bind>
      (\<lambda>(rc, s). Some ((rc, Some a), s))))) (answer uok M)" if au: "sv_auth sv = Some au" for au
    using auth_clunk_law [OF au sinvD(1) [OF h] held_live [OF h]]
      auth_then [OF h _ small_replies_built(1,4), of _ "\<lambda>n. n \<noteq> 0"] by auto
  then show "runs (case sv_auth sv of None \<Rightarrow> fail Ebadusefid EIO (Some a) s'
      | Some au \<Rightarrow> au_clunk au \<bind> (\<lambda>clunk. clunk a s' \<bind> (\<lambda>(n, s).
            (if n \<noteq> 0 then build np_create_rclunk s else Some (None, s)) \<bind>
            (\<lambda>(rc, s). Some ((rc, Some a), s))))) (answer uok M)"
    using h by (intro runs_case_option) (simp_all add: handler_rules del: runs_bind)
next
  fix a f f0 s'
  assume h: "held M a s'" and f: "\<not> is_auth f" "holds s (fc_fid tc) a" "c_fids s a = Some f0" "fid_facts f0 = fid_facts f"
  have "f_omode f \<noteq> 0x40"
    using assms(2) f by (auto simp: rclose_fid_def fid_facts_def)
  moreover have "runs (sv_call sv (CallClunk a) s' \<bind> (\<lambda>(rc, s). (case rc of None \<Rightarrow> Some s
      | Some r \<Rightarrow> if fc_type r = Rclunk then decref sv (Some a) s else Some s) \<bind>
      (\<lambda>s. Some ((rc, Some a), s)))) (answer uok M)"
    by (rule call_then [OF h]) (simp, erule (1) maybe_drop_then)
  ultimately show "runs (clunk_file sv a f s' \<bind> (\<lambda>(rc, s). Some ((rc, Some a), s))) (answer uok M)"
    by (simp add: clunk_file_def case_prod_unfold)
qed

lemma write_rule:
  assumes "ready uok M s"
  shows "runs (np_write sv tc s) (answer uok M)"
  unfolding np_write_def
proof (rule one_fid_rule [OF assms], rule runs_if)
  fix a f s' assume h: "held M a s'"
  have "runs (au_write au a (fc_offset tc) (fc_count tc) (fc_data tc) s' \<bind> (\<lambda>(n, s).
      (if n \<ge> 0 then build (\<lambda>mal. np_create_rwrite mal (word_of_int n)) s else Some (None, s)) \<bind>
      (\<lambda>(rc, s). Some ((rc, Some a), s)))) (answer uok M)" if "sv_auth sv = Some au" for au
    by (rule auth_then [OF h auth_write_law [OF that sinvD(1) [OF h] held_live [OF h]] small_replies_built(2,5)])
  then show "runs (case sv_auth sv of None \<Rightarrow> fail Ebadusefid EIO (Some a) s'
      | Some au \<Rightarrow> au_write au a (fc_offset tc) (fc_count tc) (fc_data tc) s' \<bind> (\<lambda>(n, s).
          (if n \<ge> 0 then build (\<lambda>mal. np_create_rwrite mal (word_of_int n)) s else Some (None, s)) \<bind>
          (\<lambda>(rc, s). Some ((rc, Some a), s)))) (answer uok M)"
    using h by (intro runs_case_option) (simp_all add: handler_rules del: runs_bind)
qed (simp add: handler_rules)

text \<open>Reading an authentication fid, for counts whose packet size is a positive \<^verbatim>\<open>int\<close>.\<close>

definition rread_block :: "u32 \<Rightarrow> Npfcall \<Rightarrow> bool" where
  "rread_block cnt r \<longleftrightarrow> (\<exists>junk. length junk = unat cnt \<and> fc_count r = cnt \<and>
     fc_pkt r = wire Rread NOTAG (enc32 cnt @ junk))"

lemma rread_block_fill:
  assumes "unat cnt + 11 < 2 ^ 31" "0 \<le> n" "nat n = length bs" "length bs \<le> unat cnt" "rread_block cnt r"
  shows "\<not> cb_fault (cb_store (buf_init (fc_pkt r) 0 0) 11 bs)"
    "\<exists>r'. np_set_rread_count (r\<lparr>fc_pkt := cb_mem (cb_store (buf_init (fc_pkt r) 0 0) 11 bs)\<rparr>)
       (word_of_int n) = Some r' \<and> 7 \<le> length (fc_pkt r')"
proof -
  obtain junk where r: "length junk = unat cnt" "fc_count r = cnt" "fc_pkt r = wire Rread NOTAG (enc32 cnt @ junk)"
    using assms(5) by (auto simp: rread_block_def)
  let ?d = "bs @ drop (length bs) junk"
  have le: "int (length bs) \<le> uint cnt" using assms(4) by (metis of_nat_le_iff uint_nat)
  have eq: "cb_store (buf_init (fc_pkt r) 0 0) 11 bs = buf_init (wire Rread NOTAG (enc32 cnt @ ?d)) 0 0"
    using assms(4) le r by (simp add: cb_store_def cb_in_range_def buf_init_def) (simp add: wire_def)
  then show "\<not> cb_fault (cb_store (buf_init (fc_pkt r) 0 0) 11 bs)" by (simp add: buf_init_def)
  have "n = int (length bs)" using assms(2,3) by simp
  then have n: "word_of_int n = (of_nat (length bs) :: u32)" by simp
  have "length ?d = unat cnt" using assms(4) r(1) by simp
  then show "\<exists>r'. np_set_rread_count (r\<lparr>fc_pkt := cb_mem (cb_store (buf_init (fc_pkt r) 0 0) 11 bs)\<rparr>)
      (word_of_int n) = Some r' \<and> 7 \<le> length (fc_pkt r')"
    unfolding eq n using set_rread_count_wire [OF assms(1,4), of ?d] r(2) by (simp add: buf_init_def)
qed

lemma alloc_rread_block:
  assumes "unat cnt + 11 < 2 ^ 31"
  shows "\<exists>fc. np_alloc_rread (Some m) cnt = Inr fc \<and> rread_block cnt fc"
    "np_alloc_rread None cnt = Inl CNoMem"
  using np_alloc_rread_built [OF assms, of m]
  by (auto simp: rread_block_def np_alloc_rread_def np_create_def np_create_common_def)

lemma auth_read_rule:
  assumes h: "held M a s" and au: "sv_auth sv = Some au" and n: "unat (fc_count tc) + 11 < 2 ^ 31"
  shows "runs (auth_read au a tc s) (\<lambda>(rc, s'). held M a s' \<and> reply_ok rc)"
proof -
  note alloc = alloc_rread_block [OF n]
  have alloced: "runs (build (\<lambda>mal. np_alloc_rread mal (fc_count tc)) s)
      (\<lambda>(rc, s2). held M a s2 \<and> users_kept s s2 \<and> (\<forall>r. rc = Some r \<longrightarrow> rread_block (fc_count tc) r))"
  proof (rule build_rule [OF h])
    show "np_alloc_rread (Some m) (fc_count tc) \<noteq> Inl CUndef" for m using alloc(1) [of m] by auto
    show "rread_block (fc_count tc) fc" if "np_alloc_rread m (fc_count tc) = Inr fc" for m fc
      using alloc(2) alloc(1) [of "the m"] that by (cases m) auto
  qed (simp add: alloc(2))
  have filled: "runs (au_read au a (fc_offset tc) (fc_count tc) s2 \<bind> (\<lambda>((n, bs), s).
        if n < 0 then Some (None, s)
        else let buf = cb_store (buf_init (fc_pkt r) 0 0) 11 bs
             in (if cb_fault buf then None else Some (r\<lparr>fc_pkt := cb_mem buf\<rparr>)) \<bind>
                (\<lambda>r. np_set_rread_count r (word_of_int n) \<bind> (\<lambda>r. Some (Some r, s)))))
      (\<lambda>(rc, s'). held M a s' \<and> reply_ok rc)"
    if h2: "held M a s2" and r: "rread_block (fc_count tc) r" for r s2
    unfolding runs_bind
    by (rule runs_mono [OF auth_read_law [OF au sinvD(1) [OF h2] held_live [OF h2]]])
      (use rread_block_fill [OF n _ _ _ r] sinv_cb [OF h2] in \<open>fastforce simp: Let_def not_less\<close>)
  show ?thesis
    unfolding auth_read_def
    by (subst runs_bind, rule runs_mono [OF alloced])
      (auto split: option.splits simp del: runs_bind, rule filled, assumption+)
qed

lemma read_rule:
  assumes "ready uok M s" "unat (fc_count tc) + 11 < 2 ^ 31"
  shows "runs (np_read sv tc s) (answer uok M)"
  unfolding np_read_def
proof (rule one_fid_rule [OF assms(1)], intro runs_if runs_case_option)
  fix a f s' au assume "held M a s'" "sv_auth sv = Some au"
  then have "runs (auth_read au a tc s') (\<lambda>(rc, s). held M a s \<and> reply_ok rc)"
    by (rule auth_read_rule [OF _ _ assms(2)])
  then show "runs (auth_read au a tc s' \<bind> (\<lambda>(rc, s). Some ((rc, Some a), s))) (answer uok M)"
    unfolding runs_bind by (rule runs_mono) (auto intro: held_answer)
qed (simp_all add: handler_rules)

end

end
