(* ===== verification/Fcall_Fids.thy ===== *)
theory Fcall_Fids
  imports Fcall_Inv
begin

text \<open>
  The handlers that work with two fids, or create one: \<open>np_rename\<close>, \<open>np_link\<close>, \<open>np_renameat\<close>,
  \<open>np_xattrwalk\<close>, \<open>np_walk\<close>, \<open>np_auth\<close> and \<open>np_attach\<close>.
\<close>

text \<open>The server can always clone: otherwise the new fid stays in the pool without a reference.\<close>

definition clones :: "'e npsrv \<Rightarrow> bool" where
  "clones sv \<longleftrightarrow> (\<forall>a b s r s'. sv_clone sv a b s = Some (r, s') \<longrightarrow> r)"

subsection \<open>A second fid\<close>

definition bounds2 :: "addr \<Rightarrow> addr \<Rightarrow> addr \<Rightarrow> int" where
  "bounds2 a b = (let L = (\<lambda>_. 1)(a := 2) in L(b := L b + 1))"

lemma const_upd2: "b \<noteq> a \<Longrightarrow> (\<lambda>_. c)(a := x, b := c) = (\<lambda>_. c)(a := x)"
  by auto

context file_server
begin

abbreviation (input) held2 :: "bool \<Rightarrow> addr \<Rightarrow> addr \<Rightarrow> 'e conn \<Rightarrow> bool" where
  "held2 M a b \<equiv> sinv uok M (bounds2 a b) {a, b}"

definition answer2 :: "bool \<Rightarrow> addr \<Rightarrow> addr \<Rightarrow> (Npfcall option \<times> ptr) \<times> 'e conn \<Rightarrow> bool" where
  "answer2 M a b = (\<lambda>((rc, rf), s). held2 M a b s \<and> rf = Some a \<and> reply_ok rc)"

lemma fail2_rule: "held2 M a b s \<Longrightarrow> length e < 1024 \<Longrightarrow> runs (fail e c (Some a) s) (answer2 M a b)"
  by (simp add: fail_def answer2_def werror_rule)

lemma reply2_rule:
  "held2 M a b s \<Longrightarrow> call_fids call = {a, b} \<Longrightarrow> runs (reply sv call (Some a) s) (answer2 M a b)"
  unfolding reply_def runs_bind
  by (rule runs_mono [OF call_rule]) (auto simp: answer2_def)

lemma in_dir2_rule:
  "held2 M a b s \<Longrightarrow> runs (k s) (answer2 M a b) \<Longrightarrow> runs (in_dir g (Some a) k s) (answer2 M a b)"
  by (simp add: in_dir_def fail2_rule estr_length)

lemma decref2_rule: "held2 M a b s \<Longrightarrow> runs (decref sv (Some b) s) (held M a)"
proof -
  assume h: "held2 M a b s"
  have le: "2 \<le> bounds2 a b b" and eq: "(bounds2 a b)(b := max 1 (bounds2 a b b - 1)) = (\<lambda>_. 1)(a := 2)"
    by (auto simp: bounds2_def Let_def)
  have "runs (decref sv (Some b) s) (sinv uok M ((\<lambda>_. 1)(a := 2)) {a, b})"
    using decref_rule [OF h, of b] le unfolding eq by simp
  then show ?thesis by (rule runs_mono) (auto intro: sinv_weaken)
qed

lemma with_other_rule:
  assumes "held M a s" "rf0 = None \<or> rf0 = Some a"
    and k: "\<And>b g s'. held2 M a b s' \<Longrightarrow> runs (k b g s') (answer2 M a b)"
  shows "runs (with_other sv fid rf0 k s) (answer uok M)"
  unfolding with_other_def runs_bind
proof (rule runs_mono [OF find_rule [OF assms(1)]], clarify, rule runs_case_option)
  fix r s1 assume "sinv uok M ((\<lambda>_. 1)(a := 2)) ({a} \<union> set_option r) s1" "r = None"
  then have "held M a (np_werror (Some Eunknownfid) 5 s1)" by (simp add: werror_rule estr_length)
  then show "runs (fail Eunknownfid 5 rf0 s1) (answer uok M)"
    using assms(2) by (auto simp: fail_def answer_def intro: sinv_weaken)
next
  fix r s1 b assume s1: "sinv uok M ((\<lambda>_. 1)(a := 2)) ({a} \<union> set_option r) s1" "r = Some b"
  have "runs (np_fid_incref (Some b) s1) (held2 M a b)"
    using incref_rule [of M "(\<lambda>_. 1)(a := 2)" "{a, b}" s1 b] s1
    by (auto simp: bounds2_def Let_def insert_commute elim!: runs_mono)
  moreover have "runs (c_fids s2 b \<bind> (\<lambda>g. k b g s2 \<bind> (\<lambda>(res, s). decref sv (Some b) s \<bind> (\<lambda>s. Some (res, s)))))
      (answer uok M)" if h: "held2 M a b s2" for s2
  proof -
    obtain g where g: "c_fids s2 b = Some g" using sinv_live [OF h, of b] by auto
    have "runs (case x of (res, s) \<Rightarrow> decref sv (Some b) s \<bind> (\<lambda>s. Some (res, s))) (answer uok M)"
      if "answer2 M a b x" for x
      using that decref2_rule [of M a b "snd x"] held_answer
      by (cases x) (auto simp: answer2_def elim!: runs_mono)
    then show ?thesis using k [OF h, of g] by (auto simp: g elim!: runs_mono)
  qed
  ultimately show "runs (np_fid_incref (Some b) s1 \<bind> (\<lambda>s. c_fids s b \<bind> (\<lambda>g. k b g s \<bind>
      (\<lambda>(res, s). decref sv (Some b) s \<bind> (\<lambda>s. Some (res, s)))))) (answer uok M)"
    by (subst runs_bind) (rule runs_mono)
qed

lemma two_fid_handlers:
  assumes "ready uok M s"
  shows "runs (np_rename sv tc s) (answer uok M)" "runs (np_link sv tc s) (answer uok M)"
    "runs (np_renameat sv tc s) (answer uok M)"
  unfolding fcall_defs
  by (rule one_fid_rule [OF assms], erule with_other_rule, simp, erule reply2_rule, simp)
    (rule one_fid_rule [OF assms], erule with_other_rule, simp, rule in_dir2_rule, assumption,
      erule reply2_rule, auto,
     rule one_fid_rule [OF assms], rule in_dir_rule, assumption, erule with_other_rule, simp,
     rule in_dir2_rule, assumption, erule reply2_rule, auto)

subsection \<open>A new fid\<close>

text \<open>The references around a fid \<open>b\<close> that was just created, with none at first.\<close>

lemma new_fid_rule:
  assumes "held M a s"
    and used: "\<And>c s'. sinv uok M ((\<lambda>_. 1)(a := 2)) {a, c} s' \<Longrightarrow> runs (u c s') Q"
    and none: "\<And>s'. held M a s' \<Longrightarrow> runs (n s') Q"
    and some: "\<And>b s'. b \<noteq> a \<Longrightarrow> sinv uok M ((\<lambda>_. 1)(a := 2, b := 0)) {a, b} s' \<Longrightarrow> runs (k b s') Q"
  shows "runs (np_fid_find fid s \<bind> (\<lambda>(r, s). case r of
      None \<Rightarrow> np_fid_create fid aux s \<bind> (\<lambda>(r, s). case r of None \<Rightarrow> n s | Some b \<Rightarrow> k b s)
    | Some c \<Rightarrow> u c s)) Q"
proof (subst runs_bind, rule runs_mono [OF find_rule [OF assms(1)]], clarify, rule runs_case_option)
  fix r s1 c assume "sinv uok M ((\<lambda>_. 1)(a := 2)) ({a} \<union> set_option r) s1" "r = Some c"
  then show "runs (u c s1) Q" using used by (simp add: insert_commute)
next
  fix r s1 assume s1: "sinv uok M ((\<lambda>_. 1)(a := 2)) ({a} \<union> set_option r) s1" "fid_view s1 = fid_view s"
    "\<forall>a. r = Some a \<longleftrightarrow> holds s fid a" "r = None"
  then have h: "held M a s1" "\<And>c. \<not> holds s1 fid c" by (auto simp: holds_view)
  have "runs (case r2 of None \<Rightarrow> n s2 | Some b \<Rightarrow> k b s2) Q"
    if "case r2 of None \<Rightarrow> held M a s2 | Some b \<Rightarrow> c_fids s1 b = None \<and>
      sinv uok M ((\<lambda>_. 1)(a := 2, b := 0)) (insert b {a}) s2 \<and> holds s2 fid b" for r2 s2
  proof (cases r2)
    case (Some b)
    then have "b \<noteq> a" using that held_live [OF h(1)] by auto
    with Some that some [of b s2] show ?thesis by (simp add: insert_commute)
  qed (use that none in simp)
  then show "runs (np_fid_create fid aux s1 \<bind> (\<lambda>(r, s). case r of None \<Rightarrow> n s | Some b \<Rightarrow> k b s)) Q"
    by (subst runs_bind) (rule runs_mono [OF create_rule [OF h]], auto)
qed

text \<open>The new fid gets the user of the old one, and a reference.\<close>

lemma share_user:
  assumes "sinv uok M L D s" "a \<in> D" "b \<in> D"
    "\<And>f g. same_links g (h f g) \<and> f_user (h f g) = f_user f \<and> f_refcount (h f g) = f_refcount g"
    "\<And>s'. sinv uok M L D s' \<Longrightarrow> runs (k s') Q"
  shows "runs (c_fids s a \<bind> (\<lambda>f. np_user_incref (f_user f) s \<bind> (\<lambda>s. fid_set b (h f) s \<bind> k))) Q"
proof -
  obtain f where f: "c_fids s a = Some f" using sinv_live [OF assms(1,2)] by blast
  have "runs (fid_set b (h f) s1 \<bind> k) Q"
    if "sinv uok M L D s1" "\<forall>u. f_user f = Some u \<longrightarrow> spare s1 u" for s1
    unfolding runs_bind
    by (rule runs_mono [OF set_user_rule [OF that(1) assms(3), of "f_user f"]])
      (use that(2) assms(4,5) in auto)
  then show ?thesis
    using user_incref_rule [OF assms(1) f] by (simp add: f) (erule runs_mono, auto)
qed

lemma incref_then:
  assumes "sinv uok M L D s" "b \<in> D" "\<And>s'. sinv uok M (L(b := L b + 1)) D s' \<Longrightarrow> runs (k s') Q"
  shows "runs (np_fid_incref (Some b) s \<bind> k) Q"
  using runs_mono [OF incref_rule [OF assms(1,2)]] assms(3) by auto

text \<open>The reference of the request goes; with it the fid, unless something else holds it.\<close>

lemma release_new:
  assumes "sinv uok M ((\<lambda>_. 1)(a := 2, b := 1)) {a, b} s" "b \<noteq> a" "reply_ok rc"
  shows "runs (decref sv (Some b) s \<bind> (\<lambda>s. Some ((rc, Some a), s))) (answer uok M)"
proof -
  have "runs (decref sv (Some b) s) (held M a)"
    using decref_rule [OF assms(1), of b] assms(2) by (simp add: insert_Diff_if const_upd2)
  then show ?thesis using held_answer [OF _ assms(3)] by (auto elim!: runs_mono)
qed

lemma xattrwalk_rule: "ready uok M s \<Longrightarrow> runs (np_xattrwalk sv tc s) (answer uok M)"
  unfolding np_xattrwalk_def
proof (rule one_fid_rule, assumption)
  fix a s' assume h: "held M a s'"
  let ?rest = "\<lambda>b s. c_fids s a \<bind> (\<lambda>f. np_user_incref (f_user f) s \<bind> (\<lambda>s.
      fid_set b (\<lambda>g. g\<lparr>f_user := f_user f\<rparr>) s \<bind> (\<lambda>s. np_fid_incref (Some b) s \<bind> (\<lambda>s.
      sv_call sv (CallXattrwalk a b (fc_name tc)) s \<bind> (\<lambda>(rc, s).
      (case rc of None \<Rightarrow> Some s | Some r \<Rightarrow> if fc_type r = Rxattrwalk then fid_set b (\<lambda>g. g\<lparr>f_type := Ftxattr\<rparr>) s else Some s) \<bind>
      (\<lambda>s. decref sv (Some b) s \<bind> (\<lambda>s. Some ((rc, Some a), s))))))))"
  have last: "runs ((case rc of None \<Rightarrow> Some s | Some r \<Rightarrow> if fc_type r = Rxattrwalk then fid_set b (\<lambda>g. g\<lparr>f_type := Ftxattr\<rparr>) s else Some s) \<bind>
      (\<lambda>s. decref sv (Some b) s \<bind> (\<lambda>s. Some ((rc, Some a), s)))) (answer uok M)"
    if "sinv uok M ((\<lambda>_. 1)(a := 2, b := 1)) {a, b} s" "b \<noteq> a" "reply_ok rc" for b rc s
  proof -
    have "runs (fid_set b (\<lambda>g. g\<lparr>f_type := Ftxattr\<rparr>) s)
        (\<lambda>s'. sinv uok M ((\<lambda>_. 1)(a := 2, b := 1)) {a, b} s' \<and> c_users s' = c_users s)"
      by (rule upd_rule [OF that(1)]) (simp_all add: same_links_def)
    then show ?thesis
      using release_new [OF _ that(2,3)] that(1) by (auto split: option.splits elim!: runs_mono)
  qed
  have "runs (?rest b s) (answer uok M)"
    if "b \<noteq> a" "sinv uok M ((\<lambda>_. 1)(a := 2, b := 0)) {a, b} s" for b s
    by (rule share_user [OF that(2)], simp_all add: same_links_def del: runs_bind)
      (erule incref_then, simp, subst runs_bind, rule runs_mono [OF call_rule],
        use that(1) last in \<open>auto simp del: runs_bind\<close>)
  then show "runs (np_fid_find (fc_newfid tc) s' \<bind> (\<lambda>(r, s). case r of
      None \<Rightarrow> np_fid_create (fc_newfid tc) None s \<bind> (\<lambda>(r, s). case r of None \<Rightarrow> fail Ennomem 12 (Some a) s
        | Some b \<Rightarrow> ?rest b s)
      | Some _ \<Rightarrow> fail Einuse 5 (Some a) s)) (answer uok M)"
    using h by (intro new_fid_rule) (auto intro: handler_rules sinv_weaken simp del: runs_bind)
qed

subsection \<open>Walking\<close>

lemma walk_names_rule:
  "sinv uok M L D s \<Longrightarrow> a \<in> D \<Longrightarrow> runs (walk_names sv a ns qs s)
    (\<lambda>(qs', s'). sinv uok M L D s' \<and> length qs' \<le> length qs + length ns)"
proof (induction ns arbitrary: qs s)
  case (Cons n ns)
  have "runs (fid_set a (\<lambda>f. f\<lparr>f_type := ucast (q_type q)\<rparr>) s1 \<bind> (\<lambda>s.
        if ns \<noteq> [] \<and> q_type q AND 0x80 = 0 then Some (qs @ [q], s) else walk_names sv a ns (qs @ [q]) s))
      (\<lambda>(qs', s'). sinv uok M L D s' \<and> length qs' \<le> length qs + length (n # ns))"
    if "sinv uok M L D s1" for q s1
    unfolding runs_bind
  proof (rule runs_mono [OF upd_rule [OF that Cons.prems(2)]], simp_all add: same_links_def, goal_cases)
    case (1 s2)
    then show ?case
      using Cons.IH [of s2 "qs @ [q]"] Cons.prems(2) by auto
  qed
  then show ?case
    using Cons.prems
    by (simp, intro runs_mono [OF walk_rule [OF Cons.prems]]) (auto simp del: runs_bind)
qed simp

lemma rwalk_built:
  "length qs \<le> MAXWELEM \<Longrightarrow> \<exists>body. built (np_create_rwalk (Some m) (int (length qs)) qs) Rwalk body"
  "length qs \<le> MAXWELEM \<Longrightarrow> np_create_rwalk None (int (length qs)) qs = Inl CNoMem"
  using created_rwalk [of qs m True] by (auto simp: np_create_rwalk_def np_create_def np_create_common_def)

lemma walk_finish_rule:
  assumes "sinv uok M L D s" "b \<in> D" "unat (fc_nwname tc) \<le> MAXWELEM"
  shows "runs (walk_finish sv tc b s) (\<lambda>(rc, s'). sinv uok M (L(b := L b + 1)) D s' \<and> reply_ok rc)"
  unfolding walk_finish_def
proof (rule incref_then [OF assms(1,2)], subst runs_bind,
    rule runs_mono [OF walk_names_rule [OF _ assms(2)]], assumption, clarify)
  fix qs :: "Npqid list" and s1 assume s1: "sinv uok M (L(b := L b + 1)) D s1"
    and "length qs \<le> length [] + length (take (unat (fc_nwname tc)) (fc_wnames tc))"
  then have len: "length qs \<le> MAXWELEM" using assms(3) by simp
  define mk where "mk = (\<lambda>mal. np_create_rwalk mal (int (length qs)) qs)"
  have fin: "runs (build mk s2) (\<lambda>(rc, s'). sinv uok M (L(b := L b + 1)) D s' \<and> reply_ok rc)"
    if "sinv uok M (L(b := L b + 1)) D s2" for s2
    unfolding mk_def
    by (rule runs_mono [OF build_reply [OF that rwalk_built(1) [OF len] rwalk_built(2) [OF len]]]) auto
  have e: "sinv uok M (L(b := L b + 1)) D (np_werror None 0 s1)" by (rule werror_rule [OF s1]) simp
  have "runs (np_fid_incref (Some b) (np_werror None 0 s1) \<bind> build mk)
      (\<lambda>(rc, s'). sinv uok M (L(b := L b + 1)) D s' \<and> reply_ok rc)"
    by (rule incref_then [OF e assms(2)], rule fin, erule sinv_weaken) auto
  then show "runs (if qs = [] \<and> fc_nwname tc \<noteq> 0 then Some (None, s1)
      else let s = np_werror None 0 s1
           in (if fc_fid tc \<noteq> fc_newfid tc \<and> length qs = unat (fc_nwname tc) then np_fid_incref (Some b) s
               else Some s) \<bind> build (\<lambda>mal. np_create_rwalk mal (int (length qs)) qs))
      (\<lambda>(rc, s'). sinv uok M (L(b := L b + 1)) D s' \<and> reply_ok rc)"
    unfolding mk_def [symmetric] using s1 fin [OF e] by (simp add: Let_def)
qed

lemma walk_used:
  assumes "sinv uok M ((\<lambda>_. 1)(a := 2)) {a, c} s"
  shows "runs (decref sv (Some c) (np_werror (Some Einuse) EIO s) \<bind> (\<lambda>s. Some ((None, Some a), s))) (answer uok M)"
proof -
  have "sinv uok M ((\<lambda>_. 1)(a := 2)) {a, c} (np_werror (Some Einuse) 5 s)"
    by (rule werror_rule [OF assms]) (simp add: estr_length)
  from decref_rule [OF this, of c]
  have "runs (decref sv (Some c) (np_werror (Some Einuse) 5 s)) (sinv uok M (\<lambda>_. 1) {a})"
    by (cases "c = a") (auto simp: insert_Diff_if elim!: runs_mono intro: sinv_weaken)
  then show ?thesis by (auto simp: answer_def elim!: runs_mono)
qed

lemma walk_new:
  assumes b: "b \<noteq> a" and s: "sinv uok M ((\<lambda>_. 1)(a := 2, b := 0)) {a, b} s"
    and n: "unat (fc_nwname tc) \<le> MAXWELEM" and "clones sv"
  shows "runs (sv_clone sv a b s \<bind> (\<lambda>(ok, s). (if \<not> ok then Some (None, s) else
      c_fids s a \<bind> (\<lambda>f. np_user_incref (f_user f) s \<bind> (\<lambda>s.
        fid_set b (\<lambda>g. g\<lparr>f_user := f_user f, f_type := f_type f\<rparr>) s \<bind> (\<lambda>s. walk_finish sv tc b s)))) \<bind>
      (\<lambda>(rc, s). decref sv (Some b) s \<bind> (\<lambda>s. Some ((rc, Some a), s))))) (answer uok M)"
proof -
  have walked: "runs (c_fids s1 a \<bind> (\<lambda>f. np_user_incref (f_user f) s1 \<bind> (\<lambda>s.
        fid_set b (\<lambda>g. g\<lparr>f_user := f_user f, f_type := f_type f\<rparr>) s \<bind> (\<lambda>s. walk_finish sv tc b s))))
      (\<lambda>(rc, s). sinv uok M ((\<lambda>_. 1)(a := 2, b := 1)) {a, b} s \<and> reply_ok rc)"
    if "sinv uok M ((\<lambda>_. 1)(a := 2, b := 0)) {a, b} s1" for s1
    by (rule share_user [OF that])
      (use walk_finish_rule [of M "(\<lambda>_. 1)(a := 2, b := 0)" "{a, b}" _ b tc] n in \<open>auto simp: same_links_def\<close>)
  have cloned: "runs (sv_clone sv a b s) (\<lambda>(ok, s). ok \<and> sinv uok M ((\<lambda>_. 1)(a := 2, b := 0)) {a, b} s)"
    using clone_rule [OF s, of a b] assms(4) unfolding runs_def clones_def by fast
  have rest: "runs ((c_fids s1 a \<bind> (\<lambda>f. np_user_incref (f_user f) s1 \<bind> (\<lambda>s.
        fid_set b (\<lambda>g. g\<lparr>f_user := f_user f, f_type := f_type f\<rparr>) s \<bind> walk_finish sv tc b))) \<bind>
        (\<lambda>(rc, s). decref sv (Some b) s \<bind> (\<lambda>s. Some ((rc, Some a), s)))) (answer uok M)"
    if "sinv uok M ((\<lambda>_. 1)(a := 2, b := 0)) {a, b} s1" for s1
    by (rule runs_then [OF walked [OF that]]) (use release_new [OF _ b] in blast)
  show ?thesis
    by (rule runs_then [OF cloned]) (simp only: simp_thms if_False rest)
qed

lemma walk_self:
  assumes h: "held M a s" and n: "unat (fc_nwname tc) \<le> MAXWELEM"
  shows "runs (walk_finish sv tc a s \<bind> (\<lambda>(rc, s). decref sv (Some a) s \<bind>
      (\<lambda>s. Some ((rc, Some a), s)))) (answer uok M)"
proof -
  have "runs (walk_finish sv tc a s) (\<lambda>(rc, s2). sinv uok M ((\<lambda>_. 1)(a := 3)) {a} s2 \<and> reply_ok rc)"
    using walk_finish_rule [OF h, of a tc] n by simp
  moreover have "runs (decref sv (Some a) s2 \<bind> (\<lambda>s. Some ((rc, Some a), s))) (answer uok M)"
    if "sinv uok M ((\<lambda>_. 1)(a := 3)) {a} s2" "reply_ok rc" for rc s2
    using decref_rule [OF that(1), of a] held_answer [OF _ that(2)] by (auto elim!: runs_mono)
  ultimately show ?thesis
    by (subst runs_bind) (erule runs_mono, auto simp del: runs_bind)
qed

lemma walk_handler:
  assumes "ready uok M s" "clones sv"
  shows "runs (np_walk sv tc s) (answer uok M)"
  unfolding np_walk_def
  by (rule one_fid_rule [OF assms(1)], intro runs_if)
    (simp_all add: handler_rules walk_self walk_used walk_new new_fid_rule not_less assms(2) del: runs_bind)

end

end
