(* ===== verification/Fcall_Auth.thy ===== *)
theory Fcall_Auth
  imports Fcall_Fids
begin

text \<open>
  \<open>np_auth\<close> and \<open>np_attach\<close>, the handlers that take a user from the user pool. They copy strings with
  \<^verbatim>\<open>np_strdup\<close>, which does not survive an exhausted memory; hence memory is assumed here.
\<close>

definition npstr_ok :: "Npstr \<Rightarrow> bool" where
  "npstr_ok str \<longleftrightarrow> s_str str \<noteq> None \<or> s_len str = 0"

lemma npstr_ok_strdup: "npstr_ok str \<Longrightarrow> \<exists>cs. np_strdup str = Some cs"
  by (auto simp: npstr_ok_def np_strdup_def split: option.splits)

lemma strdup_mem: "c_mal s = [] \<Longrightarrow> npstr_ok str \<Longrightarrow> \<exists>cs. strdup_act str s = Some (cs, s)"
  using npstr_ok_strdup [of str] by (auto simp: strdup_act_def take_mal_def)

lemma dup_aname_mem: "c_mal s = [] \<Longrightarrow> npstr_ok (fc_aname tc) \<Longrightarrow> \<exists>an. dup_aname tc s = Some (an, s)"
  using strdup_mem [of s "fc_aname tc"] by (auto simp: dup_aname_def)

context file_server
begin

abbreviation (input) memory :: "(addr \<Rightarrow> int) \<Rightarrow> addr set \<Rightarrow> 'e conn \<Rightarrow> bool" where
  "memory \<equiv> sinv uok True"

lemma find_user_rule:
  assumes "memory L D s" "npstr_ok (fc_uname tc)"
  shows "runs (find_user sv tc s) (\<lambda>(u, s'). memory L D s' \<and> (\<forall>a. u = Some a \<longrightarrow> spare s' a))"
proof -
  note ok = sinvD [OF assms(1)]
  have got: "memory L D s' \<and> (\<forall>a. u = Some a \<longrightarrow> spare s' a)"
    if "cb_step s s'" "uok s'" "\<forall>a. u = Some a \<longrightarrow> gained s s' a" for u s'
    using that sinv_cb [OF assms(1)] gained_spare [OF ok(3)] by blast
  have look: "runs (if s_len (fc_uname tc) \<noteq> 0 \<and> fc_n_uname tc = - 1
        then strdup_act (fc_uname tc) s \<bind> (\<lambda>(uname, s). sv_uname2user sv uname s)
        else sv_uid2user sv (fc_n_uname tc) s)
      (\<lambda>(u, s'). memory L D s' \<and> (\<forall>a. u = Some a \<longrightarrow> spare s' a))"
  proof (rule runs_if)
    obtain cs where "strdup_act (fc_uname tc) s = Some (cs, s)"
      using strdup_mem [OF ok(7) assms(2)] by auto
    then show "runs (strdup_act (fc_uname tc) s \<bind> (\<lambda>(uname, s). sv_uname2user sv uname s))
        (\<lambda>(u, s'). memory L D s' \<and> (\<forall>a. u = Some a \<longrightarrow> spare s' a))"
      by simp (rule runs_mono [OF uname2user_law [OF ok(1)]], use got in auto)
    show "runs (sv_uid2user sv (fc_n_uname tc) s) (\<lambda>(u, s'). memory L D s' \<and> (\<forall>a. u = Some a \<longrightarrow> spare s' a))"
      by (rule runs_mono [OF uid2user_law [OF ok(1)]]) (use got in auto)
  qed
  show ?thesis
    unfolding find_user_def
    by (rule runs_then [OF look]) (auto simp: werror_rule estr_length split: option.splits)
qed

lemma auth_start_rule:
  assumes "memory L D s" "a \<in> D"
  shows "runs (auth_start sv a an s) (\<lambda>(rc, s'). memory L D s' \<and> reply_ok rc \<and> (\<forall>r. rc = Some r \<longrightarrow> fc_type r = Rauth))"
proof -
  have start: "runs (case Option.bind (sv_auth sv) au_startauth of None \<Rightarrow> Some ((0, qid0), s) | Some f \<Rightarrow> f a an s)
      (\<lambda>(r, s'). memory L D s' \<and> (fst r \<noteq> 0 \<longrightarrow> q_type (snd r) AND 0x08 \<noteq> 0))"
  proof (rule runs_case_option)
    fix f assume "Option.bind (sv_auth sv) au_startauth = Some f"
    then obtain au where "sv_auth sv = Some au" "au_startauth au = Some f" by (cases "sv_auth sv") auto
    from startauth_law [OF this sinvD(1) [OF assms(1)] sinvD(5) [OF assms]]
    show "runs (f a an s) (\<lambda>(r, s'). memory L D s' \<and> (fst r \<noteq> 0 \<longrightarrow> q_type (snd r) AND 0x08 \<noteq> 0))"
      by (rule runs_mono) (use sinv_cb [OF assms(1)] in auto)
  qed (use assms(1) in simp)
  show ?thesis
    unfolding auth_start_def
    by (subst runs_bind, rule runs_mono [OF start])
      (auto simp: werror_rule estr_length intro!: runs_mono [OF build_small(3)])
qed

lemma attach_user_rule:
  assumes "memory L D s" "a \<in> D" "set_option af \<subseteq> D" "npstr_ok (fc_uname tc)" "npstr_ok (fc_aname tc)"
  shows "runs (attach_user sv tc a af s) (\<lambda>(rc, s'). memory L D s' \<and> reply_ok rc)"
  unfolding attach_user_def
proof (rule runs_then [OF find_user_rule [OF assms(1,4)]], rule runs_case_option)
  fix u s1 b assume s1: "memory L D s1 \<and> (\<forall>a. u = Some a \<longrightarrow> spare s1 a)" "u = Some b"
  have "runs (fid_set a (\<lambda>f. f\<lparr>f_user := u\<rparr>) s1) (\<lambda>s'. memory L D s' \<and> c_users s' = c_users s1)"
    by (rule set_user_rule [of _ _ _ _ _ u]) (use s1 assms(2) in \<open>auto simp: same_links_def\<close>)
  moreover have "runs (dup_aname tc s2 \<bind> (\<lambda>(aname, s).
        (case Option.bind (sv_auth sv) au_checkauth of None \<Rightarrow> Some (1, s) | Some f \<Rightarrow> f a af aname s) \<bind>
        (\<lambda>(n, s). if n = 0 then Some (None, s) else sv_call sv (CallAttach a af (fc_uname tc) (fc_aname tc)) s)))
      (\<lambda>(rc, s'). memory L D s' \<and> reply_ok rc)" if s2: "memory L D s2" for s2
  proof -
    obtain an where an: "dup_aname tc s2 = Some (an, s2)"
      using dup_aname_mem [OF sinvD(7) [OF s2] assms(5)] by auto
    have chk: "runs (case Option.bind (sv_auth sv) au_checkauth of None \<Rightarrow> Some (1, s2) | Some f \<Rightarrow> f a af an s2)
        (\<lambda>(n, s'). memory L D s')"
    proof (rule runs_case_option)
      fix f assume "Option.bind (sv_auth sv) au_checkauth = Some f"
      then obtain au where "sv_auth sv = Some au" "au_checkauth au = Some f" by (cases "sv_auth sv") auto
      from checkauth_law [OF this sinvD(1) [OF s2] sinvD(5) [OF s2 assms(2)], of af an]
      have "runs (f a af an s2) (\<lambda>(n, s'). cb_step s2 s' \<and> uok s')"
        using sinvD(5) [OF s2] assms(3) by auto
      then show "runs (f a af an s2) (\<lambda>(n, s'). memory L D s')"
        by (rule runs_mono) (use sinv_cb [OF s2] in auto)
    qed (use s2 in simp)
    have "runs (if n = 0 then Some (None, s3) else sv_call sv (CallAttach a af (fc_uname tc) (fc_aname tc)) s3)
        (\<lambda>(rc, s'). memory L D s' \<and> reply_ok rc)" if "memory L D s3" for n :: int and s3
      using that call_rule [OF that, of "CallAttach a af (fc_uname tc) (fc_aname tc)"] assms(2,3) by simp
    then show ?thesis by (simp add: an del: runs_bind) (rule runs_then [OF chk], blast)
  qed
  ultimately show "runs (fid_set a (\<lambda>f. f\<lparr>f_user := u\<rparr>) s1 \<bind> (\<lambda>s. dup_aname tc s \<bind> (\<lambda>(aname, s).
        (case Option.bind (sv_auth sv) au_checkauth of None \<Rightarrow> Some (1, s) | Some f \<Rightarrow> f a af aname s) \<bind>
        (\<lambda>(n, s). if n = 0 then Some (None, s) else sv_call sv (CallAttach a af (fc_uname tc) (fc_aname tc)) s))))
      (\<lambda>(rc, s'). memory L D s' \<and> reply_ok rc)"
    by (subst runs_bind) (erule runs_mono, blast)
qed simp

text \<open>A fid created for this request: the reference taken at once makes it like any other.\<close>

lemma create_held:
  assumes "memory (\<lambda>_. 1) {} s" "\<And>c. \<not> holds s fid c"
    "\<And>s'. memory (\<lambda>_. 1) {} s' \<Longrightarrow> runs (n s') Q"
    "\<And>a s'. memory (\<lambda>_. 1) {a} s' \<Longrightarrow> holds s' fid a \<Longrightarrow> runs (k a s') Q"
  shows "runs (np_fid_create fid aux s \<bind> (\<lambda>(r, s). case r of
      None \<Rightarrow> n s | Some a \<Rightarrow> np_fid_incref (Some a) s \<bind> (\<lambda>s. k a s))) Q"
proof (rule runs_then [OF create_rule [OF assms(1,2)]], rule runs_case_option)
  fix r s1 a assume "case r of None \<Rightarrow> memory (\<lambda>_. 1) {} s1
      | Some b \<Rightarrow> c_fids s b = None \<and> memory ((\<lambda>_. 1)(b := 0)) {b} s1 \<and> holds s1 fid b" "r = Some a"
  then have a: "memory ((\<lambda>_. 1)(a := 0)) {a} s1" "holds s1 fid a" by simp_all
  have "runs (np_fid_incref (Some a) s1) (\<lambda>s'. memory (\<lambda>_. 1) {a} s' \<and> holds s' fid a)"
  proof (rule runs_mono [OF incref_rule [OF a(1)]])
    fix s' assume "memory (((\<lambda>_. 1)(a := 0))(a := ((\<lambda>_. 1)(a := 0)) a + 1)) {a} s' \<and> same_rest s1 s' \<and> facts s' = facts s1"
    moreover from this obtain f where "c_fids s' a = Some f" using sinv_live [of uok True _ "{a}" s' a] by blast
    ultimately show "memory (\<lambda>_. 1) {a} s' \<and> holds s' fid a"
      using facts_Some [of s' s1 a f] a(2) by (auto simp: holds_def keys_def fid_facts_def)
  qed simp
  then show "runs (np_fid_incref (Some a) s1 \<bind> (\<lambda>s. k a s)) Q"
    by (subst runs_bind) (erule runs_mono, use assms(4) in blast)
qed (use assms(3) in simp)

lemma release_ready: "memory (\<lambda>_. 1) (insert a D) s \<Longrightarrow> runs (decref sv (Some a) s) (memory (\<lambda>_. 1) (D - {a}))"
  using decref_rule [of True "\<lambda>_. 1" "insert a D" s a] by simp

lemma auth_body:
  assumes "memory (\<lambda>_. 1) {a} s" "\<forall>a. u = Some a \<longrightarrow> spare s a" "npstr_ok (fc_aname tc)"
  shows "runs (case u of None \<Rightarrow> Some (None, s)
      | Some _ \<Rightarrow> dup_aname tc s \<bind> (\<lambda>(aname, s). fid_set a (\<lambda>f. f\<lparr>f_user := u, f_type := Qtauth\<rparr>) s \<bind>
          (\<lambda>s. auth_start sv a aname s)))
    (\<lambda>(rc, s'). memory (\<lambda>_. 1) {a} s' \<and> reply_ok rc \<and> (\<forall>r. rc = Some r \<longrightarrow> fc_type r = Rauth))"
proof -
  obtain an where an: "dup_aname tc s = Some (an, s)"
    using dup_aname_mem [OF sinvD(7) [OF assms(1)] assms(3)] by auto
  have "runs (fid_set a (\<lambda>f. f\<lparr>f_user := u, f_type := Qtauth\<rparr>) s) (\<lambda>s'. memory (\<lambda>_. 1) {a} s' \<and> c_users s' = c_users s)"
    by (rule set_user_rule [of _ _ _ _ _ u]) (use assms in \<open>auto simp: same_links_def\<close>)
  then show ?thesis
    using assms(1) auth_start_rule [of "\<lambda>_. 1" "{a}" _ a an]
    by (auto simp: an split: option.splits elim!: runs_mono)
qed

lemma auth_end:
  assumes "memory (\<lambda>_. 1) {a} s" "reply_ok rc" "\<forall>r. rc = Some r \<longrightarrow> fc_type r = Rauth"
  shows "runs ((case rc of None \<Rightarrow> decref sv (Some a) s | Some _ \<Rightarrow> Some s) \<bind> (\<lambda>s. Some ((rc, None), s))) (answer uok True)"
  using assms release_ready [of a "{}" s]
  by (auto simp: answer_def split: option.splits elim!: runs_mono intro: sinv_weaken)

lemma auth_handler:
  assumes "ready uok True s" "npstr_ok (fc_uname tc)" "npstr_ok (fc_aname tc)"
  shows "runs (np_auth sv tc s) (answer uok True)"
  unfolding np_auth_def
proof (rule runs_then [OF find_rule [OF assms(1)]], elim conjE, rule runs_case_option)
  fix r s1 a assume s1: "memory (\<lambda>_. 1) ({} \<union> set_option r) s1" "r = Some a"
  then have "memory (\<lambda>_. 1) {a} (np_werror (Some Einuse) 5 s1)" by (simp add: werror_rule estr_length)
  from release_ready [OF this]
  show "runs (decref sv (Some a) (np_werror (Some Einuse) 5 s1) \<bind> (\<lambda>s. Some ((None, None), s))) (answer uok True)"
    by (auto simp: answer_def elim!: runs_mono)
next
  fix r s1 assume s1: "memory (\<lambda>_. 1) ({} \<union> set_option r) s1" "fid_view s1 = fid_view s"
    "\<forall>a. r = Some a \<longleftrightarrow> holds s (fc_afid tc) a" "r = None"
  then have h: "memory (\<lambda>_. 1) {} s1" "\<And>c. \<not> holds s1 (fc_afid tc) c" by (auto simp: holds_view)
  show "runs (np_fid_create (fc_afid tc) None s1 \<bind> (\<lambda>(r, s). case r of None \<Rightarrow> Some ((None, None), s)
      | Some a \<Rightarrow> np_fid_incref (Some a) s \<bind> (\<lambda>s. find_user sv tc s \<bind> (\<lambda>(u, s).
          (case u of None \<Rightarrow> Some (None, s)
           | Some _ \<Rightarrow> dup_aname tc s \<bind> (\<lambda>(aname, s). fid_set a (\<lambda>f. f\<lparr>f_user := u, f_type := Qtauth\<rparr>) s \<bind>
               (\<lambda>s. auth_start sv a aname s))) \<bind>
          (\<lambda>(rc, s). (case rc of None \<Rightarrow> decref sv (Some a) s | Some _ \<Rightarrow> Some s) \<bind> (\<lambda>s. Some ((rc, None), s)))))))
      (answer uok True)"
    by (rule create_held [OF h], simp add: answer_def, rule runs_then [OF find_user_rule [OF _ assms(2)]], assumption,
        elim conjE, rule runs_then [OF auth_body [OF _ _ assms(3)]], assumption+)
      (elim conjE, rule auth_end)
qed

text \<open>
  \<open>np_attach\<close> with \<open>afid = fid\<close> is left out: it drops the reference of the fid it has just created, which
  the response then drops again.
\<close>

lemma attach_afid:
  assumes "memory (\<lambda>_. 1) (insert a (set_option af)) s" "af \<noteq> Some a" "npstr_ok (fc_uname tc)" "npstr_ok (fc_aname tc)"
  shows "runs ((case af of
        None \<Rightarrow> if fc_afid tc \<noteq> NOFID then Some (None, np_werror (Some Eunknownfid) EIO s) else attach_user sv tc a af s
      | Some b \<Rightarrow> c_fids s b \<bind> (\<lambda>f. if \<not> is_auth f then Some (None, np_werror (Some Ebadusefid) EIO s)
          else np_fid_incref af s \<bind> (\<lambda>s. attach_user sv tc a af s))) \<bind>
      (\<lambda>(rc, s). decref sv af s \<bind> (\<lambda>s. Some ((rc, Some a), s)))) (answer uok True)"
proof (cases af)
  case None
  have e: "memory (\<lambda>_. 1) {a} (np_werror (Some Eunknownfid) 5 s)"
    using werror_rule [of True "\<lambda>_. 1" "{a}" s "Some Eunknownfid"] assms(1) None by (simp add: estr_length)
  have "runs (attach_user sv tc a None s) (\<lambda>(rc, s'). memory (\<lambda>_. 1) {a} s' \<and> reply_ok rc)"
    using attach_user_rule [of "\<lambda>_. 1" "{a}" s a None tc] assms None by simp
  then show ?thesis
    using e by (auto simp: None decref_None_rule answer_def elim!: runs_mono)
next
  case (Some b)
  have s: "memory (\<lambda>_. 1) {a, b} s" "b \<noteq> a" using assms(1,2) Some by auto
  have rel: "runs (decref sv (Some b) s2 \<bind> (\<lambda>s. Some ((rc, Some a), s))) (answer uok True)"
    if "memory (\<lambda>_. 1) {a, b} s2" "reply_ok rc" for rc s2
    using release_ready [of b "{a}" s2] that s(2)
    by (auto simp: insert_commute answer_def elim!: runs_mono)
  have inc: "runs (np_fid_incref (Some b) s \<bind> (\<lambda>s. attach_user sv tc a (Some b) s)) (\<lambda>(rc, s'). memory (\<lambda>_. 1) {a, b} s' \<and> reply_ok rc)"
    by (rule incref_then [OF s(1)], simp)
      (rule attach_user_rule [OF _ _ _ assms(3,4)], auto intro: sinv_weaken)
  obtain f where f: "c_fids s b = Some f" using sinv_live [OF s(1), of b] by auto
  have "memory (\<lambda>_. 1) {a, b} (np_werror (Some Ebadusefid) 5 s)"
    using werror_rule [OF s(1), of "Some Ebadusefid"] by (simp add: estr_length)
  then have "runs (if \<not> is_auth f then Some (None, np_werror (Some Ebadusefid) 5 s)
      else np_fid_incref (Some b) s \<bind> (\<lambda>s. attach_user sv tc a (Some b) s)) (\<lambda>(rc, s'). memory (\<lambda>_. 1) {a, b} s' \<and> reply_ok rc)"
    using inc by (intro runs_if) auto
  then show ?thesis
    unfolding Some option.case f bind.bind_lunit by (rule runs_then) (use rel in blast)
qed

lemma attach_handler:
  assumes "ready uok True s" "fc_afid tc \<noteq> fc_fid tc" "npstr_ok (fc_uname tc)" "npstr_ok (fc_aname tc)"
  shows "runs (np_attach sv tc s) (answer uok True)"
  unfolding np_attach_def
proof (rule runs_then [OF find_rule [OF assms(1)]], elim conjE, rule runs_case_option)
  fix r s1 a assume s1: "memory (\<lambda>_. 1) ({} \<union> set_option r) s1" "r = Some a"
  then have "memory (\<lambda>_. 1) {a} (np_werror (Some Einuse) 5 s1)" by (simp add: werror_rule estr_length)
  then show "runs (fail Einuse 5 None s1) (answer uok True)"
    by (auto simp: fail_def answer_def intro: sinv_weaken)
next
  fix r s1 assume s1: "memory (\<lambda>_. 1) ({} \<union> set_option r) s1" "fid_view s1 = fid_view s"
    "\<forall>a. r = Some a \<longleftrightarrow> holds s (fc_fid tc) a" "r = None"
  then have h: "memory (\<lambda>_. 1) {} s1" "\<And>c. \<not> holds s1 (fc_fid tc) c" by (auto simp: holds_view)
  have af: "runs (np_fid_find (fc_afid tc) s2) (\<lambda>(af, s'). memory (\<lambda>_. 1) (insert a (set_option af)) s' \<and> af \<noteq> Some a)"
    if "memory (\<lambda>_. 1) {a} s2" "holds s2 (fc_fid tc) a" for a s2
  proof -
    have "\<not> holds s2 (fc_afid tc) a" using that(2) assms(2) by (simp add: holds_def)
    then show ?thesis by (intro runs_mono [OF find_rule [OF that(1)]]) auto
  qed
  show "runs (np_fid_create (fc_fid tc) None s1 \<bind> (\<lambda>(r, s). case r of None \<Rightarrow> Some ((None, None), s)
      | Some a \<Rightarrow> np_fid_incref (Some a) s \<bind> (\<lambda>s. np_fid_find (fc_afid tc) s \<bind> (\<lambda>(af, s).
         (case af of
            None \<Rightarrow> if fc_afid tc \<noteq> NOFID then Some (None, np_werror (Some Eunknownfid) EIO s) else attach_user sv tc a af s
          | Some b \<Rightarrow> c_fids s b \<bind> (\<lambda>f. if \<not> is_auth f then Some (None, np_werror (Some Ebadusefid) EIO s)
              else np_fid_incref af s \<bind> (\<lambda>s. attach_user sv tc a af s))) \<bind>
         (\<lambda>(rc, s). decref sv af s \<bind> (\<lambda>s. Some ((rc, Some a), s))))))) (answer uok True)"
    by (rule create_held [OF h], simp add: answer_def, rule runs_then [OF af], assumption+)
      (elim conjE, rule attach_afid [OF _ _ assms(3,4)])
qed

end

end
