(* ===== verification/Srv.thy ===== *)
theory Srv
  imports Fcall_Auth
begin

text \<open>
  Serving one request, \<^verbatim>\<open>libnpfs/srv.c\<close>: the table of handlers, the error reply of
  \<^verbatim>\<open>np_process_request\<close>, and the part of \<^verbatim>\<open>np_respond\<close> that works on the connection. A table entry is
  NULL, a handler, or one of the two handlers that work on the request lists.
\<close>

datatype (plugins only: code) 'e np_fcall = Null | Handler "'e npsrv \<Rightarrow> 'e handler" | Np_version | Np_flush

definition np_fcalls :: "'e np_fcall list" where
  "np_fcalls =
    [Null, Handler np_statfs, Null, Handler np_lopen, Handler np_lcreate, Handler np_symlink,
     Handler np_mknod, Handler np_rename, Handler np_readlink, Handler np_getattr, Handler np_setattr,
     Null, Handler np_xattrwalk, Handler np_xattrcreate, Null, Null, Null, Handler np_readdir,
     Null, Null, Null, Null, Handler np_fsync, Handler np_flock, Handler np_getlock,
     Null, Null, Null, Null, Null, Null, Null, Handler np_link, Handler np_mkdir, Handler np_renameat,
     Handler np_unlinkat, Null, Null, Null, Null, Null, Null, Null, Null, Null, Null, Null,
     Np_version, Handler np_auth, Handler np_attach, Null, Np_flush, Handler np_walk, Handler np_open,
     Handler np_create_req, Handler np_read, Handler np_write, Handler np_clunk, Handler np_remove,
     Handler np_stat, Handler np_wstat]"

text \<open>The lookup; \<open>None\<close> is an access past the end of the array.\<close>

definition find_fcall :: "u8 \<Rightarrow> 'e np_fcall option" where
  "find_fcall ty =
     (if ty < Tfirst \<or> Rlast < ty then Some Null
      else let i = unat (ty - Tfirst) div 2;
               tbl = np_fcalls :: 'e np_fcall list
           in if i < length tbl then Some (tbl ! i) else None)"

text \<open>What becomes of the handler's reply: an error that was recorded replaces it.\<close>

definition error_reply :: "Npfcall option \<Rightarrow> (Npfcall option, 'e) act" where
  "error_reply rc s =
     (case np_rerror s of
        (None, _) \<Rightarrow> Some (rc, s)
      | (Some ename, ecode) \<Rightarrow>
          if c_dotl s then build (\<lambda>mal. np_create_rlerror mal (word_of_int ecode)) s
          else build (\<lambda>mal. np_create_rerror mal ename ecode (c_dotu s)) s)"

definition unsupported :: cstring where
  "unsupported = cstr ''unsupported message''"

text \<open>A request whose table entry is NULL or a handler on the connection.\<close>

definition process :: "'e npsrv \<Rightarrow> ('e npsrv \<Rightarrow> 'e handler) option \<Rightarrow> 'e handler" where
  "process sv f tc s =
     (let s = np_werror None 0 s
      in do { ((rc, rf), s) \<leftarrow>
                (case f of
                   Some h \<Rightarrow> h sv tc s
                 | None \<Rightarrow> Some ((None, None), np_werror (Some unsupported) ENOSYS s));
              (rc, s) \<leftarrow> error_reply rc s;
              Some ((rc, rf), s) })"

text \<open>
  \<^verbatim>\<open>np_respond\<close> on the connection: the offset of a directory read, the tag, the reference of the request.
  \<^verbatim>\<open>diroffset\<close> keeps 32 bits of the sum.
\<close>

definition finish :: "'e npsrv \<Rightarrow> Npfcall \<Rightarrow> u16 \<Rightarrow> Npfcall \<Rightarrow> ptr \<Rightarrow> (Npfcall, 'e) act" where
  "finish sv tc tag rc rf s =
     do { s \<leftarrow> (if fc_type rc = Rread then
                  do { a \<leftarrow> rf;
                       f \<leftarrow> c_fids s a;
                       if is_dir f
                       then fid_set a (\<lambda>f. f\<lparr>f_diroffset := ucast (fc_offset tc + ucast (fc_count rc))\<rparr>) s
                       else Some s }
                else Some s);
          rc \<leftarrow> np_set_tag rc tag;
          s \<leftarrow> decref sv rf s;
          Some (rc, s) }"

text \<open>One request of the connection from its arrival to its reply, with nothing else going on.\<close>

definition serve :: "'e npsrv \<Rightarrow> Npfcall \<Rightarrow> (Npfcall option, 'e) act" where
  "serve sv tc s =
     do { e \<leftarrow> find_fcall (fc_type tc);
          f \<leftarrow> (case e of Null \<Rightarrow> Some None | Handler h \<Rightarrow> Some (Some h) | _ \<Rightarrow> None);
          ((rc, rf), s) \<leftarrow> process sv f tc s;
          (case rc of
             None \<Rightarrow> Some (None, s)
           | Some r \<Rightarrow> do { (r, s) \<leftarrow> finish sv tc (fc_tag tc) r rf s; Some (Some r, s) }) }"

subsection \<open>Serving a request is safe\<close>

text \<open>
  The requests the code does not survive, or may not: a Tauth or Tattach when memory runs out (\<^verbatim>\<open>np_strdup\<close>),
  a Tattach that names its own new fid as \<open>afid\<close>, a Twalk with a server that refuses to clone, a read
  of an authentication fid with a count near \<open>2\<^sup>3\<^sup>1\<close>, a Tclunk of a fid opened with \<open>Orclose\<close>, and a type past
  the table. Version and flush requests work on the request lists. The table is indexed with half
  the type, so a reply type stands for the request before it.
\<close>

definition survives :: "'e npsrv \<Rightarrow> Npfcall \<Rightarrow> 'e conn \<Rightarrow> bool" where
  "survives sv tc s \<longleftrightarrow>
     (let i = unat (fc_type tc - Tfirst) div 2
      in fc_type tc \<noteq> Rlast \<and> i \<notin> {47, 51} \<and>
         (i \<in> {48, 49} \<longrightarrow> c_mal s = [] \<and> npstr_ok (fc_uname tc) \<and> npstr_ok (fc_aname tc)) \<and>
         (i = 49 \<longrightarrow> fc_afid tc \<noteq> fc_fid tc) \<and>
         (i = 52 \<longrightarrow> clones sv) \<and>
         (i = 55 \<longrightarrow> unat (fc_count tc) + 11 < 2 ^ 31) \<and>
         (i = 57 \<longrightarrow> \<not> rclose_fid (fc_fid tc) s))"

lemma np_fcalls_length [simp]: "length np_fcalls = 61"
  by (simp add: np_fcalls_def)

lemma fcalls_split: "P (np_fcalls ! i)" if "i < 61" "\<forall>x \<in> set (zip [0..<61] np_fcalls). fst x = i \<longrightarrow> P (snd x)"
proof -
  have "(i, np_fcalls ! i) \<in> set (zip [0..<61] np_fcalls)"
    using that(1) by (force simp: set_zip)
  with that(2) show ?thesis by force
qed

lemma list_entries:
  "i < 61 \<Longrightarrow> np_fcalls ! i = Np_version \<Longrightarrow> i = 47" "i < 61 \<Longrightarrow> np_fcalls ! i = Np_flush \<Longrightarrow> i = 51"
proof -
  assume i: "i < 61"
  have "(np_fcalls ! i = Np_version \<longrightarrow> i = 47) \<and> (np_fcalls ! i = Np_flush \<longrightarrow> i = 51)"
    by (rule fcalls_split [OF i]) (simp add: np_fcalls_def upt_rec)
  then show "np_fcalls ! i = Np_version \<Longrightarrow> i = 47" "np_fcalls ! i = Np_flush \<Longrightarrow> i = 51" by blast+
qed

lemma fcall_index:
  fixes ty :: u8
  assumes "Tfirst \<le> ty" "ty < Rlast"
  shows "unat (ty - Tfirst) div 2 < 61"
proof -
  have "unat (ty - 6) = unat ty - 6" using assms(1) by (simp add: unat_sub)
  moreover have "unat ty < 128" using assms(2) by (simp add: word_less_nat_alt)
  ultimately show ?thesis by simp
qed

context file_server
begin

lemma table_ok:
  assumes "ready uok M s" "i < 61" "i \<in> {48, 49} \<longrightarrow> M \<and> npstr_ok (fc_uname tc) \<and> npstr_ok (fc_aname tc)"
    "i = 49 \<longrightarrow> fc_afid tc \<noteq> fc_fid tc" "i = 52 \<longrightarrow> clones sv" "i = 55 \<longrightarrow> unat (fc_count tc) + 11 < 2 ^ 31"
    "i = 57 \<longrightarrow> \<not> rclose_fid (fc_fid tc) s"
  shows "case np_fcalls ! i of Handler h \<Rightarrow> runs (h sv tc s) (answer uok M) | _ \<Rightarrow> True"
proof (rule fcalls_split [OF assms(2)])
  note rules = simple_handlers [OF assms(1)] dir_handlers [OF assms(1)] opening_handlers [OF assms(1)]
    two_fid_handlers [OF assms(1)] unlinkat_rule [OF assms(1)] remove_rule [OF assms(1)]
    write_rule [OF assms(1)] xattrwalk_rule [OF assms(1)] clunk_rule [OF assms(1)] read_rule [OF assms(1)]
    walk_handler [OF assms(1)]
  have auth: "runs (np_auth sv tc s) (answer uok M)" if "i = 48"
    using that assms(1,3) auth_handler by simp
  have attach: "runs (np_attach sv tc s) (answer uok M)" if "i = 49"
    using that assms(1,3,4) attach_handler by simp
  show "\<forall>x\<in>set (zip [0..<61] np_fcalls). fst x = i \<longrightarrow>
      (case snd x of Handler h \<Rightarrow> runs (h sv tc s) (answer uok M) | _ \<Rightarrow> True)"
    unfolding np_fcalls_def
    using rules auth attach assms(5-7)
    by (simp add: upt_rec)
qed

lemma rerror_built:
  assumes "length e < 1024"
  shows "\<exists>body. built (np_create_rerror (Some m) e c dotu) Rerror body" "np_create_rerror None e c dotu = Inl CNoMem"
    "\<exists>body. built (np_create_rlerror (Some m) w) Rlerror body" "np_create_rlerror None w = Inl CNoMem"
proof -
  have "built (np_create_rerror (Some m) e c dotu) Rerror (encstr e @ (if dotu then enc32 (word_of_int c) else []))"
    unfolding np_create_rerror_def by (rule builtI; use assms in \<open>simp add: wire_simps same_head_def\<close>)
  then show "\<exists>body. built (np_create_rerror (Some m) e c dotu) Rerror body" by blast
  have "built (np_create_rlerror (Some m) w) Rlerror (enc32 (np_errno_to_linux w))"
    unfolding np_create_rlerror_def by (rule builtI; simp add: wire_simps same_head_def)
  then show "\<exists>body. built (np_create_rlerror (Some m) w) Rlerror body" by blast
qed (simp_all add: np_create_rerror_def np_create_rlerror_def np_create_def np_create_common_def)

text \<open>The reply is the handler's when no error was recorded, else an error message.\<close>

definition replied :: "Npfcall option \<Rightarrow> 'e conn \<Rightarrow> Npfcall option \<Rightarrow> bool" where
  "replied rc s rc' \<longleftrightarrow> rc' = rc \<and> c_ename s = None \<or>
     c_ename s \<noteq> None \<and> (\<forall>r. rc' = Some r \<longrightarrow> fc_type r = (if c_dotl s then Rlerror else Rerror))"

lemma error_reply_rule:
  assumes "sinv uok M L D s" "reply_ok rc"
  shows "runs (error_reply rc s) (\<lambda>(rc', s'). sinv uok M L D s' \<and> reply_ok rc' \<and> replied rc s rc')"
proof (cases "c_ename s")
  case None
  then show ?thesis using assms by (simp add: error_reply_def np_rerror_def replied_def)
next
  case (Some e)
  then have e: "length e < 1024" using sinvD(6) [OF assms(1)] by (simp add: ename_ok_def)
  note b = rerror_built [OF e]
  have "runs (build (\<lambda>mal. np_create_rlerror mal (word_of_int (c_ecode s))) s)
      (\<lambda>(rc', s'). sinv uok M L D s' \<and> reply_ok rc' \<and> (\<forall>r. rc' = Some r \<longrightarrow> fc_type r = Rlerror))"
    by (rule runs_mono [OF build_reply [OF assms(1) b(3,4)]]) auto
  moreover have "runs (build (\<lambda>mal. np_create_rerror mal e (c_ecode s) (c_dotu s)) s)
      (\<lambda>(rc', s'). sinv uok M L D s' \<and> reply_ok rc' \<and> (\<forall>r. rc' = Some r \<longrightarrow> fc_type r = Rerror))"
    by (rule runs_mono [OF build_reply [OF assms(1) b(1,2)]]) auto
  ultimately show ?thesis
    by (auto simp: error_reply_def np_rerror_def Some replied_def elim!: runs_mono)
qed

lemma finish_rule:
  assumes "sinv uok M (\<lambda>_. 1) (set_option rf) s" "7 \<le> length (fc_pkt rc)" "fc_type rc = Rread \<longrightarrow> rf \<noteq> None"
  shows "runs (finish sv tc tag rc rf s) (\<lambda>(rc', s'). ready uok M s' \<and> fc_tag rc' = tag \<and> fc_type rc' = fc_type rc)"
proof -
  let ?upd = "if fc_type rc = Rread then rf \<bind> (\<lambda>a. c_fids s a \<bind> (\<lambda>f.
      if is_dir f then fid_set a (\<lambda>f. f\<lparr>f_diroffset := ucast (fc_offset tc + ucast (fc_count rc))\<rparr>) s else Some s))
    else Some s"
  have off: "runs ?upd (sinv uok M (\<lambda>_. 1) (set_option rf))"
  proof (cases "fc_type rc = Rread")
    case True
    then obtain a where a: "rf = Some a" using assms(3) by auto
    then obtain f where f: "c_fids s a = Some f" using sinv_live [OF assms(1), of a] by auto
    have "runs (fid_set a (\<lambda>f. f\<lparr>f_diroffset := w\<rparr>) s) (sinv uok M (\<lambda>_. 1) (set_option rf))" for w
      by (rule runs_mono [OF upd_rule [OF assms(1)]]) (use a in \<open>auto simp: same_links_def\<close>)
    then show ?thesis using True assms(1) by (simp add: a f)
  qed (use assms(1) in simp)
  have drop: "runs (decref sv rf s2) (ready uok M)" if "sinv uok M (\<lambda>_. 1) (set_option rf) s2" for s2
  proof (cases rf)
    case (Some a)
    then show ?thesis using decref_rule [OF that, of a] by simp
  qed (use that in \<open>simp add: decref_None_rule\<close>)
  obtain rc2 where "np_set_tag rc tag = Some rc2" "fc_tag rc2 = tag" "fc_type rc2 = fc_type rc"
    using assms(2) by (auto simp: np_set_tag_def)
  then show ?thesis
    unfolding finish_def by (subst runs_bind, intro runs_mono [OF off]) (auto intro!: runs_mono [OF drop])
qed

lemma process_rule:
  assumes "ready uok M s" "\<And>h. f = Some h \<Longrightarrow> runs (h sv tc (np_werror None 0 s)) (answer uok M)"
  shows "runs (process sv f tc s) (answer uok M)"
proof -
  let ?s = "np_werror None 0 s"
  have s0: "ready uok M ?s" using werror_rule [OF assms(1), of None 0] by simp
  have "runs (case f of Some h \<Rightarrow> h sv tc ?s | None \<Rightarrow> Some ((None, None), np_werror (Some unsupported) ENOSYS ?s))
      (answer uok M)"
    using assms(2) werror_rule [OF s0, of "Some unsupported" ENOSYS]
    by (auto simp: answer_def unsupported_def cstr_def split: option.splits)
  moreover have "runs (error_reply rc s1 \<bind> (\<lambda>(rc, s). Some ((rc, rf), s))) (answer uok M)"
    if "answer uok M ((rc, rf), s1)" for rc rf s1
  proof -
    have a: "sinv uok M (\<lambda>_. 1) (set_option rf) s1" "reply_ok rc" "\<forall>r. rc = Some r \<longrightarrow> fc_type r = Rread \<longrightarrow> rf \<noteq> None"
      using that by (auto simp: answer_def)
    show ?thesis
      by (rule runs_then [OF error_reply_rule [OF a(1,2)]]) (use a(3) in \<open>auto simp: answer_def replied_def split: if_splits\<close>)
  qed
  ultimately show ?thesis
    unfolding process_def Let_def by (subst runs_bind) (erule runs_mono, clarsimp simp del: runs_bind)
qed

lemma serve_rule:
  assumes "ready uok (c_mal s = []) s" "survives sv tc s"
  shows "runs (serve sv tc s) (\<lambda>(r, s'). ready uok (c_mal s = []) s' \<and> (\<forall>m. r = Some m \<longrightarrow> fc_tag m = fc_tag tc))"
proof -
  let ?M = "c_mal s = []" and ?s = "np_werror None 0 s" and ?i = "unat (fc_type tc - Tfirst) div 2"
  have s0: "ready uok ?M ?s" using werror_rule [OF assms(1), of None 0] by simp
  have same: "rclose_fid fid ?s = rclose_fid fid s" for fid
    by (simp add: rclose_fid_def np_werror_def holds_def)
  have entry: "\<exists>f. (find_fcall (fc_type tc) \<bind> (\<lambda>e. case e of Null \<Rightarrow> Some None | Handler h \<Rightarrow> Some (Some h) | _ \<Rightarrow> None)) = Some f \<and>
      (\<forall>h. f = Some h \<longrightarrow> runs (h sv tc ?s) (answer uok ?M))"
  proof (cases "fc_type tc < Tfirst \<or> Rlast < fc_type tc")
    case False
    then have i: "?i < 61"
      using assms(2) by (intro fcall_index) (auto simp: survives_def Let_def)
    have "case np_fcalls ! ?i of Handler h \<Rightarrow> runs (h sv tc ?s) (answer uok ?M) | _ \<Rightarrow> True"
      by (rule table_ok [OF s0 i]) (use assms(2) in \<open>auto simp: survives_def Let_def same\<close>)
    then show ?thesis
      using False i list_entries [OF i] assms(2)
      by (auto simp: find_fcall_def Let_def survives_def split: np_fcall.splits)
  qed (simp add: find_fcall_def)
  then obtain f where f: "(find_fcall (fc_type tc) \<bind> (\<lambda>e. case e of Null \<Rightarrow> Some None | Handler h \<Rightarrow> Some (Some h) | _ \<Rightarrow> None)) = Some f"
      "\<And>h. f = Some h \<Longrightarrow> runs (h sv tc ?s) (answer uok ?M)" by blast
  have out: "runs (case rc of None \<Rightarrow> Some (None, s1)
      | Some r \<Rightarrow> finish sv tc (fc_tag tc) r rf s1 \<bind> (\<lambda>(r, s). Some (Some r, s)))
      (\<lambda>(r, s'). ready uok ?M s' \<and> (\<forall>m. r = Some m \<longrightarrow> fc_tag m = fc_tag tc))"
    if "answer uok ?M ((rc, rf), s1)" for rc rf s1
  proof (rule runs_case_option)
    show "runs (Some (None, s1)) (\<lambda>(r, s'). ready uok ?M s' \<and> (\<forall>m. r = Some m \<longrightarrow> fc_tag m = fc_tag tc))"
      using that by (auto simp: answer_def intro: sinv_weaken)
    fix r assume "rc = Some r"
    with that have "sinv uok ?M (\<lambda>_. 1) (set_option rf) s1" "7 \<le> length (fc_pkt r)" "fc_type r = Rread \<longrightarrow> rf \<noteq> None"
      by (auto simp: answer_def)
    from finish_rule [OF this]
    show "runs (finish sv tc (fc_tag tc) r rf s1 \<bind> (\<lambda>(r, s). Some (Some r, s)))
        (\<lambda>(r, s'). ready uok ?M s' \<and> (\<forall>m. r = Some m \<longrightarrow> fc_tag m = fc_tag tc))"
      by (rule runs_then) auto
  qed
  have "serve sv tc s = process sv f tc s \<bind> (\<lambda>((rc, rf), s). case rc of None \<Rightarrow> Some (None, s)
      | Some r \<Rightarrow> finish sv tc (fc_tag tc) r rf s \<bind> (\<lambda>(r, s). Some (Some r, s)))"
    unfolding serve_def using f(1) by (cases "find_fcall (fc_type tc) :: 'e np_fcall option") auto
  then show ?thesis
    using process_rule [of ?M s f tc, OF assms(1)] f(2) out
    by (simp del: runs_bind, subst runs_bind) (erule runs_mono, clarsimp simp del: runs_bind)
qed

end

end
