(* ===== verification/Users.thy ===== *)
theory Users
  imports Contract
begin

text \<open>
  The private user pool, \<^verbatim>\<open>libnpfs/pvusers.c\<close>: users and groups in two singly linked lists, the heads of
  which are \<open>c_upool\<close> and \<open>c_gpool\<close>. Names are compared with \<^verbatim>\<open>strcmp\<close>; C strings hold no NUL, so this is
  equality. The theory shows that the pool is a \<open>user_pool\<close>.
\<close>

subsection \<open>Operations\<close>

text \<open>The loops over the lists; a search returns the element and its predecessor.\<close>

partial_function (option) user_scan :: "(Npuser \<Rightarrow> bool) \<Rightarrow> Npuser heap \<Rightarrow> ptr \<Rightarrow> ptr option" where
  "user_scan P h p =
     (case p of
        None \<Rightarrow> Some None
      | Some a \<Rightarrow> do { u \<leftarrow> h a; if P u then Some (Some a) else user_scan P h (u_next u) })"

partial_function (option) group_scan :: "(Npgroup \<Rightarrow> bool) \<Rightarrow> Npgroup heap \<Rightarrow> ptr \<Rightarrow> ptr option" where
  "group_scan P h p =
     (case p of
        None \<Rightarrow> Some None
      | Some a \<Rightarrow> do { g \<leftarrow> h a; if P g then Some (Some a) else group_scan P h (g_next g) })"

definition np_priv_uname2user :: "cstring \<Rightarrow> (ptr, 'e) act" where
  "np_priv_uname2user uname s =
     do { r \<leftarrow> user_scan (\<lambda>u. u_uname u = uname) (c_users s) (c_upool s);
          s \<leftarrow> np_user_incref r s;
          Some (r, s) }"

definition np_priv_uid2user :: "u32 \<Rightarrow> (ptr, 'e) act" where
  "np_priv_uid2user uid s =
     do { r \<leftarrow> user_scan (\<lambda>u. u_uid u = uid) (c_users s) (c_upool s);
          s \<leftarrow> np_user_incref r s;
          Some (r, s) }"

definition np_priv_gname2group :: "cstring \<Rightarrow> (ptr, 'e) act" where
  "np_priv_gname2group gname s =
     do { r \<leftarrow> group_scan (\<lambda>g. g_gname g = gname) (c_groups s) (c_gpool s);
          s \<leftarrow> np_group_incref r s;
          Some (r, s) }"

definition np_priv_gid2group :: "u32 \<Rightarrow> (ptr, 'e) act" where
  "np_priv_gid2group gid s =
     do { r \<leftarrow> group_scan (\<lambda>g. g_gid g = gid) (c_groups s) (c_gpool s);
          s \<leftarrow> np_group_incref r s;
          Some (r, s) }"

text \<open>Decimal numbers, as \<^verbatim>\<open>%d\<close> prints them.\<close>

fun digits :: "nat \<Rightarrow> cstring" where
  "digits n = (if n < 10 then [] else digits (n div 10)) @ [of_nat (48 + n mod 10)]"

declare digits.simps [simp del]

definition decimal :: "int \<Rightarrow> cstring" where
  "decimal i = (if i < 0 then cstr ''-'' else []) @ digits (nat \<bar>i\<bar>)"

definition Euserexists :: cstring where "Euserexists = cstr ''user exists''"
definition Egroupexists :: cstring where "Egroupexists = cstr ''group exists''"

text \<open>
  \<^verbatim>\<open>np_werror\<close> keeps 1023 bytes of a text that has a user's name in it. The new user starts with one reference, the
  pool's, and gets a second one for the caller.
\<close>

definition np_priv_user_add :: "cstring \<Rightarrow> u32 \<Rightarrow> (ptr, 'e) act" where
  "np_priv_user_add uname uid s =
     do { (r, s) \<leftarrow> np_priv_uname2user uname s;
          if r \<noteq> None then
            do { s \<leftarrow> np_user_decref r s;
                 Some (None, np_werror (Some (take 1023 (uname @ cstr '':'' @ Euserexists))) EIO s) }
          else
            do { (r, s) \<leftarrow> np_priv_uid2user uid s;
                 if r \<noteq> None then
                   do { s \<leftarrow> np_user_decref r s;
                        Some (None, np_werror (Some (decimal (sint uid) @ cstr '':'' @ Euserexists)) EIO s) }
                 else
                   (case np_malloc s of
                      (None, s) \<Rightarrow> Some (None, s)
                    | (Some _, s) \<Rightarrow>
                        let a = c_brk s;
                            u = \<lparr>u_refcount = 1, u_uname = uname, u_uid = uid, u_dfltgroup = None,
                                 u_groups = [], u_next = c_upool s\<rparr>
                        in do { s \<leftarrow> np_user_incref (Some a)
                                  (s\<lparr>c_users := (c_users s)(a \<mapsto> u), c_brk := a + 1, c_upool := Some a\<rparr>);
                                Some (Some a, s) }) } }"

definition np_priv_group_add :: "cstring \<Rightarrow> u32 \<Rightarrow> (ptr, 'e) act" where
  "np_priv_group_add gname gid s =
     do { (r, s) \<leftarrow> np_priv_gname2group gname s;
          if r \<noteq> None then
            do { s \<leftarrow> np_group_decref r s;
                 Some (None, np_werror (Some (take 1023 (gname @ cstr '':'' @ Egroupexists))) EIO s) }
          else
            do { (r, s) \<leftarrow> np_priv_gid2group gid s;
                 if r \<noteq> None then
                   do { s \<leftarrow> np_group_decref r s;
                        Some (None, np_werror (Some (decimal (sint gid) @ cstr '':'' @ Egroupexists)) EIO s) }
                 else
                   (case np_malloc s of
                      (None, s) \<Rightarrow> Some (None, s)
                    | (Some _, s) \<Rightarrow>
                        let a = c_brk s;
                            g = \<lparr>g_refcount = 1, g_gname = gname, g_gid = gid, g_next = c_gpool s\<rparr>
                        in do { s \<leftarrow> np_group_incref (Some a)
                                  (s\<lparr>c_groups := (c_groups s)(a \<mapsto> g), c_brk := a + 1, c_gpool := Some a\<rparr>);
                                Some (Some a, s) }) } }"

text \<open>
  The search of \<^verbatim>\<open>np_priv_user_del\<close> and \<^verbatim>\<open>np_priv_group_del\<close> for the predecessor: the last element of the list when
  the user is not in it.
\<close>

partial_function (option) user_pred :: "addr \<Rightarrow> Npuser heap \<Rightarrow> ptr \<Rightarrow> ptr \<Rightarrow> ptr option" where
  "user_pred a h pu tu =
     (case tu of
        None \<Rightarrow> Some pu
      | Some b \<Rightarrow> if b = a then Some pu else do { u \<leftarrow> h b; user_pred a h tu (u_next u) })"

partial_function (option) group_pred :: "addr \<Rightarrow> Npgroup heap \<Rightarrow> ptr \<Rightarrow> ptr \<Rightarrow> ptr option" where
  "group_pred a h pg tg =
     (case tg of
        None \<Rightarrow> Some pg
      | Some b \<Rightarrow> if b = a then Some pg else do { g \<leftarrow> h b; group_pred a h tg (g_next g) })"

definition np_priv_user_del :: "addr \<Rightarrow> 'e conn \<Rightarrow> 'e conn option" where
  "np_priv_user_del a s =
     (if c_upool s = None then Some s
      else
        do { pu \<leftarrow> user_pred a (c_users s) None (c_upool s);
             u \<leftarrow> c_users s a;
             s \<leftarrow> (case pu of
                     None \<Rightarrow> Some (s\<lparr>c_upool := u_next u\<rparr>)
                   | Some b \<Rightarrow> do { h \<leftarrow> heap_upd (c_users s) b (\<lambda>p. p\<lparr>u_next := u_next u\<rparr>);
                                   Some (s\<lparr>c_users := h\<rparr>) });
             np_user_decref (Some a) s })"

definition np_priv_group_del :: "addr \<Rightarrow> 'e conn \<Rightarrow> 'e conn option" where
  "np_priv_group_del a s =
     (if c_gpool s = None then Some s
      else
        do { pg \<leftarrow> group_pred a (c_groups s) None (c_gpool s);
             g \<leftarrow> c_groups s a;
             s \<leftarrow> (case pg of
                     None \<Rightarrow> Some (s\<lparr>c_gpool := g_next g\<rparr>)
                   | Some b \<Rightarrow> do { h \<leftarrow> heap_upd (c_groups s) b (\<lambda>p. p\<lparr>g_next := g_next g\<rparr>);
                                   Some (s\<lparr>c_groups := h\<rparr>) });
             np_group_decref (Some a) s })"

definition np_priv_user_setdfltgroup :: "addr \<Rightarrow> ptr \<Rightarrow> 'e conn \<Rightarrow> 'e conn option" where
  "np_priv_user_setdfltgroup a g s =
     do { u \<leftarrow> c_users s a;
          s \<leftarrow> np_group_decref (u_dfltgroup u) s;
          h \<leftarrow> heap_upd (c_users s) a (\<lambda>u. u\<lparr>u_dfltgroup := g\<rparr>);
          Some (s\<lparr>c_users := h\<rparr>) }"

definition np_priv_ismember :: "addr \<Rightarrow> ptr \<Rightarrow> 'e conn \<Rightarrow> bool option" where
  "np_priv_ismember a g s = do { u \<leftarrow> c_users s a; Some (g \<in> set (u_groups u)) }"

text \<open>\<^verbatim>\<open>realloc\<close> is one of the allocations \<open>c_mal\<close> decides about.\<close>

definition np_priv_group_adduser :: "addr \<Rightarrow> addr \<Rightarrow> (int, 'e) act" where
  "np_priv_group_adduser g a s =
     do { m \<leftarrow> np_priv_ismember a (Some g) s;
          if m then Some (0, s)
          else
            do { _ \<leftarrow> c_groups s g;
                 (case take_mal s of
                    (None, s) \<Rightarrow> Some (- 1, np_werror (Some Ennomem) ENOMEM s)
                  | (Some _, s) \<Rightarrow>
                      do { h \<leftarrow> heap_upd (c_users s) a (\<lambda>u. u\<lparr>u_groups := u_groups u @ [Some g]\<rparr>);
                           Some (0, s\<lparr>c_users := h\<rparr>) }) } }"

text \<open>
  \<^verbatim>\<open>np_priv_group_deluser\<close> ends with a second \<^verbatim>\<open>pthread_mutex_lock(&g->lock)\<close> where the unlock belongs:
  undefined on a default mutex, so the call has no result. \<open>drop_group\<close> is what it does under the lock.
\<close>

definition drop_group :: "addr \<Rightarrow> addr \<Rightarrow> 'e conn \<Rightarrow> 'e conn option" where
  "drop_group g a s =
     do { h \<leftarrow> heap_upd (c_users s) a (\<lambda>u. u\<lparr>u_groups := remove1 (Some g) (u_groups u)\<rparr>);
          Some (s\<lparr>c_users := h\<rparr>) }"

definition relock :: "(int, 'e) act" where
  "relock s = None"

definition np_priv_group_deluser :: "addr \<Rightarrow> addr \<Rightarrow> (int, 'e) act" where
  "np_priv_group_deluser g a s =
     do { _ \<leftarrow> c_groups s g; s \<leftarrow> drop_group g a s; relock s }"

subsection \<open>The invariant\<close>

fun ulist :: "Npuser heap \<Rightarrow> ptr \<Rightarrow> addr list \<Rightarrow> bool" where
  "ulist h p [] \<longleftrightarrow> p = None"
| "ulist h p (a # as) \<longleftrightarrow> p = Some a \<and> (\<exists>u. h a = Some u \<and> ulist h (u_next u) as)"

definition users_in :: "'e conn \<Rightarrow> addr list \<Rightarrow> bool" where
  "users_in s us \<longleftrightarrow>
     ulist (c_users s) (c_upool s) us \<and> distinct us \<and>
     (\<forall>a \<in> set us. \<forall>u. c_users s a = Some u \<longrightarrow> 1 \<le> u_refcount u)"

definition priv_ok :: "'e conn \<Rightarrow> bool" where
  "priv_ok s \<longleftrightarrow> (\<exists>us. users_in s us)"

lemma ulist_cong: "(\<And>a. a \<in> set us \<Longrightarrow> map_option u_next (h' a) = map_option u_next (h a)) \<Longrightarrow> ulist h p us \<Longrightarrow> ulist h' p us"
proof (induction us arbitrary: p)
  case (Cons a us)
  then obtain u where u: "p = Some a" "h a = Some u" "ulist h (u_next u) us" by auto
  moreover obtain u' where "h' a = Some u'" "u_next u' = u_next u"
    using Cons.prems(1) [of a] u(2) by auto
  moreover have "ulist h' (u_next u) us" using Cons.IH [OF _ u(3)] Cons.prems(1) by simp
  ultimately show ?case by simp
qed simp

lemma ulist_alloc: "ulist h p us \<Longrightarrow> a \<in> set us \<Longrightarrow> \<exists>u. h a = Some u"
  by (induction us arbitrary: p) auto

lemma user_scan_ulist:
  "ulist h p us \<Longrightarrow> user_scan P h p = Some (List.find (\<lambda>a. \<exists>u. h a = Some u \<and> P u) us)"
proof (induction us arbitrary: p)
  case Nil
  then show ?case by (simp add: user_scan.simps)
next
  case (Cons a us)
  then show ?case by (auto simp: user_scan.simps [of P h "Some a"])
qed

text \<open>A lookup returns the first user of the list that matches, with a reference for the caller.\<close>

lemma lookup_spec:
  fixes P :: "Npuser \<Rightarrow> bool"
  assumes "users_in s us"
  defines "r \<equiv> List.find (\<lambda>a. \<exists>u. c_users s a = Some u \<and> P u) us"
  shows "\<exists>s'. (user_scan P (c_users s) (c_upool s) \<bind> (\<lambda>r. np_user_incref r s \<bind> (\<lambda>s. Some (r, s)))) = Some (r, s') \<and>
    cb_step s s' \<and> users_in s' us \<and> (\<forall>a. r = Some a \<longrightarrow> gained s s' a)"
proof (cases r)
  case None
  then show ?thesis
    using assms user_scan_ulist [of "c_users s" "c_upool s" us P]
    by (simp add: users_in_def np_user_incref_def cb_step_def cb_frame_def users_grow_def)
next
  case (Some a)
  then have a: "a \<in> set us" unfolding r_def find_Some_iff by auto
  then obtain u where u: "c_users s a = Some u" "1 \<le> u_refcount u"
    using assms(1) ulist_alloc [of "c_users s" "c_upool s" us a] unfolding users_in_def by blast
  let ?s = "s\<lparr>c_users := (c_users s)(a \<mapsto> u\<lparr>u_refcount := u_refcount u + 1\<rparr>)\<rparr>"
  have "ulist (c_users ?s) (c_upool ?s) us"
    using assms(1) ulist_cong [of us "c_users ?s" "c_users s"] u(1) unfolding users_in_def by auto
  then have "users_in ?s us"
    using assms(1) u(2) by (auto simp: users_in_def)
  moreover have "cb_step s ?s" "gained s ?s a"
    using u by (auto simp: cb_step_def cb_frame_def users_grow_def ename_ok_def gained_def)
  moreover have "user_scan P (c_users s) (c_upool s) = Some (Some a)"
    using assms user_scan_ulist [of "c_users s" "c_upool s" us P] Some by (simp add: users_in_def)
  ultimately show ?thesis
    using Some u(1) by (intro exI [of _ ?s]) (simp add: np_user_incref_def heap_upd_def)
qed

lemma user_kept_next: "user_kept u u' \<Longrightarrow> u_next u' = u_next u"
proof -
  assume "user_kept u u'"
  then obtain n where "u' = u\<lparr>u_refcount := n\<rparr>" unfolding user_kept_def by blast
  then show ?thesis by simp
qed

lemma users_in_kept:
  assumes "users_in s us" "users_kept s s'"
  shows "users_in s' us"
proof -
  have r: "rel_option user_kept (c_users s a) (c_users s' a)" for a using assms(2) by (simp add: users_kept_def)
  have "map_option u_next (c_users s' a) = map_option u_next (c_users s a)" for a
    using r [of a] user_kept_next by (cases "c_users s a"; cases "c_users s' a") auto
  then have "ulist (c_users s') (c_upool s') us"
    using assms ulist_cong [of us "c_users s'" "c_users s"] by (simp add: users_in_def users_kept_def)
  moreover have "1 \<le> u_refcount u'" if "a \<in> set us" "c_users s' a = Some u'" for a u'
    using r [of a] that assms(1) by (cases "c_users s a") (auto simp: users_in_def user_kept_def)
  ultimately show ?thesis using assms(1) by (simp add: users_in_def)
qed

interpretation pv: user_pool priv_ok np_priv_uname2user np_priv_uid2user
proof
  show "priv_ok s'" if "priv_ok s" "users_kept s s'" for s s' :: "'e conn"
    using that users_in_kept unfolding priv_ok_def by blast
  show "runs (np_priv_uname2user n s) (\<lambda>(u, s'). cb_step s s' \<and> priv_ok s' \<and> (\<forall>a. u = Some a \<longrightarrow> gained s s' a))"
    if "priv_ok s" for n and s :: "'e conn"
    using that lookup_spec [of s _ "\<lambda>u. u_uname u = n"]
    unfolding priv_ok_def runs_def np_priv_uname2user_def by fastforce
  show "runs (np_priv_uid2user i s) (\<lambda>(u, s'). cb_step s s' \<and> priv_ok s' \<and> (\<forall>a. u = Some a \<longrightarrow> gained s s' a))"
    if "priv_ok s" for i and s :: "'e conn"
    using that lookup_spec [of s _ "\<lambda>u. u_uid u = i"]
    unfolding priv_ok_def runs_def np_priv_uid2user_def by fastforce
qed

subsection \<open>Adding and deleting users\<close>

definition no_user :: "(Npuser \<Rightarrow> bool) \<Rightarrow> 'e conn \<Rightarrow> addr list \<Rightarrow> bool" where
  "no_user P s us \<longleftrightarrow> (\<forall>a \<in> set us. \<forall>u. c_users s a = Some u \<longrightarrow> \<not> P u)"

lemma lookup_none:
  assumes "users_in s us" "no_user P s us"
  shows "user_scan P (c_users s) (c_upool s) = Some None"
proof -
  have "List.find (\<lambda>a. \<exists>u. c_users s a = Some u \<and> P u) us = None"
    using assms(2) by (auto simp: find_None_iff no_user_def)
  then show ?thesis
    using user_scan_ulist [of "c_users s" "c_upool s" us P] assms(1) by (simp add: users_in_def)
qed

lemma user_add_new:
  assumes "users_in s us" "no_user (\<lambda>u. u_uname u = uname) s us" "no_user (\<lambda>u. u_uid u = uid) s us"
    "c_users s (c_brk s) = None" "np_malloc s = (Some m, s1)"
  shows "\<exists>s'. np_priv_user_add uname uid s = Some (Some (c_brk s), s') \<and> users_in s' (c_brk s # us) \<and>
    c_users s' = (c_users s)(c_brk s \<mapsto> \<lparr>u_refcount = 2, u_uname = uname, u_uid = uid, u_dfltgroup = None,
      u_groups = [], u_next = c_upool s\<rparr>)"
proof -
  have k: "c_users s1 = c_users s" "c_upool s1 = c_upool s" "c_brk s1 = c_brk s"
    using assms(5) by (auto simp: np_malloc_def take_mal_def np_werror_def split: list.splits option.splits)
  have a: "c_brk s \<notin> set us"
    using assms(1,4) ulist_alloc [of "c_users s" "c_upool s" us "c_brk s"] by (auto simp: users_in_def)
  let ?h = "(c_users s)(c_brk s \<mapsto> \<lparr>u_refcount = 2, u_uname = uname, u_uid = uid, u_dfltgroup = None,
      u_groups = [], u_next = c_upool s\<rparr>)"
  let ?s = "s1\<lparr>c_users := ?h, c_brk := c_brk s + 1, c_upool := Some (c_brk s)\<rparr>"
  have "ulist ?h (c_upool s) us"
    using assms(1) a by (intro ulist_cong [of us ?h "c_users s"]) (auto simp: users_in_def)
  then have "users_in ?s (c_brk s # us)"
    using assms(1) a by (auto simp: users_in_def)
  moreover have "np_priv_user_add uname uid s = Some (Some (c_brk s), ?s)"
    using assms(5) lookup_none [OF assms(1,2)] lookup_none [OF assms(1,3)] k
    by (simp add: np_priv_user_add_def np_priv_uname2user_def np_priv_uid2user_def np_user_incref_def heap_upd_def Let_def)
  ultimately show ?thesis by (intro exI [of _ ?s]) simp
qed

text \<open>The predecessor the deletion finds.\<close>

lemma user_pred_ulist:
  "ulist h p (xs @ a # ys) \<Longrightarrow> a \<notin> set xs \<Longrightarrow> user_pred a h pu p = Some (if xs = [] then pu else Some (last xs))"
proof (induction xs arbitrary: p pu)
  case Nil
  then show ?case by (simp add: user_pred.simps)
next
  case (Cons b xs)
  then show ?case by (auto simp: user_pred.simps [of a h pu "Some b"])
qed

text \<open>Unlinking \<open>a\<close> from the list: its predecessor, or the head, gets its successor.\<close>

lemma ulist_unlink:
  assumes "ulist h p (xs @ a # ys)" "distinct (xs @ a # ys)" "h a = Some u"
  shows "if xs = [] then p = Some a \<and> ulist h (u_next u) ys
    else \<exists>v. h (last xs) = Some v \<and> ulist (h(last xs \<mapsto> v\<lparr>u_next := u_next u\<rparr>)) p (xs @ ys)"
  using assms
proof (induction xs arbitrary: p)
  case Nil
  then show ?case by simp
next
  case (Cons b xs)
  then obtain w where w: "p = Some b" "h b = Some w" "ulist h (u_next w) (xs @ a # ys)" by auto
  have d: "distinct (xs @ a # ys)" "b \<notin> set (xs @ a # ys)" using Cons.prems(2) by auto
  show ?case
  proof (cases "xs = []")
    case True
    then have "ulist (h(b \<mapsto> w\<lparr>u_next := u_next u\<rparr>)) (u_next u) ys"
      using w(3) d(2) Cons.prems(3) by (auto intro: ulist_cong [of ys _ h, rotated])
    then show ?thesis using True w by simp
  next
    case False
    then have l: "last xs \<noteq> b" using d(2) by auto
    then obtain v where "h (last xs) = Some v"
        "ulist (h(last xs \<mapsto> v\<lparr>u_next := u_next u\<rparr>)) (u_next w) (xs @ ys)"
      using Cons.IH [OF w(3) d(1) Cons.prems(3)] False by (auto split: if_splits)
    then show ?thesis using False l w(1,2) by simp
  qed
qed

lemma user_del_correct:
  assumes "users_in s us" "a \<in> set us" "c_users s a = Some u" "2 \<le> u_refcount u"
  shows "\<exists>s'. np_priv_user_del a s = Some s' \<and> users_in s' (remove1 a us) \<and>
    map_option u_refcount (c_users s' a) = Some (u_refcount u - 1)"
proof -
  obtain xs ys where us: "us = xs @ a # ys" "a \<notin> set xs" using assms(2) split_list_first by metis
  have l: "ulist (c_users s) (c_upool s) (xs @ a # ys)" "distinct (xs @ a # ys)"
    using assms(1) by (auto simp: users_in_def us)
  have ne: "c_upool s \<noteq> None" using l(1) by (cases xs) auto
  have r: "1 \<le> u_refcount v" if "b \<in> set xs \<union> set ys" "c_users s b = Some v" for b v
    using assms(1) that by (auto simp: users_in_def us)
  have rm: "remove1 a us = xs @ ys" using us by (simp add: remove1_append)
  note del = np_priv_user_del_def user_pred_ulist [OF l(1) us(2)] np_user_decref_def heap_upd_def
  show ?thesis
  proof (cases "xs = []")
    case True
    have "ulist ((c_users s)(a \<mapsto> u\<lparr>u_refcount := u_refcount u - 1\<rparr>)) (u_next u) ys"
      using ulist_unlink [OF l assms(3)] True l(2) by (auto intro: ulist_cong [of ys _ "c_users s", rotated])
    then have "users_in (s\<lparr>c_upool := u_next u, c_users := (c_users s)(a \<mapsto> u\<lparr>u_refcount := u_refcount u - 1\<rparr>)\<rparr>) ys"
      using l(2) r by (auto simp: users_in_def)
    then show ?thesis using True assms(3,4) ne rm by (simp add: del)
  next
    case False
    then obtain v where v: "c_users s (last xs) = Some v"
        "ulist ((c_users s)(last xs \<mapsto> v\<lparr>u_next := u_next u\<rparr>)) (c_upool s) (xs @ ys)"
      using ulist_unlink [OF l assms(3)] by auto
    have m: "last xs \<in> set xs" "last xs \<noteq> a" using False us(2) by auto
    have "ulist ((c_users s)(last xs \<mapsto> v\<lparr>u_next := u_next u\<rparr>, a \<mapsto> u\<lparr>u_refcount := u_refcount u - 1\<rparr>)) (c_upool s) (xs @ ys)"
      using v(2) l(2) by (intro ulist_cong [OF _ v(2)]) auto
    then have "users_in (s\<lparr>c_users := (c_users s)(last xs \<mapsto> v\<lparr>u_next := u_next u\<rparr>, a \<mapsto> u\<lparr>u_refcount := u_refcount u - 1\<rparr>)\<rparr>) (xs @ ys)"
      using l(2) r r [OF _ v(1)] m(1) by (auto simp: users_in_def)
    then show ?thesis using False assms(3,4) ne rm v(1) m(2) by (simp add: del)
  qed
qed

end
