(* ===== verification/Serve.thy ===== *)
theory Serve
  imports Srv Users
begin

text \<open>
  The properties of serving one request, for any file server that keeps to its contract, and what
  the code does where the contract does not help: fids used after they were freed, references that
  get lost, checks that overflow. The server \<^verbatim>\<open>np_srv_create\<close> returns, over the private user pool,
  is shown to be a \<open>file_server\<close>.
\<close>

abbreviation priv_srv :: "'e npsrv" where
  "priv_srv \<equiv> np_srv_create np_priv_uname2user np_priv_uid2user"

lemma cb_step_refl [simp]: "cb_step s s"
  by (simp add: cb_step_def cb_frame_def users_grow_def)

lemma werror_step:
  assumes "user_pool uok f g" "uok s" "length e < 1024"
  shows "cb_step s (np_werror (Some e) c s)" "uok (np_werror (Some e) c s)"
proof -
  show "cb_step s (np_werror (Some e) c s)"
    using assms(3) by (simp add: cb_step_def cb_frame_def users_grow_def ename_ok_def np_werror_def)
  have "users_kept s (np_werror (Some e) c s)" by (rule users_keptI) (simp_all add: np_werror_def)
  then show "uok (np_werror (Some e) c s)" using user_pool.uok_kept [OF assms(1,2)] by blast
qed

text \<open>The default operations make a file server of every user pool.\<close>

lemma default_file_server:
  assumes "user_pool uok f g"
  shows "file_server uok (np_srv_create f g)"
proof -
  have w: "cb_step s (np_werror (Some Enotimpl) c s)" "uok (np_werror (Some Enotimpl) c s)" if "uok s" for s c
    using werror_step [OF assms that estr_length(4)] by blast+
  have "file_server_axioms uok (np_srv_create f g)"
    by unfold_locales (auto simp: np_srv_create_def np_default_clone_def np_default_walk_def
        np_default_call_def w split: srvcall.split)
  then show ?thesis using assms by (simp add: file_server_def np_srv_create_def)
qed

interpretation dflt: file_server priv_ok priv_srv
  by (rule default_file_server) (rule pv.user_pool_axioms)

subsection \<open>Safety\<close>

text \<open>
  (C4) Serving a request is memory safe and keeps the connection's invariant. For every server that
  keeps to its contract, a request the code survives (see \<open>survives\<close>) is served to the end: no
  access through NULL or to freed memory, no endless loop in the fid pool. Afterwards the fid pool is consistent,
  every fid has a reference, every user has more references than fids, and a reply carries the
  tag of its request.
\<close>

theorem serve_safe:
  assumes "file_server uok sv" "ready uok (c_mal s = []) s" "survives sv tc s"
  shows "\<exists>r s'. serve sv tc s = Some (r, s') \<and> ready uok (c_mal s = []) s' \<and>
    (\<forall>m. r = Some m \<longrightarrow> fc_tag m = fc_tag tc)"
  using file_server.serve_rule [OF assms] by (auto simp: runs_def)

text \<open>A connection with two fids that belong to nobody, and one with a user and no fid.\<close>

lemma ready_conn2: "ready priv_ok True conn2"
proof -
  have "users_in conn2 []" by (simp add: users_in_def conn2_def conn0_def)
  then have "priv_ok conn2" unfolding priv_ok_def by blast
  moreover have "users_ok conn2"
    by (auto simp: users_ok_def fid_users_def conn2_def fid_ex_def new_fid_def split: if_splits)
  ultimately show ?thesis
    using pool_ok_conn2
    by (auto simp: sinv_def ename_ok_def conn2_def conn0_def fid_ex_def new_fid_def split: if_splits)
qed

abbreviation tclunk65 :: Npfcall where
  "tclunk65 \<equiv> npfcall0\<lparr>fc_type := Tclunk, fc_tag := 5, fc_fid := 65\<rparr>"

theorem serve_safe_witness:
  "ready priv_ok True conn2 \<and> survives priv_srv tclunk65 conn2 \<and>
    (\<exists>r s'. serve priv_srv tclunk65 conn2 = Some (r, s') \<and> ready priv_ok True s' \<and>
      (\<forall>m. r = Some m \<longrightarrow> fc_tag m = 5))"
proof -
  have m: "c_mal conn2 = []" by (simp add: conn2_def conn0_def)
  have "survives priv_srv tclunk65 conn2"
    by (auto simp: survives_def rclose_fid_def conn2_def fid_ex_def new_fid_def split: if_splits)
  moreover from this have "\<exists>r s'. serve priv_srv tclunk65 conn2 = Some (r, s') \<and>
      ready priv_ok (c_mal conn2 = []) s' \<and> (\<forall>m. r = Some m \<longrightarrow> fc_tag m = fc_tag tclunk65)"
    by (intro serve_safe dflt.file_server_axioms) (simp_all add: m ready_conn2)
  ultimately show ?thesis using ready_conn2 m by simp
qed

end
