(* ===== verification/Faults.thy ===== *)
theory Faults
  imports Serve
begin

text \<open>
  Requests that go wrong: what the client is told, and the places where the code itself goes
  wrong, each shown on \<open>serve\<close> for every state and server it concerns.
\<close>

subsection \<open>Error replies\<close>

definition error_packet :: "'e conn \<Rightarrow> u16 \<Rightarrow> cstring \<Rightarrow> int \<Rightarrow> bytes" where
  "error_packet s tag e c =
     (if c_dotl s then wire Rlerror tag (enc32 (np_errno_to_linux (word_of_int c)))
      else wire Rerror tag (encstr e @ (if c_dotu s then enc32 (word_of_int c) else [])))"

lemma error_sent:
  assumes "c_ename s = Some e" "length e < 1024" "c_mal s = []"
  shows "\<exists>r. error_reply rc s = Some (Some r, s) \<and> fc_pkt r = error_packet s NOTAG e (c_ecode s) \<and>
    fc_type r \<noteq> Rread"
proof -
  have "built (np_create_rerror (Some npfcall0) e (c_ecode s) (c_dotu s)) Rerror
      (encstr e @ (if c_dotu s then enc32 (word_of_int (c_ecode s)) else []))"
    unfolding np_create_rerror_def by (rule builtI; use assms(2) in \<open>simp add: wire_simps same_head_def\<close>)
  moreover have "built (np_create_rlerror (Some npfcall0) (word_of_int (c_ecode s))) Rlerror
      (enc32 (np_errno_to_linux (word_of_int (c_ecode s))))"
    unfolding np_create_rlerror_def by (rule builtI; simp add: wire_simps same_head_def)
  ultimately show ?thesis
    using assms(1) unfolding error_reply_def np_rerror_def built_def error_packet_def
    by (auto simp: build_unlimited [OF assms(3)])
qed

lemma error_finished:
  assumes "fc_pkt r = error_packet s NOTAG e c" "fc_type r \<noteq> Rread"
  shows "\<exists>r'. finish sv tc tag r rf s' = decref sv rf s' \<bind> (\<lambda>s'. Some (r', s')) \<and> fc_pkt r' = error_packet s tag e c"
  using np_set_tag_wire [of r _ NOTAG _ tag] assms unfolding finish_def error_packet_def
  by (cases "c_dotl s") fastforce+

text \<open>A handler that only records an error: the client gets it, the fid of the request is dropped.\<close>

lemma serve_error:
  assumes "find_fcall (fc_type tc) = Some (Handler h)" "h sv tc (np_werror None 0 s) = Some ((rc, rf), s1)"
    "c_ename s1 = Some e" "length e < 1024" "c_mal s1 = []"
  shows "\<exists>r. serve sv tc s = decref sv rf s1 \<bind> (\<lambda>s'. Some (Some r, s')) \<and>
    fc_pkt r = error_packet s1 (fc_tag tc) e (c_ecode s1)"
proof -
  obtain r where r: "error_reply rc s1 = Some (Some r, s1)" "fc_pkt r = error_packet s1 NOTAG e (c_ecode s1)" "fc_type r \<noteq> Rread"
    using error_sent [OF assms(3-5)] by blast
  obtain r' where "finish sv tc (fc_tag tc) r rf s1 = decref sv rf s1 \<bind> (\<lambda>s'. Some (r', s'))"
      "fc_pkt r' = error_packet s1 (fc_tag tc) e (c_ecode s1)"
    using error_finished [OF r(2,3)] by blast
  then show ?thesis
    using assms(1,2) r(1) by (cases "decref sv rf s1") (auto simp: serve_def process_def)
qed

subsection \<open>The pool operations on the view\<close>

text \<open>
  What the operations of the fid pool do to the fields of the fids, in a pool that is consistent and
  with a server that does not want to hear of destroyed fids.
\<close>

abbreviation (input) refs :: "int \<Rightarrow> Npfid \<Rightarrow> Npfid" where
  "refs n f \<equiv> f\<lparr>f_refcount := f_refcount f + n\<rparr>"

lemma view_Some: "fid_view s a = Some f \<Longrightarrow> \<exists>g. c_fids s a = Some g \<and> fid_core g = f"
  by (auto simp: fid_view_def)

lemma find_known:
  "pool_ok s \<Longrightarrow> holds s fid a \<Longrightarrow>
    \<exists>s'. np_fid_find fid s = Some (Some a, s') \<and> pool_ok s' \<and> fid_view s' = fid_view s \<and> same_rest s s'"
  using find_spec [of s fid] by metis

lemma find_unknown:
  "pool_ok s \<Longrightarrow> (\<And>a. \<not> holds s fid a) \<Longrightarrow>
    \<exists>s'. np_fid_find fid s = Some (None, s') \<and> pool_ok s' \<and> fid_view s' = fid_view s \<and> same_rest s s'"
  using find_spec [of s fid] by (metis not_None_eq)

lemma set_refs:
  assumes "pool_ok s" "fid_view s a = Some f"
  obtains g where "c_fids s a = Some g" "fid_core g = f"
    "pool_ok (s\<lparr>c_fids := (c_fids s)(a \<mapsto> refs n g)\<rparr>)"
    "fid_view (s\<lparr>c_fids := (c_fids s)(a \<mapsto> refs n g)\<rparr>) = (fid_view s)(a \<mapsto> refs n f)"
proof -
  obtain g where g: "c_fids s a = Some g" "fid_core g = f" using assms(2) by (auto simp: fid_view_def)
  moreover have "pool_ok (s\<lparr>c_fids := (c_fids s)(a \<mapsto> refs n g)\<rparr>)"
    using fids_linked_upd [of "c_fids s" a g "refs n g"] g(1)
    by (intro pool_ok_linked [OF assms(1)]) (auto simp: same_links_def)
  moreover have "fid_view (s\<lparr>c_fids := (c_fids s)(a \<mapsto> refs n g)\<rparr>) = (fid_view s)(a \<mapsto> refs n f)"
    using g(2) by (auto simp: fid_view_def fid_core_def fun_eq_iff)
  ultimately show thesis by (rule that)
qed

lemma incref_view:
  assumes "pool_ok s" "fid_view s a = Some f"
  shows "\<exists>s'. np_fid_incref (Some a) s = Some s' \<and> pool_ok s' \<and> fid_view s' = (fid_view s)(a \<mapsto> refs 1 f) \<and>
    same_rest s s'"
  by (rule set_refs [OF assms, of 1]) (simp add: np_fid_incref_def heap_upd_def)

lemma decref_view:
  assumes "pool_ok s" "fid_view s a = Some f" "f_refcount f \<noteq> 1"
  shows "\<exists>s'. decref sv (Some a) s = Some s' \<and> pool_ok s' \<and> fid_view s' = (fid_view s)(a \<mapsto> refs (- 1) f) \<and>
    same_rest s s'"
  by (rule set_refs [OF assms(1,2), of "- 1"]) (use assms(3) in \<open>auto simp: decref_def np_fid_decref_def\<close>)

lemma decref_last:
  assumes "pool_ok s" "fid_view s a = Some f" "f_refcount f = 1" "\<not> is_auth f" "user_alive s (f_user f)"
    "sv_fiddestroy sv = None"
  shows "\<exists>s'. decref sv (Some a) s = Some s' \<and> pool_ok s' \<and> fid_view s' = (fid_view s)(a := None) \<and>
    same_rest (s\<lparr>c_users := drop_user (f_user f) (c_users s)\<rparr>) s'"
proof (rule set_refs [OF assms(1,2), of "- 1"])
  fix g assume g: "c_fids s a = Some g" "fid_core g = f"
    and ok: "pool_ok (s\<lparr>c_fids := (c_fids s)(a \<mapsto> refs (- 1) g)\<rparr>)"
    and view: "fid_view (s\<lparr>c_fids := (c_fids s)(a \<mapsto> refs (- 1) g)\<rparr>) = (fid_view s)(a \<mapsto> refs (- 1) f)"
  let ?s = "s\<lparr>c_fids := (c_fids s)(a \<mapsto> refs (- 1) g)\<rparr>" and ?g = "refs (- 1) g"
  have g': "f_refcount g = 1" "\<not> is_auth g" "f_user g = f_user f"
    using assms(3,4) g(2) [symmetric] by simp_all
  have cb: "destroy_cb sv a ?g s1 = Some s1" for s1
    using g'(2) assms(6) by (simp add: destroy_cb_def)
  then have cb': "\<exists>s2. destroy_cb sv a ?g s1 = Some s2 \<and> cb_frame s1 s2" for s1
    by (simp add: cb_frame_def users_grow_def)
  have gs: "c_fids ?s a = Some ?g" by simp
  have ua: "user_alive ?s (f_user ?g)" using assms(5) g'(3) by (simp add: user_alive_def)
  obtain s1 s2 where s1: "fid_view s1 = fid_view ?s" "same_rest ?s s1" "destroy_cb sv a ?g s1 = Some s2"
      "np_fid_destroy (destroy_cb sv) a ?s =
        Some (s2\<lparr>c_users := drop_user (f_user ?g) (c_users s2), c_fids := (c_fids s2)(a := None)\<rparr>)"
      "pool_ok (s2\<lparr>c_users := drop_user (f_user ?g) (c_users s2), c_fids := (c_fids s2)(a := None)\<rparr>)"
    using destroy_phases [of ?s a ?g "destroy_cb sv", OF ok gs ua] cb' by blast
  let ?t = "s1\<lparr>c_users := drop_user (f_user f) (c_users s1), c_fids := (c_fids s1)(a := None)\<rparr>"
  have "decref sv (Some a) s = Some ?t" "pool_ok ?t"
    using s1(3-5) cb g g'(1,3) by (simp_all add: decref_def np_fid_decref_def)
  moreover have "fid_view ?t = (fid_view s)(a := None)"
  proof
    fix b
    have "fid_view s1 b = ((fid_view s)(a \<mapsto> refs (- 1) f)) b" using s1(1) view by simp
    then show "fid_view ?t b = ((fid_view s)(a := None)) b" by (auto simp: fid_view_def split: if_splits)
  qed
  moreover have "same_rest (s\<lparr>c_users := drop_user (f_user f) (c_users s)\<rparr>) ?t"
    using s1(2) same_restD(2) [OF s1(2)] by (simp add: same_rest_def)
  ultimately show ?thesis by blast
qed

lemma create_view:
  assumes "pool_ok s" "\<And>a. \<not> holds s fid a" "c_mal s = []"
  shows "\<exists>s'. np_fid_create fid None s = Some (Some (c_brk s), s') \<and> pool_ok s' \<and>
    fid_view s' = (fid_view s)(c_brk s \<mapsto> new_fid fid None) \<and> same_rest (s\<lparr>c_brk := c_brk s + 1\<rparr>) s'"
  using create_spec [OF assms(1,2), of None] by (simp add: np_malloc_def take_mal_def assms(3))

subsection \<open>Unknown fids\<close>

text \<open>The requests that look their fid up first.\<close>

definition fid_requests :: "u8 list" where
  "fid_requests = [Tstatfs, Tlopen, Tlcreate, Tmknod, Trename, Treadlink, Tgetattr, Tsetattr, Txattrwalk,
     Txattrcreate, Treaddir, Tfsync, Tlock, Tgetlock, Tlink, Tmkdir, Trenameat, Tunlinkat, Twalk, Topen,
     Tcreate, Tread, Twrite, Tclunk, Tremove, Tstat, Twstat]"

lemma fid_requests_handler:
  assumes "ty \<in> set fid_requests"
  shows "\<exists>h. find_fcall ty = Some (Handler h) \<and> (\<forall>sv tc. \<exists>k. h sv tc = with_fid (fc_fid tc) k)"
proof -
  have "\<forall>ty \<in> set fid_requests. \<exists>h. find_fcall ty = Some (Handler h) \<and> (\<forall>sv tc. \<exists>k. h sv tc = with_fid (fc_fid tc) k)"
    by (simp add: fid_requests_def find_fcall_def np_fcalls_def Let_def fcall_defs) blast
  with assms show ?thesis by blast
qed

lemma with_fid_unknown:
  assumes "pool_ok s" "\<And>a. \<not> holds s fid a"
  shows "\<exists>s1. with_fid fid k s = Some ((None, None), np_werror (Some Eunknownfid) EIO s1) \<and>
    fid_view s1 = fid_view s \<and> same_rest s s1"
proof -
  obtain s1 where "np_fid_find fid s = Some (None, s1)" "fid_view s1 = fid_view s" "same_rest s s1"
    using find_unknown [OF assms] by blast
  then show ?thesis by (intro exI [of _ s1]) (simp add: with_fid_def fail_def)
qed

lemma with_fid_known:
  assumes "pool_ok s" "holds s fid a" "fid_view s a = Some f"
  obtains s1 g where "\<And>k. with_fid fid k s = k a g s1" "c_fids s1 a = Some g" "fid_core g = refs 1 f" "pool_ok s1"
    "fid_view s1 = (fid_view s)(a \<mapsto> refs 1 f)" "same_rest s s1"
proof -
  obtain s0 where s0: "np_fid_find fid s = Some (Some a, s0)" "pool_ok s0" "fid_view s0 = fid_view s" "same_rest s s0"
    using find_known [OF assms(1,2)] by blast
  then obtain s1 where s1: "np_fid_incref (Some a) s0 = Some s1" "pool_ok s1"
      "fid_view s1 = (fid_view s)(a \<mapsto> refs 1 f)" "same_rest s0 s1"
    using incref_view [OF s0(2), of a f] assms(3) by auto
  obtain g where "c_fids s1 a = Some g" "fid_core g = refs 1 f"
    using fun_cong [OF s1(3), of a] by (auto simp: fid_view_def)
  with s0 s1 show thesis by (intro that [of g s1]) (auto simp: with_fid_def intro: same_rest_trans)
qed

text \<open>A handler runs on the connection with the thread's error cleared.\<close>

lemma cleared [simp]:
  "pool_ok (np_werror e c s) = pool_ok s" "fid_view (np_werror e c s) = fid_view s"
  "holds (np_werror e c s) = holds s"
  "c_mal (np_werror e c s) = c_mal s" "c_brk (np_werror e c s) = c_brk s"
  by (auto simp: np_werror_def pool_ok_def fid_view_def holds_def fun_eq_iff)

text \<open>
  (C32) An unknown fid. A request that names a fid the connection does not have is answered with the
  error message "unknown fid" under the request's tag (Rlerror with the error number in 9P2000.L,
  Rerror otherwise, with the number in 9P2000.u), the fids are left as they are, and the file server
  is not involved: the theorem holds for every server.
\<close>

theorem unknown_fid_refused:
  assumes "pool_ok s" "pool_map s (fc_fid tc) = None" "fc_type tc \<in> set fid_requests" "c_mal s = []"
  shows "\<exists>r s'. serve sv tc s = Some (Some r, s') \<and> fc_pkt r = error_packet s (fc_tag tc) Eunknownfid EIO \<and>
    fid_view s' = fid_view s"
proof -
  obtain h k where h: "find_fcall (fc_type tc) = Some (Handler h)" "h sv tc = with_fid (fc_fid tc) k"
    using fid_requests_handler [OF assms(3)] by blast
  obtain s1 where s1: "with_fid (fc_fid tc) k (np_werror None 0 s) = Some ((None, None), np_werror (Some Eunknownfid) EIO s1)"
      "fid_view s1 = fid_view s" "same_rest (np_werror None 0 s) s1"
    using with_fid_unknown [of "np_werror None 0 s" "fc_fid tc" k] assms(1,2) pool_map_holds [OF assms(1), of "fc_fid tc"]
    by auto
  let ?s = "np_werror (Some Eunknownfid) EIO s1"
  have "error_packet ?s (fc_tag tc) Eunknownfid EIO = error_packet s (fc_tag tc) Eunknownfid EIO"
    using same_restD(5,6) [OF s1(3)] by (simp add: error_packet_def np_werror_def)
  moreover have "c_ename ?s = Some Eunknownfid" "c_ecode ?s = EIO" "c_mal ?s = []"
    using same_restD(9) [OF s1(3)] assms(4) by (simp_all add: np_werror_def)
  ultimately show ?thesis
    using serve_error [OF h(1), of sv s None None ?s Eunknownfid] h(2) s1(1,2) estr_length(1)
    by (auto simp: decref_def np_fid_decref_def)
qed

lemma holds_conn2: "holds conn2 fid a \<longleftrightarrow> fid = 1 \<and> a = 0 \<or> fid = 65 \<and> a = 1"
  by (auto simp: holds_def keys_def conn2_def fid_ex_def new_fid_def)

lemma map_conn2: "pool_map conn2 65 = Some 1" "fid_view conn2 1 = Some (refs 1 (new_fid 65 None))"
  using pool_map_holds [OF pool_ok_conn2, of 65 1]
  by (simp_all add: holds_conn2) (simp add: fid_view_def conn2_def fid_ex_def fid_core_def new_fid_def)

lemma conn2_sel [simp]: "c_mal conn2 = []" "user_alive conn2 None"
  by (simp_all add: conn2_def conn0_def user_alive_def)

lemma unknown_conn2: "fid \<noteq> 1 \<Longrightarrow> fid \<noteq> 65 \<Longrightarrow> pool_map conn2 fid = None"
  using pool_map_holds [OF pool_ok_conn2, of fid] by (cases "pool_map conn2 fid") (auto simp: holds_conn2)

theorem unknown_fid_refused_witness:
  "pool_map conn2 7 = None \<and> Tread \<in> set fid_requests \<and>
    (\<exists>r s'. serve priv_srv (npfcall0\<lparr>fc_type := Tread, fc_tag := 3, fc_fid := 7\<rparr>) conn2 = Some (Some r, s') \<and>
      fc_pkt r = error_packet conn2 3 Eunknownfid EIO \<and> fid_view s' = fid_view conn2)"
  using unknown_fid_refused [of conn2 "npfcall0\<lparr>fc_type := Tread, fc_tag := 3, fc_fid := 7\<rparr>" priv_srv] pool_ok_conn2
  by (simp add: unknown_conn2 fid_requests_def)

subsection \<open>Requests on a known fid\<close>

text \<open>The fields of the fid a handler sees are those of its view.\<close>

lemma core_sel:
  assumes "fid_core g = refs n f"
  shows "f_omode g = f_omode f" "f_type g = f_type f" "f_diroffset g = f_diroffset f" "f_user g = f_user f"
    "f_refcount g = f_refcount f + n"
proof -
  have "f_omode (fid_core g) = f_omode f" "f_type (fid_core g) = f_type f" "f_diroffset (fid_core g) = f_diroffset f"
    "f_user (fid_core g) = f_user f" "f_refcount (fid_core g) = f_refcount f + n" unfolding assms by simp_all
  then show "f_omode g = f_omode f" "f_type g = f_type f" "f_diroffset g = f_diroffset f" "f_user g = f_user f"
    "f_refcount g = f_refcount f + n" by simp_all
qed

lemma find_fcalls:
  "find_fcall Tattach = Some (Handler np_attach)" "find_fcall Twalk = Some (Handler np_walk)"
  "find_fcall Topen = Some (Handler np_open)" "find_fcall Tclunk = Some (Handler np_clunk)"
  "find_fcall Tunlinkat = Some (Handler np_unlinkat)"
  by (simp_all add: find_fcall_def np_fcalls_def Let_def)

lemma rclunk_built: "\<exists>fc. np_create_rclunk (Some npfcall0) = Inr fc \<and> fc_pkt fc = wire Rclunk NOTAG [] \<and> fc_type fc = Rclunk"
  using created_9p_simple [of MRclunk True npfcall0] by (auto simp: built_def)

text \<open>
  (C33) Clunk. A Tclunk of a fid only the pool refers to, when the server agrees (its clunk returns
  an Rclunk), is answered with Rclunk; afterwards the fid's structure is freed and its number unknown,
  the other fids are untouched and the fid pool is consistent.
\<close>

theorem clunk_frees:
  assumes "pool_ok s" "pool_map s (fc_fid tc) = Some a" "fid_view s a = Some f" "fc_type tc = Tclunk" "c_mal s = []"
    "f_refcount f = 1" "\<not> is_auth f" "f_omode f \<noteq> 0x40" "user_alive s (f_user f)"
    "sv_fiddestroy sv = None" "sv_call sv (CallClunk a) = build np_create_rclunk"
  shows "\<exists>r s'. serve sv tc s = Some (Some r, s') \<and> fc_pkt r = wire Rclunk (fc_tag tc) [] \<and> pool_ok s' \<and>
    fid_view s' = (fid_view s)(a := None) \<and> pool_map s' (fc_fid tc) = None"
proof -
  let ?s = "np_werror None 0 s"
  have a: "holds ?s (fc_fid tc) a" using assms(2) pool_map_holds [OF assms(1)] by simp
  obtain s1 g where s1: "\<And>k. with_fid (fc_fid tc) k ?s = k a g s1"
      "c_fids s1 a = Some g" "fid_core g = refs 1 f" "pool_ok s1" "fid_view s1 = (fid_view s)(a \<mapsto> refs 1 f)" "same_rest ?s s1"
    by (rule with_fid_known [of ?s "fc_fid tc" a f]) (use assms(1,3) a in auto)
  note g = core_sel [OF s1(3)]
  note rest1 = same_restD [OF s1(6)]
  obtain fc where fc: "build np_create_rclunk s1 = Some (Some fc, s1)" "fc_pkt fc = wire Rclunk NOTAG []" "fc_type fc = Rclunk"
    using rclunk_built rest1(9) assms(5) by (auto simp: build_unlimited)
  obtain s2 where s2: "decref sv (Some a) s1 = Some s2" "pool_ok s2" "fid_view s2 = (fid_view s1)(a \<mapsto> refs (- 1) (refs 1 f))" "same_rest s1 s2"
    using decref_view [OF s1(4), of a "refs 1 f"] s1(5) assms(6) by auto
  note rest2 = same_restD [OF same_rest_trans [OF s1(6) s2(4)]]
  have h: "np_clunk sv tc ?s = Some ((Some fc, Some a), s2)"
    using s1(1) fc s2(1) g(1,2) assms(7,8,11) by (simp add: np_clunk_def clunk_file_def)
  have v2: "fid_view s2 = (fid_view s)(a \<mapsto> f)" using s2(3) s1(5) by simp
  obtain s3 where s3: "decref sv (Some a) s2 = Some s3" "pool_ok s3" "fid_view s3 = (fid_view s)(a := None)"
    using decref_last [of s2 a f sv, OF s2(2) _ assms(6,7) _ assms(10)] v2 assms(9) rest2(2)
    by (auto simp: user_alive_def np_werror_def)
  obtain r where r: "np_set_tag fc (fc_tag tc) = Some r" "fc_pkt r = wire Rclunk (fc_tag tc) []"
    using np_set_tag_wire [OF fc(2)] by blast
  have "c_ename s2 = None" using rest2(7) by (simp add: np_werror_def)
  then have "serve sv tc s = Some (Some r, s3)"
    using h s3(1) r(1) fc(3) by (simp add: serve_def assms(4) find_fcalls process_def error_reply_def np_rerror_def finish_def)
  moreover have "\<not> holds s3 (fc_fid tc) b" for b
    using s3(3) fp.at_iff [OF assms(1)] assms(1,2) pool_map_holds [OF assms(1)]
    by (metis fun_upd_apply holds_view option.distinct(1) option.inject)
  then have "pool_map s3 (fc_fid tc) = None" using pool_map_holds [OF s3(2)] by (metis not_None_eq)
  ultimately show ?thesis using r(2) s3 by blast
qed

text \<open>A server that agrees to every clunk, and refuses to open.\<close>

definition clunking :: "unit npsrv" where
  "clunking = (np_srv_create np_priv_uname2user np_priv_uid2user)\<lparr>sv_call := \<lambda>call.
     case call of CallClunk _ \<Rightarrow> build np_create_rclunk | _ \<Rightarrow> np_default_call call\<rparr>"

theorem clunk_frees_witness:
  "\<exists>r s'. serve clunking tclunk65 conn2 = Some (Some r, s') \<and> fc_pkt r = wire Rclunk 5 [] \<and> pool_ok s' \<and>
    fid_view s' = (fid_view conn2)(1 := None) \<and> pool_map s' 65 = None"
  using clunk_frees [of conn2 tclunk65 1 "refs 1 (new_fid 65 None)" clunking] pool_ok_conn2
  by (simp add: map_conn2 new_fid_def clunking_def np_srv_create_def del: One_nat_def)

subsection \<open>Where the code goes wrong\<close>

text \<open>
  (C37) A Tattach that names the new fid itself as its authentication fid. \<^verbatim>\<open>np_attach\<close> finds the fid it
  has just created, refuses it because it is not an authentication fid, and drops a reference it never
  took: the fid is freed while the request still refers to it, and the response then uses the
  freed structure. In the model serving the request is undefined.
\<close>

theorem attach_own_fid:
  assumes "pool_ok s" "pool_map s (fc_fid tc) = None" "fc_type tc = Tattach" "fc_afid tc = fc_fid tc"
    "c_mal s = []" "sv_fiddestroy sv = None"
  shows "serve sv tc s = None"
proof -
  let ?s = "np_werror None 0 s" and ?b = "c_brk s" and ?f = "new_fid (fc_fid tc) None"
  have no: "\<not> holds s (fc_fid tc) a" for a using assms(2) pool_map_holds [OF assms(1)] by (metis option.distinct(1))
  obtain s1 where s1: "np_fid_find (fc_fid tc) ?s = Some (None, s1)" "pool_ok s1" "fid_view s1 = fid_view s" "same_rest ?s s1"
    using find_unknown [of ?s "fc_fid tc"] assms(1) no by auto
  have no1: "\<not> holds s1 (fc_fid tc) a" for a using no s1(3) by (simp add: holds_view)
  obtain s2 where s2: "np_fid_create (fc_fid tc) None s1 = Some (Some ?b, s2)" "pool_ok s2" "fid_view s2 = (fid_view s)(?b \<mapsto> ?f)"
      "same_rest (s1\<lparr>c_brk := ?b + 1\<rparr>) s2"
    using create_view [OF s1(2) no1] same_restD(1,9) [OF s1(4)] assms(5) s1(3) by auto
  obtain s3 where s3: "np_fid_incref (Some ?b) s2 = Some s3" "pool_ok s3" "fid_view s3 = (fid_view s)(?b \<mapsto> refs 1 ?f)" "same_rest s2 s3"
    using incref_view [OF s2(2), of ?b ?f] s2(3) by auto
  have "holds s3 (fc_fid tc) ?b" by (simp add: holds_view s3(3) new_fid_def)
  then obtain s4 where s4: "np_fid_find (fc_fid tc) s3 = Some (Some ?b, s4)" "pool_ok s4" "fid_view s4 = fid_view s3" "same_rest s3 s4"
    using find_known [OF s3(2)] by blast
  obtain g where g: "c_fids s4 ?b = Some g" "fid_core g = refs 1 ?f"
    using view_Some [of s4 ?b] s4(3) s3(3) by auto
  have "f_type g = 0" using core_sel(2) [OF g(2)] by (simp add: new_fid_def)
  let ?t = "np_werror (Some Ebadusefid) EIO s4"
  have "c_mal ?t = []"
    using same_restD(9) [OF s4(4)] same_restD(9) [OF s3(4)] same_restD(9) [OF s2(4)] same_restD(9) [OF s1(4)] assms(5) by simp
  then obtain s5 where s5: "decref sv (Some ?b) ?t = Some s5" "fid_view s5 ?b = None" "same_rest ?t s5"
    using decref_last [of ?t ?b "refs 1 ?f" sv] s4(2,3) s3(3) assms(6)
    by (auto simp: new_fid_def user_alive_def drop_user_def)
  then have e: "c_ename s5 = Some Ebadusefid" "c_mal s5 = []"
    using same_restD(7,9) [OF s5(3)] \<open>c_mal ?t = []\<close> by (simp_all add: np_werror_def)
  have h: "np_attach sv tc ?s = Some ((None, Some ?b), s5)"
    using s1(1) s2(1) s3(1) s4(1) g(1) s5(1) \<open>f_type g = 0\<close> by (simp add: np_attach_def assms(4))
  moreover have "decref sv (Some ?b) s5 = None"
    using s5(2) by (simp add: decref_def np_fid_decref_def fid_view_dom)
  ultimately show ?thesis
    using serve_error [of tc np_attach sv s None "Some ?b" s5 Ebadusefid] e assms(3) estr_length(6)
    by (auto simp: find_fcalls)
qed

theorem attach_own_fid_witness:
  "pool_map conn2 9 = None \<and> serve priv_srv (npfcall0\<lparr>fc_type := Tattach, fc_fid := 9, fc_afid := 9\<rparr>) conn2 = None"
  using attach_own_fid [of conn2 "npfcall0\<lparr>fc_type := Tattach, fc_fid := 9, fc_afid := 9\<rparr>" priv_srv]
  by (simp add: np_srv_create_def unknown_conn2 pool_ok_conn2)

text \<open>
  A Twalk to a new fid with a server that cannot clone (the default of \<^verbatim>\<open>np_srv_create\<close>). No
  error is recorded, so the client gets no reply at all; the new fid stays in the pool with the
  reference count -1, because \<^verbatim>\<open>np_walk\<close> drops a reference it has not taken, and the walked fid keeps the
  reference of the request.
\<close>

lemma walk_clone_refused:
  assumes "pool_ok s" "pool_map s (fc_fid tc) = Some a" "fid_view s a = Some f" "fc_type tc = Twalk" "c_mal s = []"
    "f_omode f = Onotopen" "unat (fc_nwname tc) \<le> 16" "fc_newfid tc \<noteq> fc_fid tc" "pool_map s (fc_newfid tc) = None"
    "sv_clone sv = np_default_clone"
  shows "\<exists>s'. serve sv tc s = Some (None, s') \<and>
    fid_view s' = (fid_view s)(a \<mapsto> refs 1 f, c_brk s \<mapsto> refs (- 1) (new_fid (fc_newfid tc) None))"
proof -
  let ?s = "np_werror None 0 s" and ?b = "c_brk s" and ?n = "new_fid (fc_newfid tc) None"
  have a: "holds ?s (fc_fid tc) a" using assms(2) pool_map_holds [OF assms(1)] by simp
  have no: "\<not> holds s (fc_newfid tc) b" for b using assms(9) pool_map_holds [OF assms(1)] by (metis option.distinct(1))
  obtain s1 g where s1: "\<And>k. with_fid (fc_fid tc) k ?s = k a g s1"
      "fid_core g = refs 1 f" "pool_ok s1" "fid_view s1 = (fid_view s)(a \<mapsto> refs 1 f)" "same_rest ?s s1"
    by (rule with_fid_known [of ?s "fc_fid tc" a f]) (use assms(1,3) a in auto)
  have "c_fids s ?b = None" using pool_ok_brk [OF assms(1)] by simp
  then have b: "?b \<noteq> a" using assms(3) by (auto simp: fid_view_def)
  have no1: "\<not> holds s1 (fc_newfid tc) b" for b
    using no [of b] s1(4) assms(3) by (auto simp: holds_view split: if_splits)
  obtain s2 where s2: "np_fid_find (fc_newfid tc) s1 = Some (None, s2)" "pool_ok s2" "fid_view s2 = fid_view s1" "same_rest s1 s2"
    using find_unknown [OF s1(3) no1] by auto
  have no2: "\<not> holds s2 (fc_newfid tc) b" for b using no1 s2(3) by (simp add: holds_view)
  note rest = same_restD [OF same_rest_trans [OF s1(5) s2(4)]]
  obtain s3 where s3: "np_fid_create (fc_newfid tc) None s2 = Some (Some ?b, s3)" "pool_ok s3"
      "fid_view s3 = (fid_view s1)(?b \<mapsto> ?n)" "same_rest (s2\<lparr>c_brk := ?b + 1\<rparr>) s3"
    using create_view [OF s2(2) no2] rest(1,9) assms(5) s2(3) by auto
  obtain s4 where s4: "decref sv (Some ?b) s3 = Some s4" "fid_view s4 = (fid_view s3)(?b \<mapsto> refs (- 1) ?n)" "same_rest s3 s4"
    using decref_view [OF s3(2), of ?b ?n sv] s3(3) by (auto simp: new_fid_def)
  have h: "np_walk sv tc ?s = Some ((None, Some a), s4)"
    using s1(1) s2(1) s3(1) s4(1) core_sel(1) [OF s1(2)] assms(6-8,10)
    by (simp add: np_walk_def np_default_clone_def)
  have "c_ename s4 = None"
    using same_restD(7) [OF s4(3)] same_restD(7) [OF s3(4)] rest(7) by (simp add: np_werror_def)
  then have "serve sv tc s = Some (None, s4)"
    using h by (simp add: serve_def assms(4) find_fcalls process_def error_reply_def np_rerror_def)
  then show ?thesis using s4(2) s3(3) s1(4) b by (simp add: fun_upd_twist)
qed

text \<open>
  A Topen the server refuses. The client gets the server's error, yet \<^verbatim>\<open>np_open\<close> has stored the
  open mode in the fid: from then on the library takes the fid for an open one, a second Topen of
  it is answered with "bad use of fid" and reads of it reach the server.
\<close>

lemma failed_open_marked:
  assumes "pool_ok s" "pool_map s (fc_fid tc) = Some a" "fid_view s a = Some f" "fc_type tc = Topen" "c_mal s = []"
    "f_omode f = Onotopen" "\<not> is_dir f" "1 \<le> f_refcount f" "length e < 1024"
    "\<And>s. sv_call sv (CallOpen a (fc_mode tc)) s = Some (None, np_werror (Some e) c s)"
  shows "\<exists>r s'. serve sv tc s = Some (Some r, s') \<and> fc_pkt r = error_packet s (fc_tag tc) e c \<and>
    fid_view s' = (fid_view s)(a \<mapsto> f\<lparr>f_omode := ucast (fc_mode tc)\<rparr>)"
proof -
  let ?s = "np_werror None 0 s"
  have a: "holds ?s (fc_fid tc) a" using assms(2) pool_map_holds [OF assms(1)] by simp
  obtain s1 g where s1: "\<And>k. with_fid (fc_fid tc) k ?s = k a g s1" "c_fids s1 a = Some g"
      "fid_core g = refs 1 f" "pool_ok s1" "fid_view s1 = (fid_view s)(a \<mapsto> refs 1 f)" "same_rest ?s s1"
    by (rule with_fid_known [of ?s "fc_fid tc" a f]) (use assms(1,3) a in auto)
  note g = core_sel [OF s1(3)]
  let ?g = "g\<lparr>f_omode := ucast (fc_mode tc)\<rparr>" and ?f = "f\<lparr>f_omode := ucast (fc_mode tc)\<rparr>"
  let ?t = "(np_werror (Some e) c s1)\<lparr>c_fids := (c_fids s1)(a \<mapsto> ?g)\<rparr>"
  have h: "np_open sv tc ?s = Some ((None, Some a), ?t)"
    using s1(1,2) g(1,2) assms(6,7,10) by (simp add: np_open_def fid_set_def heap_upd_def np_werror_def)
  have "fid_core ?g = refs 1 ?f"
    using s1(3) by (cases g; cases f) (simp add: fid_core_def)
  then have v: "fid_view ?t = (fid_view s)(a \<mapsto> refs 1 ?f)"
    using s1(5) by (auto simp: fid_view_def fun_eq_iff np_werror_def split: if_splits)
  have "pool_ok ?t"
    using fids_linked_upd [of "c_fids s1" a g ?g] s1(2)
    by (intro pool_ok_linked [OF s1(4)]) (auto simp: same_links_def np_werror_def)
  then obtain s2 where s2: "decref sv (Some a) ?t = Some s2" "fid_view s2 = (fid_view s)(a \<mapsto> ?f)"
    using decref_view [of ?t a "refs 1 ?f" sv] v assms(8) by auto
  have "error_packet ?t (fc_tag tc) e c = error_packet s (fc_tag tc) e c"
    using same_restD(5,6) [OF s1(6)] by (simp add: error_packet_def np_werror_def)
  then show ?thesis
    using serve_error [of tc np_open sv s None "Some a" ?t e] h s2 assms(4,5,9) same_restD(9) [OF s1(6)]
    by (auto simp: find_fcalls np_werror_def)
qed

text \<open>
  A Tunlinkat on a fid that is open, or not a directory, is refused and leaves the fid with one
  reference more than before: the fid can then never be freed by a clunk.
\<close>

lemma unlinkat_leaks:
  assumes "pool_ok s" "pool_map s (fc_fid tc) = Some a" "fid_view s a = Some f" "fc_type tc = Tunlinkat" "c_mal s = []"
    "f_omode f \<noteq> Onotopen \<or> \<not> is_dir f"
  shows "\<exists>r s'. serve sv tc s = Some (Some r, s') \<and> fid_view s' = (fid_view s)(a \<mapsto> refs 1 f)"
proof -
  let ?s = "np_werror None 0 s"
  have a: "holds ?s (fc_fid tc) a" using assms(2) pool_map_holds [OF assms(1)] by simp
  obtain s1 g where s1: "\<And>k. with_fid (fc_fid tc) k ?s = k a g s1"
      "fid_core g = refs 1 f" "fid_view s1 = (fid_view s)(a \<mapsto> refs 1 f)" "same_rest ?s s1"
    by (rule with_fid_known [of ?s "fc_fid tc" a f]) (use assms(1,3) a in auto)
  have "np_unlinkat sv tc ?s = fail Ebadusefid EIO None s1 \<or> np_unlinkat sv tc ?s = fail Enotdir ENOTDIR None s1"
    using s1(1) core_sel(1,2) [OF s1(2)] assms(6) unfolding np_unlinkat_def in_dir_def by auto
  then obtain e c where h: "np_unlinkat sv tc ?s = Some ((None, None), np_werror (Some e) c s1)" "length e < 1024"
    using estr_length(6,7) unfolding fail_def by blast
  then show ?thesis
    using serve_error [of tc np_unlinkat sv s None None "np_werror (Some e) c s1" e] s1(3) assms(4,5) same_restD(9) [OF s1(4)]
      cleared(2) [of "Some e" c s1]
    by (auto simp: find_fcalls np_werror_def decref_def np_fid_decref_def)
qed

end
