(* ===== verification/Guards.thy ===== *)
theory Guards
  imports Srv
begin

text \<open>
  What the request handlers check before they call the file server. A server that is \<open>guarded\<close>
  stops as soon as it is called in a state its author need not think of: with a fid that is not allocated, an
  open fid to open or to create in, a fid that is not open to read from, and so on. The handlers
  never notice the difference.
\<close>

definition fid_is :: "'e conn \<Rightarrow> addr \<Rightarrow> (Npfid \<Rightarrow> bool) \<Rightarrow> bool" where
  "fid_is s a P \<longleftrightarrow> (case c_fids s a of None \<Rightarrow> False | Some f \<Rightarrow> P f)"

abbreviation closed_dir :: "Npfid \<Rightarrow> bool" where
  "closed_dir f \<equiv> f_omode f = Onotopen \<and> is_dir f"

abbreviation is_xattr :: "Npfid \<Rightarrow> bool" where
  "is_xattr f \<equiv> f_type f AND Ftxattr \<noteq> 0"

definition fits :: "u32 \<Rightarrow> 'e conn \<Rightarrow> bool" where
  "fits cnt s \<longleftrightarrow> cnt + IOHDRSZ \<le> c_msize s"

text \<open>An attach may follow a call of the authentication server, so nothing is said of its fids.\<close>

fun allowed :: "srvcall \<Rightarrow> 'e conn \<Rightarrow> bool" where
  "allowed (CallAttach a af _ _) s \<longleftrightarrow> True"
| "allowed (CallOpen a m) s \<longleftrightarrow> fid_is s a (\<lambda>f. f_omode f = Onotopen \<and> (is_dir f \<longrightarrow> m = Oread))"
| "allowed (CallCreate a _ perm m _) s \<longleftrightarrow> fid_is s a closed_dir \<and>
     (perm AND Dmdir \<noteq> 0 \<longrightarrow> m = Oread) \<and> (perm AND special \<noteq> 0 \<longrightarrow> c_dotu s)"
| "allowed (CallRead a off cnt) s \<longleftrightarrow> fits cnt s \<and>
     fid_is s a (\<lambda>f. \<not> is_auth f \<and> \<not> is_xattr f \<and> f_omode f \<noteq> Onotopen \<and> f_omode f AND 3 \<noteq> 1 \<and>
       (is_dir f \<longrightarrow> off = ucast (f_diroffset f)))"
| "allowed (CallWrite a _ cnt _) s \<longleftrightarrow> fits cnt s \<and>
     fid_is s a (\<lambda>f. \<not> is_auth f \<and> \<not> is_xattr f \<and> f_omode f \<noteq> Onotopen \<and> f_omode f AND 3 \<noteq> 0 \<and> \<not> is_dir f)"
| "allowed (CallClunk a) s \<longleftrightarrow> fid_is s a (\<lambda>f. \<not> is_auth f)"
| "allowed (CallWstat a st) s \<longleftrightarrow>
     st_type st = - 1 \<and> st_dev st = - 1 \<and> q_version (st_qid st) = - 1 \<and> q_path (st_qid st) = - 1 \<and>
     fid_is s a (\<lambda>f. is_dir f \<longleftrightarrow> st_mode st AND Dmdir \<noteq> 0)"
| "allowed (CallLcreate a _ _ perm _) s \<longleftrightarrow> fid_is s a closed_dir"
| "allowed (CallSymlink a _ _ _) s \<longleftrightarrow> fid_is s a closed_dir"
| "allowed (CallMknod a _ _ _ _ _) s \<longleftrightarrow> fid_is s a closed_dir"
| "allowed (CallXattrcreate a _ _ _) s \<longleftrightarrow> fid_is s a (\<lambda>f. \<not> is_xattr f)"
| "allowed (CallXattrread a _ cnt) s \<longleftrightarrow> fits cnt s \<and> fid_is s a (\<lambda>f. \<not> is_auth f \<and> is_xattr f)"
| "allowed (CallXattrwrite a _ _ _) s \<longleftrightarrow> fid_is s a (\<lambda>f. \<not> is_auth f \<and> is_xattr f)"
| "allowed (CallReaddir a _ cnt) s \<longleftrightarrow> fits cnt s \<and>
     fid_is s a (\<lambda>f. is_dir f \<and> f_omode f \<noteq> Onotopen \<and> f_omode f AND 3 \<noteq> 1)"
| "allowed (CallLink b a _) s \<longleftrightarrow> fid_is s b closed_dir \<and> fid_is s a (\<lambda>_. True)"
| "allowed (CallMkdir a _ _ _) s \<longleftrightarrow> fid_is s a closed_dir"
| "allowed (CallRenameat a _ b _) s \<longleftrightarrow> fid_is s a closed_dir \<and> fid_is s b closed_dir"
| "allowed (CallUnlinkat a _) s \<longleftrightarrow> fid_is s a closed_dir"
| "allowed (CallRename a b _) s \<longleftrightarrow> fid_is s a (\<lambda>_. True) \<and> fid_is s b (\<lambda>_. True)"
| "allowed (CallXattrwalk a b _) s \<longleftrightarrow> fid_is s a (\<lambda>_. True) \<and> fid_is s b (\<lambda>_. True)"
| "allowed (CallRemove a) s \<longleftrightarrow> fid_is s a (\<lambda>_. True)"
| "allowed (CallStat a) s \<longleftrightarrow> fid_is s a (\<lambda>_. True)"
| "allowed (CallStatfs a) s \<longleftrightarrow> fid_is s a (\<lambda>_. True)"
| "allowed (CallLopen a _) s \<longleftrightarrow> fid_is s a (\<lambda>_. True)"
| "allowed (CallReadlink a) s \<longleftrightarrow> fid_is s a (\<lambda>_. True)"
| "allowed (CallGetattr a _) s \<longleftrightarrow> fid_is s a (\<lambda>_. True)"
| "allowed (CallSetattr a _) s \<longleftrightarrow> fid_is s a (\<lambda>_. True)"
| "allowed (CallFsync a) s \<longleftrightarrow> fid_is s a (\<lambda>_. True)"
| "allowed (CallFlock a _ _ _ _ _ _) s \<longleftrightarrow> fid_is s a (\<lambda>_. True)"
| "allowed (CallGetlock a _ _ _ _ _) s \<longleftrightarrow> fid_is s a (\<lambda>_. True)"

definition guarded :: "'e npsrv \<Rightarrow> 'e npsrv" where
  "guarded sv = sv\<lparr>sv_call := \<lambda>call s. if allowed call s then sv_call sv call s else None\<rparr>"

lemma guarded_sel [simp]:
  "sv_msize (guarded sv) = sv_msize sv" "sv_auth (guarded sv) = sv_auth sv"
  "sv_uname2user (guarded sv) = sv_uname2user sv" "sv_uid2user (guarded sv) = sv_uid2user sv"
  "sv_fiddestroy (guarded sv) = sv_fiddestroy sv" "sv_clone (guarded sv) = sv_clone sv"
  "sv_walk (guarded sv) = sv_walk sv"
  by (simp_all add: guarded_def)

lemma guarded_call: "allowed call s \<Longrightarrow> sv_call (guarded sv) call s = sv_call sv call s"
  by (simp add: guarded_def)

lemma guarded_decref [simp]: "decref (guarded sv) = decref sv"
proof -
  have "destroy_cb (guarded sv) = destroy_cb sv"
    unfolding fun_eq_iff destroy_cb_def guarded_sel by blast
  then show ?thesis unfolding fun_eq_iff [of "decref _"] decref_def by simp
qed

lemma guarded_reply: "allowed call s \<Longrightarrow> reply (guarded sv) call rf s = reply sv call rf s"
  by (simp add: reply_def guarded_call)

lemma guarded_attach_call [simp]:
  "sv_call (guarded sv) (CallAttach a af u n) = sv_call sv (CallAttach a af u n)"
  by (simp add: fun_eq_iff guarded_call)

lemma guarded_walk_names [simp]: "walk_names (guarded sv) = walk_names sv"
proof -
  have "walk_names (guarded sv) a ns qs s = walk_names sv a ns qs s" for a ns qs s
    by (induction ns arbitrary: qs s) (simp_all cong: if_cong)
  then show ?thesis by blast
qed

lemmas guarded_eqs = guarded_sel guarded_decref guarded_attach_call guarded_walk_names

text \<open>The handlers that call the server's attach only, or none of these operations.\<close>

lemma guarded_attach [simp]:
  "np_walk (guarded sv) = np_walk sv" "np_auth (guarded sv) = np_auth sv" "np_attach (guarded sv) = np_attach sv"
  unfolding fun_eq_iff np_walk_def walk_finish_def np_auth_def np_attach_def find_user_def auth_start_def
    attach_user_def guarded_eqs by blast+

text \<open>The state in which a handler goes on once it has found its fid.\<close>

lemma acquired:
  assumes "pool_ok s" "np_fid_find fid s = Some (Some a, s1)" "np_fid_incref (Some a) s1 = Some s2"
  shows "pool_ok s2" "facts s2 = facts s"
proof -
  have s1: "pool_ok s1" "fid_view s1 = fid_view s" using find_spec [OF assms(1), of fid] assms(2) by auto
  obtain f where f: "c_fids s1 a = Some f" and s2: "s2 = s1\<lparr>c_fids := (c_fids s1)(a \<mapsto> f\<lparr>f_refcount := f_refcount f + 1\<rparr>)\<rparr>"
    using assms(3) by (auto simp: np_fid_incref_def heap_upd_def split: option.splits bind_splits)
  have "facts s2 = facts s1" using f by (auto simp: s2 facts_def fid_facts_def fun_eq_iff)
  then show "facts s2 = facts s" using facts_view [OF s1(2)] by simp
  show "pool_ok s2"
    using fids_linked_upd [of "c_fids s1" a f "f\<lparr>f_refcount := f_refcount f + 1\<rparr>"] f
    by (intro pool_ok_linked [OF s1(1)]) (auto simp: s2 same_links_def)
qed

lemma with_fid_cong:
  assumes "pool_ok s" "\<And>a f s'. pool_ok s' \<Longrightarrow> c_fids s' a = Some f \<Longrightarrow> k a f s' = k' a f s'"
  shows "with_fid fid k s = with_fid fid k' s"
  using assms acquired [OF assms(1)] unfolding with_fid_def
  by (auto intro!: Option.bind_cong split: option.splits)

lemma with_other_cong:
  assumes "pool_ok s" "c_fids s a = Some f"
    "\<And>b g s' f'. c_fids s' b = Some g \<Longrightarrow> c_fids s' a = Some f' \<Longrightarrow> fid_facts f' = fid_facts f \<Longrightarrow> k b g s' = k' b g s'"
  shows "with_other sv fid rf k s = with_other (guarded sv) fid rf k' s"
proof -
  have "k b g s2 = k' b g s2"
    if "np_fid_find fid s = Some (Some b, s1)" "np_fid_incref (Some b) s1 = Some s2" "c_fids s2 b = Some g" for b g s1 s2
  proof -
    have "facts s2 = facts s" using acquired [OF assms(1) that(1,2)] by blast
    then obtain f' where "c_fids s2 a = Some f'" "fid_facts f' = fid_facts f"
      using facts_Some [of s s2 a f] assms(2) by auto
    then show ?thesis using assms(3) that(3) by blast
  qed
  then show ?thesis unfolding with_other_def guarded_eqs
    by (auto intro!: Option.bind_cong split: option.splits)
qed

lemma fits_iff: "fits (fc_count tc) s \<longleftrightarrow> \<not> too_large tc s"
  by (auto simp: fits_def too_large_def)

lemmas guard_simps = fid_is_def fits_iff in_dir_def guarded_call guarded_reply guarded_decref

lemma guarded_one_fid:
  assumes "pool_ok s"
  shows "np_open (guarded sv) tc s = np_open sv tc s"
    "np_create_req (guarded sv) tc s = np_create_req sv tc s"
    "np_read (guarded sv) tc s = np_read sv tc s"
    "np_write (guarded sv) tc s = np_write sv tc s"
    "np_remove (guarded sv) tc s = np_remove sv tc s"
    "np_stat (guarded sv) tc s = np_stat sv tc s"
    "np_wstat (guarded sv) tc s = np_wstat sv tc s"
    "np_statfs (guarded sv) tc s = np_statfs sv tc s"
    "np_lopen (guarded sv) tc s = np_lopen sv tc s"
    "np_lcreate (guarded sv) tc s = np_lcreate sv tc s"
    "np_symlink (guarded sv) tc s = np_symlink sv tc s"
    "np_mknod (guarded sv) tc s = np_mknod sv tc s"
    "np_readlink (guarded sv) tc s = np_readlink sv tc s"
    "np_getattr (guarded sv) tc s = np_getattr sv tc s"
    "np_setattr (guarded sv) tc s = np_setattr sv tc s"
    "np_xattrcreate (guarded sv) tc s = np_xattrcreate sv tc s"
    "np_readdir (guarded sv) tc s = np_readdir sv tc s"
    "np_fsync (guarded sv) tc s = np_fsync sv tc s"
    "np_flock (guarded sv) tc s = np_flock sv tc s"
    "np_getlock (guarded sv) tc s = np_getlock sv tc s"
    "np_mkdir (guarded sv) tc s = np_mkdir sv tc s"
    "np_unlinkat (guarded sv) tc s = np_unlinkat sv tc s"
  unfolding fcall_defs guarded_eqs
  by (rule with_fid_cong [OF assms], auto simp: guard_simps Let_def; fail)+

lemma guarded_clunk:
  assumes "pool_ok s"
  shows "np_clunk (guarded sv) tc s = np_clunk sv tc s"
  unfolding np_clunk_def clunk_file_def guarded_eqs
  by (rule with_fid_cong [OF assms]) (simp add: guard_simps cong: option.case_cong)

lemma guarded_two_fids:
  assumes "pool_ok s"
  shows "np_rename (guarded sv) tc s = np_rename sv tc s"
    "np_link (guarded sv) tc s = np_link sv tc s"
    "np_renameat (guarded sv) tc s = np_renameat sv tc s"
proof -
  show "np_rename (guarded sv) tc s = np_rename sv tc s"
    unfolding np_rename_def
    by (rule with_fid_cong [OF assms], rule with_other_cong [symmetric], assumption+) (simp add: guard_simps)
  show "np_link (guarded sv) tc s = np_link sv tc s"
    unfolding np_link_def
    by (rule with_fid_cong [OF assms], rule with_other_cong [symmetric], assumption+) (simp add: guard_simps)
  have "with_other (guarded sv) (fc_newfid tc) (Some a) (\<lambda>b g. in_dir g (Some a)
      (reply (guarded sv) (CallRenameat a (fc_oname tc) b (fc_name tc)) (Some a))) s' =
    with_other sv (fc_newfid tc) (Some a) (\<lambda>b g. in_dir g (Some a)
      (reply sv (CallRenameat a (fc_oname tc) b (fc_name tc)) (Some a))) s'"
    if "pool_ok s'" "c_fids s' a = Some f" "closed_dir f" for a f and s' :: "'a conn"
    by (rule with_other_cong [OF that(1,2), symmetric]) (use that in \<open>simp add: guard_simps fid_facts_def\<close>)
  then show "np_renameat (guarded sv) tc s = np_renameat sv tc s"
    unfolding np_renameat_def by (intro with_fid_cong [OF assms]) (simp add: in_dir_def)
qed

lemma guarded_xattrwalk:
  assumes "pool_ok s"
  shows "np_xattrwalk (guarded sv) tc s = np_xattrwalk sv tc s"
proof -
  have *: "sv_call (guarded sv) (CallXattrwalk a b n) s5 = sv_call sv (CallXattrwalk a b n) s5"
    if "c_fids s2 a = Some f2" "np_user_incref (f_user f2) s2 = Some s3" "fid_set b g s3 = Some s4"
      "np_fid_incref (Some b) s4 = Some s5" for a b n g f2 s2 s3 s4 s5
    using that by (intro guarded_call)
      (auto simp: fid_is_def np_fid_incref_def np_user_incref_def fid_set_def heap_upd_def
        split: option.splits bind_splits if_splits)
  show ?thesis
    unfolding np_xattrwalk_def guarded_eqs
    by (rule with_fid_cong [OF assms]) (auto intro!: Option.bind_cong * split: option.splits)
qed

text \<open>Every entry of the table.\<close>

lemma guarded_handlers:
  assumes "pool_ok s" "Handler h \<in> set np_fcalls"
  shows "h (guarded sv) tc s = h sv tc s"
  using assms(2) guarded_one_fid [OF assms(1), of sv tc] guarded_clunk [OF assms(1), of sv tc]
    guarded_two_fids [OF assms(1), of sv tc] guarded_xattrwalk [OF assms(1), of sv tc]
  unfolding np_fcalls_def by (simp, elim disjE) simp_all

lemma find_fcall_mem: "find_fcall ty = Some (Handler h) \<Longrightarrow> Handler h \<in> set np_fcalls"
  by (auto simp: find_fcall_def Let_def split: if_splits) (metis np_fcalls_length nth_mem)

lemma guarded_finish: "finish (guarded sv) = finish sv"
  unfolding fun_eq_iff finish_def guarded_eqs by blast

lemma guarded_process:
  assumes "pool_ok s" "\<And>h. f = Some h \<Longrightarrow> Handler h \<in> set np_fcalls"
  shows "process (guarded sv) f tc s = process sv f tc s"
proof -
  have "pool_ok (np_werror None 0 s)"
    using assms(1) by (rule pool_ok_cong [THEN iffD1, rotated -1]) (simp_all add: np_werror_def)
  then show ?thesis
    using guarded_handlers [OF _ assms(2), of "np_werror None 0 s" _ sv tc]
    unfolding process_def Let_def by (cases f) simp_all
qed

text \<open>
  (C13) The guards of the handlers. Serving a request with a server that refuses to run outside
  its preconditions gives the same as with the server itself, for every request and every state with
  a consistent fid pool: the server is asked to open or create only with a fid that is not open,
  to create only in a directory, to read only from a fid that is open for reading, to write
  only to a file that is open for writing, and to read a directory only at the offset reached.
\<close>

theorem serve_guarded:
  assumes "pool_ok s"
  shows "serve (guarded sv) tc s = serve sv tc s"
proof -
  have "process (guarded sv) f tc s = process sv f tc s"
    if "find_fcall (fc_type tc) = Some e" "(case e of Null \<Rightarrow> Some None | Handler h \<Rightarrow> Some (Some h) | _ \<Rightarrow> None) = Some f" for e f
    using that by (intro guarded_process [OF assms]) (auto dest: find_fcall_mem split: np_fcall.splits)
  then show ?thesis
    unfolding serve_def guarded_finish by (auto intro!: Option.bind_cong)
qed

text \<open>The guards matter: without them a read of a fid that is not open reaches the server.\<close>

theorem serve_guarded_witness:
  "\<forall>u i. pool_ok conn2 \<and> serve (guarded (np_srv_create u i)) (npfcall0\<lparr>fc_type := Tread, fc_fid := 1\<rparr>) conn2 =
     serve (np_srv_create u i) (npfcall0\<lparr>fc_type := Tread, fc_fid := 1\<rparr>) conn2 \<and> \<not> allowed (CallRead 0 0 0) conn2"
  using serve_guarded [OF pool_ok_conn2] pool_ok_conn2
  by (simp add: fid_is_def conn2_def fid_ex_def new_fid_def)

end
