(* ===== verification/Reqs.thy ===== *)
theory Reqs
  imports Packets Links
begin

text \<open>
  The requests of a server (\<^verbatim>\<open>struct Npreq\<close>): the queue of requests that wait for a worker, the list
  of those that are worked on, the chains of flush requests that wait for another request, and the
  pool of unused structures. This models the list operations, \<^verbatim>\<open>np_req_alloc\<close> to \<^verbatim>\<open>np_req_unref\<close>,
  \<^verbatim>\<open>np_respond\<close> and the work loop of \<^verbatim>\<open>libnpfs/srv.c\<close>, \<^verbatim>\<open>np_flush\<close> of \<^verbatim>\<open>fcall.c\<close>, and
  \<^verbatim>\<open>np_conn_respond\<close> and loops of \<^verbatim>\<open>np_conn_reset\<close> of \<^verbatim>\<open>conn.c\<close>. The fids of the
  connections are left to the handlers: here a handler is the reply it returns.

  An operation is \<open>None\<close> where the C code is undefined (a freed request, a failed assertion) or does
  not return. Allocations of requests and of Rflush messages succeed.
\<close>

record Npreq =
  r_refcount :: int
  r_conn :: nat
  r_tag :: u16
  r_tcall :: "Npfcall option"
  r_rcall :: "Npfcall option"
  r_responded :: bool
  r_flushreq :: ptr
  r_next :: ptr
  r_prev :: ptr

text \<open>
  Of a connection: the reference count (zero once it is freed), the flag of a reset, the transport and
  what was written to it. \<open>n_trans = Some k\<close> is an open transport on which \<open>k\<close> more writes succeed.
\<close>

record Npconn =
  n_refcount :: int
  n_resetting :: bool
  n_trans :: "nat option"
  n_out :: "bytes list"

text \<open>\<open>q_pool\<close> and \<open>q_poolnum\<close> are the global \<^verbatim>\<open>reqpool\<close>.\<close>

record srvreqs =
  q_req :: "Npreq heap"
  q_first :: ptr
  q_last :: ptr
  q_work :: ptr
  q_pool :: ptr
  q_poolnum :: int
  q_brk :: addr
  q_conn :: "nat \<Rightarrow> Npconn"

type_synonym qact = "srvreqs \<Rightarrow> srvreqs option"

definition set_r_next :: "ptr \<Rightarrow> Npreq \<Rightarrow> Npreq" where
  "set_r_next p r = r\<lparr>r_next := p\<rparr>"

definition set_r_prev :: "ptr \<Rightarrow> Npreq \<Rightarrow> Npreq" where
  "set_r_prev p r = r\<lparr>r_prev := p\<rparr>"

definition req_upd :: "addr \<Rightarrow> (Npreq \<Rightarrow> Npreq) \<Rightarrow> qact" where
  "req_upd a f q = map_option (\<lambda>h. q\<lparr>q_req := h\<rparr>) (heap_upd (q_req q) a f)"

subsection \<open>The lists\<close>

definition np_srv_add_req :: "addr \<Rightarrow> qact" where
  "np_srv_add_req a q =
     do { h \<leftarrow> heap_upd (q_req q) a (set_r_prev (q_last q));
          h \<leftarrow> heap_upd_opt h (q_last q) (set_r_next (Some a));
          Some (q\<lparr>q_req := h, q_last := Some a,
                 q_first := (if q_first q = None then Some a else q_first q)\<rparr>) }"

definition np_srv_remove_req :: "addr \<Rightarrow> qact" where
  "np_srv_remove_req a q =
     do { r \<leftarrow> q_req q a;
          h \<leftarrow> unlink r_next r_prev set_r_next set_r_prev (q_req q) a;
          Some (q\<lparr>q_req := h,
                 q_first := (if q_first q = Some a then r_next r else q_first q),
                 q_last := (if q_last q = Some a then r_prev r else q_last q)\<rparr>) }"

definition np_srv_add_workreq :: "addr \<Rightarrow> qact" where
  "np_srv_add_workreq a q =
     do { h \<leftarrow> heap_upd_opt (q_req q) (q_work q) (set_r_prev (Some a));
          h \<leftarrow> heap_upd h a (\<lambda>r. set_r_prev None (set_r_next (q_work q) r));
          Some (q\<lparr>q_req := h, q_work := Some a\<rparr>) }"

definition np_srv_remove_workreq :: "addr \<Rightarrow> qact" where
  "np_srv_remove_workreq a q =
     do { r \<leftarrow> q_req q a;
          h \<leftarrow> unlink r_next r_prev set_r_next set_r_prev (q_req q) a;
          Some (q\<lparr>q_req := h, q_work := (if r_prev r = None then r_next r else q_work q)\<rparr>) }"

subsection \<open>Allocation and references\<close>

definition conn_upd :: "nat \<Rightarrow> (Npconn \<Rightarrow> Npconn) \<Rightarrow> srvreqs \<Rightarrow> srvreqs" where
  "conn_upd c f q = q\<lparr>q_conn := (q_conn q)(c := f (q_conn q c))\<rparr>"

definition np_conn_incref :: "nat \<Rightarrow> qact" where
  "np_conn_incref c q =
     (if n_refcount (q_conn q c) > 0 then Some (conn_upd c (\<lambda>n. n\<lparr>n_refcount := n_refcount n + 1\<rparr>) q) else None)"

definition np_conn_decref :: "nat \<Rightarrow> qact" where
  "np_conn_decref c q =
     (if n_refcount (q_conn q c) > 0 then Some (conn_upd c (\<lambda>n. n\<lparr>n_refcount := n_refcount n - 1\<rparr>) q) else None)"

definition new_req :: "nat \<Rightarrow> Npfcall \<Rightarrow> Npreq" where
  "new_req c tc = \<lparr>r_refcount = 1, r_conn = c, r_tag = fc_tag tc, r_tcall = Some tc, r_rcall = None,
     r_responded = False, r_flushreq = None, r_next = None, r_prev = None\<rparr>"

definition np_req_alloc :: "nat \<Rightarrow> Npfcall \<Rightarrow> srvreqs \<Rightarrow> (addr \<times> srvreqs) option" where
  "np_req_alloc c tc q =
     do { (a, q) \<leftarrow>
            (case q_pool q of
               Some a \<Rightarrow> do { r \<leftarrow> q_req q a; Some (a, q\<lparr>q_pool := r_next r, q_poolnum := q_poolnum q - 1\<rparr>) }
             | None \<Rightarrow> Some (q_brk q, q\<lparr>q_brk := q_brk q + 1\<rparr>));
          q \<leftarrow> np_conn_incref c q;
          Some (a, q\<lparr>q_req := (q_req q)(a \<mapsto> new_req c tc)\<rparr>) }"

definition np_req_ref :: "addr \<Rightarrow> qact" where
  "np_req_ref a q = req_upd a (\<lambda>r. r\<lparr>r_refcount := r_refcount r + 1\<rparr>) q"

definition np_req_unref :: "addr \<Rightarrow> qact" where
  "np_req_unref a q =
     do { r \<leftarrow> q_req q a;
          if r_refcount r > 0 then
            do { q \<leftarrow> req_upd a (\<lambda>r. r\<lparr>r_refcount := r_refcount r - 1\<rparr>) q;
                 if r_refcount r - 1 \<noteq> 0 then Some q
                 else
                   do { q \<leftarrow> np_conn_decref (r_conn r) q;
                        if q_poolnum q < 64 then
                          do { q \<leftarrow> req_upd a (set_r_next (q_pool q)) q;
                               Some (q\<lparr>q_pool := Some a, q_poolnum := q_poolnum q + 1\<rparr>) }
                        else Some (q\<lparr>q_req := (q_req q)(a := None)\<rparr>) } }
          else None }"

subsection \<open>Responding\<close>

text \<open>
  \<^verbatim>\<open>np_conn_respond\<close>. A failed write closes the transport. The request's messages are given back in
  any case; the free list they go to is that of the connection and not represented.
\<close>

definition send_reply :: "nat \<Rightarrow> Npfcall \<Rightarrow> srvreqs \<Rightarrow> srvreqs" where
  "send_reply c rc q =
     (if n_resetting (q_conn q c) then q
      else
        (case n_trans (q_conn q c) of
           None \<Rightarrow> q
         | Some 0 \<Rightarrow> conn_upd c (\<lambda>n. n\<lparr>n_trans := None\<rparr>) q
         | Some (Suc k) \<Rightarrow>
             conn_upd c (\<lambda>n. n\<lparr>n_trans := Some k, n_out := n_out n @ [take (unat (fc_size rc)) (fc_pkt rc)]\<rparr>) q))"

definition np_conn_respond :: "addr \<Rightarrow> qact" where
  "np_conn_respond a q =
     do { r \<leftarrow> q_req q a;
          if n_refcount (q_conn q (r_conn r)) > 0 then
            req_upd a (\<lambda>r. r\<lparr>r_tcall := None, r_rcall := None\<rparr>)
              (case r_rcall r of None \<Rightarrow> q | Some rc \<Rightarrow> send_reply (r_conn r) rc q)
          else None }"

text \<open>The two loops of \<^verbatim>\<open>np_respond\<close> over the flush requests. The second reads \<^verbatim>\<open>freq->flushreq\<close> after
  \<^verbatim>\<open>np_req_unref(freq)\<close>.\<close>

partial_function (option) remove_flushreqs :: "ptr \<Rightarrow> qact" where
  "remove_flushreqs p q =
     (case p of
        None \<Rightarrow> Some q
      | Some f \<Rightarrow>
          do { q \<leftarrow> np_srv_remove_workreq f q;
               r \<leftarrow> q_req q f;
               remove_flushreqs (r_flushreq r) q })"

definition rflush :: "u16 \<Rightarrow> Npfcall option" where
  "rflush tag = (case np_create_rflush (Some npfcall0) of Inr fc \<Rightarrow> np_set_tag fc tag | Inl _ \<Rightarrow> None)"

partial_function (option) answer_flushreqs :: "ptr \<Rightarrow> qact" where
  "answer_flushreqs p q =
     (case p of
        None \<Rightarrow> Some q
      | Some f \<Rightarrow>
          do { r \<leftarrow> q_req q f;
               rc \<leftarrow> rflush (r_tag r);
               q \<leftarrow> req_upd f (\<lambda>r. r\<lparr>r_rcall := Some rc\<rparr>) q;
               q \<leftarrow> np_conn_respond f q;
               q \<leftarrow> np_req_unref f q;
               r \<leftarrow> q_req q f;
               answer_flushreqs (r_flushreq r) q })"

definition np_respond :: "addr \<Rightarrow> Npfcall option \<Rightarrow> qact" where
  "np_respond a rc q =
     do { r \<leftarrow> q_req q a;
          if r_responded r then np_req_unref a q
          else
            do { q \<leftarrow> req_upd a (\<lambda>r. r\<lparr>r_responded := True\<rparr>) q;
                 q \<leftarrow> np_srv_remove_workreq a q;
                 q \<leftarrow> remove_flushreqs (r_flushreq r) q;
                 q \<leftarrow> (case rc of
                         None \<Rightarrow> req_upd a (\<lambda>r. r\<lparr>r_rcall := None\<rparr>) q
                       | Some m \<Rightarrow>
                           do { m \<leftarrow> np_set_tag m (r_tag r);
                                q \<leftarrow> req_upd a (\<lambda>r. r\<lparr>r_rcall := Some m\<rparr>) q;
                                np_conn_respond a q });
                 q \<leftarrow> answer_flushreqs (r_flushreq r) q;
                 np_req_unref a q } }"

subsection \<open>Flushing\<close>

text \<open>The search of a list for a request with a given connection and tag.\<close>

partial_function (option) find_req :: "(Npreq \<Rightarrow> bool) \<Rightarrow> Npreq heap \<Rightarrow> ptr \<Rightarrow> ptr option" where
  "find_req P h p =
     (case p of
        None \<Rightarrow> Some None
      | Some a \<Rightarrow> do { r \<leftarrow> h a; if P r then Some (Some a) else find_req P h (r_next r) })"

definition is_req :: "nat \<Rightarrow> u16 \<Rightarrow> Npreq \<Rightarrow> bool" where
  "is_req c tag r \<longleftrightarrow> r_conn r = c \<and> r_tag r = tag"

text \<open>
  \<^verbatim>\<open>np_flush\<close> for the request \<open>a\<close>; the result is the reply, \<open>None\<close> when there is none yet. The server's
  own \<open>flush\<close> operation is \<open>fl\<close> (\<^verbatim>\<open>np_srv_create\<close> always sets one). \<^verbatim>\<open>np_flush\<close> calls \<^verbatim>\<open>np_conn_respond\<close> with the lock of
  the server held, which the latter takes again when the connection is being reset: that call does not
  return.
\<close>

definition np_flush :: "(addr \<Rightarrow> qact) \<Rightarrow> addr \<Rightarrow> u16 \<Rightarrow> srvreqs \<Rightarrow> (Npfcall option \<times> srvreqs) option" where
  "np_flush fl a oldtag q =
     do { req \<leftarrow> q_req q a;
          p \<leftarrow> find_req (is_req (r_conn req) oldtag) (q_req q) (q_first q);
          (case p of
             Some c \<Rightarrow>
               (if n_resetting (q_conn q (r_conn req)) then None
                else
                  do { q \<leftarrow> np_srv_remove_req c q;
                       q \<leftarrow> np_conn_respond c q;
                       q \<leftarrow> np_req_unref c q;
                       rc \<leftarrow> rflush NOTAG;
                       Some (Some rc, q) })
           | None \<Rightarrow>
               do { p \<leftarrow> find_req (is_req (r_conn req) oldtag) (q_req q) (q_work q);
                    (case p of
                       None \<Rightarrow> do { rc \<leftarrow> rflush NOTAG; Some (Some rc, q) }
                     | Some c \<Rightarrow>
                         do { q \<leftarrow> np_req_ref c q;
                              creq \<leftarrow> q_req q c;
                              q \<leftarrow> req_upd a (\<lambda>r. r\<lparr>r_flushreq := r_flushreq creq\<rparr>) q;
                              q \<leftarrow> req_upd c (\<lambda>r. r\<lparr>r_flushreq := Some a\<rparr>) q;
                              q \<leftarrow> fl c q;
                              q \<leftarrow> np_req_unref c q;
                              Some (None, q) }) }) }"

definition np_default_flush :: "addr \<Rightarrow> qact" where
  "np_default_flush a q = Some q"

subsection \<open>Receiving and working\<close>

text \<open>
  The end of the loop of \<^verbatim>\<open>np_conn_read_proc\<close>, for the message \<open>tc\<close> that arrived on connection \<open>c\<close>, and
  the steps of \<^verbatim>\<open>np_wthread_proc\<close>: taking the first request, and what happens with the result of
  \<^verbatim>\<open>np_process_request\<close>. The test in front of the former, after which a worker of a confined server (\<^verbatim>\<open>np_srv_confine\<close>) that could not be
  confined takes no request, is not represented.
\<close>

definition receive :: "nat \<Rightarrow> Npfcall \<Rightarrow> qact" where
  "receive c tc q =
     do { (a, q) \<leftarrow> np_req_alloc c tc q;
          if \<not> n_resetting (q_conn q c) then np_srv_add_req a q else np_req_unref a q }"

definition take_req :: "srvreqs \<Rightarrow> (ptr \<times> srvreqs) option" where
  "take_req q =
     (case q_first q of
        None \<Rightarrow> Some (None, q)
      | Some a \<Rightarrow> do { q \<leftarrow> np_srv_remove_req a q; q \<leftarrow> np_srv_add_workreq a q; Some (Some a, q) })"

definition finish_req :: "addr \<Rightarrow> Npfcall option \<Rightarrow> qact" where
  "finish_req a rc q = (case rc of None \<Rightarrow> Some q | Some _ \<Rightarrow> np_respond a rc q)"

text \<open>
  Two loops of \<^verbatim>\<open>np_conn_reset\<close>: the pending requests of the connection leave the queue, then they
  are responded to without a reply. \<open>preqs\<close> lists the ones removed, the last one first.
\<close>

partial_function (option) drop_pending :: "nat \<Rightarrow> ptr \<Rightarrow> ptr \<Rightarrow> srvreqs \<Rightarrow> (ptr \<times> srvreqs) option" where
  "drop_pending c p preqs q =
     (case p of
        None \<Rightarrow> Some (preqs, q)
      | Some a \<Rightarrow>
          do { r \<leftarrow> q_req q a;
               if r_conn r = c then
                 do { q \<leftarrow> np_srv_remove_req a q;
                      q \<leftarrow> req_upd a (set_r_next preqs) q;
                      drop_pending c (r_next r) (Some a) q }
               else drop_pending c (r_next r) preqs q })"

partial_function (option) respond_dropped :: "ptr \<Rightarrow> qact" where
  "respond_dropped p q =
     (case p of
        None \<Rightarrow> Some q
      | Some a \<Rightarrow>
          do { r \<leftarrow> q_req q a;
               q \<leftarrow> np_conn_respond a q;
               q \<leftarrow> np_req_unref a q;
               respond_dropped (r_next r) q })"

end
