(* ===== verification/Reqs_Spec.thy ===== *)
theory Reqs_Spec
  imports Reqs
begin

text \<open>
  The request lists are what they should be: the queue is first in, first out, replies leave in order, a
  flushed request is not answered any more, and the answer to a flush comes after the answer to
  what it flushes. Requests in a heap are related to lists of their addresses.
\<close>

subsection \<open>Lists in the heap\<close>

definition req_core :: "Npreq \<Rightarrow> Npreq" where
  "req_core r = r\<lparr>r_next := None, r_prev := None\<rparr>"

context links
begin

text \<open>Appending at the end, with a pointer to the last node.\<close>

lemma snoc_dl:
  assumes "dl h None p as None" "distinct (as @ [a])" "h a = Some r" "nx r = None"
  shows "\<exists>h1 h2. heap_upd h a (set_pv (lastp None as)) = Some h1 \<and>
    heap_upd_opt h1 (lastp None as) (set_nx (Some a)) = Some h2 \<and> same_cores h h2 \<and>
    dl h2 None (if p = None then Some a else p) (as @ [a]) None \<and> (\<forall>b. b \<notin> set (as @ [a]) \<longrightarrow> h2 b = h b)"
proof (cases as rule: rev_cases)
  case Nil
  then show ?thesis using assms by simp
next
  case (snoc us b)
  obtain s where s: "h b = Some s" using dseg_alloc [OF assms(1), of b] snoc by auto
  have d: "b \<noteq> a" "b \<notin> set us" "a \<notin> set us" using assms(2) snoc by auto
  let ?h1 = "h(a \<mapsto> set_pv (Some b) r)" and ?h2 = "h(a \<mapsto> set_pv (Some b) r, b \<mapsto> set_nx (Some a) s)"
  have "dl ?h1 None p (us @ [b]) None" using assms(1) snoc d by (simp add: dseg_frame)
  then have "dl ?h2 None p (us @ [b]) (Some a)"
    by (rule dl_set_last) (use s d in simp_all)
  then have "dl ?h2 None p (as @ [a]) None"
    unfolding dseg_append [of _ _ _ _ _ as] using snoc d assms(4) by auto
  moreover have "p \<noteq> None" using dseg_head [OF assms(1)] snoc by auto
  moreover have "same_cores h ?h2" using assms(3) s d by (simp add: same_cores_def)
  ultimately show ?thesis using assms(3) snoc s d by auto
qed

end

interpretation rl: links r_next r_prev set_r_next set_r_prev req_core
  by unfold_locales (simp_all add: set_r_next_def set_r_prev_def req_core_def)

text \<open>
  \<open>qlists q ps ws pl\<close>: the queue is \<open>ps\<close>, the requests worked on are \<open>ws\<close> (the newest first), the
  pool is \<open>pl\<close>.
\<close>

definition qlists :: "srvreqs \<Rightarrow> addr list \<Rightarrow> addr list \<Rightarrow> addr list \<Rightarrow> bool" where
  "qlists q ps ws pl \<longleftrightarrow>
     rl.dl (q_req q) None (q_first q) ps None \<and> q_last q = lastp None ps \<and>
     rl.dl (q_req q) None (q_work q) ws None \<and> chain r_next (q_req q) (q_pool q) pl \<and>
     distinct (ps @ ws @ pl) \<and> q_poolnum q = int (length pl) \<and> (\<forall>a \<ge> q_brk q. q_req q a = None)"

definition rview :: "srvreqs \<Rightarrow> addr \<rightharpoonup> Npreq" where
  "rview q a = map_option req_core (q_req q a)"

definition same_env :: "srvreqs \<Rightarrow> srvreqs \<Rightarrow> bool" where
  "same_env q q' \<longleftrightarrow> q_conn q' = q_conn q \<and> q_pool q' = q_pool q \<and> q_poolnum q' = q_poolnum q \<and> q_brk q' = q_brk q"

lemma same_cores_rview: "rl.same_cores (q_req q) (q_req q') \<Longrightarrow> rview q' = rview q"
  by (auto simp: rl.same_cores_def rview_def)

lemma same_cores_brk: "rl.same_cores h h' \<Longrightarrow> h a = None \<Longrightarrow> h' a = None"
  by (metis map_option_is_None rl.same_cores_def)

lemma outside:
  assumes "\<forall>b. b \<notin> X \<longrightarrow> h' b = h b" "set as \<inter> X = {}"
  shows "rl.dl h pr p as e \<Longrightarrow> rl.dl h' pr p as e" "chain r_next h p as \<Longrightarrow> chain r_next h' p as"
proof -
  have "h' b = h b" if "b \<in> set as" for b using assms that by blast
  then show "rl.dl h pr p as e \<Longrightarrow> rl.dl h' pr p as e" "chain r_next h p as \<Longrightarrow> chain r_next h' p as"
    using dseg_cong [of as h' h] chain_cong [of as r_next h' h] by simp_all
qed

lemma add_req_ok:
  assumes "qlists q ps ws pl" "a \<notin> set (ps @ ws @ pl)" "q_req q a = Some r" "r_next r = None"
  shows "\<exists>q'. np_srv_add_req a q = Some q' \<and> qlists q' (ps @ [a]) ws pl \<and> rview q' = rview q \<and> same_env q q'"
proof -
  have l: "rl.dl (q_req q) None (q_first q) ps None" "q_last q = lastp None ps" "distinct (ps @ [a])"
    using assms(1,2) by (auto simp: qlists_def)
  obtain h1 h2 where h: "heap_upd (q_req q) a (set_r_prev (q_last q)) = Some h1"
      "heap_upd_opt h1 (q_last q) (set_r_next (Some a)) = Some h2" "rl.same_cores (q_req q) h2"
      "rl.dl h2 None (if q_first q = None then Some a else q_first q) (ps @ [a]) None"
      "\<forall>b. b \<notin> set (ps @ [a]) \<longrightarrow> h2 b = q_req q b"
    using rl.snoc_dl [OF l(1,3) assms(3,4)] l(2) by auto
  let ?q = "q\<lparr>q_req := h2, q_last := Some a, q_first := (if q_first q = None then Some a else q_first q)\<rparr>"
  have "rl.dl h2 None (q_work q) ws None"
    by (rule outside(1) [OF h(5)]) (use assms(1,2) in \<open>auto simp: qlists_def\<close>)
  moreover have "chain r_next h2 (q_pool q) pl"
    by (rule outside(2) [OF h(5)]) (use assms(1,2) in \<open>auto simp: qlists_def\<close>)
  moreover have "\<forall>b \<ge> q_brk q. h2 b = None"
    using assms(1) same_cores_brk [OF h(3)] by (simp add: qlists_def)
  ultimately have "qlists ?q (ps @ [a]) ws pl" using assms(1,2) h(4) by (auto simp: qlists_def)
  moreover have "rview ?q = rview q" using h(3) by (intro same_cores_rview) simp
  ultimately show ?thesis using h(1,2) by (auto simp: np_srv_add_req_def same_env_def)
qed

lemma remove_req_ok:
  assumes "qlists q (xs @ a # ys) ws pl"
  shows "\<exists>q' r. np_srv_remove_req a q = Some q' \<and> qlists q' (xs @ ys) ws pl \<and> rview q' = rview q \<and> same_env q q' \<and>
    q_work q' = q_work q \<and> q_req q a = Some r \<and> q_req q' a = Some r \<and> (\<forall>b. b \<notin> set (xs @ ys) \<longrightarrow> q_req q' b = q_req q b)"
proof -
  have l: "rl.dl (q_req q) None (q_first q) (xs @ a # ys) None" "distinct (xs @ a # ys)"
    using assms by (auto simp: qlists_def)
  obtain r where r: "q_req q a = Some r" using dseg_alloc [OF l(1), of a] by auto
  obtain h where h: "unlink r_next r_prev set_r_next set_r_prev (q_req q) a = Some h" "rl.same_cores (q_req q) h"
      "rl.dl h None (if xs = [] then r_next r else q_first q) (xs @ ys) None" "h a = Some r"
      "\<forall>b. b \<notin> set (xs @ ys) \<longrightarrow> h b = q_req q b"
    using rl.unlink_dl [OF l r] by blast
  have f: "q_first q = Some a \<longleftrightarrow> xs = []"
    using dseg_head [OF l(1)] l(2) by (cases xs) auto
  have e: "q_last q = Some a \<longleftrightarrow> ys = []" "r_prev r = lastp None xs"
    using assms l(2) dseg_prev(1) [OF l(1) r] by (cases ys rule: rev_cases; auto simp: qlists_def lastp_def)+
  let ?q = "q\<lparr>q_req := h, q_first := (if q_first q = Some a then r_next r else q_first q),
      q_last := (if q_last q = Some a then r_prev r else q_last q)\<rparr>"
  have "rl.dl h None (q_work q) ws None" "chain r_next h (q_pool q) pl"
    by (rule outside [OF h(5)]; use assms in \<open>auto simp: qlists_def\<close>)+
  moreover have "\<forall>b \<ge> q_brk q. h b = None"
    using assms same_cores_brk [OF h(2)] by (simp add: qlists_def)
  moreover have "(if q_last q = Some a then r_prev r else q_last q) = lastp None (xs @ ys)"
    using assms e by (auto simp: qlists_def lastp_def)
  ultimately have "qlists ?q (xs @ ys) ws pl" using assms h(3) f by (auto simp: qlists_def)
  moreover have "rview ?q = rview q" using h(2) by (intro same_cores_rview) simp
  ultimately show ?thesis using h r by (auto simp: np_srv_remove_req_def same_env_def)
qed

lemma add_workreq_ok:
  assumes "qlists q ps ws pl" "a \<notin> set (ps @ ws @ pl)" "q_req q a = Some r"
  shows "\<exists>q'. np_srv_add_workreq a q = Some q' \<and> qlists q' ps (a # ws) pl \<and> rview q' = rview q \<and> same_env q q' \<and>
    q_first q' = q_first q"
proof -
  have l: "rl.dl (q_req q) None (q_work q) ws None" "distinct (a # ws)" using assms by (auto simp: qlists_def)
  obtain h where h: "push set_r_next set_r_prev (q_req q) (q_work q) a = Some h" "rl.same_cores (q_req q) h"
      "rl.dl h None (Some a) (a # ws) None" "\<forall>b. b \<notin> set (a # ws) \<longrightarrow> h b = q_req q b"
    using rl.push_dl [OF l assms(3)] by blast
  have "np_srv_add_workreq a q = Some (q\<lparr>q_req := h, q_work := Some a\<rparr>)"
    using h(1) assms(3) dseg_head [OF l(1)] l
    by (cases ws) (auto simp: np_srv_add_workreq_def push_def fun_upd_twist)
  moreover have "rl.dl h None (q_first q) ps None" "chain r_next h (q_pool q) pl"
    by (rule outside [OF h(4)]; use assms in \<open>auto simp: qlists_def\<close>)+
  moreover have "\<forall>b \<ge> q_brk q. h b = None"
    using assms(1) same_cores_brk [OF h(2)] by (simp add: qlists_def)
  ultimately show ?thesis
    using assms h(2,3) same_cores_rview [of q "q\<lparr>q_req := h, q_work := Some a\<rparr>"]
    by (auto simp: qlists_def same_env_def)
qed

lemma remove_workreq_ok:
  assumes "qlists q ps (xs @ a # ys) pl"
  shows "\<exists>q'. np_srv_remove_workreq a q = Some q' \<and> qlists q' ps (xs @ ys) pl \<and> rview q' = rview q \<and> same_env q q'"
proof -
  have l: "rl.dl (q_req q) None (q_work q) (xs @ a # ys) None" "distinct (xs @ a # ys)"
    using assms by (auto simp: qlists_def)
  obtain r where r: "q_req q a = Some r" using dseg_alloc [OF l(1), of a] by auto
  obtain h where h: "unlink r_next r_prev set_r_next set_r_prev (q_req q) a = Some h" "rl.same_cores (q_req q) h"
      "rl.dl h None (if xs = [] then r_next r else q_work q) (xs @ ys) None"
      "\<forall>b. b \<notin> set (xs @ ys) \<longrightarrow> h b = q_req q b"
    using rl.unlink_dl [OF l r] by blast
  let ?q = "q\<lparr>q_req := h, q_work := (if r_prev r = None then r_next r else q_work q)\<rparr>"
  have f: "r_prev r = None \<longleftrightarrow> xs = []" using dseg_prev(1) [OF l(1) r] by (simp add: lastp_def)
  have "rl.dl h None (q_first q) ps None" "chain r_next h (q_pool q) pl"
    by (rule outside [OF h(4)]; use assms in \<open>auto simp: qlists_def\<close>)+
  moreover have "\<forall>b \<ge> q_brk q. h b = None"
    using assms same_cores_brk [OF h(2)] by (simp add: qlists_def)
  ultimately have "qlists ?q ps (xs @ ys) pl" using assms h(3) f by (auto simp: qlists_def)
  moreover have "rview ?q = rview q" using h(2) by (intro same_cores_rview) simp
  ultimately show ?thesis using h r by (auto simp: np_srv_remove_workreq_def same_env_def)
qed

subsection \<open>Requests and connections\<close>

text \<open>Updates of fields that are not links.\<close>

definition data_upd :: "(Npreq \<Rightarrow> Npreq) \<Rightarrow> bool" where
  "data_upd f \<longleftrightarrow> (\<forall>r. r_next (f r) = r_next r \<and> r_prev (f r) = r_prev r \<and> req_core (f r) = f (req_core r))"

lemma rview_Some: "rview q a = Some r \<Longrightarrow> \<exists>g. q_req q a = Some g \<and> req_core g = r"
  by (auto simp: rview_def)

lemma rview_None [simp]: "rview q a = None \<longleftrightarrow> q_req q a = None"
  by (simp add: rview_def)

lemma dseg_data:
  assumes "h a = Some r" "data_upd f"
  shows "rl.dl (h(a \<mapsto> f r)) pr p as e = rl.dl h pr p as e"
  using assms by (induction as arbitrary: pr p) (auto simp: data_upd_def)

lemma qlists_upd:
  assumes "qlists q ps ws pl" "q_req q a = Some r" "data_upd f"
  shows "qlists (q\<lparr>q_req := (q_req q)(a \<mapsto> f r)\<rparr>) ps ws pl"
proof -
  have "chain r_next ((q_req q)(a \<mapsto> f r)) (q_pool q) pl"
    by (rule chain_cong [of pl r_next _ "q_req q"]) (use assms in \<open>auto simp: qlists_def data_upd_def\<close>)
  then show ?thesis using assms dseg_data [of "q_req q" a r f, OF assms(2,3)] by (auto simp: qlists_def)
qed

lemma req_upd_ok:
  assumes "qlists q ps ws pl" "rview q a = Some r" "data_upd f"
  shows "\<exists>q'. req_upd a f q = Some q' \<and> qlists q' ps ws pl \<and> rview q' = (rview q)(a \<mapsto> f r) \<and> same_env q q'"
proof -
  obtain g where g: "q_req q a = Some g" "req_core g = r" using rview_Some [OF assms(2)] by blast
  have "rview (q\<lparr>q_req := (q_req q)(a \<mapsto> f g)\<rparr>) = (rview q)(a \<mapsto> f r)"
    using g(2) assms(3) by (auto simp: rview_def data_upd_def fun_eq_iff)
  then show ?thesis using qlists_upd [OF assms(1) g(1) assms(3)] g(1) by (simp add: req_upd_def same_env_def)
qed

lemma data_updI [simp]:
  "data_upd (\<lambda>r. r\<lparr>r_refcount := r_refcount r + n\<rparr>)" "data_upd (\<lambda>r. r\<lparr>r_refcount := r_refcount r - n\<rparr>)"
  "data_upd (\<lambda>r. r\<lparr>r_responded := b\<rparr>)" "data_upd (\<lambda>r. r\<lparr>r_rcall := rc\<rparr>)" "data_upd (\<lambda>r. r\<lparr>r_flushreq := p\<rparr>)"
  "data_upd (\<lambda>r. r\<lparr>r_tcall := tc, r_rcall := rc\<rparr>)"
  by (simp_all add: data_upd_def req_core_def)

lemma qlists_conn [simp]: "qlists (conn_upd c f q) = qlists q" "rview (conn_upd c f q) = rview q"
  by (auto simp: fun_eq_iff qlists_def conn_upd_def rview_def)

text \<open>What one written packet does to a connection.\<close>

definition deliver :: "bytes \<Rightarrow> Npconn \<Rightarrow> Npconn" where
  "deliver pkt n =
     (if n_resetting n then n
      else case n_trans n of
        None \<Rightarrow> n
      | Some 0 \<Rightarrow> n\<lparr>n_trans := None\<rparr>
      | Some (Suc k) \<Rightarrow> n\<lparr>n_trans := Some k, n_out := n_out n @ [pkt]\<rparr>)"

lemma deliver_refcount [simp]:
  "n_refcount (deliver pkt n) = n_refcount n"
  "deliver pkt (n\<lparr>n_refcount := k\<rparr>) = (deliver pkt n)\<lparr>n_refcount := k\<rparr>"
  by (auto simp: deliver_def split: option.splits nat.splits)

lemma fold_deliver:
  "n_refcount (fold deliver ps n) = n_refcount n"
  "fold deliver ps (n\<lparr>n_refcount := k\<rparr>) = (fold deliver ps n)\<lparr>n_refcount := k\<rparr>"
  by (induction ps arbitrary: n) simp_all

lemma send_reply_conn:
  "send_reply c rc q = conn_upd c (deliver (take (unat (fc_size rc)) (fc_pkt rc))) q"
  by (auto simp: send_reply_def deliver_def conn_upd_def split: option.splits nat.splits)

lemma conn_respond_ok:
  assumes "qlists q ps ws pl" "rview q a = Some r" "n_refcount (q_conn q (r_conn r)) > 0"
  shows "\<exists>q'. np_conn_respond a q = Some q' \<and> qlists q' ps ws pl \<and> rview q' = (rview q)(a \<mapsto> r\<lparr>r_tcall := None, r_rcall := None\<rparr>) \<and>
    same_env (case r_rcall r of None \<Rightarrow> q | Some rc \<Rightarrow> send_reply (r_conn r) rc q) q'"
proof -
  let ?q = "case r_rcall r of None \<Rightarrow> q | Some rc \<Rightarrow> send_reply (r_conn r) rc q"
  obtain g where g: "q_req q a = Some g" "req_core g = r" using rview_Some [OF assms(2)] by blast
  then have s: "r_conn g = r_conn r" "r_rcall g = r_rcall r" by (auto simp: req_core_def)
  have "qlists ?q ps ws pl" "rview ?q = rview q"
    using assms(1) by (auto simp: send_reply_conn split: option.splits)
  moreover have "np_conn_respond a q = req_upd a (\<lambda>r. r\<lparr>r_tcall := None, r_rcall := None\<rparr>) ?q"
    using g(1) s assms(3) by (simp add: np_conn_respond_def cong: option.case_cong)
  ultimately show ?thesis
    using req_upd_ok [of ?q ps ws pl a r "\<lambda>r. r\<lparr>r_tcall := None, r_rcall := None\<rparr>"] assms(2) by simp
qed

text \<open>Requests in use have references.\<close>

definition live :: "(addr \<rightharpoonup> Npreq) \<Rightarrow> addr \<Rightarrow> bool" where
  "live v a \<longleftrightarrow> (case v a of None \<Rightarrow> False | Some r \<Rightarrow> r_refcount r > 0)"

text \<open>Giving up the last reference of a request that is in no list.\<close>

definition conn_drop :: "Npconn \<Rightarrow> Npconn" where
  "conn_drop n = n\<lparr>n_refcount := n_refcount n - 1\<rparr>"

lemma unref_last:
  assumes "qlists q ps ws pl" "rview q a = Some r" "r_refcount r = 1" "a \<notin> set (ps @ ws @ pl)"
    "n_refcount (q_conn q (r_conn r)) > 0"
  shows "\<exists>q'. np_req_unref a q = Some q' \<and> q_conn q' = (q_conn q)(r_conn r := conn_drop (q_conn q (r_conn r))) \<and>
    (if length pl < 64 then qlists q' ps ws (a # pl) \<and> rview q' = (rview q)(a \<mapsto> r\<lparr>r_refcount := 0\<rparr>)
     else qlists q' ps ws pl \<and> rview q' = (rview q)(a := None))"
proof -
  obtain g where g: "q_req q a = Some g" "req_core g = r" using rview_Some [OF assms(2)] by blast
  then have s: "r_conn g = r_conn r" "r_refcount g = 1" using assms(3) by (auto simp: req_core_def)
  have num: "q_poolnum q < 64 \<longleftrightarrow> length pl < 64" using assms(1) by (simp add: qlists_def)
  let ?c = "(q_conn q)(r_conn r := conn_drop (q_conn q (r_conn r)))"
  let ?g = "g\<lparr>r_refcount := 0, r_next := q_pool q\<rparr>"
  let ?q1 = "q\<lparr>q_conn := ?c, q_req := (q_req q)(a \<mapsto> ?g), q_pool := Some a, q_poolnum := q_poolnum q + 1\<rparr>"
  let ?q2 = "q\<lparr>q_conn := ?c, q_req := (q_req q)(a := None)\<rparr>"
  have run: "np_req_unref a q = Some (if length pl < 64 then ?q1 else ?q2)"
    using g(1) s assms(5) num
    by (simp add: np_req_unref_def req_upd_def np_conn_decref_def conn_upd_def conn_drop_def set_r_next_def)
  have out: "\<forall>b. b \<notin> {a} \<longrightarrow> ((q_req q)(a := v)) b = q_req q b" for v by simp
  have l: "rl.dl ((q_req q)(a := v)) None (q_first q) ps None" "rl.dl ((q_req q)(a := v)) None (q_work q) ws None"
      "chain r_next ((q_req q)(a := v)) (q_pool q) pl" for v
    by (rule outside [OF out]; use assms(1,4) in \<open>auto simp: qlists_def\<close>)+
  have "qlists ?q1 ps ws (a # pl)" using assms(1,4) l g(1) by (auto simp: qlists_def)
  moreover have "qlists ?q2 ps ws pl" using assms(1) l by (auto simp: qlists_def)
  moreover have "req_core ?g = r\<lparr>r_refcount := 0\<rparr>" using g(2) by (auto simp: req_core_def)
  then have "rview ?q1 = (rview q)(a \<mapsto> r\<lparr>r_refcount := 0\<rparr>)" by (auto simp: rview_def fun_eq_iff)
  moreover have "rview ?q2 = (rview q)(a := None)" by (auto simp: rview_def fun_eq_iff)
  ultimately show ?thesis using run by auto
qed

lemma alloc_ok:
  assumes "qlists q ps ws pl" "n_refcount (q_conn q c) > 0"
  shows "\<exists>a q' pl'. np_req_alloc c tc q = Some (a, q') \<and> a \<notin> set (ps @ ws @ pl') \<and> length pl' = length pl - 1 \<and> qlists q' ps ws pl' \<and>
    q_req q' a = Some (new_req c tc) \<and> rview q' = (rview q)(a \<mapsto> new_req c tc) \<and> a \<notin> set (ps @ ws) \<and>
    q_conn q' = (q_conn q)(c := (q_conn q c)\<lparr>n_refcount := n_refcount (q_conn q c) + 1\<rparr>)"
proof -
  have core: "req_core (new_req c tc) = new_req c tc" by (simp add: new_req_def req_core_def)
  let ?c = "(q_conn q)(c := (q_conn q c)\<lparr>n_refcount := n_refcount (q_conn q c) + 1\<rparr>)"
  have out: "\<forall>b. b \<notin> {a} \<longrightarrow> ((q_req q)(a := v)) b = q_req q b" for v and a :: addr by simp
  show ?thesis
  proof (cases pl)
    case Nil
    then have p: "q_pool q = None" using assms(1) by (simp add: qlists_def)
    let ?a = "q_brk q"
    let ?q = "q\<lparr>q_brk := ?a + 1, q_conn := ?c, q_req := (q_req q)(?a \<mapsto> new_req c tc)\<rparr>"
    have "q_req q ?a = None" using assms(1) by (simp add: qlists_def)
    then have n: "?a \<notin> set (ps @ ws)"
      using assms(1) dseg_alloc [of r_next r_prev "q_req q" None _ _ None ?a] by (fastforce simp: qlists_def)
    have l: "rl.dl ((q_req q)(?a := v)) None (q_first q) ps None" "rl.dl ((q_req q)(?a := v)) None (q_work q) ws None" for v
      by (rule outside [OF out]; use assms(1) n in \<open>auto simp: qlists_def\<close>)+
    have "qlists ?q ps ws []" using assms(1) l p Nil by (auto simp: qlists_def)
    moreover have "np_req_alloc c tc q = Some (?a, ?q)"
      using p assms(2) by (simp add: np_req_alloc_def np_conn_incref_def conn_upd_def)
    moreover have "rview ?q = (rview q)(?a \<mapsto> new_req c tc)" using core by (auto simp: rview_def fun_eq_iff)
    ultimately show ?thesis using n Nil by (intro exI [of _ ?a] exI [of _ ?q] exI [of _ "[]"]) simp
  next
    case (Cons a pl')
    then obtain r where p: "q_pool q = Some a" "q_req q a = Some r" "chain r_next (q_req q) (r_next r) pl'"
      using assms(1) by (auto simp: qlists_def)
    let ?q = "q\<lparr>q_pool := r_next r, q_poolnum := q_poolnum q - 1, q_conn := ?c, q_req := (q_req q)(a \<mapsto> new_req c tc)\<rparr>"
    have d: "a \<notin> set (ps @ ws @ pl')" using assms(1) Cons by (auto simp: qlists_def)
    have l: "rl.dl ((q_req q)(a := v)) None (q_first q) ps None" "rl.dl ((q_req q)(a := v)) None (q_work q) ws None"
        "chain r_next ((q_req q)(a := v)) (r_next r) pl'" for v
      by (rule outside [OF out]; use assms(1) d p(3) in \<open>auto simp: qlists_def\<close>)+
    have "q_brk q > a" using assms(1) p(2) by (metis not_le option.distinct(1) qlists_def)
    then have "qlists ?q ps ws pl'" using assms(1) l Cons by (auto simp: qlists_def)
    moreover have "np_req_alloc c tc q = Some (a, ?q)"
      using p assms(2) by (simp add: np_req_alloc_def np_conn_incref_def conn_upd_def)
    moreover have "rview ?q = (rview q)(a \<mapsto> new_req c tc)" using core by (auto simp: rview_def fun_eq_iff)
    ultimately show ?thesis using d Cons by (intro exI [of _ a] exI [of _ ?q] exI [of _ pl']) simp
  qed
qed

subsection \<open>Responding\<close>

lemma rview_flushreq: "rview q a = Some r \<Longrightarrow> q_req q a = Some g \<Longrightarrow> r_flushreq g = r_flushreq r"
  by (auto simp: rview_def req_core_def)

lemma filter_out:
  assumes "distinct (xs @ a # ys)"
  shows "filter (\<lambda>x. x \<notin> set (a # fs)) (xs @ a # ys) = filter (\<lambda>x. x \<notin> set fs) (xs @ ys)"
proof -
  have "filter (\<lambda>x. x \<notin> set (a # fs)) zs = filter (\<lambda>x. x \<notin> set fs) zs" if "a \<notin> set zs" for zs
    using that by (induction zs) auto
  then show ?thesis using assms by simp
qed

lemma remove_flushreqs_ok:
  assumes "qlists q ps ws pl" "chain r_flushreq (rview q) p fs" "set fs \<subseteq> set ws" "distinct fs"
  shows "\<exists>q'. remove_flushreqs p q = Some q' \<and> qlists q' ps (filter (\<lambda>x. x \<notin> set fs) ws) pl \<and> rview q' = rview q \<and> same_env q q'"
  using assms
proof (induction fs arbitrary: p q ws)
  case Nil
  then show ?case by (simp add: remove_flushreqs.simps same_env_def)
next
  case (Cons f fs)
  then obtain r where r: "p = Some f" "rview q f = Some r" "chain r_flushreq (rview q) (r_flushreq r) fs" by auto
  obtain xs ys where ws: "ws = xs @ f # ys" using Cons.prems(3) split_list [of f ws] by auto
  have d: "distinct ws" using Cons.prems(1) by (simp add: qlists_def)
  obtain q1 where q1: "np_srv_remove_workreq f q = Some q1" "qlists q1 ps (xs @ ys) pl" "rview q1 = rview q" "same_env q q1"
    using remove_workreq_ok [of q ps xs f ys pl] Cons.prems(1) ws by auto
  obtain g where g: "q_req q1 f = Some g" using rview_Some [of q1 f r] q1(3) r(2) by auto
  have "r_flushreq g = r_flushreq r" using rview_flushreq [of q1 f r g] q1(3) r(2) g by simp
  moreover obtain q2 where "remove_flushreqs (r_flushreq r) q1 = Some q2"
      "qlists q2 ps (filter (\<lambda>x. x \<notin> set fs) (xs @ ys)) pl" "rview q2 = rview q1" "same_env q1 q2"
    using Cons.IH [OF q1(2), of "r_flushreq r"] r(3) q1(3) Cons.prems(3,4) ws by auto
  moreover have "filter (\<lambda>x. x \<notin> set (f # fs)) ws = filter (\<lambda>x. x \<notin> set fs) (xs @ ys)"
    using filter_out [of xs f ys fs] d ws by simp
  ultimately show ?case
    using q1 g r(1) by (auto simp: remove_flushreqs.simps [of "Some f"] same_env_def)
qed

lemma rflush_wire: "\<exists>rc. rflush tag = Some rc \<and> take (unat (fc_size rc)) (fc_pkt rc) = wire Rflush tag []"
proof -
  obtain fc where fc: "np_create_rflush (Some npfcall0) = Inr fc" "fc_pkt fc = wire Rflush NOTAG []" "fc_size fc = 7"
    using created_9p_simple [of MRflush True npfcall0] by (auto simp: built_def)
  obtain rc where "np_set_tag fc tag = Some rc" "fc_pkt rc = wire Rflush tag []" "fc_size rc = fc_size fc"
    using np_set_tag_wire [OF fc(2)] by blast
  then show ?thesis using fc by (auto simp: rflush_def wire_def enc32_def enc16_def enc8_def)
qed

definition flush_packets :: "(addr \<rightharpoonup> Npreq) \<Rightarrow> addr list \<Rightarrow> bytes list" where
  "flush_packets v fs = map (\<lambda>f. wire Rflush (r_tag (the (v f))) []) fs"

lemma flush_packets_simps [simp]:
  "flush_packets v [] = []" "flush_packets v (f # fs) = wire Rflush (r_tag (the (v f))) [] # flush_packets v fs"
  by (simp_all add: flush_packets_def)

text \<open>
  One flush request is answered and goes to the pool. When the pool is full the request is freed, and
  the loop goes on with a field of the freed request.
\<close>

lemma answer_step:
  assumes "qlists q ps ws pl" "rview q f = Some r" "r_refcount r = 1" "r_conn r = c" "f \<notin> set (ps @ ws @ pl)"
    "0 < n_refcount (q_conn q c)"
  shows "\<exists>q'. answer_flushreqs (Some f) q = (if length pl < 64 then answer_flushreqs (r_flushreq r) q' else None) \<and>
    (length pl < 64 \<longrightarrow> qlists q' ps ws (f # pl)) \<and> (\<forall>b. b \<noteq> f \<longrightarrow> rview q' b = rview q b) \<and> \<not> live (rview q') f \<and>
    q_conn q' = (q_conn q)(c := conn_drop (deliver (wire Rflush (r_tag r) []) (q_conn q c)))"
proof -
  obtain rc where rc: "rflush (r_tag r) = Some rc" "take (unat (fc_size rc)) (fc_pkt rc) = wire Rflush (r_tag r) []"
    using rflush_wire by blast
  obtain g where g: "q_req q f = Some g" "r_tag g = r_tag r" using assms(2) by (auto simp: rview_def req_core_def)
  obtain q1 where q1: "req_upd f (\<lambda>r. r\<lparr>r_rcall := Some rc\<rparr>) q = Some q1" "qlists q1 ps ws pl"
      "rview q1 = (rview q)(f \<mapsto> r\<lparr>r_rcall := Some rc\<rparr>)" "same_env q q1"
    using req_upd_ok [OF assms(1,2), of "\<lambda>r. r\<lparr>r_rcall := Some rc\<rparr>"] by auto
  let ?r1 = "r\<lparr>r_tcall := None, r_rcall := None\<rparr>"
  have v1: "rview q1 f = Some (r\<lparr>r_rcall := Some rc\<rparr>)" using q1(3) by simp
  have pos: "n_refcount (q_conn q1 c) > 0" using q1(4) assms(6) by (simp add: same_env_def)
  obtain q2 where q2: "np_conn_respond f q1 = Some q2" "qlists q2 ps ws pl" "rview q2 = (rview q)(f \<mapsto> ?r1)"
      "same_env (send_reply c rc q1) q2"
    using conn_respond_ok [OF q1(2) v1] pos assms(4) q1(3) by auto
  have c2: "q_conn q2 = (q_conn q)(c := deliver (wire Rflush (r_tag r) []) (q_conn q c))"
    using q2(4) q1(4) rc(2) by (simp add: same_env_def send_reply_conn conn_upd_def)
  have v2: "rview q2 f = Some ?r1" using q2(3) by simp
  have pos2: "n_refcount (q_conn q2 (r_conn ?r1)) > 0" using c2 assms(4,6) by simp
  have one: "r_refcount ?r1 = 1" using assms(3) by simp
  from unref_last [OF q2(2) v2 one assms(5) pos2] obtain q3 where q3: "np_req_unref f q2 = Some q3"
      "q_conn q3 = (q_conn q2)(c := conn_drop (q_conn q2 c))"
      "if length pl < 64 then qlists q3 ps ws (f # pl) \<and> rview q3 = (rview q2)(f \<mapsto> ?r1\<lparr>r_refcount := 0\<rparr>)
       else qlists q3 ps ws pl \<and> rview q3 = (rview q2)(f := None)" using assms(4) by auto
  have "answer_flushreqs (Some f) q = q_req q3 f \<bind> (\<lambda>r. answer_flushreqs (r_flushreq r) q3)"
    using g q1(1) q2(1) q3(1) rc(1) by (simp add: answer_flushreqs.simps [of "Some f"])
  moreover have "q_req q3 f \<bind> (\<lambda>r. answer_flushreqs (r_flushreq r) q3) =
      (if length pl < 64 then answer_flushreqs (r_flushreq r) q3 else None)"
  proof (cases "length pl < 64")
    case True
    then have v3: "rview q3 f = Some (?r1\<lparr>r_refcount := 0\<rparr>)" using q3(3) by simp
    show ?thesis using rview_Some [OF v3] rview_flushreq [OF v3] True by auto
  next
    case False
    then have "rview q3 f = None" using q3(3) by simp
    then show ?thesis using False by simp
  qed
  moreover have "\<not> live (rview q3) f" using q3(3) by (auto simp: live_def split: if_splits)
  moreover have "rview q3 b = rview q b" if "b \<noteq> f" for b using q3(3) q2(3) that by (auto split: if_splits)
  ultimately show ?thesis using q3(2,3) c2 by (intro exI [of _ q3]) auto
qed

text \<open>The flush requests of a chain are answered in order and go to the pool, if there is room.\<close>

definition chain_ok :: "srvreqs \<Rightarrow> addr list \<Rightarrow> addr list \<Rightarrow> addr list \<Rightarrow> nat \<Rightarrow> ptr \<Rightarrow> addr list \<Rightarrow> bool" where
  "chain_ok q ps ws pl c p fs \<longleftrightarrow> qlists q ps ws pl \<and> chain r_flushreq (rview q) p fs \<and> distinct fs \<and>
     set fs \<inter> set (ps @ ws @ pl) = {} \<and>
     (\<forall>f \<in> set fs. \<exists>r. rview q f = Some r \<and> r_refcount r = 1 \<and> r_conn r = c) \<and>
     int (length fs) \<le> n_refcount (q_conn q c)"

lemma chain_ok_step:
  assumes "chain_ok q ps ws pl c p (f # fs)"
  obtains r q' where "p = Some f" "rview q f = Some r"
    "answer_flushreqs p q = (if length pl < 64 then answer_flushreqs (r_flushreq r) q' else None)"
    "length pl < 64 \<Longrightarrow> chain_ok q' ps ws (f # pl) c (r_flushreq r) fs" "\<forall>b. b \<noteq> f \<longrightarrow> rview q' b = rview q b"
    "\<not> live (rview q') f" "q_conn q' = (q_conn q)(c := conn_drop (deliver (wire Rflush (r_tag r) []) (q_conn q c)))"
proof -
  obtain r where r: "p = Some f" "rview q f = Some r" "chain r_flushreq (rview q) (r_flushreq r) fs"
      "r_refcount r = 1" "r_conn r = c"
    using assms by (auto simp: chain_ok_def)
  have f: "f \<notin> set (ps @ ws @ pl)" "f \<notin> set fs" "0 < n_refcount (q_conn q c)" "qlists q ps ws pl"
    using assms by (auto simp: chain_ok_def)
  obtain q' where q': "answer_flushreqs (Some f) q = (if length pl < 64 then answer_flushreqs (r_flushreq r) q' else None)"
      "length pl < 64 \<Longrightarrow> qlists q' ps ws (f # pl)" "\<forall>b. b \<noteq> f \<longrightarrow> rview q' b = rview q b" "\<not> live (rview q') f"
      "q_conn q' = (q_conn q)(c := conn_drop (deliver (wire Rflush (r_tag r) []) (q_conn q c)))"
    using answer_step [OF f(4) r(2,4,5) f(1,3)] by blast
  have "chain r_flushreq (rview q') (r_flushreq r) fs"
    by (rule chain_cong [OF _ r(3)]) (use f(2) q'(3) in auto)
  then have "chain_ok q' ps ws (f # pl) c (r_flushreq r) fs" if "length pl < 64"
    using assms q'(2) [OF that] q'(3,5) f(2) by (auto simp: chain_ok_def conn_drop_def)
  with r q' that show thesis by blast
qed

lemma answer_flushreqs_ok:
  assumes "chain_ok q ps ws pl c p fs" "length pl + length fs \<le> 64"
  shows "\<exists>q'. answer_flushreqs p q = Some q' \<and> qlists q' ps ws (rev fs @ pl) \<and>
    (\<forall>b. b \<notin> set fs \<longrightarrow> rview q' b = rview q b) \<and> (\<forall>b. b \<in> set fs \<longrightarrow> \<not> live (rview q') b) \<and>
    q_conn q' = (q_conn q)(c := (fold deliver (flush_packets (rview q) fs) (q_conn q c))
      \<lparr>n_refcount := n_refcount (q_conn q c) - int (length fs)\<rparr>)"
  using assms
proof (induction fs arbitrary: p q pl)
  case Nil
  then show ?case by (simp add: chain_ok_def answer_flushreqs.simps)
next
  case (Cons f fs)
  have room: "length pl < 64" using Cons.prems(2) by simp
  obtain r q1 where s: "p = Some f" "rview q f = Some r" "answer_flushreqs p q = answer_flushreqs (r_flushreq r) q1"
      "chain_ok q1 ps ws (f # pl) c (r_flushreq r) fs" "\<forall>b. b \<noteq> f \<longrightarrow> rview q1 b = rview q b" "\<not> live (rview q1) f"
      "q_conn q1 = (q_conn q)(c := conn_drop (deliver (wire Rflush (r_tag r) []) (q_conn q c)))"
    by (rule chain_ok_step [OF Cons.prems(1)]) (use room in auto)
  have f: "f \<notin> set fs" using Cons.prems(1) by (simp add: chain_ok_def)
  have "length (f # pl) + length fs \<le> 64" using Cons.prems(2) by simp
  from Cons.IH [OF s(4) this]
  obtain q2 where q2: "answer_flushreqs (r_flushreq r) q1 = Some q2" "qlists q2 ps ws (rev fs @ f # pl)"
      "\<forall>b. b \<notin> set fs \<longrightarrow> rview q2 b = rview q1 b" "\<forall>b. b \<in> set fs \<longrightarrow> \<not> live (rview q2) b"
      "q_conn q2 = (q_conn q1)(c := (fold deliver (flush_packets (rview q1) fs) (q_conn q1 c))
        \<lparr>n_refcount := n_refcount (q_conn q1 c) - int (length fs)\<rparr>)"
    by blast
  have "flush_packets (rview q1) fs = flush_packets (rview q) fs"
    using f s(5) by (auto simp: flush_packets_def)
  then show ?case using q2 s f by (auto simp: conn_drop_def fold_deliver live_def)
qed

text \<open>Without room for all of them the loop reads a freed request.\<close>

lemma answer_flushreqs_full:
  "chain_ok q ps ws pl c p fs \<Longrightarrow> 64 < length pl + length fs \<Longrightarrow> length pl \<le> 64 \<Longrightarrow> answer_flushreqs p q = None"
proof (induction fs arbitrary: p q pl)
  case (Cons f fs)
  obtain r :: Npreq and q1 where s: "answer_flushreqs p q = (if length pl < 64 then answer_flushreqs (r_flushreq r) q1 else None)"
      "length pl < 64 \<Longrightarrow> chain_ok q1 ps ws (f # pl) c (r_flushreq r) fs"
    by (rule chain_ok_step [OF Cons.prems(1)]) blast
  show ?case
  proof (cases "length pl < 64")
    case True
    then show ?thesis using Cons.IH [OF s(2)] Cons.prems(2) s(1) by simp
  qed (simp add: s(1))
qed simp

text \<open>
  \<^verbatim>\<open>np_respond\<close> in two parts: first the request and the flush requests behind it leave the list of
  requests that are worked on, then the replies go out.
\<close>

definition respond_take :: "addr \<Rightarrow> ptr \<Rightarrow> qact" where
  "respond_take a p q =
     do { q \<leftarrow> req_upd a (\<lambda>r. r\<lparr>r_responded := True\<rparr>) q;
          q \<leftarrow> np_srv_remove_workreq a q;
          remove_flushreqs p q }"

definition respond_send :: "addr \<Rightarrow> ptr \<Rightarrow> Npfcall \<Rightarrow> qact" where
  "respond_send a p m q =
     do { q \<leftarrow> req_upd a (\<lambda>r. r\<lparr>r_rcall := Some m\<rparr>) q;
          q \<leftarrow> np_conn_respond a q;
          q \<leftarrow> answer_flushreqs p q;
          np_req_unref a q }"

lemma respond_phases:
  assumes "q_req q a = Some r" "\<not> r_responded r" "np_set_tag rc (r_tag r) = Some m"
  shows "np_respond a (Some rc) q = respond_take a (r_flushreq r) q \<bind> respond_send a (r_flushreq r) m"
  using assms by (auto simp: np_respond_def respond_take_def respond_send_def bind_eq_None_conv intro!: Option.bind_cong)

lemma respond_take_ok:
  assumes "qlists q ps ws pl" "rview q a = Some r" "chain r_flushreq (rview q) (r_flushreq r) fs" "distinct (a # fs)"
    "set (a # fs) \<subseteq> set ws"
  shows "\<exists>q'. respond_take a (r_flushreq r) q = Some q' \<and> qlists q' ps (filter (\<lambda>x. x \<notin> set (a # fs)) ws) pl \<and>
    rview q' = (rview q)(a \<mapsto> r\<lparr>r_responded := True\<rparr>) \<and> same_env q q'"
proof -
  let ?r1 = "r\<lparr>r_responded := True\<rparr>"
  obtain q1 where q1: "req_upd a (\<lambda>r. r\<lparr>r_responded := True\<rparr>) q = Some q1" "qlists q1 ps ws pl"
      "rview q1 = (rview q)(a \<mapsto> ?r1)" "same_env q q1"
    using req_upd_ok [OF assms(1,2), of "\<lambda>r. r\<lparr>r_responded := True\<rparr>"] by auto
  obtain xs ys where ws: "ws = xs @ a # ys" using assms(5) split_list [of a ws] by auto
  have d: "distinct (xs @ a # ys)" using assms(1) ws by (auto simp: qlists_def)
  obtain q2 where q2: "np_srv_remove_workreq a q1 = Some q2" "qlists q2 ps (xs @ ys) pl" "rview q2 = rview q1" "same_env q1 q2"
    using remove_workreq_ok [of q1 ps xs a ys pl] q1(2) ws by auto
  have "chain r_flushreq (rview q2) (r_flushreq r) fs"
    by (rule chain_cong [OF _ assms(3)]) (use assms(4) q2(3) q1(3) in auto)
  moreover have "set fs \<subseteq> set (xs @ ys)" using assms(4,5) ws by auto
  ultimately obtain q3 where "remove_flushreqs (r_flushreq r) q2 = Some q3"
      "qlists q3 ps (filter (\<lambda>x. x \<notin> set fs) (xs @ ys)) pl" "rview q3 = (rview q)(a \<mapsto> ?r1)" "same_env q2 q3"
    using remove_flushreqs_ok [OF q2(2)] assms(4) q2(3) q1(3) by fastforce
  then show ?thesis
    using q1(1,4) q2(1,4) filter_out [OF d] ws by (auto simp: respond_take_def same_env_def)
qed

lemma respond_send_start:
  assumes "qlists q ps ws pl" "rview q a = Some r" "r_refcount r = 1" "r_conn r = c" "distinct (a # fs)"
    "chain r_flushreq (rview q) (r_flushreq r) fs" "set (a # fs) \<inter> set (ps @ ws @ pl) = {}"
    "\<And>f. f \<in> set fs \<Longrightarrow> \<exists>r. rview q f = Some r \<and> r_refcount r = 1 \<and> r_conn r = c"
    "int (length fs) < n_refcount (q_conn q c)"
  shows "\<exists>q'. respond_send a (r_flushreq r) m q = answer_flushreqs (r_flushreq r) q' \<bind> np_req_unref a \<and>
    chain_ok q' ps ws pl c (r_flushreq r) fs \<and> rview q' = (rview q)(a \<mapsto> r\<lparr>r_tcall := None, r_rcall := None\<rparr>) \<and>
    q_conn q' = (q_conn q)(c := deliver (take (unat (fc_size m)) (fc_pkt m)) (q_conn q c))"
proof -
  obtain q4 where q4: "req_upd a (\<lambda>r. r\<lparr>r_rcall := Some m\<rparr>) q = Some q4" "qlists q4 ps ws pl"
      "rview q4 = (rview q)(a \<mapsto> r\<lparr>r_rcall := Some m\<rparr>)" "same_env q q4"
    using req_upd_ok [OF assms(1,2), of "\<lambda>r. r\<lparr>r_rcall := Some m\<rparr>"] by auto
  have v4: "rview q4 a = Some (r\<lparr>r_rcall := Some m\<rparr>)" using q4(3) by simp
  obtain q5 where q5: "np_conn_respond a q4 = Some q5" "qlists q5 ps ws pl"
      "rview q5 = (rview q)(a \<mapsto> r\<lparr>r_tcall := None, r_rcall := None\<rparr>)" "same_env (send_reply c m q4) q5"
    using conn_respond_ok [OF q4(2) v4] q4(3,4) assms(4,9) by (auto simp: same_env_def)
  have env5: "q_conn q5 = (q_conn q)(c := deliver (take (unat (fc_size m)) (fc_pkt m)) (q_conn q c))"
    using q5(4) q4(4) by (simp add: same_env_def send_reply_conn conn_upd_def)
  have "\<exists>r. rview q5 f = Some r \<and> r_refcount r = 1 \<and> r_conn r = c" if "f \<in> set fs" for f
    using assms(8) [OF that] assms(5) that q5(3) by auto
  moreover have "chain r_flushreq (rview q5) (r_flushreq r) fs"
    by (rule chain_cong [OF _ assms(6)]) (use assms(5) q5(3) in auto)
  ultimately have "chain_ok q5 ps ws pl c (r_flushreq r) fs"
    using q5(2) assms(5,7,9) env5 by (auto simp: chain_ok_def)
  then show ?thesis using q4(1) q5(1,3) env5 by (intro exI [of _ q5]) (simp add: respond_send_def)
qed

lemma respond_send_ok:
  assumes "qlists q ps ws pl" "rview q a = Some r" "r_refcount r = 1" "r_conn r = c" "distinct (a # fs)"
    "chain r_flushreq (rview q) (r_flushreq r) fs" "set (a # fs) \<inter> set (ps @ ws @ pl) = {}"
    "\<And>f. f \<in> set fs \<Longrightarrow> \<exists>r. rview q f = Some r \<and> r_refcount r = 1 \<and> r_conn r = c"
    "int (length fs) < n_refcount (q_conn q c)" "length pl + length fs \<le> 64"
  shows "\<exists>q' pl'. respond_send a (r_flushreq r) m q = Some q' \<and> qlists q' ps ws pl' \<and> length pl' \<le> 64 \<and>
    length pl' \<le> length pl + length fs + 1 \<and>
    (\<forall>b. b \<notin> set (a # fs) \<longrightarrow> rview q' b = rview q b) \<and> (\<forall>b. b \<in> set (a # fs) \<longrightarrow> \<not> live (rview q') b) \<and>
    q_conn q' = (q_conn q)(c := (fold deliver (take (unat (fc_size m)) (fc_pkt m) # flush_packets (rview q) fs) (q_conn q c))
      \<lparr>n_refcount := n_refcount (q_conn q c) - int (length fs) - 1\<rparr>)"
proof -
  let ?r5 = "r\<lparr>r_tcall := None, r_rcall := None\<rparr>"
  obtain q5 where q5: "respond_send a (r_flushreq r) m q = answer_flushreqs (r_flushreq r) q5 \<bind> np_req_unref a"
      "chain_ok q5 ps ws pl c (r_flushreq r) fs" "rview q5 = (rview q)(a \<mapsto> ?r5)"
      "q_conn q5 = (q_conn q)(c := deliver (take (unat (fc_size m)) (fc_pkt m)) (q_conn q c))"
    using respond_send_start [OF assms(1-9)] by blast
  have fp: "flush_packets (rview q5) fs = flush_packets (rview q) fs"
    using assms(5) q5(3) by (auto simp: flush_packets_def)
  obtain q6 where q6: "answer_flushreqs (r_flushreq r) q5 = Some q6" "qlists q6 ps ws (rev fs @ pl)"
      "\<forall>b. b \<notin> set fs \<longrightarrow> rview q6 b = rview q5 b" "\<forall>b. b \<in> set fs \<longrightarrow> \<not> live (rview q6) b"
      "q_conn q6 = (q_conn q5)(c := (fold deliver (flush_packets (rview q) fs) (q_conn q5 c))
        \<lparr>n_refcount := n_refcount (q_conn q5 c) - int (length fs)\<rparr>)"
    using answer_flushreqs_ok [OF q5(2) assms(10)] fp by auto
  have v6: "rview q6 a = Some ?r5" using q6(3) q5(3) assms(5) by auto
  have nin: "a \<notin> set (ps @ ws @ rev fs @ pl)" using assms(5,7) by auto
  have pos: "n_refcount (q_conn q6 (r_conn ?r5)) > 0" using q6(5) q5(4) assms(4,9) by simp
  obtain q7 where q7: "np_req_unref a q6 = Some q7" "q_conn q7 = (q_conn q6)(c := conn_drop (q_conn q6 c))"
      "if length (rev fs @ pl) < 64 then qlists q7 ps ws (a # rev fs @ pl) \<and> rview q7 = (rview q6)(a \<mapsto> ?r5\<lparr>r_refcount := 0\<rparr>)
       else qlists q7 ps ws (rev fs @ pl) \<and> rview q7 = (rview q6)(a := None)"
    using unref_last [OF q6(2) v6 _ nin pos] assms(3,4) by auto
  have "respond_send a (r_flushreq r) m q = Some q7" using q5(1) q6(1) q7(1) by simp
  moreover have "\<exists>pl'. qlists q7 ps ws pl' \<and> length pl' \<le> 64 \<and> length pl' \<le> length pl + length fs + 1"
    using q7(3) assms(10) by (cases "length (rev fs @ pl) < 64") (auto intro: exI [of _ "a # rev fs @ pl"] exI [of _ "rev fs @ pl"])
  moreover have "\<not> live (rview q7) b" if "b \<in> set (a # fs)" for b
    using q7(3) q6(4) assms(5) that by (auto simp: live_def split: if_splits)
  moreover have "rview q7 b = rview q b" if "b \<notin> set (a # fs)" for b
    using q7(3) q6(3) q5(3) that by (auto split: if_splits)
  ultimately show ?thesis
    using q7(2) q6(5) q5(4) by (auto simp: conn_drop_def fold_deliver)
qed

lemma respond_send_full:
  assumes "qlists q ps ws pl" "rview q a = Some r" "r_refcount r = 1" "r_conn r = c" "distinct (a # fs)"
    "chain r_flushreq (rview q) (r_flushreq r) fs" "set (a # fs) \<inter> set (ps @ ws @ pl) = {}"
    "\<And>f. f \<in> set fs \<Longrightarrow> \<exists>r. rview q f = Some r \<and> r_refcount r = 1 \<and> r_conn r = c"
    "int (length fs) < n_refcount (q_conn q c)" "64 < length pl + length fs" "length pl \<le> 64"
  shows "respond_send a (r_flushreq r) m q = None"
  using respond_send_start [OF assms(1-9), of m] answer_flushreqs_full [OF _ assms(10,11)] by fastforce

end
