(* ===== verification/Reqs_Inv.thy ===== *)
theory Reqs_Inv
  imports Reqs_Spec
begin

text \<open>
  The invariant of the request lists and that every step of the server keeps it. The requests worked
  on fall into groups: a request and the flush requests that wait for it, linked by
  \<^verbatim>\<open>flushreq\<close>.
\<close>

definition idle_req :: "Npreq \<Rightarrow> bool" where
  "idle_req r \<longleftrightarrow> r_refcount r = 1 \<and> \<not> r_responded r \<and> r_tcall r \<noteq> None \<and> r_rcall r = None"

type_synonym reqview = "addr \<rightharpoonup> Npreq"

definition conn_is :: "reqview \<Rightarrow> nat \<Rightarrow> addr \<Rightarrow> bool" where
  "conn_is v c a \<longleftrightarrow> (case v a of None \<Rightarrow> False | Some r \<Rightarrow> r_conn r = c)"

definition group :: "reqview \<Rightarrow> addr list \<Rightarrow> bool" where
  "group v g \<longleftrightarrow> g \<noteq> [] \<and> chain r_flushreq v (Some (hd g)) g \<and> (\<exists>c. \<forall>a \<in> set g. conn_is v c a)"

definition groups :: "reqview \<Rightarrow> addr list \<Rightarrow> addr list list \<Rightarrow> bool" where
  "groups v ws gs \<longleftrightarrow> distinct (concat gs) \<and> set (concat gs) = set ws \<and> (\<forall>g \<in> set gs. group v g)"

definition qinv :: "srvreqs \<Rightarrow> addr list \<Rightarrow> addr list \<Rightarrow> addr list list \<Rightarrow> bool" where
  "qinv q ps ws gs \<longleftrightarrow>
     (\<exists>pl. qlists q ps ws pl \<and> length pl \<le> 64) \<and> groups (rview q) ws gs \<and>
     (\<forall>a \<in> set (ps @ ws). \<exists>r. rview q a = Some r \<and> idle_req r \<and> (a \<in> set ps \<longrightarrow> r_flushreq r = None)) \<and>
     (\<forall>c. int (length (filter (conn_is (rview q) c) (ps @ ws))) \<le> n_refcount (q_conn q c))"

text \<open>How full the pool is.\<close>

lemma pool_length: "qlists q ps ws pl \<Longrightarrow> q_poolnum q = int (length pl)"
  by (simp add: qlists_def)

lemma qinvD:
  assumes "qinv q ps ws gs"
  obtains pl where "qlists q ps ws pl" "length pl \<le> 64"
  using assms unfolding qinv_def by blast

lemma qinv_req:
  "qinv q ps ws gs \<Longrightarrow> a \<in> set (ps @ ws) \<Longrightarrow> \<exists>r. rview q a = Some r \<and> idle_req r"
  unfolding qinv_def by blast

text \<open>The groups only depend on the requests worked on.\<close>

lemma group_cong:
  assumes "group v g" "\<And>a. a \<in> set g \<Longrightarrow> v' a = v a"
  shows "group v' g"
proof -
  have "chain r_flushreq v (Some (hd g)) g" using assms(1) by (simp add: group_def)
  then have "chain r_flushreq v' (Some (hd g)) g" by (rule chain_cong [rotated]) (simp add: assms(2))
  then show ?thesis using assms by (auto simp: group_def conn_is_def)
qed

lemma groups_cong:
  assumes "groups v ws gs" "\<And>a. a \<in> set ws \<Longrightarrow> v' a = v a"
  shows "groups v' ws gs"
proof -
  have "group v' g" if "g \<in> set gs" for g
    by (rule group_cong [of v]) (use assms that in \<open>auto simp: groups_def\<close>)
  then show ?thesis using assms(1) by (simp add: groups_def)
qed

lemma conn_is_cong: "(\<And>a. a \<in> set xs \<Longrightarrow> v' a = v a) \<Longrightarrow> filter (conn_is v' c) xs = filter (conn_is v c) xs"
  by (rule filter_cong) (simp_all add: conn_is_def)

text \<open>What the invariant needs beside the lists.\<close>

lemma qinvI:
  assumes "qlists q ps ws pl" "length pl \<le> 64" "groups (rview q) ws gs"
    "\<And>a. a \<in> set (ps @ ws) \<Longrightarrow> \<exists>r. rview q a = Some r \<and> idle_req r \<and> (a \<in> set ps \<longrightarrow> r_flushreq r = None)"
    "\<And>c. int (length (filter (conn_is (rview q) c) (ps @ ws))) \<le> n_refcount (q_conn q c)"
  shows "qinv q ps ws gs"
  using assms unfolding qinv_def by blast

subsection \<open>Receiving and taking requests\<close>

lemma receive_inv:
  assumes "qinv q ps ws gs" "n_refcount (q_conn q c) > 0" "\<not> n_resetting (q_conn q c)"
  shows "\<exists>q' a. receive c tc q = Some q' \<and> qinv q' (ps @ [a]) ws gs \<and> rview q' = (rview q)(a \<mapsto> new_req c tc) \<and>
    a \<notin> set (ps @ ws) \<and> q_poolnum q' = max 0 (q_poolnum q - 1) \<and> (\<forall>d. n_out (q_conn q' d) = n_out (q_conn q d) \<and> n_resetting (q_conn q' d) = n_resetting (q_conn q d) \<and>
      n_refcount (q_conn q d) \<le> n_refcount (q_conn q' d))"
proof -
  obtain pl where l: "qlists q ps ws pl" "length pl \<le> 64" using assms(1) by (rule qinvD)
  obtain a q1 pl1 where q1: "np_req_alloc c tc q = Some (a, q1)" "a \<notin> set (ps @ ws @ pl1)" "length pl1 = length pl - 1" "qlists q1 ps ws pl1"
      "q_req q1 a = Some (new_req c tc)" "rview q1 = (rview q)(a \<mapsto> new_req c tc)" "a \<notin> set (ps @ ws)"
      "q_conn q1 = (q_conn q)(c := (q_conn q c)\<lparr>n_refcount := n_refcount (q_conn q c) + 1\<rparr>)"
    using alloc_ok [OF l(1) assms(2)] by blast
  obtain q2 where q2: "np_srv_add_req a q1 = Some q2" "qlists q2 (ps @ [a]) ws pl1" "rview q2 = rview q1" "same_env q1 q2"
    using add_req_ok [OF q1(4,2,5)] by (auto simp: new_req_def)
  have v: "rview q2 b = rview q b" if "b \<in> set (ps @ ws)" for b using q2(3) q1(6,7) that by auto
  have "qinv q2 (ps @ [a]) ws gs"
  proof (rule qinvI [OF q2(2)])
    show "groups (rview q2) ws gs" by (rule groups_cong [of "rview q"]) (use assms(1) v in \<open>auto simp: qinv_def\<close>)
    show "\<exists>r. rview q2 b = Some r \<and> idle_req r \<and> (b \<in> set (ps @ [a]) \<longrightarrow> r_flushreq r = None)" if "b \<in> set ((ps @ [a]) @ ws)" for b
      using that v [of b] assms(1) q2(3) q1(6,7) by (cases "b = a") (auto simp: qinv_def idle_req_def new_req_def)
    show "int (length (filter (conn_is (rview q2) d) ((ps @ [a]) @ ws))) \<le> n_refcount (q_conn q2 d)" for d
    proof -
      have "filter (conn_is (rview q2) d) ps = filter (conn_is (rview q) d) ps" "filter (conn_is (rview q2) d) ws = filter (conn_is (rview q) d) ws"
        using v by (auto intro!: conn_is_cong)
      moreover have "conn_is (rview q2) d a \<longleftrightarrow> d = c" using q2(3) q1(6) by (auto simp: conn_is_def new_req_def)
      moreover have "int (length (filter (conn_is (rview q) d) (ps @ ws))) \<le> n_refcount (q_conn q d)" using assms(1) by (auto simp: qinv_def)
      ultimately show ?thesis using q2(4) q1(8) by (auto simp: same_env_def)
    qed
  qed (use q1(3) l(2) in simp)
  moreover have "receive c tc q = Some q2" using q1(1,8) q2(1) assms(3) by (simp add: receive_def)
  ultimately show ?thesis
    using q1(3,6-8) q2(3,4) pool_length [OF l(1)] pool_length [OF q2(2)] by (auto simp: same_env_def)
qed

lemma take_inv:
  assumes "qinv q (a # ps) ws gs"
  shows "\<exists>q'. take_req q = Some (Some a, q') \<and> qinv q' ps (a # ws) ([a] # gs) \<and> rview q' = rview q \<and>
    q_conn q' = q_conn q \<and> q_poolnum q' = q_poolnum q"
proof -
  obtain pl where l: "qlists q (a # ps) ws pl" "length pl \<le> 64" using assms by (rule qinvD)
  obtain q1 r where q1: "np_srv_remove_req a q = Some q1" "qlists q1 ps ws pl" "rview q1 = rview q" "same_env q q1" "q_req q1 a = Some r"
    using remove_req_ok [of q "[]" a ps ws pl] l(1) by auto
  have nin: "a \<notin> set (ps @ ws @ pl)" using l(1) by (auto simp: qlists_def)
  obtain q2 where q2: "np_srv_add_workreq a q1 = Some q2" "qlists q2 ps (a # ws) pl" "rview q2 = rview q1" "same_env q1 q2"
    using add_workreq_ok [OF q1(2) nin q1(5)] by blast
  have v: "rview q2 = rview q" using q2(3) q1(3) by simp
  obtain r where r: "rview q a = Some r" "r_flushreq r = None" using assms unfolding qinv_def by auto
  have "groups (rview q2) (a # ws) ([a] # gs)"
  proof -
    have "groups (rview q2) ws gs" using assms v by (simp add: qinv_def)
    then show ?thesis using nin r v by (auto simp: groups_def group_def conn_is_def)
  qed
  moreover have "\<exists>r. rview q2 b = Some r \<and> idle_req r \<and> (b \<in> set ps \<longrightarrow> r_flushreq r = None)" if "b \<in> set (ps @ a # ws)" for b
    using that assms v by (auto simp: qinv_def)
  moreover have "int (length (filter (conn_is (rview q2) c) (ps @ a # ws))) \<le> n_refcount (q_conn q2 c)" for c
  proof -
    have "int (length (filter (conn_is (rview q) c) ((a # ps) @ ws))) \<le> n_refcount (q_conn q c)" using assms unfolding qinv_def by blast
    then show ?thesis using q2(4) q1(4) v by (auto simp: same_env_def split: if_splits)
  qed
  ultimately have "qinv q2 ps (a # ws) ([a] # gs)" by (intro qinvI [OF q2(2) l(2)])
  moreover have "q_first q = Some a" using l(1) by (simp add: qlists_def)
  then have "take_req q = Some (Some a, q2)" using q1(1) q2(1) by (simp add: take_req_def)
  ultimately show ?thesis using v q1(4) q2(4) by (auto simp: same_env_def)
qed

subsection \<open>Responding\<close>

lemma filter_split:
  assumes "distinct ws" "distinct g" "set g \<subseteq> set ws"
  shows "length (filter P ws) = length (filter P (filter (\<lambda>x. x \<notin> set g) ws)) + length (filter P g)"
proof -
  have "length (filter P ws) = card ({x. P x} \<inter> set ws)" "length (filter P g) = card ({x. P x} \<inter> set g)"
    "length (filter P (filter (\<lambda>x. x \<notin> set g) ws)) = card ({x. P x} \<inter> (set ws - set g))"
    using assms(1,2) distinct_length_filter [of ws P] distinct_length_filter [of g P]
      distinct_length_filter [of "filter (\<lambda>x. x \<notin> set g) ws" P] by (auto simp: Int_def Diff_eq)
  moreover have "card ({x. P x} \<inter> set ws) = card ({x. P x} \<inter> (set ws - set g) \<union> {x. P x} \<inter> set g)"
    using assms(3) by (intro arg_cong [of _ _ card]) auto
  moreover have "\<dots> = card ({x. P x} \<inter> (set ws - set g)) + card ({x. P x} \<inter> set g)"
    by (rule card_Un_disjoint) auto
  ultimately show ?thesis by simp
qed

lemma groups_remove:
  assumes "groups v ws gs" "g \<in> set gs"
  shows "groups v (filter (\<lambda>x. x \<notin> set g) ws) (remove1 g gs)" "distinct g" "set g \<subseteq> set ws" "group v g"
proof -
  obtain xs ys where s: "gs = xs @ g # ys" "g \<notin> set xs" using assms(2) split_list_first by metis
  then have r: "remove1 g gs = xs @ ys" by (simp add: remove1_append)
  show "groups v (filter (\<lambda>x. x \<notin> set g) ws) (remove1 g gs)" "distinct g" "set g \<subseteq> set ws" "group v g"
    using assms(1) unfolding r groups_def by (auto simp: s(1))
qed

text \<open>A group belongs to one connection, and holds as many references on it as it has requests.\<close>

lemma group_members:
  assumes "qinv q ps ws gs" "a # fs \<in> set gs" "conn_is (rview q) c a" "f \<in> set (a # fs)"
  shows "\<exists>r. rview q f = Some r \<and> idle_req r \<and> r_conn r = c"
proof -
  have "groups (rview q) ws gs" using assms(1) by (simp add: qinv_def)
  note g = groups_remove [OF this assms(2)]
  then have "f \<in> set (ps @ ws)" using assms(4) by auto
  then obtain r where r: "rview q f = Some r" "idle_req r" using qinv_req [OF assms(1)] by blast
  obtain d where "conn_is (rview q) d a" "conn_is (rview q) d f" using g(4) assms(4) by (auto simp: group_def)
  then have "r_conn r = c" using assms(3) r(1) by (auto simp: conn_is_def split: option.splits)
  with r show ?thesis by blast
qed

lemma group_count:
  assumes "qinv q ps ws gs" "a # fs \<in> set gs" "conn_is (rview q) c a"
  shows "int (length (filter (conn_is (rview q) e) ps)) + int (length (filter (conn_is (rview q) e) (filter (\<lambda>x. x \<notin> set (a # fs)) ws))) +
    (if e = c then int (length fs) + 1 else 0) \<le> n_refcount (q_conn q e)"
proof -
  let ?v = "rview q"
  have "groups ?v ws gs" "distinct ws" using assms(1) by (auto simp: qinv_def qlists_def)
  note g = groups_remove [OF this(1) assms(2)] this(2)
  have "filter (conn_is ?v e) (a # fs) = (if e = c then a # fs else [])"
    using group_members [OF assms] by (fastforce simp: conn_is_def filter_empty_conv filter_id_conv)
  then have "length (filter (conn_is ?v e) (a # fs)) = (if e = c then length fs + 1 else 0)" by simp
  moreover have "int (length (filter (conn_is ?v e) (ps @ ws))) \<le> n_refcount (q_conn q e)"
    using assms(1) unfolding qinv_def by blast
  moreover note filter_split [OF g(5) g(2,3), of "conn_is ?v e"]
  ultimately show ?thesis unfolding filter_append length_append by (cases "e = c") simp_all
qed

text \<open>The first part of a response, and what the second one finds.\<close>

lemma respond_taken:
  assumes "qinv q ps ws gs" "a # fs \<in> set gs" "np_set_tag rc (r_tag (the (rview q a))) = Some m" "conn_is (rview q) c a"
  obtains q1 r pl where "np_respond a (Some rc) q = respond_send a (r_flushreq r) m q1"
    "qlists q ps ws pl" "length pl \<le> 64" "qlists q1 ps (filter (\<lambda>x. x \<notin> set (a # fs)) ws) pl" "rview q1 a = Some r" "r_refcount r = 1" "r_conn r = c" "distinct (a # fs)"
    "chain r_flushreq (rview q1) (r_flushreq r) fs" "set (a # fs) \<inter> set (ps @ filter (\<lambda>x. x \<notin> set (a # fs)) ws @ pl) = {}"
    "\<And>f. f \<in> set fs \<Longrightarrow> \<exists>r. rview q1 f = Some r \<and> r_refcount r = 1 \<and> r_conn r = c"
    "int (length fs) < n_refcount (q_conn q1 c)" "q_conn q1 = q_conn q" "\<forall>b. b \<noteq> a \<longrightarrow> rview q1 b = rview q b"
proof -
  let ?v = "rview q" and ?ws = "filter (\<lambda>x. x \<notin> set (a # fs)) ws"
  obtain pl where l: "qlists q ps ws pl" "length pl \<le> 64" using assms(1) by (rule qinvD)
  have gs: "groups ?v ws gs" using assms(1) by (simp add: qinv_def)
  note g = groups_remove [OF gs assms(2)]
  note members = group_members [OF assms(1,2,4)]
  obtain r where r: "?v a = Some r" "idle_req r" "r_conn r = c" using members [of a] by auto
  have ch: "chain r_flushreq ?v (r_flushreq r) fs" using g(4) r(1) by (auto simp: group_def)
  let ?r1 = "r\<lparr>r_responded := True\<rparr>"
  obtain q1 where q1: "respond_take a (r_flushreq r) q = Some q1" "qlists q1 ps ?ws pl" "rview q1 = ?v(a \<mapsto> ?r1)" "same_env q q1"
    using respond_take_ok [OF l(1) r(1) ch g(2,3)] by blast
  obtain h where "q_req q a = Some h" "\<not> r_responded h" "r_tag h = r_tag r" "r_flushreq h = r_flushreq r"
    using r by (auto simp: rview_def req_core_def idle_req_def)
  then have "np_respond a (Some rc) q = respond_send a (r_flushreq ?r1) m q1"
    using respond_phases [of q a h rc m] assms(3) r(1) q1(1) by simp
  moreover have "chain r_flushreq (rview q1) (r_flushreq r) fs"
    by (rule chain_cong [OF _ ch]) (use g(2) q1(3) in auto)
  moreover have "\<exists>r. rview q1 f = Some r \<and> r_refcount r = 1 \<and> r_conn r = c" if "f \<in> set fs" for f
    using members [of f] that g(2) q1(3) by (auto simp: idle_req_def)
  moreover have "int (length fs) < n_refcount (q_conn q1 c)"
    using group_count [OF assms(1,2,4), of c] q1(4) by (simp add: same_env_def)
  moreover have "set (a # fs) \<inter> set (ps @ ?ws @ pl) = {}" using g(3) l(1) by (auto simp: qlists_def)
  ultimately show thesis
    using that [of ?r1 q1 pl] l q1(2-4) r g(2) by (auto simp: idle_req_def same_env_def)
qed

lemma respond_inv:
  assumes "qinv q ps ws gs" "a # fs \<in> set gs" "fs = [] \<or> q_poolnum q + int (length fs) \<le> 64"
    "np_set_tag rc (r_tag (the (rview q a))) = Some m" "conn_is (rview q) c a"
  shows "\<exists>q'. np_respond a (Some rc) q = Some q' \<and> qinv q' ps (filter (\<lambda>x. x \<notin> set (a # fs)) ws) (remove1 (a # fs) gs) \<and>
    q_poolnum q' \<le> q_poolnum q + int (length fs) + 1 \<and>
    (\<forall>b. b \<notin> set (a # fs) \<longrightarrow> rview q' b = rview q b) \<and> (\<forall>b. b \<in> set (a # fs) \<longrightarrow> \<not> live (rview q') b) \<and>
    q_conn q' = (q_conn q)(c := (fold deliver (take (unat (fc_size m)) (fc_pkt m) # flush_packets (rview q) fs) (q_conn q c))
      \<lparr>n_refcount := n_refcount (q_conn q c) - int (length fs) - 1\<rparr>)"
proof -
  let ?v = "rview q" and ?ws = "filter (\<lambda>x. x \<notin> set (a # fs)) ws"
  obtain q1 r pl where t: "np_respond a (Some rc) q = respond_send a (r_flushreq r) m q1" "qlists q ps ws pl" "length pl \<le> 64"
    and s: "qlists q1 ps ?ws pl" "rview q1 a = Some r" "r_refcount r = 1" "r_conn r = c" "distinct (a # fs)"
      "chain r_flushreq (rview q1) (r_flushreq r) fs" "set (a # fs) \<inter> set (ps @ ?ws @ pl) = {}"
      "\<And>f. f \<in> set fs \<Longrightarrow> \<exists>r. rview q1 f = Some r \<and> r_refcount r = 1 \<and> r_conn r = c"
      "int (length fs) < n_refcount (q_conn q1 c)"
    and same: "q_conn q1 = q_conn q" "\<forall>b. b \<noteq> a \<longrightarrow> rview q1 b = rview q b"
    by (rule respond_taken [OF assms(1,2,4,5)]) blast
  have room: "length pl + length fs \<le> 64" using assms(3) t(2,3) by (auto simp: qlists_def)
  have fp: "flush_packets (rview q1) fs = flush_packets ?v fs" using s(5) same(2) by (auto simp: flush_packets_def)
  obtain q2 pl2 where q2: "respond_send a (r_flushreq r) m q1 = Some q2" "qlists q2 ps ?ws pl2" "length pl2 \<le> 64"
      "\<forall>b. b \<notin> set (a # fs) \<longrightarrow> rview q2 b = rview q1 b"
      "length pl2 \<le> length pl + length fs + 1" "\<forall>b. b \<in> set (a # fs) \<longrightarrow> \<not> live (rview q2) b"
      "q_conn q2 = (q_conn q1)(c := (fold deliver (take (unat (fc_size m)) (fc_pkt m) # flush_packets (rview q1) fs) (q_conn q1 c))
        \<lparr>n_refcount := n_refcount (q_conn q1 c) - int (length fs) - 1\<rparr>)"
    using respond_send_ok [OF s room, of m] by blast
  have v2: "rview q2 b = ?v b" if "b \<notin> set (a # fs)" for b using q2(4) same(2) that by auto
  have v2': "rview q2 b = ?v b" if "b \<in> set (ps @ ?ws)" for b using v2 [of b] that s(7) by auto
  have "qinv q2 ps ?ws (remove1 (a # fs) gs)"
  proof (rule qinvI [OF q2(2,3)])
    have "groups ?v ws gs" using assms(1) by (simp add: qinv_def)
    then show "groups (rview q2) ?ws (remove1 (a # fs) gs)"
      using groups_cong [OF groups_remove(1) [OF _ assms(2)], of ?v ws "rview q2"] v2' by auto
    show "\<exists>r. rview q2 b = Some r \<and> idle_req r \<and> (b \<in> set ps \<longrightarrow> r_flushreq r = None)" if "b \<in> set (ps @ ?ws)" for b
      using v2' [OF that] that assms(1) by (auto simp: qinv_def)
    show "int (length (filter (conn_is (rview q2) e) (ps @ ?ws))) \<le> n_refcount (q_conn q2 e)" for e
      using group_count [OF assms(1,2,5), of e] conn_is_cong [of "ps @ ?ws" "rview q2" ?v e, OF v2'] q2(7) same(1)
      by (auto split: if_splits)
  qed
  then show ?thesis
    using t(1) q2 v2 same(1) fp pool_length [OF t(2)] pool_length [OF q2(2)] by auto
qed

text \<open>Without room in the pool for the flush requests the response is undefined.\<close>

lemma respond_full:
  assumes "qinv q ps ws gs" "a # fs \<in> set gs" "64 < q_poolnum q + int (length fs)"
    "np_set_tag rc (r_tag (the (rview q a))) = Some m" "conn_is (rview q) c a"
  shows "np_respond a (Some rc) q = None"
proof -
  let ?ws = "filter (\<lambda>x. x \<notin> set (a # fs)) ws"
  obtain q1 r pl where t: "np_respond a (Some rc) q = respond_send a (r_flushreq r) m q1" "qlists q ps ws pl" "length pl \<le> 64"
    and s: "qlists q1 ps ?ws pl" "rview q1 a = Some r" "r_refcount r = 1" "r_conn r = c" "distinct (a # fs)"
      "chain r_flushreq (rview q1) (r_flushreq r) fs" "set (a # fs) \<inter> set (ps @ ?ws @ pl) = {}"
      "\<And>f. f \<in> set fs \<Longrightarrow> \<exists>r. rview q1 f = Some r \<and> r_refcount r = 1 \<and> r_conn r = c"
      "int (length fs) < n_refcount (q_conn q1 c)"
    by (rule respond_taken [OF assms(1,2,4,5)]) blast
  then show ?thesis
    using respond_send_full [OF s _ t(3), of m] assms(3) pool_length [OF t(2)] by simp
qed

end
