(* ===== verification/Reqs_Flush.thy ===== *)
theory Reqs_Flush
  imports Reqs_Inv
begin

text \<open>
  \<^verbatim>\<open>np_flush\<close>: a pending request is thrown away, a flush of a request that is worked on waits for it,
  and a flush of an unknown tag is answered at once.
\<close>

subsection \<open>The search\<close>

definition tagged :: "reqview \<Rightarrow> nat \<Rightarrow> u16 \<Rightarrow> addr \<Rightarrow> bool" where
  "tagged v c tag a \<longleftrightarrow> (case v a of None \<Rightarrow> False | Some r \<Rightarrow> is_req c tag r)"

lemma find_req_list:
  "rl.dl (q_req q) pr p as None \<Longrightarrow> find_req (is_req c tag) (q_req q) p = Some (List.find (tagged (rview q) c tag) as)"
proof (induction as arbitrary: p pr)
  case Nil
  then show ?case by (simp add: find_req.simps)
next
  case (Cons a as)
  then obtain r where r: "p = Some a" "q_req q a = Some r" "rl.dl (q_req q) (Some a) (r_next r) as None" by auto
  have "tagged (rview q) c tag a \<longleftrightarrow> is_req c tag r" by (simp add: tagged_def rview_def r(2) req_core_def is_req_def)
  then show ?case using Cons.IH [OF r(3)] r(1,2) by (simp add: find_req.simps [of _ _ "Some a"])
qed

lemma find_first:
  "List.find P xs = Some c \<Longrightarrow> \<exists>us vs. xs = us @ c # vs \<and> P c"
  by (metis find_Some_iff id_take_nth_drop)

subsection \<open>Flushing a pending request\<close>

lemma flush_pending_inv:
  assumes "qinv q (xs @ d # ys) ws gs" "rview q a = Some ra" "r_conn ra = c"
    "List.find (tagged (rview q) c tag) (xs @ d # ys) = Some d" "\<not> n_resetting (q_conn q c)"
  shows "\<exists>q' rc. np_flush fl a tag q = Some (Some rc, q') \<and> rflush NOTAG = Some rc \<and> qinv q' (xs @ ys) ws gs \<and>
    (\<forall>b. b \<noteq> d \<longrightarrow> rview q' b = rview q b) \<and> \<not> live (rview q') d \<and> q_poolnum q' \<le> q_poolnum q + 1 \<and>
    (\<forall>e. n_out (q_conn q' e) = n_out (q_conn q e) \<and> n_resetting (q_conn q' e) = n_resetting (q_conn q e) \<and>
      n_trans (q_conn q' e) = n_trans (q_conn q e))"
proof -
  let ?v = "rview q"
  obtain pl where l: "qlists q (xs @ d # ys) ws pl" "length pl \<le> 64" using assms(1) by (rule qinvD)
  have td: "tagged ?v c tag d" using assms(4) find_Some_iff by metis
  obtain rd where rd: "?v d = Some rd" "idle_req rd" "r_conn rd = c"
    using qinv_req [OF assms(1), of d] td by (auto simp: tagged_def is_req_def)
  have count: "int (length (filter (conn_is ?v e) (xs @ ys))) + int (length (filter (conn_is ?v e) ws)) + (if e = c then 1 else 0)
      \<le> n_refcount (q_conn q e)" for e
  proof -
    have "int (length (filter (conn_is ?v e) ((xs @ d # ys) @ ws))) \<le> n_refcount (q_conn q e)"
      using assms(1) unfolding qinv_def by blast
    moreover have "conn_is ?v e d \<longleftrightarrow> e = c" using rd by (auto simp: conn_is_def)
    ultimately show ?thesis by (cases "e = c") simp_all
  qed
  obtain q1 where q1: "np_srv_remove_req d q = Some q1" "qlists q1 (xs @ ys) ws pl" "rview q1 = ?v" "same_env q q1"
    using remove_req_ok [OF l(1)] by blast
  have pos: "n_refcount (q_conn q1 c) > 0" using count [of c] q1(4) by (simp add: same_env_def)
  let ?r2 = "rd\<lparr>r_tcall := None, r_rcall := None\<rparr>"
  obtain q2 where q2: "np_conn_respond d q1 = Some q2" "qlists q2 (xs @ ys) ws pl" "rview q2 = ?v(d \<mapsto> ?r2)" "same_env q1 q2"
    using conn_respond_ok [OF q1(2), of d rd] rd pos q1(3) by (auto simp: idle_req_def)
  have nin: "d \<notin> set ((xs @ ys) @ ws @ pl)" using l(1) by (auto simp: qlists_def)
  have v2: "rview q2 d = Some ?r2" using q2(3) by simp
  have pos2: "n_refcount (q_conn q2 (r_conn ?r2)) > 0" using pos q2(4) rd(3) by (simp add: same_env_def)
  have "r_refcount ?r2 = 1" using rd(2) by (simp add: idle_req_def)
  from unref_last [OF q2(2) v2 this nin pos2] obtain q3 where q3: "np_req_unref d q2 = Some q3"
      "q_conn q3 = (q_conn q2)(r_conn ?r2 := conn_drop (q_conn q2 (r_conn ?r2)))"
      "if length pl < 64 then qlists q3 (xs @ ys) ws (d # pl) \<and> rview q3 = (rview q2)(d \<mapsto> ?r2\<lparr>r_refcount := 0\<rparr>)
       else qlists q3 (xs @ ys) ws pl \<and> rview q3 = (rview q2)(d := None)" by blast
  have v3: "rview q3 b = ?v b" if "b \<noteq> d" for b using q3(3) q2(3) that by (auto split: if_splits)
  have v3': "rview q3 b = ?v b" if "b \<in> set ((xs @ ys) @ ws)" for b using v3 [of b] nin that by auto
  obtain pl3 where pl3: "qlists q3 (xs @ ys) ws pl3" "length pl3 \<le> 64" "length pl3 \<le> length pl + 1"
    using q3(3) l(2) by (fastforce split: if_splits)
  have dead: "\<not> live (rview q3) d" using q3(3) by (auto simp: live_def split: if_splits)
  have "qinv q3 (xs @ ys) ws gs"
  proof (rule qinvI [OF pl3(1,2)])
    show "groups (rview q3) ws gs" by (rule groups_cong [of ?v]) (use assms(1) v3' in \<open>auto simp: qinv_def\<close>)
    show "\<exists>r. rview q3 b = Some r \<and> idle_req r \<and> (b \<in> set (xs @ ys) \<longrightarrow> r_flushreq r = None)" if "b \<in> set ((xs @ ys) @ ws)" for b
      using v3' [OF that] assms(1) that by (auto simp: qinv_def)
    show "int (length (filter (conn_is (rview q3) e) ((xs @ ys) @ ws))) \<le> n_refcount (q_conn q3 e)" for e
      using count [of e] conn_is_cong [of "(xs @ ys) @ ws" "rview q3" ?v e, OF v3'] q3(2) q2(4) q1(4) rd(3)
      by (auto simp: same_env_def conn_drop_def split: if_splits)
  qed
  moreover obtain rc where "rflush NOTAG = Some rc" using rflush_wire by blast
  moreover obtain h where "q_req q a = Some h" "r_conn h = c" using assms(2,3) by (auto simp: rview_def req_core_def)
  ultimately show ?thesis
    using find_req_list [of q None "q_first q" "xs @ d # ys" c tag] l(1) assms(4,5) q1(1,4) q2(1,4) q3(1,2) v3 dead
      pool_length [OF l(1)] pool_length [OF pl3(1)] pl3(3)
    by (auto simp: np_flush_def qlists_def same_env_def conn_drop_def)
qed

subsection \<open>Flushing a request that is worked on\<close>

lemma unref_more:
  assumes "qlists q ps ws pl" "rview q a = Some r" "r_refcount r > 1"
  shows "\<exists>q'. np_req_unref a q = Some q' \<and> qlists q' ps ws pl \<and> rview q' = (rview q)(a \<mapsto> r\<lparr>r_refcount := r_refcount r - 1\<rparr>) \<and> same_env q q'"
proof -
  obtain g where g: "q_req q a = Some g" "r_refcount g = r_refcount r" using assms(2) by (auto simp: rview_def req_core_def)
  obtain q' where "req_upd a (\<lambda>r. r\<lparr>r_refcount := r_refcount r - 1\<rparr>) q = Some q'" "qlists q' ps ws pl"
      "rview q' = (rview q)(a \<mapsto> r\<lparr>r_refcount := r_refcount r - 1\<rparr>)" "same_env q q'"
    using req_upd_ok [OF assms(1,2), of "\<lambda>r. r\<lparr>r_refcount := r_refcount r - 1\<rparr>"] by auto
  then show ?thesis using g assms(3) by (simp add: np_req_unref_def)
qed

lemma chain_insert:
  assumes "chain r_flushreq v p (us @ d # vs)" "distinct (us @ d # vs)" "a \<notin> set (us @ d # vs)" "v d = Some rd"
  shows "chain r_flushreq (v(a \<mapsto> ra\<lparr>r_flushreq := r_flushreq rd\<rparr>, d \<mapsto> rd\<lparr>r_flushreq := Some a\<rparr>)) p (us @ d # a # vs)"
  using assms
proof (induction us arbitrary: p)
  case Nil
  define w where "w = v(a \<mapsto> ra\<lparr>r_flushreq := r_flushreq rd\<rparr>, d \<mapsto> rd\<lparr>r_flushreq := Some a\<rparr>)"
  have "chain r_flushreq w (r_flushreq rd) vs"
    by (rule chain_cong [of vs r_flushreq w v]) (use Nil in \<open>auto simp: w_def\<close>)
  moreover have "w a = Some (ra\<lparr>r_flushreq := r_flushreq rd\<rparr>)" "w d = Some (rd\<lparr>r_flushreq := Some a\<rparr>)"
    using Nil(3) by (auto simp: w_def)
  ultimately show ?case using Nil unfolding w_def [symmetric] by simp
qed auto

text \<open>The new groups: \<open>a\<close>, which was alone, comes right behind \<open>d\<close>.\<close>

lemma groups_insert:
  assumes "groups v ws gs" "[a] \<in> set gs" "us @ d # vs \<in> set gs" "d \<noteq> a" "v d = Some rd" "v a = Some ra"
    "conn_is v c d" "conn_is v c a"
  shows "groups (v(a \<mapsto> ra\<lparr>r_flushreq := r_flushreq rd\<rparr>, d \<mapsto> rd\<lparr>r_flushreq := Some a\<rparr>)) ws
    ((us @ d # a # vs) # remove1 (us @ d # vs) (remove1 [a] gs))"
proof -
  let ?g = "us @ d # vs" and ?v = "v(a \<mapsto> ra\<lparr>r_flushreq := r_flushreq rd\<rparr>, d \<mapsto> rd\<lparr>r_flushreq := Some a\<rparr>)"
  have ne: "?g \<noteq> [a]" using assms(4) by (cases us) auto
  then have g: "?g \<in> set (remove1 [a] gs)" using assms(3) by simp
  note r1 = groups_remove [OF assms(1,2)] and r2 = groups_remove [OF groups_remove(1) [OF assms(1,2)] g]
  have nin: "a \<notin> set ?g" using r2(3) by auto
  have "chain r_flushreq ?v (Some (hd ?g)) (us @ d # a # vs)"
    using chain_insert [of v "Some (hd ?g)" us d vs a rd ra] r2(2,4) nin assms(5) by (simp add: group_def)
  moreover have "\<forall>b \<in> set (us @ d # a # vs). conn_is ?v c b"
  proof -
    obtain e where e: "\<forall>b \<in> set ?g. conn_is v e b" using r2(4) by (auto simp: group_def)
    then have "e = c" using assms(5,7) by (auto simp: conn_is_def)
    then show ?thesis using e assms(5-8) by (auto simp: conn_is_def)
  qed
  moreover have "hd (us @ d # a # vs) = hd ?g" by (cases us) auto
  ultimately have "group ?v (us @ d # a # vs)" unfolding group_def by auto
  moreover have "groups ?v (filter (\<lambda>x. x \<notin> set ?g) (filter (\<lambda>x. x \<notin> set [a]) ws)) (remove1 ?g (remove1 [a] gs))"
    by (rule groups_cong [OF r2(1)]) auto
  ultimately show ?thesis using r2(2) nin r1(3) r2(3) unfolding groups_def by auto
qed

lemma flush_working_inv:
  assumes "qinv q ps ws gs" "[a] \<in> set gs" "us @ d # vs \<in> set gs" "d \<noteq> a" "conn_is (rview q) c a"
    "List.find (tagged (rview q) c tag) ps = None" "List.find (tagged (rview q) c tag) ws = Some d"
  shows "\<exists>q'. np_flush np_default_flush a tag q = Some (None, q') \<and>
    qinv q' ps ws ((us @ d # a # vs) # remove1 (us @ d # vs) (remove1 [a] gs)) \<and> q_conn q' = q_conn q \<and>
    q_poolnum q' = q_poolnum q \<and> (\<forall>b. map_option r_refcount (rview q' b) = map_option r_refcount (rview q b)) \<and>
    (\<forall>b. map_option r_tcall (rview q' b) = map_option r_tcall (rview q b)) \<and>
    (\<forall>b. map_option r_tag (rview q' b) = map_option r_tag (rview q b) \<and> map_option r_conn (rview q' b) = map_option r_conn (rview q b))"
proof -
  let ?v = "rview q"
  obtain pl where l: "qlists q ps ws pl" "length pl \<le> 64" using assms(1) by (rule qinvD)
  have gs: "groups ?v ws gs" using assms(1) by (simp add: qinv_def)
  have ws: "a \<in> set ws" "d \<in> set ws" using groups_remove(3) [OF gs assms(2)] groups_remove(3) [OF gs assms(3)] by auto
  obtain ra where ra: "?v a = Some ra" "idle_req ra" "r_conn ra = c"
    using qinv_req [OF assms(1), of a] ws(1) assms(5) by (auto simp: conn_is_def)
  have "tagged ?v c tag d" using assms(7) find_Some_iff by metis
  then obtain rd where rd: "?v d = Some rd" "idle_req rd" "r_conn rd = c"
    using qinv_req [OF assms(1), of d] ws(2) by (auto simp: tagged_def is_req_def)
  obtain q1 where q1: "np_req_ref d q = Some q1" "qlists q1 ps ws pl" "rview q1 = ?v(d \<mapsto> rd\<lparr>r_refcount := 2\<rparr>)" "same_env q q1"
    using req_upd_ok [OF l(1) rd(1), of "\<lambda>r. r\<lparr>r_refcount := r_refcount r + 1\<rparr>"] rd(2) by (auto simp: np_req_ref_def idle_req_def)
  have v1: "rview q1 d = Some (rd\<lparr>r_refcount := 2\<rparr>)" using q1(3) by simp
  obtain h1 where h1: "q_req q1 d = Some h1" "r_flushreq h1 = r_flushreq rd"
    using rview_Some [OF v1] rview_flushreq [OF v1] by auto
  have v1a: "rview q1 a = Some ra" using q1(3) ra(1) assms(4) by simp
  obtain q2 where q2: "req_upd a (\<lambda>r. r\<lparr>r_flushreq := r_flushreq rd\<rparr>) q1 = Some q2" "qlists q2 ps ws pl"
      "rview q2 = (rview q1)(a \<mapsto> ra\<lparr>r_flushreq := r_flushreq rd\<rparr>)" "same_env q1 q2"
    using req_upd_ok [OF q1(2) v1a, of "\<lambda>r. r\<lparr>r_flushreq := r_flushreq rd\<rparr>"] by auto
  have v2: "rview q2 d = Some (rd\<lparr>r_refcount := 2\<rparr>)" using q2(3) v1 assms(4) by simp
  obtain q3 where q3: "req_upd d (\<lambda>r. r\<lparr>r_flushreq := Some a\<rparr>) q2 = Some q3" "qlists q3 ps ws pl"
      "rview q3 = (rview q2)(d \<mapsto> rd\<lparr>r_refcount := 2, r_flushreq := Some a\<rparr>)" "same_env q2 q3"
    using req_upd_ok [OF q2(2) v2, of "\<lambda>r. r\<lparr>r_flushreq := Some a\<rparr>"] by auto
  have v3: "rview q3 d = Some (rd\<lparr>r_refcount := 2, r_flushreq := Some a\<rparr>)" using q3(3) by simp
  obtain q4 where q4: "np_req_unref d q3 = Some q4" "qlists q4 ps ws pl"
      "rview q4 = (rview q3)(d \<mapsto> rd\<lparr>r_flushreq := Some a, r_refcount := 1\<rparr>)" "same_env q3 q4"
    using unref_more [OF q3(2) v3] by auto
  let ?w = "?v(a \<mapsto> ra\<lparr>r_flushreq := r_flushreq rd\<rparr>, d \<mapsto> rd\<lparr>r_flushreq := Some a\<rparr>)"
  have "rd\<lparr>r_flushreq := Some a, r_refcount := 1\<rparr> = rd\<lparr>r_flushreq := Some a\<rparr>" using rd(2) by (cases rd) (simp add: idle_req_def)
  then have w: "rview q4 = ?w" using q4(3) q3(3) q2(3) q1(3) assms(4) by (auto simp: fun_eq_iff)
  have env: "q_conn q4 = q_conn q" "q_poolnum q4 = q_poolnum q" using q1(4) q2(4) q3(4) q4(4) by (simp_all add: same_env_def)
  have kept: "conn_is ?w e b \<longleftrightarrow> conn_is ?v e b" for e b using ra(1) rd(1) by (auto simp: conn_is_def)
  have "qinv q4 ps ws ((us @ d # a # vs) # remove1 (us @ d # vs) (remove1 [a] gs))"
  proof (rule qinvI [OF q4(2) l(2)])
    show "groups (rview q4) ws ((us @ d # a # vs) # remove1 (us @ d # vs) (remove1 [a] gs))"
      unfolding w using rd ra by (intro groups_insert [OF gs assms(2-4), of rd ra c]) (auto simp: conn_is_def)
    have "a \<notin> set ps" "d \<notin> set ps" using l(1) ws by (auto simp: qlists_def)
    then show "\<exists>r. rview q4 b = Some r \<and> idle_req r \<and> (b \<in> set ps \<longrightarrow> r_flushreq r = None)" if "b \<in> set (ps @ ws)" for b
      using that assms(1) ra rd by (auto simp: w qinv_def idle_req_def)
    show "int (length (filter (conn_is (rview q4) e) (ps @ ws))) \<le> n_refcount (q_conn q4 e)" for e
      using assms(1) by (simp add: w env kept qinv_def cong: filter_cong)
  qed
  moreover obtain h where "q_req q a = Some h" "r_conn h = c" using ra(1,3) by (auto simp: rview_def req_core_def)
  then have "np_flush np_default_flush a tag q = Some (None, q4)"
    using find_req_list [of q None "q_first q" ps c tag] find_req_list [of q None "q_work q" ws c tag] l(1) assms(6,7)
      q1(1) h1 q2(1) q3(1) q4(1)
    by (simp add: np_flush_def np_default_flush_def qlists_def)
  ultimately show ?thesis using env ra(1) rd(1) by (intro exI [of _ q4]) (auto simp: w)
qed

text \<open>A tag nobody uses.\<close>

lemma flush_unknown:
  assumes "qinv q ps ws gs" "conn_is (rview q) c a"
    "List.find (tagged (rview q) c tag) ps = None" "List.find (tagged (rview q) c tag) ws = None"
  shows "\<exists>rc. np_flush fl a tag q = Some (Some rc, q) \<and> rflush NOTAG = Some rc"
proof -
  obtain pl where l: "qlists q ps ws pl" using assms(1) by (rule qinvD)
  obtain h where "q_req q a = Some h" "r_conn h = c"
    using assms(2) by (auto simp: conn_is_def rview_def req_core_def split: option.splits)
  moreover obtain rc where "rflush NOTAG = Some rc" using rflush_wire by blast
  ultimately show ?thesis
    using find_req_list [of q None "q_first q" ps c tag] find_req_list [of q None "q_work q" ws c tag] l assms(3,4)
    by (simp add: np_flush_def qlists_def)
qed

end
