(* ===== verification/Reqs_Steps.thy ===== *)
theory Reqs_Steps
  imports Reqs_Flush
begin

text \<open>
  The server as a state machine: messages arrive, workers take requests and run their handlers,
  the file server answers the requests it kept. A configuration is the state of the request lists, the
  requests a worker has taken and not finished (\<open>B\<close>), and the ones the file server keeps to
  answer later (\<open>H\<close>). The client uses a tag once at a time and does not flush a flush request.
\<close>

definition is_flush :: "reqview \<Rightarrow> addr \<Rightarrow> bool" where
  "is_flush v a \<longleftrightarrow>
     (case v a of None \<Rightarrow> False
      | Some r \<Rightarrow> (case r_tcall r of None \<Rightarrow> False | Some tc \<Rightarrow> fc_type tc = Tflush))"

definition old_tag :: "reqview \<Rightarrow> addr \<Rightarrow> u16" where
  "old_tag v a = fc_oldtag (the (r_tcall (the (v a))))"

definition tag_of :: "reqview \<Rightarrow> addr \<Rightarrow> u16" where
  "tag_of v a = r_tag (the (v a))"

definition client_new :: "reqview \<Rightarrow> nat \<Rightarrow> Npfcall \<Rightarrow> bool" where
  "client_new v c tc \<longleftrightarrow>
     (fc_type tc = Tflush \<longrightarrow> fc_oldtag tc \<noteq> fc_tag tc) \<and>
     (\<forall>b. live v b \<and> conn_is v c b \<longrightarrow> tag_of v b \<noteq> fc_tag tc \<and>
        (fc_type tc = Tflush \<and> is_flush v b \<longrightarrow> tag_of v b \<noteq> fc_oldtag tc \<and> old_tag v b \<noteq> fc_tag tc))"

type_synonym config = "srvreqs \<times> addr set \<times> addr set"

text \<open>The steps of the workers and of the file server.\<close>

inductive work :: "config \<Rightarrow> config \<Rightarrow> bool" where
  Take: "take_req q = Some (Some a, q') \<Longrightarrow> work (q, B, H) (q', insert a B, H)"
| Flush: "a \<in> B \<Longrightarrow> is_flush (rview q) a \<Longrightarrow>
    np_flush np_default_flush a (old_tag (rview q) a) q = Some (rc, q1) \<Longrightarrow> finish_req a rc q1 = Some q2 \<Longrightarrow>
    work (q, B, H) (q2, B - {a}, H)"
| Done: "a \<in> B \<Longrightarrow> \<not> is_flush (rview q) a \<Longrightarrow> 7 \<le> length (fc_pkt m) \<Longrightarrow> finish_req a (Some m) q = Some q' \<Longrightarrow>
    work (q, B, H) (q', B - {a}, H)"
| Keep: "a \<in> B \<Longrightarrow> \<not> is_flush (rview q) a \<Longrightarrow> finish_req a None q = Some q' \<Longrightarrow>
    work (q, B, H) (q', B - {a}, insert a H)"
| Reply: "a \<in> H \<Longrightarrow> 7 \<le> length (fc_pkt m) \<Longrightarrow> np_respond a (Some m) q = Some q' \<Longrightarrow>
    work (q, B, H) (q', B, H - {a})"

inductive_cases workE: "work (q, B, H) c'"

text \<open>A message arrives, where a client has at most \<open>n\<close> requests outstanding.\<close>

inductive step :: "nat \<Rightarrow> config \<Rightarrow> config \<Rightarrow> bool" for n where
  Recv: "0 < n_refcount (q_conn q c) \<Longrightarrow> \<not> n_resetting (q_conn q c) \<Longrightarrow> card {b. live (rview q) b} < n \<Longrightarrow>
    client_new (rview q) c tc \<Longrightarrow> receive c tc q = Some q' \<Longrightarrow> step n (q, B, H) (q', B, H)"
| Work: "work c c' \<Longrightarrow> step n c c'"

inductive_cases stepE: "step n (q, B, H) c'"

subsection \<open>The invariant of a configuration\<close>

definition client_ok :: "reqview \<Rightarrow> addr set \<Rightarrow> bool" where
  "client_ok v X \<longleftrightarrow>
     (\<forall>a \<in> X. \<forall>b \<in> X. \<forall>c. conn_is v c a \<and> conn_is v c b \<longrightarrow>
        (tag_of v a = tag_of v b \<longrightarrow> a = b) \<and> (is_flush v a \<and> is_flush v b \<longrightarrow> old_tag v a \<noteq> tag_of v b))"

text \<open>The head of a group is with a worker or with the file server, the others wait for it.\<close>

definition held_groups :: "reqview \<Rightarrow> addr set \<Rightarrow> addr set \<Rightarrow> addr list list \<Rightarrow> bool" where
  "held_groups v B H gs \<longleftrightarrow>
     (\<forall>g \<in> set gs. hd g \<in> B \<union> H \<and> (is_flush v (hd g) \<longrightarrow> tl g = []) \<and> (\<forall>b \<in> set (tl g). is_flush v b \<and> b \<notin> B \<union> H))"

definition cinv :: "reqview \<Rightarrow> addr set \<Rightarrow> addr set \<Rightarrow> addr list \<Rightarrow> addr list \<Rightarrow> addr list list \<Rightarrow> bool" where
  "cinv v B H ps ws gs \<longleftrightarrow>
     (\<forall>b. live v b \<longleftrightarrow> b \<in> set (ps @ ws)) \<and> B \<union> H \<subseteq> set ws \<and> B \<inter> H = {} \<and> (\<forall>a \<in> H. \<not> is_flush v a) \<and>
     held_groups v B H gs \<and> client_ok v (set (ps @ ws))"

text \<open>The structures there are: those in use and those in the pool.\<close>

definition load :: "srvreqs \<Rightarrow> addr list \<Rightarrow> addr list \<Rightarrow> int" where
  "load q ps ws = q_poolnum q + int (length (ps @ ws))"

definition calm :: "srvreqs \<Rightarrow> bool" where
  "calm q \<longleftrightarrow> (\<forall>c. \<not> n_resetting (q_conn q c))"

lemma deliver_resetting [simp]: "n_resetting (deliver pkt n) = n_resetting n"
  by (auto simp: deliver_def split: option.splits nat.splits)

lemma fold_deliver_resetting [simp]: "n_resetting (fold deliver ps n) = n_resetting n"
  by (induction ps arbitrary: n) simp_all

lemma taggedD: "tagged v c t d \<Longrightarrow> conn_is v c d \<and> tag_of v d = t"
  by (auto simp: tagged_def is_req_def conn_is_def tag_of_def split: option.splits)

lemma view_cong:
  assumes "v' a = v a"
  shows "is_flush v' a = is_flush v a" "old_tag v' a = old_tag v a" "tag_of v' a = tag_of v a" "conn_is v' c a = conn_is v c a"
    "live v' a = live v a"
  using assms by (simp_all add: is_flush_def old_tag_def tag_of_def conn_is_def live_def)

lemma client_ok_cong:
  assumes "client_ok v X" "Y \<subseteq> X" "\<And>a. a \<in> Y \<Longrightarrow> v' a = v a"
  shows "client_ok v' Y"
  unfolding client_ok_def
proof (intro ballI allI impI, elim conjE)
  fix a b c assume ab: "a \<in> Y" "b \<in> Y" "conn_is v' c a" "conn_is v' c b"
  note a = view_cong [of v' a v, OF assms(3) [OF ab(1)]] and b = view_cong [of v' b v, OF assms(3) [OF ab(2)]]
  have "conn_is v c a" "conn_is v c b" "a \<in> X" "b \<in> X" using ab a(4) b(4) assms(2) by auto
  then show "(tag_of v' a = tag_of v' b \<longrightarrow> a = b) \<and> (is_flush v' a \<and> is_flush v' b \<longrightarrow> old_tag v' a \<noteq> tag_of v' b)"
    using assms(1) a b unfolding client_ok_def by metis
qed

lemma client_ok_insert:
  assumes "client_ok v X" "is_flush v a \<Longrightarrow> old_tag v a \<noteq> tag_of v a"
    "\<And>b c. b \<in> X \<Longrightarrow> conn_is v c a \<Longrightarrow> conn_is v c b \<Longrightarrow>
      tag_of v a \<noteq> tag_of v b \<and> (is_flush v a \<and> is_flush v b \<longrightarrow> old_tag v a \<noteq> tag_of v b \<and> old_tag v b \<noteq> tag_of v a)"
  shows "client_ok v (insert a X)"
  unfolding client_ok_def
proof (intro ballI allI impI)
  fix x y c assume xy: "x \<in> insert a X" "y \<in> insert a X" and c: "conn_is v c x \<and> conn_is v c y"
  consider "x = a" "y = a" | "x = a" "y \<in> X" | "x \<in> X" "y = a" | "x \<in> X" "y \<in> X" using xy by blast
  then show "(tag_of v x = tag_of v y \<longrightarrow> x = y) \<and> (is_flush v x \<and> is_flush v y \<longrightarrow> old_tag v x \<noteq> tag_of v y)"
  proof cases
    case 2
    then show ?thesis using assms(3) [of y c] c by metis
  next
    case 3
    then show ?thesis using assms(3) [of x c] c by metis
  next
    case 4
    then show ?thesis using assms(1) c unfolding client_ok_def by blast
  qed (use assms(2) in simp)
qed

lemma held_groups_cong:
  assumes "held_groups v B H gs" "\<And>g a. g \<in> set gs \<Longrightarrow> a \<in> set g \<Longrightarrow> v' a = v a" "\<And>g. g \<in> set gs \<Longrightarrow> g \<noteq> []"
  shows "held_groups v' B H gs"
  unfolding held_groups_def
proof (intro ballI)
  fix g assume g: "g \<in> set gs"
  have hd: "is_flush v' (hd g) = is_flush v (hd g)"
    by (rule view_cong(1)) (use assms(2) [OF g] assms(3) [OF g] in simp)
  have tl: "is_flush v' b = is_flush v b" if "b \<in> set (tl g)" for b
  proof -
    have "v' b = v b" using assms(2) [OF g, of b] that list.set_sel(2) [OF assms(3) [OF g]] by blast
    then show ?thesis by (rule view_cong(1))
  qed
  show "hd g \<in> B \<union> H \<and> (is_flush v' (hd g) \<longrightarrow> tl g = []) \<and> (\<forall>b \<in> set (tl g). is_flush v' b \<and> b \<notin> B \<union> H)"
    using assms(1) g hd tl unfolding held_groups_def by blast
qed

lemma groups_nonempty: "groups v ws gs \<Longrightarrow> g \<in> set gs \<Longrightarrow> g \<noteq> []"
  by (auto simp: groups_def group_def)

lemma groups_in: "groups v ws gs \<Longrightarrow> g \<in> set gs \<Longrightarrow> a \<in> set g \<Longrightarrow> a \<in> set ws"
  by (auto simp: groups_def)

text \<open>A request a worker or the file server has is the head of its group.\<close>

lemma head_group:
  assumes "groups v ws gs" "held_groups v B H gs" "a \<in> B \<union> H" "a \<in> set ws"
  obtains fs where "a # fs \<in> set gs"
proof -
  obtain g where g: "g \<in> set gs" "a \<in> set g" using assms(1,4) by (auto simp: groups_def)
  have "a \<notin> set (tl g)" using g(1) assms(2,3) unfolding held_groups_def by blast
  then have "a = hd g" using g(2) by (cases g) auto
  then show thesis using that [of "tl g"] g groups_nonempty [OF assms(1) g(1)] by simp
qed

subsection \<open>Every step keeps the invariant\<close>

lemma new_req_view [simp]:
  "v a = Some (new_req c tc) \<Longrightarrow> live v a" "v a = Some (new_req c tc) \<Longrightarrow> tag_of v a = fc_tag tc"
  "v a = Some (new_req c tc) \<Longrightarrow> conn_is v d a \<longleftrightarrow> d = c" "v a = Some (new_req c tc) \<Longrightarrow> old_tag v a = fc_oldtag tc"
  "v a = Some (new_req c tc) \<Longrightarrow> is_flush v a \<longleftrightarrow> fc_type tc = Tflush"
  by (auto simp: live_def tag_of_def conn_is_def old_tag_def is_flush_def new_req_def)

lemma recv_step:
  assumes "qinv q ps ws gs" "cinv (rview q) B H ps ws gs" "0 < n_refcount (q_conn q c)" "\<not> n_resetting (q_conn q c)"
    "client_new (rview q) c tc" "receive c tc q = Some q'"
  shows "\<exists>a. qinv q' (ps @ [a]) ws gs \<and> cinv (rview q') B H (ps @ [a]) ws gs \<and> q_poolnum q' = max 0 (q_poolnum q - 1) \<and>
    (calm q \<longrightarrow> calm q')"
proof -
  obtain a where a: "qinv q' (ps @ [a]) ws gs" "rview q' = (rview q)(a \<mapsto> new_req c tc)" "a \<notin> set (ps @ ws)"
      "q_poolnum q' = max 0 (q_poolnum q - 1)" "calm q \<longrightarrow> calm q'"
    using receive_inv [OF assms(1,3,4), of tc] assms(6) by (auto simp: calm_def)
  have va: "rview q' a = Some (new_req c tc)" and v: "b \<noteq> a \<Longrightarrow> rview q' b = rview q b" for b using a(2) by auto
  note same = view_cong [of "rview q'" b "rview q" for b, OF v]
  have gs: "groups (rview q) ws gs" using assms(1) by (simp add: qinv_def)
  have i: "\<forall>b. live (rview q) b \<longleftrightarrow> b \<in> set (ps @ ws)" "B \<union> H \<subseteq> set ws" "B \<inter> H = {}" "\<forall>a \<in> H. \<not> is_flush (rview q) a"
    "held_groups (rview q) B H gs" "client_ok (rview q) (set (ps @ ws))" using assms(2) unfolding cinv_def by blast+
  have lv: "live (rview q') b \<longleftrightarrow> b \<in> set ((ps @ [a]) @ ws)" for b
    using i(1) new_req_view(1) [of "rview q'" a, OF va] same(5) [of b] by (cases "b = a") auto
  have "held_groups (rview q') B H gs"
  proof (rule held_groups_cong [OF i(5)])
    show "rview q' b = rview q b" if "g \<in> set gs" "b \<in> set g" for g b
      using groups_in [OF gs that] a(3) by (intro v) auto
  qed (rule groups_nonempty [OF gs])
  moreover have "\<forall>b \<in> H. \<not> is_flush (rview q') b"
  proof
    fix b assume b: "b \<in> H"
    then have "b \<noteq> a" using i(2) a(3) by auto
    then show "\<not> is_flush (rview q') b" using same(1) b i(4) by blast
  qed
  moreover have "client_ok (rview q') (set ((ps @ [a]) @ ws))"
  proof -
    have ok: "client_ok (rview q') (set (ps @ ws))"
      by (rule client_ok_cong [OF i(6)]) (use a(3) in \<open>auto intro!: v\<close>)
    have other: "(tag_of (rview q') b \<noteq> fc_tag tc) \<and> (fc_type tc = Tflush \<and> is_flush (rview q') b \<longrightarrow>
        tag_of (rview q') b \<noteq> fc_oldtag tc \<and> old_tag (rview q') b \<noteq> fc_tag tc)"
      if "b \<in> set (ps @ ws)" "conn_is (rview q') c b" for b
    proof -
      have "b \<noteq> a" using that(1) a(3) by blast
      note s = same [OF this]
      show ?thesis using that assms(5) i(1) unfolding s client_new_def by blast
    qed
    have "client_ok (rview q') (insert a (set (ps @ ws)))"
    proof (rule client_ok_insert [OF ok])
      note n = new_req_view(2-5) [of "rview q'" a, OF va]
      show "old_tag (rview q') a \<noteq> tag_of (rview q') a" if "is_flush (rview q') a"
        using that assms(5) n unfolding client_new_def by metis
      show "tag_of (rview q') a \<noteq> tag_of (rview q') b \<and> (is_flush (rview q') a \<and> is_flush (rview q') b \<longrightarrow>
          old_tag (rview q') a \<noteq> tag_of (rview q') b \<and> old_tag (rview q') b \<noteq> tag_of (rview q') a)"
        if "b \<in> set (ps @ ws)" "conn_is (rview q') d a" "conn_is (rview q') d b" for b d
        using that other [of b] n by metis
    qed
    then show ?thesis by simp
  qed
  ultimately show ?thesis using a(1,4,5) lv i(2,3) unfolding cinv_def by blast
qed

lemma take_step:
  assumes "qinv q ps ws gs" "cinv (rview q) B H ps ws gs" "take_req q = Some (Some a, q')"
  shows "\<exists>ps'. ps = a # ps' \<and> qinv q' ps' (a # ws) ([a] # gs) \<and> cinv (rview q') (insert a B) H ps' (a # ws) ([a] # gs) \<and>
    load q' ps' (a # ws) = load q ps ws \<and> (calm q \<longrightarrow> calm q')"
proof -
  obtain pl where l: "qlists q ps ws pl" using assms(1) by (rule qinvD)
  obtain b ps' where ps: "ps = b # ps'"
    using assms(3) l by (cases ps) (auto simp: take_req_def qlists_def)
  have t: "take_req q = Some (Some b, q')" "b = a" "qinv q' ps' (a # ws) ([a] # gs)" "q_poolnum q' = q_poolnum q"
      "q_conn q' = q_conn q" and v: "rview q' = rview q"
    using take_inv [of q b ps' ws gs] assms(1,3) ps by auto
  have nin: "a \<notin> set ws" using l ps t(2) by (auto simp: qlists_def)
  have gs: "groups (rview q) ws gs" using assms(1) by (simp add: qinv_def)
  have i: "\<forall>b. live (rview q) b \<longleftrightarrow> b \<in> set (ps @ ws)" "B \<union> H \<subseteq> set ws" "B \<inter> H = {}" "\<forall>a \<in> H. \<not> is_flush (rview q) a"
    "held_groups (rview q) B H gs" "client_ok (rview q) (set (ps @ ws))" using assms(2) unfolding cinv_def by blast+
  have "held_groups (rview q) (insert a B) H ([a] # gs)"
    unfolding held_groups_def
  proof (intro ballI)
    fix g assume "g \<in> set ([a] # gs)"
    then consider "g = [a]" | "g \<in> set gs" by auto
    then show "hd g \<in> insert a B \<union> H \<and> (is_flush (rview q) (hd g) \<longrightarrow> tl g = []) \<and>
        (\<forall>b \<in> set (tl g). is_flush (rview q) b \<and> b \<notin> insert a B \<union> H)"
    proof cases
      case 2
      have "a \<notin> set (tl g)" using nin groups_in [OF gs 2] list.set_sel(2) [OF groups_nonempty [OF gs 2]] by blast
      then show ?thesis using i(5) 2 unfolding held_groups_def by blast
    qed simp
  qed
  moreover have "set (ps @ ws) = set (ps' @ a # ws)" using ps t(2) by auto
  ultimately have "cinv (rview q) (insert a B) H ps' (a # ws) ([a] # gs)"
    using i nin unfolding cinv_def by auto
  then show ?thesis using ps t v by (auto simp: load_def calm_def)
qed

text \<open>A response takes a whole group out of the lists.\<close>

lemma respond_cinv:
  assumes "qinv q ps ws gs" "cinv v B H ps ws gs" "groups v ws gs" "a # fs \<in> set gs"
    "\<forall>b. b \<notin> set (a # fs) \<longrightarrow> v' b = v b" "\<forall>b. b \<in> set (a # fs) \<longrightarrow> \<not> live v' b"
  shows "cinv v' (B - {a}) (H - {a}) ps (filter (\<lambda>x. x \<notin> set (a # fs)) ws) (remove1 (a # fs) gs)"
proof -
  let ?ws = "filter (\<lambda>x. x \<notin> set (a # fs)) ws"
  note g = groups_remove [OF assms(3,4)]
  obtain pl where l: "qlists q ps ws pl" using assms(1) by (rule qinvD)
  have d: "set ps \<inter> set ws = {}" using l by (auto simp: qlists_def)
  have fs: "b \<notin> B \<union> H" if "b \<in> set fs" for b
    using assms(2,4) that by (fastforce simp: cinv_def held_groups_def)
  have lv: "live v' b \<longleftrightarrow> b \<in> set (ps @ ?ws)" for b
    using assms(2,5,6) view_cong(5) [of v' b v] g(3) d by (cases "b \<in> set (a # fs)") (auto simp: cinv_def)
  have rest: "v' b = v b" if "b \<in> set (ps @ ?ws)" for b
  proof -
    have "b \<notin> set (a # fs)" using that g(3) d by auto
    then show ?thesis using assms(5) by blast
  qed
  have in_ws: "b \<in> set ?ws" if "h \<in> set (remove1 (a # fs) gs)" "b \<in> set h" for h b
    using groups_in [OF g(1) that] .
  have "held_groups v (B - {a}) (H - {a}) (remove1 (a # fs) gs)"
    unfolding held_groups_def
  proof (intro ballI)
    fix h assume h: "h \<in> set (remove1 (a # fs) gs)"
    then have "h \<in> set gs" using notin_set_remove1 by metis
    moreover have "hd h \<noteq> a" using in_ws [OF h] groups_nonempty [OF g(1) h] hd_in_set by fastforce
    ultimately show "hd h \<in> B - {a} \<union> (H - {a}) \<and> (is_flush v (hd h) \<longrightarrow> tl h = []) \<and>
        (\<forall>b \<in> set (tl h). is_flush v b \<and> b \<notin> B - {a} \<union> (H - {a}))"
      using assms(2) unfolding cinv_def held_groups_def by blast
  qed
  then have "held_groups v' (B - {a}) (H - {a}) (remove1 (a # fs) gs)"
    by (rule held_groups_cong) (use rest in_ws groups_nonempty [OF g(1)] in auto)
  moreover have "client_ok v' (set (ps @ ?ws))"
    by (rule client_ok_cong [of v "set (ps @ ws)"]) (use assms(2) rest in \<open>auto simp: cinv_def\<close>)
  moreover have "\<not> is_flush v' b" if "b \<in> H - {a}" for b
  proof -
    have "b \<in> set ?ws" using that assms(2) fs by (auto simp: cinv_def)
    then have "v' b = v b" by (intro rest) simp
    then show ?thesis using view_cong(1) [of v' b v] that assms(2) by (auto simp: cinv_def)
  qed
  ultimately show ?thesis using assms(2) lv fs by (auto simp: cinv_def)
qed

text \<open>A response the C code defines had room in the pool for the flush requests it answers.\<close>

lemma set_tag_defined: "7 \<le> length (fc_pkt m) \<Longrightarrow> \<exists>m'. np_set_tag m t = Some m'"
  by (simp add: np_set_tag_def)

lemma group_length:
  assumes "qinv q ps ws gs" "a # fs \<in> set gs"
  shows "length ws = length (filter (\<lambda>x. x \<notin> set (a # fs)) ws) + length fs + 1"
proof -
  have "groups (rview q) ws gs" "distinct ws" using assms(1) by (auto simp: qinv_def qlists_def)
  note g = groups_remove [OF this(1) assms(2)] this(2)
  show ?thesis using filter_split [OF g(5) g(2,3), of "\<lambda>_. True"] by simp
qed

lemma held_group:
  assumes "qinv q ps ws gs" "cinv (rview q) B H ps ws gs" "a \<in> B \<union> H"
  obtains fs c where "a # fs \<in> set gs" "conn_is (rview q) c a"
proof -
  have gs: "groups (rview q) ws gs" using assms(1) by (simp add: qinv_def)
  have "held_groups (rview q) B H gs" "a \<in> set ws" using assms(2,3) by (auto simp: cinv_def)
  then obtain fs where g: "a # fs \<in> set gs" using head_group [OF gs _ assms(3)] by blast
  with groups_remove(4) [OF gs g] that show thesis by (auto simp: group_def)
qed

lemma respond_step:
  assumes "qinv q ps ws gs" "cinv (rview q) B H ps ws gs" "a \<in> B \<union> H" "7 \<le> length (fc_pkt m)"
    "np_respond a (Some m) q = Some q'"
  shows "\<exists>ws' gs'. qinv q' ps ws' gs' \<and> cinv (rview q') (B - {a}) (H - {a}) ps ws' gs' \<and> load q' ps ws' \<le> load q ps ws \<and>
    (calm q \<longrightarrow> calm q')"
proof -
  have gs: "groups (rview q) ws gs" using assms(1) by (simp add: qinv_def)
  obtain fs c where g: "a # fs \<in> set gs" and c: "conn_is (rview q) c a" by (rule held_group [OF assms(1-3)])
  obtain m' where m: "np_set_tag m (r_tag (the (rview q a))) = Some m'" using set_tag_defined [OF assms(4)] by blast
  have "q_poolnum q + int (length fs) \<le> 64"
    using respond_full [OF assms(1) g _ m c] assms(5) by (cases "64 < q_poolnum q + int (length fs)") auto
  then obtain w where "np_respond a (Some m) q = Some w"
      "qinv w ps (filter (\<lambda>x. x \<notin> set (a # fs)) ws) (remove1 (a # fs) gs)"
      "\<forall>b. b \<notin> set (a # fs) \<longrightarrow> rview w b = rview q b" "\<forall>b. b \<in> set (a # fs) \<longrightarrow> \<not> live (rview w) b"
      "q_poolnum w \<le> q_poolnum q + int (length fs) + 1"
      "q_conn w = (q_conn q)(c := (fold deliver (take (unat (fc_size m')) (fc_pkt m') # flush_packets (rview q) fs) (q_conn q c))
        \<lparr>n_refcount := n_refcount (q_conn q c) - int (length fs) - 1\<rparr>)"
    using respond_inv [OF assms(1) g _ m c] by blast
  moreover from this(6) have "calm q \<longrightarrow> calm w" by (simp add: calm_def)
  moreover from calculation(5) have "load w ps (filter (\<lambda>x. x \<notin> set (a # fs)) ws) \<le> load q ps ws"
    using group_length [OF assms(1) g] by (simp add: load_def)
  moreover have "q' = w" using calculation(1) assms(5) by simp
  ultimately show ?thesis using respond_cinv [OF assms(1,2) gs g] by blast
qed

lemma respond_enabled:
  assumes "qinv q ps ws gs" "cinv (rview q) B H ps ws gs" "a \<in> B \<union> H" "7 \<le> length (fc_pkt m)" "load q ps ws \<le> 64"
  shows "\<exists>q'. np_respond a (Some m) q = Some q'"
proof -
  obtain fs c where g: "a # fs \<in> set gs" and c: "conn_is (rview q) c a" by (rule held_group [OF assms(1-3)])
  obtain m' where m: "np_set_tag m (r_tag (the (rview q a))) = Some m'" using set_tag_defined [OF assms(4)] by blast
  have "q_poolnum q + int (length fs) \<le> 64" using assms(5) group_length [OF assms(1) g] by (simp add: load_def)
  then show ?thesis using respond_inv [OF assms(1) g _ m c] by blast
qed

lemma drop_cinv:
  assumes "qinv q (xs @ d # ys) ws gs" "cinv v B H (xs @ d # ys) ws gs" "groups v ws gs"
    "\<forall>b. b \<noteq> d \<longrightarrow> v' b = v b" "\<not> live v' d"
  shows "cinv v' B H (xs @ ys) ws gs"
proof -
  obtain pl where "qlists q (xs @ d # ys) ws pl" using assms(1) by (rule qinvD)
  then have d: "d \<notin> set (xs @ ys)" "d \<notin> set ws" by (auto simp: qlists_def)
  have i: "\<forall>b. live v b \<longleftrightarrow> b \<in> set ((xs @ d # ys) @ ws)" "B \<union> H \<subseteq> set ws" "B \<inter> H = {}" "\<forall>a \<in> H. \<not> is_flush v a"
    "held_groups v B H gs" "client_ok v (set ((xs @ d # ys) @ ws))" using assms(2) unfolding cinv_def by blast+
  have v: "v' b = v b" if "b \<in> set ((xs @ ys) @ ws)" for b using assms(4) d that by auto
  have lv: "live v' b \<longleftrightarrow> b \<in> set ((xs @ ys) @ ws)" for b
    using i(1) assms(4,5) view_cong(5) [of v' b v] d by (cases "b = d") auto
  have "held_groups v' B H gs"
  proof (rule held_groups_cong [OF i(5)])
    show "v' b = v b" if "g \<in> set gs" "b \<in> set g" for g b using groups_in [OF assms(3) that] by (intro v) simp
  qed (rule groups_nonempty [OF assms(3)])
  moreover have "client_ok v' (set ((xs @ ys) @ ws))" by (rule client_ok_cong [OF i(6)]) (use v in auto)
  moreover have "\<not> is_flush v' b" if "b \<in> H" for b
  proof -
    have "v' b = v b" using that i(2) by (intro v) auto
    then show ?thesis using view_cong(1) [of v' b v] i(4) that by auto
  qed
  ultimately show ?thesis using lv i(2,3) unfolding cinv_def by auto
qed

text \<open>Changes of the links only.\<close>

lemma live_refcount: "map_option r_refcount (v' b) = map_option r_refcount (v b) \<Longrightarrow> live v' b = live v b"
  by (cases "v b"; cases "v' b") (auto simp: live_def)

lemma relink_view:
  assumes "map_option r_refcount (v' b) = map_option r_refcount (v b)" "map_option r_tcall (v' b) = map_option r_tcall (v b)"
    "map_option r_tag (v' b) = map_option r_tag (v b)" "map_option r_conn (v' b) = map_option r_conn (v b)" "v b \<noteq> None"
  shows "is_flush v' b = is_flush v b" "old_tag v' b = old_tag v b" "tag_of v' b = tag_of v b" "conn_is v' c b = conn_is v c b"
    "live v' b = live v b"
  using assms by (auto simp: is_flush_def old_tag_def tag_of_def conn_is_def live_def)

text \<open>
  A flush that waits: the flushed request \<open>d\<close> is no flush, so it is the head of its group, and the flush comes
  right behind it.
\<close>

lemma wait_cinv:
  assumes "cinv v B H ps ws gs" "groups v ws gs" "groups v' ws ((d # a # vs) # remove1 (d # vs) (remove1 [a] gs))"
    "d # vs \<in> set gs" "[a] \<in> set gs" "a \<in> B" "a \<noteq> d" "is_flush v a" "\<not> is_flush v d"
    "\<And>b. b \<in> set (ps @ ws) \<Longrightarrow> is_flush v' b = is_flush v b \<and> old_tag v' b = old_tag v b \<and> tag_of v' b = tag_of v b"
    "\<And>b c. b \<in> set (ps @ ws) \<Longrightarrow> conn_is v' c b = conn_is v c b" "\<And>b. live v' b = live v b"
  shows "cinv v' (B - {a}) H ps ws ((d # a # vs) # remove1 (d # vs) (remove1 [a] gs))"
proof -
  let ?gs = "(d # a # vs) # remove1 (d # vs) (remove1 [a] gs)"
  have i: "\<forall>b. live v b \<longleftrightarrow> b \<in> set (ps @ ws)" "B \<union> H \<subseteq> set ws" "B \<inter> H = {}" "\<forall>a \<in> H. \<not> is_flush v a"
    "held_groups v B H gs" "client_ok v (set (ps @ ws))" using assms(1) unfolding cinv_def by blast+
  have fl: "is_flush v' b = is_flush v b" if "b \<in> set ws" for b using assms(10) [of b] that by simp
  have gws: "b \<in> set ws" if "g \<in> set gs" "b \<in> set g" for g b by (rule groups_in [OF assms(2) that])
  have d: "d \<in> B \<union> H" "\<forall>b \<in> set vs. is_flush v b \<and> b \<notin> B \<union> H" using i(5) assms(4) by (auto simp: held_groups_def)
  have "held_groups v' (B - {a}) H ?gs"
    unfolding held_groups_def
  proof (intro ballI)
    fix g assume "g \<in> set ?gs"
    then consider "g = d # a # vs" | "g \<in> set gs" "g \<in> set (remove1 (d # vs) (remove1 [a] gs))"
      using notin_set_remove1 by (metis set_ConsD)
    then show "hd g \<in> B - {a} \<union> H \<and> (is_flush v' (hd g) \<longrightarrow> tl g = []) \<and> (\<forall>b \<in> set (tl g). is_flush v' b \<and> b \<notin> B - {a} \<union> H)"
    proof cases
      case 1
      have "a \<notin> H" using assms(6) i(3) by blast
      moreover have "is_flush v' b = is_flush v b" if "b \<in> set (d # a # vs)" for b
        using fl [of b] gws [OF assms(4)] gws [OF assms(5)] that by auto
      ultimately show ?thesis using 1 d assms(7-9) by auto
    next
      case 2
      have "set (d # a # vs) \<inter> set g = {}" using assms(3) 2(2) unfolding groups_def by fastforce
      then have "hd g \<noteq> a" using groups_nonempty [OF assms(2) 2(1)] hd_in_set [of g] by auto
      moreover have "is_flush v' b = is_flush v b" if "b \<in> set g" for b using fl [OF gws [OF 2(1) that]] .
      moreover have "hd g \<in> set g" "set (tl g) \<subseteq> set g" using groups_nonempty [OF assms(2) 2(1)] by (auto dest: list.set_sel(2))
      moreover have "hd g \<in> B \<union> H" "is_flush v (hd g) \<longrightarrow> tl g = []" "\<forall>b \<in> set (tl g). is_flush v b \<and> b \<notin> B \<union> H"
        using i(5) 2(1) unfolding held_groups_def by blast+
      ultimately show ?thesis by blast
    qed
  qed
  moreover have "client_ok v' (set (ps @ ws))" using i(6) assms(10,11) unfolding client_ok_def by metis
  moreover have "\<forall>b \<in> H. \<not> is_flush v' b" using i(2,4) fl by blast
  ultimately show ?thesis using i(1-3) assms(12) unfolding cinv_def by blast
qed

lemma flush_cases:
  assumes "qinv q ps ws gs" "cinv (rview q) B H ps ws gs" "a \<in> B" "is_flush (rview q) a" "calm q"
  shows "(\<exists>q1 m ps'. np_flush np_default_flush a (old_tag (rview q) a) q = Some (Some m, q1) \<and> 7 \<le> length (fc_pkt m) \<and>
      qinv q1 ps' ws gs \<and> cinv (rview q1) B H ps' ws gs \<and> load q1 ps' ws \<le> load q ps ws \<and> length ps' \<le> length ps \<and> calm q1) \<or>
    (\<exists>q1 gs'. np_flush np_default_flush a (old_tag (rview q) a) q = Some (None, q1) \<and>
      qinv q1 ps ws gs' \<and> cinv (rview q1) (B - {a}) H ps ws gs' \<and> load q1 ps ws = load q ps ws \<and> calm q1)" (is "?answer \<or> ?wait")
proof -
  let ?v = "rview q" and ?t = "old_tag (rview q) a"
  have gs: "groups ?v ws gs" using assms(1) by (simp add: qinv_def)
  have i: "B \<union> H \<subseteq> set ws" "B \<inter> H = {}" "held_groups ?v B H gs" "client_ok ?v (set (ps @ ws))" using assms(2) unfolding cinv_def by blast+
  have aw: "a \<in> set ws" "H - {a} = H" using i(1,2) assms(3) by auto
  then obtain fs where "a # fs \<in> set gs" using head_group [OF gs i(3), of a] assms(3) by blast
  then have ga: "[a] \<in> set gs" using i(3) assms(4) by (fastforce simp: held_groups_def)
  obtain c where c: "conn_is ?v c a" using groups_remove(4) [OF gs ga] by (auto simp: group_def)
  have len: "7 \<le> length (fc_pkt m)" if "rflush NOTAG = Some m" for m
  proof -
    have "length (take (unat (fc_size m)) (fc_pkt m)) = 7"
      using rflush_wire [of NOTAG] that by (auto simp: wire_def enc32_def enc16_def enc8_def)
    then show ?thesis unfolding length_take by simp
  qed
  show ?thesis
  proof (cases "List.find (tagged ?v c ?t) ps")
    case (Some d)
    obtain xs ys where ps: "ps = xs @ d # ys" using find_first [OF Some] by blast
    obtain ra where "?v a = Some ra" "r_conn ra = c" using c by (auto simp: conn_is_def split: option.splits)
    then obtain q1 m where q1: "np_flush np_default_flush a ?t q = Some (Some m, q1)" "rflush NOTAG = Some m"
        "qinv q1 (xs @ ys) ws gs" "\<forall>b. b \<noteq> d \<longrightarrow> rview q1 b = ?v b" "\<not> live (rview q1) d" "q_poolnum q1 \<le> q_poolnum q + 1" "calm q1"
      using flush_pending_inv [of q xs d ys ws gs a ra c ?t np_default_flush] assms(1,5) Some ps by (auto simp: calm_def)
    have "cinv (rview q1) B H (xs @ ys) ws gs"
      using drop_cinv [of q xs d ys ws gs ?v B H, OF _ _ gs q1(4,5)] assms(1,2) ps by simp
    moreover have "load q1 (xs @ ys) ws \<le> load q ps ws" "length (xs @ ys) \<le> length ps"
      using q1(6) ps by (simp_all add: load_def)
    ultimately show ?thesis using q1(1,3,7) len [OF q1(2)] by blast
  next
    case ps: None
    show ?thesis
    proof (cases "List.find (tagged ?v c ?t) ws")
      case None
      then show ?thesis using flush_unknown [OF assms(1) c ps None, of np_default_flush] assms(1,2,5) len by blast
    next
      case (Some d)
      obtain us' vs' where d: "ws = us' @ d # vs'" "tagged ?v c ?t d" using find_first [OF Some] by blast
      then have dc: "conn_is ?v c d" "tag_of ?v d = ?t" using taggedD [of ?v c ?t d] by simp_all
      have ne: "d \<noteq> a" "\<not> is_flush ?v d"
        using i(4) aw(1) d(1) dc c assms(4) unfolding client_ok_def by (metis UnI2 in_set_conv_decomp set_append)+
      obtain g where g: "g \<in> set gs" "d \<in> set g" using gs d(1) by (auto simp: groups_def)
      then have "d \<notin> set (tl g)" using i(3) ne(2) unfolding held_groups_def by blast
      then obtain vs where vs: "[] @ d # vs \<in> set gs" using g by (cases g) auto
      obtain q3 where q3: "np_flush np_default_flush a ?t q = Some (None, q3)"
          "qinv q3 ps ws ((d # a # vs) # remove1 (d # vs) (remove1 [a] gs))"
          "q_poolnum q3 = q_poolnum q" "q_conn q3 = q_conn q"
          "\<forall>b. map_option r_refcount (rview q3 b) = map_option r_refcount (?v b)"
          "\<forall>b. map_option r_tcall (rview q3 b) = map_option r_tcall (?v b)"
          "\<forall>b. map_option r_tag (rview q3 b) = map_option r_tag (?v b) \<and> map_option r_conn (rview q3 b) = map_option r_conn (?v b)"
        using flush_working_inv [OF assms(1) ga vs ne(1) c ps Some] by auto
      note rel = relink_view [of "rview q3" b ?v for b, OF q3(5) [rule_format] q3(6) [rule_format] q3(7) [rule_format, THEN conjunct1] q3(7) [rule_format, THEN conjunct2]]
      have some: "?v b \<noteq> None" if "b \<in> set (ps @ ws)" for b using qinv_req [OF assms(1) that] by force
      have "live (rview q3) b = live ?v b" for b using live_refcount [of "rview q3" b ?v] q3(5) by simp
      then have "cinv (rview q3) (B - {a}) H ps ws ((d # a # vs) # remove1 (d # vs) (remove1 [a] gs))"
        using wait_cinv [OF assms(2) gs, of "rview q3" d a vs] q3(2) vs ga assms(3,4) ne rel some by (auto simp: qinv_def)
      then show ?thesis using q3(1-4) assms(5) by (auto simp: load_def calm_def)
    qed
  qed
qed

lemma flush_step:
  assumes "qinv q ps ws gs" "cinv (rview q) B H ps ws gs" "a \<in> B" "is_flush (rview q) a" "calm q"
    "np_flush np_default_flush a (old_tag (rview q) a) q = Some (rc, q1)" "finish_req a rc q1 = Some q2"
  shows "\<exists>ps' ws' gs'. qinv q2 ps' ws' gs' \<and> cinv (rview q2) (B - {a}) H ps' ws' gs' \<and> load q2 ps' ws' \<le> load q ps ws \<and>
    length ps' \<le> length ps \<and> calm q2"
proof (cases rc)
  case None
  then obtain gs' where "q2 = q1" "qinv q1 ps ws gs'" "cinv (rview q1) (B - {a}) H ps ws gs'" "load q1 ps ws = load q ps ws" "calm q1"
    using flush_cases [OF assms(1-5)] assms(6,7) by (auto simp: finish_req_def)
  then show ?thesis using order_refl by metis
next
  case (Some m)
  then obtain ps' where m: "7 \<le> length (fc_pkt m)" "qinv q1 ps' ws gs" "cinv (rview q1) B H ps' ws gs"
      "load q1 ps' ws \<le> load q ps ws" "length ps' \<le> length ps" "calm q1"
    using flush_cases [OF assms(1-5)] assms(6) by auto
  have "H - {a} = H" using assms(2,3) by (auto simp: cinv_def)
  moreover have "np_respond a (Some m) q1 = Some q2" using assms(7) Some by (simp add: finish_req_def)
  ultimately obtain ws' gs' where "qinv q2 ps' ws' gs'" "cinv (rview q2) (B - {a}) H ps' ws' gs'" "load q2 ps' ws' \<le> load q1 ps' ws" "calm q2"
    using respond_step [OF m(2,3) _ m(1), of a q2] assms(3) m(6) by auto
  then show ?thesis using m(4,5) by (meson order_trans)
qed

subsection \<open>The reachable states\<close>

text \<open>The work left: to take, to do and to answer.\<close>

definition todo :: "addr list \<Rightarrow> addr set \<Rightarrow> addr set \<Rightarrow> nat" where
  "todo ps B H = 3 * length ps + 2 * card B + card H"

lemma work_conf:
  assumes "qinv q ps ws gs" "cinv (rview q) B H ps ws gs" "calm q" "work (q, B, H) (q', B', H')"
  shows "\<exists>ps' ws' gs'. qinv q' ps' ws' gs' \<and> cinv (rview q') B' H' ps' ws' gs' \<and> load q' ps' ws' \<le> load q ps ws \<and>
    todo ps' B' H' < todo ps B H \<and> calm q'"
  using assms(4)
proof (rule workE)
  have BH: "B \<inter> H = {}" and fin: "finite B" "finite H"
    using assms(2) finite_subset [of _ "set ws"] by (auto simp: cinv_def)
  have less: "card (X - {a}) < card X" if "finite X" "a \<in> X" for a and X :: "addr set" using that by (rule card_Diff1_less)
  show ?thesis if "(q', B', H') = (q1, insert a B, H)" "take_req q = Some (Some a, q1)" for a q1
  proof -
    have "card (insert a B) \<le> card B + 1" using fin by (simp add: card_insert_if)
    then show ?thesis using take_step [OF assms(1,2) that(2)] that(1) assms(3) by (fastforce simp: todo_def)
  qed
  show ?thesis if "(q', B', H') = (q2, B - {a}, H)" "a \<in> B" "is_flush (rview q) a"
      "np_flush np_default_flush a (old_tag (rview q) a) q = Some (rc, q1)" "finish_req a rc q1 = Some q2" for a rc q1 q2
  proof -
    note t = that
    obtain ps' ws' gs' where "qinv q2 ps' ws' gs'" "cinv (rview q2) (B - {a}) H ps' ws' gs'" "load q2 ps' ws' \<le> load q ps ws"
        "length ps' \<le> length ps" "calm q2" using flush_step [OF assms(1,2) t(2,3) assms(3) t(4,5)] by blast
    then show ?thesis using t(1) less [OF fin(1) t(2)] unfolding todo_def by (intro exI) auto
  qed
  show ?thesis if "(q', B', H') = (q1, B - {a}, H)" "a \<in> B" "7 \<le> length (fc_pkt m)" "finish_req a (Some m) q = Some q1" for a m q1
  proof -
    note t = that
    have h: "H - {a} = H" using t(2) BH by blast
    obtain ws' gs' where "qinv q1 ps ws' gs'" "cinv (rview q1) (B - {a}) (H - {a}) ps ws' gs'" "load q1 ps ws' \<le> load q ps ws" "calm q1"
      using assms(3) respond_step [OF assms(1,2) _ t(3), of a q1] t by (auto simp: finish_req_def)
    moreover have "todo ps (B - {a}) (H - {a}) < todo ps B H" using less [OF fin(1) t(2)] h by (simp add: todo_def)
    moreover have "q' = q1" "B' = B - {a}" "H' = H - {a}" using t(1) h by simp_all
    ultimately show ?thesis by blast
  qed
  show ?thesis if "(q', B', H') = (q1, B - {a}, insert a H)" "a \<in> B" "\<not> is_flush (rview q) a" "finish_req a None q = Some q1" for a q1
  proof -
    have "B - {a} \<union> insert a H = B \<union> H" using that(2) by blast
    then have "cinv (rview q) (B - {a}) (insert a H) ps ws gs"
      using assms(2) that(2,3) unfolding cinv_def held_groups_def by blast
    moreover have "card (insert a H) \<le> card H + 1" using fin by (simp add: card_insert_if)
    ultimately show ?thesis
      using assms(1,3) that(1,4) less [OF fin(1) that(2)] unfolding todo_def by (intro exI) (auto simp: finish_req_def)
  qed
  show ?thesis if "(q', B', H') = (q1, B, H - {a})" "a \<in> H" "7 \<le> length (fc_pkt m)" "np_respond a (Some m) q = Some q1" for a m q1
  proof -
    note t = that
    have h: "B - {a} = B" using t(2) BH by blast
    obtain ws' gs' where "qinv q1 ps ws' gs'" "cinv (rview q1) (B - {a}) (H - {a}) ps ws' gs'" "load q1 ps ws' \<le> load q ps ws" "calm q1"
      using assms(3) respond_step [OF assms(1,2) _ t(3,4)] t(2) by auto
    moreover have "todo ps (B - {a}) (H - {a}) < todo ps B H" using less [OF fin(2) t(2)] h by (simp add: todo_def)
    moreover have "q' = q1" "B' = B - {a}" "H' = H - {a}" using t(1) h by simp_all
    ultimately show ?thesis by blast
  qed
qed

text \<open>With a client that has at most \<open>n\<close> requests outstanding there are never more than \<open>n\<close> structures.\<close>

definition conf :: "nat \<Rightarrow> config \<Rightarrow> bool" where
  "conf n = (\<lambda>(q, B, H). \<exists>ps ws gs. qinv q ps ws gs \<and> cinv (rview q) B H ps ws gs \<and> load q ps ws \<le> int n \<and> calm q)"

lemma live_card:
  assumes "qinv q ps ws gs" "cinv (rview q) B H ps ws gs"
  shows "card {b. live (rview q) b} = length (ps @ ws)"
proof -
  have "distinct (ps @ ws)" using assms(1) by (auto simp: qinv_def qlists_def)
  then have "card (set (ps @ ws)) = length (ps @ ws)" by (rule distinct_card)
  moreover have "{b. live (rview q) b} = set (ps @ ws)" using assms(2) unfolding cinv_def by blast
  ultimately show ?thesis by simp
qed

lemma step_conf:
  assumes "conf n c" "step n c c'"
  shows "conf n c'"
proof -
  obtain q B H where c: "c = (q, B, H)" by (cases c)
  obtain ps ws gs where i: "qinv q ps ws gs" "cinv (rview q) B H ps ws gs" "load q ps ws \<le> int n" "calm q"
    using assms(1) c by (auto simp: conf_def)
  show ?thesis using assms(2) unfolding c
  proof (rule stepE)
    show ?thesis if "c' = (q', B, H)" "0 < n_refcount (q_conn q d)" "\<not> n_resetting (q_conn q d)" "card {b. live (rview q) b} < n"
        "client_new (rview q) d tc" "receive d tc q = Some q'" for d tc q'
    proof -
      note t = that
      obtain a where a: "qinv q' (ps @ [a]) ws gs" "cinv (rview q') B H (ps @ [a]) ws gs" "q_poolnum q' = max 0 (q_poolnum q - 1)" "calm q'"
        using i(4) recv_step [OF i(1,2) t(2,3,5,6)] by blast
      moreover have "load q' (ps @ [a]) ws \<le> int n"
        using a(3) i(3) t(4) live_card [OF i(1,2)] by (auto simp: load_def max_def)
      ultimately show ?thesis using t(1) by (auto simp: conf_def)
    qed
    show ?thesis if "work (q, B, H) c'"
    proof -
      note t = that
      obtain q' B' H' where c': "c' = (q', B', H')" by (cases c')
      obtain ps' ws' gs' where "qinv q' ps' ws' gs'" "cinv (rview q') B' H' ps' ws' gs'" "load q' ps' ws' \<le> load q ps ws" "calm q'"
        using work_conf [OF i(1,2,4)] t c' by blast
      with i(3) show ?thesis unfolding conf_def c' by (auto intro: order_trans)
    qed
  qed
qed

text \<open>The server after \<^verbatim>\<open>np_srv_create\<close>, with the connections \<open>cs\<close>.\<close>

definition start :: "(nat \<Rightarrow> Npconn) \<Rightarrow> srvreqs" where
  "start cs = \<lparr>q_req = Map.empty, q_first = None, q_last = None, q_work = None, q_pool = None, q_poolnum = 0,
     q_brk = 0, q_conn = cs\<rparr>"

lemma start_inv:
  assumes "\<forall>c. 0 \<le> n_refcount (cs c) \<and> \<not> n_resetting (cs c)"
  shows "qinv (start cs) [] [] []" "conf n (start cs, {}, {})"
proof -
  have v: "rview (start cs) = Map.empty" by (auto simp: fun_eq_iff start_def)
  have "qlists (start cs) [] [] []" by (simp add: qlists_def start_def lastp_def)
  then show q: "qinv (start cs) [] [] []"
    using assms by (intro qinvI [of _ _ _ "[]"]) (auto simp: groups_def start_def)
  have "cinv (rview (start cs)) {} {} [] [] []" by (simp add: v cinv_def live_def held_groups_def client_ok_def)
  moreover have "load (start cs) [] [] \<le> int n" "calm (start cs)" using assms by (simp_all add: load_def start_def calm_def)
  ultimately show "conf n (start cs, {}, {})" using q unfolding conf_def by auto
qed

lemma reach_conf:
  assumes "(step n)\<^sup>*\<^sup>* (start cs, {}, {}) c" "\<forall>c. 0 \<le> n_refcount (cs c) \<and> \<not> n_resetting (cs c)"
  shows "conf n c"
  using assms(1) by (induction rule: rtranclp_induct) (use start_inv(2) [OF assms(2)] step_conf in blast)+

end
