(* ===== verification/Reqs_Answers.thy ===== *)
theory Reqs_Answers
  imports Reqs_Steps
begin

text \<open>
  What the workers and the file server write to a connection: each step of \<open>work\<close> writes one packet for each request
  it finishes, and a pending request that is dropped by a flush goes together with the Rflush of that flush.
\<close>

lemma deliver_all:
  "n_trans n = Some k \<Longrightarrow> \<not> n_resetting n \<Longrightarrow> length ps \<le> k \<Longrightarrow> n_out (fold deliver ps n) = n_out n @ ps"
proof (induction ps arbitrary: n k)
  case (Cons p ps)
  then obtain j where k: "k = Suc j" "length ps \<le> j" by (cases k) auto
  then have "deliver p n = n\<lparr>n_trans := Some j, n_out := n_out n @ [p]\<rparr>" using Cons.prems by (simp add: deliver_def)
  then show ?case using Cons.IH [of "deliver p n" j] Cons.prems k by simp
qed simp

text \<open>The packets that answer the request \<open>b\<close>: an Rflush, or a message of the file server with the tag of \<open>b\<close> set.\<close>

definition answers :: "reqview \<Rightarrow> addr \<Rightarrow> bytes \<Rightarrow> bool" where
  "answers v b p \<longleftrightarrow>
     (if is_flush v b then p = wire Rflush (tag_of v b) []
      else \<exists>m m'. np_set_tag m (tag_of v b) = Some m' \<and> p = take (unat (fc_size m')) (fc_pkt m'))"

lemma answers_cong: "v' b = v b \<Longrightarrow> answers v' b p = answers v b p"
  using view_cong(1,3) [of v' b v] unfolding answers_def by simp

text \<open>A packet that is long enough to have a tag has the tag of the request.\<close>

lemma answers_tag:
  assumes "answers v b p" "7 \<le> length p"
  shows "take 2 (drop 5 p) = enc16 (tag_of v b)"
proof (cases "is_flush v b")
  case False
  then obtain m m' where "np_set_tag m (tag_of v b) = Some m'" "p = take (unat (fc_size m')) (fc_pkt m')"
    using assms(1) by (auto simp: answers_def)
  then have m: "7 \<le> length (fc_pkt m)"
      and p: "p = take (unat (fc_size m)) ((fc_pkt m)[5 := ucast (tag_of v b), 6 := ucast (drop_bit 8 (tag_of v b))])"
    by (auto simp: np_set_tag_def split: if_splits)
  then have "take 2 (drop 5 p) = [p ! 5, p ! 6]" "7 \<le> unat (fc_size m)"
    using assms(2) by (auto simp: list_eq_iff_nth_eq less_Suc_eq numeral_2_eq_2 nth_Cons')
  then show ?thesis using p m by (simp add: enc16_def)
qed (use assms(1) in \<open>simp add: answers_def wire_def enc32_def enc16_def enc8_def\<close>)

lemma answers_rflush:
  assumes "rflush NOTAG = Some m" "np_set_tag m (tag_of v b) = Some m'"
  shows "take (unat (fc_size m')) (fc_pkt m') = wire Rflush (tag_of v b) []"
proof -
  have m: "take (unat (fc_size m)) (fc_pkt m) = wire Rflush NOTAG []" using rflush_wire [of NOTAG] assms(1) by auto
  have m': "fc_size m' = fc_size m" "fc_pkt m' = (fc_pkt m)[5 := ucast (tag_of v b), 6 := ucast (drop_bit 8 (tag_of v b))]"
    using assms(2) by (auto simp: np_set_tag_def split: if_splits)
  show ?thesis unfolding m' take_update_swap m by (simp add: wire_def enc32_def enc16_def enc8_def)
qed

text \<open>
  From one configuration to a later one the connection \<open>c\<close> gets the packets of \<open>rs\<close>: each answers its request, which is
  finished then, and every other finished request of \<open>c\<close> was pending and named by a flush that is answered.
\<close>

definition same_reqs :: "reqview \<Rightarrow> reqview \<Rightarrow> bool" where
  "same_reqs v v' \<longleftrightarrow>
     (\<forall>b. live v' b \<longrightarrow> live v b \<and> is_flush v' b = is_flush v b \<and> old_tag v' b = old_tag v b \<and> tag_of v' b = tag_of v b \<and>
        (\<forall>c. conn_is v' c b = conn_is v c b))"

definition flushed_away :: "reqview \<Rightarrow> addr set \<Rightarrow> addr set \<Rightarrow> addr \<Rightarrow> bool" where
  "flushed_away v K A d \<longleftrightarrow> d \<notin> K \<and> \<not> is_flush v d \<and> (\<exists>a \<in> A. is_flush v a \<and> old_tag v a = tag_of v d)"

definition settles :: "nat \<Rightarrow> config \<Rightarrow> config \<Rightarrow> (addr \<times> bytes) list \<Rightarrow> bool" where
  "settles c = (\<lambda>(q, B, H) (q', B', H') rs.
     q_conn q' c = (fold deliver (map snd rs) (q_conn q c))\<lparr>n_refcount := n_refcount (q_conn q' c)\<rparr> \<and>
     same_reqs (rview q) (rview q') \<and>
     (\<forall>b \<in> B \<union> H. live (rview q') b \<and> \<not> is_flush (rview q) b \<longrightarrow> b \<in> B' \<union> H') \<and>
     distinct (map fst rs) \<and>
     (\<forall>(b, p) \<in> set rs. live (rview q) b \<and> \<not> live (rview q') b \<and> conn_is (rview q) c b \<and> answers (rview q) b p) \<and>
     (\<forall>d. live (rview q) d \<and> \<not> live (rview q') d \<and> conn_is (rview q) c d \<and> d \<notin> fst ` set rs \<longrightarrow>
        flushed_away (rview q) (B \<union> H) (fst ` set rs) d))"

lemma settles_refl: "settles c x x []"
  by (auto simp: settles_def same_reqs_def split: prod.splits)

lemma same_answers:
  assumes "same_reqs v v'" "live v' b"
  shows "answers v' b p = answers v b p"
  using assms by (simp add: answers_def same_reqs_def)

lemma settles_trans:
  assumes "settles c x y rs" "settles c y z ss"
  shows "settles c x z (rs @ ss)"
proof -
  obtain q B H q1 B1 H1 q2 B2 H2 where xyz: "x = (q, B, H)" "y = (q1, B1, H1)" "z = (q2, B2, H2)" by (cases x; cases y; cases z)
  let ?v = "rview q" and ?v1 = "rview q1" and ?v2 = "rview q2"
  have s: "q_conn q1 c = (fold deliver (map snd rs) (q_conn q c))\<lparr>n_refcount := n_refcount (q_conn q1 c)\<rparr>" "same_reqs ?v ?v1"
      "\<forall>b \<in> B \<union> H. live ?v1 b \<and> \<not> is_flush ?v b \<longrightarrow> b \<in> B1 \<union> H1" "distinct (map fst rs)"
      "\<And>b p. (b, p) \<in> set rs \<Longrightarrow> live ?v b \<and> \<not> live ?v1 b \<and> conn_is ?v c b \<and> answers ?v b p"
      "\<And>d. live ?v d \<Longrightarrow> \<not> live ?v1 d \<Longrightarrow> conn_is ?v c d \<Longrightarrow> d \<notin> fst ` set rs \<Longrightarrow> flushed_away ?v (B \<union> H) (fst ` set rs) d"
    using assms(1) unfolding settles_def xyz prod.case by blast+
  have t: "q_conn q2 c = (fold deliver (map snd ss) (q_conn q1 c))\<lparr>n_refcount := n_refcount (q_conn q2 c)\<rparr>" "same_reqs ?v1 ?v2"
      "\<forall>b \<in> B1 \<union> H1. live ?v2 b \<and> \<not> is_flush ?v1 b \<longrightarrow> b \<in> B2 \<union> H2" "distinct (map fst ss)"
      "\<And>b p. (b, p) \<in> set ss \<Longrightarrow> live ?v1 b \<and> \<not> live ?v2 b \<and> conn_is ?v1 c b \<and> answers ?v1 b p"
      "\<And>d. live ?v1 d \<Longrightarrow> \<not> live ?v2 d \<Longrightarrow> conn_is ?v1 c d \<Longrightarrow> d \<notin> fst ` set ss \<Longrightarrow> flushed_away ?v1 (B1 \<union> H1) (fst ` set ss) d"
    using assms(2) unfolding settles_def xyz prod.case by blast+
  have same: "live ?v b \<and> is_flush ?v1 b = is_flush ?v b \<and> old_tag ?v1 b = old_tag ?v b \<and> tag_of ?v1 b = tag_of ?v b \<and>
      (\<forall>c. conn_is ?v1 c b = conn_is ?v c b)" if "live ?v1 b" for b using s(2) that unfolding same_reqs_def by blast
  have "q_conn q2 c = (fold deliver (map snd (rs @ ss)) (q_conn q c))\<lparr>n_refcount := n_refcount (q_conn q2 c)\<rparr>"
    by (subst t(1), subst s(1)) (simp add: fold_deliver)
  moreover have "same_reqs ?v ?v2" using t(2) same unfolding same_reqs_def by metis
  moreover have "\<forall>b \<in> B \<union> H. live ?v2 b \<and> \<not> is_flush ?v b \<longrightarrow> b \<in> B2 \<union> H2"
    using s(3) t(2,3) same unfolding same_reqs_def by metis
  moreover have "distinct (map fst (rs @ ss))" using s(4,5) t(4,5) by fastforce
  moreover have "live ?v b \<and> \<not> live ?v2 b \<and> conn_is ?v c b \<and> answers ?v b p" if "(b, p) \<in> set (rs @ ss)" for b p
  proof (cases "(b, p) \<in> set rs")
    case True
    then show ?thesis using s(5) t(2) unfolding same_reqs_def by blast
  next
    case False
    then have "live ?v1 b \<and> \<not> live ?v2 b \<and> conn_is ?v1 c b \<and> answers ?v1 b p" using that by (intro t(5)) simp
    then show ?thesis using same [of b] same_answers [OF s(2), of b p] by simp
  qed
  then have "\<forall>(b, p) \<in> set (rs @ ss). live ?v b \<and> \<not> live ?v2 b \<and> conn_is ?v c b \<and> answers ?v b p" by blast
  moreover have "flushed_away ?v (B \<union> H) (fst ` set (rs @ ss)) d"
    if d: "live ?v d" "\<not> live ?v2 d" "conn_is ?v c d" "d \<notin> fst ` set (rs @ ss)" for d
  proof (cases "live ?v1 d")
    case True
    then have "flushed_away ?v1 (B1 \<union> H1) (fst ` set ss) d" using t(6) [of d] d same by auto
    then obtain a where a: "a \<in> fst ` set ss" "is_flush ?v1 a" "old_tag ?v1 a = tag_of ?v1 d" "d \<notin> B1 \<union> H1" "\<not> is_flush ?v1 d"
      unfolding flushed_away_def by blast
    then have "live ?v1 a" using t(5) by force
    then show ?thesis using a same [of a] same [OF True] s(3) True unfolding flushed_away_def by (auto intro!: bexI [of _ a])
  next
    case False
    then show ?thesis using s(6) [of d] d unfolding flushed_away_def by auto
  qed
  ultimately show ?thesis unfolding settles_def xyz prod.case by blast
qed

subsection \<open>The steps of the workers\<close>

lemma conn_is_unique: "conn_is v c a \<Longrightarrow> conn_is v d a \<Longrightarrow> d = c"
  by (auto simp: conn_is_def split: option.splits)

lemma unchanged_settles:
  assumes "q_conn q' = q_conn q" "same_reqs (rview q) (rview q')" "\<And>b. live (rview q') b = live (rview q) b"
    "\<And>b. b \<in> B \<union> H \<Longrightarrow> b \<notin> B' \<union> H' \<Longrightarrow> is_flush (rview q) b"
  shows "settles c (q, B, H) (q', B', H') []"
  using assms unfolding settles_def by auto

text \<open>A response writes the reply and an Rflush for each request that waits for it.\<close>

lemma respond_settles:
  assumes "qinv q ps ws gs" "cinv (rview q) B H ps ws gs" "a \<in> B \<union> H" "7 \<le> length (fc_pkt m)"
    "np_respond a (Some m) q = Some q'" "is_flush (rview q) a \<Longrightarrow> rflush NOTAG = Some m"
  shows "\<exists>rs. settles c (q, B, H) (q', B - {a}, H - {a}) rs \<and> (conn_is (rview q) c a \<longrightarrow> a \<in> fst ` set rs)"
proof -
  let ?v = "rview q" and ?v' = "rview q'"
  have gs: "groups ?v ws gs" using assms(1) by (simp add: qinv_def)
  obtain fs d where g: "a # fs \<in> set gs" and d: "conn_is ?v d a" by (rule held_group [OF assms(1-3)])
  obtain m' where m: "np_set_tag m (r_tag (the (?v a))) = Some m'" using set_tag_defined [OF assms(4)] by blast
  let ?p = "take (unat (fc_size m')) (fc_pkt m')" and ?rs = "\<lambda>p. (a, p) # map (\<lambda>f. (f, wire Rflush (tag_of ?v f) [])) fs"
  have "q_poolnum q + int (length fs) \<le> 64"
    using respond_full [OF assms(1) g _ m d] assms(5) by (cases "64 < q_poolnum q + int (length fs)") auto
  then have q': "\<forall>b. b \<notin> set (a # fs) \<longrightarrow> ?v' b = ?v b" "\<forall>b. b \<in> set (a # fs) \<longrightarrow> \<not> live ?v' b"
      "q_conn q' = (q_conn q)(d := (fold deliver (?p # flush_packets ?v fs) (q_conn q d))\<lparr>n_refcount := n_refcount (q_conn q d) - int (length fs) - 1\<rparr>)"
    using respond_inv [OF assms(1) g _ m d] assms(5) by auto
  have same: "same_reqs ?v ?v'" using q'(1,2) view_cong [of ?v' _ ?v] unfolding same_reqs_def by metis
  have gone: "live ?v b \<and> \<not> live ?v' b \<longleftrightarrow> b \<in> set (a # fs)" for b
    using q'(1,2) view_cong(5) [of ?v' b ?v] groups_in [OF gs g, of b] assms(2) by (cases "b \<in> set (a # fs)") (auto simp: cinv_def)
  have conn: "conn_is ?v e b \<longleftrightarrow> e = d" if "b \<in> set (a # fs)" for b e
    using groups_remove(4) [OF gs g] d that conn_is_unique unfolding group_def by (metis list.set_intros(1))
  have dist: "distinct (a # fs)" using groups_remove(2) [OF gs g] .
  have fl: "is_flush ?v f" if "f \<in> set fs" for f using assms(2) g that unfolding cinv_def held_groups_def by fastforce
  have kept: "\<forall>b \<in> B \<union> H. live ?v' b \<and> \<not> is_flush ?v b \<longrightarrow> b \<in> (B - {a}) \<union> (H - {a})" using q'(2) by auto
  show ?thesis
  proof (cases "c = d")
    case True
    have "answers ?v a ?p" using answers_rflush [of m ?v a m'] assms(6) m unfolding answers_def tag_of_def by auto
    then have ans: "\<forall>(b, p) \<in> set (?rs ?p). live ?v b \<and> \<not> live ?v' b \<and> conn_is ?v c b \<and> answers ?v b p"
      using gone conn True fl by (auto simp: answers_def)
    have fst: "map fst (?rs ?p) = a # fs" by (simp add: comp_def)
    then have all: "fst ` set (?rs ?p) = set (a # fs)" by (metis list.set_map)
    have "q_conn q' c = (fold deliver (map snd (?rs ?p)) (q_conn q c))\<lparr>n_refcount := n_refcount (q_conn q' c)\<rparr>"
      using q'(3) True by (simp add: flush_packets_def tag_of_def comp_def)
    moreover have "distinct (map fst (?rs ?p))" unfolding fst by (rule dist)
    moreover have "d \<in> set (a # fs)" if "live ?v d" "\<not> live ?v' d" for d using gone [of d] that by blast
    ultimately have "settles c (q, B, H) (q', B - {a}, H - {a}) (?rs ?p)"
      unfolding settles_def prod.case all using same kept ans by blast
    then show ?thesis using all by force
  next
    case False
    then have "settles c (q, B, H) (q', B - {a}, H - {a}) []"
      using q'(3) same kept gone conn unfolding settles_def by auto
    moreover have "\<not> conn_is ?v c a" using conn [of a c] False by simp
    ultimately show ?thesis by blast
  qed
qed

text \<open>A flush that is answered at once: the request \<open>d\<close> it names, if there is one, was pending.\<close>

lemma drop_settles:
  assumes "settles c (q1, B, H) (q2, B', H') rs" "conn_is (rview q1) c a \<longrightarrow> a \<in> fst ` set rs"
    "q_conn q1 c = (q_conn q c)\<lparr>n_refcount := k\<rparr>" "\<forall>b. b \<noteq> d \<longrightarrow> rview q1 b = rview q b" "\<not> live (rview q1) d"
    "a \<noteq> d" "is_flush (rview q) a" "\<And>e. conn_is (rview q) e d \<Longrightarrow> conn_is (rview q) e a" "old_tag (rview q) a = tag_of (rview q) d"
    "\<not> is_flush (rview q) d" "d \<notin> B \<union> H"
  shows "settles c (q, B, H) (q2, B', H') rs"
proof -
  let ?v = "rview q" and ?v1 = "rview q1" and ?v2 = "rview q2"
  note same = view_cong [of ?v1 b ?v for b, OF assms(4) [rule_format]]
  have s: "q_conn q2 c = (fold deliver (map snd rs) (q_conn q1 c))\<lparr>n_refcount := n_refcount (q_conn q2 c)\<rparr>" "same_reqs ?v1 ?v2"
      "\<forall>b \<in> B \<union> H. live ?v2 b \<and> \<not> is_flush ?v1 b \<longrightarrow> b \<in> B' \<union> H'" "distinct (map fst rs)"
      "\<And>b p. (b, p) \<in> set rs \<Longrightarrow> live ?v1 b \<and> \<not> live ?v2 b \<and> conn_is ?v1 c b \<and> answers ?v1 b p"
      "\<And>x. live ?v1 x \<Longrightarrow> \<not> live ?v2 x \<Longrightarrow> conn_is ?v1 c x \<Longrightarrow> x \<notin> fst ` set rs \<Longrightarrow> flushed_away ?v1 (B \<union> H) (fst ` set rs) x"
    using assms(1) unfolding settles_def prod.case by blast+
  have rs: "b \<noteq> d" if "(b, p) \<in> set rs" for b p using s(5) [OF that] assms(5) by blast
  have d2: "\<not> live ?v2 d" using s(2) assms(5) unfolding same_reqs_def by blast
  have "q_conn q2 c = (fold deliver (map snd rs) (q_conn q c))\<lparr>n_refcount := n_refcount (q_conn q2 c)\<rparr>"
    by (subst s(1)) (simp add: assms(3) fold_deliver)
  moreover have "same_reqs ?v ?v2" using s(2) assms(5) same unfolding same_reqs_def by metis
  moreover have "\<forall>b \<in> B \<union> H. live ?v2 b \<and> \<not> is_flush ?v b \<longrightarrow> b \<in> B' \<union> H'" using s(3) same(1) assms(11) by metis
  moreover have "live ?v b \<and> \<not> live ?v2 b \<and> conn_is ?v c b \<and> answers ?v b p" if "(b, p) \<in> set rs" for b p
    using s(5) [OF that] same [OF rs [OF that]] answers_cong [of ?v1 b ?v p] assms(4) rs [OF that] by blast
  then have "\<forall>(b, p) \<in> set rs. live ?v b \<and> \<not> live ?v2 b \<and> conn_is ?v c b \<and> answers ?v b p" by blast
  moreover have "flushed_away ?v (B \<union> H) (fst ` set rs) x"
    if x: "live ?v x" "\<not> live ?v2 x" "conn_is ?v c x" "x \<notin> fst ` set rs" for x
  proof (cases "x = d")
    case True
    then have "a \<in> fst ` set rs" using x(3) assms(2,6,8) same(4) [of a c] by simp
    then show ?thesis unfolding flushed_away_def True using assms(7,9-11) by blast
  next
    case False
    then have "flushed_away ?v1 (B \<union> H) (fst ` set rs) x" using s(6) [of x] x same [of x] by simp
    then obtain b where "b \<in> fst ` set rs" "is_flush ?v1 b" "old_tag ?v1 b = tag_of ?v1 x" "x \<notin> B \<union> H" "\<not> is_flush ?v1 x"
      unfolding flushed_away_def by blast
    moreover from this(1) have "b \<noteq> d" using rs by (metis imageE prod.collapse)
    ultimately show ?thesis unfolding flushed_away_def using same [of b] same [of x] False by metis
  qed
  ultimately show ?thesis using s(4) unfolding settles_def prod.case by blast
qed

text \<open>What \<^verbatim>\<open>np_flush\<close> does: the flush waits, or it is answered, and then at most a pending request has gone.\<close>

lemma flush_effect:
  assumes "qinv q ps ws gs" "cinv (rview q) B H ps ws gs" "a \<in> B" "is_flush (rview q) a" "calm q"
    "np_flush np_default_flush a (old_tag (rview q) a) q = Some (rc, q1)" "conn_is (rview q) c a"
  shows "(rc = None \<and> q_conn q1 = q_conn q \<and> same_reqs (rview q) (rview q1) \<and> (\<forall>b. live (rview q1) b = live (rview q) b)) \<or>
    (\<exists>m. rc = Some m \<and> rflush NOTAG = Some m \<and>
      (q1 = q \<or> (\<exists>d \<in> set ps. tagged (rview q) c (old_tag (rview q) a) d \<and> \<not> live (rview q1) d \<and> (\<forall>b. b \<noteq> d \<longrightarrow> rview q1 b = rview q b) \<and>
        (\<forall>e. q_conn q1 e = (q_conn q e)\<lparr>n_refcount := n_refcount (q_conn q1 e)\<rparr>))))"
proof -
  let ?v = "rview q" and ?t = "old_tag (rview q) a"
  have gs: "groups ?v ws gs" using assms(1) by (simp add: qinv_def)
  have i: "B \<union> H \<subseteq> set ws" "held_groups ?v B H gs" "client_ok ?v (set (ps @ ws))" using assms(2) unfolding cinv_def by blast+
  show ?thesis
  proof (cases "List.find (tagged ?v c ?t) ps")
    case (Some d)
    obtain xs ys where ps: "ps = xs @ d # ys" "tagged ?v c ?t d" using find_first [OF Some] by blast
    obtain ra where "?v a = Some ra" "r_conn ra = c" using assms(7) by (auto simp: conn_is_def split: option.splits)
    then obtain q' m where "np_flush np_default_flush a ?t q = Some (Some m, q')" "rflush NOTAG = Some m"
        "\<forall>b. b \<noteq> d \<longrightarrow> rview q' b = ?v b" "\<not> live (rview q') d"
        "\<forall>e. n_out (q_conn q' e) = n_out (q_conn q e) \<and> n_resetting (q_conn q' e) = n_resetting (q_conn q e) \<and>
          n_trans (q_conn q' e) = n_trans (q_conn q e)"
      using flush_pending_inv [of q xs d ys ws gs a ra c ?t np_default_flush] assms(1,5) Some ps by (auto simp: calm_def)
    then show ?thesis using assms(6) ps by auto
  next
    case ps: None
    show ?thesis
    proof (cases "List.find (tagged ?v c ?t) ws")
      case None
      then show ?thesis using flush_unknown [OF assms(1,7) ps None, of np_default_flush] assms(6) by auto
    next
      case (Some d)
      obtain us vs where d: "ws = us @ d # vs" "tagged ?v c ?t d" using find_first [OF Some] by blast
      then have dc: "conn_is ?v c d" "tag_of ?v d = ?t" using taggedD [of ?v c ?t d] by simp_all
      have aw: "a \<in> set ws" using i(1) assms(3) by blast
      then obtain fs where "a # fs \<in> set gs" using head_group [OF gs i(2), of a] assms(3) by blast
      then have ga: "[a] \<in> set gs" using i(2) assms(4) by (fastforce simp: held_groups_def)
      have ne: "d \<noteq> a" using i(3) aw d(1) dc assms(4,7) unfolding client_ok_def by (metis UnI2 in_set_conv_decomp set_append)
      obtain g where g: "g \<in> set gs" "d \<in> set g" using gs d(1) by (auto simp: groups_def)
      then obtain us' vs' where g': "us' @ d # vs' \<in> set gs" using split_list by metis
      obtain q3 where q3: "np_flush np_default_flush a ?t q = Some (None, q3)" "q_conn q3 = q_conn q"
          "\<forall>b. map_option r_refcount (rview q3 b) = map_option r_refcount (?v b)"
          "\<forall>b. map_option r_tcall (rview q3 b) = map_option r_tcall (?v b)"
          "\<forall>b. map_option r_tag (rview q3 b) = map_option r_tag (?v b) \<and> map_option r_conn (rview q3 b) = map_option r_conn (?v b)"
        using flush_working_inv [OF assms(1) ga g' ne assms(7) ps Some] by auto
      have lv: "live (rview q3) b = live ?v b" for b using live_refcount [of "rview q3" b ?v] q3(3) by simp
      have "same_reqs ?v (rview q3)"
        unfolding same_reqs_def lv
      proof (intro allI impI)
        fix b assume l: "live ?v b"
        then have "?v b \<noteq> None" unfolding live_def by (metis option.case(1))
        note relink_view [of "rview q3" b ?v, OF q3(3) [rule_format] q3(4) [rule_format] q3(5) [rule_format, THEN conjunct1] q3(5) [rule_format, THEN conjunct2] this]
        then show "live ?v b \<and> is_flush (rview q3) b = is_flush ?v b \<and> old_tag (rview q3) b = old_tag ?v b \<and>
            tag_of (rview q3) b = tag_of ?v b \<and> (\<forall>c. conn_is (rview q3) c b = conn_is ?v c b)" using l by blast
      qed
      then show ?thesis using assms(6) q3(1,2) lv by simp
    qed
  qed
qed

lemma flush_settles:
  assumes "qinv q ps ws gs" "cinv (rview q) B H ps ws gs" "a \<in> B" "is_flush (rview q) a" "calm q"
    "np_flush np_default_flush a (old_tag (rview q) a) q = Some (rc, q1)" "finish_req a rc q1 = Some q2"
  shows "\<exists>rs. settles c (q, B, H) (q2, B - {a}, H) rs"
proof -
  let ?v = "rview q" and ?t = "old_tag (rview q) a"
  obtain e where e: "conn_is ?v e a" using held_group [OF assms(1,2), of a] assms(3) by blast
  have H: "H - {a} = H" using assms(2,3) by (auto simp: cinv_def)
  show ?thesis
  proof (cases rc)
    case None
    then have "q2 = q1" "q_conn q1 = q_conn q" "same_reqs ?v (rview q1)" "\<And>b. live (rview q1) b = live ?v b"
      using flush_effect [OF assms(1-6) e] assms(7) by (auto simp: finish_req_def)
    then have "settles c (q, B, H) (q2, B - {a}, H) []" using assms(4) by (intro unchanged_settles) auto
    then show ?thesis by blast
  next
    case (Some m)
    then have m: "rflush NOTAG = Some m" and w: "q1 = q \<or> (\<exists>d \<in> set ps. tagged ?v e ?t d \<and> \<not> live (rview q1) d \<and>
        (\<forall>b. b \<noteq> d \<longrightarrow> rview q1 b = ?v b) \<and> (\<forall>e. q_conn q1 e = (q_conn q e)\<lparr>n_refcount := n_refcount (q_conn q1 e)\<rparr>))"
      using flush_effect [OF assms(1-6) e] by auto
    obtain ps' where p: "7 \<le> length (fc_pkt m)" "qinv q1 ps' ws gs" "cinv (rview q1) B H ps' ws gs"
      using flush_cases [OF assms(1-5)] assms(6) Some by auto
    have r: "np_respond a (Some m) q1 = Some q2" "a \<in> B \<union> H" using assms(3,7) Some by (simp_all add: finish_req_def)
    obtain rs where rs: "settles c (q1, B, H) (q2, B - {a}, H) rs" "conn_is (rview q1) c a \<longrightarrow> a \<in> fst ` set rs"
      using respond_settles [OF p(2,3) r(2) p(1) r(1) m, of c] H by auto
    show ?thesis
      using w
    proof
      assume "\<exists>d \<in> set ps. tagged ?v e ?t d \<and> \<not> live (rview q1) d \<and> (\<forall>b. b \<noteq> d \<longrightarrow> rview q1 b = ?v b) \<and>
        (\<forall>e. q_conn q1 e = (q_conn q e)\<lparr>n_refcount := n_refcount (q_conn q1 e)\<rparr>)"
      then obtain d where d: "d \<in> set ps" "tagged ?v e ?t d" "\<not> live (rview q1) d" "\<forall>b. b \<noteq> d \<longrightarrow> rview q1 b = ?v b"
          "q_conn q1 c = (q_conn q c)\<lparr>n_refcount := n_refcount (q_conn q1 c)\<rparr>" by blast
      have dc: "conn_is ?v e d" "tag_of ?v d = ?t" using taggedD [OF d(2)] by simp_all
      obtain pl where "qlists q ps ws pl" using assms(1) by (rule qinvD)
      then have nin: "d \<notin> set ws" using d(1) by (auto simp: qlists_def)
      have i: "B \<union> H \<subseteq> set ws" "client_ok ?v (set (ps @ ws))" using assms(2) unfolding cinv_def by blast+
      have ad: "d \<notin> B \<union> H" "a \<noteq> d" "a \<in> set (ps @ ws)" "d \<in> set (ps @ ws)" using nin i(1) assms(3) d(1) by auto
      moreover have "\<not> is_flush ?v d"
        using i(2) [unfolded client_ok_def, rule_format, OF ad(3,4), of e] e dc assms(4) by metis
      moreover have "conn_is ?v x a" if "conn_is ?v x d" for x using conn_is_unique [OF dc(1) that] e by simp
      ultimately show ?thesis using drop_settles [OF rs d(5,4,3) _ assms(4) _ dc(2) [symmetric]] by blast
    qed (use rs in blast)
  qed
qed

lemma work_settles:
  assumes "qinv q ps ws gs" "cinv (rview q) B H ps ws gs" "calm q" "work (q, B, H) c'"
  shows "\<exists>rs. settles c (q, B, H) c' rs"
  using assms(4)
proof (rule workE)
  have BH: "B \<inter> H = {}" using assms(2) by (auto simp: cinv_def)
  have same: "same_reqs v v" for v by (simp add: same_reqs_def)
  show ?thesis if "c' = (q1, insert a B, H)" "take_req q = Some (Some a, q1)" for a q1
  proof -
    note t = that
    obtain ps' where ps: "ps = a # ps'" using take_step [OF assms(1,2) t(2)] by blast
    then have "rview q1 = rview q" "q_conn q1 = q_conn q" using take_inv [of q a ps' ws gs] assms(1) t(2) by auto
    then have "settles c (q, B, H) c' []" unfolding t(1) by (intro unchanged_settles) (auto simp: same)
    then show ?thesis by blast
  qed
  show ?thesis if "c' = (q2, B - {a}, H)" "a \<in> B" "is_flush (rview q) a"
      "np_flush np_default_flush a (old_tag (rview q) a) q = Some (rc, q1)" "finish_req a rc q1 = Some q2" for a rc q1 q2
    unfolding that(1) by (rule flush_settles [OF assms(1,2) that(2,3) assms(3) that(4,5)])
  show ?thesis if "c' = (q1, B - {a}, H)" "a \<in> B" "\<not> is_flush (rview q) a" "7 \<le> length (fc_pkt m)" "finish_req a (Some m) q = Some q1" for a m q1
  proof -
    have "H - {a} = H" using that(2) BH by blast
    then show ?thesis using respond_settles [OF assms(1,2) _ that(4), of a q1] that by (auto simp: finish_req_def)
  qed
  show ?thesis if "c' = (q1, B - {a}, insert a H)" "a \<in> B" "\<not> is_flush (rview q) a" "finish_req a None q = Some q1" for a q1
  proof -
    have "settles c (q, B, H) c' []" unfolding that(1) using that(4) by (intro unchanged_settles) (auto simp: same finish_req_def)
    then show ?thesis by blast
  qed
  show ?thesis if "c' = (q1, B, H - {a})" "a \<in> H" "7 \<le> length (fc_pkt m)" "np_respond a (Some m) q = Some q1" for a m q1
  proof -
    have "B - {a} = B" using that(2) BH by blast
    moreover have "\<not> is_flush (rview q) a" using assms(2) that(2) by (auto simp: cinv_def)
    ultimately show ?thesis using respond_settles [OF assms(1,2) _ that(3,4)] that by auto
  qed
qed

end
