(* ===== verification/Reqs_Live.thy ===== *)
theory Reqs_Live
  imports Reqs_Answers
begin

text \<open>
  What the state machine of \<open>Reqs_Steps\<close> gives: the invariant of the reachable configurations, an end of
  every run of the workers, and an answer for every request.
\<close>

subsection \<open>Progress\<close>

definition idle :: "config \<Rightarrow> bool" where
  "idle = (\<lambda>(q, B, H). q_first q = None \<and> q_last q = None \<and> q_work q = None \<and> B = {} \<and> H = {})"

lemma idle_iff:
  assumes "qinv q ps ws gs" "cinv (rview q) B H ps ws gs"
  shows "idle (q, B, H) \<longleftrightarrow> ps = [] \<and> ws = []"
proof -
  obtain pl where l: "qlists q ps ws pl" using assms(1) by (rule qinvD)
  have "q_first q = None \<longleftrightarrow> ps = []" "q_work q = None \<longleftrightarrow> ws = []"
    using l by (cases ps; cases ws; simp add: qlists_def)+
  moreover have "q_last q = None" if "ps = []" using l that by (simp add: qlists_def lastp_def)
  moreover have "B \<union> H \<subseteq> set ws" using assms(2) by (simp add: cinv_def)
  ultimately show ?thesis unfolding idle_def by auto
qed

lemma rflush_message: obtains m where "rflush NOTAG = Some m" "7 \<le> length (fc_pkt m)"
proof -
  obtain m where m: "rflush NOTAG = Some m" "take (unat (fc_size m)) (fc_pkt m) = wire Rflush NOTAG []"
    using rflush_wire by blast
  have "length (take (unat (fc_size m)) (fc_pkt m)) = 7" using m(2) by (simp add: wire_def enc32_def enc16_def enc8_def)
  then have "7 \<le> length (fc_pkt m)" unfolding length_take by simp
  with m(1) that show thesis by blast
qed

text \<open>The handler of a flush and the response to it return.\<close>

lemma flush_enabled:
  assumes "qinv q ps ws gs" "cinv (rview q) B H ps ws gs" "calm q" "load q ps ws \<le> 64" "a \<in> B" "is_flush (rview q) a"
  shows "\<exists>rc q1 q2. np_flush np_default_flush a (old_tag (rview q) a) q = Some (rc, q1) \<and> finish_req a rc q1 = Some q2"
  using flush_cases [OF assms(1,2,5,6,3)]
proof
  assume "\<exists>q1 gs'. np_flush np_default_flush a (old_tag (rview q) a) q = Some (None, q1) \<and> qinv q1 ps ws gs' \<and>
    cinv (rview q1) (B - {a}) H ps ws gs' \<and> load q1 ps ws = load q ps ws \<and> calm q1"
  then show ?thesis by (auto simp: finish_req_def)
next
  assume "\<exists>q1 m ps'. np_flush np_default_flush a (old_tag (rview q) a) q = Some (Some m, q1) \<and> 7 \<le> length (fc_pkt m) \<and>
    qinv q1 ps' ws gs \<and> cinv (rview q1) B H ps' ws gs \<and> load q1 ps' ws \<le> load q ps ws \<and> length ps' \<le> length ps \<and> calm q1"
  then obtain q1 m ps' where f: "np_flush np_default_flush a (old_tag (rview q) a) q = Some (Some m, q1)" "7 \<le> length (fc_pkt m)"
      "qinv q1 ps' ws gs" "cinv (rview q1) B H ps' ws gs" "load q1 ps' ws \<le> 64" using assms(4) by auto
  have "a \<in> B \<union> H" using assms(5) by blast
  then show ?thesis using respond_enabled [OF f(3,4) _ f(2,5)] f(1) by (fastforce simp: finish_req_def)
qed

text \<open>The head of a group can always make a step: it is worked on, or the file server can answer it.\<close>

lemma head_progress:
  assumes "qinv q ps ws gs" "cinv (rview q) B H ps ws gs" "calm q" "load q ps ws \<le> 64" "a \<in> B \<union> H"
  shows "\<exists>c'. work (q, B, H) c'"
proof -
  obtain m :: Npfcall where m: "7 \<le> length (fc_pkt m)" by (rule rflush_message)
  consider "a \<in> H" | "a \<in> B" "\<not> is_flush (rview q) a" | "a \<in> B" "is_flush (rview q) a" using assms(5) by blast
  then show ?thesis
  proof cases
    case 1
    then show ?thesis using respond_enabled [OF assms(1,2,5) m assms(4)] Reply [OF 1 m] by blast
  next
    case 2
    have "finish_req a None q = Some q" by (simp add: finish_req_def)
    then show ?thesis using Keep [OF 2] by blast
  next
    case 3
    then show ?thesis using flush_enabled [OF assms(1-4)] Flush [OF 3] by blast
  qed
qed

lemma progress:
  assumes "conf n c" "n \<le> 64" "\<not> idle c"
  shows "\<exists>c'. work c c'"
proof -
  obtain q B H where c: "c = (q, B, H)" by (cases c)
  obtain ps ws gs where i: "qinv q ps ws gs" "cinv (rview q) B H ps ws gs" "load q ps ws \<le> int n" "calm q"
    using assms(1) c by (auto simp: conf_def)
  have ld: "load q ps ws \<le> 64" using i(3) assms(2) by simp
  show ?thesis
  proof (cases ps)
    case (Cons a ps')
    then show ?thesis using take_inv [of q a ps' ws gs] i(1) Take [of q a] c by blast
  next
    case Nil
    then have "ws \<noteq> []" using assms(3) c idle_iff [OF i(1,2)] by simp
    moreover have "set (concat gs) = set ws" using i(1) by (simp add: qinv_def groups_def)
    ultimately have "gs \<noteq> []" by auto
    then obtain g where "g \<in> set gs" using hd_in_set by blast
    then have "hd g \<in> B \<union> H" using i(2) unfolding cinv_def held_groups_def by blast
    then show ?thesis using head_progress [OF i(1,2,4) ld] c by simp
  qed
qed

text \<open>No run of the workers is longer than three steps for each request there is.\<close>

definition todo_of :: "config \<Rightarrow> nat" where
  "todo_of = (\<lambda>(q, B, H). LEAST k. \<exists>ps ws gs. qinv q ps ws gs \<and> cinv (rview q) B H ps ws gs \<and> todo ps B H = k)"

lemma queue_unique:
  assumes "qinv q ps ws gs" "qinv q ps' ws' gs'"
  shows "ps' = ps" "ws' = ws"
proof -
  obtain pl pl' where "qlists q ps ws pl" "qlists q ps' ws' pl'" using assms by (meson qinvD)
  then show "ps' = ps" "ws' = ws"
    unfolding qlists_def using dseg_unique by metis+
qed

lemma todo_of_eq:
  assumes "qinv q ps ws gs" "cinv (rview q) B H ps ws gs"
  shows "todo_of (q, B, H) = todo ps B H"
  unfolding todo_of_def prod.case
  by (rule Least_equality) (use assms queue_unique [OF assms(1)] in blast)+

lemma work_todo:
  assumes "conf n c" "work c c'"
  shows "conf n c'" "todo_of c' < todo_of c"
proof -
  show "conf n c'" using step_conf [OF assms(1)] Work [OF assms(2)] by blast
  obtain q B H where c: "c = (q, B, H)" by (cases c)
  obtain q' B' H' where c': "c' = (q', B', H')" by (cases c')
  obtain ps ws gs where i: "qinv q ps ws gs" "cinv (rview q) B H ps ws gs" "calm q"
    using assms(1) c by (auto simp: conf_def)
  obtain ps' ws' gs' where "qinv q' ps' ws' gs'" "cinv (rview q') B' H' ps' ws' gs'" "todo ps' B' H' < todo ps B H"
    using work_conf [OF i] assms(2) c c' by blast
  then show "todo_of c' < todo_of c" using todo_of_eq [OF i(1,2)] todo_of_eq c c' by simp
qed

lemma todo_bound:
  assumes "conf n (q, B, H)"
  shows "todo_of (q, B, H) \<le> 3 * card {b. live (rview q) b}"
proof -
  obtain ps ws gs where i: "qinv q ps ws gs" "cinv (rview q) B H ps ws gs" using assms by (auto simp: conf_def)
  have BH: "B \<union> H \<subseteq> set ws" "B \<inter> H = {}" using i(2) by (auto simp: cinv_def)
  then have "finite B" "finite H" using finite_subset [of _ "set ws"] by auto
  then have "card B + card H = card (B \<union> H)" using BH(2) by (simp add: card_Un_disjoint)
  also have "\<dots> \<le> card (set ws)" by (rule card_mono) (use BH(1) in auto)
  also have "\<dots> \<le> length ws" by (rule card_length)
  finally show ?thesis using todo_of_eq [OF i] live_card [OF i] by (simp add: todo_def)
qed

subsection \<open>The reachable configurations\<close>

definition conns_ok :: "(nat \<Rightarrow> Npconn) \<Rightarrow> bool" where
  "conns_ok cs \<longleftrightarrow> (\<forall>c. 0 \<le> n_refcount (cs c) \<and> \<not> n_resetting (cs c))"

text \<open>
  An example: a read request with tag 5 arrives, then a flush of it with tag 6; two workers take
  them, and the flush waits for the read.
\<close>

definition conns1 :: "nat \<Rightarrow> Npconn" where
  "conns1 = (\<lambda>_. \<lparr>n_refcount = 1, n_resetting = False, n_trans = Some 9, n_out = []\<rparr>)"

abbreviation tread5 :: Npfcall where
  "tread5 \<equiv> npfcall0\<lparr>fc_type := Tread, fc_tag := 5\<rparr>"

abbreviation tflush6 :: Npfcall where
  "tflush6 \<equiv> npfcall0\<lparr>fc_type := Tflush, fc_tag := 6, fc_oldtag := 5\<rparr>"

definition ex_req :: "Npfcall \<Rightarrow> ptr \<Rightarrow> ptr \<Rightarrow> ptr \<Rightarrow> Npreq" where
  "ex_req tc fl nx pv = (new_req 0 tc)\<lparr>r_flushreq := fl, r_next := nx, r_prev := pv\<rparr>"

definition ex_state :: "Npreq heap \<Rightarrow> ptr \<Rightarrow> ptr \<Rightarrow> ptr \<Rightarrow> nat \<Rightarrow> srvreqs" where
  "ex_state h f l w k = \<lparr>q_req = h, q_first = f, q_last = l, q_work = w, q_pool = None, q_poolnum = 0, q_brk = k,
     q_conn = conns1(0 := (conns1 0)\<lparr>n_refcount := 1 + int k\<rparr>)\<rparr>"

definition ex1 :: srvreqs where
  "ex1 = ex_state [0 \<mapsto> ex_req tread5 None None None] (Some 0) (Some 0) None 1"

definition ex2 :: srvreqs where
  "ex2 = ex_state [0 \<mapsto> ex_req tread5 None (Some 1) None, 1 \<mapsto> ex_req tflush6 None None (Some 0)] (Some 0) (Some 1) None 2"

definition ex3 :: srvreqs where
  "ex3 = ex_state [0 \<mapsto> ex_req tread5 None None None, 1 \<mapsto> ex_req tflush6 None None None] (Some 1) (Some 1) (Some 0) 2"

definition ex4 :: srvreqs where
  "ex4 = ex_state [0 \<mapsto> ex_req tread5 None None (Some 1), 1 \<mapsto> ex_req tflush6 None (Some 0) None] None None (Some 1) 2"

definition ex5 :: srvreqs where
  "ex5 = ex_state [0 \<mapsto> ex_req tread5 (Some 1) None (Some 1), 1 \<mapsto> ex_req tflush6 None (Some 0) None] None None (Some 1) 2"

lemmas run_simps = receive_def np_req_alloc_def np_conn_incref_def conn_upd_def start_def np_srv_add_req_def
  np_srv_remove_req_def np_srv_add_workreq_def unlink_def heap_upd_def take_req_def new_req_def set_r_prev_def set_r_next_def
  np_flush_def np_req_ref_def req_upd_def np_req_unref_def np_default_flush_def find_req.simps is_req_def
  ex_state_def ex_req_def conns1_def

lemmas ex_defs = ex1_def ex2_def ex3_def ex4_def ex5_def

lemma ex_run:
  "receive 0 tread5 (start conns1) = Some ex1" "receive 0 tflush6 ex1 = Some ex2"
  "take_req ex2 = Some (Some 0, ex3)" "take_req ex3 = Some (Some 1, ex4)"
  "np_flush np_default_flush 1 5 ex4 = Some (None, ex5)"
  by (simp_all add: ex_defs run_simps fun_eq_iff)

lemma ex_views:
  "{b. live (rview (start conns1)) b} = {}" "{b. live (rview ex1) b} = {0}"
  "rview ex1 0 = Some (ex_req tread5 None None None)" "rview ex4 1 = Some (ex_req tflush6 None None None)"
  "\<not> is_flush (rview ex5) 0"
  by (auto simp: live_def rview_def ex_defs ex_state_def start_def ex_req_def new_req_def req_core_def is_flush_def npfcall0_def
      split: if_splits)

lemma ex_conns:
  "0 < n_refcount (q_conn (start conns1) 0) \<and> \<not> n_resetting (q_conn (start conns1) 0)"
  "0 < n_refcount (q_conn ex1 0) \<and> \<not> n_resetting (q_conn ex1 0)"
  by (simp_all add: start_def conns1_def ex1_def ex_state_def)

lemma conns1_ok: "conns_ok conns1"
  by (simp add: conns_ok_def conns1_def)

lemma ex_reach: "(step 64)\<^sup>*\<^sup>* (start conns1, {}, {}) (ex5, {0}, {})"
proof -
  have "client_new (rview (start conns1)) 0 tread5" using ex_views(1) by (auto simp: client_new_def npfcall0_def)
  then have "step 64 (start conns1, {}, {}) (ex1, {}, {})"
    using ex_run(1) ex_conns(1) by (intro Recv) (simp_all add: ex_views)
  moreover have "client_new (rview ex1) 0 tflush6"
    using ex_views(2,3) by (auto simp: client_new_def set_eq_iff tag_of_def is_flush_def ex_req_def new_req_def npfcall0_def)
  then have "step 64 (ex1, {}, {}) (ex2, {}, {})"
    using ex_run(2) ex_conns(2) by (intro Recv) (simp_all add: ex_views)
  moreover have "step 64 (ex2, {}, {}) (ex3, {0}, {})" "step 64 (ex3, {0}, {}) (ex4, {1, 0}, {})"
    using ex_run(3,4) by (auto intro!: Work Take)
  moreover have "is_flush (rview ex4) 1" "old_tag (rview ex4) 1 = 5"
    using ex_views(4) by (simp_all add: is_flush_def old_tag_def ex_req_def new_req_def npfcall0_def)
  then have "work (ex4, {1, 0}, {}) (ex5, {1, 0} - {1}, {})"
    using ex_run(5) by (intro Flush) (auto simp: finish_req_def)
  then have "step 64 (ex4, {1, 0}, {}) (ex5, {0}, {})" by (intro Work) (simp add: insert_Diff_if)
  ultimately show ?thesis by (meson rtranclp.rtrancl_into_rtrancl rtranclp.rtrancl_refl)
qed

text \<open>
  Invariant of the request lists (C5). In every configuration a server reaches from an empty one, with any
  interleaving of arriving messages and workers, the queue and the list of the requests worked on
  are well-formed lists without a common element, they hold exactly the requests with a reference, each
  has one reference and is not answered, waiting flush requests hang off the request they wait for, a
  connection has a reference for each of its requests, and the requests with a worker or the file
  server are in the work list. With at most \<open>n\<close> requests outstanding there are never more than \<open>n\<close>
  request structures.
\<close>

theorem reqs_invariant:
  assumes "conns_ok cs" "(step n)\<^sup>*\<^sup>* (start cs, {}, {}) (q, B, H)"
  shows "\<exists>ps ws gs. qinv q ps ws gs \<and> (\<forall>b. live (rview q) b \<longleftrightarrow> b \<in> set (ps @ ws)) \<and>
    B \<union> H \<subseteq> set ws \<and> B \<inter> H = {} \<and> q_poolnum q + int (length (ps @ ws)) \<le> int n"
  using reach_conf [OF assms(2)] assms(1) unfolding conns_ok_def conf_def cinv_def load_def by blast

theorem reqs_invariant_witness:
  "conns_ok conns1 \<and> (step 64)\<^sup>*\<^sup>* (start conns1, {}, {}) (ex5, {0}, {}) \<and>
    (\<exists>ps ws gs. qinv ex5 ps ws gs \<and> (\<forall>b. live (rview ex5) b \<longleftrightarrow> b \<in> set (ps @ ws)) \<and>
      {0} \<union> {} \<subseteq> set ws \<and> {0} \<inter> ({} :: addr set) = {} \<and> q_poolnum ex5 + int (length (ps @ ws)) \<le> int 64)"
  using conns1_ok ex_reach reqs_invariant [OF conns1_ok ex_reach] by blast

lemma run_conf:
  assumes "conf n c" "(work ^^ k) c c'"
  shows "conf n c'" "k + todo_of c' \<le> todo_of c"
proof -
  have "conf n c' \<and> k + todo_of c' \<le> todo_of c"
    using assms(2)
  proof (induction k arbitrary: c')
    case (Suc k)
    then obtain c1 where "(work ^^ k) c c1" "work c1 c'" by auto
    with Suc.IH [of c1] work_todo [of n c1 c'] show ?case by fastforce
  qed (use assms(1) in simp)
  then show "conf n c'" "k + todo_of c' \<le> todo_of c" by blast+
qed

lemma idle_none_live: "conf n (q, B, H) \<Longrightarrow> idle (q, B, H) \<Longrightarrow> \<not> live (rview q) b"
  using idle_iff by (fastforce simp: conf_def cinv_def)

text \<open>
  Termination of the workers (C7). Take any reachable state of a server whose clients have at most 64 requests outstanding (the
  size of the pool). Without new messages the workers and the file server make at most three
  steps for each request in use: taking it, handling it, and answering it later. After any number of such steps, what a
  worker or the file server calls next returns: taking a request, \<^verbatim>\<open>np_flush\<close> and the response that follows for a Tflush,
  and \<^verbatim>\<open>np_respond\<close> with any message for every request that a worker or the file server holds. The steps
  stop only when the queue and the work list are empty, nobody holds a request and no request is in use.
\<close>

theorem work_terminates:
  assumes "conns_ok cs" "n \<le> 64" "(step n)\<^sup>*\<^sup>* (start cs, {}, {}) (q, B, H)" "(work ^^ k) (q, B, H) (q', B', H')"
  shows "k \<le> 3 * card {b. live (rview q) b} \<and>
    take_req q' \<noteq> None \<and>
    (\<forall>a \<in> B'. is_flush (rview q') a \<longrightarrow>
      (\<exists>rc q1 q2. np_flush np_default_flush a (old_tag (rview q') a) q' = Some (rc, q1) \<and> finish_req a rc q1 = Some q2)) \<and>
    (\<forall>a \<in> B' \<union> H'. \<forall>m. 7 \<le> length (fc_pkt m) \<longrightarrow> np_respond a (Some m) q' \<noteq> None) \<and>
    ((\<nexists>c. work (q', B', H') c) \<longrightarrow> idle (q', B', H') \<and> (\<forall>b. \<not> live (rview q') b))"
proof (intro conjI ballI allI impI)
  have c: "conf n (q, B, H)" using reach_conf [OF assms(3)] assms(1) by (simp add: conns_ok_def)
  note c' = run_conf [OF c assms(4)]
  obtain ps ws gs where i: "qinv q' ps ws gs" "cinv (rview q') B' H' ps ws gs" "load q' ps ws \<le> int n" "calm q'"
    using c'(1) by (auto simp: conf_def)
  have ld: "load q' ps ws \<le> 64" using i(3) assms(2) by simp
  show "k \<le> 3 * card {b. live (rview q) b}" using c'(2) todo_bound [OF c] by simp
  show "take_req q' \<noteq> None"
  proof (cases ps)
    case Nil
    then have "q_first q' = None" using i(1) by (auto simp: qinv_def qlists_def)
    then show ?thesis by (simp add: take_req_def)
  next
    case (Cons a ps')
    then show ?thesis using take_inv [of q' a ps' ws gs] i(1) by auto
  qed
  show "\<exists>rc q1 q2. np_flush np_default_flush a (old_tag (rview q') a) q' = Some (rc, q1) \<and> finish_req a rc q1 = Some q2"
    if "a \<in> B'" "is_flush (rview q') a" for a using flush_enabled [OF i(1,2,4) ld that] .
  show "np_respond a (Some m) q' \<noteq> None" if "a \<in> B' \<union> H'" "7 \<le> length (fc_pkt m)" for a m
    using respond_enabled [OF i(1,2) that ld] by blast
  show "idle (q', B', H')" if "\<nexists>c. work (q', B', H') c" using progress [OF c'(1) assms(2)] that by blast
  then show "\<not> live (rview q') b" if "\<nexists>c. work (q', B', H') c" for b using idle_none_live [OF c'(1)] that by blast
qed

theorem work_terminates_witness:
  "conns_ok conns1 \<and> (64 :: nat) \<le> 64 \<and> (step 64)\<^sup>*\<^sup>* (start conns1, {}, {}) (ex5, {0}, {}) \<and>
    (work ^^ 1) (ex5, {0}, {}) (ex5, {}, {0}) \<and> 1 \<le> 3 * card {b. live (rview ex5) b} \<and>
    np_respond 0 (Some (npfcall0\<lparr>fc_size := 7, fc_pkt := replicate 7 0\<rparr>)) ex5 \<noteq> None"
proof -
  have "work (ex5, {0}, {}) (ex5, {0} - {0}, insert 0 {})" by (rule Keep) (simp_all add: ex_views finish_req_def)
  then have w: "(work ^^ 1) (ex5, {0}, {}) (ex5, {}, {0})" unfolding relpowp_1 by simp
  have "(0 :: addr) \<in> {} \<union> {0}" "7 \<le> length (fc_pkt (npfcall0\<lparr>fc_size := 7, fc_pkt := replicate 7 0\<rparr>))" by simp_all
  then show ?thesis using conns1_ok ex_reach w work_terminates [OF conns1_ok order_refl ex_reach w] by blast
qed

lemma run_settles:
  assumes "conf n (f 0)" "\<forall>i. work (f i) (f (Suc i)) \<or> (f (Suc i) = f i \<and> (\<nexists>c. work (f i) c))"
  shows "conf n (f i)" "\<exists>rs. settles c (f 0) (f i) rs"
proof -
  have "conf n (f i) \<and> (\<exists>rs. settles c (f 0) (f i) rs)"
  proof (induction i)
    case 0
    then show ?case using assms(1) settles_refl by blast
  next
    case (Suc i)
    show ?case
    proof (cases "work (f i) (f (Suc i))")
      case True
      obtain q B H where fi: "f i = (q, B, H)" by (cases "f i")
      then obtain ps ws gs where "qinv q ps ws gs" "cinv (rview q) B H ps ws gs" "calm q" using Suc by (auto simp: conf_def)
      from work_settles [OF this, of "f (Suc i)" c] obtain rs where "settles c (f i) (f (Suc i)) rs" using True fi by auto
      then show ?thesis using Suc settles_trans work_todo(1) [OF _ True] by blast
    next
      case False
      then have "f (Suc i) = f i" using assms(2) by blast
      then show ?thesis using Suc by simp
    qed
  qed
  then show "conf n (f i)" "\<exists>rs. settles c (f 0) (f i) rs" by blast+
qed

text \<open>A run of the workers that goes on as long as it can comes to a state without a step.\<close>

lemma run_stops:
  assumes "conf n (f 0)" "\<forall>i. work (f i) (f (Suc i)) \<or> (f (Suc i) = f i \<and> (\<nexists>c. work (f i) c))"
  shows "\<exists>i. (\<nexists>c. work (f i) c) \<and> (\<forall>j \<ge> i. f j = f i)"
proof -
  have "\<exists>i. \<nexists>c. work (f i) c"
  proof (rule ccontr)
    assume "\<not> ?thesis"
    then have less: "todo_of (f (Suc i)) < todo_of (f i)" for i using assms(2) work_todo(2) [OF run_settles(1) [OF assms]] by blast
    have "todo_of (f i) + i \<le> todo_of (f 0)" for i
    proof (induction i)
      case (Suc i)
      then show ?case using less [of i] by simp
    qed simp
    from this [of "Suc (todo_of (f 0))"] show False by simp
  qed
  then obtain i where i: "\<nexists>c. work (f i) c" by blast
  have "f j = f i" if "i \<le> j" for j
    using that
  proof (induction j rule: dec_induct)
    case (step j)
    then show ?case using assms(2) i by metis
  qed simp
  then show ?thesis using i by blast
qed

text \<open>When all requests of a connection are finished, the packets are on the connection, provided its transport takes them.\<close>

lemma settles_out:
  assumes "settles c (q, B, H) (q', B', H') rs" "conf n (q, B, H)" "\<forall>b. \<not> live (rview q') b"
    "n_trans (q_conn q c) = Some k" "card {b. live (rview q) b \<and> conn_is (rview q) c b} \<le> k"
  shows "n_out (q_conn q' c) = n_out (q_conn q c) @ map snd rs \<and> distinct (map fst rs) \<and>
    (\<forall>(b, p) \<in> set rs. live (rview q) b \<and> conn_is (rview q) c b \<and> answers (rview q) b p) \<and>
    (\<forall>d. live (rview q) d \<and> conn_is (rview q) c d \<longrightarrow> d \<in> fst ` set rs \<or> flushed_away (rview q) (B \<union> H) (fst ` set rs) d)"
proof -
  have s: "q_conn q' c = (fold deliver (map snd rs) (q_conn q c))\<lparr>n_refcount := n_refcount (q_conn q' c)\<rparr>" "distinct (map fst rs)"
      "\<forall>(b, p) \<in> set rs. live (rview q) b \<and> conn_is (rview q) c b \<and> answers (rview q) b p"
      "\<forall>d. live (rview q) d \<and> conn_is (rview q) c d \<longrightarrow> d \<in> fst ` set rs \<or> flushed_away (rview q) (B \<union> H) (fst ` set rs) d"
    using assms(1,3) unfolding settles_def prod.case by blast+
  obtain ps ws gs where i: "cinv (rview q) B H ps ws gs" "calm q" using assms(2) by (auto simp: conf_def)
  then have fin: "finite {b. live (rview q) b \<and> conn_is (rview q) c b}"
    using finite_subset [of _ "set (ps @ ws)"] by (auto simp: cinv_def)
  have "length (map snd rs) = card (set (map fst rs))" using distinct_card [OF s(2)] by simp
  also have "\<dots> \<le> card {b. live (rview q) b \<and> conn_is (rview q) c b}" by (rule card_mono [OF fin]) (use s(3) in auto)
  finally have "n_out (fold deliver (map snd rs) (q_conn q c)) = n_out (q_conn q c) @ map snd rs"
    using assms(4,5) i(2) by (intro deliver_all [of _ k]) (auto simp: calm_def)
  then have "n_out (q_conn q' c) = n_out (q_conn q c) @ map snd rs" by (subst s(1)) simp
  then show ?thesis using s(2-4) by blast
qed

text \<open>
  Every request is answered (C6). Take any reachable state of a server whose clients have at most 64 requests outstanding (the
  size of the pool), and a run in which the workers and the file server go on as long as they can. It comes to a
  state, and stays there, where both lists are empty, nobody holds a request and no request is in use. On a connection whose transport
  takes a packet for each of its requests, the run has written exactly the packets of a list \<open>rs\<close> that gives each request
  at most one packet. The packet of a Tflush is the Rflush with its tag; that of another
  request is a message the file server made, with the tag of the request set by \<^verbatim>\<open>np_set_tag\<close>. A request
  without a packet waited in the queue at the start, is no Tflush, and is named by a Tflush of the connection that got its Rflush.
\<close>

theorem all_requests_answered:
  assumes "conns_ok cs" "n \<le> 64" "(step n)\<^sup>*\<^sup>* (start cs, {}, {}) (q, B, H)" "f 0 = (q, B, H)"
    "\<forall>i. work (f i) (f (Suc i)) \<or> (f (Suc i) = f i \<and> (\<nexists>c. work (f i) c))"
  shows "\<exists>i q'. f i = (q', {}, {}) \<and> (\<forall>j \<ge> i. f j = f i) \<and> idle (f i) \<and> (\<forall>b. \<not> live (rview q') b) \<and>
    (\<forall>c k. n_trans (q_conn q c) = Some k \<and> card {b. live (rview q) b \<and> conn_is (rview q) c b} \<le> k \<longrightarrow>
      (\<exists>rs. n_out (q_conn q' c) = n_out (q_conn q c) @ map snd rs \<and> distinct (map fst rs) \<and>
        (\<forall>(b, p) \<in> set rs. live (rview q) b \<and> conn_is (rview q) c b \<and> answers (rview q) b p) \<and>
        (\<forall>d. live (rview q) d \<and> conn_is (rview q) c d \<longrightarrow> d \<in> fst ` set rs \<or> flushed_away (rview q) (B \<union> H) (fst ` set rs) d)))"
proof -
  have c0: "conf n (f 0)" using reach_conf [OF assms(3)] assms(1,4) by (simp add: conns_ok_def)
  obtain i where i: "\<nexists>c. work (f i) c" "\<forall>j \<ge> i. f j = f i" using run_stops [OF c0 assms(5)] by blast
  note ci = run_settles(1) [OF c0 assms(5), of i]
  then have id: "idle (f i)" using progress [OF _ assms(2)] i(1) by blast
  then obtain q' where q': "f i = (q', {}, {})" by (cases "f i") (auto simp: idle_def)
  have dead: "\<forall>b. \<not> live (rview q') b" using idle_none_live ci id q' by metis
  have "\<exists>rs. n_out (q_conn q' c) = n_out (q_conn q c) @ map snd rs \<and> distinct (map fst rs) \<and>
        (\<forall>(b, p) \<in> set rs. live (rview q) b \<and> conn_is (rview q) c b \<and> answers (rview q) b p) \<and>
        (\<forall>d. live (rview q) d \<and> conn_is (rview q) c d \<longrightarrow> d \<in> fst ` set rs \<or> flushed_away (rview q) (B \<union> H) (fst ` set rs) d)"
    if "n_trans (q_conn q c) = Some k" "card {b. live (rview q) b \<and> conn_is (rview q) c b} \<le> k" for c k
  proof -
    obtain rs where "settles c (q, B, H) (q', {}, {}) rs" using run_settles(2) [OF c0 assms(5), of c i] assms(4) q' by auto
    from settles_out [OF this c0 [unfolded assms(4)] dead that] show ?thesis by (rule exI)
  qed
  then show ?thesis using i(2) id q' dead by blast
qed

lemma ex5_live: "{b. live (rview ex5) b \<and> conn_is (rview ex5) 0 b} = {0, 1}" "n_trans (q_conn ex5 0) = Some 9"
  by (auto simp: live_def conn_is_def rview_def ex5_def ex_state_def ex_req_def new_req_def req_core_def conns1_def split: if_splits)

theorem all_requests_answered_witness:
  "\<exists>f. conns_ok conns1 \<and> (64 :: nat) \<le> 64 \<and> (step 64)\<^sup>*\<^sup>* (start conns1, {}, {}) (ex5, {0}, {}) \<and> f 0 = (ex5, {0}, {}) \<and>
    (\<forall>i. work (f i) (f (Suc i)) \<or> (f (Suc i) = f i \<and> (\<nexists>c. work (f i) c))) \<and>
    n_trans (q_conn ex5 0) = Some 9 \<and> card {b. live (rview ex5) b \<and> conn_is (rview ex5) 0 b} \<le> 9 \<and>
    (\<exists>i q' rs. f i = (q', {}, {}) \<and> idle (f i) \<and> n_out (q_conn q' 0) = n_out (q_conn ex5 0) @ map snd rs \<and>
      (\<forall>(b, p) \<in> set rs. answers (rview ex5) b p) \<and>
      (\<forall>d \<in> {0, 1}. d \<in> fst ` set rs \<or> flushed_away (rview ex5) ({0} \<union> {}) (fst ` set rs) d))"
proof -
  define f where "f = rec_nat (ex5, {0}, {}) (\<lambda>_ c. if \<exists>c'. work c c' then SOME c'. work c c' else c)"
  have f: "f 0 = (ex5, {0}, {})" "f (Suc i) = (if \<exists>c'. work (f i) c' then SOME c'. work (f i) c' else f i)" for i
    by (simp_all add: f_def)
  have run: "\<forall>i. work (f i) (f (Suc i)) \<or> (f (Suc i) = f i \<and> (\<nexists>c. work (f i) c))" by (auto simp: f(2) intro: someI)
  have card: "card {b. live (rview ex5) b \<and> conn_is (rview ex5) 0 b} \<le> 9" by (simp add: ex5_live(1))
  obtain i q' rs where r: "f i = (q', {}, {})" "idle (f i)" "n_out (q_conn q' 0) = n_out (q_conn ex5 0) @ map snd rs"
      "\<forall>(b, p) \<in> set rs. live (rview ex5) b \<and> conn_is (rview ex5) 0 b \<and> answers (rview ex5) b p"
      "\<forall>d. live (rview ex5) d \<and> conn_is (rview ex5) 0 d \<longrightarrow> d \<in> fst ` set rs \<or> flushed_away (rview ex5) ({0} \<union> {}) (fst ` set rs) d"
    using all_requests_answered [OF conns1_ok order_refl ex_reach f(1) run] ex5_live(2) card by meson
  moreover have "\<forall>d \<in> {0, 1}. d \<in> fst ` set rs \<or> flushed_away (rview ex5) ({0} \<union> {}) (fst ` set rs) d"
    using r(5) ex5_live(1) by blast
  moreover have "\<forall>(b, p) \<in> set rs. answers (rview ex5) b p" using r(4) by blast
  ultimately show ?thesis using conns1_ok ex_reach f(1) run ex5_live(2) card by (intro exI [of _ f]) blast
qed

end
