(* ===== verification/Reqs_Order.thy ===== *)
theory Reqs_Order
  imports Reqs_Live
begin

text \<open>
  The order of requests and replies: the queue is first in, first out; the answer to a request comes before the
  answers to the flushes of it; a flushed pending request is not answered. And two ways in which
  flushing goes wrong: a flush of itself, and more flushes than the pool of requests has room for.
\<close>

subsection \<open>The queue\<close>

fun receive_all :: "(nat \<times> Npfcall) list \<Rightarrow> qact" where
  "receive_all [] q = Some q"
| "receive_all ((c, tc) # ms) q = do { q \<leftarrow> receive c tc q; receive_all ms q }"

fun take_all :: "nat \<Rightarrow> srvreqs \<Rightarrow> (addr list \<times> srvreqs) option" where
  "take_all 0 q = Some ([], q)"
| "take_all (Suc n) q =
     do { (p, q) \<leftarrow> take_req q; a \<leftarrow> p; (as, q) \<leftarrow> take_all n q; Some (a # as, q) }"

definition message :: "srvreqs \<Rightarrow> addr \<Rightarrow> nat \<times> Npfcall" where
  "message q a = (r_conn (the (rview q a)), the (r_tcall (the (rview q a))))"

lemma receive_all_queue:
  assumes "qinv q ps ws gs" "\<forall>(c, tc) \<in> set ms. 0 < n_refcount (q_conn q c) \<and> \<not> n_resetting (q_conn q c)"
  shows "\<exists>q' as. receive_all ms q = Some q' \<and> qinv q' (ps @ as) ws gs \<and> map (message q') as = ms \<and>
    (\<forall>b \<in> set (ps @ ws). rview q' b = rview q b)"
  using assms
proof (induction ms arbitrary: q ps)
  case (Cons m ms)
  obtain c tc where m: "m = (c, tc)" by (cases m)
  then have live: "0 < n_refcount (q_conn q c)" "\<not> n_resetting (q_conn q c)" using Cons.prems(2) by auto
  obtain q1 a where q1: "receive c tc q = Some q1" "qinv q1 (ps @ [a]) ws gs" "rview q1 = (rview q)(a \<mapsto> new_req c tc)"
      "a \<notin> set (ps @ ws)" "\<And>d. n_resetting (q_conn q1 d) = n_resetting (q_conn q d)" "\<And>d. n_refcount (q_conn q d) \<le> n_refcount (q_conn q1 d)"
    using receive_inv [OF Cons.prems(1) live, of tc] by blast
  have "\<forall>(c, tc) \<in> set ms. 0 < n_refcount (q_conn q1 c) \<and> \<not> n_resetting (q_conn q1 c)"
    using Cons.prems(2) q1(5,6) by (auto dest: bspec intro: less_le_trans)
  from Cons.IH [OF q1(2) this] obtain q2 as where q2: "receive_all ms q1 = Some q2" "qinv q2 ((ps @ [a]) @ as) ws gs"
      "map (message q2) as = ms" "\<forall>b \<in> set ((ps @ [a]) @ ws). rview q2 b = rview q1 b" by blast
  have "message q2 a = (c, tc)" using q2(4) q1(3) by (simp add: message_def new_req_def)
  moreover have "rview q2 b = rview q b" if "b \<in> set (ps @ ws)" for b using that q1(3,4) q2(4) by auto
  ultimately show ?case using q1(1) q2(1-3) m by (intro exI [of _ q2] exI [of _ "a # as"]) simp
qed auto

lemma take_all_queue:
  "qinv q (as @ ps) ws gs \<Longrightarrow> \<exists>q' gs'. take_all (length as) q = Some (as, q') \<and> qinv q' ps (rev as @ ws) gs' \<and> rview q' = rview q"
proof (induction as arbitrary: q ws gs)
  case (Cons a as)
  then obtain q1 where q1: "take_req q = Some (Some a, q1)" "qinv q1 (as @ ps) (a # ws) ([a] # gs)" "rview q1 = rview q"
    using take_inv [of q a "as @ ps" ws gs] by auto
  show ?case using Cons.IH [OF q1(2)] q1(1,3) by auto
qed auto

lemma take_all_add:
  "take_all (m + n) q = do { (as, q) \<leftarrow> take_all m q; (bs, q) \<leftarrow> take_all n q; Some (as @ bs, q) }"
  by (induction m arbitrary: q) (auto split: bind_splits simp: bind_eq_None_conv split_beta)

lemma take_all_empty: "q_first q = None \<Longrightarrow> take_all (Suc k) q = None"
  by (simp add: take_req_def)

lemma queue_first: "qinv q ps ws gs \<Longrightarrow> q_first q = None \<longleftrightarrow> ps = []"
  by (cases ps) (auto simp: qinv_def qlists_def)

lemma take_all_whole:
  assumes "qinv q ps ws gs" "take_all k q = Some (as, q')" "q_first q' = None"
  shows "as = ps" "k = length ps"
proof -
  obtain q1 gs1 where q1: "take_all (length ps) q = Some (ps, q1)" "qinv q1 [] (rev ps @ ws) gs1"
    using take_all_queue [of q ps "[]" ws gs] assms(1) by auto
  show k: "k = length ps"
  proof (rule ccontr)
    assume "k \<noteq> length ps"
    then consider j where "k = length ps + Suc j" | "k < length ps" by (metis less_natE nat_neq_iff add_Suc_right)
    then show False
    proof cases
      case 1
      have "take_all (Suc j) q1 = None" using queue_first [OF q1(2)] by (intro take_all_empty) simp
      then have "take_all k q = None" unfolding 1 take_all_add by (simp add: q1(1) del: take_all.simps)
      then show False using assms(2) by simp
    next
      case 2
      then have "length (take k ps) = k" by simp
      then obtain q2 gs2 where "take_all k q = Some (take k ps, q2)" "qinv q2 (drop k ps) (rev (take k ps) @ ws) gs2"
        using take_all_queue [of q "take k ps" "drop k ps"] assms(1) by (metis append_take_drop_id)
      then show False using assms(2,3) 2 queue_first by fastforce
    qed
  qed
  show "as = ps" using k q1(1) assms(2) by simp
qed

text \<open>
  The queue is first in, first out (C20). Take any reachable state and let \<open>ps\<close> be the requests the workers would
  take from its queue until it is empty. If the messages \<open>ms\<close> arrive first, the workers take the
  requests \<open>ps\<close> and then one request for each message of \<open>ms\<close>, in the order of arrival and with
  its connection and message.
\<close>

theorem queue_fifo:
  assumes "conns_ok cs" "(step n)\<^sup>*\<^sup>* (start cs, {}, {}) (q, B, H)" "take_all k q = Some (ps, q0)" "q_first q0 = None"
    "\<forall>(c, tc) \<in> set ms. 0 < n_refcount (q_conn q c)"
  shows "\<exists>q1 as q2. receive_all ms q = Some q1 \<and> take_all (k + length ms) q1 = Some (ps @ as, q2) \<and>
    map (message q2) as = ms \<and> q_first q2 = None"
proof -
  obtain qs ws gs where i: "qinv q qs ws gs" "calm q"
    using reach_conf [OF assms(2)] assms(1) by (auto simp: conns_ok_def conf_def)
  note ps = take_all_whole [OF i(1) assms(3,4)]
  have "\<forall>(c, tc) \<in> set ms. 0 < n_refcount (q_conn q c) \<and> \<not> n_resetting (q_conn q c)" using assms(5) i(2) by (auto simp: calm_def)
  from receive_all_queue [OF i(1) this] obtain q1 as where q1: "receive_all ms q = Some q1" "qinv q1 ((qs @ as) @ []) ws gs" "map (message q1) as = ms"
    by auto
  obtain q2 gs' where q2: "take_all (length (qs @ as)) q1 = Some (qs @ as, q2)" "qinv q2 [] (rev (qs @ as) @ ws) gs'" "rview q2 = rview q1"
    using take_all_queue [OF q1(2)] by blast
  have "length as = length ms" using q1(3) by auto
  moreover have "message q2 = message q1" using q2(3) by (auto simp: message_def)
  ultimately show ?thesis using q1(1,3) q2(1) queue_first [OF q2(2)] ps by auto
qed

theorem queue_fifo_witness:
  "conns_ok conns1 \<and> (step 64)\<^sup>*\<^sup>* (start conns1, {}, {}) (ex5, {0}, {}) \<and> take_all 0 ex5 = Some ([], ex5) \<and> q_first ex5 = None \<and>
    (\<exists>q1 as q2. receive_all [(0, tflush6), (0, tread5)] ex5 = Some q1 \<and>
      take_all (0 + length [(0 :: nat, tflush6), (0, tread5)]) q1 = Some ([] @ as, q2) \<and>
      map (message q2) as = [(0, tflush6), (0, tread5)] \<and> q_first q2 = None)"
proof -
  have e: "take_all 0 ex5 = Some ([], ex5)" "q_first ex5 = None" "\<forall>(c, tc) \<in> set [(0, tflush6), (0, tread5)]. 0 < n_refcount (q_conn ex5 c)"
    by (simp_all add: ex5_def ex_state_def)
  show ?thesis using queue_fifo [OF conns1_ok ex_reach e] conns1_ok ex_reach e(1,2) by blast
qed

subsection \<open>The order of the answers\<close>

text \<open>
  Replies and the answers to flushes (C21). When a request that a worker or the file server holds is responded to
  with the message \<open>m\<close>, the connection gets \<open>m\<close> with the tag of the request and then an Rflush for each
  flush request that waits for it, in the order of the chain of flush requests, and nothing else;
  no other connection gets anything; the request and its flushes are not in use any more, so
  they are not answered twice.
\<close>

theorem reply_then_rflushes:
  assumes "conns_ok cs" "n \<le> 64" "(step n)\<^sup>*\<^sup>* (start cs, {}, {}) (q, B, H)" "a \<in> B \<union> H" "rview q a = Some r"
    "chain r_flushreq (rview q) (r_flushreq r) fs" "np_set_tag m (r_tag r) = Some m'" "n_trans (q_conn q (r_conn r)) = Some k" "length fs < k"
  shows "\<exists>q'. np_respond a (Some m) q = Some q' \<and>
    n_out (q_conn q' (r_conn r)) = n_out (q_conn q (r_conn r)) @ take (unat (fc_size m')) (fc_pkt m') #
      map (\<lambda>f. wire Rflush (tag_of (rview q) f) []) fs \<and>
    (\<forall>c. c \<noteq> r_conn r \<longrightarrow> q_conn q' c = q_conn q c) \<and> (\<forall>f \<in> set (a # fs). \<not> live (rview q') f)"
proof -
  obtain ps ws gs where i: "qinv q ps ws gs" "cinv (rview q) B H ps ws gs" "load q ps ws \<le> int n" "calm q"
    using reach_conf [OF assms(3)] assms(1) by (auto simp: conns_ok_def conf_def)
  obtain fs' c where g: "a # fs' \<in> set gs" and c: "conn_is (rview q) c a" by (rule held_group [OF i(1,2) assms(4)])
  have gs: "groups (rview q) ws gs" using i(1) by (simp add: qinv_def)
  have "chain r_flushreq (rview q) (r_flushreq r) fs'" using groups_remove(4) [OF gs g] assms(5) by (auto simp: group_def)
  then have fs: "fs' = fs" using chain_unique assms(6) by blast
  have cr: "c = r_conn r" using c assms(5) by (simp add: conn_is_def)
  have m: "np_set_tag m (r_tag (the (rview q a))) = Some m'" using assms(5,7) by simp
  have "q_poolnum q + int (length fs) \<le> 64" using i(3) assms(2) group_length [OF i(1) g] fs by (simp add: load_def)
  then obtain w where w: "np_respond a (Some m) q = Some w" "\<forall>b. b \<in> set (a # fs) \<longrightarrow> \<not> live (rview w) b"
      "q_conn w = (q_conn q)(c := (fold deliver (take (unat (fc_size m')) (fc_pkt m') # flush_packets (rview q) fs) (q_conn q c))
        \<lparr>n_refcount := n_refcount (q_conn q c) - int (length fs) - 1\<rparr>)"
    using respond_inv [OF i(1) g _ m c] fs by blast
  have "n_out (q_conn w c) = n_out (q_conn q c) @ take (unat (fc_size m')) (fc_pkt m') # flush_packets (rview q) fs"
    using w(3) deliver_all [of "q_conn q c" k "take (unat (fc_size m')) (fc_pkt m') # flush_packets (rview q) fs"] assms(8,9) i(4) cr
    by (simp add: calm_def flush_packets_def del: fold_simps)
  then show ?thesis using w cr by (intro exI [of _ w]) (auto simp: flush_packets_def tag_of_def)
qed

abbreviation rmsg :: Npfcall where
  "rmsg \<equiv> npfcall0\<lparr>fc_size := 7, fc_pkt := replicate 7 0\<rparr>"

lemma ex5_views:
  "rview ex5 0 = Some (ex_req tread5 (Some 1) None None)" "rview ex5 1 = Some (ex_req tflush6 None None None)"
  by (simp_all add: rview_def ex5_def ex_state_def ex_req_def new_req_def req_core_def)

theorem reply_then_rflushes_witness:
  "conns_ok conns1 \<and> (64 :: nat) \<le> 64 \<and> (step 64)\<^sup>*\<^sup>* (start conns1, {}, {}) (ex5, {0}, {}) \<and> (0 :: addr) \<in> {0} \<union> {} \<and>
    rview ex5 0 = Some (ex_req tread5 (Some 1) None None) \<and> chain r_flushreq (rview ex5) (Some 1) [1] \<and>
    n_trans (q_conn ex5 0) = Some 9 \<and> length [1 :: addr] < 9 \<and>
    (\<exists>m' q'. np_set_tag rmsg 5 = Some m' \<and> np_respond 0 (Some rmsg) ex5 = Some q' \<and>
      n_out (q_conn q' 0) = n_out (q_conn ex5 0) @ take (unat (fc_size m')) (fc_pkt m') #
        map (\<lambda>f. wire Rflush (tag_of (rview ex5) f) []) [1] \<and>
      (\<forall>c. c \<noteq> 0 \<longrightarrow> q_conn q' c = q_conn ex5 c) \<and> (\<forall>f \<in> set [0, 1]. \<not> live (rview q') f))"
proof -
  let ?r = "ex_req tread5 (Some 1) None None"
  have r: "r_flushreq ?r = Some 1" "r_conn ?r = 0" "r_tag ?r = 5" by (simp_all add: ex_req_def new_req_def)
  have ch: "chain r_flushreq (rview ex5) (r_flushreq ?r) [1]" by (simp add: r ex5_views ex_req_def del: One_nat_def)
  have k: "n_trans (q_conn ex5 (r_conn ?r)) = Some 9" by (simp add: r ex5_def ex_state_def conns1_def)
  obtain m' where m: "np_set_tag rmsg (r_tag ?r) = Some m'" by (simp add: np_set_tag_def)
  have "(0 :: addr) \<in> {0} \<union> {}" "length [1 :: addr] < 9" by simp_all
  then show ?thesis
    using reply_then_rflushes [OF conns1_ok order_refl ex_reach _ ex5_views(1) ch m k] conns1_ok ex_reach ex5_views(1) ch k m unfolding r
    by blast
qed

subsection \<open>Flushing a pending request\<close>

text \<open>
  A flushed pending request is not answered (C22). When the request a Tflush names still waits in the queue,
  \<^verbatim>\<open>np_flush\<close> takes it out and gives its structure back without writing anything to any connection,
  returns the Rflush, and leaves every other request as it is.
\<close>

theorem flush_drops_pending:
  assumes "conns_ok cs" "(step n)\<^sup>*\<^sup>* (start cs, {}, {}) (q, B, H)" "a \<in> B" "rview q a = Some r"
    "find_req (is_req (r_conn r) tag) (q_req q) (q_first q) = Some (Some d)"
  shows "\<exists>q' rc. np_flush fl a tag q = Some (Some rc, q') \<and> take (unat (fc_size rc)) (fc_pkt rc) = wire Rflush NOTAG [] \<and>
    live (rview q) d \<and> \<not> live (rview q') d \<and> (\<forall>b. b \<noteq> d \<longrightarrow> rview q' b = rview q b) \<and>
    (\<forall>c. n_out (q_conn q' c) = n_out (q_conn q c))"
proof -
  obtain ps ws gs where i: "qinv q ps ws gs" "cinv (rview q) B H ps ws gs" "calm q"
    using reach_conf [OF assms(2)] assms(1) by (auto simp: conns_ok_def conf_def)
  obtain pl where l: "qlists q ps ws pl" using i(1) by (rule qinvD)
  have f: "List.find (tagged (rview q) (r_conn r) tag) ps = Some d"
    using find_req_list [of q None "q_first q" ps "r_conn r" tag] l assms(5) by (simp add: qlists_def)
  obtain xs ys where ps: "ps = xs @ d # ys" using find_first [OF f] by blast
  obtain q' rc where "np_flush fl a tag q = Some (Some rc, q')" "rflush NOTAG = Some rc" "\<not> live (rview q') d"
      "\<forall>b. b \<noteq> d \<longrightarrow> rview q' b = rview q b" "\<forall>c. n_out (q_conn q' c) = n_out (q_conn q c)"
    using flush_pending_inv [of q xs d ys ws gs a r "r_conn r" tag fl] i(1,3) assms(4) f ps by (auto simp: calm_def)
  moreover have "live (rview q) d" using i(2) ps unfolding cinv_def by auto
  ultimately show ?thesis using rflush_wire [of NOTAG] by auto
qed

text \<open>An example: the flush arrives before the request it names and is taken while that still waits.\<close>

definition ey1 :: srvreqs where
  "ey1 = ex_state [0 \<mapsto> ex_req tflush6 None None None] (Some 0) (Some 0) None 1"

definition ey2 :: srvreqs where
  "ey2 = ex_state [0 \<mapsto> ex_req tflush6 None (Some 1) None, 1 \<mapsto> ex_req tread5 None None (Some 0)] (Some 0) (Some 1) None 2"

definition ey3 :: srvreqs where
  "ey3 = ex_state [0 \<mapsto> ex_req tflush6 None None None, 1 \<mapsto> ex_req tread5 None None None] (Some 1) (Some 1) (Some 0) 2"

lemmas ey_defs = ey1_def ey2_def ey3_def

lemma ey_run:
  "receive 0 tflush6 (start conns1) = Some ey1" "receive 0 tread5 ey1 = Some ey2" "take_req ey2 = Some (Some 0, ey3)"
  "find_req (is_req 0 5) (q_req ey3) (q_first ey3) = Some (Some 1)"
  by (simp_all add: ey_defs run_simps fun_eq_iff)

lemma ey_views:
  "{b. live (rview ey1) b} = {0}" "rview ey1 0 = Some (ex_req tflush6 None None None)" "rview ey3 0 = Some (ex_req tflush6 None None None)"
  "0 < n_refcount (q_conn ey1 0) \<and> \<not> n_resetting (q_conn ey1 0)"
  by (auto simp: live_def rview_def ey_defs ex_state_def ex_req_def new_req_def req_core_def conns1_def split: if_splits)

lemma ey_reach: "(step 64)\<^sup>*\<^sup>* (start conns1, {}, {}) (ey3, {0}, {})"
proof -
  have "client_new (rview (start conns1)) 0 tflush6" using ex_views(1) by (auto simp: client_new_def npfcall0_def)
  then have "step 64 (start conns1, {}, {}) (ey1, {}, {})"
    using ey_run(1) ex_conns(1) by (intro Recv) (simp_all add: ex_views)
  moreover have "client_new (rview ey1) 0 tread5"
    using ey_views(1,2) by (auto simp: client_new_def set_eq_iff tag_of_def ex_req_def new_req_def npfcall0_def)
  then have "step 64 (ey1, {}, {}) (ey2, {}, {})"
    using ey_run(2) ey_views(4) by (intro Recv) (simp_all add: ey_views)
  moreover have "step 64 (ey2, {}, {}) (ey3, {0}, {})"
    using ey_run(3) by (auto intro!: Work Take)
  ultimately show ?thesis by (meson rtranclp.rtrancl_into_rtrancl rtranclp.rtrancl_refl)
qed

theorem flush_drops_pending_witness:
  "conns_ok conns1 \<and> (step 64)\<^sup>*\<^sup>* (start conns1, {}, {}) (ey3, {0}, {}) \<and> (0 :: addr) \<in> {0} \<and>
    rview ey3 0 = Some (ex_req tflush6 None None None) \<and> find_req (is_req 0 5) (q_req ey3) (q_first ey3) = Some (Some 1) \<and>
    (\<exists>q' rc. np_flush np_default_flush 0 5 ey3 = Some (Some rc, q') \<and> take (unat (fc_size rc)) (fc_pkt rc) = wire Rflush NOTAG [] \<and>
      live (rview ey3) 1 \<and> \<not> live (rview q') 1 \<and> (\<forall>b. b \<noteq> 1 \<longrightarrow> rview q' b = rview ey3 b) \<and>
      (\<forall>c. n_out (q_conn q' c) = n_out (q_conn ey3 c)))"
proof -
  have c: "r_conn (ex_req tflush6 None None None) = 0" by (simp add: ex_req_def new_req_def)
  have "(0 :: addr) \<in> {0}" by simp
  then show ?thesis
    using flush_drops_pending [OF conns1_ok ey_reach _ ey_views(3), of 5 1 np_default_flush] conns1_ok ey_reach ey_views(3) ey_run(4)
    unfolding c by blast
qed

subsection \<open>Where flushing goes wrong\<close>

text \<open>The loop over the flush requests does not end when a request is its own flush request.\<close>

lemma remove_workreq_flushreq:
  assumes "np_srv_remove_workreq b q = Some q'"
  shows "map_option r_flushreq (q_req q' a) = map_option r_flushreq (q_req q a)"
proof -
  have upd: "map_option r_flushreq (h' a) = map_option r_flushreq (h a)"
    if "heap_upd_opt h p f = Some h'" "\<And>r. r_flushreq (f r) = r_flushreq r" for h h' p and f :: "Npreq \<Rightarrow> Npreq"
    using that by (cases p) (auto simp: heap_upd_def split: option.splits)
  show ?thesis
    using assms upd by (auto simp: np_srv_remove_workreq_def unlink_def set_r_next_def set_r_prev_def split: bind_splits)
qed

lemma remove_flushreqs_loop:
  assumes "remove_flushreqs p q = Some q'"
  shows "p = Some a \<longrightarrow> map_option r_flushreq (q_req q a) \<noteq> Some (Some a)"
proof (rule remove_flushreqs.raw_induct [OF _ assms])
  fix f p q q'
  assume IH: "\<And>p q q'. f p q = Some q' \<Longrightarrow> p = Some a \<longrightarrow> map_option r_flushreq (q_req q a) \<noteq> Some (Some a)"
    and run: "(case p of None \<Rightarrow> Some q
      | Some b \<Rightarrow> np_srv_remove_workreq b q \<bind> (\<lambda>q. q_req q b \<bind> (\<lambda>r. f (r_flushreq r) q))) = Some q'"
  show "p = Some a \<longrightarrow> map_option r_flushreq (q_req q a) \<noteq> Some (Some a)"
  proof (intro impI notI)
    assume p: "p = Some a" and loop: "map_option r_flushreq (q_req q a) = Some (Some a)"
    obtain q1 r where q1: "np_srv_remove_workreq a q = Some q1" "q_req q1 a = Some r" "f (r_flushreq r) q1 = Some q'"
      using run p by (auto simp: bind_eq_Some_conv)
    have "r_flushreq r = Some a" using remove_workreq_flushreq [OF q1(1), of a] loop q1(2) by simp
    then show False using IH [OF q1(3)] remove_workreq_flushreq [OF q1(1), of a] loop by simp
  qed
qed

text \<open>
  A Tflush of itself hangs (C38). When a Tflush carries its own tag as oldtag and no pending request has that tag,
  \<^verbatim>\<open>np_flush\<close> finds the flush request itself among the requests worked on and makes it wait for
  itself: there is no reply, and every later \<^verbatim>\<open>np_respond\<close> of the request runs around the loop over the
  flush requests for ever.
\<close>

theorem self_flush_hangs:
  assumes "q_req q a = Some r" "r_refcount r > 0" "\<not> r_responded r"
    "find_req (is_req (r_conn r) tag) (q_req q) (q_first q) = Some None"
    "find_req (is_req (r_conn r) tag) (q_req q) (q_work q) = Some (Some a)"
  shows "\<exists>q'. np_flush np_default_flush a tag q = Some (None, q') \<and> q_conn q' = q_conn q \<and> (\<forall>rc. np_respond a rc q' = None)"
proof -
  let ?r = "r\<lparr>r_flushreq := Some a\<rparr>" and ?q = "q\<lparr>q_req := (q_req q)(a \<mapsto> r\<lparr>r_flushreq := Some a\<rparr>)\<rparr>"
  have "np_flush np_default_flush a tag q = Some (None, ?q)"
    using assms by (simp add: np_flush_def np_req_ref_def req_upd_def heap_upd_def np_default_flush_def np_req_unref_def)
  moreover have "np_respond a rc ?q = None" for rc
  proof -
    have "remove_flushreqs (Some a) q2 = None" if "np_srv_remove_workreq a q1 = Some q2" "map_option r_flushreq (q_req q1 a) = Some (Some a)" for q1 q2
      using remove_flushreqs_loop [of "Some a" q2 _ a] remove_workreq_flushreq [OF that(1), of a] that(2) by (cases "remove_flushreqs (Some a) q2") auto
    then show ?thesis
      using assms(3) by (auto simp: np_respond_def req_upd_def heap_upd_def split: bind_splits) 
  qed
  ultimately show ?thesis by auto
qed

abbreviation tflush_self :: Npfcall where
  "tflush_self \<equiv> npfcall0\<lparr>fc_type := Tflush, fc_tag := 6, fc_oldtag := 6\<rparr>"

definition ez :: srvreqs where
  "ez = ex_state [0 \<mapsto> ex_req tflush_self None None None] None None (Some 0) 1"

theorem self_flush_hangs_witness:
  "receive 0 tflush_self (start conns1) \<bind> take_req = Some (Some 0, ez) \<and>
    q_req ez 0 = Some (ex_req tflush_self None None None) \<and>
    (\<exists>q'. np_flush np_default_flush 0 6 ez = Some (None, q') \<and> q_conn q' = q_conn ez \<and> (\<forall>rc. np_respond 0 rc q' = None))"
proof -
  let ?r = "ex_req tflush_self None None None"
  have r: "r_conn ?r = 0" "r_refcount ?r > 0" "\<not> r_responded ?r" by (simp_all add: ex_req_def new_req_def)
  have e: "q_req ez 0 = Some ?r" by (simp add: ez_def ex_state_def)
  moreover have "receive 0 tflush_self (start conns1) \<bind> take_req = Some (Some 0, ez)"
    by (simp add: ez_def run_simps fun_eq_iff)
  moreover have "find_req (is_req 0 6) (q_req ez) (q_first ez) = Some None" "find_req (is_req 0 6) (q_req ez) (q_work ez) = Some (Some 0)"
    by (simp_all add: ez_def run_simps)
  ultimately show ?thesis using self_flush_hangs [OF e r(2,3)] unfolding r(1) by blast
qed

text \<open>
  More flushes than the pool has room for (C39). \<^verbatim>\<open>np_respond\<close> reads the link to the next flush request after it gave the
  current one back. As long as the pool of requests takes the structure this is its old value;
  once there are 64 in the pool the structure is freed and the server reads freed memory. So
  whenever the pool and the waiting flushes are more than 64, responding to the request is undefined.
\<close>

theorem flushes_overflow_pool:
  assumes "qinv q ps ws gs" "a # fs \<in> set gs" "64 < q_poolnum q + int (length fs)" "7 \<le> length (fc_pkt m)"
  shows "np_respond a (Some m) q = None"
proof -
  have gs: "groups (rview q) ws gs" using assms(1) by (simp add: qinv_def)
  obtain c where "conn_is (rview q) c a" using groups_remove(4) [OF gs assms(2)] by (auto simp: group_def)
  then show ?thesis using respond_full [OF assms(1-3)] set_tag_defined [OF assms(4)] by blast
qed

definition full_req :: "addr \<Rightarrow> Npreq" where
  "full_req b = (new_req 0 tread5)\<lparr>r_refcount := 0, r_tcall := None, r_next := (if b = 65 then None else Some (b + 1))\<rparr>"

definition full_state :: srvreqs where
  "full_state = ex5\<lparr>q_req := (\<lambda>b. if 2 \<le> b \<and> b < 66 then Some (full_req b) else q_req ex5 b), q_pool := Some 2, q_poolnum := 64,
     q_brk := 66\<rparr>"

lemma full_chain: "i \<le> 65 \<Longrightarrow> 2 \<le> i \<Longrightarrow> chain r_next (q_req full_state) (Some i) [i..<66]"
proof (induction i rule: inc_induct)
  case base
  then show ?case by (simp add: full_state_def full_req_def upt_rec [of 65])
next
  case (step i)
  then show ?case using upt_conv_Cons [of i 66] by (auto simp: full_state_def full_req_def)
qed

lemma full_state_inv: "qinv full_state [] [1, 0] [[0, 1]]"
proof (rule qinvI [of _ _ _ "[2..<66]"])
  have h: "q_req full_state 0 = q_req ex5 0" "q_req full_state (Suc 0) = q_req ex5 (Suc 0)" by (simp_all add: full_state_def)
  show "qlists full_state [] [1, 0] [2..<66]"
    using full_chain [of 2] h by (auto simp: qlists_def full_state_def ex5_def ex_state_def ex_req_def lastp_def)
  have v: "rview full_state 0 = Some (ex_req tread5 (Some 1) None None)" "rview full_state (Suc 0) = Some (ex_req tflush6 None None None)"
    using ex5_views h by (simp_all add: rview_def)
  then show "groups (rview full_state) [1, 0] [[0, 1]]" by (auto simp: groups_def group_def conn_is_def ex_req_def new_req_def)
  show "\<exists>r. rview full_state a = Some r \<and> idle_req r \<and> (a \<in> set [] \<longrightarrow> r_flushreq r = None)" if "a \<in> set ([] @ [1, 0])" for a
    using that v by (auto simp: idle_req_def ex_req_def new_req_def)
  show "int (length (filter (conn_is (rview full_state) c) ([] @ [1, 0]))) \<le> n_refcount (q_conn full_state c)" for c
    using v by (auto simp: conn_is_def ex_req_def new_req_def full_state_def ex5_def ex_state_def conns1_def)
qed simp

theorem flushes_overflow_pool_witness:
  "qinv full_state [] [1, 0] [[0, 1]] \<and> [0, 1] \<in> set [[0 :: addr, 1]] \<and> 64 < q_poolnum full_state + int (length [1 :: addr]) \<and>
    7 \<le> length (fc_pkt rmsg) \<and> np_respond 0 (Some rmsg) full_state = None"
proof -
  have "[0, 1] \<in> set [[0 :: addr, 1]]" "64 < q_poolnum full_state + int (length [1 :: addr])" "7 \<le> length (fc_pkt rmsg)"
    by (simp_all add: full_state_def)
  then show ?thesis using full_state_inv flushes_overflow_pool [OF full_state_inv] by blast
qed

end
