(* ===== verification/Conn.thy ===== *)
theory Conn
  imports Reqs_Order
begin

text \<open>
  The loop of the reader of a connection, \<^verbatim>\<open>np_conn_read_proc\<close> of \<^verbatim>\<open>libnpfs/conn.c\<close>: it collects what the transport delivers in a
  buffer of \<open>msize\<close> bytes, cuts it into messages and queues a request for each. The transport is the list
  of the byte blocks it delivers; a read for \<open>k\<close> bytes gets at most \<open>k\<close> bytes of the first block, and
  nothing at the end of the input, on an empty block (an error) or for \<open>k = 0\<close>. What the reader does before and after the
  loop is in \<open>Conn_Close\<close>.

  An operation is \<open>None\<close> where the C code is undefined: the parser reads past the bytes received, or a
  negative message size moves memory in front of the buffer.
\<close>

fun trans_read :: "nat \<Rightarrow> bytes list \<Rightarrow> bytes \<times> bytes list" where
  "trans_read k [] = ([], [])"
| "trans_read k (c # cs) = (take k c, if length c \<le> k then cs else drop k c # cs)"

text \<open>The size a packet starts with, as a signed number.\<close>

definition msg_size :: "bytes \<Rightarrow> int" where
  "msg_size buf = sint (pkt_size buf)"

text \<open>
  The loop at \<^verbatim>\<open>again\<close>. \<open>Inr\<close> is the rest that waits for more input, \<open>Inl\<close> means that the parser refused
  a message. \<open>fc0\<close> is what a fresh \<^verbatim>\<open>Npfcall\<close> holds.
\<close>

function again :: "nat \<Rightarrow> bool \<Rightarrow> Npfcall \<Rightarrow> bytes \<Rightarrow> srvreqs \<Rightarrow> ((unit + bytes) \<times> srvreqs) option" where
  "again c dotu fc0 buf q =
     (if length buf < 4 then Some (Inr buf, q)
      else if int (length buf) < msg_size buf then Some (Inr buf, q)
      else
        (case np_deserialize fc0 buf dotu of
           (r, fc, fault) \<Rightarrow>
             if fault then None
             else if r = 0 then Some (Inl (), q)
             else if msg_size buf \<le> 0 then None
             else
               do { q \<leftarrow> receive c fc q;
                    let rest = drop (nat (msg_size buf)) buf;
                    if 0 < length rest then again c dotu fc0 rest q else Some (Inr [], q) }))"
  by pat_completeness auto

termination
  by (relation "measure (\<lambda>(c, dotu, fc0, buf, q). length buf)") auto

lemma trans_read_bytes:
  "trans_read k cs = (d, cs') \<Longrightarrow> d \<noteq> [] \<Longrightarrow> concat cs = d @ concat cs' \<and> length d \<le> k"
  by (cases cs) (auto split: if_splits)

text \<open>
  The outer loop. While a reset is under way the reader waits for its end and drops all input. The loop ends
  when there is no transport any more, when a read delivers nothing, and when a message is refused.
\<close>

function np_conn_read :: "nat \<Rightarrow> nat \<Rightarrow> bool \<Rightarrow> Npfcall \<Rightarrow> bytes \<Rightarrow> bytes list \<Rightarrow> qact" where
  "np_conn_read c msize dotu fc0 buf input q =
     (if n_trans (q_conn q c) = None then Some q
      else
        (case trans_read (msize - length buf) input of
           (d, input') \<Rightarrow>
             if d = [] then Some q
             else
               do { (r, q) \<leftarrow> again c dotu fc0 (if n_resetting (q_conn q c) then [] else buf @ d) q;
                    (case r of Inl _ \<Rightarrow> Some q | Inr buf \<Rightarrow> np_conn_read c msize dotu fc0 buf input' q) }))"
  by pat_completeness auto

termination
proof (relation "measure (\<lambda>(c, msize, dotu, fc0, buf, input, q). length (concat input))")
qed (auto dest!: trans_read_bytes [OF sym])

declare again.simps [simp del] np_conn_read.simps [simp del]

subsection \<open>Cutting the input into messages\<close>

definition fits_msize :: "nat \<Rightarrow> bool \<Rightarrow> u16 \<times> msg \<Rightarrow> bool" where
  "fits_msize msize dotu = (\<lambda>(tag, m). msg_ok m \<and> 7 + length (msg_body dotu m) \<le> msize)"

definition parsed :: "bool \<Rightarrow> u16 \<times> msg \<Rightarrow> Npfcall \<Rightarrow> bool" where
  "parsed dotu = (\<lambda>(tag, m) fc. fc_type fc = msg_type m \<and> fc_tag fc = tag \<and> msg_carries dotu m fc)"

lemma wire_nonempty [simp]: "wire ty tag body \<noteq> []"
  by (simp add: wire_def enc32_def)

definition reading :: "nat \<Rightarrow> srvreqs \<Rightarrow> bool" where
  "reading c q \<longleftrightarrow> (\<exists>ps ws gs. qinv q ps ws gs) \<and> 0 < n_refcount (q_conn q c) \<and> \<not> n_resetting (q_conn q c) \<and> n_trans (q_conn q c) \<noteq> None"

lemma receive_trans: "receive c tc q = Some q' \<Longrightarrow> \<not> n_resetting (q_conn q c) \<Longrightarrow> n_trans (q_conn q' d) = n_trans (q_conn q d)"
  by (auto simp: receive_def np_req_alloc_def np_conn_incref_def conn_upd_def np_srv_add_req_def
      split: option.splits bind_splits if_splits)

lemma receive_reading:
  assumes "reading c q"
  shows "\<exists>q'. receive c tc q = Some q' \<and> reading c q'"
proof -
  obtain ps ws gs where i: "qinv q ps ws gs" "0 < n_refcount (q_conn q c)" "\<not> n_resetting (q_conn q c)" "n_trans (q_conn q c) \<noteq> None"
    using assms by (auto simp: reading_def)
  obtain q' a where q': "receive c tc q = Some q'" "qinv q' (ps @ [a]) ws gs"
      "n_resetting (q_conn q' c) = n_resetting (q_conn q c)" "n_refcount (q_conn q c) \<le> n_refcount (q_conn q' c)"
    using receive_inv [OF i(1-3), of tc] by blast
  then have "reading c q'" using i receive_trans [OF q'(1) i(3), of c] unfolding reading_def by auto
  with q'(1) show ?thesis by blast
qed

lemma pkt_size_prefix:
  assumes "buf @ rest = wire ty tag body @ post" "4 \<le> length buf"
  shows "pkt_size buf = of_nat (7 + length body)"
proof -
  let ?n = "of_nat (7 + length body) :: u32"
  have "take 4 (buf @ rest) = enc32 ?n" unfolding assms(1) by (simp add: wire_def)
  then have "take 4 buf = enc32 ?n" using assms(2) by simp
  then have buf: "buf = [] @ enc32 ?n @ drop 4 buf" by (metis append_Nil append_take_drop_id)
  have "buf_init buf 0 4 = cbf [] (enc32 ?n @ []) (drop 4 buf) 0"
    by (subst buf, subst cbf_buf_init) simp_all
  then have "buf_get_int32 (buf_init buf 0 4) = (?n, cbf (enc32 ?n) [] (drop 4 buf) 0)"
    by (simp only: i32.get_enc) simp
  then show ?thesis by (simp add: pkt_size_def)
qed

lemma msg_size_prefix:
  assumes "buf @ rest = wire ty tag body @ post" "4 \<le> length buf" "7 + length body < 2 ^ 31"
  shows "msg_size buf = int (7 + length body)"
  unfolding msg_size_def pkt_size_prefix [OF assms(1,2)] by (rule sint_of_nat_u32 [OF assms(3)])

lemma msg_size_front:
  assumes "4 \<le> length buf" "buf' = buf @ rest"
  shows "msg_size buf = msg_size buf'"
  using assms by (simp add: msg_size_def pkt_size_def buf_get_int32_def buf_init_def buf_check_size_def cb_load_def cb_in_range_def)

text \<open>Either the buffer ends inside of the first message, or it starts with the whole of it.\<close>

lemma buffer_cases:
  assumes "buf @ rest = p @ post"
  obtains (inside) x where "length buf < length p" "p = buf @ x" | (whole) b where "buf = p @ b" "b @ rest = post"
proof (cases "length buf < length p")
  case True
  then have "buf = take (length buf) p" using arg_cong [OF assms, of "take (length buf)"] by simp
  then have "p = buf @ drop (length buf) p" by (metis append_take_drop_id)
  with True inside show thesis by blast
next
  case False
  then have "p = take (length p) buf" using arg_cong [OF assms, of "take (length p)"] by simp
  then have b: "buf = p @ drop (length p) buf" by (metis append_take_drop_id)
  then have "drop (length p) buf @ rest = post" using assms by (metis append.assoc same_append_eq)
  with b whole show thesis by blast
qed

definition unfinished :: "bool \<Rightarrow> bytes \<Rightarrow> (u16 \<times> msg) list \<Rightarrow> bool" where
  "unfinished dotu buf ms \<longleftrightarrow> (case ms of [] \<Rightarrow> buf = [] | m # _ \<Rightarrow> length buf < length (packet dotu m))"

lemma again_messages:
  assumes "buf @ rest = concat (map (packet dotu) ms)" "list_all (fits_msize msize dotu) ms" "msize < 2 ^ 31" "reading c q"
  shows "\<exists>ms1 ms2 fcs buf' q'. ms = ms1 @ ms2 \<and> again c dotu fc0 buf q = Some (Inr buf', q') \<and>
    receive_all (map (Pair c) fcs) q = Some q' \<and> list_all2 (parsed dotu) ms1 fcs \<and> reading c q' \<and>
    buf' @ rest = concat (map (packet dotu) ms2) \<and> unfinished dotu buf' ms2"
  using assms
proof (induction ms arbitrary: buf q)
  case Nil
  then show ?case by (intro exI [of _ "[]"] exI [of _ buf] exI [of _ q]) (auto simp: again.simps unfinished_def)
next
  case (Cons tm ms)
  obtain tag m where tm: "tm = (tag, m)" by (cases tm)
  have ok: "msg_ok m" "7 + length (msg_body dotu m) < 2 ^ 31" using Cons.prems(2,3) tm by (auto simp: fits_msize_def)
  have eq: "buf @ rest = wire (msg_type m) tag (msg_body dotu m) @ concat (map (packet dotu) ms)" using Cons.prems(1) tm by simp
  show ?case
  proof (rule buffer_cases [OF eq])
    fix x assume inside: "length buf < length (wire (msg_type m) tag (msg_body dotu m))" "wire (msg_type m) tag (msg_body dotu m) = buf @ x"
    have "length buf < 7 + length (msg_body dotu m)" using inside(1) by simp
    then have "again c dotu fc0 buf q = Some (Inr buf, q)"
      using msg_size_prefix [OF eq _ ok(2)] by (auto simp: again.simps [of c dotu fc0 buf])
    then show ?thesis using Cons.prems inside tm
      by (intro exI [of _ "[]"] exI [of _ "tm # ms"] exI [of _ buf] exI [of _ q]) (auto simp: unfinished_def)
  next
    fix b assume whole: "buf = wire (msg_type m) tag (msg_body dotu m) @ b" "b @ rest = concat (map (packet dotu) ms)"
    then have len: "length buf = 7 + length (msg_body dotu m) + length b" by simp
    have size: "msg_size buf = int (7 + length (msg_body dotu m))" using len by (intro msg_size_prefix [OF eq _ ok(2)]) simp
    obtain fc where fc: "np_deserialize fc0 buf dotu = (int (7 + length (msg_body dotu m)), fc, False)" "parsed dotu tm fc"
      using m9p.deserialize_wire [OF ok, of fc0 tag b] whole(1) tm by (auto simp: parsed_def)
    obtain q1 where q1: "receive c fc q = Some q1" "reading c q1" using receive_reading [OF Cons.prems(4)] by blast
    have "nat (msg_size buf) = length (wire (msg_type m) tag (msg_body dotu m))" using size by simp
    then have drop: "drop (nat (msg_size buf)) buf = b" using whole(1) by simp
    have run: "again c dotu fc0 buf q = (if b \<noteq> [] then again c dotu fc0 b q1 else Some (Inr [], q1))"
      using len size fc(1) q1(1) drop by (subst again.simps) simp
    also have "\<dots> = again c dotu fc0 b q1" by (simp add: again.simps)
    finally have run: "again c dotu fc0 buf q = again c dotu fc0 b q1" .
    obtain ms1 ms2 fcs buf' q' where r: "ms = ms1 @ ms2" "again c dotu fc0 b q1 = Some (Inr buf', q')"
        "receive_all (map (Pair c) fcs) q1 = Some q'" "list_all2 (parsed dotu) ms1 fcs" "reading c q'"
        "buf' @ rest = concat (map (packet dotu) ms2)" "unfinished dotu buf' ms2"
      using Cons.IH [OF whole(2) _ Cons.prems(3) q1(2)] Cons.prems(2) by auto
    show ?thesis
      by (intro exI [of _ "tm # ms1"] exI [of _ ms2] exI [of _ "fc # fcs"] exI [of _ buf'] exI [of _ q'])
        (use r run q1(1) fc(2) in simp)
  qed
qed

lemma receive_all_append:
  "receive_all (xs @ ys) q = receive_all xs q \<bind> receive_all ys"
  by (induction xs q rule: receive_all.induct) (auto split: bind_splits)

lemma trans_read_blocks:
  assumes "trans_read k cs = (d, cs')" "[] \<notin> set cs"
  shows "[] \<notin> set cs'" "d = [] \<longleftrightarrow> cs = [] \<or> k = 0"
proof -
  consider "cs = []" "d = []" "cs' = []" | c r where "cs = c # r" "c \<noteq> []" "d = take k c" "cs' = (if length c \<le> k then r else drop k c # r)"
    using assms by (cases cs) auto
  then show "[] \<notin> set cs'" "d = [] \<longleftrightarrow> cs = [] \<or> k = 0" using assms(2) by (cases; auto)+
qed

lemma np_conn_read_block:
  assumes "reading c q" "trans_read (msize - length buf) input = (d, input')"
  shows "np_conn_read c msize dotu fc0 buf input q =
    (if d = [] then Some q
     else do { (r, q) \<leftarrow> again c dotu fc0 (buf @ d) q;
               (case r of Inl _ \<Rightarrow> Some q | Inr buf \<Rightarrow> np_conn_read c msize dotu fc0 buf input' q) })"
  using assms unfolding reading_def by (subst np_conn_read.simps) auto

lemma np_conn_read_messages:
  assumes "buf @ concat input = concat (map (packet dotu) ms)" "unfinished dotu buf ms" "[] \<notin> set input"
    "list_all (fits_msize msize dotu) ms" "msize < 2 ^ 31" "reading c q"
  shows "\<exists>fcs q'. np_conn_read c msize dotu fc0 buf input q = Some q' \<and> receive_all (map (Pair c) fcs) q = Some q' \<and>
    list_all2 (parsed dotu) ms fcs"
  using assms
proof (induction "length (concat input)" arbitrary: buf input ms q rule: less_induct)
  case less
  obtain d input' where d: "trans_read (msize - length buf) input = (d, input')" by fastforce
  note blocks = trans_read_blocks [OF d less.prems(3)]
  show ?case
  proof (cases "d = []")
    case True
    have "ms = []"
    proof (rule ccontr)
      assume "ms \<noteq> []"
      then obtain m ms' where ms: "ms = m # ms'" by (cases ms) auto
      then have "length buf < length (packet dotu m)" "length (packet dotu m) \<le> msize"
        using less.prems(2,4) by (auto simp: unfinished_def fits_msize_def split: prod.splits)
      then have "input = []" using blocks(2) True by simp
      then have "length buf = length (packet dotu m) + length (concat (map (packet dotu) ms'))"
        using less.prems(1) ms arg_cong [of _ _ length] by fastforce
      then show False using \<open>length buf < length (packet dotu m)\<close> by simp
    qed
    moreover have "np_conn_read c msize dotu fc0 buf input q = Some q" using True np_conn_read_block [OF less.prems(6) d] by simp
    ultimately show ?thesis by (intro exI [of _ "[]"] exI [of _ q]) simp
  next
    case False
    note bytes = trans_read_bytes [OF d False]
    have eq: "(buf @ d) @ concat input' = concat (map (packet dotu) ms)" using less.prems(1) bytes by simp
    obtain ms1 ms2 fcs buf' q1 where a: "ms = ms1 @ ms2" "again c dotu fc0 (buf @ d) q = Some (Inr buf', q1)"
        "receive_all (map (Pair c) fcs) q = Some q1" "list_all2 (parsed dotu) ms1 fcs" "reading c q1"
        "buf' @ concat input' = concat (map (packet dotu) ms2)" "unfinished dotu buf' ms2"
      using again_messages [OF eq less.prems(4-6)] by blast
    have "length (concat input') < length (concat input)" using bytes False by simp
    then obtain fcs2 q' where r: "np_conn_read c msize dotu fc0 buf' input' q1 = Some q'" "receive_all (map (Pair c) fcs2) q1 = Some q'"
        "list_all2 (parsed dotu) ms2 fcs2"
      using less.hyps [OF _ a(6,7) blocks(1) _ less.prems(5) a(5)] less.prems(4) a(1) by auto
    have "np_conn_read c msize dotu fc0 buf input q = Some q'"
      using np_conn_read_block [OF less.prems(6) d] False a(2) r(1) by simp
    moreover have "receive_all (map (Pair c) (fcs @ fcs2)) q = Some q'" using a(3) r(2) by (simp add: receive_all_append)
    moreover have "list_all2 (parsed dotu) ms (fcs @ fcs2)" using a(1,4) r(3) by (simp add: list_all2_appendI)
    ultimately show ?thesis by blast
  qed
qed

lemma stream_arrives:
  assumes "concat input = concat (map (packet dotu) ms)" "[] \<notin> set input" "list_all (fits_msize msize dotu) ms" "msize < 2 ^ 31" "reading c q"
  shows "\<exists>fcs q'. np_conn_read c msize dotu fc0 [] input q = Some q' \<and> receive_all (map (Pair c) fcs) q = Some q' \<and>
    list_all2 (parsed dotu) ms fcs"
proof -
  have "unfinished dotu [] ms" by (cases ms) (auto simp: unfinished_def split: prod.splits)
  then show ?thesis using np_conn_read_messages [of "[]" input dotu ms msize c q fc0] assms by simp
qed

text \<open>
  Fragmentation does not matter (C8). However the transport cuts a stream of 9P2000 or 9P2000.u messages into
  blocks, of any sizes and with message boundaries anywhere, the reader ends with a request queued for
  every message, in order and with the message's type, tag and fields, and nothing else, provided each message fits
  into the buffer of \<open>msize\<close> bytes.
\<close>

theorem stream_received:
  assumes "concat input = concat (map (packet dotu) ms)" "[] \<notin> set input" "list_all (fits_msize msize dotu) ms" "msize < 2 ^ 31" "reading c q"
  shows "\<exists>fcs q'. np_conn_read c msize dotu fc0 [] input q = Some q' \<and> receive_all (map (Pair c) fcs) q = Some q' \<and>
    list_all2 (parsed dotu) ms fcs"
  using assms by (rule stream_arrives)

lemma start_reading: "reading 0 (start conns1)"
proof -
  have "qinv (start conns1) [] [] []" using conns1_ok by (intro start_inv) (simp add: conns_ok_def)
  then show ?thesis by (auto simp: reading_def start_def conns1_def)
qed

theorem stream_received_witness:
  "concat [[7, 0, 0], [0, 121, 3, 0, 11, 0], [0, 0, 120, 4, 0, 9, 0, 0, 0]] = concat (map (packet True) [(3, MRclunk), (4, MTclunk 9)]) \<and>
    (\<exists>fcs q'. np_conn_read 0 8192 True npfcall0 [] [[7, 0, 0], [0, 121, 3, 0, 11, 0], [0, 0, 120, 4, 0, 9, 0, 0, 0]] (start conns1) = Some q' \<and>
      receive_all (map (Pair 0) fcs) (start conns1) = Some q' \<and> list_all2 (parsed True) [(3, MRclunk), (4, MTclunk 9)] fcs)"
proof -
  let ?i = "[[7, 0, 0], [0, 121, 3, 0, 11, 0], [0, 0, 120, 4, 0, 9, 0, 0, 0]] :: bytes list"
  have "concat ?i = concat (map (packet True) [(3, MRclunk), (4, MTclunk 9)])" by (simp add: wire_def enc32_def enc16_def enc8_def)
  then show ?thesis
    using stream_received [of ?i True "[(3, MRclunk), (4, MTclunk 9)]" 8192 0 "start conns1" npfcall0] start_reading
    by (simp add: fits_msize_def)
qed

subsection \<open>Messages that are too long\<close>

lemma long_read:
  assumes "reading c q" "4 \<le> length (buf @ concat input)" "int msize < msg_size (buf @ concat input)" "length buf \<le> msize" "[] \<notin> set input"
  shows "np_conn_read c msize dotu fc0 buf input q = Some q"
  using assms
proof (induction "length (concat input)" arbitrary: buf input rule: less_induct)
  case less
  obtain d input' where d: "trans_read (msize - length buf) input = (d, input')" by fastforce
  show ?case
  proof (cases "d = []")
    case True
    then show ?thesis using np_conn_read_block [OF less.prems(1) d] by simp
  next
    case False
    note bytes = trans_read_bytes [OF d False]
    have len: "length (buf @ d) \<le> msize" using bytes less.prems(4) by auto
    have size: "msg_size (buf @ d) = msg_size (buf @ concat input)" if "4 \<le> length (buf @ d)"
      using bytes that by (intro msg_size_front) simp_all
    have "again c dotu fc0 (buf @ d) q = Some (Inr (buf @ d), q)"
      using size less.prems(3) len by (auto simp: again.simps [of c dotu fc0 "buf @ d"])
    moreover have "np_conn_read c msize dotu fc0 (buf @ d) input' q = Some q"
      using less.hyps [of input' "buf @ d"] less.prems bytes False len trans_read_blocks(1) [OF d less.prems(5)] by simp
    ultimately show ?thesis using np_conn_read_block [OF less.prems(1) d] False by simp
  qed
qed

text \<open>
  A size of \<open>2 ^ 31\<close> or more is a negative number, so the test for a complete message passes at once: a message of eleven bytes that
  announces that size is parsed, and then memory is moved in front of the buffer.
\<close>

lemma negative_size_not_refused:
  "np_conn_read 0 8192 True npfcall0 [] [[0, 0, 0, 128, 120, 4, 0, 9, 0, 0, 0]] (start conns1) = None"
proof -
  let ?b = "[0, 0, 0, 128, 120, 4, 0, 9, 0, 0, 0] :: bytes"
  have "msg_size ?b = - 2147483648"
    by (simp add: msg_size_def pkt_size_def buf_get_int32_def buf_init_def buf_check_size_def cb_load_def cb_in_range_def)
  moreover have "fst (np_deserialize npfcall0 ?b True) \<noteq> 0" by code_simp
  ultimately have "again 0 True npfcall0 ?b (start conns1) = None" by (subst again.simps) (auto split: prod.splits)
  then show ?thesis by (subst np_conn_read.simps) (simp add: start_def conns1_def)
qed

end
