(* ===== verification/Reset.thy ===== *)
theory Reset
  imports Reqs_Live Srvops
begin

text \<open>
  Version negotiation: \<^verbatim>\<open>np_version\<close> of \<^verbatim>\<open>fcall.c\<close>, \<^verbatim>\<open>np_default_version\<close> of \<^verbatim>\<open>srv.c\<close> and \<^verbatim>\<open>np_conn_reset\<close> of \<^verbatim>\<open>conn.c\<close>. They work on
  the requests of the server and on the fids of a connection, so the state is a pair. \<open>c\<close> is the number of
  the connection among the requests.

  \<^verbatim>\<open>np_conn_reset\<close> waits for the requests of the connection that are worked on. It is split where
  it waits: \<open>reset_begin\<close> comes before, \<open>reset_end\<close> after, and \<open>np_conn_reset\<close> is the run in which there is
  nothing to wait for (\<open>None\<close> otherwise). The message buffers of the connection are not represented.
\<close>

subsection \<open>Operations\<close>

text \<open>The requests a reset waits for: all of the connection, without the version request whose handler runs the reset.\<close>

definition awaited :: "nat \<Rightarrow> u32 \<Rightarrow> Npreq \<Rightarrow> bool option" where
  "awaited c msize r =
     (if r_conn r \<noteq> c then Some False
      else if msize = 0 then Some True
      else map_option (\<lambda>tc. fc_type tc \<noteq> Tversion) (r_tcall r))"

definition put_if :: "bool \<Rightarrow> addr \<Rightarrow> addr list \<Rightarrow> addr list" where
  "put_if b a as = (if b then a # as else as)"

partial_function (option) work_of :: "(Npreq \<Rightarrow> bool option) \<Rightarrow> Npreq heap \<Rightarrow> ptr \<Rightarrow> addr list option" where
  "work_of P h p =
     (case p of
        None \<Rightarrow> Some []
      | Some a \<Rightarrow>
          do { r \<leftarrow> h a;
               w \<leftarrow> P r;
               reqs \<leftarrow> work_of P h (r_next r);
               Some (put_if w a reqs) })"

fun for_all :: "(addr \<Rightarrow> qact) \<Rightarrow> addr list \<Rightarrow> qact" where
  "for_all f [] q = Some q"
| "for_all f (a # as) q = do { q \<leftarrow> f a q; for_all f as q }"

definition reset_begin :: "(addr \<Rightarrow> qact) \<Rightarrow> nat \<Rightarrow> u32 \<Rightarrow> srvreqs \<Rightarrow> (addr list \<times> srvreqs) option" where
  "reset_begin fl c msize q =
     do { let q = conn_upd c (\<lambda>n. n\<lparr>n_resetting := True\<rparr>) q;
          (preqs, q) \<leftarrow> drop_pending c (q_first q) None q;
          reqs \<leftarrow> work_of (awaited c msize) (q_req q) (q_work q);
          q \<leftarrow> for_all np_req_ref reqs q;
          q \<leftarrow> respond_dropped preqs q;
          q \<leftarrow> for_all fl reqs q;
          Some (reqs, q) }"

definition reset_end :: "'e npsrv \<Rightarrow> nat \<Rightarrow> u32 \<Rightarrow> bool \<Rightarrow> bool \<Rightarrow> addr list \<Rightarrow> srvreqs \<Rightarrow> 'e conn \<Rightarrow> (srvreqs \<times> 'e conn) option" where
  "reset_end sv c msize dotu dotl reqs q s =
     do { s \<leftarrow> reset_fids sv msize dotu dotl s;
          q \<leftarrow> for_all np_req_unref reqs (conn_upd c (\<lambda>n. n\<lparr>n_resetting := False\<rparr>) q);
          Some (q, s) }"

definition np_conn_reset :: "(addr \<Rightarrow> qact) \<Rightarrow> 'e npsrv \<Rightarrow> nat \<Rightarrow> u32 \<Rightarrow> bool \<Rightarrow> bool \<Rightarrow> srvreqs \<Rightarrow> 'e conn \<Rightarrow> (srvreqs \<times> 'e conn) option" where
  "np_conn_reset fl sv c msize dotu dotl q s =
     do { (reqs, q) \<leftarrow> reset_begin fl c msize q;
          busy \<leftarrow> work_of (awaited c msize) (q_req q) (q_work q);
          if busy = [] then reset_end sv c msize dotu dotl reqs q s else None }"

definition Emsize :: cstring where "Emsize = cstr ''msize too small''"
definition Eversion :: cstring where "Eversion = cstr ''unsupported 9P version''"

definition np_default_version :: "(addr \<Rightarrow> qact) \<Rightarrow> 'e npsrv \<Rightarrow> nat \<Rightarrow> u32 \<Rightarrow> Npstr \<Rightarrow> srvreqs \<Rightarrow> 'e conn \<Rightarrow>
    (Npfcall option \<times> srvreqs \<times> 'e conn) option" where
  "np_default_version fl sv c msize version q s =
     do { let msize = (if msize > sv_msize sv then sv_msize sv else msize);
          let msize = (if msize > c_msize s then c_msize s else msize);
          ver \<leftarrow> choose_version sv version;
          if msize < 24 then Some (None, q, np_werror (Some Emsize) EIO s)
          else
            (case ver of
               Some (v, dotu, dotl) \<Rightarrow>
                 do { (q, s) \<leftarrow> np_conn_reset fl sv c msize dotu dotl q s;
                      (rc, s) \<leftarrow> build (\<lambda>mal. np_create_rversion mal msize v) s;
                      Some (rc, q, s) }
             | None \<Rightarrow> Some (None, q, np_werror (Some Eversion) EIO s)) }"

definition np_version :: "(addr \<Rightarrow> qact) \<Rightarrow> 'e npsrv \<Rightarrow> nat \<Rightarrow> Npfcall \<Rightarrow> srvreqs \<Rightarrow> 'e conn \<Rightarrow> (Npfcall option \<times> srvreqs \<times> 'e conn) option" where
  "np_version fl sv c tc q s =
     (if fc_msize tc < 24 + 1 then Some (None, q, np_werror (Some Emsize) EIO s)
      else
        (case sv_version sv of
           None \<Rightarrow> np_default_version fl sv c (fc_msize tc) (fc_version tc) q s
         | Some v \<Rightarrow> map_option (\<lambda>(rc, s). (rc, q, s)) (v (fc_msize tc) (fc_version tc) s)))"

subsection \<open>The pending requests\<close>

text \<open>
  \<open>drop_pending\<close> takes the requests of the connection out of the queue and links them to a list of their
  own, in reverse order.
\<close>

definition of_conn :: "srvreqs \<Rightarrow> nat \<Rightarrow> addr list \<Rightarrow> addr list" where
  "of_conn q c = filter (conn_is (rview q) c)"

lemma conn_is_req: "q_req q a = Some r \<Longrightarrow> conn_is (rview q) c a \<longleftrightarrow> r_conn r = c"
  by (simp add: conn_is_def rview_def req_core_def)

lemma relink_ok:
  assumes "qlists q ps ws pl" "a \<notin> set (ps @ ws @ pl)" "q_req q a = Some r"
  shows "\<exists>q'. req_upd a (set_r_next p) q = Some q' \<and> qlists q' ps ws pl \<and> rview q' = rview q \<and> same_env q q' \<and>
    q_first q' = q_first q \<and> q_work q' = q_work q \<and> q_req q' = (q_req q)(a \<mapsto> set_r_next p r)"
proof -
  let ?q = "q\<lparr>q_req := (q_req q)(a \<mapsto> set_r_next p r)\<rparr>"
  have "req_upd a (set_r_next p) q = Some ?q" using assms(3) by (simp add: req_upd_def)
  moreover have "qlists ?q ps ws pl"
    using assms outside [of "{a}" "q_req ?q" "q_req q"] by (auto simp: qlists_def)
  moreover have "rview ?q = rview q" using assms(3) by (auto simp: rview_def fun_eq_iff req_core_def set_r_next_def)
  ultimately show ?thesis by (auto simp: same_env_def)
qed

abbreviation (input) headp :: "addr list \<Rightarrow> ptr" where
  "headp as \<equiv> (case as of [] \<Rightarrow> None | a # _ \<Rightarrow> Some a)"

lemma drop_pending_ok:
  assumes "qlists q (xs @ ys) ws pl" "chain r_next (q_req q) preqs ds" "set ds \<inter> set (xs @ ys @ ws @ pl) = {}"
  shows "\<exists>q' preqs'. drop_pending c (headp ys) preqs q = Some (preqs', q') \<and>
    qlists q' (xs @ filter (\<lambda>a. \<not> conn_is (rview q) c a) ys) ws pl \<and> rview q' = rview q \<and> same_env q q' \<and>
    chain r_next (q_req q') preqs' (rev (of_conn q c ys) @ ds)"
  using assms
proof (induction ys arbitrary: q xs preqs ds)
  case Nil
  then show ?case by (simp add: drop_pending.simps [of c None] of_conn_def same_env_def)
next
  case (Cons a ys)
  have dl: "rl.dl (q_req q) None (q_first q) (xs @ a # ys) None" using Cons.prems(1) by (simp add: qlists_def)
  obtain r where r: "q_req q a = Some r" using dseg_alloc [OF dl, of a] by auto
  have nx: "r_next r = headp ys" using dseg_prev(2) [OF dl r] by (cases ys) simp_all
  show ?case
  proof (cases "r_conn r = c")
    case False
    then show ?thesis
      using Cons.IH [of q "xs @ [a]" preqs ds] Cons.prems r nx conn_is_req [OF r, of c]
      by (simp add: drop_pending.simps [of c "Some a"] of_conn_def)
  next
    case True
    obtain q1 r1 where q1: "np_srv_remove_req a q = Some q1" "qlists q1 (xs @ ys) ws pl" "rview q1 = rview q" "same_env q q1"
        "q_req q1 a = Some r1" "\<forall>b. b \<notin> set (xs @ ys) \<longrightarrow> q_req q1 b = q_req q b"
      using remove_req_ok [OF Cons.prems(1)] by blast
    have nin: "a \<notin> set ((xs @ ys) @ ws @ pl)" "a \<notin> set ds" using Cons.prems(1,3) by (auto simp: qlists_def)
    obtain q2 where q2: "req_upd a (set_r_next preqs) q1 = Some q2" "qlists q2 (xs @ ys) ws pl" "rview q2 = rview q1" "same_env q1 q2"
        "q_req q2 = (q_req q1)(a \<mapsto> set_r_next preqs r1)"
      using relink_ok [OF q1(2) nin(1) q1(5)] by blast
    have "q_req q2 b = q_req q b" if "b \<in> set ds" for b
    proof -
      have "b \<noteq> a" "b \<notin> set (xs @ ys)" using that nin(2) Cons.prems(3) by auto
      then show ?thesis using q1(6) q2(5) by simp
    qed
    then have "chain r_next (q_req q2) preqs ds" using chain_cong [OF _ Cons.prems(2), of "q_req q2"] by simp
    then have ds: "chain r_next (q_req q2) (Some a) (a # ds)" using q2(5) by (simp add: set_r_next_def)
    have "set (a # ds) \<inter> set (xs @ ys @ ws @ pl) = {}" using Cons.prems(3) nin(1) by auto
    from Cons.IH [OF q2(2) ds this]
    obtain q' preqs' where "drop_pending c (headp ys) (Some a) q2 = Some (preqs', q')"
        "qlists q' (xs @ filter (\<lambda>a. \<not> conn_is (rview q2) c a) ys) ws pl" "rview q' = rview q2" "same_env q2 q'"
        "chain r_next (q_req q') preqs' (rev (of_conn q2 c ys) @ a # ds)" by blast
    then show ?thesis
      using r nx True q1(1,3,4) q2(1,3,4) conn_is_req [OF r, of c]
      by (simp add: drop_pending.simps [of c "Some a"] of_conn_def same_env_def)
  qed
qed

text \<open>The dropped requests are given back without a reply.\<close>

lemma respond_frame:
  "np_conn_respond a q = Some q' \<Longrightarrow> b \<noteq> a \<Longrightarrow> q_req q' b = q_req q b"
  "np_req_unref a q = Some q' \<Longrightarrow> b \<noteq> a \<Longrightarrow> q_req q' b = q_req q b"
  by (auto simp: np_conn_respond_def np_req_unref_def req_upd_def heap_upd_def send_reply_def np_conn_decref_def conn_upd_def
      split: option.splits if_splits nat.splits bind_splits)

definition dropped :: "srvreqs \<Rightarrow> nat \<Rightarrow> addr list \<Rightarrow> bool" where
  "dropped q c ds \<longleftrightarrow> distinct ds \<and> (\<forall>a \<in> set ds. \<exists>r. rview q a = Some r \<and> idle_req r \<and> r_conn r = c)"

lemma respond_one:
  assumes "qlists q ps ws pl" "length pl \<le> 64" "rview q a = Some r" "idle_req r" "r_conn r = c" "a \<notin> set (ps @ ws @ pl)" "0 < n_refcount (q_conn q c)"
  shows "\<exists>q1 q2 pl'. np_conn_respond a q = Some q1 \<and> np_req_unref a q1 = Some q2 \<and> qlists q2 ps ws pl' \<and> length pl' \<le> 64 \<and>
    set pl' \<subseteq> insert a (set pl) \<and> (\<forall>b. b \<noteq> a \<longrightarrow> rview q2 b = rview q b \<and> q_req q2 b = q_req q b) \<and> \<not> live (rview q2) a \<and>
    q_conn q2 = (q_conn q)(c := conn_drop (q_conn q c))"
proof -
  let ?r = "r\<lparr>r_tcall := None, r_rcall := None\<rparr>"
  obtain q1 where q1: "np_conn_respond a q = Some q1" "qlists q1 ps ws pl" "rview q1 = (rview q)(a \<mapsto> ?r)" "same_env q q1"
    using conn_respond_ok [OF assms(1,3)] assms(4,5,7) by (auto simp: idle_req_def)
  have r1: "rview q1 a = Some ?r" "r_refcount ?r = 1" "0 < n_refcount (q_conn q1 (r_conn ?r))"
    using q1(3,4) assms(4,5,7) by (auto simp: idle_req_def same_env_def)
  obtain q2 where q2: "np_req_unref a q1 = Some q2" "q_conn q2 = (q_conn q1)(r_conn ?r := conn_drop (q_conn q1 (r_conn ?r)))"
      "if length pl < 64 then qlists q2 ps ws (a # pl) \<and> rview q2 = (rview q1)(a \<mapsto> ?r\<lparr>r_refcount := 0\<rparr>)
       else qlists q2 ps ws pl \<and> rview q2 = (rview q1)(a := None)"
    using unref_last [OF q1(2) r1(1,2) assms(6) r1(3)] by blast
  obtain pl' where pl': "qlists q2 ps ws pl'" "length pl' \<le> 64" "set pl' \<subseteq> insert a (set pl)"
  proof (cases "length pl < 64")
    case True
    then show thesis using q2(3) that [of "a # pl"] by simp
  next
    case False
    then show thesis using q2(3) assms(2) that [of pl] by auto
  qed
  have "rview q2 b = rview q b \<and> q_req q2 b = q_req q b" if "b \<noteq> a" for b
    using q1(3) q2(3) respond_frame(1) [OF q1(1) that] respond_frame(2) [OF q2(1) that] that by (simp split: if_splits)
  moreover have "\<not> live (rview q2) a" using q2(3) by (auto simp: live_def split: if_splits)
  moreover have "q_conn q2 = (q_conn q)(c := conn_drop (q_conn q c))" using q2(2) q1(4) assms(5) by (simp add: same_env_def)
  ultimately show ?thesis using q1(1) q2(1) pl' by blast
qed

lemma respond_dropped_ok:
  assumes "qlists q ps ws pl" "length pl \<le> 64" "chain r_next (q_req q) p ds" "dropped q c ds" "set ds \<inter> set (ps @ ws @ pl) = {}"
    "int (length ds) \<le> n_refcount (q_conn q c)"
  shows "\<exists>q' pl'. respond_dropped p q = Some q' \<and> qlists q' ps ws pl' \<and> length pl' \<le> 64 \<and>
    (\<forall>b. b \<notin> set ds \<longrightarrow> rview q' b = rview q b) \<and> (\<forall>b \<in> set ds. \<not> live (rview q') b) \<and>
    q_conn q' = (q_conn q)(c := (q_conn q c)\<lparr>n_refcount := n_refcount (q_conn q c) - int (length ds)\<rparr>)"
  using assms
proof (induction ds arbitrary: p q pl)
  case Nil
  then show ?case by (auto simp: respond_dropped.simps)
next
  case (Cons a ds)
  obtain g where g: "p = Some a" "q_req q a = Some g" "chain r_next (q_req q) (r_next g) ds" using Cons.prems(3) by auto
  obtain r where r: "rview q a = Some r" "idle_req r" "r_conn r = c" using Cons.prems(4) by (auto simp: dropped_def)
  obtain q1 q2 pl2 where s: "np_conn_respond a q = Some q1" "np_req_unref a q1 = Some q2" "qlists q2 ps ws pl2" "length pl2 \<le> 64"
      "set pl2 \<subseteq> insert a (set pl)" "\<forall>b. b \<noteq> a \<longrightarrow> rview q2 b = rview q b \<and> q_req q2 b = q_req q b" "\<not> live (rview q2) a"
      "q_conn q2 = (q_conn q)(c := conn_drop (q_conn q c))"
    using respond_one [OF Cons.prems(1,2) r] Cons.prems(5,6) by auto
  have ds: "a \<notin> set ds" "distinct ds" using Cons.prems(4) by (auto simp: dropped_def)
  have v: "rview q2 b = rview q b" "q_req q2 b = q_req q b" if "b \<in> set ds" for b using s(6) ds(1) that by (metis (full_types))+
  have "chain r_next (q_req q2) (r_next g) ds" by (rule chain_cong [OF _ g(3)]) (simp add: v(2))
  moreover have "dropped q2 c ds" using Cons.prems(4) v(1) by (auto simp: dropped_def)
  moreover have "set ds \<inter> set (ps @ ws @ pl2) = {}" using Cons.prems(5) s(5) ds(1) by auto
  moreover have "int (length ds) \<le> n_refcount (q_conn q2 c)" using Cons.prems(6) s(8) by (simp add: conn_drop_def)
  ultimately obtain q' pl' where q': "respond_dropped (r_next g) q2 = Some q'" "qlists q' ps ws pl'" "length pl' \<le> 64"
      "\<forall>b. b \<notin> set ds \<longrightarrow> rview q' b = rview q2 b" "\<forall>b \<in> set ds. \<not> live (rview q') b"
      "q_conn q' = (q_conn q2)(c := (q_conn q2 c)\<lparr>n_refcount := n_refcount (q_conn q2 c) - int (length ds)\<rparr>)"
    using Cons.IH [OF s(3,4)] by blast
  have "respond_dropped p q = Some q'" using g(1,2) s(1,2) q'(1) by (simp add: respond_dropped.simps [of "Some a"])
  moreover have "\<not> live (rview q') b" if "b \<in> set (a # ds)" for b
    using that q'(4,5) s(7) ds(1) by (cases "b = a") (auto simp: live_def)
  moreover have "rview q' b = rview q b" if "b \<notin> set (a # ds)" for b using that q'(4) s(6) by simp
  moreover have "q_conn q' = (q_conn q)(c := (q_conn q c)\<lparr>n_refcount := n_refcount (q_conn q c) - int (length (a # ds))\<rparr>)"
    using q'(6) s(8) by (auto simp: conn_drop_def fun_eq_iff)
  ultimately show ?case using q'(2,3) by blast
qed

subsection \<open>The beginning of a reset\<close>

text \<open>\<open>waits\<close>: a request the reset waits for.\<close>

definition waits :: "reqview \<Rightarrow> nat \<Rightarrow> u32 \<Rightarrow> addr \<Rightarrow> bool" where
  "waits v c msize a \<longleftrightarrow> (case v a of None \<Rightarrow> False | Some r \<Rightarrow> awaited c msize r = Some True)"

lemma work_of_list:
  assumes "rl.dl (q_req q) pr p as None" "\<forall>a \<in> set as. \<exists>r. rview q a = Some r \<and> idle_req r"
  shows "work_of (awaited c msize) (q_req q) p = Some (filter (waits (rview q) c msize) as)"
  using assms
proof (induction as arbitrary: p pr)
  case Nil
  then show ?case by (simp add: work_of.simps)
next
  case (Cons a as)
  then obtain g where g: "p = Some a" "q_req q a = Some g" "rl.dl (q_req q) (Some a) (r_next g) as None" by auto
  obtain tc where "r_tcall g = Some tc" using Cons.prems(2) g(2) by (auto simp: rview_def req_core_def idle_req_def)
  then have "awaited c msize g = Some (waits (rview q) c msize a)"
    by (auto simp: awaited_def waits_def rview_def g(2) req_core_def)
  then show ?case using Cons.IH [OF g(3)] Cons.prems(2) g(1,2) by (simp add: work_of.simps [of _ _ "Some a"] put_if_def)
qed

lemma reset_begin_ok:
  assumes "qinv q ps ws gs" "\<forall>a \<in> set ws. \<not> waits (rview q) c msize a"
  defines "rest \<equiv> filter (\<lambda>a. \<not> conn_is (rview q) c a) ps"
  shows "\<exists>q'. reset_begin fl c msize q = Some ([], q') \<and> qinv q' rest ws gs \<and> work_of (awaited c msize) (q_req q') (q_work q') = Some [] \<and>
    (\<forall>b. b \<notin> set (of_conn q c ps) \<longrightarrow> rview q' b = rview q b) \<and> (\<forall>b \<in> set (of_conn q c ps). \<not> live (rview q') b) \<and>
    q_conn q' = (q_conn q)(c := (q_conn q c)\<lparr>n_resetting := True, n_refcount := n_refcount (q_conn q c) - int (length (of_conn q c ps))\<rparr>)"
proof -
  let ?q = "conn_upd c (\<lambda>n. n\<lparr>n_resetting := True\<rparr>) q" and ?ds = "rev (of_conn q c ps)"
  obtain pl where pl: "qlists q ps ws pl" "length pl \<le> 64" using assms(1) by (rule qinvD)
  have idle: "\<forall>a \<in> set (ps @ ws). \<exists>r. rview q a = Some r \<and> idle_req r" using assms(1) by (auto simp: qinv_def)
  have first: "q_first q = headp ps" using pl(1) by (cases ps) (auto simp: qlists_def)
  obtain q1 preqs where q1: "drop_pending c (q_first q) None ?q = Some (preqs, q1)" "qlists q1 rest ws pl" "rview q1 = rview q"
      "same_env ?q q1" "chain r_next (q_req q1) preqs ?ds"
    using drop_pending_ok [of ?q "[]" ps ws pl None "[]" c] pl(1) by (auto simp: first rest_def of_conn_def)
  have none: "filter (waits (rview q) c msize) ws = []" using assms(2) by simp
  have w1: "work_of (awaited c msize) (q_req q1) (q_work q1) = Some []"
    using work_of_list [of q1 None "q_work q1" ws c msize] q1(2,3) idle none by (auto simp: qlists_def)
  have "distinct (ps @ ws @ pl)" using pl(1) by (simp add: qlists_def)
  then have ds: "set ?ds \<inter> set (rest @ ws @ pl) = {}" "distinct ?ds" by (auto simp: rest_def of_conn_def)
  have "\<exists>r. rview q1 a = Some r \<and> idle_req r \<and> r_conn r = c" if "a \<in> set ?ds" for a
    using that idle q1(3) by (fastforce simp: of_conn_def conn_is_def)
  then have drop: "dropped q1 c ?ds" using ds(2) by (simp add: dropped_def)
  have count: "int (length (filter (conn_is (rview q) e) ps)) + int (length (filter (conn_is (rview q) e) ws)) \<le> n_refcount (q_conn q e)" for e
    using assms(1) by (auto simp: qinv_def)
  have conn1: "q_conn q1 = (q_conn q)(c := (q_conn q c)\<lparr>n_resetting := True\<rparr>)" using q1(4) by (simp add: same_env_def conn_upd_def)
  obtain q2 pl2 where q2: "respond_dropped preqs q1 = Some q2" "qlists q2 rest ws pl2" "length pl2 \<le> 64"
      "\<forall>b. b \<notin> set ?ds \<longrightarrow> rview q2 b = rview q1 b" "\<forall>b \<in> set ?ds. \<not> live (rview q2) b"
      "q_conn q2 = (q_conn q1)(c := (q_conn q1 c)\<lparr>n_refcount := n_refcount (q_conn q1 c) - int (length ?ds)\<rparr>)"
    using respond_dropped_ok [OF q1(2) pl(2) q1(5) drop ds(1)] count [of c] conn1 by (auto simp: of_conn_def)
  have v: "rview q2 b = rview q b" if "b \<in> set (rest @ ws)" for b
  proof -
    have "b \<notin> set ?ds" using that ds(1) by auto
    then show ?thesis using q2(4) q1(3) by simp
  qed
  have "qinv q2 rest ws gs"
  proof (rule qinvI [OF q2(2,3)])
    show "groups (rview q2) ws gs" by (rule groups_cong [of "rview q"]) (use assms(1) v in \<open>auto simp: qinv_def\<close>)
    show "\<exists>r. rview q2 b = Some r \<and> idle_req r \<and> (b \<in> set rest \<longrightarrow> r_flushreq r = None)" if "b \<in> set (rest @ ws)" for b
      using v [OF that] assms(1) that by (auto simp: qinv_def rest_def)
    show "int (length (filter (conn_is (rview q2) e) (rest @ ws))) \<le> n_refcount (q_conn q2 e)" for e
    proof -
      have "filter (conn_is (rview q2) e) (rest @ ws) = filter (conn_is (rview q) e) (rest @ ws)" by (rule conn_is_cong) (rule v)
      moreover have "length (filter (conn_is (rview q) e) rest) \<le> length (filter (conn_is (rview q) e) ps)"
        unfolding rest_def filter_filter by (induction ps) auto
      moreover have "filter (conn_is (rview q) c) rest = []" by (auto simp: rest_def)
      ultimately show ?thesis using count [of e] q2(6) conn1 by (cases "e = c") (auto simp: of_conn_def)
    qed
  qed
  moreover have "work_of (awaited c msize) (q_req q2) (q_work q2) = Some []"
  proof -
    have "filter (waits (rview q2) c msize) ws = []" using none v by (auto simp: waits_def filter_empty_conv)
    then show ?thesis using work_of_list [of q2 None "q_work q2" ws c msize] q2(2) idle v by (auto simp: qlists_def)
  qed
  moreover have "reset_begin fl c msize q = Some ([], q2)" using q1(1) w1 q2(1) by (simp add: reset_begin_def conn_upd_def)
  ultimately show ?thesis using q2(4-6) q1(3) conn1 by (intro exI [of _ q2]) auto
qed

subsection \<open>The fids\<close>

lemma dseg_chain: "dseg nx pv h pr p as None \<Longrightarrow> chain nx h p as"
  by (induction as arbitrary: pr p) auto

abbreviation silent :: "addr \<Rightarrow> Npfid \<Rightarrow> 'e conn \<Rightarrow> 'e conn option" where
  "silent \<equiv> \<lambda>_ _ s. Some s"

lemma destroy_bucket_ok:
  assumes "chain f_next (c_fids s) p as" "distinct as"
  shows "destroy_bucket silent p s = Some (s\<lparr>c_fids := c_fids s |` (- set as)\<rparr>)"
  using assms
proof (induction as arbitrary: p s)
  case Nil
  then show ?case by (simp add: destroy_bucket.simps)
next
  case (Cons a as)
  then obtain f where f: "p = Some a" "c_fids s a = Some f" "chain f_next (c_fids s) (f_next f) as" by auto
  define h where "h = (c_fids s)(a := None)"
  let ?s = "s\<lparr>c_fids := h\<rparr>"
  have "chain f_next (c_fids ?s) (f_next f) as" using f(3) Cons.prems(2) by (simp add: chain_frame h_def)
  from Cons.IH [OF this] have "destroy_bucket silent (f_next f) ?s = Some (s\<lparr>c_fids := h |` (- set as)\<rparr>)" using Cons.prems(2) by simp
  moreover have "h |` (- set as) = c_fids s |` (- set (a # as))" by (auto simp: restrict_map_def fun_eq_iff h_def)
  ultimately show ?case using f(1,2) by (simp add: destroy_bucket.simps [of silent "Some a"] flip: h_def)
qed

lemma destroy_buckets_ok:
  assumes "list_all2 (chain f_next (c_fids s)) ps bss" "distinct (concat bss)"
  shows "destroy_buckets silent ps s = Some (s\<lparr>c_fids := c_fids s |` (- set (concat bss))\<rparr>)"
  using assms
proof (induction ps arbitrary: bss s)
  case Nil
  then show ?case by simp
next
  case (Cons p ps)
  then obtain as cs where b: "bss = as # cs" "chain f_next (c_fids s) p as" "list_all2 (chain f_next (c_fids s)) ps cs"
    by (auto simp: list_all2_Cons1)
  let ?s = "s\<lparr>c_fids := c_fids s |` (- set as)\<rparr>"
  have d: "distinct as" "distinct (concat cs)" "set as \<inter> set (concat cs) = {}" using Cons.prems(2) b(1) by auto
  have "chain f_next (c_fids ?s) x bs" if "chain f_next (c_fids s) x bs" "bs \<in> set cs" for x bs
  proof (rule chain_cong [OF _ that(1)])
    fix y assume "y \<in> set bs"
    then have "y \<notin> set as" using that(2) d(3) by auto
    then show "map_option f_next (c_fids ?s y) = map_option f_next (c_fids s y)" by (simp add: restrict_map_def)
  qed
  then have "list_all2 (chain f_next (c_fids ?s)) ps cs" using b(3) by (auto simp: list_all2_conv_all_nth)
  from Cons.IH [OF this d(2)] have "destroy_buckets silent ps ?s = Some (?s\<lparr>c_fids := c_fids ?s |` (- set (concat cs))\<rparr>)" .
  moreover have "(c_fids s |` (- set as)) |` (- set (concat cs)) = c_fids s |` (- set (concat bss))"
    using b(1) by (auto simp: restrict_map_def fun_eq_iff)
  ultimately show ?case using destroy_bucket_ok [OF b(2) d(1)] by simp
qed

lemma pool_distinct:
  assumes "pool_inv h tbl bs"
  shows "distinct (concat (map bs [0..<FID_HTABLE_SIZE]))" "set (concat (map bs [0..<FID_HTABLE_SIZE])) = dom h"
proof -
  have k: "pool_keys (keys h) bs" and d: "\<forall>i<FID_HTABLE_SIZE. distinct (bs i)" using assms by (auto simp: pool_inv_def)
  have hash: "\<exists>k. keys h a = Some k \<and> fid_hash k = i" if "i < FID_HTABLE_SIZE" "a \<in> set (bs i)" for i a
    using k that unfolding pool_keys_def by blast
  have in_b: "a \<in> set (bs (fid_hash k))" if "keys h a = Some k" for a k using k that unfolding pool_keys_def by blast
  have dis: "set (bs i) \<inter> set (bs j) = {}" if "i < FID_HTABLE_SIZE" "j < FID_HTABLE_SIZE" "i \<noteq> j" for i j
    using hash [OF that(1)] hash [OF that(2)] that(3) by fastforce
  have "distinct (concat (map bs [0..<n]))" if "n \<le> FID_HTABLE_SIZE" for n
    using that
  proof (induction n)
    case (Suc n)
    have "\<forall>i<n. set (bs i) \<inter> set (bs n) = {}" using dis [of _ n] Suc.prems by simp
    then have "set (concat (map bs [0..<n])) \<inter> set (bs n) = {}" by (fastforce simp: disjoint_iff)
    then show ?case using Suc d by simp
  qed simp
  then show "distinct (concat (map bs [0..<FID_HTABLE_SIZE]))" by simp
  show "set (concat (map bs [0..<FID_HTABLE_SIZE])) = dom h"
  proof (intro set_eqI iffI)
    fix a assume "a \<in> set (concat (map bs [0..<FID_HTABLE_SIZE]))"
    then show "a \<in> dom h" using hash [of _ a] by (fastforce simp: keys_def)
  next
    fix a assume "a \<in> dom h"
    then obtain k where "keys h a = Some k" by (auto simp: keys_def)
    then have "a \<in> set (bs (fid_hash k))" "fid_hash k < FID_HTABLE_SIZE" using in_b by auto
    then show "a \<in> set (concat (map bs [0..<FID_HTABLE_SIZE]))" by auto
  qed
qed

lemma fidpool_destroy_ok:
  assumes "pool_ok s"
  shows "np_fidpool_destroy silent s = Some (s\<lparr>c_fids := Map.empty, c_pool := None\<rparr>)"
proof -
  obtain tbl bs where t: "c_pool s = Some tbl" "pool_inv (c_fids s) tbl bs" using assms by (auto simp: pool_ok_def)
  let ?bss = "map bs [0..<FID_HTABLE_SIZE]"
  note d = pool_distinct [OF t(2)]
  have "list_all2 (chain f_next (c_fids s)) tbl ?bss"
    using t(2) by (auto simp: pool_inv_def list_all2_conv_all_nth intro!: dseg_chain)
  then have "destroy_buckets silent tbl s = Some (s\<lparr>c_fids := c_fids s |` (- set (concat ?bss))\<rparr>)"
    by (rule destroy_buckets_ok [OF _ d(1)])
  moreover have "c_fids s |` (- set (concat ?bss)) = Map.empty" unfolding d(2) by (auto simp: restrict_map_def fun_eq_iff)
  ultimately show ?thesis using t(1) by (simp add: np_fidpool_destroy_def)
qed

lemma reset_fids_ok:
  assumes "pool_ok s" "c_mal s = []" "sv_auth sv = None" "sv_fiddestroy sv = None" "msize \<noteq> 0"
  shows "\<exists>s'. reset_fids sv msize dotu dotl s = Some s' \<and> pool_ok s' \<and> (\<forall>fid. pool_map s' fid = None) \<and>
    c_dotu s' = dotu \<and> c_dotl s' = dotl \<and> c_msize s' = c_msize s \<and> c_mal s' = [] \<and> c_users s' = c_users s"
proof -
  let ?s = "s\<lparr>c_fids := Map.empty, c_pool := Some (replicate FID_HTABLE_SIZE None), c_dotu := dotu, c_dotl := dotl\<rparr>"
  have "destroy_cb sv = silent" using assms(3,4) by (auto simp: destroy_cb_def fun_eq_iff)
  moreover obtain tbl where "c_pool s = Some tbl" using assms(1) by (auto simp: pool_ok_def)
  ultimately have run: "reset_fids sv msize dotu dotl s = Some ?s"
    using fidpool_destroy_ok [OF assms(1)] assms(2,5) by (simp add: reset_fids_def np_fidpool_create_def np_malloc_def take_mal_def)
  have ok: "pool_ok ?s"
    unfolding pool_ok_def pool_inv_def by (auto simp: pool_keys_def keys_def intro!: exI [of _ "\<lambda>_. []"])
  have "pool_map ?s fid = None" for fid
    using pool_map_holds [OF ok] by (cases "pool_map ?s fid") (auto simp: holds_def keys_def)
  then show ?thesis using run ok assms(2) by (intro exI [of _ ?s]) simp
qed

subsection \<open>Version strings\<close>

text \<open>What a server answers to a version string.\<close>

definition negotiate :: "'e npsrv \<Rightarrow> bytes \<Rightarrow> (cstring \<times> bool \<times> bool) option" where
  "negotiate sv bs =
     (if bs = ver9P2000u \<and> sv_dotu sv then Some (ver9P2000u, True, False)
      else if bs = ver9P2000L \<and> sv_dotl sv then Some (ver9P2000L, True, True)
      else if take 6 bs = ver9P2000 then Some (ver9P2000, False, False)
      else None)"

lemma strncmp_prefix: "0 \<notin> set bs \<Longrightarrow> n \<le> length bs \<Longrightarrow> strncmp bs cs n = 0 \<longleftrightarrow> take n bs = take n cs"
proof (induction n arbitrary: bs cs)
  case (Suc n)
  then obtain b bs' where bs: "bs = b # bs'" by (cases bs) auto
  then show ?case using Suc.IH [of bs' "tl cs"] Suc.prems by (cases cs) (auto simp: byte_at_def uint_eq_iff)
qed simp

lemma choose_version_ok:
  assumes "0 \<notin> set bs" "length bs < 2 ^ 16"
  shows "choose_version sv (npstr bs) = Some (negotiate sv bs)"
proof -
  have len: "unat (of_nat (length bs) :: u16) = length bs" using assms(2) by (simp add: unat_of_nat)
  have cmp: "\<exists>r. np_strcmp (npstr bs) cs = Some r \<and> (r = 0 \<longleftrightarrow> bs = cs)" for cs by (rule np_strcmp_eq [OF assms])
  have six: "length ver9P2000 = 6" by (simp add: ver9P2000_def cstr_def)
  have pre: "\<exists>r. np_strncmp (npstr bs) ver9P2000 6 = Some r \<and> (r = 0 \<longleftrightarrow> take 6 bs = ver9P2000)"
  proof (cases "6 \<le> length bs")
    case True
    then show ?thesis using strncmp_prefix [OF assms(1) True, of ver9P2000] six len by (simp add: np_strncmp_def npstr_def)
  next
    case False
    then have "np_strncmp (npstr bs) ver9P2000 6 = np_strcmp (npstr bs) ver9P2000" "take 6 bs = bs" using len by (simp_all add: np_strncmp_def npstr_def)
    then show ?thesis using cmp [of ver9P2000] by simp
  qed
  obtain u l n where r: "np_strcmp (npstr bs) ver9P2000u = Some u" "u = 0 \<longleftrightarrow> bs = ver9P2000u"
      "np_strcmp (npstr bs) ver9P2000L = Some l" "l = 0 \<longleftrightarrow> bs = ver9P2000L"
      "np_strncmp (npstr bs) ver9P2000 6 = Some n" "n = 0 \<longleftrightarrow> take 6 bs = ver9P2000"
    using cmp [of ver9P2000u] cmp [of ver9P2000L] pre by blast
  show ?thesis unfolding choose_version_def negotiate_def by (simp only: r bind.bind_lunit if_distrib [of Some])
qed

lemma negotiate_length: "negotiate sv bs = Some (v, dotu, dotl) \<Longrightarrow> length v \<le> 8"
  by (auto simp: negotiate_def ver9P2000_def ver9P2000u_def ver9P2000L_def cstr_def split: if_splits)

subsection \<open>Version negotiation\<close>

lemma reset_reqs_ok:
  assumes "qinv q ps ws gs" "\<forall>a \<in> set ws. \<not> waits (rview q) c m a" "reset_fids sv m dotu dotl s = Some s'"
  defines "old \<equiv> of_conn q c ps"
  shows "\<exists>q'. np_conn_reset fl sv c m dotu dotl q s = Some (q', s') \<and>
    qinv q' (filter (\<lambda>a. \<not> conn_is (rview q) c a) ps) ws gs \<and> (\<forall>a \<in> set old. \<not> live (rview q') a) \<and> (\<forall>a. a \<notin> set old \<longrightarrow> rview q' a = rview q a) \<and>
    q_conn q' = (q_conn q)(c := (q_conn q c)\<lparr>n_resetting := False, n_refcount := n_refcount (q_conn q c) - int (length old)\<rparr>)"
proof -
  obtain q1 where q1: "reset_begin fl c m q = Some ([], q1)" "qinv q1 (filter (\<lambda>a. \<not> conn_is (rview q) c a) ps) ws gs"
      "work_of (awaited c m) (q_req q1) (q_work q1) = Some []" "\<forall>b. b \<notin> set old \<longrightarrow> rview q1 b = rview q b" "\<forall>b \<in> set old. \<not> live (rview q1) b"
      "q_conn q1 = (q_conn q)(c := (q_conn q c)\<lparr>n_resetting := True, n_refcount := n_refcount (q_conn q c) - int (length old)\<rparr>)"
    using reset_begin_ok [OF assms(1,2)] unfolding old_def by blast
  let ?q = "conn_upd c (\<lambda>n. n\<lparr>n_resetting := False\<rparr>) q1"
  have swap: "n\<lparr>n_refcount := k, n_resetting := b\<rparr> = n\<lparr>n_resetting := b, n_refcount := k\<rparr>" for n :: Npconn and k b by simp
  have "n_refcount (q_conn ?q e) = n_refcount (q_conn q1 e)" for e by (simp add: conn_upd_def)
  then have inv: "qinv ?q (filter (\<lambda>a. \<not> conn_is (rview q) c a) ps) ws gs" using q1(2) by (simp add: qinv_def)
  have "np_conn_reset fl sv c m dotu dotl q s = Some (?q, s')"
    using q1(1,3) assms(3) by (simp add: np_conn_reset_def reset_end_def)
  moreover have "q_conn ?q = (q_conn q)(c := (q_conn q c)\<lparr>n_resetting := False, n_refcount := n_refcount (q_conn q c) - int (length old)\<rparr>)"
    using q1(6) by (simp add: conn_upd_def swap)
  ultimately show ?thesis using inv q1(4,5) by (intro exI [of _ ?q]) simp
qed

lemma conn_reset_ok:
  assumes "qinv q ps ws gs" "\<forall>a \<in> set ws. \<not> waits (rview q) c m a" "pool_ok s" "c_mal s = []" "sv_auth sv = None" "sv_fiddestroy sv = None" "m \<noteq> 0"
  defines "old \<equiv> of_conn q c ps"
  shows "\<exists>q' s'. np_conn_reset fl sv c m dotu dotl q s = Some (q', s') \<and>
    qinv q' (filter (\<lambda>a. \<not> conn_is (rview q) c a) ps) ws gs \<and> (\<forall>a \<in> set old. \<not> live (rview q') a) \<and> (\<forall>a. a \<notin> set old \<longrightarrow> rview q' a = rview q a) \<and>
    q_conn q' = (q_conn q)(c := (q_conn q c)\<lparr>n_resetting := False, n_refcount := n_refcount (q_conn q c) - int (length old)\<rparr>) \<and>
    pool_ok s' \<and> (\<forall>fid. pool_map s' fid = None) \<and> c_dotu s' = dotu \<and> c_dotl s' = dotl \<and> c_msize s' = c_msize s \<and> c_mal s' = []"
proof -
  obtain s' where s': "reset_fids sv m dotu dotl s = Some s'" "pool_ok s'" "\<forall>fid. pool_map s' fid = None" "c_dotu s' = dotu" "c_dotl s' = dotl"
      "c_msize s' = c_msize s" "c_mal s' = []"
    using reset_fids_ok [OF assms(3-7)] by blast
  show ?thesis using reset_reqs_ok [OF assms(1,2) s'(1)] s'(2-7) unfolding old_def by blast
qed

text \<open>The reset at the end of a connection leaves no fids.\<close>

lemma close_fids_ok:
  assumes "pool_ok s" "sv_auth sv = None" "sv_fiddestroy sv = None"
  shows "reset_fids sv 0 dotu dotl s = Some (s\<lparr>c_fids := Map.empty, c_pool := None\<rparr>)"
proof -
  have "destroy_cb sv = silent" using assms(2,3) by (auto simp: destroy_cb_def fun_eq_iff)
  moreover obtain tbl where "c_pool s = Some tbl" using assms(1) by (auto simp: pool_ok_def)
  ultimately show ?thesis using fidpool_destroy_ok [OF assms(1)] by (simp add: reset_fids_def)
qed

text \<open>
  (C29) A new session. A Tversion with a version the server knows and an \<open>msize\<close> above the header size, on a connection
  none of whose other requests is being worked on, is answered with the version chosen and the smallest of the three
  sizes. All pending requests of the connection are gone and none of them was answered; no request of another
  connection is touched; the connection has no fids and speaks the variant chosen. The size it checks counts
  against later is still the old one, whatever was negotiated.
\<close>

theorem version_negotiated:
  assumes "qinv q ps ws gs" "pool_ok s" "c_mal s = []" "sv_version sv = None" "sv_auth sv = None" "sv_fiddestroy sv = None"
    "fc_version tc = npstr bs" "0 \<notin> set bs" "length bs < 2 ^ 16" "negotiate sv bs = Some (v, dotu, dotl)"
    "m = min (fc_msize tc) (min (sv_msize sv) (c_msize s))" "25 \<le> fc_msize tc" "24 \<le> m" "\<forall>a \<in> set ws. \<not> waits (rview q) c m a"
  shows "\<exists>rc q' s'. np_version fl sv c tc q s = Some (Some rc, q', s') \<and> fc_pkt rc = wire Rversion NOTAG (enc32 m @ encstr v) \<and>
    qinv q' (filter (\<lambda>a. \<not> conn_is (rview q) c a) ps) ws gs \<and> (\<forall>a. conn_is (rview q) c a \<and> a \<in> set ps \<longrightarrow> \<not> live (rview q') a) \<and>
    (\<forall>a. \<not> conn_is (rview q) c a \<longrightarrow> rview q' a = rview q a) \<and> (\<forall>d. n_out (q_conn q' d) = n_out (q_conn q d)) \<and>
    \<not> n_resetting (q_conn q' c) \<and> pool_ok s' \<and> (\<forall>fid. pool_map s' fid = None) \<and> c_dotu s' = dotu \<and> c_dotl s' = dotl \<and> c_msize s' = c_msize s"
proof -
  have m: "(let msize = (if fc_msize tc > sv_msize sv then sv_msize sv else fc_msize tc) in if msize > c_msize s then c_msize s else msize) = m"
    unfolding assms(11) by (auto simp: min_def Let_def)
  have "m \<noteq> 0" using assms(13) by auto
  then obtain q' s' where r: "np_conn_reset fl sv c m dotu dotl q s = Some (q', s')"
      "qinv q' (filter (\<lambda>a. \<not> conn_is (rview q) c a) ps) ws gs" "\<forall>a \<in> set (of_conn q c ps). \<not> live (rview q') a"
      "\<forall>a. a \<notin> set (of_conn q c ps) \<longrightarrow> rview q' a = rview q a"
      "q_conn q' = (q_conn q)(c := (q_conn q c)\<lparr>n_resetting := False, n_refcount := n_refcount (q_conn q c) - int (length (of_conn q c ps))\<rparr>)"
      "pool_ok s'" "\<forall>fid. pool_map s' fid = None" "c_dotu s' = dotu" "c_dotl s' = dotl" "c_msize s' = c_msize s" "c_mal s' = []"
    using conn_reset_ok [OF assms(1,14,2,3,5,6), of fl dotu dotl] by blast
  have "length v \<le> 8" using negotiate_length [OF assms(10)] .
  then obtain rc where rc: "np_create_rversion (Some npfcall0) m v = Inr rc" "fc_pkt rc = wire Rversion NOTAG (enc32 m @ encstr v)"
    using created_9p_simple [of "MRversion m v" True npfcall0] by (auto simp: built_def)
  then have "build (\<lambda>mal. np_create_rversion mal m v) s' = Some (Some rc, s')"
    using r(11) by (simp add: build_def np_malloc_def take_mal_def)
  moreover have "\<not> m < 24" using assms(13) by simp
  moreover have "\<not> fc_msize tc < 24 + 1" using assms(12) by simp
  ultimately have "np_version fl sv c tc q s = Some (Some rc, q', s')"
    using r(1) choose_version_ok [OF assms(8,9), of sv] assms(4,7,10) m by (simp add: np_version_def np_default_version_def Let_def)
  moreover have "\<forall>d. n_out (q_conn q' d) = n_out (q_conn q d)" "\<not> n_resetting (q_conn q' c)" using r(5) by simp_all
  ultimately show ?thesis using rc(2) r by (intro exI [of _ rc] exI [of _ q'] exI [of _ s']) (auto simp: of_conn_def)
qed

theorem version_negotiated_witness:
  "\<exists>a. qinv ex1 [a] [] [] \<and> conn_is (rview ex1) 0 a \<and>
    (\<exists>rc q' s'. np_version np_default_flush (np_srv_create (\<lambda>_ s. Some (None, s)) (\<lambda>_ s. Some (None, s))) 0
        (npfcall0\<lparr>fc_type := Tversion, fc_msize := 4096, fc_version := npstr (cstr ''9P2000.u'')\<rparr>) ex1 conn2 = Some (Some rc, q', s') \<and>
      qinv q' [] [] [] \<and> \<not> live (rview q') a \<and> pool_map s' 1 = None \<and> c_dotu s')"
proof -
  let ?sv = "np_srv_create (\<lambda>_ s. Some (None, s)) (\<lambda>_ s. Some (None, s)) :: unit npsrv"
  let ?tc = "npfcall0\<lparr>fc_type := Tversion, fc_msize := 4096, fc_version := npstr (cstr ''9P2000.u'')\<rparr>"
  have "qinv (start conns1) [] [] []" using conns1_ok by (intro start_inv) (simp add: conns_ok_def)
  then obtain a where e: "qinv ex1 [a] [] []" "rview ex1 = (rview (start conns1))(a \<mapsto> new_req 0 tread5)"
    using receive_inv [of "start conns1" "[]" "[]" "[]" 0 tread5] ex_conns ex_run(1) by auto
  have c: "conn_is (rview ex1) 0 a" using e(2) by (simp add: conn_is_def new_req_def)
  have "negotiate ?sv (cstr ''9P2000.u'') = Some (ver9P2000u, True, False)" by (simp add: negotiate_def ver9P2000u_def np_srv_create_def)
  then show ?thesis
    using version_negotiated [OF e(1) pool_ok_conn2, of ?sv ?tc "cstr ''9P2000.u''" ver9P2000u True False 4096 0 np_default_flush] e(1) c
    by (auto simp: np_srv_create_def conn2_def conn0_def cstr_def)
qed

end
