(* ===== verification/Conn_Close.thy ===== *)
theory Conn_Close
  imports Conn Reset
begin

text \<open>
  The life of the reader thread of a connection, \<^verbatim>\<open>np_conn_read_proc\<close> of \<^verbatim>\<open>libnpfs/conn.c\<close>: it takes a reference, runs
  the loop of \<open>Conn\<close>, then closes the transport, takes the connection off the list of the server
  (\<^verbatim>\<open>np_srv_remove_conn\<close> of \<^verbatim>\<open>srv.c\<close>), resets it and gives its reference back. The list of the server is the list of the
  numbers of its connections. As for \<open>np_conn_reset\<close>, the run is the one in which the reset has nothing to wait for (\<open>None\<close>
  otherwise); the server is not shutting down, and the message buffers are not represented.
\<close>

definition np_srv_remove_conn :: "(nat \<Rightarrow> qact) option \<Rightarrow> nat \<Rightarrow> nat list \<Rightarrow> srvreqs \<Rightarrow> (nat list \<times> srvreqs) option" where
  "np_srv_remove_conn connclose c conns q =
     do { q \<leftarrow> (case connclose of None \<Rightarrow> Some q | Some f \<Rightarrow> f c q);
          q \<leftarrow> (if c \<in> set conns then np_conn_decref c q else Some q);
          Some (remove1 c conns, q) }"

definition np_conn_read_proc :: "(addr \<Rightarrow> qact) \<Rightarrow> (nat \<Rightarrow> qact) option \<Rightarrow> 'e npsrv \<Rightarrow> nat \<Rightarrow> Npfcall \<Rightarrow> bytes list \<Rightarrow>
    nat list \<Rightarrow> srvreqs \<Rightarrow> 'e conn \<Rightarrow> (nat list \<times> srvreqs \<times> 'e conn) option" where
  "np_conn_read_proc fl connclose sv c fc0 input conns q s =
     do { q \<leftarrow> np_conn_incref c q;
          q \<leftarrow> np_conn_read c (unat (c_msize s)) (c_dotu s) fc0 [] input q;
          let q = conn_upd c (\<lambda>n. n\<lparr>n_trans := None\<rparr>) q;
          (conns, q) \<leftarrow> np_srv_remove_conn connclose c conns q;
          (q, s) \<leftarrow> np_conn_reset fl sv c 0 False False q s;
          q \<leftarrow> np_conn_decref c q;
          Some (conns, q, s) }"

lemma conn_frame [simp]: "rview (q\<lparr>q_conn := f\<rparr>) = rview q" "qlists (q\<lparr>q_conn := f\<rparr>) ps ws pl = qlists q ps ws pl"
  by (simp_all add: rview_def qlists_def fun_eq_iff)

text \<open>Only the references of a connection change, and they still cover its requests.\<close>

lemma qinv_conn:
  assumes "qinv q ps ws gs" "\<And>d. d \<noteq> c \<Longrightarrow> f d = q_conn q d"
    "int (length (filter (conn_is (rview q) c) (ps @ ws))) \<le> n_refcount (f c)"
  shows "qinv (q\<lparr>q_conn := f\<rparr>) ps ws gs"
proof -
  have "int (length (filter (conn_is (rview q) d) (ps @ ws))) \<le> n_refcount (f d)" for d
    using assms by (cases "d = c") (auto simp: qinv_def)
  then show ?thesis using assms(1) by (simp add: qinv_def)
qed

lemma remove_conn_ok:
  assumes "0 < n_refcount (q_conn q c)"
  shows "np_srv_remove_conn None c conns q = Some (remove1 c conns,
    conn_upd c (\<lambda>n. n\<lparr>n_refcount := n_refcount n - (if c \<in> set conns then 1 else 0)\<rparr>) q)"
  using assms by (simp add: np_srv_remove_conn_def np_conn_decref_def conn_upd_def)

text \<open>The end of the reader: the pending requests of the connection are dropped without an answer, its fids are gone.\<close>

lemma close_ok:
  assumes "qinv q ps ws gs" "\<forall>a \<in> set ws. \<not> conn_is (rview q) c a" "pool_ok s" "sv_auth sv = None" "sv_fiddestroy sv = None"
    "int (length (of_conn q c ps)) < n_refcount (q_conn q c)"
  shows "\<exists>q' q''. np_conn_reset fl sv c 0 False False q s = Some (q', s\<lparr>c_fids := Map.empty, c_pool := None\<rparr>) \<and>
    np_conn_decref c q' = Some q'' \<and> qinv q'' (filter (\<lambda>a. \<not> conn_is (rview q) c a) ps) ws gs \<and>
    (\<forall>a \<in> set ps. conn_is (rview q) c a \<longrightarrow> \<not> live (rview q'') a) \<and> (\<forall>a. a \<notin> set (of_conn q c ps) \<longrightarrow> rview q'' a = rview q a) \<and>
    q_conn q'' = (q_conn q)(c := (q_conn q c)\<lparr>n_resetting := False, n_refcount := n_refcount (q_conn q c) - int (length (of_conn q c ps)) - 1\<rparr>)"
proof -
  let ?ps = "filter (\<lambda>a. \<not> conn_is (rview q) c a) ps"
  have "\<forall>a \<in> set ws. \<not> waits (rview q) c 0 a" using assms(2) by (auto simp: waits_def conn_is_def awaited_def split: option.splits)
  then obtain q' where q': "np_conn_reset fl sv c 0 False False q s = Some (q', s\<lparr>c_fids := Map.empty, c_pool := None\<rparr>)" "qinv q' ?ps ws gs"
      "\<forall>a \<in> set (of_conn q c ps). \<not> live (rview q') a" "\<forall>a. a \<notin> set (of_conn q c ps) \<longrightarrow> rview q' a = rview q a"
      "q_conn q' = (q_conn q)(c := (q_conn q c)\<lparr>n_resetting := False, n_refcount := n_refcount (q_conn q c) - int (length (of_conn q c ps))\<rparr>)"
    using reset_reqs_ok [OF assms(1) _ close_fids_ok [OF assms(3-5)]] by blast
  let ?q = "conn_upd c (\<lambda>n. n\<lparr>n_refcount := n_refcount n - 1\<rparr>) q'"
  have dec: "np_conn_decref c q' = Some ?q" using assms(6) q'(5) by (simp add: np_conn_decref_def)
  have "conn_is (rview q') c a \<longleftrightarrow> conn_is (rview q) c a" if "a \<in> set (?ps @ ws)" for a
  proof -
    have "a \<notin> set (of_conn q c ps)" using that assms(2) by (auto simp: of_conn_def)
    then show ?thesis using q'(4) view_cong(4) by metis
  qed
  then have "filter (conn_is (rview q') c) (?ps @ ws) = []" using assms(2) by (auto simp: filter_empty_conv)
  then have "qinv ?q ?ps ws gs"
    unfolding conn_upd_def using assms(6) q'(5) by (intro qinv_conn [OF q'(2), of c]) simp_all
  moreover have "q_conn ?q = (q_conn q)(c := (q_conn q c)\<lparr>n_resetting := False, n_refcount := n_refcount (q_conn q c) - int (length (of_conn q c ps)) - 1\<rparr>)"
    using q'(5) by (simp add: conn_upd_def)
  moreover have "rview ?q = rview q'" by (simp add: conn_upd_def)
  ultimately show ?thesis using q'(1,3,4) dec by (intro exI [of _ q'] exI [of _ ?q]) (auto simp: of_conn_def)
qed

lemma size_above:
  assumes "m < pkt_size buf" "pkt_size buf < 2 ^ 31"
  shows "int (unat m) < msg_size buf"
proof -
  have "unat (pkt_size buf) < 2 ^ 31" "unat m < unat (pkt_size buf)" using assms by (simp_all add: word_less_nat_alt)
  then show ?thesis unfolding msg_size_def by (simp only: sint_small of_nat_less_iff)
qed

text \<open>
  A message that is too long ends the connection (C34). When the input starts with a size above \<open>msize\<close> (and below \<open>2 ^ 31\<close>, from
  where on the C code takes it for a negative number, see \<open>negative_size_not_refused\<close>), then however the bytes
  arrive and whatever follows the size, the reader queues no request: it fills its
  buffer at most, leaves the loop and closes the connection. Its transport is closed, the pending requests of
  the connection are dropped and nothing is written to any connection, the connection is off the list of the server and has no fids,
  the reference of the list is given back, and no other connection and no request of another one is touched. This
  is for a connection of which no request is being worked on, when the reader need not wait, and for a server
  without an \<^verbatim>\<open>auth\<close>, a \<^verbatim>\<open>fiddestroy\<close> and a \<^verbatim>\<open>connclose\<close> operation.
\<close>

theorem oversized_not_received:
  assumes "qinv q ps ws gs" "\<not> n_resetting (q_conn q c)" "n_trans (q_conn q c) \<noteq> None"
    "int (length (of_conn q c ps)) < n_refcount (q_conn q c)" "\<forall>a \<in> set ws. \<not> conn_is (rview q) c a"
    "pool_ok s" "sv_auth sv = None" "sv_fiddestroy sv = None"
    "4 \<le> length (concat input)" "[] \<notin> set input" "c_msize s < pkt_size (concat input)" "pkt_size (concat input) < 2 ^ 31"
  shows "\<exists>q'. np_conn_read_proc fl None sv c fc0 input conns q s = Some (remove1 c conns, q', s\<lparr>c_fids := Map.empty, c_pool := None\<rparr>) \<and>
    qinv q' (filter (\<lambda>a. \<not> conn_is (rview q) c a) ps) ws gs \<and>
    (\<forall>a \<in> set ps. conn_is (rview q) c a \<longrightarrow> \<not> live (rview q') a) \<and> (\<forall>a. a \<notin> set (of_conn q c ps) \<longrightarrow> rview q' a = rview q a) \<and>
    q_conn q' = (q_conn q)(c := (q_conn q c)\<lparr>n_trans := None,
      n_refcount := n_refcount (q_conn q c) - int (length (of_conn q c ps)) - (if c \<in> set conns then 1 else 0)\<rparr>)"
proof -
  let ?rc = "\<lambda>k. (q_conn q)(c := (q_conn q c)\<lparr>n_refcount := n_refcount (q_conn q c) + k\<rparr>)" and ?d = "if c \<in> set conns then 1 else 0 :: int"
  have pos: "0 < n_refcount (q_conn q c)" using assms(4) by simp
  have work: "filter (conn_is (rview q) c) ws = []" using assms(5) by simp
  have inc: "np_conn_incref c q = Some (q\<lparr>q_conn := ?rc 1\<rparr>)" using pos by (simp add: np_conn_incref_def conn_upd_def)
  have inv: "qinv (q\<lparr>q_conn := f\<rparr>) ps ws gs"
    if "\<And>d. d \<noteq> c \<Longrightarrow> f d = q_conn q d" "n_refcount (q_conn q c) \<le> n_refcount (f c)" for f
    using that assms(4) work by (intro qinv_conn [OF assms(1), of c]) (simp_all add: of_conn_def)
  have reading: "reading c (q\<lparr>q_conn := ?rc 1\<rparr>)"
  proof -
    have "qinv (q\<lparr>q_conn := ?rc 1\<rparr>) ps ws gs" by (rule inv) simp_all
    then show ?thesis unfolding reading_def using pos assms(2,3) by auto
  qed
  have loop: "np_conn_read c (unat (c_msize s)) (c_dotu s) fc0 [] input (q\<lparr>q_conn := ?rc 1\<rparr>) = Some (q\<lparr>q_conn := ?rc 1\<rparr>)"
    using long_read [OF reading, of "[]" input "unat (c_msize s)"] assms(9,10) size_above [OF assms(11,12)] by simp
  let ?q = "q\<lparr>q_conn := (q_conn q)(c := (q_conn q c)\<lparr>n_trans := None, n_refcount := n_refcount (q_conn q c) + 1 - ?d\<rparr>)\<rparr>"
  have upd: "conn_upd c (\<lambda>n. n\<lparr>n_refcount := n_refcount n - ?d\<rparr>) (conn_upd c (\<lambda>n. n\<lparr>n_trans := None\<rparr>) (q\<lparr>q_conn := ?rc 1\<rparr>)) = ?q"
    by (simp add: conn_upd_def)
  have rem: "np_srv_remove_conn None c conns (conn_upd c (\<lambda>n. n\<lparr>n_trans := None\<rparr>) (q\<lparr>q_conn := ?rc 1\<rparr>)) = Some (remove1 c conns, ?q)"
    using pos remove_conn_ok [of "conn_upd c (\<lambda>n. n\<lparr>n_trans := None\<rparr>) (q\<lparr>q_conn := ?rc 1\<rparr>)" c conns] unfolding upd by (simp add: conn_upd_def)
  have q: "qinv ?q ps ws gs" by (rule inv) simp_all
  have same: "rview ?q = rview q" "of_conn ?q c ps = of_conn q c ps" by (simp_all add: of_conn_def)
  have "int (length (of_conn ?q c ps)) < n_refcount (q_conn ?q c)" "\<forall>a \<in> set ws. \<not> conn_is (rview ?q) c a"
    using assms(4,5) unfolding same by simp_all
  from close_ok [OF q this(2) assms(6-8) this(1), of fl, unfolded same]
  obtain q1 q' where r: "np_conn_reset fl sv c 0 False False ?q s = Some (q1, s\<lparr>c_fids := Map.empty, c_pool := None\<rparr>)" "np_conn_decref c q1 = Some q'"
      "qinv q' (filter (\<lambda>a. \<not> conn_is (rview q) c a) ps) ws gs" "\<forall>a \<in> set ps. conn_is (rview q) c a \<longrightarrow> \<not> live (rview q') a"
      "\<forall>a. a \<notin> set (of_conn q c ps) \<longrightarrow> rview q' a = rview q a"
      "q_conn q' = (q_conn ?q)(c := (q_conn ?q c)\<lparr>n_resetting := False, n_refcount := n_refcount (q_conn ?q c) - int (length (of_conn q c ps)) - 1\<rparr>)"
    by blast
  have "np_conn_read_proc fl None sv c fc0 input conns q s = Some (remove1 c conns, q', s\<lparr>c_fids := Map.empty, c_pool := None\<rparr>)"
    unfolding np_conn_read_proc_def inc loop bind.bind_lunit Let_def rem prod.case r(1,2) ..
  moreover have "n_resetting_update (\<lambda>_. False) (q_conn q c) = q_conn q c" using assms(2) by (cases "q_conn q c") simp
  then have "q_conn q' = (q_conn q)(c := (q_conn q c)\<lparr>n_trans := None, n_refcount := n_refcount (q_conn q c) - int (length (of_conn q c ps)) - ?d\<rparr>)"
    unfolding r(6) by (cases "q_conn q c") (simp add: fun_eq_iff)
  ultimately show ?thesis using r(3-5) by blast
qed

theorem oversized_not_received_witness:
  "\<exists>a. qinv ex1 [a] [] [] \<and> conn_is (rview ex1) 0 a \<and>
    4 \<le> length (concat [[1, 64], [0, 0, 120]] :: bytes) \<and> ([] :: bytes) \<notin> set [[1, 64], [0, 0, 120]] \<and>
    c_msize conn2 < pkt_size (concat [[1, 64], [0, 0, 120]]) \<and> pkt_size (concat [[1, 64], [0, 0, 120]]) < 2 ^ 31 \<and>
    (\<exists>q' s'. np_conn_read_proc np_default_flush None (np_srv_create (\<lambda>_ s. Some (None, s)) (\<lambda>_ s. Some (None, s))) 0 npfcall0
        [[1, 64], [0, 0, 120]] [0] ex1 conn2 = Some ([], q', s') \<and>
      qinv q' [] [] [] \<and> \<not> live (rview q') a \<and> n_trans (q_conn q' 0) = None \<and> n_refcount (q_conn q' 0) = 0 \<and> c_pool s' = None)"
proof -
  let ?sv = "np_srv_create (\<lambda>_ s. Some (None, s)) (\<lambda>_ s. Some (None, s)) :: unit npsrv" and ?i = "[[1, 64], [0, 0, 120]] :: bytes list"
  have "qinv (start conns1) [] [] []" using conns1_ok by (intro start_inv) (simp add: conns_ok_def)
  then obtain a where e: "qinv ex1 [a] [] []" "rview ex1 = (rview (start conns1))(a \<mapsto> new_req 0 tread5)"
    using receive_inv [of "start conns1" "[]" "[]" "[]" 0 tread5] ex_conns ex_run(1) by auto
  have c: "conn_is (rview ex1) 0 a" using e(2) by (simp add: conn_is_def new_req_def)
  have n: "\<not> n_resetting (q_conn ex1 0)" "n_trans (q_conn ex1 0) \<noteq> None" "n_refcount (q_conn ex1 0) = 2"
    by (simp_all add: ex1_def ex_state_def conns1_def)
  have of_a: "of_conn ex1 0 [a] = [a]" using c by (simp add: of_conn_def)
  have "4 \<le> length (concat ?i)" "[] \<notin> set ?i" by simp_all
  moreover have "pkt_size (concat ?i) = 16385"
    by (simp add: pkt_size_def buf_get_int32_def buf_init_def buf_check_size_def cb_load_def cb_in_range_def)
  then have "c_msize conn2 < pkt_size (concat ?i)" "pkt_size (concat ?i) < 2 ^ 31" by (simp_all add: conn2_def conn0_def)
  ultimately show ?thesis
    using oversized_not_received [OF e(1) n(1,2) _ _ pool_ok_conn2, of ?sv ?i np_default_flush npfcall0 "[0]"] of_a c n(3) e(1)
    by (auto simp: np_srv_create_def)
qed

end
