(* ===== verification/Npcpool.thy ===== *)
theory Npcpool
  imports Np_Prelude
begin

text \<open>
  The pools the client library takes tags and fids from, \<^verbatim>\<open>libnpclient/pool.c\<close>: a bit map that grows on demand. The map is a
  list of bytes, its length is \<^verbatim>\<open>msize\<close>. Sizes are natural numbers: \<^verbatim>\<open>msize * 8\<close> is computed in a signed 32-bit number in the
  source, so the model is valid for maps of fewer than \<open>2\<^sup>2\<^sup>8\<close> bytes, that is \<open>2\<^sup>3\<^sup>1\<close> identifiers.
\<close>

definition m2id :: "nat list" where
  "m2id =
    [0, 1, 0, 2, 0, 1, 0, 3, 0, 1, 0, 2, 0, 1, 0, 4, 0, 1, 0, 2, 0, 1, 0, 3, 0, 1, 0, 2, 0, 1, 0, 5,
     0, 1, 0, 2, 0, 1, 0, 3, 0, 1, 0, 2, 0, 1, 0, 4, 0, 1, 0, 2, 0, 1, 0, 3, 0, 1, 0, 2, 0, 1, 0, 6,
     0, 1, 0, 2, 0, 1, 0, 3, 0, 1, 0, 2, 0, 1, 0, 4, 0, 1, 0, 2, 0, 1, 0, 3, 0, 1, 0, 2, 0, 1, 0, 5,
     0, 1, 0, 2, 0, 1, 0, 3, 0, 1, 0, 2, 0, 1, 0, 4, 0, 1, 0, 2, 0, 1, 0, 3, 0, 1, 0, 2, 0, 1, 0, 7,
     0, 1, 0, 2, 0, 1, 0, 3, 0, 1, 0, 2, 0, 1, 0, 4, 0, 1, 0, 2, 0, 1, 0, 3, 0, 1, 0, 2, 0, 1, 0, 5,
     0, 1, 0, 2, 0, 1, 0, 3, 0, 1, 0, 2, 0, 1, 0, 4, 0, 1, 0, 2, 0, 1, 0, 3, 0, 1, 0, 2, 0, 1, 0, 6,
     0, 1, 0, 2, 0, 1, 0, 3, 0, 1, 0, 2, 0, 1, 0, 4, 0, 1, 0, 2, 0, 1, 0, 3, 0, 1, 0, 2, 0, 1, 0, 5,
     0, 1, 0, 2, 0, 1, 0, 3, 0, 1, 0, 2, 0, 1, 0, 4, 0, 1, 0, 2, 0, 1, 0, 3, 0, 1, 0, 2, 0, 1, 0, 0]"

record Npcpool =
  cp_maxid :: u32
  cp_map :: "u8 list"

definition npc_create_pool :: "u32 \<Rightarrow> Npcpool" where
  "npc_create_pool maxid = \<lparr>cp_maxid = maxid, cp_map = replicate 32 0\<rparr>"

text \<open>The first byte that has a free bit; the length of the map if there is none.\<close>

fun free_byte :: "u8 list \<Rightarrow> nat" where
  "free_byte [] = 0"
| "free_byte (b # bs) = (if b \<noteq> 255 then 0 else Suc (free_byte bs))"

text \<open>The map after \<^verbatim>\<open>realloc\<close>; \<open>mem\<close> says whether it succeeds.\<close>

definition grow_map :: "bool \<Rightarrow> Npcpool \<Rightarrow> u8 list" where
  "grow_map mem p =
     (let m = length (cp_map p);
          n = (if (m + 32) * 8 > unat (cp_maxid p) then unat (cp_maxid p) div 8 + 1 else m + 32)
      in if free_byte (cp_map p) \<ge> m \<and> m * 8 < unat (cp_maxid p) \<and> mem
         then cp_map p @ replicate (n - m) 0 else cp_map p)"

text \<open>\<open>None\<close> means that the caller waits for an identifier to be given back and then starts again.\<close>

definition npc_get_id :: "bool \<Rightarrow> Npcpool \<Rightarrow> (nat \<times> Npcpool) option" where
  "npc_get_id mem p =
     (let i = free_byte (cp_map p); bs = grow_map mem p
      in if i \<ge> length bs then None
         else
           (let ret = m2id ! unat (bs ! i)
            in Some (ret + i * 8, p\<lparr>cp_map := bs[i := bs ! i OR push_bit ret 1]\<rparr>)))"

text \<open>\<open>None\<close>: an access outside the map.\<close>

definition npc_put_id :: "Npcpool \<Rightarrow> nat \<Rightarrow> Npcpool option" where
  "npc_put_id p ident =
     (let i = ident div 8
      in if i < length (cp_map p)
         then Some (p\<lparr>cp_map := (cp_map p)[i := cp_map p ! i AND NOT (push_bit (ident mod 8) 1)]\<rparr>)
         else None)"

subsection \<open>The identifiers in use\<close>

definition used :: "Npcpool \<Rightarrow> nat set" where
  "used p = {n. n div 8 < length (cp_map p) \<and> bit (cp_map p ! (n div 8)) (n mod 8)}"

text \<open>The table gives the lowest bit that is clear.\<close>

lemma m2id_table: "list_all (\<lambda>(x, r). x = 255 \<or> r < 8 \<and> x mod 2 ^ Suc r = 2 ^ r - 1) (enumerate 0 m2id)"
  by (simp add: m2id_def)

lemma m2id_length: "length m2id = 256"
  by (simp add: m2id_def)

lemma m2id_free:
  assumes "b \<noteq> (255 :: u8)"
  shows "m2id ! unat b < 8" "\<not> bit b (m2id ! unat b)" "k < m2id ! unat b \<Longrightarrow> bit b k"
proof -
  let ?r = "m2id ! unat b"
  have lt: "unat b < length m2id" using unsigned_less [of b] by (simp add: m2id_length)
  have "unat b \<noteq> 255"
  proof
    assume "unat b = 255"
    then have "unat b = unat (255 :: u8)" by simp
    then show False using assms by (simp only: word_unat_eq_iff)
  qed
  moreover have "(unat b, ?r) \<in> set (enumerate 0 m2id)" using lt by (simp add: in_set_enumerate_eq)
  ultimately have r: "?r < 8" "take_bit (Suc ?r) (unat b) = mask ?r"
    using m2id_table unfolding list_all_iff by (auto simp: take_bit_eq_mod mask_eq_exp_minus_1)
  have "bit (unat b) j \<longleftrightarrow> j < ?r" if "j < Suc ?r" for j
    using that r(2) by (metis bit_take_bit_iff bit_mask_iff possible_bit_nat)
  then show "?r < 8" "\<not> bit b ?r" "k < ?r \<Longrightarrow> bit b k" using r(1) by (simp_all add: bit_unsigned_iff)
qed

lemma free_byte_le: "free_byte bs \<le> length bs"
  by (induction bs) auto

lemma free_byte_nth: "free_byte bs < length bs \<Longrightarrow> bs ! free_byte bs \<noteq> 255"
  by (induction bs) auto

lemma free_byte_full: "j < free_byte bs \<Longrightarrow> bs ! j = 255"
  by (induction bs arbitrary: j) (auto simp: nth_Cons split: nat.splits if_splits)

lemma bit_255: "k < 8 \<Longrightarrow> bit (255 :: u8) k"
proof -
  have "(255 :: u8) = mask 8" by (simp add: mask_eq_exp_minus_1)
  then show "k < 8 \<Longrightarrow> bit (255 :: u8) k" by (simp only: bit_mask_iff) simp
qed

lemma bit_set: "k < 8 \<Longrightarrow> bit (b OR push_bit r 1 :: u8) k \<longleftrightarrow> bit b k \<or> k = r"
  by (auto simp: bit_or_iff bit_exp_iff)

lemma bit_clear: "k < 8 \<Longrightarrow> bit (b AND NOT (push_bit r 1) :: u8) k \<longleftrightarrow> bit b k \<and> k \<noteq> r"
  by (auto simp: bit_and_iff bit_not_iff bit_exp_iff)

lemma used_grow: "used (p\<lparr>cp_map := cp_map p @ replicate k 0\<rparr>) = used p"
proof -
  have "(cp_map p @ replicate k 0) ! j = (if j < length (cp_map p) then cp_map p ! j else 0)" if "j < length (cp_map p) + k" for j
    using that by (simp add: nth_append)
  then show ?thesis by (auto simp: used_def split: if_splits)
qed

lemma grow_map_cases:
  obtains k where "grow_map mem p = cp_map p @ replicate k 0"
proof (cases "grow_map mem p = cp_map p")
  case True
  then show thesis using that [of 0] by simp
next
  case False
  then show thesis using that unfolding grow_map_def Let_def by (metis (no_types))
qed

lemma used_update:
  assumes "i < length (cp_map p)" "r < 8"
  shows "used (p\<lparr>cp_map := (cp_map p)[i := cp_map p ! i OR push_bit r 1]\<rparr>) = insert (r + i * 8) (used p)"
    "used (p\<lparr>cp_map := (cp_map p)[i := cp_map p ! i AND NOT (push_bit r 1)]\<rparr>) = used p - {r + i * 8}"
proof -
  have "n = r + i * 8 \<longleftrightarrow> n div 8 = i \<and> n mod 8 = r" for n using assms(2) by auto
  then show "used (p\<lparr>cp_map := (cp_map p)[i := cp_map p ! i OR push_bit r 1]\<rparr>) = insert (r + i * 8) (used p)"
    "used (p\<lparr>cp_map := (cp_map p)[i := cp_map p ! i AND NOT (push_bit r 1)]\<rparr>) = used p - {r + i * 8}"
    using assms bit_set [of _ _ r] bit_clear [of _ _ r] by (auto simp: used_def nth_list_update)
qed

lemma get_id_step:
  assumes "npc_get_id mem p = Some (n, p')"
  obtains q i where "used q = used p" "cp_map q = grow_map mem p" "i = free_byte (cp_map p)" "i < length (cp_map q)" "cp_map q ! i \<noteq> 255"
    "n = m2id ! unat (cp_map q ! i) + i * 8" "p' = q\<lparr>cp_map := (cp_map q)[i := cp_map q ! i OR push_bit (m2id ! unat (cp_map q ! i)) 1]\<rparr>"
proof -
  let ?q = "p\<lparr>cp_map := grow_map mem p\<rparr>" and ?i = "free_byte (cp_map p)"
  obtain k where k: "grow_map mem p = cp_map p @ replicate k 0" by (rule grow_map_cases)
  have i: "?i < length (grow_map mem p)" using assms by (auto simp: npc_get_id_def Let_def split: if_splits)
  have "grow_map mem p ! ?i \<noteq> 255"
    using i k free_byte_nth [of "cp_map p"] free_byte_le [of "cp_map p"] by (auto simp: nth_append)
  moreover have "used ?q = used p" using k used_grow [of p k] by simp
  ultimately show thesis using that [of ?q ?i] i assms by (auto simp: npc_get_id_def Let_def split: if_splits)
qed

lemma get_id_fresh:
  assumes "npc_get_id mem p = Some (n, p')"
  shows "n \<notin> used p" "used p' = insert n (used p)"
proof -
  obtain q i where g: "used q = used p" "i < length (cp_map q)" "cp_map q ! i \<noteq> 255"
      "n = m2id ! unat (cp_map q ! i) + i * 8" "p' = q\<lparr>cp_map := (cp_map q)[i := cp_map q ! i OR push_bit (m2id ! unat (cp_map q ! i)) 1]\<rparr>"
    by (rule get_id_step [OF assms])
  note free = m2id_free [OF g(3)]
  have "n \<notin> used q" unfolding used_def using free(1,2) g(4) by simp
  then show "n \<notin> used p" using g(1) by simp
  show "used p' = insert n (used p)" using used_update(1) [OF g(2) free(1)] g(1,4,5) by simp
qed

lemma put_id_used:
  assumes "n div 8 < length (cp_map p)"
  shows "\<exists>p'. npc_put_id p n = Some p' \<and> used p' = used p - {n} \<and> cp_maxid p' = cp_maxid p \<and> length (cp_map p') = length (cp_map p)"
  using used_update(2) [OF assms, of "n mod 8"] assms by (simp add: npc_put_id_def Let_def)

text \<open>With memory for the map a caller waits only when all identifiers below \<^verbatim>\<open>maxid\<close> are in use.\<close>

lemma get_id_waits:
  assumes "npc_get_id True p = None"
  shows "{..<unat (cp_maxid p)} \<subseteq> used p"
proof -
  have full: "length (grow_map True p) \<le> free_byte (cp_map p)" using assms by (auto simp: npc_get_id_def Let_def split: if_splits)
  moreover obtain k where "grow_map True p = cp_map p @ replicate k 0" by (rule grow_map_cases)
  ultimately have f: "length (cp_map p) \<le> free_byte (cp_map p)" by simp
  have "unat (cp_maxid p) \<le> length (cp_map p) * 8"
  proof (rule ccontr)
    assume "\<not> ?thesis"
    then have "length (cp_map p) < length (grow_map True p)" using f by (auto simp: grow_map_def Let_def)
    then show False using full free_byte_le [of "cp_map p"] by simp
  qed
  moreover have "cp_map p ! j = 255" if "j < length (cp_map p)" for j using that f free_byte_full [of j "cp_map p"] by simp
  ultimately show ?thesis using bit_255 by (auto simp: used_def)
qed

text \<open>
  Identifiers are not given out twice (C23). Whatever the map holds, \<^verbatim>\<open>npc_get_id\<close> either waits or returns an identifier that
  is not in use, the smallest there is, and marks exactly it; \<^verbatim>\<open>npc_put_id\<close> of it gives the pool back its identifiers.
  It waits only when every identifier below the end of the map is in use.
\<close>

theorem ids_unique:
  shows "case npc_get_id mem p of
      None \<Rightarrow> {..<8 * length (cp_map p)} \<subseteq> used p
    | Some (n, p') \<Rightarrow> n \<notin> used p \<and> used p' = insert n (used p) \<and> {..<n} \<subseteq> used p \<and>
        (\<exists>p''. npc_put_id p' n = Some p'' \<and> used p'' = used p)"
proof (cases "npc_get_id mem p")
  case None
  obtain k where "grow_map mem p = cp_map p @ replicate k 0" by (rule grow_map_cases)
  then have "length (cp_map p) \<le> free_byte (cp_map p)" using None by (auto simp: npc_get_id_def Let_def split: if_splits)
  then have "cp_map p ! j = 255" if "j < length (cp_map p)" for j using that free_byte_full [of j "cp_map p"] by simp
  then have "n \<in> used p" if "n < 8 * length (cp_map p)" for n
    using that bit_255 [of "n mod 8"] by (auto simp: used_def)
  then show ?thesis using None by auto
next
  case (Some r)
  obtain n p' where r: "r = (n, p')" by (cases r)
  note new = get_id_fresh [OF Some [unfolded r]]
  obtain q i where g: "used q = used p" "i = free_byte (cp_map p)" "i < length (cp_map q)" "cp_map q ! i \<noteq> 255"
      "n = m2id ! unat (cp_map q ! i) + i * 8" by (rule get_id_step [OF Some [unfolded r]])
  let ?r = "m2id ! unat (cp_map q ! i)"
  note free = m2id_free [OF g(4)]
  have n: "n div 8 = i" "n mod 8 = ?r" using free(1) g(5) by auto
  have "k \<in> used p" if "k < n" for k
  proof (cases "k div 8 = i")
    case True
    then have "k mod 8 < ?r" using that n div_mult_mod_eq [of k 8] div_mult_mod_eq [of n 8] by simp
    then have "bit (cp_map q ! i) (k mod 8)" by (rule free(3))
    then show ?thesis using True g(1,3) by (auto simp: used_def)
  next
    case False
    then have k: "k div 8 < i" using that n(1) div_le_mono [of k n 8] by simp
    then have "k div 8 < length (cp_map p)" using g(2) free_byte_le [of "cp_map p"] by simp
    then show ?thesis using k g(2) free_byte_full [of "k div 8" "cp_map p"] bit_255 [of "k mod 8"] by (simp add: used_def)
  qed
  moreover have "n div 8 < length (cp_map p')" using new(2) by (auto simp: used_def set_eq_iff)
  ultimately show ?thesis using Some r new put_id_used [of n p'] by auto
qed

subsection \<open>The largest identifier\<close>

text \<open>The map never has more bytes than the identifiers up to \<^verbatim>\<open>maxid\<close> need, or the 32 it starts with.\<close>

definition pool_fits :: "Npcpool \<Rightarrow> bool" where
  "pool_fits p \<longleftrightarrow> length (cp_map p) \<le> max 32 (unat (cp_maxid p) div 8 + 1)"

lemma create_fits: "pool_fits (npc_create_pool maxid)"
  by (simp add: pool_fits_def npc_create_pool_def)

lemma free_byte_prefix: "free_byte (replicate n 255 @ [b]) = (if b = 255 then Suc n else n)"
  by (induction n) auto

lemma get_id_fits:
  assumes "pool_fits p" "npc_get_id mem p = Some (n, p')"
  shows "pool_fits p'" "n < 8 * max 32 (unat (cp_maxid p) div 8 + 1)" "cp_maxid p' = cp_maxid p"
proof -
  obtain q :: Npcpool and i where g: "cp_map q = grow_map mem p" "i < length (cp_map q)" "cp_map q ! i \<noteq> 255"
      "n = m2id ! unat (cp_map q ! i) + i * 8" by (rule get_id_step [OF assms(2)])
  have len: "length (grow_map mem p) \<le> max 32 (unat (cp_maxid p) div 8 + 1)"
    using assms(1) by (auto simp: grow_map_def pool_fits_def Let_def)
  show max: "cp_maxid p' = cp_maxid p" using assms(2) by (auto simp: npc_get_id_def Let_def split: if_splits)
  have "length (cp_map p') = length (grow_map mem p)"
    using assms(2) by (auto simp: npc_get_id_def Let_def split: if_splits)
  then show "pool_fits p'" using len max by (simp add: pool_fits_def)
  have "n < 8 * length (grow_map mem p)" using g(1,2,4) m2id_free(1) [OF g(3)] by simp
  then show "n < 8 * max 32 (unat (cp_maxid p) div 8 + 1)" using len by simp
qed

text \<open>
  Bounds of the identifiers. A pool that starts with \<^verbatim>\<open>npc_create_pool\<close> returns identifiers up to \<^verbatim>\<open>maxid\<close> rounded up to the end of
  its byte (and up to 255 in any case), and keeps its map within that bound. \<^verbatim>\<open>maxid\<close> itself is given out: the tag
  pool, made with \<^verbatim>\<open>NOTAG\<close>, returns \<^verbatim>\<open>NOTAG\<close> as the last tag.
\<close>

lemma ids_bounded:
  assumes "pool_fits p" "npc_get_id mem p = Some (n, p')"
  shows "pool_fits p' \<and> n < 8 * max 32 (unat (cp_maxid p) div 8 + 1) \<and>
    npc_get_id mem' \<lparr>cp_maxid = 65535, cp_map = replicate 8191 255 @ [127]\<rparr> =
      Some (65535, \<lparr>cp_maxid = 65535, cp_map = replicate 8191 255 @ [255]\<rparr>)"
proof -
  have "m2id ! 127 = 7" by (simp add: m2id_def)
  then have "npc_get_id mem' \<lparr>cp_maxid = 65535, cp_map = replicate 8191 255 @ [127]\<rparr> =
      Some (65535, \<lparr>cp_maxid = 65535, cp_map = replicate 8191 255 @ [255]\<rparr>)"
    using free_byte_prefix [of 8191 127] by (simp add: npc_get_id_def grow_map_def Let_def nth_append list_update_append del: replicate.simps)
  then show ?thesis using get_id_fits [OF assms] by blast
qed

end
