(* ===== verification/Npcfsys.thy ===== *)
theory Npcfsys
  imports Packets Links Npcpool
begin

text \<open>
  The requests of a client, \<^verbatim>\<open>libnpclient/fsys.c\<close>: requests that wait to be written, requests that wait for their
  response, and the pool of tags. A request is queued by \<^verbatim>\<open>npc_rpcnb\<close>, written by \<^verbatim>\<open>npc_write_proc\<close>, and
  given its response by \<^verbatim>\<open>npc_read_proc\<close>, which finds it by its tag. The steps of these three threads
  interleave; a step is what a thread does from taking the lock to taking it again, so it includes the write
  and the callback that follow. The read loop in front of the response is that of the server's connections.

  The callback of a request is recorded: \<open>fs_done\<close> lists, in order, the requests whose callback was
  called and with what. An operation is \<open>None\<close> where the C code is undefined. Allocations succeed.
\<close>

datatype reply = Reply Npfcall | Failed cstring u32

record Npcreq =
  cr_tag :: u16
  cr_tc :: Npfcall
  cr_flushed :: bool
  cr_next :: ptr
  cr_prev :: ptr

record Npcfsys =
  fs_req :: "Npcreq heap"
  fs_unsent_first :: ptr
  fs_unsent_last :: ptr
  fs_pend_first :: ptr
  fs_brk :: addr
  fs_tagpool :: Npcpool
  fs_trans :: bool
  fs_sent :: "bytes list"
  fs_done :: "(Npfcall \<times> reply) list"

definition npc_create_fsys :: Npcfsys where
  "npc_create_fsys = \<lparr>fs_req = Map.empty, fs_unsent_first = None, fs_unsent_last = None, fs_pend_first = None, fs_brk = 0,
     fs_tagpool = npc_create_pool (ucast NOTAG), fs_trans = True, fs_sent = [], fs_done = []\<rparr>"

subsection \<open>Queueing a request\<close>

datatype rpc_result = Refused | Waiting | Queued

definition set_cr_next :: "ptr \<Rightarrow> Npcreq \<Rightarrow> Npcreq" where
  "set_cr_next p r = r\<lparr>cr_next := p\<rparr>"

definition set_cr_prev :: "ptr \<Rightarrow> Npcreq \<Rightarrow> Npcreq" where
  "set_cr_prev p r = r\<lparr>cr_prev := p\<rparr>"

definition npc_reqalloc :: "u16 \<Rightarrow> Npfcall \<Rightarrow> Npcreq" where
  "npc_reqalloc tag tc = \<lparr>cr_tag = tag, cr_tc = tc, cr_flushed = False, cr_next = None, cr_prev = None\<rparr>"

definition add_unsent :: "Npcreq \<Rightarrow> Npcfsys \<Rightarrow> Npcfsys option" where
  "add_unsent r fs =
     (let a = fs_brk fs; h = (fs_req fs)(a \<mapsto> set_cr_prev (fs_unsent_last fs) r)
      in do { h \<leftarrow> heap_upd_opt h (fs_unsent_last fs) (set_cr_next (Some a));
              Some (fs\<lparr>fs_req := h, fs_brk := a + 1, fs_unsent_last := Some a,
                      fs_unsent_first := (if fs_unsent_first fs = None then Some a else fs_unsent_first fs)\<rparr>) })"

definition npc_rpcnb :: "bool \<Rightarrow> Npfcall \<Rightarrow> Npcfsys \<Rightarrow> (rpc_result \<times> Npcfsys) option" where
  "npc_rpcnb mem tc fs =
     (if \<not> fs_trans fs then Some (Refused, fs)
      else if fc_type tc = Tversion then
        do { fs \<leftarrow> add_unsent (npc_reqalloc (fc_tag tc) tc) fs; Some (Queued, fs) }
      else
        (case npc_get_id mem (fs_tagpool fs) of
           None \<Rightarrow> Some (Waiting, fs)
         | Some (n, p) \<Rightarrow>
             do { tc \<leftarrow> np_set_tag tc (of_nat n);
                  fs \<leftarrow> add_unsent (npc_reqalloc (fc_tag tc) tc) (fs\<lparr>fs_tagpool := p\<rparr>);
                  Some (Queued, fs) }))"

subsection \<open>Writing\<close>

text \<open>One round of \<^verbatim>\<open>npc_write_proc\<close>; \<open>ok\<close> says whether the write succeeds.\<close>

definition npc_write_proc :: "bool \<Rightarrow> Npcfsys \<Rightarrow> Npcfsys option" where
  "npc_write_proc ok fs =
     (if \<not> fs_trans fs then Some fs
      else
        (case fs_unsent_first fs of
           None \<Rightarrow> Some fs
         | Some a \<Rightarrow>
             do { r \<leftarrow> fs_req fs a;
                  h \<leftarrow> heap_upd (fs_req fs) a (\<lambda>r. set_cr_next (fs_pend_first fs) (set_cr_prev None r));
                  h \<leftarrow> heap_upd_opt h (fs_pend_first fs) (set_cr_prev (Some a));
                  Some (fs\<lparr>fs_req := h, fs_unsent_first := cr_next r,
                          fs_unsent_last := (if fs_unsent_last fs = Some a then None else fs_unsent_last fs),
                          fs_pend_first := Some a,
                          fs_trans := ok,
                          fs_sent := (if ok then fs_sent fs @ [take (unat (fc_size (cr_tc r))) (fc_pkt (cr_tc r))] else fs_sent fs)\<rparr>) }))"

subsection \<open>Responses\<close>

text \<open>The search for the request with the tag of the response; the result is its predecessor and the request.\<close>

definition has_tag :: "u16 \<Rightarrow> Npcreq \<Rightarrow> bool" where
  "has_tag tag r \<longleftrightarrow> cr_tag r = tag"

partial_function (option) find_tag :: "(Npcreq \<Rightarrow> bool) \<Rightarrow> Npcreq heap \<Rightarrow> ptr \<Rightarrow> ptr \<Rightarrow> (ptr \<times> ptr) option" where
  "find_tag P h preq p =
     (case p of
        None \<Rightarrow> Some (preq, None)
      | Some a \<Rightarrow> do { r \<leftarrow> h a; if P r then Some (preq, Some a) else find_tag P h p (cr_next r) })"

definition response :: "Npfcall \<Rightarrow> Npfcall \<Rightarrow> reply option" where
  "response tc fc =
     (if fc_type fc = Rerror then map_option (\<lambda>e. Failed e (fc_ecode fc)) (np_strdup (fc_ename fc))
      else if fc_type fc \<noteq> fc_type tc + 1 then Some (Failed (cstr ''response mismatch'') 5)
      else Some (Reply fc))"

definition npc_response :: "Npfcall \<Rightarrow> Npcfsys \<Rightarrow> Npcfsys option" where
  "npc_response fc fs =
     do { (preq, p) \<leftarrow> find_tag (has_tag (fc_tag fc)) (fs_req fs) None (fs_pend_first fs);
          (case p of
             None \<Rightarrow> Some fs
           | Some a \<Rightarrow>
               do { r \<leftarrow> fs_req fs a;
                    fs \<leftarrow> (case preq of
                             None \<Rightarrow> Some (fs\<lparr>fs_pend_first := cr_next r\<rparr>)
                           | Some b \<Rightarrow> do { h \<leftarrow> heap_upd (fs_req fs) b (set_cr_next (cr_next r)); Some (fs\<lparr>fs_req := h\<rparr>) });
                    pool \<leftarrow> (if cr_flushed r then Some (fs_tagpool fs) else npc_put_id (fs_tagpool fs) (unat (cr_tag r)));
                    reply \<leftarrow> response (cr_tc r) fc;
                    Some (fs\<lparr>fs_done := fs_done fs @ [(cr_tc r, reply)], fs_tagpool := pool,
                            fs_req := (fs_req fs)(a := None)\<rparr>) }) }"

subsection \<open>The end of a connection\<close>

text \<open>When the reader stops it fails all requests there are. Their tags are not given back.\<close>

partial_function (option) fail_all :: "reply \<Rightarrow> ptr \<Rightarrow> Npcfsys \<Rightarrow> Npcfsys option" where
  "fail_all e p fs =
     (case p of
        None \<Rightarrow> Some fs
      | Some a \<Rightarrow>
          do { r \<leftarrow> fs_req fs a;
               fail_all e (cr_next r) (fs\<lparr>fs_done := fs_done fs @ [(cr_tc r, e)], fs_req := (fs_req fs)(a := None)\<rparr>) })"

definition npc_read_end :: "Npcfsys \<Rightarrow> Npcfsys option" where
  "npc_read_end fs =
     do { let e = Failed (cstr ''connection closed'') 103;
          let unsent = fs_unsent_first fs;
          let pend = fs_pend_first fs;
          fs \<leftarrow> fail_all e unsent (fs\<lparr>fs_unsent_first := None, fs_pend_first := None, fs_trans := False\<rparr>);
          fail_all e pend fs }"

subsection \<open>Cancelling the requests of a fid\<close>

text \<open>
  \<^verbatim>\<open>npc_cancel_fid_requests\<close> up to the point where it flushes the pending requests: the unsent requests of the fid
  leave the queue and are failed, the pending ones are marked. The result are the tags the caller
  then sends a Tflush for. \<^verbatim>\<open>npc_rpc\<close> never returns a positive number, so what the source does in
  that case for a request without a response is dead code.
\<close>

definition has_fid :: "u32 \<Rightarrow> Npcreq \<Rightarrow> bool" where
  "has_fid fid r \<longleftrightarrow> fc_fid (cr_tc r) = fid"

partial_function (option) take_unsent :: "(Npcreq \<Rightarrow> bool) \<Rightarrow> ptr \<Rightarrow> ptr \<Rightarrow> Npcfsys \<Rightarrow> (ptr \<times> Npcfsys) option" where
  "take_unsent P p ureqs fs =
     (case p of
        None \<Rightarrow> Some (ureqs, fs)
      | Some a \<Rightarrow>
          do { r \<leftarrow> fs_req fs a;
               if P r then
                 do { h \<leftarrow> unlink cr_next cr_prev set_cr_next set_cr_prev (fs_req fs) a;
                      h \<leftarrow> heap_upd h a (set_cr_next ureqs);
                      take_unsent P (cr_next r) p
                        (fs\<lparr>fs_req := h,
                            fs_unsent_last := (if fs_unsent_last fs = p then cr_prev r else fs_unsent_last fs),
                            fs_unsent_first := (if fs_unsent_first fs = p then cr_next r else fs_unsent_first fs)\<rparr>) }
               else take_unsent P (cr_next r) ureqs fs })"

partial_function (option) mark_pending :: "(Npcreq \<Rightarrow> bool) \<Rightarrow> ptr \<Rightarrow> Npcfsys \<Rightarrow> (u16 list \<times> Npcfsys) option" where
  "mark_pending P p fs =
     (case p of
        None \<Rightarrow> Some ([], fs)
      | Some a \<Rightarrow>
          do { r \<leftarrow> fs_req fs a;
               if P r then
                 do { h \<leftarrow> heap_upd (fs_req fs) a (\<lambda>r. r\<lparr>cr_flushed := True\<rparr>);
                      (tags, fs) \<leftarrow> mark_pending P (cr_next r) (fs\<lparr>fs_req := h\<rparr>);
                      Some (cr_tag r # tags, fs) }
               else mark_pending P (cr_next r) fs })"

partial_function (option) fail_cancelled :: "ptr \<Rightarrow> Npcfsys \<Rightarrow> Npcfsys option" where
  "fail_cancelled p fs =
     (case p of
        None \<Rightarrow> Some fs
      | Some a \<Rightarrow>
          do { r \<leftarrow> fs_req fs a;
               pool \<leftarrow> npc_put_id (fs_tagpool fs) (unat (cr_tag r));
               fail_cancelled (cr_next r)
                 (fs\<lparr>fs_done := fs_done fs @ [(cr_tc r, Failed (cstr ''file closed'') 5)], fs_tagpool := pool,
                     fs_req := (fs_req fs)(a := None)\<rparr>) })"

definition npc_cancel_fid_requests :: "u32 \<Rightarrow> Npcfsys \<Rightarrow> (u16 list \<times> Npcfsys) option" where
  "npc_cancel_fid_requests fid fs =
     do { (ureqs, fs) \<leftarrow> take_unsent (has_fid fid) (fs_unsent_first fs) None fs;
          (tags, fs) \<leftarrow> mark_pending (has_fid fid) (fs_pend_first fs) fs;
          fs \<leftarrow> fail_cancelled ureqs fs;
          Some (tags, fs) }"

end
