(* ===== verification/Npcfsys_Inv.thy ===== *)
theory Npcfsys_Inv
  imports Npcfsys
begin

text \<open>
  The client's requests: in every interleaving of calls, writes and responses the outstanding requests have
  different tags, and a response reaches the request it answers. And where cancelling goes wrong.
\<close>

subsection \<open>The invariant\<close>

definition fs_lists :: "Npcfsys \<Rightarrow> addr list \<Rightarrow> addr list \<Rightarrow> bool" where
  "fs_lists fs us ps \<longleftrightarrow>
     chain cr_next (fs_req fs) (fs_unsent_first fs) us \<and> chain cr_next (fs_req fs) (fs_pend_first fs) ps \<and>
     distinct (us @ ps) \<and> dom (fs_req fs) = set (us @ ps) \<and> (\<forall>a \<in> dom (fs_req fs). a < fs_brk fs) \<and>
     (fs_trans fs \<longrightarrow> fs_unsent_last fs = lastp None us)"

text \<open>
  What is not a link in a request. The tags of the requests are different from each other and all taken from the pool.
\<close>

definition cr_core :: "Npcreq \<Rightarrow> u16 \<times> Npfcall \<times> bool" where
  "cr_core r = (cr_tag r, cr_tc r, cr_flushed r)"

definition fs_view :: "Npcfsys \<Rightarrow> addr \<Rightarrow> (u16 \<times> Npfcall \<times> bool) option" where
  "fs_view fs a = map_option cr_core (fs_req fs a)"

definition tag_ok :: "nat set \<Rightarrow> u16 \<times> Npfcall \<times> bool \<Rightarrow> bool" where
  "tag_ok U = (\<lambda>(t, tc, f). \<not> f \<and> t = fc_tag tc \<and> unat t \<in> U)"

definition tags_in :: "nat set \<Rightarrow> (addr \<Rightarrow> (u16 \<times> Npfcall \<times> bool) option) \<Rightarrow> bool" where
  "tags_in U v \<longleftrightarrow> (\<forall>a x. v a = Some x \<longrightarrow> tag_ok U x) \<and> (\<forall>a b x y. v a = Some x \<and> v b = Some y \<and> fst x = fst y \<longrightarrow> a = b)"

definition fs_tags :: "Npcfsys \<Rightarrow> bool" where
  "fs_tags fs \<longleftrightarrow>
     cp_maxid (fs_tagpool fs) = 65535 \<and> pool_fits (fs_tagpool fs) \<and> tags_in (used (fs_tagpool fs)) (fs_view fs)"

definition fs_inv :: "Npcfsys \<Rightarrow> bool" where
  "fs_inv fs \<longleftrightarrow> (\<exists>us ps. fs_lists fs us ps) \<and> fs_tags fs"

lemma create_inv: "fs_inv npc_create_fsys"
proof -
  have "fs_lists npc_create_fsys [] []" by (simp add: fs_lists_def npc_create_fsys_def)
  moreover have "fs_tags npc_create_fsys"
    using create_fits [of 65535] by (simp add: fs_tags_def tags_in_def fs_view_def npc_create_fsys_def npc_create_pool_def)
  ultimately show ?thesis by (auto simp: fs_inv_def)
qed

lemma cr_core_links [simp]: "cr_core (set_cr_next p r) = cr_core r" "cr_core (set_cr_prev p r) = cr_core r"
  by (simp_all add: cr_core_def set_cr_next_def set_cr_prev_def)

lemma tags_insert:
  assumes "tags_in U v" "unat (fc_tag tc) \<notin> U"
  shows "tags_in (insert (unat (fc_tag tc)) U) (v(a \<mapsto> (fc_tag tc, tc, False)))"
proof -
  let ?v = "v(a \<mapsto> (fc_tag tc, tc, False))" and ?U = "insert (unat (fc_tag tc)) U"
  have ok: "tag_ok U x" if "v b = Some x" for b x using assms(1) that unfolding tags_in_def by blast
  have old: "fst x \<noteq> fc_tag tc" if "v b = Some x" for b x using ok [OF that] assms(2) by (auto simp: tag_ok_def)
  have inj: "b = c" if "v b = Some x" "v c = Some y" "fst x = fst y" for b c x y
    using assms(1) that unfolding tags_in_def by blast
  have "tag_ok ?U x" if "?v b = Some x" for b x
    using that ok [of b x] by (cases "b = a") (auto simp: tag_ok_def)
  moreover have "b = c" if "?v b = Some x" "?v c = Some y" "fst x = fst y" for b c x y
    using that old [of b x] old [of c y] inj [of b x c y] by (cases "b = a"; cases "c = a"; auto)
  ultimately show ?thesis unfolding tags_in_def by blast
qed

lemma tags_remove:
  assumes "tags_in U v" "v a = Some x"
  shows "tags_in (U - {unat (fst x)}) (v(a := None))"
proof -
  have "unat (fst y) \<noteq> unat (fst x)" if "v b = Some y" "b \<noteq> a" for b y
    using assms that unfolding tags_in_def by (metis unsigned_word_eqI)
  then show ?thesis using assms(1) unfolding tags_in_def tag_ok_def by (fastforce split: if_splits)
qed

subsection \<open>Calls\<close>

lemma add_unsent_lists:
  assumes "fs_lists fs us ps" "fs_trans fs" "cr_next r = None"
  shows "\<exists>fs'. add_unsent r fs = Some fs' \<and> fs_lists fs' (us @ [fs_brk fs]) ps \<and> fs_tagpool fs' = fs_tagpool fs \<and>
    fs_trans fs' = fs_trans fs \<and> fs_sent fs' = fs_sent fs \<and> fs_done fs' = fs_done fs \<and>
    fs_view fs' = (fs_view fs)(fs_brk fs \<mapsto> cr_core r)"
proof -
  let ?a = "fs_brk fs"
  let ?h = "(fs_req fs)(?a \<mapsto> set_cr_prev (fs_unsent_last fs) r)"
  have l: "chain cr_next (fs_req fs) (fs_unsent_first fs) us" "chain cr_next (fs_req fs) (fs_pend_first fs) ps" "distinct (us @ ps)"
      "dom (fs_req fs) = set (us @ ps)" "\<forall>a \<in> dom (fs_req fs). a < ?a" "fs_unsent_last fs = lastp None us"
    using assms(1,2) by (auto simp: fs_lists_def)
  have nin: "?a \<notin> set (us @ ps)" using l(4,5) by blast
  have c: "chain cr_next ?h (fs_unsent_first fs) us" "chain cr_next ?h (fs_pend_first fs) ps"
    using l(1,2) nin by (auto intro: chain_frame)
  have a: "?h ?a = Some (set_cr_prev (fs_unsent_last fs) r)" "cr_next (set_cr_prev (fs_unsent_last fs) r) = None" "distinct (us @ [?a])"
    using assms(3) l(3) nin by (auto simp: set_cr_prev_def)
  show ?thesis
  proof (cases "us = []")
    case True
    then have "add_unsent r fs = Some (fs\<lparr>fs_req := ?h, fs_brk := ?a + 1, fs_unsent_last := Some ?a, fs_unsent_first := Some ?a\<rparr>)"
      using l(1,6) by (simp add: add_unsent_def Let_def)
    moreover have "fs_lists (fs\<lparr>fs_req := ?h, fs_brk := ?a + 1, fs_unsent_last := Some ?a, fs_unsent_first := Some ?a\<rparr>) (us @ [?a]) ps"
      using True c(2) a l(3-5) nin by (fastforce simp: fs_lists_def)
    ultimately show ?thesis by (auto simp: fs_view_def fun_eq_iff)
  next
    case False
    let ?b = "last us"
    obtain s where s: "fs_req fs ?b = Some s" using chain_alloc [OF l(1)] False last_in_set by blast
    have "?b \<in> set us" using False by simp
    then have ba: "?b \<noteq> ?a" "?b \<notin> set ps" using nin l(3) by (metis UnI1 set_append, auto)
    let ?h2 = "?h(?b \<mapsto> set_cr_next (Some ?a) s)"
    let ?fs = "fs\<lparr>fs_req := ?h2, fs_brk := ?a + 1, fs_unsent_last := Some ?a\<rparr>"
    have first: "fs_unsent_first fs \<noteq> None" using l(1) False by (cases us) auto
    have run: "add_unsent r fs = Some ?fs"
      using s ba(1) l(6) first False by (simp add: add_unsent_def Let_def lastp_def)
    have "chain cr_next ?h2 (fs_unsent_first fs) (us @ [?a])"
      by (rule chain_snoc(2) [OF c(1) a(3,1,2)]) (use False in \<open>simp_all add: set_cr_next_def\<close>)
    moreover have "dom ?h2 = insert ?a (dom (fs_req fs))" using s by auto
    ultimately have "fs_lists ?fs (us @ [?a]) ps"
      using l(3-5) nin chain_frame [OF ba(2) c(2)] by (simp add: fs_lists_def less_Suc_eq)
    then show ?thesis using run s ba(1) by (auto simp: fs_view_def fun_eq_iff)
  qed
qed

lemma call_inv:
  assumes "fs_lists fs us ps" "fs_tags fs" "fc_type tc \<noteq> Tversion" "npc_rpcnb mem tc fs = Some (res, fs')"
  shows "if res = Queued then fs_tags fs' \<and> fs_lists fs' (us @ [fs_brk fs]) ps \<and> fs_done fs' = fs_done fs else fs' = fs"
proof (cases "res = Queued")
  case False
  then show ?thesis using assms(3,4) by (auto simp: npc_rpcnb_def bind_eq_Some_conv split: if_splits option.splits)
next
  case True
  obtain n p tc1 where g: "fs_trans fs" "npc_get_id mem (fs_tagpool fs) = Some (n, p)" "np_set_tag tc (of_nat n) = Some tc1"
      "add_unsent (npc_reqalloc (fc_tag tc1) tc1) (fs\<lparr>fs_tagpool := p\<rparr>) = Some fs'"
    using True assms(3,4) by (auto simp: npc_rpcnb_def bind_eq_Some_conv split: if_splits option.splits)
  have tag: "fc_tag tc1 = of_nat n" using g(3) by (auto simp: np_set_tag_def split: if_splits)
  have pool: "n \<notin> used (fs_tagpool fs)" "used p = insert n (used (fs_tagpool fs))" using get_id_fresh [OF g(2)] by auto
  have "n < 65536" using get_id_fits(2) [OF _ g(2)] assms(2) by (auto simp: fs_tags_def)
  then have un: "unat (of_nat n :: u16) = n" by (simp add: unat_of_nat)
  let ?fs = "fs\<lparr>fs_tagpool := p\<rparr>"
  have "fs_lists ?fs us ps" using assms(1) by (simp add: fs_lists_def)
  then have f: "fs_lists fs' (us @ [fs_brk fs]) ps" "fs_tagpool fs' = p" "fs_view fs' = (fs_view ?fs)(fs_brk fs \<mapsto> cr_core (npc_reqalloc (fc_tag tc1) tc1))"
      "fs_done fs' = fs_done fs"
    using add_unsent_lists [of ?fs us ps "npc_reqalloc (fc_tag tc1) tc1"] g(1,4) by (auto simp: npc_reqalloc_def)
  have v: "fs_view ?fs = fs_view fs" "cr_core (npc_reqalloc (fc_tag tc1) tc1) = (fc_tag tc1, tc1, False)"
    by (auto simp: fs_view_def fun_eq_iff cr_core_def npc_reqalloc_def)
  have "tags_in (used p) (fs_view fs')"
    using tags_insert [of "used (fs_tagpool fs)" "fs_view fs" tc1 "fs_brk fs"] assms(2) pool un tag unfolding f(3) v by (simp add: fs_tags_def)
  then have "fs_tags fs'" using get_id_fits(1,3) [OF _ g(2)] assms(2) f(2) by (simp add: fs_tags_def)
  then show ?thesis using True f(1,4) by simp
qed

subsection \<open>Writes\<close>

lemma write_inv:
  assumes "fs_lists fs (a # us) ps" "fs_trans fs"
  shows "\<exists>fs' r. npc_write_proc ok fs = Some fs' \<and> fs_req fs a = Some r \<and> fs_lists fs' us (a # ps) \<and> fs_view fs' = fs_view fs \<and>
    fs_tagpool fs' = fs_tagpool fs \<and> fs_done fs' = fs_done fs \<and> fs_trans fs' = ok \<and>
    fs_sent fs' = (if ok then fs_sent fs @ [take (unat (fc_size (cr_tc r))) (fc_pkt (cr_tc r))] else fs_sent fs)"
proof -
  have l: "chain cr_next (fs_req fs) (fs_unsent_first fs) (a # us)" "chain cr_next (fs_req fs) (fs_pend_first fs) ps" "distinct (a # us @ ps)"
      "dom (fs_req fs) = insert a (set (us @ ps))" "\<forall>a \<in> dom (fs_req fs). a < fs_brk fs" "fs_unsent_last fs = lastp (Some a) us"
    using assms by (auto simp: fs_lists_def)
  obtain r where r: "fs_unsent_first fs = Some a" "fs_req fs a = Some r" "chain cr_next (fs_req fs) (cr_next r) us" using l(1) by auto
  let ?r = "set_cr_next (fs_pend_first fs) (set_cr_prev None r)"
  let ?h = "(fs_req fs)(a \<mapsto> ?r)"
  obtain h where h: "heap_upd_opt ?h (fs_pend_first fs) (set_cr_prev (Some a)) = Some h"
      "\<forall>b. map_option cr_next (h b) = map_option cr_next (?h b)" "\<forall>b. map_option cr_core (h b) = map_option cr_core (?h b)"
  proof (cases ps)
    case Nil
    then show thesis using that [of ?h] l(2) by simp
  next
    case (Cons b ps')
    then obtain s where "fs_pend_first fs = Some b" "fs_req fs b = Some s" "b \<noteq> a" using l(2,3) by auto
    then show thesis using that [of "?h(b \<mapsto> set_cr_prev (Some a) s)"] by (auto simp: set_cr_prev_def cr_core_def)
  qed
  let ?fs = "fs\<lparr>fs_req := h, fs_unsent_first := cr_next r, fs_unsent_last := (if fs_unsent_last fs = Some a then None else fs_unsent_last fs),
      fs_pend_first := Some a, fs_trans := ok,
      fs_sent := (if ok then fs_sent fs @ [take (unat (fc_size (cr_tc r))) (fc_pkt (cr_tc r))] else fs_sent fs)\<rparr>"
  have run: "npc_write_proc ok fs = Some ?fs" using assms(2) r(1,2) h(1) by (simp add: npc_write_proc_def)
  have nx: "map_option cr_next (h b) = map_option cr_next (fs_req fs b)" if "b \<noteq> a" for b using h(2) that by simp
  have "chain cr_next h (cr_next r) us" by (rule chain_cong [OF _ r(3)]) (use l(3) in \<open>auto intro!: nx\<close>)
  moreover have "chain cr_next h (fs_pend_first fs) ps" by (rule chain_cong [OF _ l(2)]) (use l(3) in \<open>auto intro!: nx\<close>)
  moreover obtain s where "h a = Some s" "cr_next s = fs_pend_first fs" using h(2) [rule_format, of a] by (auto simp: set_cr_next_def)
  moreover have "dom h = dom (fs_req fs)"
  proof -
    have "h b = None \<longleftrightarrow> ?h b = None" for b using h(2) by (metis map_option_is_None)
    then show ?thesis using r(2) by (auto simp: dom_def)
  qed
  moreover have "fs_unsent_last ?fs = lastp None us"
    using l(3,6) last_in_set [of us] by (cases us rule: rev_cases) auto
  ultimately have "fs_lists ?fs us (a # ps)" using l(3-5) by (simp add: fs_lists_def)
  moreover have "fs_view ?fs = fs_view fs" using h(3) r(2) by (simp add: fs_view_def fun_eq_iff)
  ultimately show ?thesis using run r(2) by auto
qed

subsection \<open>Responses\<close>

lemma find_tag_found:
  assumes "chain cr_next h p (xs @ a # ys)" "\<forall>x \<in> set xs. \<forall>r. h x = Some r \<longrightarrow> \<not> P r" "h a = Some r" "P r"
  shows "find_tag P h pr p = Some (lastp pr xs, Some a)"
  using assms
proof (induction xs arbitrary: p pr)
  case Nil
  then show ?case by (simp add: find_tag.simps)
next
  case (Cons x xs)
  then obtain s where "p = Some x" "h x = Some s" "\<not> P s" "chain cr_next h (cr_next s) (xs @ a # ys)" by auto
  then show ?case using Cons by (simp add: find_tag.simps [of P h pr "Some x"])
qed

lemma find_tag_none:
  assumes "chain cr_next h p xs" "\<forall>x \<in> set xs. \<forall>r. h x = Some r \<longrightarrow> \<not> P r"
  shows "find_tag P h pr p = Some (lastp pr xs, None)"
  using assms
proof (induction xs arbitrary: p pr)
  case Nil
  then show ?case by (simp add: find_tag.simps)
next
  case (Cons x xs)
  then obtain s where "p = Some x" "h x = Some s" "\<not> P s" "chain cr_next h (cr_next s) xs" by auto
  then show ?case using Cons by (simp add: find_tag.simps [of P h pr "Some x"])
qed

text \<open>A response to a pending request takes it out of the list.\<close>

lemma response_ok:
  assumes "fs_lists fs us (xs @ a # ys)" "fs_tags fs" "fs_req fs a = Some r" "fc_tag fc = cr_tag r" "response (cr_tc r) fc = Some reply"
  shows "\<exists>fs'. npc_response fc fs = Some fs' \<and> fs_lists fs' us (xs @ ys) \<and> fs_view fs' = (fs_view fs)(a := None) \<and>
    fs_done fs' = fs_done fs @ [(cr_tc r, reply)] \<and> fs_sent fs' = fs_sent fs \<and> fs_trans fs' = fs_trans fs \<and>
    used (fs_tagpool fs') = used (fs_tagpool fs) - {unat (cr_tag r)} \<and> fs_tags fs'"
proof -
  have l: "chain cr_next (fs_req fs) (fs_unsent_first fs) us" "chain cr_next (fs_req fs) (fs_pend_first fs) (xs @ a # ys)"
      "distinct (us @ xs @ a # ys)" "dom (fs_req fs) = set (us @ xs @ a # ys)" "\<forall>a \<in> dom (fs_req fs). a < fs_brk fs"
      "fs_trans fs \<longrightarrow> fs_unsent_last fs = lastp None us"
    using assms(1) by (auto simp: fs_lists_def)
  have t: "tags_in (used (fs_tagpool fs)) (fs_view fs)" "cp_maxid (fs_tagpool fs) = 65535" "pool_fits (fs_tagpool fs)" using assms(2) by (auto simp: fs_tags_def)
  have va: "fs_view fs a = Some (cr_core r)" using assms(3) by (simp add: fs_view_def)
  have ok: "\<not> cr_flushed r" "unat (cr_tag r) \<in> used (fs_tagpool fs)"
    using t(1) va unfolding tags_in_def by (auto simp: tag_ok_def cr_core_def)
  have other: "\<not> has_tag (fc_tag fc) s" if "x \<in> set xs" "fs_req fs x = Some s" for x s
  proof
    assume "has_tag (fc_tag fc) s"
    then have "fst (cr_core s) = fst (cr_core r)" using assms(4) by (simp add: has_tag_def cr_core_def)
    then have "x = a" using t(1) va that(2) unfolding tags_in_def by (metis fs_view_def option.simps(9))
    then show False using that(1) l(3) by auto
  qed
  have find: "find_tag (has_tag (fc_tag fc)) (fs_req fs) None (fs_pend_first fs) = Some (lastp None xs, Some a)"
    by (rule find_tag_found [OF l(2) _ assms(3)]) (use other assms(4) in \<open>auto simp: has_tag_def\<close>)
  obtain pool where pool: "npc_put_id (fs_tagpool fs) (unat (cr_tag r)) = Some pool" "used pool = used (fs_tagpool fs) - {unat (cr_tag r)}"
      "cp_maxid pool = 65535" "pool_fits pool"
    using put_id_used [of "unat (cr_tag r)" "fs_tagpool fs"] ok(2) t(2,3) by (auto simp: used_def pool_fits_def)
  define h where "h = (if xs = [] then fs_req fs else (fs_req fs)(last xs \<mapsto> set_cr_next (cr_next r) (the (fs_req fs (last xs)))))"
  define p where "p = (if xs = [] then cr_next r else fs_pend_first fs)"
  let ?fs = "fs\<lparr>fs_req := h(a := None), fs_pend_first := p, fs_done := fs_done fs @ [(cr_tc r, reply)], fs_tagpool := pool\<rparr>"
  have lx: "last xs \<in> set xs" "\<exists>s. fs_req fs (last xs) = Some s" if "xs \<noteq> []"
    using that last_in_set l(4) by (auto simp: dom_def set_eq_iff)
  have "npc_response fc fs = Some ?fs"
    using find assms(3,5) ok(1) pool(1) lx by (cases "xs = []") (auto simp: npc_response_def lastp_def h_def p_def)
  moreover have "chain cr_next h p (xs @ ys)"
    using chain_del [OF l(2) _ assms(3)] l(3) by (cases "xs = []") (auto simp: h_def p_def set_cr_next_def)
  then have "chain cr_next (h(a := None)) p (xs @ ys)" using l(3) by (intro chain_frame) auto
  moreover have "chain cr_next (h(a := None)) (fs_unsent_first fs) us"
  proof -
    have "chain cr_next h (fs_unsent_first fs) us" using l(1,3) lx(1) by (auto simp: h_def intro!: chain_frame)
    then show ?thesis using l(3) by (intro chain_frame) auto
  qed
  moreover have "dom (h(a := None)) = set (us @ xs @ ys)" using l(3,4) lx by (auto simp: h_def)
  moreover have view: "fs_view ?fs = (fs_view fs)(a := None)" using lx(2) by (auto simp: fs_view_def h_def fun_eq_iff)
  moreover have "fs_tags ?fs"
    using tags_remove [OF t(1) va] pool view by (simp add: fs_tags_def cr_core_def)
  ultimately show ?thesis using l pool(2) by (intro exI [of _ ?fs]) (auto simp: fs_lists_def)
qed

lemma response_unknown:
  assumes "fs_lists fs us ps" "\<forall>a \<in> set ps. \<forall>r. fs_req fs a = Some r \<longrightarrow> cr_tag r \<noteq> fc_tag fc"
  shows "npc_response fc fs = Some fs"
  using find_tag_none [of "fs_req fs" "fs_pend_first fs" ps "has_tag (fc_tag fc)" None] assms
  by (auto simp: npc_response_def fs_lists_def has_tag_def)

subsection \<open>The end of a connection\<close>

lemma fail_all_ok:
  assumes "chain cr_next (fs_req fs) p as" "distinct as"
  shows "fail_all e p fs = Some (fs\<lparr>fs_done := fs_done fs @ map (\<lambda>a. (cr_tc (the (fs_req fs a)), e)) as,
    fs_req := fs_req fs |` (- set as)\<rparr>)"
  using assms
proof (induction as arbitrary: p fs)
  case Nil
  then show ?case by (simp add: fail_all.simps)
next
  case (Cons a as)
  then obtain r where r: "p = Some a" "fs_req fs a = Some r" "chain cr_next (fs_req fs) (cr_next r) as" by auto
  let ?fs = "fs\<lparr>fs_done := fs_done fs @ [(cr_tc r, e)], fs_req := (fs_req fs)(a := None)\<rparr>"
  have "chain cr_next (fs_req ?fs) (cr_next r) as" using r(3) Cons.prems(2) by (simp add: chain_frame)
  from Cons.IH [OF this] Cons.prems(2) r show ?case
    by (auto simp: fail_all.simps [of e "Some a"] restrict_map_def fun_eq_iff intro!: map_cong)
qed

lemma read_end_ok:
  assumes "fs_lists fs us ps"
  shows "\<exists>fs'. npc_read_end fs = Some fs' \<and> fs_lists fs' [] [] \<and> fs_req fs' = Map.empty \<and> fs_tagpool fs' = fs_tagpool fs \<and> \<not> fs_trans fs' \<and>
    fs_done fs' = fs_done fs @ map (\<lambda>a. (cr_tc (the (fs_req fs a)), Failed (cstr ''connection closed'') 103)) (us @ ps)"
proof -
  let ?e = "Failed (cstr ''connection closed'') 103"
  let ?fs = "fs\<lparr>fs_unsent_first := None, fs_pend_first := None, fs_trans := False\<rparr>"
  let ?fs1 = "?fs\<lparr>fs_done := fs_done fs @ map (\<lambda>a. (cr_tc (the (fs_req fs a)), ?e)) us,
    fs_req := fs_req fs |` (- set us)\<rparr>"
  have l: "chain cr_next (fs_req fs) (fs_unsent_first fs) us" "chain cr_next (fs_req fs) (fs_pend_first fs) ps" "distinct (us @ ps)"
      "dom (fs_req fs) = set (us @ ps)" using assms by (auto simp: fs_lists_def)
  have "fail_all ?e (fs_unsent_first fs) ?fs = Some ?fs1" using fail_all_ok [of ?fs "fs_unsent_first fs" us ?e] l(1,3) by simp
  moreover have "chain cr_next (fs_req ?fs1) (fs_pend_first fs) ps"
    by (rule chain_cong [OF _ l(2)]) (use l(3) in \<open>auto simp: restrict_map_def\<close>)
  from fail_all_ok [OF this, of ?e] have "fail_all ?e (fs_pend_first fs) ?fs1 =
      Some (?fs1\<lparr>fs_done := fs_done ?fs1 @ map (\<lambda>a. (cr_tc (the (fs_req ?fs1 a)), ?e)) ps, fs_req := fs_req ?fs1 |` (- set ps)\<rparr>)"
    using l(3) by simp
  moreover have "map (\<lambda>a. (cr_tc (the (fs_req ?fs1 a)), ?e)) ps = map (\<lambda>a. (cr_tc (the (fs_req fs a)), ?e)) ps"
    using l(3) by (auto simp: restrict_map_def intro!: map_cong)
  moreover have "fs_req ?fs1 |` (- set ps) = Map.empty" using l(4) by (auto simp: fun_eq_iff restrict_map_def dom_def set_eq_iff)
  ultimately show ?thesis by (auto simp: npc_read_end_def Let_def fs_lists_def)
qed

end
