(* ===== verification/Npcfsys_Props.thy ===== *)
theory Npcfsys_Props
  imports Npcfsys_Inv
begin

text \<open>
  The client as a state machine: calls, writes, responses and the end of the connection in any order. The
  second component of a configuration counts the calls that were queued. Tversion, which takes no tag
  from the pool, is sent before anything else and is left out.
\<close>

inductive client :: "Npcfsys \<times> nat \<Rightarrow> Npcfsys \<times> nat \<Rightarrow> bool" where
  Call: "fc_type tc \<noteq> Tversion \<Longrightarrow> npc_rpcnb mem tc fs = Some (res, fs') \<Longrightarrow> client (fs, n) (fs', if res = Queued then Suc n else n)"
| Write: "npc_write_proc ok fs = Some fs' \<Longrightarrow> client (fs, n) (fs', n)"
| Resp: "npc_response fc fs = Some fs' \<Longrightarrow> client (fs, n) (fs', n)"
| End: "npc_read_end fs = Some fs' \<Longrightarrow> client (fs, n) (fs', n)"

inductive_cases clientE: "client (fs, n) c'"

definition client_inv :: "Npcfsys \<times> nat \<Rightarrow> bool" where
  "client_inv = (\<lambda>(fs, n). \<exists>us ps. fs_lists fs us ps \<and> fs_tags fs \<and> length (fs_done fs) + length (us @ ps) = n)"

lemma write_step:
  assumes "fs_lists fs us ps" "npc_write_proc ok fs = Some fs'"
  shows "\<exists>us' ps'. fs_lists fs' us' ps' \<and> length (us' @ ps') = length (us @ ps) \<and> fs_view fs' = fs_view fs \<and>
    fs_tagpool fs' = fs_tagpool fs \<and> fs_done fs' = fs_done fs"
proof (cases "fs_trans fs \<and> us \<noteq> []")
  case True
  then obtain a us' where "us = a # us'" by (cases us) auto
  then show ?thesis using write_inv [of fs a us' ps ok] assms True by (intro exI [of _ us'] exI [of _ "a # ps"]) auto
next
  case False
  then have "fs' = fs" using assms by (cases "fs_unsent_first fs"; cases us) (auto simp: npc_write_proc_def fs_lists_def split: if_splits)
  then show ?thesis using assms(1) by blast
qed

lemma response_defined:
  assumes "npc_response fc fs = Some fs'" "find_tag (has_tag (fc_tag fc)) (fs_req fs) None (fs_pend_first fs) = Some (pr, Some a)" "fs_req fs a = Some r"
  obtains reply where "response (cr_tc r) fc = Some reply"
  using assms that by (auto simp: npc_response_def bind_eq_Some_conv)

lemma response_step:
  assumes "fs_lists fs us ps" "fs_tags fs" "npc_response fc fs = Some fs'"
  shows "\<exists>ps'. fs_lists fs' us ps' \<and> fs_tags fs' \<and> length (fs_done fs') + length ps' = length (fs_done fs) + length ps"
proof (cases "\<exists>a \<in> set ps. \<exists>r. fs_req fs a = Some r \<and> cr_tag r = fc_tag fc")
  case True
  then obtain xs a ys where ps: "ps = xs @ a # ys" "\<exists>r. fs_req fs a = Some r \<and> cr_tag r = fc_tag fc"
      "\<forall>x \<in> set xs. \<not> (\<exists>r. fs_req fs x = Some r \<and> cr_tag r = fc_tag fc)"
    using split_list_first_prop [OF True] by blast
  then obtain r where r: "fs_req fs a = Some r" "cr_tag r = fc_tag fc" by blast
  have "find_tag (has_tag (fc_tag fc)) (fs_req fs) None (fs_pend_first fs) = Some (lastp None xs, Some a)"
    using find_tag_found [of "fs_req fs" "fs_pend_first fs" xs a ys "has_tag (fc_tag fc)" r None] assms(1) ps(1,3) r
    by (auto simp: fs_lists_def has_tag_def)
  then obtain reply where "response (cr_tc r) fc = Some reply" by (rule response_defined [OF assms(3) _ r(1)])
  then show ?thesis
    using response_ok [of fs us xs a ys r fc reply] assms ps r by (intro exI [of _ "xs @ ys"]) auto
next
  case False
  then have "npc_response fc fs = Some fs" by (intro response_unknown [OF assms(1)]) blast
  then show ?thesis using assms by auto
qed

lemma client_step:
  assumes "client_inv c" "client c c'"
  shows "client_inv c'"
proof -
  obtain fs n where c: "c = (fs, n)" by (cases c)
  obtain us ps where i: "fs_lists fs us ps" "fs_tags fs" "length (fs_done fs) + length (us @ ps) = n" using assms(1) c by (auto simp: client_inv_def)
  show ?thesis using assms(2) unfolding c
  proof (rule clientE)
    show ?thesis if "c' = (fs', if res = Queued then Suc n else n)" "fc_type tc \<noteq> Tversion" "npc_rpcnb mem tc fs = Some (res, fs')" for tc mem res fs'
    proof (cases "res = Queued")
      case True
      then have "fs_tags fs'" "fs_lists fs' (us @ [fs_brk fs]) ps" "fs_done fs' = fs_done fs" using call_inv [OF i(1,2) that(2,3)] by simp_all
      then show ?thesis using True that(1) i(3) unfolding client_inv_def
        by (intro case_prodI2 exI [of _ "us @ [fs_brk fs]"] exI [of _ ps]) simp
    next
      case False
      then have "fs' = fs" using call_inv [OF i(1,2) that(2,3)] by simp
      then show ?thesis using False that(1) assms(1) c by simp
    qed
    show ?thesis if "c' = (fs', n)" "npc_write_proc ok fs = Some fs'" for ok fs'
    proof -
      note t = that
      obtain us' ps' where w: "fs_lists fs' us' ps'" "length (us' @ ps') = length (us @ ps)" "fs_view fs' = fs_view fs"
          "fs_tagpool fs' = fs_tagpool fs" "fs_done fs' = fs_done fs"
        using write_step [OF i(1) t(2)] by blast
      then have "fs_tags fs'" using i(2) by (simp add: fs_tags_def)
      then show ?thesis using w i(3) t(1) by (force simp: client_inv_def)
    qed
    show ?thesis if "c' = (fs', n)" "npc_response fc fs = Some fs'" for fc fs'
      using response_step [OF i(1,2) that(2)] that(1) i(3) by (fastforce simp: client_inv_def)
    show ?thesis if "c' = (fs', n)" "npc_read_end fs = Some fs'" for fs'
    proof -
      have "fs_lists fs' [] []" "fs_req fs' = Map.empty" "fs_tagpool fs' = fs_tagpool fs" "length (fs_done fs') = n"
        using read_end_ok [OF i(1)] that(2) i(3) by auto
      moreover from this have "fs_tags fs'" using i(2) by (simp add: fs_tags_def tags_in_def fs_view_def)
      ultimately show ?thesis using that(1) by (auto simp: client_inv_def)
    qed
  qed
qed

lemma client_reach:
  assumes "client\<^sup>*\<^sup>* (npc_create_fsys, 0) c"
  shows "client_inv c"
  using assms
proof (induction rule: rtranclp_induct)
  case base
  have "fs_lists npc_create_fsys [] []" "fs_done npc_create_fsys = []" by (simp_all add: fs_lists_def npc_create_fsys_def)
  then show ?case using create_inv by (auto simp: client_inv_def fs_inv_def)
qed (rule client_step)

subsection \<open>A run\<close>

text \<open>Three calls on three fids, then two of them are written.\<close>

definition cl_tread :: "u16 \<Rightarrow> u32 \<Rightarrow> Npfcall" where
  "cl_tread tag fid = npfcall0\<lparr>fc_type := Tread, fc_fid := fid, fc_tag := tag, fc_pkt := [0, 0, 0, 0, 0, ucast tag, 0]\<rparr>"

definition cl_req :: "u16 \<Rightarrow> ptr \<Rightarrow> ptr \<Rightarrow> Npcreq" where
  "cl_req tag nx pv = (npc_reqalloc tag (cl_tread tag (ucast tag)))\<lparr>cr_next := nx, cr_prev := pv\<rparr>"

definition cl_state :: "Npcreq heap \<Rightarrow> ptr \<Rightarrow> ptr \<Rightarrow> ptr \<Rightarrow> addr \<Rightarrow> u8 \<Rightarrow> bytes list \<Rightarrow> Npcfsys" where
  "cl_state h uf ul pf brk m sent = \<lparr>fs_req = h, fs_unsent_first = uf, fs_unsent_last = ul, fs_pend_first = pf, fs_brk = brk,
     fs_tagpool = \<lparr>cp_maxid = 65535, cp_map = m # replicate 31 0\<rparr>, fs_trans = True, fs_sent = sent, fs_done = []\<rparr>"

definition cl1 :: Npcfsys where
  "cl1 = cl_state [0 \<mapsto> cl_req 0 None None] (Some 0) (Some 0) None 1 1 []"

definition cl2 :: Npcfsys where
  "cl2 = cl_state [0 \<mapsto> cl_req 0 (Some 1) None, 1 \<mapsto> cl_req 1 None (Some 0)] (Some 0) (Some 1) None 2 3 []"

definition cl3 :: Npcfsys where
  "cl3 = cl_state [0 \<mapsto> cl_req 0 (Some 1) None, 1 \<mapsto> cl_req 1 (Some 2) (Some 0), 2 \<mapsto> cl_req 2 None (Some 1)] (Some 0) (Some 2) None 3 7 []"

definition cl4 :: Npcfsys where
  "cl4 = cl_state [0 \<mapsto> cl_req 0 None None, 1 \<mapsto> cl_req 1 (Some 2) (Some 0), 2 \<mapsto> cl_req 2 None (Some 1)] (Some 1) (Some 2) (Some 0) 3 7 [[]]"

definition cl5 :: Npcfsys where
  "cl5 = cl_state [0 \<mapsto> cl_req 0 None (Some 1), 1 \<mapsto> cl_req 1 (Some 0) None, 2 \<mapsto> cl_req 2 None (Some 1)] (Some 2) (Some 2) (Some 1) 3 7 [[], []]"

lemmas cl_defs = cl1_def cl2_def cl3_def cl4_def cl5_def cl_state_def cl_req_def cl_tread_def npc_reqalloc_def npfcall0_def

lemma cl_runs:
  "npc_rpcnb True (cl_tread 0 0) npc_create_fsys = Some (Queued, cl1)"
  "npc_rpcnb True (cl_tread 0 1) cl1 = Some (Queued, cl2)"
  "npc_rpcnb True (cl_tread 0 2) cl2 = Some (Queued, cl3)"
  "npc_write_proc True cl3 = Some cl4" "npc_write_proc True cl4 = Some cl5"
proof -
  have z: "replicate 32 (0 :: u8) = 0 # replicate 31 0" by (simp flip: replicate_Suc)
  show "npc_rpcnb True (cl_tread 0 0) npc_create_fsys = Some (Queued, cl1)"
    by (simp add: cl_defs z npc_rpcnb_def npc_create_fsys_def npc_create_pool_def npc_get_id_def grow_map_def m2id_def np_set_tag_def
        add_unsent_def Let_def set_cr_prev_def)
  show "npc_rpcnb True (cl_tread 0 1) cl1 = Some (Queued, cl2)" "npc_rpcnb True (cl_tread 0 2) cl2 = Some (Queued, cl3)"
    by (simp_all add: cl_defs npc_rpcnb_def npc_get_id_def grow_map_def m2id_def np_set_tag_def add_unsent_def Let_def
        set_cr_prev_def set_cr_next_def heap_upd_def fun_eq_iff)
  show "npc_write_proc True cl3 = Some cl4" "npc_write_proc True cl4 = Some cl5"
    by (simp_all add: cl_defs npc_write_proc_def heap_upd_def set_cr_next_def set_cr_prev_def fun_eq_iff)
qed

lemma cl5_reach: "client\<^sup>*\<^sup>* (npc_create_fsys, 0) (cl5, 3)"
proof -
  have t: "fc_type (cl_tread 0 f) \<noteq> Tversion" for f by (simp add: cl_tread_def)
  have "client (npc_create_fsys, 0) (cl1, 1)" "client (cl1, 1) (cl2, 2)" "client (cl2, 2) (cl3, 3)"
    using Call [OF t cl_runs(1), of 0] Call [OF t cl_runs(2), of 1] Call [OF t cl_runs(3), of 2] by (simp_all add: numeral_2_eq_2 numeral_3_eq_3)
  moreover have "client (cl3, 3) (cl4, 3)" "client (cl4, 3) (cl5, 3)" using Write cl_runs(4,5) by blast+
  ultimately show ?thesis by (meson converse_rtranclp_into_rtranclp rtranclp.rtrancl_refl)
qed

subsection \<open>Tags and responses\<close>

text \<open>
  (C14) Whatever calls, writes and responses happen, in whatever order: any two requests without a response have different
  tags, their tags are in use in the pool and are those of their messages, and every queued request is
  either still outstanding or was completed exactly once.
\<close>

theorem client_tags:
  assumes "client\<^sup>*\<^sup>* (npc_create_fsys, 0) (fs, n)"
  shows "(\<forall>a b r s. fs_req fs a = Some r \<and> fs_req fs b = Some s \<and> cr_tag r = cr_tag s \<longrightarrow> a = b) \<and>
    (\<forall>a r. fs_req fs a = Some r \<longrightarrow> unat (cr_tag r) \<in> used (fs_tagpool fs) \<and> cr_tag r = fc_tag (cr_tc r)) \<and>
    length (fs_done fs) + card (dom (fs_req fs)) = n"
proof -
  obtain us ps where l: "fs_lists fs us ps" "fs_tags fs" "length (fs_done fs) + length (us @ ps) = n"
    using client_reach [OF assms] by (auto simp: client_inv_def)
  have v: "fs_view fs a = Some (cr_core r)" if "fs_req fs a = Some r" for a r using that by (simp add: fs_view_def)
  have t: "tags_in (used (fs_tagpool fs)) (fs_view fs)" using l(2) by (simp add: fs_tags_def)
  have "a = b" if "fs_req fs a = Some r" "fs_req fs b = Some s" "cr_tag r = cr_tag s" for a b r s
  proof -
    have "fst (cr_core r) = fst (cr_core s)" using that(3) by (simp add: cr_core_def)
    then show ?thesis using t v [OF that(1)] v [OF that(2)] unfolding tags_in_def by blast
  qed
  moreover have "unat (cr_tag r) \<in> used (fs_tagpool fs) \<and> cr_tag r = fc_tag (cr_tc r)" if "fs_req fs a = Some r" for a r
    using t v [OF that] unfolding tags_in_def by (auto simp: tag_ok_def cr_core_def)
  moreover have "card (dom (fs_req fs)) = length (us @ ps)"
    using l(1) distinct_card [of "us @ ps"] by (simp add: fs_lists_def)
  moreover have "length (fs_done fs) + card (dom (fs_req fs)) = n" using calculation(3) l(3) by simp
  ultimately show ?thesis by blast
qed

theorem client_tags_witness:
  "client\<^sup>*\<^sup>* (npc_create_fsys, 0) (cl5, 3) \<and> length (fs_done cl5) + card (dom (fs_req cl5)) = 3"
  using client_tags [OF cl5_reach] cl5_reach by blast

text \<open>
  (C15) The right request gets the response. In a reachable state a response with the tag of a written request completes this
  request and no other, with the response itself, or with an error if the response is an Rerror or of another type than
  the request asks for; the request is gone and its tag is free again.
\<close>

theorem response_delivered:
  assumes "client\<^sup>*\<^sup>* (npc_create_fsys, 0) (fs, n)" "chain cr_next (fs_req fs) (fs_pend_first fs) ps" "a \<in> set ps"
    "fs_req fs a = Some r" "fc_tag fc = cr_tag r" "response (cr_tc r) fc = Some reply"
  shows "\<exists>fs'. npc_response fc fs = Some fs' \<and> fs_done fs' = fs_done fs @ [(cr_tc r, reply)] \<and>
    dom (fs_req fs') = dom (fs_req fs) - {a} \<and> chain cr_next (fs_req fs') (fs_pend_first fs') (remove1 a ps) \<and>
    used (fs_tagpool fs') = used (fs_tagpool fs) - {unat (cr_tag r)}"
proof -
  obtain us qs where l: "fs_lists fs us qs" "fs_tags fs"
    using client_reach [OF assms(1)] by (auto simp: client_inv_def)
  have "qs = ps" using l(1) chain_unique [OF assms(2)] by (auto simp: fs_lists_def)
  moreover obtain xs ys where "ps = xs @ a # ys" using split_list [OF assms(3)] by blast
  ultimately have q: "fs_lists fs us (xs @ a # ys)" "remove1 a ps = xs @ ys"
    using l(1) by (auto simp: fs_lists_def remove1_append)
  obtain fs' where f: "npc_response fc fs = Some fs'" "fs_lists fs' us (xs @ ys)" "fs_view fs' = (fs_view fs)(a := None)"
      "fs_done fs' = fs_done fs @ [(cr_tc r, reply)]" "used (fs_tagpool fs') = used (fs_tagpool fs) - {unat (cr_tag r)}"
    using response_ok [OF q(1) l(2) assms(4-6)] by blast
  have "dom (fs_req fs') = dom (fs_view fs')" "dom (fs_req fs) = dom (fs_view fs)" by (auto simp: fs_view_def dom_def)
  then have "dom (fs_req fs') = dom (fs_req fs) - {a}" using f(3) by simp
  then show ?thesis using f q(2) by (auto simp: fs_lists_def)
qed

theorem response_delivered_witness:
  "\<exists>fs'. npc_response (npfcall0\<lparr>fc_type := Rread, fc_tag := 0\<rparr>) cl5 = Some fs' \<and>
    fs_done fs' = fs_done cl5 @ [(cl_tread 0 0, Reply (npfcall0\<lparr>fc_type := Rread, fc_tag := 0\<rparr>))] \<and>
    dom (fs_req fs') = dom (fs_req cl5) - {0} \<and> chain cr_next (fs_req fs') (fs_pend_first fs') [1] \<and>
    used (fs_tagpool fs') = used (fs_tagpool cl5) - {0}"
  using response_delivered [OF cl5_reach, of "[1, 0]" 0 "cl_req 0 None (Some 1)" "npfcall0\<lparr>fc_type := Rread, fc_tag := 0\<rparr>"
      "Reply (npfcall0\<lparr>fc_type := Rread, fc_tag := 0\<rparr>)"]
  by (simp add: cl_defs response_def)

subsection \<open>Cancelling\<close>

text \<open>
  (C40) A lost list of pending requests. \<^verbatim>\<open>npc_write_proc\<close> leaves the \<open>prev\<close> pointer of the request that is
  now first in the queue unchanged: it points to the request just written. When the fid of this request is then
  closed, \<^verbatim>\<open>npc_cancel_fid_requests\<close> writes through this pointer. The list of pending requests ends after its first
  request: the others are never completed, since responses to them are dropped. And the queue's last request
  is a pending one.
\<close>

theorem cancel_loses_pending:
  assumes "fs_unsent_first fs = Some b" "fs_unsent_last fs = Some b" "fs_req fs b = Some rb" "cr_next rb = None" "cr_prev rb = Some a"
    "has_fid fid rb" "fs_pend_first fs = Some a" "fs_req fs a = Some ra" "\<not> has_fid fid ra" "a \<noteq> b"
    "unat (cr_tag rb) div 8 < length (cp_map (fs_tagpool fs))"
  shows "\<exists>fs'. npc_cancel_fid_requests fid fs = Some ([], fs') \<and> fs_unsent_first fs' = None \<and> fs_unsent_last fs' = Some a \<and>
    chain cr_next (fs_req fs') (fs_pend_first fs') [a] \<and> (\<forall>x. x \<noteq> a \<and> x \<noteq> b \<longrightarrow> fs_req fs' x = fs_req fs x) \<and>
    (\<forall>fc. fc_tag fc \<noteq> cr_tag ra \<longrightarrow> npc_response fc fs' = Some fs')"
proof -
  let ?ra = "set_cr_next None ra" and ?h = "(fs_req fs)(a \<mapsto> set_cr_next None ra, b \<mapsto> set_cr_next None rb)"
  let ?fs1 = "fs\<lparr>fs_req := ?h, fs_unsent_last := Some a, fs_unsent_first := None\<rparr>"
  have unl: "unlink cr_next cr_prev set_cr_next set_cr_prev (fs_req fs) b = Some ((fs_req fs)(a \<mapsto> ?ra))"
    using assms(3-5,8,10) by (simp add: unlink_def heap_upd_def)
  have 1: "take_unsent (has_fid fid) (Some b) None fs = Some (Some b, ?fs1)"
    using assms(1-6,10) unl
    by (simp add: take_unsent.simps [of "has_fid fid" "Some b"] take_unsent.simps [of "has_fid fid" None] heap_upd_def fun_upd_twist)
  have nf: "\<not> has_fid fid ?ra" using assms(9) by (simp add: has_fid_def set_cr_next_def)
  then have 2: "mark_pending (has_fid fid) (Some a) ?fs1 = Some ([], ?fs1)"
    using assms(10) by (simp add: mark_pending.simps [of "has_fid fid" "Some a"] mark_pending.simps [of "has_fid fid" None] set_cr_next_def)
  obtain pool where pool: "npc_put_id (fs_tagpool fs) (unat (cr_tag rb)) = Some pool"
    using assms(11) by (simp add: npc_put_id_def Let_def)
  let ?fs2 = "?fs1\<lparr>fs_done := fs_done fs @ [(cr_tc rb, Failed (cstr ''file closed'') 5)], fs_tagpool := pool, fs_req := ?h(b := None)\<rparr>"
  have 3: "fail_cancelled (Some b) ?fs1 = Some ?fs2"
    using pool by (simp add: fail_cancelled.simps [of "Some b"] fail_cancelled.simps [of None] set_cr_next_def)
  have "npc_cancel_fid_requests fid fs = Some ([], ?fs2)"
    using 1 2 3 assms(1,7) by (simp add: npc_cancel_fid_requests_def)
  moreover have c: "chain cr_next (fs_req ?fs2) (fs_pend_first ?fs2) [a]" using assms(7,10) by (simp add: set_cr_next_def)
  moreover have "npc_response fc ?fs2 = Some ?fs2" if "fc_tag fc \<noteq> cr_tag ra" for fc
    using that find_tag_none [OF c, of "has_tag (fc_tag fc)" None] assms(10) by (auto simp: npc_response_def has_tag_def set_cr_next_def)
  ultimately show ?thesis using assms(10) by (intro exI [of _ ?fs2]) simp
qed

theorem cancel_loses_pending_witness:
  "client\<^sup>*\<^sup>* (npc_create_fsys, 0) (cl5, 3) \<and> chain cr_next (fs_req cl5) (fs_pend_first cl5) [1, 0] \<and>
    (\<exists>fs'. npc_cancel_fid_requests 2 cl5 = Some ([], fs') \<and> chain cr_next (fs_req fs') (fs_pend_first fs') [1] \<and>
      fs_req fs' 0 = fs_req cl5 0)"
proof -
  have "\<exists>fs'. npc_cancel_fid_requests 2 cl5 = Some ([], fs') \<and> fs_unsent_first fs' = None \<and> fs_unsent_last fs' = Some 1 \<and>
    chain cr_next (fs_req fs') (fs_pend_first fs') [1] \<and> (\<forall>x. x \<noteq> 1 \<and> x \<noteq> 2 \<longrightarrow> fs_req fs' x = fs_req cl5 x) \<and>
    (\<forall>fc. fc_tag fc \<noteq> cr_tag (cl_req 1 (Some 0) None) \<longrightarrow> npc_response fc fs' = Some fs')"
    by (rule cancel_loses_pending [of _ _ "cl_req 2 None (Some 1)"]) (simp_all add: cl_defs has_fid_def)
  moreover have "chain cr_next (fs_req cl5) (fs_pend_first cl5) [1, 0]" by (simp add: cl_defs)
  ultimately show ?thesis using cl5_reach by fastforce
qed

end
