(* ===== verification/Npcio.thy ===== *)
theory Npcio
  imports Npcfsys_Props
begin

text \<open>
  The client's file operations on top of the requests: \<^verbatim>\<open>npc_rpc\<close> of \<^verbatim>\<open>libnpclient/fsys.c\<close>, \<^verbatim>\<open>fid.c\<close>, \<^verbatim>\<open>read.c\<close>, \<^verbatim>\<open>write.c\<close>,
  and the path names of \<^verbatim>\<open>walk.c\<close>. This is a client with a single thread: a call is queued, written, and the caller waits
  for the response. The other end of the connection is a function from the packet written to the response,
  \<open>None\<close> when the connection ends instead, with a state of its own.

  An operation is \<open>None\<close> where the C code is undefined or waits for ever.
\<close>

type_synonym 's server = "bytes \<Rightarrow> 's \<Rightarrow> Npfcall option \<times> 's"

subsection \<open>Calls\<close>

text \<open>
  \<^verbatim>\<open>npc_rpc\<close>; the result \<open>None\<close> is -1. The caller goes on when its callback was called, that is when there is a new
  entry in \<open>fs_done\<close>. It frees the error text of a failed call. After a response of the wrong type that is the constant
  \<^verbatim>\<open>Emismatch\<close>, and the call is undefined.
\<close>

definition npc_rpc :: "'s server \<Rightarrow> Npfcall \<Rightarrow> Npcfsys \<Rightarrow> 's \<Rightarrow> (Npfcall option \<times> Npcfsys \<times> 's) option" where
  "npc_rpc sv tc fs st =
     do { (res, fs) \<leftarrow> npc_rpcnb True tc fs;
          (case res of
             Refused \<Rightarrow> Some (None, fs, st)
           | Waiting \<Rightarrow> None
           | Queued \<Rightarrow>
               do { fs1 \<leftarrow> npc_write_proc True fs;
                    let (rc, st) = sv (last (fs_sent fs1)) st;
                    fs2 \<leftarrow> (case rc of Some fc \<Rightarrow> npc_response fc fs1 | None \<Rightarrow> npc_read_end fs1);
                    if length (fs_done fs2) = length (fs_done fs1) then None
                    else
                      (case snd (last (fs_done fs2)) of
                         Reply fc \<Rightarrow> Some (Some fc, fs2, st)
                       | Failed _ _ \<Rightarrow>
                           (case rc of
                              Some fc \<Rightarrow> if fc_type fc = Rerror then Some (None, fs2, st) else None
                            | None \<Rightarrow> Some (None, fs2, st))) }) }"

text \<open>A client that makes a call for each message, and whose writer keeps up with it.\<close>

fun send_all :: "bool \<Rightarrow> Npfcall \<Rightarrow> msg list \<Rightarrow> Npcfsys \<Rightarrow> Npcfsys option" where
  "send_all dotu fc [] fs = Some fs"
| "send_all dotu fc (m # ms) fs =
     (case msg_create fc dotu m of
        Inl _ \<Rightarrow> None
      | Inr tc \<Rightarrow>
          do { (res, fs) \<leftarrow> npc_rpcnb True tc fs;
               fs \<leftarrow> npc_write_proc True fs;
               if res = Queued then send_all dotu fc ms fs else None })"

definition sendable :: "nat \<Rightarrow> bool \<Rightarrow> msg \<Rightarrow> bool" where
  "sendable msize dotu m \<longleftrightarrow>
     msg_ok m \<and> msg_creatable dotu m \<and> 7 + length (msg_body dotu m) \<le> msize \<and> msg_type m \<noteq> Tversion"

definition ready_to_send :: "Npcfsys \<Rightarrow> bool" where
  "ready_to_send fs \<longleftrightarrow> (\<exists>ps. fs_lists fs [] ps) \<and> fs_tags fs \<and> fs_trans fs"

lemma finite_used: "finite (used p)"
proof -
  have "used p \<subseteq> {..<8 * length (cp_map p)}" by (auto simp: used_def)
  then show ?thesis by (rule finite_subset) simp
qed

lemma get_id_defined:
  assumes "card (used p) < unat (cp_maxid p)"
  obtains n p' where "npc_get_id True p = Some (n, p')"
proof (cases "npc_get_id True p")
  case None
  then have "unat (cp_maxid p) \<le> card (used p)" using card_mono [OF finite_used get_id_waits] by simp
  then show thesis using assms by simp
qed (use that in auto)

text \<open>A call and the write that follows it.\<close>

lemma call_written:
  assumes "fs_lists fs [] ps" "fs_tags fs" "fs_trans fs" "sendable msize dotu m" "msize < 2 ^ 31" "card (used (fs_tagpool fs)) < 65535"
    "msg_create fc dotu m = Inr tc"
  obtains fs1 fs2 tag tc1 where "npc_rpcnb True tc fs = Some (Queued, fs1)" "npc_write_proc True fs1 = Some fs2"
    "fs_lists fs2 [] (fs_brk fs # ps)" "fs_tags fs2" "fs_trans fs2" "fs_view fs2 (fs_brk fs) = Some (tag, tc1, False)"
    "fc_tag tc1 = tag" "fc_type tc1 = msg_type m" "fs_done fs2 = fs_done fs" "fs_sent fs2 = fs_sent fs @ [packet dotu (tag, m)]"
    "unat tag \<notin> used (fs_tagpool fs)" "used (fs_tagpool fs2) = insert (unat tag) (used (fs_tagpool fs))"
proof -
  have max: "cp_maxid (fs_tagpool fs) = 65535" "pool_fits (fs_tagpool fs)" using assms(2) by (simp_all add: fs_tags_def)
  obtain n p where id: "npc_get_id True (fs_tagpool fs) = Some (n, p)" using get_id_defined [of "fs_tagpool fs"] assms(6) max(1) by auto
  note fresh = get_id_fresh [OF id] and fits = get_id_fits [OF max(2) id]
  let ?tag = "of_nat n :: u16"
  have tag: "unat ?tag = n" using fits(2) max(1) by (simp add: unat_of_nat)
  have tc: "fc_pkt tc = wire (msg_type m) NOTAG (msg_body dotu m)" "fc_size tc = of_nat (7 + length (msg_body dotu m))" "fc_type tc = msg_type m"
    using m9p.created [of m dotu fc] assms(4,5,7) by (auto simp: sendable_def)
  obtain tc1 where tc1: "np_set_tag tc ?tag = Some tc1" "fc_pkt tc1 = packet dotu (?tag, m)" "fc_tag tc1 = ?tag" "fc_size tc1 = fc_size tc"
      "fc_type tc1 = fc_type tc"
    using np_set_tag_wire [OF tc(1), of ?tag] by auto
  let ?fs = "fs\<lparr>fs_tagpool := p\<rparr>" and ?r = "npc_reqalloc ?tag tc1"
  obtain fs1 where a: "add_unsent ?r ?fs = Some fs1" "fs_lists fs1 [fs_brk fs] ps" "fs_tagpool fs1 = p" "fs_trans fs1" "fs_sent fs1 = fs_sent fs"
      "fs_view fs1 = (fs_view ?fs)(fs_brk fs \<mapsto> cr_core ?r)" "fs_done fs1 = fs_done fs"
    using add_unsent_lists [of ?fs "[]" ps ?r] assms(1,3) by (auto simp: fs_lists_def npc_reqalloc_def)
  have call: "npc_rpcnb True tc fs = Some (Queued, fs1)"
    using assms(3,4) tc(3) id tc1 a(1) by (simp add: npc_rpcnb_def sendable_def)
  have tags: "fs_tags fs1" using call_inv [OF assms(1,2) _ call] tc(3) assms(4) by (simp add: sendable_def)
  have view: "fs_view fs1 (fs_brk fs) = Some (?tag, tc1, False)" using a(6) by (simp add: cr_core_def npc_reqalloc_def)
  obtain fs2 r where w: "npc_write_proc True fs1 = Some fs2" "fs_req fs1 (fs_brk fs) = Some r" "fs_lists fs2 [] (fs_brk fs # ps)" "fs_view fs2 = fs_view fs1"
      "fs_tagpool fs2 = fs_tagpool fs1" "fs_trans fs2" "fs_done fs2 = fs_done fs1"
      "fs_sent fs2 = fs_sent fs1 @ [take (unat (fc_size (cr_tc r))) (fc_pkt (cr_tc r))]"
    using write_inv [OF a(2,4), of True] by auto
  have "cr_tc r = tc1" using w(2) view by (simp add: fs_view_def cr_core_def)
  moreover have "unat (fc_size tc1) = 7 + length (msg_body dotu m)"
    unfolding tc1(4) tc(2) using assms(4,5) by (intro unat_of_nat_u32) (simp add: sendable_def)
  ultimately have "fs_sent fs2 = fs_sent fs @ [packet dotu (?tag, m)]" using w(8) a(5) tc1(2) by simp
  moreover have "fs_tags fs2" using tags w(4,5) by (simp add: fs_tags_def)
  ultimately show thesis
    using that [of fs1 fs2 ?tag tc1] call w view tag tc1(3,5) tc(3) fresh a(3,7) by simp
qed

lemma send_one:
  assumes "ready_to_send fs" "sendable msize dotu m" "msize < 2 ^ 31" "card (used (fs_tagpool fs)) < 65535"
  shows "\<exists>fs' tag. send_all dotu fc (m # ms) fs = send_all dotu fc ms fs' \<and> ready_to_send fs' \<and>
    fs_sent fs' = fs_sent fs @ [packet dotu (tag, m)] \<and> unat tag \<notin> used (fs_tagpool fs) \<and>
    used (fs_tagpool fs') = insert (unat tag) (used (fs_tagpool fs))"
proof -
  obtain ps where fs: "fs_lists fs [] ps" "fs_tags fs" "fs_trans fs" using assms(1) by (auto simp: ready_to_send_def)
  obtain tc where tc: "msg_create fc dotu m = Inr tc" using m9p.created [of m dotu fc] assms(2,3) by (auto simp: sendable_def)
  show ?thesis
    by (rule call_written [OF fs assms(2-4) tc]) (use tc in \<open>auto simp: ready_to_send_def\<close>)
qed

lemma send_all_sent:
  assumes "ready_to_send fs" "list_all (sendable msize dotu) ms" "msize < 2 ^ 31" "card (used (fs_tagpool fs)) + length ms \<le> 65535"
  shows "\<exists>fs' tags. send_all dotu fc ms fs = Some fs' \<and> length tags = length ms \<and> distinct tags \<and>
    unat ` set tags \<inter> used (fs_tagpool fs) = {} \<and> used (fs_tagpool fs') = unat ` set tags \<union> used (fs_tagpool fs) \<and>
    fs_sent fs' = fs_sent fs @ map (packet dotu) (zip tags ms)"
  using assms
proof (induction ms arbitrary: fs)
  case (Cons m ms)
  obtain fs1 tag where s: "send_all dotu fc (m # ms) fs = send_all dotu fc ms fs1" "ready_to_send fs1"
      "fs_sent fs1 = fs_sent fs @ [packet dotu (tag, m)]" "unat tag \<notin> used (fs_tagpool fs)"
      "used (fs_tagpool fs1) = insert (unat tag) (used (fs_tagpool fs))"
    using send_one [of fs msize dotu m fc ms] Cons.prems by auto
  have "card (used (fs_tagpool fs1)) + length ms \<le> 65535" using Cons.prems(4) s(4,5) finite_used by simp
  then obtain fs' tags where r: "send_all dotu fc ms fs1 = Some fs'" "length tags = length ms" "distinct tags"
      "unat ` set tags \<inter> used (fs_tagpool fs1) = {}" "used (fs_tagpool fs') = unat ` set tags \<union> used (fs_tagpool fs1)"
      "fs_sent fs' = fs_sent fs1 @ map (packet dotu) (zip tags ms)"
    using Cons.IH [OF s(2)] Cons.prems(2,3) by auto
  have "tag \<notin> set tags" "unat ` set tags \<inter> used (fs_tagpool fs) = {}" using r(4) s(5) by auto
  then show ?case using r s by (intro exI [of _ fs'] exI [of _ "tag # tags"]) auto
qed simp

subsection \<open>An answered call\<close>

text \<open>
  The server answers a message under its tag, with an Rerror or with the type asked for. Then the call returns the response,
  or -1 for the Rerror, and leaves the client as it was.
\<close>

definition answered :: "msg \<Rightarrow> Npfcall \<Rightarrow> bool" where
  "answered m rc \<longleftrightarrow>
     (if fc_type rc = Rerror then np_strdup (fc_ename rc) \<noteq> None else fc_type rc = msg_type m + 1)"

lemma rpc_completes:
  assumes "ready_to_send fs" "sendable msize dotu m" "msize < 2 ^ 31" "card (used (fs_tagpool fs)) < 65535" "msg_create fc dotu m = Inr tc"
    "\<And>tag. \<exists>rc st'. sv (packet dotu (tag, m)) st = (Some rc, st') \<and> fc_tag rc = tag \<and> answered m rc \<and> P tag rc st'"
  shows "\<exists>tag rc fs' st'. npc_rpc sv tc fs st = Some (if fc_type rc = Rerror then None else Some rc, fs', st') \<and> P tag rc st' \<and>
    ready_to_send fs' \<and> used (fs_tagpool fs') = used (fs_tagpool fs) \<and> fs_sent fs' = fs_sent fs @ [packet dotu (tag, m)]"
proof -
  obtain ps where fs: "fs_lists fs [] ps" "fs_tags fs" "fs_trans fs" using assms(1) by (auto simp: ready_to_send_def)
  obtain fs1 fs2 tag tc1 where w: "npc_rpcnb True tc fs = Some (Queued, fs1)" "npc_write_proc True fs1 = Some fs2"
    "fs_lists fs2 [] (fs_brk fs # ps)" "fs_tags fs2" "fs_trans fs2" "fs_view fs2 (fs_brk fs) = Some (tag, tc1, False)"
    "fc_tag tc1 = tag" "fc_type tc1 = msg_type m" "fs_done fs2 = fs_done fs" "fs_sent fs2 = fs_sent fs @ [packet dotu (tag, m)]"
    "unat tag \<notin> used (fs_tagpool fs)" "used (fs_tagpool fs2) = insert (unat tag) (used (fs_tagpool fs))"
    by (rule call_written [OF fs assms(2-5)])
  obtain rc st' where a: "sv (packet dotu (tag, m)) st = (Some rc, st')" "fc_tag rc = tag" "answered m rc" "P tag rc st'"
    using assms(6) [of tag] by blast
  obtain r where r: "fs_req fs2 (fs_brk fs) = Some r" "cr_tag r = tag" "cr_tc r = tc1" using w(6) by (auto simp: fs_view_def cr_core_def)
  obtain reply where reply: "response (cr_tc r) rc = Some reply"
      "reply = Reply rc \<and> fc_type rc \<noteq> Rerror \<or> (\<exists>e c. reply = Failed e c) \<and> fc_type rc = Rerror"
    using a(3) r(3) w(8) by (auto simp: answered_def response_def split: if_splits)
  then obtain fs3 where d: "npc_response rc fs2 = Some fs3" "fs_lists fs3 [] ps" "fs_done fs3 = fs_done fs2 @ [(cr_tc r, reply)]"
      "fs_sent fs3 = fs_sent fs2" "fs_trans fs3" "used (fs_tagpool fs3) = used (fs_tagpool fs2) - {unat tag}" "fs_tags fs3"
    using response_ok [of fs2 "[]" "[]" "fs_brk fs" ps r rc reply] w(3-5) r a(2) by auto
  have "npc_rpc sv tc fs st = Some (if fc_type rc = Rerror then None else Some rc, fs3, st')"
    using w(1,2,10) a(1) d(1,3) reply(2) by (auto simp: npc_rpc_def Let_def)
  moreover have "ready_to_send fs3" "used (fs_tagpool fs3) = used (fs_tagpool fs)" using d(2,5,6,7) w(11,12) by (auto simp: ready_to_send_def)
  ultimately show ?thesis using a(4) d(4) w(10) by auto
qed

lemma rpc_answered:
  assumes "ready_to_send fs" "sendable msize dotu m" "msize < 2 ^ 31" "card (used (fs_tagpool fs)) < 65535" "msg_create fc dotu m = Inr tc"
    "\<And>tag. \<exists>rc st'. sv (packet dotu (tag, m)) st = (Some rc, st') \<and> fc_tag rc = tag \<and> fc_type rc = msg_type m + 1 \<and> P tag rc st'"
    "msg_type m + 1 \<noteq> Rerror"
  shows "\<exists>tag rc fs' st'. npc_rpc sv tc fs st = Some (Some rc, fs', st') \<and> P tag rc st' \<and> ready_to_send fs' \<and>
    used (fs_tagpool fs') = used (fs_tagpool fs) \<and> fs_sent fs' = fs_sent fs @ [packet dotu (tag, m)]"
  using rpc_completes [OF assms(1-5), of sv st "\<lambda>tag rc st'. fc_type rc \<noteq> Rerror \<and> P tag rc st'"] assms(6,7)
  by (fastforce simp: answered_def)

subsection \<open>Reading\<close>

text \<open>
  \<^verbatim>\<open>npc_read\<close> and \<^verbatim>\<open>npc_readn\<close>. \<open>msize\<close> is that of the file system; the result is the number returned and the bytes
  stored in the caller's buffer. The messages can be allocated.
\<close>

definition npc_read :: "'s server \<Rightarrow> u32 \<Rightarrow> u32 \<Rightarrow> u32 \<Rightarrow> u64 \<Rightarrow> Npcfsys \<Rightarrow> 's \<Rightarrow> ((int \<times> bytes) \<times> Npcfsys \<times> 's) option" where
  "npc_read sv msize fid count offset fs st =
     (let count = (if count > msize - 24 then msize - 24 else count)
      in case np_create_tread (Some npfcall0) fid offset count of
           Inl _ \<Rightarrow> Some ((-1, []), fs, st)
         | Inr tc \<Rightarrow>
             do { (rc, fs, st) \<leftarrow> npc_rpc sv tc fs st;
                  (case rc of
                     None \<Rightarrow> Some ((-1, []), fs, st)
                   | Some rc \<Rightarrow>
                       do { let l = (if fc_count rc > count then count else fc_count rc);
                            d \<leftarrow> fc_data rc;
                            if unat l \<le> length d then Some ((sint l, take (unat l) d), fs, st) else None }) })"

lemma sint_pos: "0 < sint w \<Longrightarrow> sint w = int (unat w)" for w :: u32
proof (cases "unat w < 2 ^ 31")
  case False
  then have "sint w = int (unat w) - 2 ^ 32" by (intro sint_large) simp
  moreover have "int (unat w) < 2 ^ 32" using unsigned_less [of w, where ?'a = int] by simp
  ultimately show "0 < sint w \<Longrightarrow> sint w = int (unat w)" by simp
qed (simp only: sint_small)

lemma read_progress:
  assumes "npc_read sv msize fid count offset fs st = Some ((l, bs), fs', st')" "0 < l"
  obtains w where "word_of_int l = w" "l = int (unat w)" "w \<le> count" "0 < w"
proof -
  let ?c = "if count > msize - 24 then msize - 24 else count"
  have c: "?c \<le> count" by auto
  have "\<exists>w. l = sint w \<and> w \<le> ?c"
    using assms unfolding npc_read_def Let_def
    by (auto simp: bind_eq_Some_conv split: sum.splits option.splits if_split_asm)
  then obtain w where w: "l = sint w" "w \<le> ?c" by blast
  note w = w(1) order_trans [OF w(2) c]
  then show thesis using that [of w] sint_pos [of w] assms(2) by (cases "w = 0") (auto simp: word_gt_0)
qed

lemma unat_diff_less:
  assumes "n < (count :: u32)" "w \<le> count - n" "0 < w"
  shows "unat (count - (n + w)) < unat (count - n)" "unat (n + w) = unat n + unat w" "n + w \<le> count"
proof -
  have "unat (count - n) = unat count - unat n" using assms(1) by (simp add: unat_sub)
  moreover have "unat w \<le> unat (count - n)" using assms(2) by (simp add: word_le_nat_alt)
  ultimately have s: "unat n + unat w \<le> unat count" using assms(1) by (simp add: word_less_nat_alt)
  then have "unat n + unat w < 2 ^ 32" using unsigned_less [of count, where ?'a = nat] by simp
  then show u: "unat (n + w) = unat n + unat w" by (simp add: unat_word_ariths)
  then show le: "n + w \<le> count" using s by (simp add: word_le_nat_alt)
  then have "unat (count - (n + w)) = unat count - (unat n + unat w)" using u by (simp add: unat_sub)
  then show "unat (count - (n + w)) < unat (count - n)"
    using assms(1,3) \<open>unat (count - n) = _\<close> by (simp add: word_less_nat_alt)
qed

lemma readn_less:
  assumes "n < count" "npc_read sv msize fid (count - n) offset fs st = Some ((l, bs), fs', st')" "0 < l"
  shows "unat (count - (n + word_of_int l)) < unat (count - n)"
  by (rule read_progress [OF assms(2,3)]) (use unat_diff_less(1) [OF assms(1)] in simp)

function npc_readn :: "'s server \<Rightarrow> u32 \<Rightarrow> u32 \<Rightarrow> u32 \<Rightarrow> u64 \<Rightarrow> u32 \<Rightarrow> bytes \<Rightarrow> Npcfsys \<Rightarrow> 's \<Rightarrow> ((int \<times> bytes) \<times> Npcfsys \<times> 's) option" where
  "npc_readn sv msize fid count offset n buf fs st =
     (if n < count then
        do { ((l, bs), fs, st) \<leftarrow> npc_read sv msize fid (count - n) (offset + ucast n) fs st;
             if l < 0 then Some ((-1, buf @ bs), fs, st)
             else if l = 0 then Some ((sint n, buf), fs, st)
             else npc_readn sv msize fid count offset (n + word_of_int l) (buf @ bs) fs st }
      else Some ((sint n, buf), fs, st))"
  by pat_completeness auto

termination
proof (relation "measure (\<lambda>(sv, msize, fid, count, offset, n, buf, fs, st). unat (count - n))")
qed (auto dest!: readn_less)

declare npc_readn.simps [simp del]

text \<open>
  A server that has a file open under a fid: it answers every Tread with bytes of the file at the offset asked for, at most
  as many as asked for, and none only at or after the end of the file.
\<close>

definition answers_read :: "bytes \<Rightarrow> u64 \<Rightarrow> u32 \<Rightarrow> Npfcall \<Rightarrow> bool" where
  "answers_read file offset count rc \<longleftrightarrow>
     (\<exists>k. fc_data rc = Some (take k (drop (unat offset) file)) \<and> fc_count rc = of_nat (length (take k (drop (unat offset) file))) \<and>
       k \<le> unat count \<and> (unat offset < length file \<longrightarrow> 0 < k))"

definition serves_file :: "'s server \<Rightarrow> bool \<Rightarrow> u32 \<Rightarrow> bytes \<Rightarrow> bool" where
  "serves_file sv dotu fid file \<longleftrightarrow>
     (\<forall>tag offset count st. 0 < count \<longrightarrow>
        (\<exists>rc st'. sv (packet dotu (tag, MTread fid offset count)) st = (Some rc, st') \<and>
          fc_tag rc = tag \<and> fc_type rc = Rread \<and> answers_read file offset count rc))"

definition ready :: "Npcfsys \<Rightarrow> bool" where
  "ready fs \<longleftrightarrow> ready_to_send fs \<and> card (used (fs_tagpool fs)) < 65535"

lemma unat_sub_24: "24 < msize \<Longrightarrow> unat (msize - 24) = unat msize - 24" for msize :: u32
  by (simp add: unat_sub order_less_imp_le)

lemma read_ok:
  assumes "serves_file sv dotu fid file" "ready fs" "24 < msize" "msize < 2 ^ 31" "0 < count"
  shows "\<exists>k fs' st'. npc_read sv msize fid count offset fs st =
      Some ((int (length (take k (drop (unat offset) file))), take k (drop (unat offset) file)), fs', st') \<and>
    ready fs' \<and> k \<le> unat count \<and> (unat offset < length file \<longrightarrow> 0 < k)"
proof -
  define c where "c = (if count > msize - 24 then msize - 24 else count)"
  have m: "unat msize < 2 ^ 31" "unat (msize - 24) = unat msize - 24" "24 < unat msize"
    using assms(3,4) unat_sub_24 by (simp_all add: word_less_nat_alt)
  have c: "0 < c" "c \<le> count" "unat c < 2 ^ 31" using assms(5) m by (auto simp: c_def word_less_nat_alt word_le_nat_alt split: if_splits)
  let ?m = "MTread fid offset c"
  have send: "sendable (unat msize) dotu ?m" using m(3) by (simp add: sendable_def)
  obtain tc where tc: "msg_create npfcall0 dotu ?m = Inr tc" using m9p.created [of ?m dotu npfcall0] by auto
  have "\<exists>rc st'. sv (packet dotu (tag, ?m)) st = (Some rc, st') \<and> fc_tag rc = tag \<and> fc_type rc = msg_type ?m + 1 \<and> answers_read file offset c rc" for tag
    using assms(1) c(1) unfolding serves_file_def by simp
  then obtain rc fs' st' where r: "npc_rpc sv tc fs st = Some (Some rc, fs', st')" "answers_read file offset c rc" "ready_to_send fs'"
      "used (fs_tagpool fs') = used (fs_tagpool fs)"
    using rpc_answered [of fs "unat msize" dotu ?m npfcall0 tc sv st "\<lambda>_ rc _. answers_read file offset c rc"] assms(2) send m(1) tc
    by (auto simp: ready_def)
  obtain k bs where k: "fc_data rc = Some bs" "fc_count rc = of_nat (length bs)" "k \<le> unat c" "unat offset < length file \<longrightarrow> 0 < k"
      and bs: "bs = take k (drop (unat offset) file)"
    using r(2) unfolding answers_read_def by blast
  have len: "length bs \<le> unat c" using k(3) bs by simp
  then have cnt: "unat (fc_count rc) = length bs" using c(3) unfolding k(2) by (intro unat_of_nat_u32) simp
  have le: "unat (fc_count rc) \<le> unat c" using cnt len by (simp only:)
  then have nlt: "\<not> c < fc_count rc" by (simp add: word_less_nat_alt linorder_not_less)
  have "sint (fc_count rc) = int (length bs)" using c(3) le sint_small [of "fc_count rc"] cnt by linarith
  then have "npc_read sv msize fid count offset fs st = Some ((int (length bs), bs), fs', st')"
    using tc r(1) k(1) cnt nlt by (simp add: npc_read_def Let_def flip: c_def)
  moreover have "ready fs'" using r(3,4) assms(2) by (simp add: ready_def)
  moreover have "k \<le> unat count" using k(3) c(2) by (simp add: word_le_nat_alt)
  ultimately show ?thesis using k(4) unfolding bs by blast
qed

lemma take_length_take: "take (length (take k xs)) xs = take k xs"
  by (cases "k \<le> length xs") auto

lemma take_split: "k \<le> m \<Longrightarrow> take m xs = take k xs @ take (m - k) (drop k xs)"
  by (metis le_add_diff_inverse take_add)

lemma unat_offset:
  fixes offset :: u64 and n :: u32
  assumes "unat offset + unat n < 2 ^ 64"
  shows "unat (offset + ucast n) = unat offset + unat n"
proof -
  have "unat (ucast n :: u64) = unat n" by transfer (simp add: take_bit_take_bit min_def)
  then show ?thesis using assms by (simp add: unat_word_ariths)
qed

lemma readn_from:
  assumes "serves_file sv dotu fid file" "ready fs" "24 < msize" "msize < 2 ^ 31" "unat offset + unat count < 2 ^ 64" "unat count < 2 ^ 31"
    "n \<le> count" "unat n = length buf" "r = buf @ take (unat count - unat n) (drop (unat offset + unat n) file)"
  shows "\<exists>fs' st'. npc_readn sv msize fid count offset n buf fs st =
      Some ((int (length r), r), fs', st') \<and> ready fs'"
  using assms(2,7-9)
proof (induction "unat (count - n)" arbitrary: n buf fs st rule: less_induct)
  case less
  have un: "unat n \<le> unat count" using less.prems(2) by (simp add: word_le_nat_alt)
  have sn: "sint n = int (length buf)" using un assms(6) less.prems(3) sint_small [of n] by simp
  show ?case
  proof (cases "n < count")
    case False
    then have "unat n = unat count" using un by (simp add: word_less_nat_alt)
    then show ?thesis using False less.prems(1,4) sn by (simp add: npc_readn.simps)
  next
    case True
    let ?o = "offset + ucast n"
    have off: "unat ?o = unat offset + unat n" using un assms(5) by (intro unat_offset) simp
    have "unat (count - n) = unat count - unat n" using True by (simp add: unat_sub order_less_imp_le)
    then have pos: "0 < count - n" using True by (simp add: word_less_nat_alt)
    obtain k fs1 st1 where k: "npc_read sv msize fid (count - n) ?o fs st =
        Some ((int (length (take k (drop (unat ?o) file))), take k (drop (unat ?o) file)), fs1, st1)"
        "ready fs1" "k \<le> unat (count - n)" "unat ?o < length file \<longrightarrow> 0 < k"
      using read_ok [OF assms(1) less.prems(1) assms(3,4) pos, of ?o st] by blast
    define bs where "bs = take k (drop (unat offset + unat n) file)"
    have read: "npc_read sv msize fid (count - n) ?o fs st = Some ((int (length bs), bs), fs1, st1)" using k(1) unfolding off bs_def .
    show ?thesis
    proof (cases "bs = []")
      case True': True
      then have "length file \<le> unat offset + unat n" using k(4) off by (auto simp: bs_def)
      then show ?thesis using True True' read k(2) less.prems(4) sn by (simp add: npc_readn.simps [of _ _ _ _ _ n])
    next
      case False
      define w where "w = (of_nat (length bs) :: u32)"
      have lb: "length bs \<le> unat (count - n)" using k(3) by (simp add: bs_def)
      have w: "unat w = length bs" "word_of_int (int (length bs)) = w"
        unfolding w_def using lb unsigned_less [of "count - n", where ?'a = nat] by (simp_all add: unat_of_nat_u32 unat_of_nat)
      have w2: "w \<le> count - n" "0 < w" using w(1) lb False by (simp_all add: word_le_nat_alt word_less_nat_alt)
      note step = unat_diff_less [OF True w2]
      have "unat (n + w) = length (buf @ bs)" using step(2) w(1) less.prems(3) by simp
      moreover have "r = (buf @ bs) @ take (unat count - unat (n + w)) (drop (unat offset + unat (n + w)) file)"
      proof -
        have len: "length bs \<le> unat count - unat n" using lb True by (simp add: unat_sub order_less_imp_le)
        have "bs = take (length bs) (drop (unat offset + unat n) file)" unfolding bs_def by (simp only: take_length_take)
        then have "take (unat count - unat n) (drop (unat offset + unat n) file) =
            bs @ take (unat count - unat n - length bs) (drop (length bs) (drop (unat offset + unat n) file))"
          using take_split [OF len, of "drop (unat offset + unat n) file"] by simp
        then show ?thesis using less.prems(4) step(2) w(1) by (simp add: ac_simps)
      qed
      ultimately obtain fs' st' where "npc_readn sv msize fid count offset (n + w) (buf @ bs) fs1 st1 = Some ((int (length r), r), fs', st')" "ready fs'"
        using less.hyps [OF step(1) k(2) step(3)] by blast
      then show ?thesis using True False read w(2) by (simp add: npc_readn.simps [of _ _ _ _ _ n])
    qed
  qed
qed

text \<open>
  (C16) Reading a file. Whatever the sizes of the pieces a server answers with, \<^verbatim>\<open>npc_readn\<close> returns: it stores exactly the
  bytes of the file from the offset on, \<open>count\<close> of them or all up to the end of the file, and returns their number; the
  client can go on with the next call.
\<close>

theorem readn_complete:
  assumes "serves_file sv dotu fid file" "ready fs" "24 < msize" "msize < 2 ^ 31" "unat offset + unat count < 2 ^ 64" "unat count < 2 ^ 31"
  defines "r \<equiv> take (unat count) (drop (unat offset) file)"
  shows "\<exists>fs' st'. npc_readn sv msize fid count offset 0 [] fs st = Some ((int (length r), r), fs', st') \<and> ready fs'"
  using readn_from [OF assms(1-6), of 0 "[]" r st] by (simp add: r_def)

text \<open>A server of one file that answers with at most three bytes at a time.\<close>

definition three_bytes :: "bytes \<Rightarrow> nat server" where
  "three_bytes file pkt st =
     (case np_deserialize npfcall0 pkt True of
        (_, tc, _) \<Rightarrow>
          let bs = take (min 3 (unat (fc_count tc))) (drop (unat (fc_offset tc)) file)
          in (Some (npfcall0\<lparr>fc_type := Rread, fc_tag := fc_tag tc, fc_count := of_nat (length bs), fc_data := Some bs\<rparr>), Suc st))"

lemma three_bytes_serves: "serves_file (three_bytes file) True fid file"
  unfolding serves_file_def
proof (intro allI impI)
  fix tag :: u16 and offset :: u64 and count :: u32 and st :: nat
  assume pos: "0 < count"
  obtain fc where fc: "np_deserialize npfcall0 (packet True (tag, MTread fid offset count) @ []) True = (int (7 + 16), fc, False)"
      "fc_tag fc = tag" "fc_offset fc = offset" "fc_count fc = count"
    using m9p.deserialize_wire [of "MTread fid offset count" True npfcall0 tag "[]"] by auto
  have "0 < min 3 (unat count)" using pos by (simp add: word_less_nat_alt)
  then show "\<exists>rc st'. three_bytes file (packet True (tag, MTread fid offset count)) st = (Some rc, st') \<and>
      fc_tag rc = tag \<and> fc_type rc = Rread \<and> answers_read file offset count rc"
    using fc by (auto simp: three_bytes_def Let_def answers_read_def intro!: exI [of _ "min 3 (unat count)"])
qed

lemma ready_create: "ready npc_create_fsys"
proof -
  have "used (fs_tagpool npc_create_fsys) = {}" by (auto simp: npc_create_fsys_def npc_create_pool_def used_def)
  moreover have "fs_lists npc_create_fsys [] []" "fs_trans npc_create_fsys" by (simp_all add: fs_lists_def npc_create_fsys_def)
  ultimately show ?thesis using create_inv by (auto simp: ready_def ready_to_send_def fs_inv_def)
qed

theorem readn_complete_witness:
  "serves_file (three_bytes [1, 2, 3, 4, 5, 6, 7, 8]) True 5 [1, 2, 3, 4, 5, 6, 7, 8] \<and>
    (\<exists>fs' st'. npc_readn (three_bytes [1, 2, 3, 4, 5, 6, 7, 8]) 8216 5 5 1 0 [] npc_create_fsys 0 = Some ((5, [2, 3, 4, 5, 6]), fs', st') \<and> ready fs')"
  using readn_complete [OF three_bytes_serves ready_create, of 8216 1 5 "[1, 2, 3, 4, 5, 6, 7, 8]" 5 0] three_bytes_serves by simp

subsection \<open>Writing\<close>

text \<open>\<^verbatim>\<open>npc_write\<close> and \<^verbatim>\<open>npc_writen\<close>. Unlike \<^verbatim>\<open>npc_read\<close>, \<^verbatim>\<open>npc_write\<close> does not compare the count of the response with its own.\<close>

definition npc_write :: "'s server \<Rightarrow> u32 \<Rightarrow> u32 \<Rightarrow> bytes \<Rightarrow> u32 \<Rightarrow> u64 \<Rightarrow> Npcfsys \<Rightarrow> 's \<Rightarrow> (int \<times> Npcfsys \<times> 's) option" where
  "npc_write sv msize fid buf count offset fs st =
     (let count = (if count > msize - 24 then msize - 24 else count)
      in if length buf < unat count then None
         else
           (case np_create_twrite (Some npfcall0) fid offset count (take (unat count) buf) of
              Inl _ \<Rightarrow> Some (-1, fs, st)
            | Inr tc \<Rightarrow>
                do { (rc, fs, st) \<leftarrow> npc_rpc sv tc fs st;
                     (case rc of
                        None \<Rightarrow> Some (-1, fs, st)
                      | Some rc \<Rightarrow> Some (sint (fc_count rc), fs, st)) }))"

partial_function (option) npc_writen :: "'s server \<Rightarrow> u32 \<Rightarrow> u32 \<Rightarrow> bytes \<Rightarrow> u32 \<Rightarrow> u64 \<Rightarrow> u32 \<Rightarrow> Npcfsys \<Rightarrow> 's \<Rightarrow> (int \<times> Npcfsys \<times> 's) option" where
  "npc_writen sv msize fid buf count offset n fs st =
     (if n < count then
        do { (l, fs, st) \<leftarrow> npc_write sv msize fid (drop (unat n) buf) (count - n) (offset + ucast n) fs st;
             if l < 0 then Some (-1, fs, st)
             else if l = 0 then Some (sint n, fs, st)
             else npc_writen sv msize fid buf count offset (n + word_of_int l) fs st }
      else Some (sint n, fs, st))"

text \<open>
  A server that has a file open for writing: it stores at least the first byte of every Twrite with a packet of less than
  2 GB, says how many it
  stored, and changes nothing else. \<open>file\<close> is the contents in a state of the server.
\<close>

definition splice :: "nat \<Rightarrow> bytes \<Rightarrow> bytes \<Rightarrow> bytes" where
  "splice off d f = take off f @ d @ drop (off + length d) f"

definition stores_file :: "'s server \<Rightarrow> bool \<Rightarrow> u32 \<Rightarrow> ('s \<Rightarrow> bytes) \<Rightarrow> bool" where
  "stores_file sv dotu fid file \<longleftrightarrow>
     (\<forall>tag offset data st. data \<noteq> [] \<and> length data + 24 < 2 ^ 31 \<longrightarrow>
        (\<exists>rc st' k. sv (packet dotu (tag, MTwrite fid offset data)) st = (Some rc, st') \<and> fc_tag rc = tag \<and> fc_type rc = Rwrite \<and>
          fc_count rc = of_nat k \<and> 0 < k \<and> k \<le> length data \<and> file st' = splice (unat offset) (take k data) (file st)))"

lemma splice_splice:
  assumes "off \<le> length f"
  shows "splice (off + length d) e (splice off d f) = splice off (d @ e) f"
  using assms by (simp add: splice_def ac_simps)

lemma splice_length: "off \<le> length f \<Longrightarrow> off + length d \<le> length (splice off d f)"
  by (simp add: splice_def)

lemma write_ok:
  assumes "stores_file sv dotu fid file" "ready fs" "24 < msize" "msize < 2 ^ 31" "0 < count" "unat count \<le> length buf"
  shows "\<exists>k fs' st'. npc_write sv msize fid buf count offset fs st = Some (int k, fs', st') \<and>
    ready fs' \<and> 0 < k \<and> k \<le> unat count \<and> file st' = splice (unat offset) (take k buf) (file st)"
proof -
  define c where "c = (if count > msize - 24 then msize - 24 else count)"
  have m: "unat msize < 2 ^ 31" "unat (msize - 24) = unat msize - 24" "24 < unat msize"
    using assms(3,4) unat_sub_24 by (simp_all add: word_less_nat_alt)
  have c: "0 < unat c" "unat c \<le> unat count" "unat c + 24 \<le> unat msize"
    using assms(5) m by (auto simp: c_def word_less_nat_alt word_le_nat_alt split: if_splits)
  define d where "d = take (unat c) buf"
  have d: "length d = unat c" "of_nat (length d) = c" "d \<noteq> []" using c(1,2) assms(6) by (auto simp: d_def)
  let ?m = "MTwrite fid offset d"
  let ?P = "\<lambda>rc st'. \<exists>k. fc_count rc = of_nat k \<and> 0 < k \<and> k \<le> length d \<and> file st' = splice (unat offset) (take k d) (file st)"
  have send: "sendable (unat msize) dotu ?m" using c(3) d(1) by (simp add: sendable_def)
  obtain tc where tc: "msg_create npfcall0 dotu ?m = Inr tc" using m9p.created [of ?m dotu npfcall0] c(3) d(1) m(1) by auto
  have "\<exists>rc st'. sv (packet dotu (tag, ?m)) st = (Some rc, st') \<and> fc_tag rc = tag \<and> fc_type rc = msg_type ?m + 1 \<and> ?P rc st'" for tag
    using assms(1) d(1,3) c(3) m(1) unfolding stores_file_def by fastforce
  then obtain rc fs' st' where r: "npc_rpc sv tc fs st = Some (Some rc, fs', st')" "?P rc st'" "ready_to_send fs'"
      "used (fs_tagpool fs') = used (fs_tagpool fs)"
    using rpc_answered [of fs "unat msize" dotu ?m npfcall0 tc sv st "\<lambda>_. ?P"] assms(2) send m(1) tc by (auto simp: ready_def)
  obtain k where k: "fc_count rc = of_nat k" "0 < k" "k \<le> length d" "file st' = splice (unat offset) (take k d) (file st)" using r(2) by blast
  have "unat (fc_count rc) = k" using k(1,3) d(1) c(3) m(1) by (simp add: unat_of_nat_u32)
  then have "sint (fc_count rc) = int k" using k(3) d(1) c(3) m(1) sint_small [of "fc_count rc"] by simp
  moreover have "take k d = take k buf" using k(3) d(1) by (simp add: d_def min_def)
  moreover have "\<not> length buf < unat c" using assms(6) c(2) by simp
  ultimately show ?thesis
    using tc r k d(2) c(2) d(1) assms(2) by (auto simp: npc_write_def Let_def ready_def simp flip: c_def d_def)
qed

lemma writen_from:
  assumes "stores_file sv dotu fid file" "24 < msize" "msize < 2 ^ 31" "unat offset + unat count < 2 ^ 64" "unat count < 2 ^ 31"
    "unat count \<le> length buf" "unat offset + unat n \<le> length (file st)" "ready fs" "n \<le> count"
  shows "\<exists>fs' st'. npc_writen sv msize fid buf count offset n fs st = Some (int (unat count), fs', st') \<and> ready fs' \<and>
    file st' = splice (unat offset + unat n) (drop (unat n) (take (unat count) buf)) (file st)"
  using assms(7-9)
proof (induction "unat (count - n)" arbitrary: n fs st rule: less_induct)
  case less
  have un: "unat n \<le> unat count" using less.prems(3) by (simp add: word_le_nat_alt)
  show ?case
  proof (cases "n < count")
    case False
    then have "n = count" using less.prems(3) by simp
    then show ?thesis
      using less.prems(2) assms(5) sint_small [of count] by (simp add: npc_writen.simps splice_def)
  next
    case True
    let ?o = "offset + ucast n"
    have off: "unat ?o = unat offset + unat n" using un assms(4) by (intro unat_offset) simp
    have cn: "unat (count - n) = unat count - unat n" using True by (simp add: unat_sub order_less_imp_le)
    then have pos: "0 < count - n" "unat (count - n) \<le> length (drop (unat n) buf)" using True assms(6) by (simp_all add: word_less_nat_alt)
    obtain k fs1 st1 where k: "npc_write sv msize fid (drop (unat n) buf) (count - n) ?o fs st = Some (int k, fs1, st1)"
        "ready fs1" "0 < k" "k \<le> unat (count - n)" "file st1 = splice (unat ?o) (take k (drop (unat n) buf)) (file st)"
      using write_ok [OF assms(1) less.prems(2) assms(2,3) pos, of ?o st] by blast
    define w where "w = (of_nat k :: u32)"
    have w: "unat w = k" "word_of_int (int k) = w"
      unfolding w_def using k(4) unsigned_less [of "count - n", where ?'a = nat] by (simp_all add: unat_of_nat_u32 unat_of_nat)
    have w2: "w \<le> count - n" "0 < w" using w(1) k(3,4) by (simp_all add: word_le_nat_alt word_less_nat_alt)
    note step = unat_diff_less [OF True w2]
    let ?d = "take k (drop (unat n) buf)"
    have dl: "length ?d = k" using pos(2) k(4) by simp
    have "unat offset + unat (n + w) \<le> length (file st1)"
      using splice_length [OF less.prems(1), of ?d] dl k(5) off step(2) w(1) by simp
    then obtain fs' st' where r: "npc_writen sv msize fid buf count offset (n + w) fs1 st1 = Some (int (unat count), fs', st')" "ready fs'"
        "file st' = splice (unat offset + unat (n + w)) (drop (unat (n + w)) (take (unat count) buf)) (file st1)"
      using less.hyps [OF step(1) _ k(2) step(3)] by blast
    have "file st' = splice (unat offset + unat n) (?d @ drop (unat n + k) (take (unat count) buf)) (file st)"
      using r(3) k(5) off step(2) w(1) splice_splice [OF less.prems(1), of ?d] dl by (simp add: add.assoc)
    moreover have "?d @ drop (unat n + k) (take (unat count) buf) = drop (unat n) (take (unat count) buf)"
    proof -
      have "?d = take k (drop (unat n) (take (unat count) buf))" using k(4) cn by (simp add: drop_take min_def)
      then show ?thesis using append_take_drop_id [of k "drop (unat n) (take (unat count) buf)"] by (simp add: add.commute)
    qed
    moreover have "npc_writen sv msize fid buf count offset n fs st = Some (int (unat count), fs', st')"
      using True k(1,3) r(1) w(2) by (simp add: npc_writen.simps [of _ _ _ _ _ _ n])
    ultimately show ?thesis using r(2) by simp
  qed
qed

text \<open>
  (C17) Writing a file. When the file reaches up to the offset, \<^verbatim>\<open>npc_writen\<close> returns \<open>count\<close>, whatever the sizes of the
  pieces the server stores: the bytes of the buffer, and nothing else, replace those at the offset, the file growing where
  they go past its end.
\<close>

theorem writen_complete:
  assumes "stores_file sv dotu fid file" "ready fs" "24 < msize" "msize < 2 ^ 31" "unat offset + unat count < 2 ^ 64" "unat count < 2 ^ 31"
    "unat count \<le> length buf" "unat offset \<le> length (file st)"
  shows "\<exists>fs' st'. npc_writen sv msize fid buf count offset 0 fs st = Some (int (unat count), fs', st') \<and> ready fs' \<and>
    file st' = splice (unat offset) (take (unat count) buf) (file st)"
  using writen_from [OF assms(1,3-7), of 0 st fs] assms(2,8) by simp

text \<open>A server that keeps one file and stores two bytes at a time.\<close>

definition two_bytes :: "bytes server" where
  "two_bytes pkt st =
     (case np_deserialize npfcall0 pkt True of
        (_, tc, _) \<Rightarrow>
          let d = take 2 (the (fc_data tc))
          in (Some (npfcall0\<lparr>fc_type := Rwrite, fc_tag := fc_tag tc, fc_count := of_nat (length d)\<rparr>), splice (unat (fc_offset tc)) d st))"

lemma two_bytes_stores: "stores_file two_bytes True fid id"
  unfolding stores_file_def
proof (intro allI impI)
  fix tag :: u16 and offset :: u64 and data st :: bytes
  assume data: "data \<noteq> [] \<and> length data + 24 < 2 ^ 31"
  obtain fc where fc: "np_deserialize npfcall0 (packet True (tag, MTwrite fid offset data) @ []) True = (int (7 + (16 + length data)), fc, False)"
      "fc_tag fc = tag" "fc_offset fc = offset" "fc_data fc = Some data"
    using m9p.deserialize_wire [of "MTwrite fid offset data" True npfcall0 tag "[]"] data by auto
  define k where "k = length (take 2 data)"
  have k: "0 < k" "k \<le> length data" "take k data = take 2 data" using data take_length_take [of 2 data] by (simp_all add: k_def)
  define rc where "rc = npfcall0\<lparr>fc_type := Rwrite, fc_tag := tag, fc_count := of_nat k\<rparr>"
  have "two_bytes (packet True (tag, MTwrite fid offset data)) st = (Some rc, splice (unat offset) (take 2 data) st)"
    using fc by (simp add: two_bytes_def Let_def rc_def k_def)
  then show "\<exists>rc st' k. two_bytes (packet True (tag, MTwrite fid offset data)) st = (Some rc, st') \<and> fc_tag rc = tag \<and> fc_type rc = Rwrite \<and>
      fc_count rc = of_nat k \<and> 0 < k \<and> k \<le> length data \<and> id st' = splice (unat offset) (take k data) (id st)"
    using k by (intro exI [of _ rc] exI [of _ "splice (unat offset) (take 2 data) st"] exI [of _ k]) (simp add: rc_def)
qed

theorem writen_complete_witness:
  "stores_file two_bytes True 5 id \<and>
    (\<exists>fs' st'. npc_writen two_bytes 8216 5 [11, 12, 13, 14, 15, 16] 5 3 0 npc_create_fsys [1, 2, 3, 4] = Some (5, fs', st') \<and> ready fs' \<and>
      id st' = [1, 2, 3, 11, 12, 13, 14, 15])"
  using writen_complete [OF two_bytes_stores ready_create, of 8216 3 5 "[11, 12, 13, 14, 15, 16]" "[1, 2, 3, 4]" 5] two_bytes_stores
  by (simp add: splice_def)

end
