(* ===== verification/Npcwalk.thy ===== *)
theory Npcwalk
  imports Npcio
begin

text \<open>
  Names of files on the client: \<^verbatim>\<open>fid.c\<close>, \<^verbatim>\<open>walk.c\<close>, \<^verbatim>\<open>open.c\<close> and \<^verbatim>\<open>remove.c\<close> of \<^verbatim>\<open>libnpclient\<close>. A path is cut at its slashes, and
  its names are sent in Twalk messages of at most sixteen. What is sent is compared with a server that keeps a tree of
  files and a node for every fid.
\<close>

subsection \<open>Fids\<close>

record Npcfid =
  cf_iounit :: u32
  cf_fid :: u32
  cf_offset :: u64
  cf_qid :: Npqid

text \<open>The part of \<^verbatim>\<open>struct Npcfsys\<close> that the file operations use, beside the requests.\<close>

record Npcmnt =
  mn_fs :: Npcfsys
  mn_dotu :: bool
  mn_msize :: u32
  mn_root :: Npcfid
  mn_fidpool :: Npcpool

definition npc_fid_alloc :: "Npqid \<Rightarrow> Npcmnt \<Rightarrow> (Npcfid \<times> Npcmnt) option" where
  "npc_fid_alloc junk m =
     do { (n, p) \<leftarrow> npc_get_id True (mn_fidpool m);
          Some (\<lparr>cf_iounit = 0, cf_fid = of_nat n, cf_offset = 0, cf_qid = junk\<rparr>, m\<lparr>mn_fidpool := p\<rparr>) }"

definition npc_fid_free :: "Npcfid \<Rightarrow> Npcmnt \<Rightarrow> Npcmnt option" where
  "npc_fid_free fid m = do { p \<leftarrow> npc_put_id (mn_fidpool m) (unat (cf_fid fid)); Some (m\<lparr>mn_fidpool := p\<rparr>) }"

text \<open>A call of \<^verbatim>\<open>npc_rpc\<close> with a message that was just built; a message that could not be built counts as a failed call.\<close>

definition call :: "'s server \<Rightarrow> created \<Rightarrow> Npcmnt \<Rightarrow> 's \<Rightarrow> (Npfcall option \<times> Npcmnt \<times> 's) option" where
  "call sv c m st =
     (case c of
        Inl CUndef \<Rightarrow> None
      | Inl _ \<Rightarrow> Some (None, m, st)
      | Inr tc \<Rightarrow> do { (rc, fs, st) \<leftarrow> npc_rpc sv tc (mn_fs m) st; Some (rc, m\<lparr>mn_fs := fs\<rparr>, st) })"

subsection \<open>Paths\<close>

abbreviation slash :: u8 where
  "slash \<equiv> 47"

text \<open>
  The inner loop of \<^verbatim>\<open>npc_walk\<close>: the names of the next Twalk, where \<^verbatim>\<open>s\<close> points afterwards, and whether \<^verbatim>\<open>t\<close> is not NULL.
  \<^verbatim>\<open>t\<close> is not initialised, so its first value is arbitrary.
\<close>

lemma tl_dropWhile_less: "s \<noteq> [] \<Longrightarrow> length (dropWhile P s) - Suc 0 < length s"
  using length_dropWhile_le [of P s] by (cases s) auto

function wnames_of :: "cstring list \<Rightarrow> cstring \<Rightarrow> bool \<Rightarrow> cstring list \<times> cstring \<times> bool" where
  "wnames_of wnames s t =
     (if length wnames < MAXWELEM \<and> s \<noteq> [] then
        if hd s = slash then wnames_of wnames (tl s) t
        else if slash \<notin> set s then (wnames @ [s], s, False)
        else wnames_of (wnames @ [takeWhile (\<lambda>c. c \<noteq> slash) s]) (tl (dropWhile (\<lambda>c. c \<noteq> slash) s)) True
      else (wnames, s, t))"
  by pat_completeness auto
termination
  by (relation "measure (\<lambda>(_, s, _). length s)") (simp_all add: tl_dropWhile_less)

declare wnames_of.simps [simp del]

text \<open>The nonempty names of a path, and what a Twalk carries of them.\<close>

function path_names :: "cstring \<Rightarrow> cstring list" where
  "path_names s =
     (if s = [] then []
      else if hd s = slash then path_names (tl s)
      else takeWhile (\<lambda>c. c \<noteq> slash) s # path_names (dropWhile (\<lambda>c. c \<noteq> slash) s))"
  by pat_completeness auto
termination
  by (relation "measure length") (auto simp: neq_Nil_conv dropWhile_eq_self_iff less_Suc_eq_le length_dropWhile_le)

declare path_names.simps [simp del]

lemma path_names_simps [simp]:
  "path_names [] = []"
  "path_names (slash # s) = path_names s"
  by (simp_all add: path_names.simps)

lemma path_names_first:
  assumes "s \<noteq> []" "hd s \<noteq> slash"
  shows "path_names s = takeWhile (\<lambda>c. c \<noteq> slash) s # path_names (tl (dropWhile (\<lambda>c. c \<noteq> slash) s))"
proof -
  let ?d = "dropWhile (\<lambda>c. c \<noteq> slash) s"
  have "?d = [] \<or> ?d = slash # tl ?d" using hd_dropWhile [of "\<lambda>c. c \<noteq> slash" s] by (metis list.collapse)
  then have "path_names ?d = path_names (tl ?d)" by (metis list.sel(2) path_names_simps(2))
  then show ?thesis using assms by (simp add: path_names.simps [of s])
qed

definition unread :: "cstring \<Rightarrow> bool \<Rightarrow> cstring" where
  "unread s t = (if \<not> t \<or> s = [] then [] else s)"

text \<open>
  One round takes names off the front of the path, sixteen of them unless it takes them all.
\<close>

lemma wnames_of_names:
  assumes "wnames_of ws s t = (ns, s', t')" "length ws < MAXWELEM"
  shows "\<exists>ms. ns = ws @ ms \<and> path_names s = ms @ path_names (unread s' t') \<and> length ns \<le> MAXWELEM \<and>
    (unread s' t' = [] \<or> length (unread s' t') < length s \<and> length ns = MAXWELEM) \<and> sum_list (map length ms) + length (unread s' t') \<le> length s"
  using assms
proof (induction ws s t rule: wnames_of.induct)
  case (1 ws s t)
  let ?P = "\<lambda>c. c \<noteq> slash"
  consider "s = []" | "s \<noteq> []" "hd s = slash" | "s \<noteq> []" "hd s \<noteq> slash" "slash \<notin> set s" | "s \<noteq> []" "hd s \<noteq> slash" "slash \<in> set s"
    by blast
  then show ?case
  proof cases
    case 1
    then show ?thesis using "1.prems" by (simp add: wnames_of.simps unread_def)
  next
    case 2
    then have s: "s = slash # tl s" by (metis list.collapse)
    have "wnames_of ws (tl s) t = (ns, s', t')" using "1.prems" 2 by (simp add: wnames_of.simps [of _ s])
    from "1.IH"(1) [OF _ 2(2) this] obtain ms where "ns = ws @ ms" "path_names (tl s) = ms @ path_names (unread s' t')" "length ns \<le> MAXWELEM"
        "unread s' t' = [] \<or> length (unread s' t') < length (tl s) \<and> length ns = MAXWELEM" "sum_list (map length ms) + length (unread s' t') \<le> length (tl s)"
      using "1.prems"(2) 2(1) by auto
    moreover have "path_names s = path_names (tl s)" "length (tl s) < length s"
      using s path_names_simps(2) [of "tl s"] 2(1) by (auto simp only: length_tl) auto
    ultimately show ?thesis by fastforce
  next
    case 3
    then have "ns = ws @ [s]" "unread s' t' = []" using "1.prems" by (auto simp: wnames_of.simps unread_def)
    moreover have "takeWhile ?P s = s" "dropWhile ?P s = []" using 3(3) by (auto simp: takeWhile_eq_all_conv dropWhile_eq_Nil_conv)
    then have "path_names s = [s]" using path_names_first [OF 3(1,2)] by (simp only: list.sel path_names_simps)
    ultimately show ?thesis using "1.prems"(2) by simp
  next
    case 4
    let ?n = "takeWhile ?P s" and ?d = "tl (dropWhile ?P s)"
    have sub: "wnames_of (ws @ [?n]) ?d True = (ns, s', t')" using "1.prems" 4 by (simp add: wnames_of.simps [of _ s])
    have len: "length ?n + length ?d < length s"
    proof -
      have "dropWhile ?P s \<noteq> []" using 4(3) by (auto simp: dropWhile_eq_Nil_conv)
      then show ?thesis using arg_cong [OF takeWhile_dropWhile_id [of ?P s], of length] by (cases "dropWhile ?P s") auto
    qed
    note names = path_names_first [OF 4(1,2)]
    show ?thesis
    proof (cases "length (ws @ [?n]) < MAXWELEM")
      case True
      obtain ms where "ns = (ws @ [?n]) @ ms" "path_names ?d = ms @ path_names (unread s' t')" "length ns \<le> MAXWELEM"
          "unread s' t' = [] \<or> length (unread s' t') < length ?d \<and> length ns = MAXWELEM" "sum_list (map length ms) + length (unread s' t') \<le> length ?d"
        using "1.IH"(2) [OF _ 4(2) _ sub True] "1.prems"(2) 4 by auto
      then show ?thesis using names len by (intro exI [of _ "?n # ms"]) auto
    next
      case False
      then have "ns = ws @ [?n]" "s' = ?d" "t'" using sub by (simp_all add: wnames_of.simps)
      then show ?thesis using names len False "1.prems"(2) by (auto simp: unread_def)
    qed
  qed
qed

subsection \<open>Walking\<close>

text \<open>
  The outer loop. The result is \<^verbatim>\<open>nfid\<close> at the label \<^verbatim>\<open>error\<close>, or the qid of the file.
\<close>

lemma walk_less: "wnames_of [] s t = (ns, s', t') \<Longrightarrow> t' \<Longrightarrow> s' \<noteq> [] \<Longrightarrow> length s' < length s"
  using wnames_of_names [of "[]" s t ns s' t'] by (auto simp: unread_def)

function walk_loop :: "'s server \<Rightarrow> u32 \<Rightarrow> u32 \<Rightarrow> Npqid \<Rightarrow> cstring \<Rightarrow> bool \<Rightarrow> Npcmnt \<Rightarrow> 's \<Rightarrow> ((u32 + Npqid) \<times> Npcmnt \<times> 's) option" where
  "walk_loop sv newfid nfid qid s t m st =
     (case wnames_of [] s t of (wnames, s, t) \<Rightarrow>
        let n = length wnames
        in do { (rc, m, st) \<leftarrow> call sv (np_create_twalk (Some npfcall0) nfid newfid (of_nat n) wnames) m st;
                (case rc of
                   None \<Rightarrow> Some (Inl nfid, m, st)
                 | Some rc \<Rightarrow>
                     if unat (fc_nwqid rc) \<noteq> n then Some (Inl newfid, m, st)
                     else
                       do { qid \<leftarrow> (if n = 0 then Some qid else if n \<le> length (fc_wqids rc) then Some (fc_wqids rc ! (n - 1)) else None);
                            if \<not> t \<or> s = [] then Some (Inr qid, m, st)
                            else walk_loop sv newfid newfid qid s t m st }) })"
  by pat_completeness auto
termination
  by (relation "measure (\<lambda>(_, _, _, _, s, _). length s)") (auto dest!: walk_less [OF sym])

declare walk_loop.simps [simp del]

definition npc_clunk :: "'s server \<Rightarrow> Npcfid \<Rightarrow> Npcmnt \<Rightarrow> 's \<Rightarrow> (int \<times> Npcmnt \<times> 's) option" where
  "npc_clunk sv fid m st =
     do { (rc, m, st) \<leftarrow> call sv (np_create_tclunk (Some npfcall0) (cf_fid fid)) m st;
          (case rc of
             None \<Rightarrow> Some (-1, m, st)
           | Some _ \<Rightarrow> do { m \<leftarrow> npc_fid_free fid m; Some (0, m, st) }) }"

definition npc_walk :: "'s server \<Rightarrow> Npqid \<Rightarrow> bool \<Rightarrow> cstring \<Rightarrow> Npcmnt \<Rightarrow> 's \<Rightarrow> (Npcfid option \<times> Npcmnt \<times> 's) option" where
  "npc_walk sv junk t path m st =
     do { (fid, m) \<leftarrow> npc_fid_alloc junk m;
          (r, m, st) \<leftarrow> walk_loop sv (cf_fid fid) (cf_fid (mn_root m)) (cf_qid (mn_root m)) (dropWhile (\<lambda>c. c = slash) path) t m st;
          (case r of
             Inr qid \<Rightarrow> Some (Some (fid\<lparr>cf_qid := qid\<rparr>), m, st)
           | Inl nfid \<Rightarrow>
               if nfid = cf_fid fid then
                 do { (rc, m, st) \<leftarrow> call sv (np_create_tclunk (Some npfcall0) (cf_fid fid)) m st;
                      m \<leftarrow> (if rc = None then Some m else npc_fid_free fid m);
                      Some (None, m, st) }
               else Some (None, m, st)) }"

subsection \<open>A server with a tree of files\<close>

text \<open>
  What a message does to a server: the response to it, under any tag, and the state after it.
\<close>

definition replies :: "'s server \<Rightarrow> bool \<Rightarrow> msg \<Rightarrow> 's \<Rightarrow> msg \<Rightarrow> 's \<Rightarrow> bool" where
  "replies sv dotu m st rm st' \<longleftrightarrow>
     (\<forall>tag. \<exists>rc. sv (packet dotu (tag, m)) st = (Some rc, st') \<and> fc_tag rc = tag \<and> fc_type rc = msg_type rm \<and> msg_carries dotu rm rc)"

definition refuses :: "'s server \<Rightarrow> bool \<Rightarrow> msg \<Rightarrow> 's \<Rightarrow> 's \<Rightarrow> bool" where
  "refuses sv dotu m st st' \<longleftrightarrow> (\<exists>ename ecode. replies sv dotu m st (MRerror ename ecode) st')"

text \<open>
  A tree is given by the children of a node and the qid of a node. \<open>follow\<close> lists the nodes on a walk, up to the first name that does
  not exist.
\<close>

fun follow :: "('n \<Rightarrow> cstring \<Rightarrow> 'n option) \<Rightarrow> 'n \<Rightarrow> cstring list \<Rightarrow> 'n list" where
  "follow child x [] = []"
| "follow child x (n # ns) = (case child x n of None \<Rightarrow> [] | Some y \<Rightarrow> y # follow child y ns)"

text \<open>
  Twalk and Tclunk, as 9P specifies them: a walk binds the new fid when all names exist, says how far it got otherwise, and
  is an error when not even the first name exists. \<open>nodes\<close> is the node of each fid in a state of the server.
\<close>

definition serves_walk :: "'s server \<Rightarrow> bool \<Rightarrow> ('n \<Rightarrow> cstring \<Rightarrow> 'n option) \<Rightarrow> ('n \<Rightarrow> Npqid) \<Rightarrow> ('s \<Rightarrow> u32 \<rightharpoonup> 'n) \<Rightarrow> bool" where
  "serves_walk sv dotu child qid nodes \<longleftrightarrow>
     (\<forall>st fid newfid names x.
        nodes st fid = Some x \<and> (newfid = fid \<or> nodes st newfid = None) \<and> length names \<le> MAXWELEM \<and> sum_list (map length names) < 2 ^ 16 \<longrightarrow>
        (let ys = follow child x names
         in if ys = [] \<and> names \<noteq> [] then \<exists>st'. refuses sv dotu (MTwalk fid newfid names) st st' \<and> nodes st' = nodes st
            else \<exists>st'. replies sv dotu (MTwalk fid newfid names) st (MRwalk (map qid ys)) st' \<and>
              nodes st' = (if length ys = length names then (nodes st)(newfid \<mapsto> last (x # ys)) else nodes st)))"

definition serves_clunk :: "'s server \<Rightarrow> bool \<Rightarrow> ('s \<Rightarrow> u32 \<rightharpoonup> 'n) \<Rightarrow> bool" where
  "serves_clunk sv dotu nodes \<longleftrightarrow>
     (\<forall>st fid.
        if nodes st fid = None then \<exists>st'. refuses sv dotu (MTclunk fid) st st' \<and> nodes st' = nodes st
        else \<exists>st'. replies sv dotu (MTclunk fid) st MRclunk st' \<and> nodes st' = (nodes st)(fid := None))"

lemma follow_append:
  "follow child x (ns @ ms) =
     (let ys = follow child x ns in if length ys = length ns then ys @ follow child (last (x # ys)) ms else ys)"
  by (induction ns arbitrary: x) (auto split: option.splits simp: Let_def)

lemma follow_length: "length (follow child x ns) \<le> length ns"
  by (induction ns arbitrary: x) (auto split: option.splits)

text \<open>A call of such a server.\<close>

lemma call_refused:
  assumes "ready (mn_fs m)" "sendable msize dotu tm" "msize < 2 ^ 31" "refuses sv dotu tm st st'"
  shows "\<exists>fs. call sv (msg_create npfcall0 dotu tm) m st = Some (None, m\<lparr>mn_fs := fs\<rparr>, st') \<and> ready fs"
proof -
  obtain tc where tc: "msg_create npfcall0 dotu tm = Inr tc" using m9p.created [of tm dotu npfcall0] assms(2,3) by (auto simp: sendable_def)
  have "\<exists>rc s. sv (packet dotu (tag, tm)) st = (Some rc, s) \<and> fc_tag rc = tag \<and> answered tm rc \<and> s = st' \<and> fc_type rc = Rerror" for tag
    using assms(4) unfolding refuses_def replies_def
    by (fastforce simp: answered_def np_strdup_def npstr_def)
  then obtain rc fs where "npc_rpc sv tc (mn_fs m) st = Some (if fc_type rc = Rerror then None else Some rc, fs, st')" "fc_type rc = Rerror"
      "ready_to_send fs" "used (fs_tagpool fs) = used (fs_tagpool (mn_fs m))"
    using rpc_completes [of "mn_fs m" msize dotu tm npfcall0 tc sv st "\<lambda>_ rc s. s = st' \<and> fc_type rc = Rerror"] assms(1-3) tc
    by (auto simp: ready_def)
  then show ?thesis using assms(1) tc by (auto simp: call_def ready_def)
qed

lemma call_replied:
  assumes "ready (mn_fs m)" "sendable msize dotu tm" "msize < 2 ^ 31" "replies sv dotu tm st rm st'" "msg_type rm = msg_type tm + 1" "msg_type rm \<noteq> Rerror"
  shows "\<exists>rc fs. call sv (msg_create npfcall0 dotu tm) m st = Some (Some rc, m\<lparr>mn_fs := fs\<rparr>, st') \<and> ready fs \<and> msg_carries dotu rm rc"
proof -
  obtain tc where tc: "msg_create npfcall0 dotu tm = Inr tc" using m9p.created [of tm dotu npfcall0] assms(2,3) by (auto simp: sendable_def)
  have "\<exists>rc s. sv (packet dotu (tag, tm)) st = (Some rc, s) \<and> fc_tag rc = tag \<and> fc_type rc = msg_type tm + 1 \<and> s = st' \<and> msg_carries dotu rm rc" for tag
    using assms(4,5) unfolding replies_def by fastforce
  then obtain rc fs where "npc_rpc sv tc (mn_fs m) st = Some (Some rc, fs, st')" "msg_carries dotu rm rc"
      "ready_to_send fs" "used (fs_tagpool fs) = used (fs_tagpool (mn_fs m))"
    using rpc_answered [of "mn_fs m" msize dotu tm npfcall0 tc sv st "\<lambda>_ rc s. s = st' \<and> msg_carries dotu rm rc"] assms(1-3,5,6) tc
    by (auto simp: ready_def)
  then show ?thesis using assms(1) tc by (auto simp: call_def ready_def)
qed

subsection \<open>Walking the tree\<close>

lemma walk_sendable:
  assumes "length names \<le> MAXWELEM" "sum_list (map length names) < 2 ^ 16"
  shows "sendable (2 ^ 31 - 1) dotu (MTwalk fid newfid names)"
proof -
  have "length n \<le> sum_list (map length names)" if "n \<in> set names" for n using that by (simp add: member_le_sum_list)
  then have "list_all str_ok names" using assms(2) by (fastforce simp: list_all_iff)
  moreover have "length (concat (map encstr names)) = 2 * length names + sum_list (map length names)" by (induction names) auto
  ultimately show ?thesis using assms by (simp add: sendable_def)
qed

text \<open>One Twalk.\<close>

lemma walk_round:
  assumes "serves_walk sv dotu child qid nodes" "ready (mn_fs m)" "nodes st nfid = Some x" "newfid = nfid \<or> nodes st newfid = None"
    "length ns \<le> MAXWELEM" "sum_list (map length ns) < 2 ^ 16"
  defines "ys \<equiv> follow child x ns"
  shows "\<exists>rc fs st'. call sv (np_create_twalk (Some npfcall0) nfid newfid (of_nat (length ns)) ns) m st = Some (rc, m\<lparr>mn_fs := fs\<rparr>, st') \<and> ready fs \<and>
    (if length ys = length ns
     then nodes st' = (nodes st)(newfid \<mapsto> last (x # ys)) \<and> (\<exists>r. rc = Some r \<and> unat (fc_nwqid r) = length ns \<and> fc_wqids r = map qid ys)
     else nodes st' = nodes st \<and> (\<forall>r. rc = Some r \<longrightarrow> unat (fc_nwqid r) \<noteq> length ns))"
proof -
  let ?m = "MTwalk nfid newfid ns"
  note send = walk_sendable [OF assms(5,6), of dotu nfid newfid]
  have le: "length ys \<le> length ns" by (simp add: ys_def follow_length)
  have un: "unat (of_nat (length ys) :: u16) = length ys" using le assms(5) by (simp add: unat_of_nat)
  have sw: "if ys = [] \<and> ns \<noteq> [] then \<exists>st'. refuses sv dotu ?m st st' \<and> nodes st' = nodes st
      else \<exists>st'. replies sv dotu ?m st (MRwalk (map qid ys)) st' \<and>
        nodes st' = (if length ys = length ns then (nodes st)(newfid \<mapsto> last (x # ys)) else nodes st)"
    using assms(1,3-6) unfolding serves_walk_def Let_def ys_def by blast
  show ?thesis
  proof (cases "ys = [] \<and> ns \<noteq> []")
    case True
    then obtain st' where "refuses sv dotu ?m st st'" "nodes st' = nodes st" using sw by auto
    then show ?thesis using call_refused [OF assms(2) send, of sv st st'] True by auto
  next
    case False
    then obtain st' where st': "replies sv dotu ?m st (MRwalk (map qid ys)) st'"
        "nodes st' = (if length ys = length ns then (nodes st)(newfid \<mapsto> last (x # ys)) else nodes st)" using sw by auto
    obtain rc fs where "call sv (msg_create npfcall0 dotu ?m) m st = Some (Some rc, m\<lparr>mn_fs := fs\<rparr>, st')" "ready fs"
        "msg_carries dotu (MRwalk (map qid ys)) rc"
      using call_replied [OF assms(2) send _ st'(1)] by auto
    then show ?thesis using st'(2) un by auto
  qed
qed

lemma walk_loop_ok:
  assumes "serves_walk sv dotu child qid nodes" "ready (mn_fs m)" "nodes st nfid = Some x" "newfid = nfid \<or> nodes st newfid = None"
    "length s < 2 ^ 16"
  shows "\<exists>r fs st'. walk_loop sv newfid nfid q s t m st = Some (r, m\<lparr>mn_fs := fs\<rparr>, st') \<and> ready fs \<and>
    (let ys = follow child x (path_names s); first = take MAXWELEM (path_names s)
     in if length ys = length (path_names s) then r = Inr (last (q # map qid ys)) \<and> nodes st' = (nodes st)(newfid \<mapsto> last (x # ys))
        else if length (follow child x first) = length first then r = Inl newfid \<and> (\<exists>z. nodes st' = (nodes st)(newfid \<mapsto> z))
        else (r = Inl newfid \<or> r = Inl nfid) \<and> nodes st' = nodes st)"
  using assms(2-5)
proof (induction "length s" arbitrary: s nfid q t m st x rule: less_induct)
  case less
  obtain ns s' t' where w: "wnames_of [] s t = (ns, s', t')" by (metis prod_cases3)
  let ?rest = "unread s' t'"
  have n: "path_names s = ns @ path_names ?rest" "length ns \<le> MAXWELEM" "?rest = [] \<or> length ?rest < length s \<and> length ns = MAXWELEM"
      "sum_list (map length ns) + length ?rest \<le> length s"
    using wnames_of_names [OF w] by auto
  have first: "take MAXWELEM (path_names s) = ns" using n(1-3) by auto
  define ys where "ys = follow child x ns"
  obtain rc fs st1 where c: "call sv (np_create_twalk (Some npfcall0) nfid newfid (of_nat (length ns)) ns) m st = Some (rc, m\<lparr>mn_fs := fs\<rparr>, st1)" "ready fs"
    "if length ys = length ns
     then nodes st1 = (nodes st)(newfid \<mapsto> last (x # ys)) \<and> (\<exists>r. rc = Some r \<and> unat (fc_nwqid r) = length ns \<and> fc_wqids r = map qid ys)
     else nodes st1 = nodes st \<and> (\<forall>r. rc = Some r \<longrightarrow> unat (fc_nwqid r) \<noteq> length ns)"
    using walk_round [OF assms(1) less.prems(1-3) n(2)] n(4) less.prems(4) unfolding ys_def by fastforce
  have le: "length ys \<le> length ns" by (simp add: ys_def follow_length)
  show ?case
  proof (cases "length ys = length ns")
    case False
    then have ys: "follow child x (path_names s) = ys" "length ys < length ns" using n(1) le by (simp_all add: follow_append ys_def Let_def)
    then have "length ys \<noteq> length (path_names s)" using n(1) by simp
    then show ?thesis using c False w ys first by (cases rc) (auto simp: walk_loop.simps Let_def simp flip: ys_def)
  next
    case True
    then obtain r where r: "rc = Some r" "unat (fc_nwqid r) = length ns" "fc_wqids r = map qid ys" "nodes st1 = (nodes st)(newfid \<mapsto> last (x # ys))"
      using c(3) by auto
    have all: "follow child x (path_names s) = ys @ follow child (last (x # ys)) (path_names ?rest)"
      using n(1) True by (simp add: follow_append ys_def Let_def)
    let ?q = "last (q # map qid ys)"
    have q: "(if length ns = 0 then Some q else if length ns \<le> length (fc_wqids r) then Some (fc_wqids r ! (length ns - 1)) else None) = Some ?q"
      using True r(3) by (auto simp: last_conv_nth)
    have step: "walk_loop sv newfid nfid q s t m st =
        (if \<not> t' \<or> s' = [] then Some (Inr ?q, m\<lparr>mn_fs := fs\<rparr>, st1) else walk_loop sv newfid newfid ?q s' t' (m\<lparr>mn_fs := fs\<rparr>) st1)"
      unfolding walk_loop.simps [of sv newfid nfid q s t m st] w Let_def using c(1) r(1,2) q by simp
    show ?thesis
    proof (cases "\<not> t' \<or> s' = []")
      case True': True
      then have "?rest = []" by (simp add: unread_def)
      then show ?thesis using step True' True n(1) all r(4) c(2) by auto
    next
      case False
      then have m: "?rest = s'" by (simp add: unread_def)
      let ?x = "last (x # ys)"
      have sh: "length s' < length s" "length s' < 2 ^ 16" using n(3) m False less.prems(4) by auto
      have "nodes st1 newfid = Some ?x" using r(4) by simp
      from less.hyps [OF sh(1) _ this _ sh(2), of "m\<lparr>mn_fs := fs\<rparr>" ?q t'] c(2)
      obtain r' fs' st' where i: "walk_loop sv newfid newfid ?q s' t' (m\<lparr>mn_fs := fs\<rparr>) st1 = Some (r', m\<lparr>mn_fs := fs'\<rparr>, st')" "ready fs'"
        "let zs = follow child ?x (path_names s'); first = take MAXWELEM (path_names s')
         in if length zs = length (path_names s') then r' = Inr (last (?q # map qid zs)) \<and> nodes st' = (nodes st1)(newfid \<mapsto> last (?x # zs))
            else if length (follow child ?x first) = length first then r' = Inl newfid \<and> (\<exists>z. nodes st' = (nodes st1)(newfid \<mapsto> z))
            else (r' = Inl newfid \<or> r' = Inl newfid) \<and> nodes st' = nodes st1" by auto
      have w': "walk_loop sv newfid nfid q s t m st = Some (r', m\<lparr>mn_fs := fs'\<rparr>, st')" using step False i(1) by simp
      define zs where "zs = follow child ?x (path_names s')"
      have lens: "length (follow child x (path_names s)) = length (path_names s) \<longleftrightarrow> length zs = length (path_names s')"
        using all n(1) m True by (simp add: zs_def)
      have lasts: "last (?x # zs) = last (x # ys @ zs)" "last (?q # map qid zs) = last (q # map qid (ys @ zs))" by (auto simp: last_append)
      show ?thesis
      proof (cases "length zs = length (path_names s')")
        case full: True
        have "length zs = length (path_names s') \<longrightarrow> r' = Inr (last (?q # map qid zs)) \<and> nodes st' = (nodes st1)(newfid \<mapsto> last (?x # zs))"
          using i(3) unfolding Let_def zs_def by argo
        then have "r' = Inr (last (q # map qid (ys @ zs)))" "nodes st' = (nodes st)(newfid \<mapsto> last (x # ys @ zs))"
          using full lasts by (simp_all only: r(4) fun_upd_upd)
        then show ?thesis using w' i(2) lens full unfolding all m zs_def [symmetric] Let_def by auto
      next
        case part: False
        then have "r' = Inl newfid" "\<exists>z. nodes st' = (nodes st)(newfid \<mapsto> z)" using i(3) r(4) by (auto simp: Let_def zs_def split: if_splits)
        then show ?thesis using w' i(2) lens part first True by (auto simp: Let_def ys_def)
      qed
    qed
  qed
qed

text \<open>
  The client is mounted on a server: the fid of the root is bound to the root, and the client knows all fids the server has
  for it.
\<close>

definition mounted :: "('s \<Rightarrow> u32 \<rightharpoonup> 'n) \<Rightarrow> ('n \<Rightarrow> Npqid) \<Rightarrow> 'n \<Rightarrow> Npcmnt \<Rightarrow> 's \<Rightarrow> bool" where
  "mounted nodes qid root m st \<longleftrightarrow>
     ready (mn_fs m) \<and> nodes st (cf_fid (mn_root m)) = Some root \<and> cf_qid (mn_root m) = qid root \<and>
     pool_fits (mn_fidpool m) \<and> cp_maxid (mn_fidpool m) = NOFID \<and> (\<forall>f. nodes st f \<noteq> None \<longrightarrow> unat f \<in> used (mn_fidpool m))"

lemma mounted_change:
  assumes "mounted nodes qid root m st" "ready (mn_fs m')" "pool_fits (mn_fidpool m')" "cp_maxid (mn_fidpool m') = NOFID" "mn_root m' = mn_root m"
    "\<And>f. nodes st' f \<noteq> None \<Longrightarrow> unat f \<in> used (mn_fidpool m')" "nodes st' (cf_fid (mn_root m)) = Some root"
  shows "mounted nodes qid root m' st'"
  using assms by (simp add: mounted_def)

lemma path_names_drop: "path_names (dropWhile (\<lambda>c. c = slash) path) = path_names path"
  by (induction path) auto

lemma fid_alloc_ok:
  assumes "pool_fits (mn_fidpool m)" "cp_maxid (mn_fidpool m) = NOFID" "card (used (mn_fidpool m)) < 2 ^ 32 - 1"
  obtains f p where "npc_fid_alloc junk m = Some (\<lparr>cf_iounit = 0, cf_fid = f, cf_offset = 0, cf_qid = junk\<rparr>, m\<lparr>mn_fidpool := p\<rparr>)"
    "unat f \<notin> used (mn_fidpool m)" "used p = insert (unat f) (used (mn_fidpool m))" "pool_fits p" "cp_maxid p = NOFID"
proof -
  have max: "unat (NOFID :: u32) = 2 ^ 32 - 1" by simp
  obtain n p where id: "npc_get_id True (mn_fidpool m) = Some (n, p)" using get_id_defined [of "mn_fidpool m"] assms(2,3) by auto
  note fresh = get_id_fresh [OF id] and fits = get_id_fits [OF assms(1) id]
  have "unat (of_nat n :: u32) = n" using fits(2) assms(2) by (simp add: unat_of_nat)
  then show thesis using that [of "of_nat n" p] id fresh fits(1,3) assms(2) by (simp add: npc_fid_alloc_def)
qed

lemma fid_free_ok:
  assumes "pool_fits (mn_fidpool m)" "unat (cf_fid fid) \<in> used (mn_fidpool m)"
  obtains p where "npc_fid_free fid m = Some (m\<lparr>mn_fidpool := p\<rparr>)" "used p = used (mn_fidpool m) - {unat (cf_fid fid)}" "pool_fits p"
    "cp_maxid p = cp_maxid (mn_fidpool m)"
proof -
  have "unat (cf_fid fid) div 8 < length (cp_map (mn_fidpool m))" using assms(2) by (simp add: used_def)
  from put_id_used [OF this] show thesis using that assms(1) by (auto simp: npc_fid_free_def pool_fits_def)
qed

lemma clunk_sendable: "sendable (2 ^ 31 - 1) dotu (MTclunk fid)"
  by (simp add: sendable_def)

lemma clunk_ok:
  assumes "serves_clunk sv dotu nodes" "ready (mn_fs m)" "pool_fits (mn_fidpool m)" "unat (cf_fid fid) \<in> used (mn_fidpool m)"
  shows "\<exists>res fs p st'. npc_clunk sv fid m st = Some (res, m\<lparr>mn_fs := fs, mn_fidpool := p\<rparr>, st') \<and> ready fs \<and> pool_fits p \<and>
    cp_maxid p = cp_maxid (mn_fidpool m) \<and> nodes st' = (nodes st)(cf_fid fid := None) \<and> res = (if nodes st (cf_fid fid) = None then -1 else 0) \<and>
    used p = (if nodes st (cf_fid fid) = None then used (mn_fidpool m) else used (mn_fidpool m) - {unat (cf_fid fid)})"
proof (cases "nodes st (cf_fid fid)")
  case None
  then obtain st' where st': "refuses sv dotu (MTclunk (cf_fid fid)) st st'" "nodes st' = nodes st"
    using assms(1) unfolding serves_clunk_def by metis
  have same: "nodes st' = (nodes st)(cf_fid fid := None)" using None st'(2) by auto
  obtain fs where "call sv (msg_create npfcall0 dotu (MTclunk (cf_fid fid))) m st = Some (None, m\<lparr>mn_fs := fs\<rparr>, st')" "ready fs"
    using call_refused [OF assms(2) clunk_sendable _ st'(1)] by auto
  then have "npc_clunk sv fid m st = Some (-1, m\<lparr>mn_fs := fs, mn_fidpool := mn_fidpool m\<rparr>, st')" "ready fs" by (simp_all add: npc_clunk_def)
  then show ?thesis using assms(3) None same by fastforce
next
  case (Some x)
  then obtain st' where st': "replies sv dotu (MTclunk (cf_fid fid)) st MRclunk st'" "nodes st' = (nodes st)(cf_fid fid := None)"
    using assms(1) unfolding serves_clunk_def by (metis option.distinct(1))
  obtain rc fs where c: "call sv (msg_create npfcall0 dotu (MTclunk (cf_fid fid))) m st = Some (Some rc, m\<lparr>mn_fs := fs\<rparr>, st')" "ready fs"
    using call_replied [OF assms(2) clunk_sendable _ st'(1)] by auto
  obtain p where p: "npc_fid_free fid (m\<lparr>mn_fs := fs\<rparr>) = Some (m\<lparr>mn_fs := fs, mn_fidpool := p\<rparr>)" "used p = used (mn_fidpool m) - {unat (cf_fid fid)}"
      "pool_fits p" "cp_maxid p = cp_maxid (mn_fidpool m)"
    using fid_free_ok [of "m\<lparr>mn_fs := fs\<rparr>" fid] assms(3,4) by auto
  have "npc_clunk sv fid m st = Some (0, m\<lparr>mn_fs := fs, mn_fidpool := p\<rparr>, st')" using c(1) p(1) by (simp add: npc_clunk_def)
  then show ?thesis using Some st'(2) c(2) p by auto
qed

text \<open>The end of a walk that failed is \<^verbatim>\<open>npc_clunk\<close> without its result.\<close>

lemma walk_error_clunk:
  "do { (rc, m, st) \<leftarrow> call sv (np_create_tclunk (Some npfcall0) (cf_fid fid)) m st;
        m \<leftarrow> (if rc = None then Some m else npc_fid_free fid m);
        Some (None, m, st) } = do { (_, m, st) \<leftarrow> npc_clunk sv fid m st; Some (None, m, st) }"
  by (auto simp: npc_clunk_def split: option.splits bind_splits)

lemma walk_result:
  assumes "serves_walk sv dotu child qid nodes" "serves_clunk sv dotu nodes" "mounted nodes qid root m st" "length path < 2 ^ 16"
    "card (used (mn_fidpool m)) < 2 ^ 32 - 1"
  defines "ys \<equiv> follow child root (path_names path)" and "first \<equiv> take MAXWELEM (path_names path)"
  shows "\<exists>f res m' st'. unat f \<notin> used (mn_fidpool m) \<and> npc_walk sv junk t path m st = Some (res, m', st') \<and> mounted nodes qid root m' st' \<and>
    mn_msize m' = mn_msize m \<and> mn_root m' = mn_root m \<and>
    (if length ys = length (path_names path)
     then res = Some \<lparr>cf_iounit = 0, cf_fid = f, cf_offset = 0, cf_qid = qid (last (root # ys))\<rparr> \<and>
       nodes st' = (nodes st)(f \<mapsto> last (root # ys)) \<and> used (mn_fidpool m') = insert (unat f) (used (mn_fidpool m))
     else res = None \<and> nodes st' = nodes st \<and>
       used (mn_fidpool m') =
         (if length (follow child root first) = length first then used (mn_fidpool m) else insert (unat f) (used (mn_fidpool m))))"
proof -
  have m: "ready (mn_fs m)" "nodes st (cf_fid (mn_root m)) = Some root" "cf_qid (mn_root m) = qid root"
      "pool_fits (mn_fidpool m)" "cp_maxid (mn_fidpool m) = NOFID" "\<And>f. nodes st f \<noteq> None \<Longrightarrow> unat f \<in> used (mn_fidpool m)"
    using assms(3) by (auto simp: mounted_def)
  obtain f p where a: "npc_fid_alloc junk m = Some (\<lparr>cf_iounit = 0, cf_fid = f, cf_offset = 0, cf_qid = junk\<rparr>, m\<lparr>mn_fidpool := p\<rparr>)"
      "unat f \<notin> used (mn_fidpool m)" "used p = insert (unat f) (used (mn_fidpool m))" "pool_fits p" "cp_maxid p = NOFID"
    by (rule fid_alloc_ok [OF m(4,5) assms(5)])
  define fid where "fid = \<lparr>cf_iounit = 0, cf_fid = f, cf_offset = 0, cf_qid = junk\<rparr>"
  let ?m = "m\<lparr>mn_fidpool := p\<rparr>" and ?s = "dropWhile (\<lambda>c. c = slash) path" and ?r = "cf_fid (mn_root m)"
  have new: "nodes st f = None" "?r \<noteq> f" using m(2,6) a(2) by (metis option.distinct(1))+
  have "length ?s < 2 ^ 16" using assms(4) length_dropWhile_le [of _ path] by (meson order_le_less_trans)
  from walk_loop_ok [OF assms(1) _ m(2) _ this, of ?m f "qid root" t] m(1) new
  obtain r fs st1 where w: "walk_loop sv f ?r (qid root) ?s t ?m st = Some (r, ?m\<lparr>mn_fs := fs\<rparr>, st1)" "ready fs"
    "if length ys = length (path_names path) then r = Inr (last (qid root # map qid ys)) \<and> nodes st1 = (nodes st)(f \<mapsto> last (root # ys))
     else if length (follow child root first) = length first then r = Inl f \<and> (\<exists>z. nodes st1 = (nodes st)(f \<mapsto> z))
     else (r = Inl f \<or> r = Inl ?r) \<and> nodes st1 = nodes st"
    unfolding path_names_drop Let_def ys_def first_def by auto
  let ?m1 = "?m\<lparr>mn_fs := fs\<rparr>"
  have walk: "npc_walk sv junk t path m st =
      (case r of Inr q \<Rightarrow> Some (Some (fid\<lparr>cf_qid := q\<rparr>), ?m1, st1)
       | Inl n \<Rightarrow> if n = f then do { (_, m, st) \<leftarrow> npc_clunk sv fid ?m1 st1; Some (None, m, st) } else Some (None, ?m1, st1))"
  proof -
    have "npc_fid_alloc junk m = Some (fid, ?m)" "cf_fid fid = f" using a(1) by (simp_all add: fid_def)
    then show ?thesis unfolding npc_walk_def walk_error_clunk using w(1) m(3) by (simp split: sum.splits)
  qed
  show ?thesis
  proof (cases r)
    case (Inr q)
    then have r: "length ys = length (path_names path)" "q = qid (last (root # ys))" "nodes st1 = (nodes st)(f \<mapsto> last (root # ys))"
      using w(3) by (auto split: if_splits simp: last_map)
    have "mounted nodes qid root ?m1 st1" by (rule mounted_change [OF assms(3)]) (use w(2) a(3-5) r(3) m(2,6) new(2) in \<open>auto split: if_splits\<close>)
    then show ?thesis using walk Inr r a(2,3) by (intro exI [of _ f]) (simp add: fid_def)
  next
    case (Inl n)
    then have r: "length ys \<noteq> length (path_names path)" "n = f \<or> n = ?r"
        "if length (follow child root first) = length first then n = f \<and> (\<exists>z. nodes st1 = (nodes st)(f \<mapsto> z)) else nodes st1 = nodes st"
      using w(3) by (auto split: if_splits)
    show ?thesis
    proof (cases "n = f")
      case True
      obtain res fs2 p2 st2 where c: "npc_clunk sv fid ?m1 st1 = Some (res, ?m1\<lparr>mn_fs := fs2, mn_fidpool := p2\<rparr>, st2)" "ready fs2" "pool_fits p2"
          "cp_maxid p2 = NOFID" "nodes st2 = (nodes st1)(f := None)" "used p2 = (if nodes st1 f = None then used p else used p - {unat f})"
        using clunk_ok [OF assms(2), of ?m1 fid st1] w(2) a(3-5) by (auto simp: fid_def)
      have same: "nodes st2 = nodes st" using c(5) r(3) new(1) by (auto split: if_splits)
      have u: "used p2 = (if length (follow child root first) = length first then used (mn_fidpool m) else insert (unat f) (used (mn_fidpool m)))"
        using c(6) r(3) a(2,3) new(1) by (auto split: if_splits)
      have "mounted nodes qid root (?m1\<lparr>mn_fs := fs2, mn_fidpool := p2\<rparr>) st2" by (rule mounted_change [OF assms(3)]) (use c(2-4) same u m(2,6) in auto)
      then show ?thesis using walk Inl True c(1) r(1) a(2) same u by (intro exI [of _ f]) simp
    next
      case False
      then have u: "length (follow child root first) \<noteq> length first" "nodes st1 = nodes st" using r(3) by (auto split: if_splits)
      have "mounted nodes qid root ?m1 st1" by (rule mounted_change [OF assms(3)]) (use w(2) a(3-5) u(2) m(2,6) in auto)
      then show ?thesis using walk Inl False r(1) a(2,3) u by (intro exI [of _ f]) simp
    qed
  qed
qed

text \<open>
  (C18) Walking a path. On any tree of files \<^verbatim>\<open>npc_walk\<close> returns. It finds the file exactly when all nonempty names of the path exist,
  however many there are and whatever the uninitialised variable holds: then it returns a new fid with
  the qid of the file, which the server has bound to that file. Otherwise it returns NULL and the server has the
  fids it had before. In both cases the client stays mounted and ready for the next call. (The C code counts the bits of the
  client's fid pool in an \<^verbatim>\<open>int\<close>, so that its pool must be smaller than \<open>2 ^ 28\<close> bytes, see \<open>Npcpool\<close>.)
\<close>

theorem walk_correct:
  assumes "serves_walk sv dotu child qid nodes" "serves_clunk sv dotu nodes" "mounted nodes qid root m st" "length path < 2 ^ 16"
    "card (used (mn_fidpool m)) < 2 ^ 32 - 1"
  defines "ys \<equiv> follow child root (path_names path)"
  shows "\<exists>f m' st'. unat f \<notin> used (mn_fidpool m) \<and> mounted nodes qid root m' st' \<and>
    (if length ys = length (path_names path)
     then npc_walk sv junk t path m st = Some (Some \<lparr>cf_iounit = 0, cf_fid = f, cf_offset = 0, cf_qid = qid (last (root # ys))\<rparr>, m', st') \<and>
       nodes st' = (nodes st)(f \<mapsto> last (root # ys))
     else npc_walk sv junk t path m st = Some (None, m', st') \<and> nodes st' = nodes st)"
  using walk_result [OF assms(1-5), of junk t] unfolding ys_def by (auto split: if_splits)

text \<open>A server of a tree that is given by the paths of its files. It opens every file but the root.\<close>

definition tree_child :: "cstring list set \<Rightarrow> cstring list \<Rightarrow> cstring \<Rightarrow> cstring list option" where
  "tree_child files x n = (if x @ [n] \<in> files then Some (x @ [n]) else None)"

definition tree_qid :: "cstring list \<Rightarrow> Npqid" where
  "tree_qid x = \<lparr>q_type = 0, q_version = 0, q_path = of_nat (length x)\<rparr>"

definition tree_error :: "Npfcall \<Rightarrow> Npfcall" where
  "tree_error tc = npfcall0\<lparr>fc_type := Rerror, fc_tag := fc_tag tc, fc_ename := npstr (cstr ''not found''), fc_ecode := 2\<rparr>"

definition tree_server :: "cstring list set \<Rightarrow> (u32 \<rightharpoonup> cstring list) server" where
  "tree_server files pkt st =
     (case np_deserialize npfcall0 pkt True of
        (_, tc, _) \<Rightarrow>
          (case st (fc_fid tc) of
             None \<Rightarrow> (Some (tree_error tc), st)
           | Some x \<Rightarrow>
               if fc_type tc = Twalk then
                 let names = map (the \<circ> s_str) (fc_wnames tc); ys = follow (tree_child files) x names
                 in if ys = [] \<and> names \<noteq> [] then (Some (tree_error tc), st)
                    else (Some (npfcall0\<lparr>fc_type := Rwalk, fc_tag := fc_tag tc, fc_nwqid := of_nat (length ys), fc_wqids := map tree_qid ys\<rparr>),
                      if length ys = length names then st(fc_newfid tc \<mapsto> last (x # ys)) else st)
               else if fc_type tc = Topen then
                 (Some (if x = [] then tree_error tc else npfcall0\<lparr>fc_type := Ropen, fc_tag := fc_tag tc, fc_qid := tree_qid x, fc_iounit := 0\<rparr>), st)
               else (Some (npfcall0\<lparr>fc_type := Rclunk, fc_tag := fc_tag tc\<rparr>), st(fc_fid tc := None))))"

lemma tree_error_refuses:
  assumes "\<And>tag. \<exists>tc. tree_server files (packet True (tag, m)) st = (Some (tree_error tc), st) \<and> fc_tag tc = tag"
  shows "refuses (tree_server files) True m st st"
  unfolding refuses_def replies_def
  using assms by (intro exI [of _ "cstr ''not found''"] exI [of _ 2]) (fastforce simp: tree_error_def)

lemma tree_parsed:
  assumes "msg_ok m" "7 + length (msg_body True m) < 2 ^ 31"
  obtains n tc where "np_deserialize npfcall0 (packet True (tag, m)) True = (n, tc, False)" "fc_type tc = msg_type m" "fc_tag tc = tag" "msg_carries True m tc"
  using m9p.deserialize_wire [OF assms, of npfcall0 tag "[]"] by auto

lemma tree_serves_clunk: "serves_clunk (tree_server files) True id"
  unfolding serves_clunk_def
proof (intro allI)
  fix st :: "u32 \<rightharpoonup> cstring list" and fid
  have p: "\<exists>n tc. np_deserialize npfcall0 (packet True (tag, MTclunk fid)) True = (n, tc, False) \<and> fc_type tc = Tclunk \<and> fc_tag tc = tag \<and> fc_fid tc = fid" for tag
    by (rule tree_parsed [of "MTclunk fid" tag]) auto
  show "if id st fid = None then \<exists>st'. refuses (tree_server files) True (MTclunk fid) st st' \<and> id st' = id st
    else \<exists>st'. replies (tree_server files) True (MTclunk fid) st MRclunk st' \<and> id st' = (id st)(fid := None)"
  proof (cases "st fid")
    case None
    have "refuses (tree_server files) True (MTclunk fid) st st"
    proof (rule tree_error_refuses)
      fix tag
      obtain n tc where tc: "np_deserialize npfcall0 (packet True (tag, MTclunk fid)) True = (n, tc, False)" "fc_tag tc = tag" "fc_fid tc = fid"
        using p by blast
      then show "\<exists>tc. tree_server files (packet True (tag, MTclunk fid)) st = (Some (tree_error tc), st) \<and> fc_tag tc = tag"
        using None unfolding tree_server_def tc(1) by auto
    qed
    then show ?thesis using None by auto
  next
    case (Some x)
    have "replies (tree_server files) True (MTclunk fid) st MRclunk (st(fid := None))"
      unfolding replies_def
    proof
      fix tag
      obtain n tc where tc: "np_deserialize npfcall0 (packet True (tag, MTclunk fid)) True = (n, tc, False)" "fc_tag tc = tag" "fc_fid tc = fid" "fc_type tc = Tclunk"
        using p by blast
      then show "\<exists>rc. tree_server files (packet True (tag, MTclunk fid)) st = (Some rc, st(fid := None)) \<and> fc_tag rc = tag \<and>
          fc_type rc = msg_type MRclunk \<and> msg_carries True MRclunk rc"
        using Some unfolding tree_server_def tc(1) by simp
    qed
    then show ?thesis using Some by auto
  qed
qed

lemma tree_serves_walk: "serves_walk (tree_server files) True (tree_child files) tree_qid id"
  unfolding serves_walk_def
proof (intro allI impI)
  fix st :: "u32 \<rightharpoonup> cstring list" and fid newfid x and names :: "cstring list"
  assume a: "id st fid = Some x \<and> (newfid = fid \<or> id st newfid = None) \<and> length names \<le> MAXWELEM \<and> sum_list (map length names) < 2 ^ 16"
  let ?m = "MTwalk fid newfid names"
  define ys where "ys = follow (tree_child files) x names"
  have send: "msg_ok ?m" "7 + length (msg_body True ?m) < 2 ^ 31" using walk_sendable [of names True fid newfid] a unfolding sendable_def by simp_all
  have p: "\<exists>n tc. np_deserialize npfcall0 (packet True (tag, ?m)) True = (n, tc, False) \<and> fc_type tc = Twalk \<and> fc_tag tc = tag \<and> fc_fid tc = fid \<and>
      fc_newfid tc = newfid \<and> map (the \<circ> s_str) (fc_wnames tc) = names" for tag
    by (rule tree_parsed [OF send, of tag]) (auto simp: npstr_def comp_def)
  have refuse: "refuses (tree_server files) True ?m st st" if "ys = []" "names \<noteq> []"
  proof (rule tree_error_refuses)
    fix tag
    obtain n tc where tc: "np_deserialize npfcall0 (packet True (tag, ?m)) True = (n, tc, False)" "fc_type tc = Twalk" "fc_tag tc = tag" "fc_fid tc = fid"
        "map (the \<circ> s_str) (fc_wnames tc) = names"
      using p by blast
    show "\<exists>tc. tree_server files (packet True (tag, ?m)) st = (Some (tree_error tc), st) \<and> fc_tag tc = tag"
      using that a unfolding tree_server_def tc(1) by (intro exI [of _ tc]) (simp add: tc(2-5) Let_def flip: ys_def)
  qed
  let ?st = "if length ys = length names then st(newfid \<mapsto> last (x # ys)) else st"
  have reply: "replies (tree_server files) True ?m st (MRwalk (map tree_qid ys)) ?st" if "\<not> (ys = [] \<and> names \<noteq> [])"
    unfolding replies_def
  proof
    fix tag
    obtain n tc where tc: "np_deserialize npfcall0 (packet True (tag, ?m)) True = (n, tc, False)" "fc_type tc = Twalk" "fc_tag tc = tag" "fc_fid tc = fid"
        "fc_newfid tc = newfid" "map (the \<circ> s_str) (fc_wnames tc) = names"
      using p by blast
    show "\<exists>rc. tree_server files (packet True (tag, ?m)) st = (Some rc, ?st) \<and> fc_tag rc = tag \<and> fc_type rc = msg_type (MRwalk (map tree_qid ys)) \<and>
        msg_carries True (MRwalk (map tree_qid ys)) rc"
      using that a unfolding tree_server_def tc(1) by (auto simp: tc(2-6) Let_def simp flip: ys_def)
  qed
  show "let ys = follow (tree_child files) x names
      in if ys = [] \<and> names \<noteq> [] then \<exists>st'. refuses (tree_server files) True ?m st st' \<and> id st' = id st
         else \<exists>st'. replies (tree_server files) True ?m st (MRwalk (map tree_qid ys)) st' \<and>
           id st' = (if length ys = length names then (id st)(newfid \<mapsto> last (x # ys)) else id st)"
    unfolding Let_def ys_def [symmetric] id_apply using refuse reply by auto
qed

text \<open>A mounted client: fid 0 is the root, and no other fid is in use.\<close>

definition mount0 :: Npcmnt where
  "mount0 = \<lparr>mn_fs = npc_create_fsys, mn_dotu = True, mn_msize = 8216,
     mn_root = \<lparr>cf_iounit = 0, cf_fid = 0, cf_offset = 0, cf_qid = tree_qid []\<rparr>,
     mn_fidpool = \<lparr>cp_maxid = NOFID, cp_map = 1 # replicate 31 0\<rparr>\<rparr>"

definition nodes0 :: "u32 \<rightharpoonup> cstring list" where
  "nodes0 = [0 \<mapsto> []]"

lemma used_mount0: "used (mn_fidpool mount0) = {0}"
proof -
  have b: "bit ((1 # replicate 31 0) ! i :: u8) j \<longleftrightarrow> i = 0 \<and> j = 0" if "i < 32" for i j
    using that by (cases i) (auto simp: bit_1_iff)
  have "x = 0" if "x div 8 = 0" "x mod 8 = 0" for x :: nat using that by (metis div_mult_mod_eq mult_0 add_0)
  then show ?thesis by (auto simp: used_def mount0_def b dvd_eq_mod_eq_0)
qed

lemma mounted0: "mounted id tree_qid [] mount0 nodes0"
proof -
  have "pool_fits (mn_fidpool mount0)" "ready (mn_fs mount0)" "cp_maxid (mn_fidpool mount0) = NOFID" "mn_root mount0 = \<lparr>cf_iounit = 0, cf_fid = 0, cf_offset = 0, cf_qid = tree_qid []\<rparr>"
    using ready_create by (simp_all add: mount0_def pool_fits_def)
  then show ?thesis using used_mount0 by (simp add: mounted_def nodes0_def)
qed

theorem walk_correct_witness:
  "\<exists>f m' st'. unat f \<notin> used (mn_fidpool mount0) \<and>
    npc_walk (tree_server {[cstr ''usr''], [cstr ''usr'', cstr ''bin'']}) (tree_qid []) True (cstr ''/usr//bin/'') mount0 nodes0 =
      Some (Some \<lparr>cf_iounit = 0, cf_fid = f, cf_offset = 0, cf_qid = tree_qid [cstr ''usr'', cstr ''bin'']\<rparr>, m', st') \<and>
    st' = nodes0(f \<mapsto> [cstr ''usr'', cstr ''bin''])"
proof -
  let ?files = "{[cstr ''usr''], [cstr ''usr'', cstr ''bin'']}"
  have n: "path_names (cstr ''/usr//bin/'') = [cstr ''usr'', cstr ''bin'']" by (simp add: cstr_def path_names.simps)
  have "follow (tree_child ?files) [] [cstr ''usr'', cstr ''bin''] = [[cstr ''usr''], [cstr ''usr'', cstr ''bin'']]"
    by (simp add: tree_child_def)
  then show ?thesis
    using walk_correct [OF tree_serves_walk tree_serves_clunk mounted0, of "cstr ''/usr//bin/''" ?files "tree_qid []" True] n used_mount0
    by (auto simp: cstr_def)
qed

subsection \<open>Opening\<close>

definition io_unit :: "u32 \<Rightarrow> Npcmnt \<Rightarrow> u32" where
  "io_unit iounit m = (if iounit = 0 \<or> iounit > mn_msize m - 24 then mn_msize m - 24 else iounit)"

definition npc_open :: "'s server \<Rightarrow> Npqid \<Rightarrow> bool \<Rightarrow> cstring \<Rightarrow> u8 \<Rightarrow> Npcmnt \<Rightarrow> 's \<Rightarrow> (Npcfid option \<times> Npcmnt \<times> 's) option" where
  "npc_open sv junk t path mode m st =
     do { (res, m, st) \<leftarrow> npc_walk sv junk t path m st;
          (case res of
             None \<Rightarrow> Some (None, m, st)
           | Some fid \<Rightarrow>
               do { (rc, m, st) \<leftarrow> call sv (np_create_topen (Some npfcall0) (cf_fid fid) mode) m st;
                    (case rc of
                       None \<Rightarrow> do { (_, m, st) \<leftarrow> npc_clunk sv fid m st; Some (None, m, st) }
                     | Some rc \<Rightarrow> Some (Some (fid\<lparr>cf_iounit := io_unit (fc_iounit rc) m\<rparr>), m, st)) }) }"

text \<open>
  \<^verbatim>\<open>npc_create\<close> walks to the directory in front of the last slash. Without a slash it passes NULL to \<^verbatim>\<open>npc_walk\<close>, and when the
  walk fails it passes NULL to \<^verbatim>\<open>npc_clunk\<close>; both read through the pointer.
\<close>

definition npc_create :: "'s server \<Rightarrow> Npqid \<Rightarrow> bool \<Rightarrow> cstring \<Rightarrow> u32 \<Rightarrow> u8 \<Rightarrow> Npcmnt \<Rightarrow> 's \<Rightarrow> (Npcfid option \<times> Npcmnt \<times> 's) option" where
  "npc_create sv junk t path perm mode m st =
     (if slash \<notin> set path then None
      else
        let fname = rev (takeWhile (\<lambda>c. c \<noteq> slash) (rev path)); pname = take (length path - length fname - 1) path
        in do { (res, m, st) \<leftarrow> npc_walk sv junk t pname m st;
                fid \<leftarrow> res;
                (rc, m, st) \<leftarrow> call sv (np_create_tcreate (Some npfcall0) (cf_fid fid) fname perm mode) m st;
                (case rc of
                   None \<Rightarrow> do { (_, m, st) \<leftarrow> npc_clunk sv fid m st; Some (None, m, st) }
                 | Some rc \<Rightarrow> Some (Some (fid\<lparr>cf_iounit := io_unit (fc_iounit rc) m\<rparr>), m, st)) })"

text \<open>\<^verbatim>\<open>npc_remove\<close>; a Tremove that is refused leaves the number of the fid taken.\<close>

definition npc_remove :: "'s server \<Rightarrow> Npqid \<Rightarrow> bool \<Rightarrow> cstring \<Rightarrow> Npcmnt \<Rightarrow> 's \<Rightarrow> (int \<times> Npcmnt \<times> 's) option" where
  "npc_remove sv junk t path m st =
     do { (res, m, st) \<leftarrow> npc_walk sv junk t path m st;
          (case res of
             None \<Rightarrow> Some (-1, m, st)
           | Some fid \<Rightarrow>
               do { (rc, m, st) \<leftarrow> call sv (np_create_tremove (Some npfcall0) (cf_fid fid)) m st;
                    (case rc of
                       None \<Rightarrow> Some (-1, m, st)
                     | Some _ \<Rightarrow> do { m \<leftarrow> npc_fid_free fid m; Some (0, m, st) }) }) }"

text \<open>A server that opens the files it wants to: \<open>opens\<close> is the unit of reading it answers with, nothing when it refuses.\<close>

definition serves_open :: "'s server \<Rightarrow> bool \<Rightarrow> ('n \<Rightarrow> u8 \<Rightarrow> u32 option) \<Rightarrow> ('s \<Rightarrow> u32 \<rightharpoonup> 'n) \<Rightarrow> bool" where
  "serves_open sv dotu opens nodes \<longleftrightarrow>
     (\<forall>st fid mode x. nodes st fid = Some x \<longrightarrow>
        (case opens x mode of
           None \<Rightarrow> \<exists>st'. refuses sv dotu (MTopen fid mode) st st' \<and> nodes st' = nodes st
         | Some u \<Rightarrow> \<exists>qid st'. replies sv dotu (MTopen fid mode) st (MRopen qid u) st' \<and> nodes st' = nodes st))"

lemma open_sendable: "sendable (2 ^ 31 - 1) dotu (MTopen fid mode)"
  by (simp add: sendable_def)

lemma io_unit_bound:
  assumes "24 < mn_msize m"
  shows "0 < io_unit u m" "io_unit u m \<le> mn_msize m - 24"
proof -
  have "0 < mn_msize m - 24" using assms unat_sub_24 [of "mn_msize m"] by (simp add: word_less_nat_alt)
  then show "0 < io_unit u m" "io_unit u m \<le> mn_msize m - 24" by (auto simp: io_unit_def word_gt_0)
qed

text \<open>When the server refuses to open the file, or to create it, the fid is clunked.\<close>

lemma refused_clunked:
  assumes "serves_clunk sv dotu nodes" "mounted nodes qid root m st" "refuses sv dotu tm st st1" "nodes st1 = nodes st" "sendable (2 ^ 31 - 1) dotu tm"
    "nodes st (cf_fid fid) = Some x" "cf_fid fid \<noteq> cf_fid (mn_root m)" "unat (cf_fid fid) \<in> used (mn_fidpool m)"
  shows "\<exists>m' st'. do { (rc, m, st) \<leftarrow> call sv (msg_create npfcall0 dotu tm) m st;
      (case rc of None \<Rightarrow> do { (_, m, st) \<leftarrow> npc_clunk sv fid m st; Some (None, m, st) } | Some rc \<Rightarrow> g rc m st) } = Some (None, m', st') \<and>
    mounted nodes qid root m' st' \<and> nodes st' = (nodes st)(cf_fid fid := None) \<and> used (mn_fidpool m') = used (mn_fidpool m) - {unat (cf_fid fid)}"
proof -
  have m: "ready (mn_fs m)" "pool_fits (mn_fidpool m)" "cp_maxid (mn_fidpool m) = NOFID" "nodes st (cf_fid (mn_root m)) = Some root"
      "\<And>g. nodes st g \<noteq> None \<Longrightarrow> unat g \<in> used (mn_fidpool m)"
    using assms(2) by (auto simp: mounted_def)
  obtain fs where c: "call sv (msg_create npfcall0 dotu tm) m st = Some (None, m\<lparr>mn_fs := fs\<rparr>, st1)" "ready fs"
    using call_refused [OF m(1) assms(5) _ assms(3)] by auto
  obtain k fs' p st' where d: "npc_clunk sv fid (m\<lparr>mn_fs := fs\<rparr>) st1 = Some (k, m\<lparr>mn_fs := fs', mn_fidpool := p\<rparr>, st')" "ready fs'"
      "pool_fits p" "cp_maxid p = NOFID" "nodes st' = (nodes st)(cf_fid fid := None)" "used p = used (mn_fidpool m) - {unat (cf_fid fid)}"
    using clunk_ok [OF assms(1), of "m\<lparr>mn_fs := fs\<rparr>" fid st1] c(2) m assms(4,6,8) by auto
  have "mounted nodes qid root (m\<lparr>mn_fs := fs', mn_fidpool := p\<rparr>) st'"
    by (rule mounted_change [OF assms(2)]) (use d(2-6) m(4,5) assms(7) in \<open>auto simp flip: word_unat_eq_iff split: if_splits\<close>)
  then show ?thesis using c(1) d by auto
qed

text \<open>
  (C19) Opening a file. \<^verbatim>\<open>npc_open\<close> returns an open fid exactly when the path exists and the server opens the file; the unit
  of its reads and writes is positive and a message with that much data fits into \<open>msize\<close>. Otherwise it returns NULL, and
  neither the server nor, when the path exists, the client has a fid more than before. As for walking, the fid
  pool of the C code must be smaller than \<open>2 ^ 28\<close> bytes.
\<close>

theorem open_correct:
  assumes "serves_walk sv dotu child qid nodes" "serves_clunk sv dotu nodes" "serves_open sv dotu opens nodes" "mounted nodes qid root m st"
    "length path < 2 ^ 16" "card (used (mn_fidpool m)) < 2 ^ 32 - 1" "24 < mn_msize m"
  defines "ys \<equiv> follow child root (path_names path)"
  defines "x \<equiv> last (root # ys)"
  shows "\<exists>f m' st'. unat f \<notin> used (mn_fidpool m) \<and> mounted nodes qid root m' st' \<and>
    (if length ys = length (path_names path) \<and> opens x mode \<noteq> None
     then \<exists>u. 0 < u \<and> u \<le> mn_msize m - 24 \<and> nodes st' = (nodes st)(f \<mapsto> x) \<and>
       npc_open sv junk t path mode m st = Some (Some \<lparr>cf_iounit = u, cf_fid = f, cf_offset = 0, cf_qid = qid x\<rparr>, m', st')
     else npc_open sv junk t path mode m st = Some (None, m', st') \<and> nodes st' = nodes st \<and>
       (length ys = length (path_names path) \<longrightarrow> used (mn_fidpool m') = used (mn_fidpool m)))"
proof -
  obtain f res m1 st1 where w: "unat f \<notin> used (mn_fidpool m)" "npc_walk sv junk t path m st = Some (res, m1, st1)" "mounted nodes qid root m1 st1"
    "mn_msize m1 = mn_msize m" "mn_root m1 = mn_root m"
    "if length ys = length (path_names path)
     then res = Some \<lparr>cf_iounit = 0, cf_fid = f, cf_offset = 0, cf_qid = qid x\<rparr> \<and> nodes st1 = (nodes st)(f \<mapsto> x) \<and>
       used (mn_fidpool m1) = insert (unat f) (used (mn_fidpool m))
     else res = None \<and> nodes st1 = nodes st"
    using walk_result [OF assms(1,2,4-6), of junk t] unfolding ys_def [symmetric] x_def [symmetric] by (auto split: if_splits)
  show ?thesis
  proof (cases "length ys = length (path_names path)")
    case False
    then show ?thesis using w by (intro exI [of _ f]) (simp add: npc_open_def)
  next
    case True
    let ?fid = "\<lparr>cf_iounit = 0, cf_fid = f, cf_offset = 0, cf_qid = qid x\<rparr>"
    have r: "res = Some ?fid" "nodes st1 = (nodes st)(f \<mapsto> x)" "used (mn_fidpool m1) = insert (unat f) (used (mn_fidpool m))"
      using w(6) True by simp_all
    have m1: "ready (mn_fs m1)" using w(3) by (simp add: mounted_def)
    have new: "nodes st f = None" "f \<noteq> cf_fid (mn_root m)" using assms(4) w(1) unfolding mounted_def by (metis option.distinct(1))+
    have o: "case opens x mode of None \<Rightarrow> \<exists>st'. refuses sv dotu (MTopen f mode) st1 st' \<and> nodes st' = nodes st1
        | Some u \<Rightarrow> \<exists>qid st'. replies sv dotu (MTopen f mode) st1 (MRopen qid u) st' \<and> nodes st' = nodes st1"
      using assms(3) r(2) unfolding serves_open_def by simp
    show ?thesis
    proof (cases "opens x mode")
      case None
      then obtain st2 where st2: "refuses sv dotu (MTopen f mode) st1 st2" "nodes st2 = nodes st1" using o by auto
      have bound: "nodes st1 f = Some x" "unat f \<in> used (mn_fidpool m1)" "f \<noteq> cf_fid (mn_root m1)" using r(2,3) new(2) w(5) by auto
      obtain m2 st3 where "do { (rc, m, st) \<leftarrow> call sv (msg_create npfcall0 dotu (MTopen f mode)) m1 st1;
            (case rc of None \<Rightarrow> do { (_, m, st) \<leftarrow> npc_clunk sv ?fid m st; Some (None, m, st) }
             | Some rc \<Rightarrow> Some (Some (?fid\<lparr>cf_iounit := io_unit (fc_iounit rc) m\<rparr>), m, st)) } = Some (None, m2, st3)"
          "mounted nodes qid root m2 st3" "nodes st3 = (nodes st1)(f := None)" "used (mn_fidpool m2) = used (mn_fidpool m1) - {unat f}"
        using refused_clunked [OF assms(2) w(3) st2 open_sendable, where fid = ?fid and x = x and
            g = "\<lambda>rc m st. Some (Some (?fid\<lparr>cf_iounit := io_unit (fc_iounit rc) m\<rparr>), m, st)"] bound by auto
      then show ?thesis using w(1,2) None r fun_upd_idem [of "nodes st" f None] new(1) by (intro exI [of _ f] exI [of _ m2] exI [of _ st3]) (simp add: npc_open_def)
    next
      case (Some u)
      then obtain q st2 where st2: "replies sv dotu (MTopen f mode) st1 (MRopen q u) st2" "nodes st2 = nodes st1" using o by auto
      obtain rc fs where c: "call sv (msg_create npfcall0 dotu (MTopen f mode)) m1 st1 = Some (Some rc, m1\<lparr>mn_fs := fs\<rparr>, st2)" "ready fs"
        using call_replied [OF m1 open_sendable _ st2(1)] by auto
      have "mounted nodes qid root (m1\<lparr>mn_fs := fs\<rparr>) st2" using w(3) c(2) st2(2) by (simp add: mounted_def)
      then show ?thesis
        using w(1,2,4) True Some c(1) r(1,2) st2(2) io_unit_bound [of "m1\<lparr>mn_fs := fs\<rparr>" "fc_iounit rc"] assms(7)
        by (intro exI [of _ f] exI [of _ "m1\<lparr>mn_fs := fs\<rparr>"] exI [of _ st2]) (simp add: npc_open_def)
    qed
  qed
qed

lemma tree_serves_open: "serves_open (tree_server files) True (\<lambda>x mode. if x = [] then None else Some 0) id"
  unfolding serves_open_def
proof (intro allI impI)
  fix st :: "u32 \<rightharpoonup> cstring list" and fid mode x
  assume a: "id st fid = Some x"
  let ?m = "MTopen fid mode"
  have p: "\<exists>tc. tree_server files (packet True (tag, ?m)) st =
      (Some (if x = [] then tree_error tc else npfcall0\<lparr>fc_type := Ropen, fc_tag := fc_tag tc, fc_qid := tree_qid x, fc_iounit := 0\<rparr>), st) \<and> fc_tag tc = tag" for tag
  proof (rule tree_parsed [of ?m tag])
    fix n tc
    assume tc: "np_deserialize npfcall0 (packet True (tag, ?m)) True = (n, tc, False)" "fc_type tc = msg_type ?m" "fc_tag tc = tag" "msg_carries True ?m tc"
    show ?thesis using a tc(2-4) unfolding tree_server_def tc(1) by auto
  qed simp_all
  show "case if x = [] then None else Some 0 of None \<Rightarrow> \<exists>st'. refuses (tree_server files) True ?m st st' \<and> id st' = id st
      | Some u \<Rightarrow> \<exists>qid st'. replies (tree_server files) True ?m st (MRopen qid u) st' \<and> id st' = id st"
  proof (cases "x = []")
    case True
    have "refuses (tree_server files) True ?m st st" by (rule tree_error_refuses) (use p True in \<open>simp del: msg_type.simps msg_body.simps\<close>)
    then show ?thesis using True by auto
  next
    case False
    have "replies (tree_server files) True ?m st (MRopen (tree_qid x) 0) st"
      unfolding replies_def
    proof
      fix tag
      show "\<exists>rc. tree_server files (packet True (tag, ?m)) st = (Some rc, st) \<and> fc_tag rc = tag \<and> fc_type rc = msg_type (MRopen (tree_qid x) 0) \<and>
          msg_carries True (MRopen (tree_qid x) 0) rc"
        using p [of tag] False by (elim exE conjE) simp
    qed
    then show ?thesis using False by auto
  qed
qed

theorem open_correct_witness:
  "\<exists>f m' st' u. unat f \<notin> used (mn_fidpool mount0) \<and> 0 < u \<and> u \<le> 8192 \<and> st' = nodes0(f \<mapsto> [cstr ''etc'']) \<and>
    npc_open (tree_server {[cstr ''etc'']}) (tree_qid []) False (cstr ''etc'') 0 mount0 nodes0 =
      Some (Some \<lparr>cf_iounit = u, cf_fid = f, cf_offset = 0, cf_qid = tree_qid [cstr ''etc'']\<rparr>, m', st')"
proof -
  have n: "path_names (cstr ''etc'') = [cstr ''etc'']" by (simp add: cstr_def path_names.simps)
  have "follow (tree_child {[cstr ''etc'']}) [] [cstr ''etc''] = [[cstr ''etc'']]" by (simp add: tree_child_def)
  moreover have "mn_msize mount0 = 8216" by (simp add: mount0_def)
  ultimately show ?thesis
    using open_correct [OF tree_serves_walk [of "{[cstr ''etc'']}"] tree_serves_clunk tree_serves_open mounted0, where path = "cstr ''etc''" and mode = 0 and junk = "tree_qid []" and t = False] n used_mount0
    by (auto simp: cstr_def)
qed

end
