(* ===== verification/Npfile.thy ===== *)
theory Npfile
  imports Srvops
begin

text \<open>
  The file server of \<^verbatim>\<open>libnpfs/file.c\<close>: a tree of files (\<^verbatim>\<open>struct Npfile\<close>) with reference counts, and for every fid the
  file it stands for (\<^verbatim>\<open>struct Npfilefid\<close>, found through \<open>f_aux\<close>). It implements the operations of \<open>Srvops\<close>. What a file or directory
  does is up to the program that links the library: \<^verbatim>\<open>struct Npfileops\<close> and \<^verbatim>\<open>struct Npdirops\<close> are parameters.
  The pointer \<^verbatim>\<open>ops\<close> of a file is an index into the tables of these operations, so that they can work on a state that
  contains the files.

  As in the handlers one operation runs at a time and the mutexes are not represented; \<open>None\<close> stands for an access through
  NULL or to a freed structure.
\<close>

subsection \<open>Files\<close>

record Npfile =
  n_refcount :: int
  n_parent :: ptr
  n_qid :: Npqid
  n_mode :: u32
  n_atime :: u32
  n_mtime :: u32
  n_length :: u64
  n_name :: cstring
  n_uid :: ptr
  n_gid :: ptr
  n_muid :: ptr
  n_extension :: "cstring option"
  n_excl :: bool
  n_ops :: "nat option"
  n_aux :: ptr
  n_next :: ptr
  n_prev :: ptr
  n_dirfirst :: ptr
  n_dirlast :: ptr

record Npfilefid =
  x_fid :: addr
  x_file :: addr
  x_omode :: int
  x_diroffset :: u64
  x_dirent :: ptr

text \<open>\<open>t_root\<close> is \<^verbatim>\<open>srv->treeaux\<close>, \<open>t_now\<close> what \<^verbatim>\<open>time\<close> returns, \<open>t_user\<close> the state of the program.\<close>

record 'u ftree =
  t_files :: "Npfile heap"
  t_ffids :: "Npfilefid heap"
  t_root :: addr
  t_now :: u32
  t_user :: 'u

type_synonym 'u tconn = "'u ftree conn"

definition get_file :: "addr \<Rightarrow> 'u tconn \<Rightarrow> Npfile option" where
  "get_file a s = t_files (c_env s) a"

definition get_ffid :: "addr \<Rightarrow> 'u tconn \<Rightarrow> Npfilefid option" where
  "get_ffid a s = t_ffids (c_env s) a"

definition set_file :: "addr \<Rightarrow> Npfile option \<Rightarrow> 'u tconn \<Rightarrow> 'u tconn" where
  "set_file a f s = s\<lparr>c_env := (c_env s)\<lparr>t_files := (t_files (c_env s))(a := f)\<rparr>\<rparr>"

definition set_ffid :: "addr \<Rightarrow> Npfilefid option \<Rightarrow> 'u tconn \<Rightarrow> 'u tconn" where
  "set_ffid a x s = s\<lparr>c_env := (c_env s)\<lparr>t_ffids := (t_ffids (c_env s))(a := x)\<rparr>\<rparr>"

definition upd_file :: "addr \<Rightarrow> (Npfile \<Rightarrow> Npfile) \<Rightarrow> 'u tconn \<Rightarrow> 'u tconn option" where
  "upd_file a g s = do { f \<leftarrow> get_file a s; Some (set_file a (Some (g f)) s) }"

definition upd_ffid :: "addr \<Rightarrow> (Npfilefid \<Rightarrow> Npfilefid) \<Rightarrow> 'u tconn \<Rightarrow> 'u tconn option" where
  "upd_ffid a g s = do { x \<leftarrow> get_ffid a s; Some (set_ffid a (Some (g x)) s) }"

text \<open>\<^verbatim>\<open>malloc\<close> of a structure; its result is used without a check.\<close>

definition new_addr :: "(addr, 'e) act" where
  "new_addr s =
     (case take_mal s of
        (None, s) \<Rightarrow> None
      | (Some _, s) \<Rightarrow> Some (c_brk s, s\<lparr>c_brk := c_brk s + 1\<rparr>))"

subsection \<open>The operations of files and directories\<close>

text \<open>A NULL pointer the library tests for is \<open>None\<close>. \<open>fo_read\<close> returns the count and the bytes it put into the buffer.\<close>

type_synonym ('a, 'u) tact = "('a, 'u ftree) act"

record 'u fileops =
  fo_ref :: "(addr \<Rightarrow> addr \<Rightarrow> (unit, 'u) tact) option"
  fo_unref :: "(addr \<Rightarrow> addr \<Rightarrow> (unit, 'u) tact) option"
  fo_read :: "(addr \<Rightarrow> u64 \<Rightarrow> u32 \<Rightarrow> (int \<times> bytes, 'u) tact) option"
  fo_write :: "(addr \<Rightarrow> u64 \<Rightarrow> u32 \<Rightarrow> bytes option \<Rightarrow> (int, 'u) tact) option"
  fo_wstat :: "(addr \<Rightarrow> Npstat \<Rightarrow> (int, 'u) tact) option"
  fo_destroy :: "(addr \<Rightarrow> (unit, 'u) tact) option"
  fo_openfid :: "(addr \<Rightarrow> (int, 'u) tact) option"
  fo_closefid :: "(addr \<Rightarrow> (unit, 'u) tact) option"

record 'u dirops =
  do_ref :: "(addr \<Rightarrow> addr \<Rightarrow> (unit, 'u) tact) option"
  do_unref :: "(addr \<Rightarrow> addr \<Rightarrow> (unit, 'u) tact) option"
  do_create :: "(addr \<Rightarrow> cstring \<Rightarrow> u32 \<Rightarrow> ptr \<Rightarrow> ptr \<Rightarrow> cstring \<Rightarrow> (ptr, 'u) tact) option"
  do_first :: "(addr \<Rightarrow> (ptr, 'u) tact) option"
  do_next :: "(addr \<Rightarrow> addr \<Rightarrow> (ptr, 'u) tact) option"
  do_wstat :: "(addr \<Rightarrow> Npstat \<Rightarrow> (int, 'u) tact) option"
  do_remove :: "(addr \<Rightarrow> addr \<Rightarrow> (int, 'u) tact) option"
  do_destroy :: "(addr \<Rightarrow> (unit, 'u) tact) option"

text \<open>The tables, and the membership test of the user pool.\<close>

record 'u optab =
  op_file :: "nat \<Rightarrow> 'u fileops"
  op_dir :: "nat \<Rightarrow> 'u dirops"
  op_ismember :: "addr \<Rightarrow> ptr \<Rightarrow> 'u tconn \<Rightarrow> bool option"

abbreviation isdir :: "Npfile \<Rightarrow> bool" where
  "isdir f \<equiv> n_mode f AND Dmdir \<noteq> 0"

text \<open>A callback of a file that may be missing; without \<^verbatim>\<open>ops\<close> there are none.\<close>

definition cb1 :: "(addr \<Rightarrow> (unit, 'e) act) option \<Rightarrow> addr \<Rightarrow> 'e conn \<Rightarrow> 'e conn option" where
  "cb1 g a s = (case g of None \<Rightarrow> Some s | Some g \<Rightarrow> map_option snd (g a s))"

definition file_cb :: "'u optab \<Rightarrow> ('u fileops \<Rightarrow> (addr \<Rightarrow> (unit, 'u) tact) option) \<Rightarrow> ('u dirops \<Rightarrow> (addr \<Rightarrow> (unit, 'u) tact) option) \<Rightarrow>
    addr \<Rightarrow> 'u tconn \<Rightarrow> 'u tconn option" where
  "file_cb tb fsel dsel a s =
     do { f \<leftarrow> get_file a s;
          (case n_ops f of
             None \<Rightarrow> Some s
           | Some i \<Rightarrow> cb1 (if isdir f then dsel (op_dir tb i) else fsel (op_file tb i)) a s) }"

subsection \<open>References\<close>

definition npfile_incref :: "ptr \<Rightarrow> 'u tconn \<Rightarrow> 'u tconn option" where
  "npfile_incref p s =
     (case p of
        None \<Rightarrow> Some s
      | Some a \<Rightarrow>
          do { f \<leftarrow> get_file a s;
               if n_refcount f < 0 then None else upd_file a (\<lambda>f. f\<lparr>n_refcount := n_refcount f + 1\<rparr>) s })"

text \<open>\<^verbatim>\<open>npfile_decrefimpl\<close>. The file is freed with its count at zero, after its \<^verbatim>\<open>destroy\<close>; the parent keeps the reference it has.\<close>

definition npfile_decref :: "'u optab \<Rightarrow> ptr \<Rightarrow> 'u tconn \<Rightarrow> 'u tconn option" where
  "npfile_decref tb p s =
     (case p of
        None \<Rightarrow> Some s
      | Some a \<Rightarrow>
          do { s \<leftarrow> upd_file a (\<lambda>f. f\<lparr>n_refcount := n_refcount f - 1\<rparr>) s;
               f \<leftarrow> get_file a s;
               if n_refcount f = 0 then do { s \<leftarrow> file_cb tb fo_destroy do_destroy a s; Some (set_file a None s) }
               else Some s })"

definition npfile_ref :: "'u optab \<Rightarrow> addr \<Rightarrow> addr \<Rightarrow> 'u tconn \<Rightarrow> 'u tconn option" where
  "npfile_ref tb a x = file_cb tb (\<lambda>t. map_option (\<lambda>g a. g a x) (fo_ref t)) (\<lambda>t. map_option (\<lambda>g a. g a x) (do_ref t)) a"

definition npfile_unref :: "'u optab \<Rightarrow> addr \<Rightarrow> addr \<Rightarrow> 'u tconn \<Rightarrow> 'u tconn option" where
  "npfile_unref tb a x = file_cb tb (\<lambda>t. map_option (\<lambda>g a. g a x) (fo_unref t)) (\<lambda>t. map_option (\<lambda>g a. g a x) (do_unref t)) a"

text \<open>A new file takes a reference on its parent and its times and owners. The copy of the name, made with \<^verbatim>\<open>strdup\<close>, succeeds.\<close>

definition npfile_alloc :: "ptr \<Rightarrow> cstring \<Rightarrow> u32 \<Rightarrow> u64 \<Rightarrow> nat option \<Rightarrow> ptr \<Rightarrow> (addr, 'u) tact" where
  "npfile_alloc parent name mode qpath ops aux s =
     do { (a, s) \<leftarrow> new_addr s;
          let f = \<lparr>n_refcount = 0, n_parent = parent, n_qid = \<lparr>q_type = ucast (drop_bit 24 mode), q_version = 0, q_path = qpath\<rparr>, n_mode = mode,
            n_atime = 0, n_mtime = 0, n_length = 0, n_name = name, n_uid = None, n_gid = None, n_muid = None, n_extension = None, n_excl = False,
            n_ops = ops, n_aux = aux, n_next = None, n_prev = None, n_dirfirst = None, n_dirlast = None\<rparr>;
          (case parent of
             None \<Rightarrow> Some (a, set_file a (Some f) s)
           | Some b \<Rightarrow>
               do { s \<leftarrow> npfile_incref (Some b) s;
                    p \<leftarrow> get_file b s;
                    Some (a, set_file a (Some (f\<lparr>n_atime := n_atime p, n_mtime := n_mtime p, n_uid := n_uid p, n_gid := n_gid p, n_muid := n_uid p\<rparr>)) s) }) }"

subsection \<open>Looking up a name\<close>

text \<open>The loop of \<^verbatim>\<open>npfile_find\<close>; \<open>next\<close> is called with the child whose reference was just given back.\<close>

partial_function (option) find_child :: "'u optab \<Rightarrow> (addr \<Rightarrow> (ptr, 'u) tact) \<Rightarrow> cstring \<Rightarrow> ptr \<Rightarrow> 'u tconn \<Rightarrow> (ptr \<times> 'u tconn) option" where
  "find_child tb next name p s =
     (case p of
        None \<Rightarrow> Some (None, s)
      | Some a \<Rightarrow>
          Option.bind (get_file a s) (\<lambda>f.
            if n_name f = name then Some (Some a, s)
            else Option.bind (npfile_decref tb (Some a) s) (\<lambda>s. Option.bind (next a s) (\<lambda>r. find_child tb next name (fst r) (snd r)))))"

text \<open>
  \<^verbatim>\<open>npfile_find\<close> takes the operations of \<open>dir\<close> for those of a directory, whatever its mode is. In the table of a plain file the places of
  \<^verbatim>\<open>first\<close> and \<^verbatim>\<open>next\<close> are those of \<^verbatim>\<open>write\<close> and \<^verbatim>\<open>wstat\<close>; the call of \<^verbatim>\<open>write\<close> with the arguments of \<^verbatim>\<open>first\<close> is undefined.
\<close>

definition npfile_find :: "'u optab \<Rightarrow> addr \<Rightarrow> cstring \<Rightarrow> (ptr, 'u) tact" where
  "npfile_find tb dir name s =
     do { d \<leftarrow> get_file dir s;
          if name = cstr ''..'' then Some (n_parent d, s)
          else
            do { i \<leftarrow> n_ops d;
                 if isdir d then
                   (case (do_first (op_dir tb i), do_next (op_dir tb i)) of
                      (Some first, Some next) \<Rightarrow> do { (p, s) \<leftarrow> first dir s; find_child tb (next dir) name p s }
                    | _ \<Rightarrow> Some (None, np_werror (Some Eperm) EPERM s))
                 else if fo_write (op_file tb i) = None \<or> fo_wstat (op_file tb i) = None then Some (None, np_werror (Some Eperm) EPERM s)
                 else None } }"

subsection \<open>Permissions\<close>

definition check_perm :: "'u optab \<Rightarrow> u32 \<Rightarrow> ptr \<Rightarrow> ptr \<Rightarrow> ptr \<Rightarrow> u32 \<Rightarrow> (bool, 'u) tact" where
  "check_perm tb fperm fuid fgid user perm s =
     (let no = (False, np_werror (Some Eperm) EPERM s); perm = perm AND 7
      in case user of
           None \<Rightarrow> Some no
         | Some u \<Rightarrow>
             if perm = 0 then Some (True, s)
             else if fperm AND 7 AND perm \<noteq> 0 then Some (True, s)
             else if fuid = user \<and> drop_bit 6 fperm AND 7 AND perm \<noteq> 0 then Some (True, s)
             else if drop_bit 3 fperm AND 7 AND perm \<noteq> 0 then
               do { m \<leftarrow> op_ismember tb u fgid s; Some (if m then (True, s) else no) }
             else Some no)"

definition npfile_checkperm :: "'u optab \<Rightarrow> addr \<Rightarrow> ptr \<Rightarrow> u32 \<Rightarrow> (bool, 'u) tact" where
  "npfile_checkperm tb a user perm s =
     do { f \<leftarrow> get_file a s; check_perm tb (n_mode f) (n_uid f) (n_gid f) user perm s }"

definition mode2perm :: "u8 \<Rightarrow> u32" where
  "mode2perm mode =
     (let m = (if mode AND 3 = Oread then 4 else if mode AND 3 = Owrite then 2 else if mode AND 3 = Ordwr then 6 else 1)
      in if mode AND Otrunc \<noteq> 0 then m OR 2 else m)"

subsection \<open>Records of a file\<close>

definition file2wstat :: "Npfile \<Rightarrow> 'u tconn \<Rightarrow> Npwstat option" where
  "file2wstat f s =
     do { ua \<leftarrow> n_uid f; u \<leftarrow> c_users s ua;
          ga \<leftarrow> n_gid f; g \<leftarrow> c_groups s ga;
          ma \<leftarrow> n_muid f; m \<leftarrow> c_users s ma;
          Some \<lparr>ws_size = 0, ws_type = 0, ws_dev = 0, ws_qid = n_qid f, ws_mode = n_mode f, ws_atime = n_atime f, ws_mtime = n_mtime f,
            ws_length = n_length f, ws_name = Some (n_name f), ws_uid = Some (u_uname u), ws_gid = Some (g_gname g), ws_muid = Some (u_uname m),
            ws_extension = n_extension f, ws_n_uid = u_uid u, ws_n_gid = g_gid g, ws_n_muid = u_uid m\<rparr> }"

definition npfile_modified :: "ptr \<Rightarrow> u32 \<Rightarrow> Npfile \<Rightarrow> Npfile" where
  "npfile_modified u now f = f\<lparr>n_muid := u, n_mtime := now, n_atime := now, n_qid := (n_qid f)\<lparr>q_version := q_version (n_qid f) + 1\<rparr>\<rparr>"

definition blank_stat :: Npstat where
  "blank_stat = \<lparr>st_size = 0, st_type = - 1, st_dev = - 1, st_qid = \<lparr>q_type = - 1, q_version = - 1, q_path = - 1\<rparr>, st_mode = - 1, st_atime = - 1,
     st_mtime = - 1, st_length = - 1, st_name = np_strzero, st_uid = np_strzero, st_gid = np_strzero, st_muid = np_strzero,
     st_extension = np_strzero, st_n_uid = - 1, st_n_gid = - 1, st_n_muid = - 1\<rparr>"

subsection \<open>Fids\<close>

definition set_aux :: "addr \<Rightarrow> addr \<Rightarrow> 'e conn \<Rightarrow> 'e conn option" where
  "set_aux a x s = do { h \<leftarrow> heap_upd (c_fids s) a (\<lambda>f. f\<lparr>f_aux := Some x\<rparr>); Some (s\<lparr>c_fids := h\<rparr>) }"

text \<open>The fid with its user, its \<^verbatim>\<open>Npfilefid\<close> and file: the first lines of most operations.\<close>

definition at_fid :: "addr \<Rightarrow> 'u tconn \<Rightarrow> (ptr \<times> addr \<times> Npfilefid) option" where
  "at_fid a s = do { f \<leftarrow> c_fids s a; x \<leftarrow> f_aux f; r \<leftarrow> get_ffid x s; Some (f_user f, x, r) }"

definition npfile_fidalloc :: "'u optab \<Rightarrow> addr \<Rightarrow> addr \<Rightarrow> (addr, 'u) tact" where
  "npfile_fidalloc tb a fid s =
     do { (x, s) \<leftarrow> new_addr s;
          let s = set_ffid x (Some \<lparr>x_fid = fid, x_file = a, x_omode = - 1, x_diroffset = 0, x_dirent = None\<rparr>) s;
          s \<leftarrow> npfile_incref (Some a) s;
          s \<leftarrow> npfile_ref tb a x s;
          Some (x, s) }"

definition npfile_fiddestroy :: "'u optab \<Rightarrow> addr \<Rightarrow> 'u tconn \<Rightarrow> 'u tconn option" where
  "npfile_fiddestroy tb a s =
     do { fd \<leftarrow> c_fids s a;
          (case f_aux fd of
             None \<Rightarrow> Some s
           | Some x \<Rightarrow>
               do { r \<leftarrow> get_ffid x s;
                    f \<leftarrow> get_file (x_file r) s;
                    s \<leftarrow> (if x_omode r \<noteq> - 1 then
                            do { s \<leftarrow> (if isdir f then Some s else do { i \<leftarrow> n_ops f; cb1 (fo_closefid (op_file tb i)) x s });
                                 npfile_decref tb (x_dirent r) s }
                          else Some s);
                    s \<leftarrow> npfile_unref tb (x_file r) x s;
                    s \<leftarrow> npfile_decref tb (Some (x_file r)) s;
                    Some (set_ffid x None s) }) }"

definition npfile_attach :: "'u optab \<Rightarrow> addr \<Rightarrow> (Npfcall option, 'u) tact" where
  "npfile_attach tb a s =
     do { let root = t_root (c_env s);
          fd \<leftarrow> c_fids s a;
          (ok, s) \<leftarrow> npfile_checkperm tb root (f_user fd) 4 s;
          if ok then
            do { (x, s) \<leftarrow> npfile_fidalloc tb root a s;
                 s \<leftarrow> set_aux a x s;
                 s \<leftarrow> np_fid_incref (Some a) s;
                 f \<leftarrow> get_file root s;
                 build (\<lambda>m. np_create_rattach m (n_qid f)) s }
          else Some (None, s) }"

definition npfile_clone :: "'u optab \<Rightarrow> addr \<Rightarrow> addr \<Rightarrow> (bool, 'u) tact" where
  "npfile_clone tb a b s =
     do { (_, _, r) \<leftarrow> at_fid a s;
          (x, s) \<leftarrow> npfile_fidalloc tb (x_file r) b s;
          s \<leftarrow> set_aux b x s;
          Some (True, s) }"

definition npfile_walk :: "'u optab \<Rightarrow> addr \<Rightarrow> Npstr \<Rightarrow> (bool \<times> Npqid, 'u) tact" where
  "npfile_walk tb a wname s =
     do { (user, x, r) \<leftarrow> at_fid a s;
          let dir = x_file r;
          (ok, s) \<leftarrow> npfile_checkperm tb dir user 1 s;
          if \<not> ok then Some ((False, qid0), s)
          else
            do { (name, s) \<leftarrow> strdup_act wname s;
                 (nfile, s) \<leftarrow> npfile_find tb dir name s;
                 (case nfile of
                    None \<Rightarrow> Some ((False, qid0), if np_haserror s then s else np_werror (Some Enotfound) ENOENT s)
                  | Some b \<Rightarrow>
                      do { s \<leftarrow> npfile_unref tb dir x s;
                           s \<leftarrow> upd_ffid x (\<lambda>r. r\<lparr>x_file := b\<rparr>) s;
                           s \<leftarrow> npfile_decref tb (Some dir) s;
                           s \<leftarrow> npfile_ref tb b x s;
                           f \<leftarrow> get_file b s;
                           Some ((True, n_qid f), s) }) } }"

subsection \<open>Opening and creating\<close>

definition open_file :: "'u optab \<Rightarrow> addr \<Rightarrow> addr \<Rightarrow> Npfile \<Rightarrow> u8 \<Rightarrow> (bool, 'u) tact" where
  "open_file tb a x f mode s =
     do { i \<leftarrow> n_ops f;
          let ops = op_file tb i;
          (ok, s) \<leftarrow> (if mode AND Otrunc = 0 then Some (True, s)
                      else
                        (case fo_wstat ops of
                           None \<Rightarrow> Some (False, np_werror (Some Eperm) EPERM s)
                         | Some wstat \<Rightarrow> do { (n, s) \<leftarrow> wstat a (blank_stat\<lparr>st_length := 0\<rparr>) s; Some (n \<noteq> 0, s) }));
          if \<not> ok then Some (False, s)
          else
            (case fo_openfid ops of
               None \<Rightarrow> Some (True, s)
             | Some openfid \<Rightarrow> do { (n, s) \<leftarrow> openfid x s; Some (n \<noteq> 0, s) }) }"

definition npfile_open :: "'u optab \<Rightarrow> addr \<Rightarrow> u8 \<Rightarrow> (Npfcall option, 'u) tact" where
  "npfile_open tb a mode s =
     do { (user, x, r) \<leftarrow> at_fid a s;
          (ok, s) \<leftarrow> npfile_checkperm tb (x_file r) user (mode2perm mode) s;
          f \<leftarrow> get_file (x_file r) s;
          if \<not> ok then Some (None, s)
          else if mode AND Oexcl \<noteq> 0 \<and> n_excl f then Some (None, np_werror (Some Eopen) EPERM s)
          else
            do { s \<leftarrow> (if mode AND Oexcl \<noteq> 0 then upd_file (x_file r) (\<lambda>f. f\<lparr>n_excl := True\<rparr>) s else Some s);
                 (ok, s) \<leftarrow> (if isdir f then do { s \<leftarrow> upd_ffid x (\<lambda>r. r\<lparr>x_diroffset := 0, x_dirent := None\<rparr>) s; Some (True, s) }
                             else open_file tb (x_file r) x f mode s);
                 (ret, s) \<leftarrow> (if ok then
                                do { s \<leftarrow> upd_ffid x (\<lambda>r. r\<lparr>x_omode := uint mode\<rparr>) s;
                                     f \<leftarrow> get_file (x_file r) s;
                                     build (\<lambda>m. np_create_ropen m (n_qid f) 0) s }
                              else Some (None, s));
                 s \<leftarrow> (if ret = None \<and> mode AND Oexcl \<noteq> 0 then upd_file (x_file r) (\<lambda>f. f\<lparr>n_excl := True\<rparr>) s else Some s);
                 Some (ret, s) } }"

text \<open>
  The end of \<^verbatim>\<open>npfile_create\<close>, once the directory has made the file. The fid moves to the file; it keeps its reference on the
  directory.
\<close>

definition create_open :: "'u optab \<Rightarrow> ptr \<Rightarrow> addr \<Rightarrow> addr \<Rightarrow> addr \<Rightarrow> u8 \<Rightarrow> (Npfcall option, 'u) tact" where
  "create_open tb user dir x b mode s =
     do { s \<leftarrow> upd_file dir (npfile_modified user (t_now (c_env s))) s;
          s \<leftarrow> upd_ffid x (\<lambda>r. r\<lparr>x_file := b, x_omode := uint mode\<rparr>) s;
          s \<leftarrow> (if mode AND Oexcl \<noteq> 0 then upd_file b (\<lambda>f. f\<lparr>n_excl := True\<rparr>) s else Some s);
          f \<leftarrow> get_file b s;
          s \<leftarrow> (if isdir f then upd_ffid x (\<lambda>r. r\<lparr>x_diroffset := 0, x_dirent := None\<rparr>) s
                else
                  do { i \<leftarrow> n_ops f;
                       (case fo_openfid (op_file tb i) of None \<Rightarrow> Some s | Some g \<Rightarrow> map_option snd (g x s)) });
          s \<leftarrow> upd_ffid x (\<lambda>r. r\<lparr>x_omode := uint mode\<rparr>) s;
          f \<leftarrow> get_file b s;
          build (\<lambda>m. np_create_rcreate m (n_qid f) 0) s }"

definition create_perm :: "u32 \<Rightarrow> u32 \<Rightarrow> u32" where
  "create_perm dmode perm =
     (let perm = (if perm AND Dmsymlink \<noteq> 0 then perm OR 0x1FF else perm)
      in if perm AND Dmdir \<noteq> 0 then perm AND (NOT 0x1FF OR dmode AND 0x1FF) else perm AND (NOT 0x1B6 OR dmode AND 0x1B6))"

definition npfile_create :: "'u optab \<Rightarrow> addr \<Rightarrow> Npstr \<Rightarrow> u32 \<Rightarrow> u8 \<Rightarrow> Npstr \<Rightarrow> (Npfcall option, 'u) tact" where
  "npfile_create tb a name perm mode extension s =
     do { (user, x, r) \<leftarrow> at_fid a s;
          let dir = x_file r;
          (sname, s) \<leftarrow> strdup_act name s;
          (sext, s) \<leftarrow> strdup_act extension s;
          (nf, s) \<leftarrow> npfile_find tb dir sname s;
          if np_haserror s then Some (None, s)
          else if nf \<noteq> None \<or> sname = cstr ''.'' \<or> sname = cstr ''..'' then Some (None, np_werror (Some Eexist) EEXIST s)
          else
            do { (ok, s) \<leftarrow> npfile_checkperm tb dir user 2 s;
                 if \<not> ok then Some (None, s)
                 else
                   do { d \<leftarrow> get_file dir s;
                        let perm = create_perm (n_mode d) perm;
                        (ok, s) \<leftarrow> check_perm tb perm user (n_gid d) user (mode2perm mode) s;
                        if \<not> ok then Some (None, s)
                        else
                          do { i \<leftarrow> n_ops d;
                               (case do_create (op_dir tb i) of
                                  None \<Rightarrow> Some (None, np_werror (Some Eperm) EPERM s)
                                | Some create \<Rightarrow>
                                    do { (p, s) \<leftarrow> create dir sname perm user (n_gid d) sext s;
                                         (case p of
                                            None \<Rightarrow> Some (None, s)
                                          | Some b \<Rightarrow> create_open tb user dir x b mode s) }) } } } }"

subsection \<open>Reading and writing\<close>

text \<open>
  The loop of \<^verbatim>\<open>npfile_read\<close> on a directory. The records are written to the data of the Rread, which starts eleven bytes into
  the packet; \<open>junk\<close> is the uninitialised record of \<^verbatim>\<open>np_serialize_stat\<close>. The buffer length passed is one less than what is left.
\<close>

definition put_entry :: "Npstat \<Rightarrow> Npwstat \<Rightarrow> u32 \<Rightarrow> bool \<Rightarrow> nat \<Rightarrow> bytes \<Rightarrow> (int \<times> bytes) option" where
  "put_entry junk w count dotu n pkt =
     (case np_serialize_stat junk w (drop (11 + n) pkt) (sint (count - of_nat n - 1)) dotu of
        (i, b) \<Rightarrow> if cb_fault b then None else Some (i, take (11 + n) pkt @ cb_mem b))"

partial_function (option) read_dir ::
  "'u optab \<Rightarrow> (addr \<Rightarrow> (ptr, 'u) tact) \<Rightarrow> Npstat \<Rightarrow> u32 \<Rightarrow> bool \<Rightarrow> nat \<Rightarrow> bytes \<Rightarrow> ptr \<Rightarrow> 'u tconn \<Rightarrow> (nat \<times> bytes \<times> ptr \<times> 'u tconn) option" where
  "read_dir tb next junk count dotu n pkt cf s =
     (case cf of
        None \<Rightarrow> Some (n, pkt, cf, s)
      | Some c \<Rightarrow>
          if unat count \<le> n then Some (n, pkt, cf, s)
          else
            Option.bind (get_file c s) (\<lambda>f.
              Option.bind (file2wstat f s) (\<lambda>w.
                Option.bind (put_entry junk w count dotu n pkt) (\<lambda>e.
                  if fst e = 0 then Some (n, snd e, cf, s)
                  else
                    Option.bind (next c s) (\<lambda>r.
                      Option.bind (npfile_decref tb (Some c) (snd r)) (\<lambda>s.
                        read_dir tb next junk count dotu (n + nat (fst e)) (snd e) (fst r) s))))))"

text \<open>Without the operation that is needed, \<^verbatim>\<open>npfile_read\<close> records an error but returns the message it has allocated.\<close>

definition npfile_read :: "'u optab \<Rightarrow> Npstat \<Rightarrow> addr \<Rightarrow> u64 \<Rightarrow> u32 \<Rightarrow> (Npfcall option, 'u) tact" where
  "npfile_read tb junk a offset count s =
     do { (user, x, r) \<leftarrow> at_fid a s;
          (ret, s) \<leftarrow> build (\<lambda>m. np_alloc_rread m count) s;
          f \<leftarrow> get_file (x_file r) s;
          i \<leftarrow> n_ops f;
          if isdir f then
            (case (do_first (op_dir tb i), do_next (op_dir tb i)) of
               (Some first, Some next) \<Rightarrow>
                 do { s \<leftarrow> (if offset = 0 then
                              do { s \<leftarrow> npfile_decref tb (x_dirent r) s;
                                   (p, s) \<leftarrow> first (x_file r) s;
                                   upd_ffid x (\<lambda>r. r\<lparr>x_dirent := p, x_diroffset := 0\<rparr>) s }
                            else Some s);
                      y \<leftarrow> get_ffid x s;
                      (n, pkt, cf, s) \<leftarrow>
                        (case ret of
                           Some rc \<Rightarrow> read_dir tb (next (x_file r)) junk count (c_dotu s) 0 (fc_pkt rc) (x_dirent y) s
                         | None \<Rightarrow> if count = 0 \<or> x_dirent y = None then Some (0, [], x_dirent y, s) else None);
                      s \<leftarrow> upd_ffid x (\<lambda>r. r\<lparr>x_diroffset := x_diroffset r + of_nat n, x_dirent := cf\<rparr>) s;
                      s \<leftarrow> upd_file (x_file r) (\<lambda>f. f\<lparr>n_atime := t_now (c_env s)\<rparr>) s;
                      (case ret of
                         None \<Rightarrow> Some (None, s)
                       | Some rc \<Rightarrow> do { rc \<leftarrow> np_set_rread_count (rc\<lparr>fc_pkt := pkt\<rparr>) (of_nat n); Some (Some rc, s) }) }
             | _ \<Rightarrow> Some (ret, np_werror (Some Eperm) EPERM s))
          else
            (case fo_read (op_file tb i) of
               None \<Rightarrow> Some (ret, np_werror (Some Eperm) EPERM s)
             | Some read \<Rightarrow>
                 do { ret \<leftarrow> ret;
                      ((n, bs), s) \<leftarrow> read x offset count s;
                      let buf = cb_store (buf_init (fc_pkt ret) 0 0) 11 bs;
                      pkt \<leftarrow> (if cb_fault buf then None else Some (cb_mem buf));
                      s \<leftarrow> upd_file (x_file r) (\<lambda>f. f\<lparr>n_atime := t_now (c_env s)\<rparr>) s;
                      if n < 0 then Some (None, s)
                      else do { ret \<leftarrow> np_set_rread_count (ret\<lparr>fc_pkt := pkt\<rparr>) (word_of_int n); Some (Some ret, s) } }) }"

definition npfile_write :: "'u optab \<Rightarrow> addr \<Rightarrow> u64 \<Rightarrow> u32 \<Rightarrow> bytes option \<Rightarrow> (Npfcall option, 'u) tact" where
  "npfile_write tb a offset count data s =
     do { (user, x, r) \<leftarrow> at_fid a s;
          f \<leftarrow> get_file (x_file r) s;
          let offset = (if (word_of_int (x_omode r) :: u32) AND 0x80 \<noteq> 0 then n_length f else offset);
          i \<leftarrow> n_ops f;
          (case fo_write (op_file tb i) of
             None \<Rightarrow> Some (None, np_werror (Some Eperm) EPERM s)
           | Some write \<Rightarrow>
               do { (n, s) \<leftarrow> write x offset count data s;
                    s \<leftarrow> (if \<not> np_haserror s \<or> n < 0 then upd_file (x_file r) (npfile_modified user (t_now (c_env s))) s else Some s);
                    if 0 \<le> n then build (\<lambda>m. np_create_rwrite m (word_of_int n)) s else Some (None, s) }) }"

definition npfile_clunk :: "(Npfcall option, 'u) tact" where
  "npfile_clunk s = build (\<lambda>m. np_create_rclunk m) s"

subsection \<open>Removing, stat and wstat\<close>

definition npfile_remove :: "'u optab \<Rightarrow> addr \<Rightarrow> (Npfcall option, 'u) tact" where
  "npfile_remove tb a s =
     do { (user, x, r) \<leftarrow> at_fid a s;
          f \<leftarrow> get_file (x_file r) s;
          (empty, s) \<leftarrow> (if isdir f then
                           do { i \<leftarrow> n_ops f;
                                (case do_first (op_dir tb i) of
                                   None \<Rightarrow> Some (False, np_werror (Some Eperm) EPERM s)
                                 | Some first \<Rightarrow>
                                     do { (cf, s) \<leftarrow> first (x_file r) s;
                                          if cf = None then Some (True, s)
                                          else do { s \<leftarrow> npfile_decref tb cf s; Some (False, np_werror (Some Enotempty) EIO s) } }) }
                         else Some (True, s));
          if \<not> empty then Some (None, s)
          else
            do { parent \<leftarrow> n_parent f;
                 (ok, s) \<leftarrow> npfile_checkperm tb parent user 2 s;
                 if \<not> ok then Some (None, s)
                 else
                   do { p \<leftarrow> get_file parent s;
                        i \<leftarrow> n_ops p;
                        (case do_remove (op_dir tb i) of
                           None \<Rightarrow> Some (None, np_werror (Some Eperm) EPERM s)
                         | Some remove \<Rightarrow>
                             do { (n, s) \<leftarrow> remove parent (x_file r) s;
                                  if n = 0 then Some (None, s)
                                  else
                                    do { s \<leftarrow> upd_file parent (npfile_modified user (t_now (c_env s))) s;
                                         s \<leftarrow> npfile_decref tb (Some (x_file r)) s;
                                         s \<leftarrow> npfile_decref tb (Some parent) s;
                                         build (\<lambda>m. np_create_rremove m) s } }) } } }"

definition npfile_stat :: "addr \<Rightarrow> (Npfcall option, 'u) tact" where
  "npfile_stat a s =
     do { (user, x, r) \<leftarrow> at_fid a s;
          f \<leftarrow> get_file (x_file r) s;
          w \<leftarrow> file2wstat f s;
          build (\<lambda>m. np_create_rstat m w (c_dotu s)) s }"

definition npfile_wstat :: "'u optab \<Rightarrow> addr \<Rightarrow> Npstat \<Rightarrow> (Npfcall option, 'u) tact" where
  "npfile_wstat tb a stat s =
     do { (user, x, r) \<leftarrow> at_fid a s;
          f \<leftarrow> get_file (x_file r) s;
          (ok, s) \<leftarrow> (if s_len (st_name stat) \<noteq> 0 then do { p \<leftarrow> n_parent f; npfile_checkperm tb p user 2 s } else Some (True, s));
          (ok, s) \<leftarrow> (if ok \<and> st_length stat \<noteq> - 1 then npfile_checkperm tb (x_file r) user 2 s else Some (ok, s));
          if \<not> ok then Some (None, s)
          else if (st_mode stat \<noteq> - 1 \<or> st_mtime stat \<noteq> - 1) \<and> n_uid f \<noteq> user then Some (None, np_werror (Some Eperm) EPERM s)
          else
            do { i \<leftarrow> n_ops f;
                 (case (if isdir f then do_wstat (op_dir tb i) else fo_wstat (op_file tb i)) of
                    None \<Rightarrow> Some (None, np_werror (Some Eperm) EPERM s)
                  | Some wstat \<Rightarrow>
                      do { (n, s) \<leftarrow> wstat (x_file r) stat s;
                           if n = 0 then Some (None, s) else build (\<lambda>m. np_create_rwstat m) s }) } }"

subsection \<open>The server\<close>

text \<open>\<^verbatim>\<open>npfile_init_srv\<close>: the operations of a server that \<^verbatim>\<open>np_srv_create\<close> made are replaced; those of 9P2000.L stay the default ones.\<close>

definition npfile_call :: "'u optab \<Rightarrow> Npstat \<Rightarrow> srvcall \<Rightarrow> (Npfcall option, 'u) tact" where
  "npfile_call tb junk c =
     (case c of
        CallAttach a _ _ _ \<Rightarrow> npfile_attach tb a
      | CallOpen a mode \<Rightarrow> npfile_open tb a mode
      | CallCreate a name perm mode extension \<Rightarrow> npfile_create tb a name perm mode extension
      | CallRead a offset count \<Rightarrow> npfile_read tb junk a offset count
      | CallWrite a offset count data \<Rightarrow> npfile_write tb a offset count data
      | CallClunk a \<Rightarrow> npfile_clunk
      | CallRemove a \<Rightarrow> npfile_remove tb a
      | CallStat a \<Rightarrow> npfile_stat a
      | CallWstat a stat \<Rightarrow> npfile_wstat tb a stat
      | _ \<Rightarrow> np_default_call c)"

definition npfile_init_srv :: "'u optab \<Rightarrow> Npstat \<Rightarrow> 'u ftree npsrv \<Rightarrow> 'u ftree npsrv" where
  "npfile_init_srv tb junk sv =
     sv\<lparr>sv_dotu := True, sv_clone := npfile_clone tb, sv_walk := npfile_walk tb, sv_call := npfile_call tb junk,
       sv_fiddestroy := Some (npfile_fiddestroy tb), sv_msize := (if sv_msize sv > 0x7FFFFFFF then 0x7FFFFFFF else sv_msize sv)\<rparr>"

end
