(* ===== verification/Ramfs.thy ===== *)
theory Ramfs
  imports Npfile
begin

text \<open>
  The file server \<^verbatim>\<open>fs/ramfs2.c\<close>, which keeps its files in memory: the operations it hangs into the trees of \<^verbatim>\<open>file.c\<close>. A file's
  \<^verbatim>\<open>aux\<close> is a block of bytes that grows in units of \<^verbatim>\<open>blksize\<close>; a directory is a doubly linked list of its files.

  \<open>rf_junk\<close> is what fresh memory holds. \<^verbatim>\<open>realloc\<close> is one of the allocations \<open>c_mal\<close> decides about; it fails for a negative
  size, which as a \<^verbatim>\<open>size_t\<close> is larger than any object, and a size of zero is left undefined.
\<close>

record File =
  fl_data :: bytes
  fl_datasize :: u64

record ramfs =
  rf_files :: "File heap"
  rf_qidpath :: u64
  rf_blksize :: u32
  rf_junk :: "nat \<Rightarrow> u8"

type_synonym rconn = "ramfs ftree conn"

definition upd_ramfs :: "(ramfs \<Rightarrow> ramfs) \<Rightarrow> rconn \<Rightarrow> rconn" where
  "upd_ramfs g s = s\<lparr>c_env := (c_env s)\<lparr>t_user := g (t_user (c_env s))\<rparr>\<rparr>"

definition get_block :: "addr \<Rightarrow> rconn \<Rightarrow> File option" where
  "get_block d s = rf_files (t_user (c_env s)) d"

definition set_block :: "addr \<Rightarrow> File option \<Rightarrow> rconn \<Rightarrow> rconn" where
  "set_block d fl = upd_ramfs (\<lambda>u. u\<lparr>rf_files := (rf_files u)(d := fl)\<rparr>)"

definition file_alloc :: "(addr, ramfs) tact" where
  "file_alloc s = do { (d, s) \<leftarrow> new_addr s; Some (d, set_block d (Some \<lparr>fl_data = [], fl_datasize = 0\<rparr>) s) }"

subsection \<open>Contents\<close>

text \<open>\<^verbatim>\<open>file_truncate\<close>: the size is rounded up in 64 bits and then stored in an \<^verbatim>\<open>int\<close>.\<close>

definition round_up :: "u32 \<Rightarrow> u64 \<Rightarrow> int" where
  "round_up blksize sz =
     (let b = scast blksize :: u64
      in sint (ucast ((sz div b + (if sz mod b \<noteq> 0 then 1 else 0)) * b) :: u32))"

definition file_truncate :: "addr \<Rightarrow> u64 \<Rightarrow> (int, ramfs) tact" where
  "file_truncate d sz s =
     do { fl \<leftarrow> get_block d s;
          if sz = 0 then Some (0, set_block d (Some \<lparr>fl_data = [], fl_datasize = 0\<rparr>) s)
          else
            do { let u = t_user (c_env s);
                 _ \<leftarrow> (if rf_blksize u = 0 then None else Some ());
                 let n = round_up (rf_blksize u) sz;
                 (case take_mal s of
                    (m, s) \<Rightarrow>
                      if n = 0 then None
                      else if n < 0 \<or> m = None then Some (- 1, s)
                      else
                        Some (0, set_block d (Some \<lparr>fl_data = take (nat n) (fl_data fl) @ map (rf_junk u) [length (fl_data fl)..<nat n],
                          fl_datasize = word_of_int n\<rparr>) s)) } }"

text \<open>A copy out of or into the block; \<open>None\<close> when it leaves the block.\<close>

definition load_bytes :: "bytes \<Rightarrow> nat \<Rightarrow> nat \<Rightarrow> bytes option" where
  "load_bytes mem off n = (if n = 0 then Some [] else if off + n \<le> length mem then Some (take n (drop off mem)) else None)"

definition store_bytes :: "bytes \<Rightarrow> nat \<Rightarrow> bytes \<Rightarrow> bytes option" where
  "store_bytes mem off bs =
     (if bs = [] then Some mem
      else if off + length bs \<le> length mem then Some (take off mem @ bs @ drop (off + length bs) mem) else None)"

definition rfs_read :: "addr \<Rightarrow> u64 \<Rightarrow> u32 \<Rightarrow> (int \<times> bytes, ramfs) tact" where
  "rfs_read x offset count s =
     do { r \<leftarrow> get_ffid x s;
          f \<leftarrow> get_file (x_file r) s;
          d \<leftarrow> n_aux f;
          fl \<leftarrow> get_block d s;
          let n = (if n_length f < offset + ucast count then sint (ucast (n_length f - offset) :: u32) else sint count);
          let n = (if n < 0 then 0 else n);
          bs \<leftarrow> load_bytes (fl_data fl) (unat offset) (nat n);
          Some ((n, bs), s) }"

text \<open>
  \<^verbatim>\<open>rfs_write\<close>. \<open>grow\<close> is what it does when the write goes past the end of the file; its result is \<^verbatim>\<open>n\<close>, or nothing when there is
  no space.
\<close>

abbreviation (input) ENOSPC :: int where "ENOSPC \<equiv> 28"

definition Enospace :: cstring where "Enospace = cstr ''no space left''"

definition grow :: "addr \<Rightarrow> addr \<Rightarrow> u64 \<Rightarrow> u32 \<Rightarrow> (int option, ramfs) tact" where
  "grow a d offset count s =
     do { f \<leftarrow> get_file a s;
          (e, s) \<leftarrow> file_truncate d (offset + ucast count) s;
          if e \<noteq> 0 then Some (None, np_werror (Some Enospace) ENOSPC s)
          else
            do { fl \<leftarrow> get_block d s;
                 let n = (if offset + ucast count > fl_datasize fl
                          then (if fl_datasize fl - offset > 0 then sint (ucast (fl_datasize fl - offset) :: u32) else 0)
                          else sint count);
                 if n = 0 then Some (Some 0, s)
                 else
                   do { mem \<leftarrow> (if n_length f < offset then store_bytes (fl_data fl) (unat (n_length f)) (replicate (unat (offset - n_length f)) 0)
                               else Some (fl_data fl));
                        s \<leftarrow> upd_file a (\<lambda>f. f\<lparr>n_length := offset + ucast count\<rparr>) (set_block d (Some (fl\<lparr>fl_data := mem\<rparr>)) s);
                        Some (Some n, s) } } }"

definition rfs_write :: "addr \<Rightarrow> u64 \<Rightarrow> u32 \<Rightarrow> bytes option \<Rightarrow> (int, ramfs) tact" where
  "rfs_write x offset count data s =
     do { r \<leftarrow> get_ffid x s;
          f \<leftarrow> get_file (x_file r) s;
          d \<leftarrow> n_aux f;
          let offset = (if (word_of_int (x_omode r) :: u32) AND 0x80 \<noteq> 0 then n_length f else offset);
          (n, s) \<leftarrow> (if n_length f < offset + ucast count then grow (x_file r) d offset count s else Some (Some (sint count), s));
          (case n of
             None \<Rightarrow> Some (0, s)
           | Some n \<Rightarrow>
               if n = 0 then Some (0, s)
               else
                 do { fl \<leftarrow> get_block d s;
                      bs \<leftarrow> data;
                      bs \<leftarrow> (if 0 \<le> n \<and> nat n \<le> length bs then Some (take (nat n) bs) else None);
                      mem \<leftarrow> store_bytes (fl_data fl) (unat offset) bs;
                      Some (n, set_block d (Some (fl\<lparr>fl_data := mem\<rparr>)) s) }) }"

text \<open>
  The part of \<^verbatim>\<open>rfs_wstat\<close> that changes the length; the result says whether there was space. After a failed allocation the old length is
  restored, which truncates the block again.
\<close>

definition set_length :: "addr \<Rightarrow> addr \<Rightarrow> u64 \<Rightarrow> (bool, ramfs) tact" where
  "set_length a d len s =
     do { f \<leftarrow> get_file a s;
          (e, s) \<leftarrow> file_truncate d len s;
          if e \<noteq> 0 then
            do { let s = np_werror (Some Enospace) ENOSPC s;
                 s \<leftarrow> (if n_length f \<noteq> - 1 then map_option snd (file_truncate d (n_length f) s) else Some s);
                 Some (False, s) }
          else
            do { fl \<leftarrow> get_block d s;
                 let len = (if len > fl_datasize fl then fl_datasize fl else len);
                 mem \<leftarrow> (if n_length f < len then store_bytes (fl_data fl) (unat (n_length f)) (replicate (unat (len - n_length f)) 0) else Some (fl_data fl));
                 s \<leftarrow> upd_file a (\<lambda>f. f\<lparr>n_length := len\<rparr>) (set_block d (Some (fl\<lparr>fl_data := mem\<rparr>)) s);
                 Some (True, s) } }"

text \<open>
  \<^verbatim>\<open>rfs_wstat\<close>. For a new name it locks the parent and then calls \<^verbatim>\<open>npfile_find\<close> on the parent, which locks it again: the call does not
  return, except for the name \<^verbatim>\<open>..\<close>, which \<^verbatim>\<open>npfile_find\<close> treats before it locks.
\<close>

definition rfs_wstat :: "addr \<Rightarrow> Npstat \<Rightarrow> (int, ramfs) tact" where
  "rfs_wstat a stat s =
     do { f \<leftarrow> get_file a s;
          d \<leftarrow> n_aux f;
          (exists, s) \<leftarrow> (if s_len (st_name stat) = 0 then Some (False, s)
                           else
                             do { p \<leftarrow> n_parent f;
                                  (sname, s) \<leftarrow> strdup_act (st_name stat) s;
                                  if sname \<noteq> cstr ''..'' then None
                                  else
                                    do { pf \<leftarrow> get_file p s;
                                         if n_parent pf \<noteq> None then Some (True, np_werror (Some Eexist) EEXIST s)
                                         else do { s \<leftarrow> upd_file a (\<lambda>f. f\<lparr>n_name := sname\<rparr>) s; Some (False, s) } } });
          if exists then Some (0, s)
          else
            do { (ok, s) \<leftarrow> (if st_length stat = - 1 then Some (True, s) else set_length a d (st_length stat) s);
                 if \<not> ok then do { s \<leftarrow> upd_file a (\<lambda>g. g\<lparr>n_name := n_name f\<rparr>) s; Some (0, s) }
                 else
                   do { s \<leftarrow> upd_file a (\<lambda>f. f\<lparr>n_mode := (if st_mode stat = - 1 then n_mode f else st_mode stat),
                                 n_mtime := (if st_mtime stat = - 1 then n_mtime f else st_mtime stat)\<rparr>) s;
                        Some (1, s) } } }"

definition rfs_destroy :: "addr \<Rightarrow> (unit, ramfs) tact" where
  "rfs_destroy a s = do { f \<leftarrow> get_file a s; d \<leftarrow> n_aux f; _ \<leftarrow> get_block d s; Some ((), set_block d None s) }"

subsection \<open>Directories\<close>

text \<open>
  The pointer \<^verbatim>\<open>ops\<close> of a new file is \<^verbatim>\<open>fileops\<close> or \<^verbatim>\<open>dirops\<close>, here \<open>0\<close> or \<open>1\<close>. Most of the library reads it as one or the other by the file's mode;
  both agree as long as no operation changes the directory bit of a mode, and \<^verbatim>\<open>np_wstat\<close> refuses to. \<^verbatim>\<open>npfile_find\<close> does not look at
  the mode: its model is undefined for a plain file with these operations. \<^verbatim>\<open>npfile_create\<close> calls it first, and
  \<^verbatim>\<open>npfile_remove\<close> takes the operations of a parent, which is a directory.
\<close>

definition rfs_create :: "addr \<Rightarrow> cstring \<Rightarrow> u32 \<Rightarrow> ptr \<Rightarrow> ptr \<Rightarrow> cstring \<Rightarrow> (ptr, ramfs) tact" where
  "rfs_create dir name perm uid gid extension s =
     (if perm AND Dmlink \<noteq> 0 then Some (None, np_werror (Some Eperm) EPERM s)
      else
        do { (d, s) \<leftarrow> file_alloc s;
             let qp = rf_qidpath (t_user (c_env s));
             let s = upd_ramfs (\<lambda>u. u\<lparr>rf_qidpath := qp + 1\<rparr>) s;
             (a, s) \<leftarrow> npfile_alloc (Some dir) name perm qp (Some (if perm AND Dmdir \<noteq> 0 then 1 else 0)) (Some d) s;
             s \<leftarrow> upd_file a (\<lambda>f. f\<lparr>n_uid := uid, n_gid := gid, n_muid := uid\<rparr>) s;
             s \<leftarrow> npfile_incref (Some a) s;
             s \<leftarrow> npfile_incref (Some a) s;
             df \<leftarrow> get_file dir s;
             s \<leftarrow> (case n_dirlast df of
                     Some l \<Rightarrow>
                       do { s \<leftarrow> upd_file l (\<lambda>f. f\<lparr>n_next := Some a\<rparr>) s; upd_file a (\<lambda>f. f\<lparr>n_prev := Some l\<rparr>) s }
                   | None \<Rightarrow> upd_file dir (\<lambda>f. f\<lparr>n_dirfirst := Some a\<rparr>) s);
             s \<leftarrow> upd_file dir (\<lambda>f. f\<lparr>n_dirlast := Some a\<rparr>) s;
             s \<leftarrow> upd_file a (\<lambda>f. f\<lparr>n_extension := Some extension\<rparr>) s;
             Some (Some a, s) })"

definition rfs_first :: "addr \<Rightarrow> (ptr, ramfs) tact" where
  "rfs_first dir s = do { df \<leftarrow> get_file dir s; s \<leftarrow> npfile_incref (n_dirfirst df) s; Some (n_dirfirst df, s) }"

definition rfs_next :: "addr \<Rightarrow> addr \<Rightarrow> (ptr, ramfs) tact" where
  "rfs_next dir prevchild s = do { f \<leftarrow> get_file prevchild s; s \<leftarrow> npfile_incref (n_next f) s; Some (n_next f, s) }"

definition rfs_remove :: "addr \<Rightarrow> addr \<Rightarrow> (int, ramfs) tact" where
  "rfs_remove dir a s =
     do { df \<leftarrow> get_file dir s;
          f \<leftarrow> get_file a s;
          s \<leftarrow> (if n_dirfirst df = Some a then upd_file dir (\<lambda>g. g\<lparr>n_dirfirst := n_next f\<rparr>) s
                else do { p \<leftarrow> n_prev f; upd_file p (\<lambda>g. g\<lparr>n_next := n_next f\<rparr>) s });
          s \<leftarrow> (case n_next f of None \<Rightarrow> Some s | Some b \<Rightarrow> upd_file b (\<lambda>g. g\<lparr>n_prev := n_prev f\<rparr>) s);
          s \<leftarrow> upd_file dir (\<lambda>g. if n_dirlast g = Some a then g\<lparr>n_dirlast := n_prev f\<rparr> else g) s;
          s \<leftarrow> upd_file a (\<lambda>g. g\<lparr>n_prev := None, n_next := None, n_parent := None\<rparr>) s;
          Some (1, s) }"

definition rfs_fileops :: "ramfs fileops" where
  "rfs_fileops = \<lparr>fo_ref = None, fo_unref = None, fo_read = Some rfs_read, fo_write = Some rfs_write, fo_wstat = Some rfs_wstat,
     fo_destroy = Some rfs_destroy, fo_openfid = None, fo_closefid = None\<rparr>"

definition rfs_dirops :: "ramfs dirops" where
  "rfs_dirops = \<lparr>do_ref = None, do_unref = None, do_create = Some rfs_create, do_first = Some rfs_first, do_next = Some rfs_next,
     do_wstat = Some rfs_wstat, do_remove = Some rfs_remove, do_destroy = Some rfs_destroy\<rparr>"

definition rfs_ops :: "(addr \<Rightarrow> ptr \<Rightarrow> rconn \<Rightarrow> bool option) \<Rightarrow> ramfs optab" where
  "rfs_ops ismember = \<lparr>op_file = (\<lambda>_. rfs_fileops), op_dir = (\<lambda>_. rfs_dirops), op_ismember = ismember\<rparr>"

end
