(* ===== verification/Ramfs_Data.thy ===== *)
theory Ramfs_Data
  imports Ramfs
begin

text \<open>
  The contents of the files of \<open>Ramfs\<close> as lists of bytes: reading returns a part of the list, writing replaces a part of it, in the
  range where the sizes of the code fit into an \<^verbatim>\<open>int\<close>; and what happens beyond.
\<close>

subsection \<open>Contents as a list of bytes\<close>

definition block :: "addr \<Rightarrow> u64 \<Rightarrow> bytes \<Rightarrow> rconn \<Rightarrow> bool" where
  "block d len c s \<longleftrightarrow>
     (\<exists>fl. get_block d s = Some fl \<and> unat (fl_datasize fl) = length (fl_data fl) \<and> unat len \<le> length (fl_data fl) \<and> c = take (unat len) (fl_data fl))"

definition holds_file :: "addr \<Rightarrow> bytes \<Rightarrow> rconn \<Rightarrow> bool" where
  "holds_file a c s \<longleftrightarrow> (\<exists>f d. get_file a s = Some f \<and> n_aux f = Some d \<and> block d (n_length f) c s)"

text \<open>Writing past the end fills the gap with zeros.\<close>

definition write_at :: "nat \<Rightarrow> bytes \<Rightarrow> bytes \<Rightarrow> bytes" where
  "write_at off d c = (if d = [] then c else take off (c @ replicate (off - length c) 0) @ d @ drop (off + length d) c)"

lemma block_length: "block d len c s \<Longrightarrow> length c = unat len"
  by (auto simp: block_def)

lemma unat_ucast_u64: "unat (ucast w :: u64) = unat w" for w :: u32
  by transfer (simp add: take_bit_take_bit min_def)

lemma unat_add_count:
  fixes offset :: u64 and count :: u32
  assumes "unat offset + unat count < 2 ^ 64"
  shows "unat (offset + ucast count) = unat offset + unat count"
  using assms by (simp add: unat_word_ariths unat_ucast_u64)

lemma sint_ucast_neg:
  assumes "0 < k" "k \<le> 2 ^ 31"
  shows "sint (ucast (- of_nat k :: u64) :: u32) = - int k"
proof -
  define w where "w = (of_nat (2 ^ 32 - k) :: u32)"
  have w: "unat w = 2 ^ 32 - k" unfolding w_def using assms by (intro unat_of_nat_u32) simp
  have "ucast (- of_nat k :: u64) = (- of_nat k :: u32)" by transfer (simp add: take_bit_take_bit min_def)
  also have "\<dots> = w" using assms(2) by (simp add: w_def of_nat_diff)
  finally have "sint (ucast (- of_nat k :: u64) :: u32) = sint w" by simp
  also have "\<dots> = int (unat w) - 2 ^ 32" using w assms(2) by (intro sint_large) simp
  finally show ?thesis using w assms(2) by simp
qed

lemma sint_ucast_nat:
  assumes "k < 2 ^ 31"
  shows "sint (ucast (of_nat k :: u64) :: u32) = int k"
proof -
  have "ucast (of_nat k :: u64) = (of_nat k :: u32)" by transfer (simp add: take_bit_take_bit min_def)
  then show ?thesis using assms sint_of_nat_u32 by simp
qed

lemma ceil_bounds:
  fixes n b :: nat
  assumes "0 < b"
  shows "n \<le> (n div b + (if n mod b \<noteq> 0 then 1 else 0)) * b" "(n div b + (if n mod b \<noteq> 0 then 1 else 0)) * b < n + b"
proof -
  define q m where qm: "q = n div b" "m = n mod b"
  have "n = q * b + m" "m < b" using assms by (simp_all add: qm)
  then have "n \<le> (q + (if m \<noteq> 0 then 1 else 0)) * b" "(q + (if m \<noteq> 0 then 1 else 0)) * b < n + b" by (auto simp: distrib_right)
  then show "n \<le> (n div b + (if n mod b \<noteq> 0 then 1 else 0)) * b" "(n div b + (if n mod b \<noteq> 0 then 1 else 0)) * b < n + b"
    unfolding qm by simp_all
qed

lemma round_up_bounds:
  assumes "0 < unat b" "unat sz + unat b \<le> 2 ^ 31" "0 < unat sz"
  obtains K where "round_up b sz = int K" "unat sz \<le> K" "K < 2 ^ 31"
proof -
  have b31: "unat b < 2 ^ 31" using assms by simp
  let ?b = "scast b :: u64"
  have bn: "?b = of_nat (unat b)" unfolding scast_eq sint_small [OF b31] by simp
  then have b: "unat ?b = unat b" by (simp add: unat_ucast_u64)
  let ?k = "unat sz div unat b + (if unat sz mod unat b \<noteq> 0 then 1 else 0)"
  have k: "unat sz \<le> ?k * unat b" "?k * unat b < unat sz + unat b"
    using ceil_bounds [OF assms(1), of "unat sz"] by simp_all
  have "(sz div ?b + (if sz mod ?b \<noteq> 0 then 1 else 0)) * ?b = of_nat (?k * unat b)"
  proof -
    have "sz div ?b = of_nat (unat sz div unat b)" "sz mod ?b = of_nat (unat sz mod unat b)" using b by (simp_all add: word_arith_nat_div word_arith_nat_mod)
    moreover have "(of_nat (unat sz mod unat b) :: u64) \<noteq> 0 \<longleftrightarrow> unat sz mod unat b \<noteq> 0"
      using mod_less_divisor [OF assms(1), of "unat sz"] b31 by (auto simp: word_unat_eq_iff unat_of_nat)
    ultimately show ?thesis using bn by simp
  qed
  moreover define K where "K = ?k * unat b"
  ultimately have "round_up b sz = sint (ucast (of_nat K :: u64) :: u32)" unfolding round_up_def Let_def by simp
  moreover have "unat sz \<le> K" "K < 2 ^ 31" using k assms(2) unfolding K_def by linarith+
  ultimately show thesis using that [of K] sint_ucast_nat [of K] by simp
qed

lemma read_contents:
  assumes "get_ffid x s = Some r" "holds_file (x_file r) c s" "unat offset \<le> length c + 2 ^ 31" "unat count < 2 ^ 31" "unat offset + unat count < 2 ^ 64"
  shows "rfs_read x offset count s = (let bs = take (unat count) (drop (unat offset) c) in Some ((int (length bs), bs), s))"
proof -
  obtain f d fl where f: "get_file (x_file r) s = Some f" "n_aux f = Some d" "get_block d s = Some fl" "unat (n_length f) \<le> length (fl_data fl)"
      "c = take (unat (n_length f)) (fl_data fl)"
    using assms(2) by (auto simp: holds_file_def block_def)
  let ?l = "unat (n_length f)" and ?o = "unat offset" and ?c = "unat count"
  have len: "length c = ?l" using f(4,5) by simp
  have lt: "n_length f < offset + ucast count \<longleftrightarrow> ?l < ?o + ?c" using unat_add_count [OF assms(5)] by (simp add: word_less_nat_alt)
  define n where "n = (if n_length f < offset + ucast count then sint (ucast (n_length f - offset) :: u32) else sint count)"
  have n: "(if n < 0 then 0 else n) = int (min ?c (?l - ?o))"
  proof (cases "?l < ?o + ?c")
    case False
    then show ?thesis using lt sint_small [of count] assms(4) by (simp add: n_def)
  next
    case True
    show ?thesis
    proof (cases "?o \<le> ?l")
      case le: True
      define j where "j = ?l - ?o"
      have "n_length f - offset = of_nat j" using le by (simp add: j_def of_nat_diff)
      then have "n = int j" using True lt sint_ucast_nat [of j] assms(4) by (simp add: n_def j_def)
      then show ?thesis using True by (simp add: j_def)
    next
      case False
      define j where "j = ?o - ?l"
      have "n_length f - offset = - of_nat j" using False by (simp add: j_def of_nat_diff)
      then have "n = - int j" using True lt False sint_ucast_neg [of j] assms(3) len by (simp add: n_def j_def)
      moreover have "0 < j" "?l - ?o = 0" using False by (simp_all add: j_def)
      ultimately show ?thesis by simp
    qed
  qed
  define k where "k = min ?c (?l - ?o)"
  have bs: "take ?c (drop ?o c) = (if k = 0 then [] else take k (drop ?o (fl_data fl)))" "length (take ?c (drop ?o c)) = k"
    using f(4,5) by (auto simp: k_def drop_take min_def)
  have "load_bytes (fl_data fl) ?o k = Some (take ?c (drop ?o c))" unfolding bs(1) using f(4) by (auto simp: load_bytes_def k_def)
  moreover have "rfs_read x offset count s =
      (let n = if n < 0 then 0 else n in do { bs \<leftarrow> load_bytes (fl_data fl) ?o (nat n); Some ((n, bs), s) })"
    using assms(1) f(1-3) by (simp add: rfs_read_def Let_def flip: n_def)
  ultimately show ?thesis unfolding n k_def [symmetric] Let_def bs(2) by simp
qed

text \<open>Growing the block keeps what it holds.\<close>

lemma state_sel [simp]:
  "get_file a (set_block d fl s) = get_file a s" "get_ffid x (set_block d fl s) = get_ffid x s"
  "get_block d (set_block d' fl s) = (if d' = d then fl else get_block d s)"
  "get_file a (set_file b f s) = (if b = a then f else get_file a s)" "get_ffid x (set_file b f s) = get_ffid x s"
  "get_block d (set_file b f s) = get_block d s"
  "c_fids (set_block d fl s) = c_fids s" "c_fids (set_file b f s) = c_fids s"
  "t_user (c_env (set_file b f s)) = t_user (c_env s)" "c_mal (set_block d fl s) = c_mal s" "c_mal (set_file b f s) = c_mal s"
  "rf_blksize (t_user (c_env (set_block d fl s))) = rf_blksize (t_user (c_env s))"
  by (auto simp: get_file_def get_ffid_def get_block_def set_block_def set_file_def upd_ramfs_def)

lemma take_mal_plenty: "c_mal s = [] \<Longrightarrow> take_mal s = (Some npfcall0, s)"
  by (simp add: take_mal_def)

lemma truncate_grows:
  assumes "block d len c s" "c_mal s = []" "0 < unat (rf_blksize (t_user (c_env s)))" "unat sz + unat (rf_blksize (t_user (c_env s))) \<le> 2 ^ 31"
    "unat len < unat sz"
  shows "\<exists>fl. file_truncate d sz s = Some (0, set_block d (Some fl) s) \<and> unat (fl_datasize fl) = length (fl_data fl) \<and>
    unat sz \<le> length (fl_data fl) \<and> length (fl_data fl) < 2 ^ 31 \<and> take (unat len) (fl_data fl) = c"
proof -
  let ?b = "rf_blksize (t_user (c_env s))"
  obtain fl where fl: "get_block d s = Some fl" "unat len \<le> length (fl_data fl)" "c = take (unat len) (fl_data fl)"
    using assms(1) by (auto simp: block_def)
  have sz: "0 < unat sz" "sz \<noteq> 0" using assms(5) by auto
  obtain K where K: "round_up ?b sz = int K" "unat sz \<le> K" "K < 2 ^ 31" by (rule round_up_bounds [OF assms(3,4) sz(1)])
  let ?mem = "take K (fl_data fl) @ map (rf_junk (t_user (c_env s))) [length (fl_data fl)..<K]"
  have "file_truncate d sz s = Some (0, set_block d (Some \<lparr>fl_data = ?mem, fl_datasize = word_of_int (int K)\<rparr>) s)"
    using fl(1) sz K assms(3) by (auto simp: file_truncate_def Let_def take_mal_plenty [OF assms(2)])
  moreover have "length ?mem = K" by simp
  moreover have "unat (word_of_int (int K) :: u64) = K" using K(3) by (simp add: unat_of_nat)
  moreover have "take (unat len) ?mem = c" using fl(2,3) K(2) assms(5) by (simp add: min_def)
  ultimately show ?thesis using K(2,3) by (intro exI [of _ "\<lparr>fl_data = ?mem, fl_datasize = word_of_int (int K)\<rparr>"]) simp
qed

lemma grow_ok:
  assumes "get_file a s = Some f" "block d (n_length f) c s" "c_mal s = []" "0 < unat (rf_blksize (t_user (c_env s)))"
    "unat offset + unat count + unat (rf_blksize (t_user (c_env s))) \<le> 2 ^ 31" "length c < unat offset + unat count" "0 < unat count"
  shows "\<exists>fl. grow a d offset count s =
      Some (Some (int (unat count)), set_file a (Some (f\<lparr>n_length := offset + ucast count\<rparr>)) (set_block d (Some fl) s)) \<and>
    unat (fl_datasize fl) = length (fl_data fl) \<and> unat offset + unat count \<le> length (fl_data fl) \<and>
    take (unat offset) (fl_data fl) = take (unat offset) (c @ replicate (unat offset - length c) 0)"
proof -
  let ?l = "unat (n_length f)" and ?o = "unat offset" and ?c = "unat count"
  have len: "length c = ?l" using block_length [OF assms(2)] .
  have sz: "unat (offset + ucast count) = ?o + ?c" using assms(5) by (intro unat_add_count) simp
  obtain fl where t: "file_truncate d (offset + ucast count) s = Some (0, set_block d (Some fl) s)" "unat (fl_datasize fl) = length (fl_data fl)"
      "?o + ?c \<le> length (fl_data fl)" "take ?l (fl_data fl) = c"
    using truncate_grows [OF assms(2-4), of "offset + ucast count"] sz assms(5,6) len by auto
  have fits: "\<not> offset + ucast count > fl_datasize fl" using t(2,3) sz by (simp add: word_less_nat_alt)
  have n: "sint count = int ?c" using assms(4,5) by (intro sint_small) simp
  then have n0: "sint count \<noteq> 0" using assms(7) by (metis of_nat_0_eq_iff less_not_refl)
  define mem where "mem = (if ?l < ?o then take ?l (fl_data fl) @ replicate (?o - ?l) 0 @ drop ?o (fl_data fl) else fl_data fl)"
  have "(if n_length f < offset then store_bytes (fl_data fl) ?l (replicate (unat (offset - n_length f)) 0) else Some (fl_data fl)) = Some mem"
  proof (cases "?l < ?o")
    case True
    then have "unat (offset - n_length f) = ?o - ?l" by (simp add: unat_sub word_le_nat_alt)
    then show ?thesis using True t(3) by (simp add: store_bytes_def mem_def word_less_nat_alt)
  qed (simp add: mem_def word_less_nat_alt)
  then have "grow a d offset count s = Some (Some (int ?c),
      set_file a (Some (f\<lparr>n_length := offset + ucast count\<rparr>)) (set_block d (Some (fl\<lparr>fl_data := mem\<rparr>)) (set_block d (Some fl) s)))"
    using assms(1,7) t(1) fits n n0 by (cases "n_length f < offset") (simp_all add: grow_def Let_def upd_file_def)
  moreover have "set_block d (Some g) (set_block d (Some h) s) = set_block d (Some g) s" for g h by (simp add: set_block_def upd_ramfs_def)
  moreover have "length mem = length (fl_data fl)" using t(3) by (auto simp: mem_def)
  moreover have "take ?o mem = take ?o (c @ replicate (?o - length c) 0)"
  proof (cases "?l < ?o")
    case False
    then have "take ?o (fl_data fl) = take ?o c" using t(4) by (metis linorder_not_less min.absorb1 take_take)
    then show ?thesis using False len by (simp add: mem_def)
  qed (use t(4) len in \<open>simp add: mem_def\<close>)
  ultimately show ?thesis using t(2,3) by (intro exI [of _ "fl\<lparr>fl_data := mem\<rparr>"]) simp
qed

text \<open>Storing the bytes into a block that reaches far enough.\<close>

lemma store_contents:
  assumes "off + length bs \<le> length mem" "bs \<noteq> []" "take off mem = take off (c @ replicate (off - length c) 0)"
    "length c \<le> length mem" "length c < off + length bs \<or> take (length c) mem = c"
  shows "take (max (length c) (off + length bs)) (take off mem @ bs @ drop (off + length bs) mem) = write_at off bs c"
proof (cases "length c < off + length bs")
  case True
  then show ?thesis using assms(1-3) by (simp add: write_at_def)
next
  case False
  then have "take (length c) mem = c" using assms(5) by simp
  moreover have "take (length c - (off + length bs)) (drop (off + length bs) mem) = drop (off + length bs) (take (length c) mem)" by (simp add: drop_take)
  moreover have "off < length c" "length bs \<le> length c - off" using False assms(2) by (cases bs; simp)+
  ultimately show ?thesis using False assms(1-4) by (simp add: write_at_def min_def)
qed

definition other_files :: "addr \<Rightarrow> addr \<Rightarrow> rconn \<Rightarrow> rconn \<Rightarrow> bool" where
  "other_files a d s s' \<longleftrightarrow>
     (\<forall>x. get_ffid x s' = get_ffid x s) \<and> (\<forall>b. b \<noteq> a \<longrightarrow> get_file b s' = get_file b s) \<and> (\<forall>e. e \<noteq> d \<longrightarrow> get_block e s' = get_block e s) \<and>
     c_fids s' = c_fids s \<and> c_mal s' = c_mal s \<and> c_ename s' = c_ename s \<and> t_now (c_env s') = t_now (c_env s) \<and>
     rf_blksize (t_user (c_env s')) = rf_blksize (t_user (c_env s))"

lemma other_files_upd: "other_files a d s (set_file a f (set_block d fl s))" "other_files a d s (set_block d fl s)" "other_files a d s s"
  "other_files a d s s' \<Longrightarrow> other_files a d s (set_block d fl s')"
  by (auto simp: other_files_def) (auto simp: set_block_def set_file_def upd_ramfs_def)

text \<open>The block before the bytes are stored, whether it had to grow or not.\<close>

lemma write_prepared:
  assumes "get_file a s = Some f" "block d (n_length f) c s" "c_mal s = []" "0 < unat (rf_blksize (t_user (c_env s)))"
    "unat offset + unat count + unat (rf_blksize (t_user (c_env s))) \<le> 2 ^ 31" "0 < unat count"
  obtains s1 fl1 len1 where
    "(if unat (n_length f) < unat offset + unat count then grow a d offset count s else Some (Some (int (unat count)), s)) = Some (Some (int (unat count)), s1)"
    "other_files a d s s1" "get_file a s1 = Some (f\<lparr>n_length := len1\<rparr>)" "get_block d s1 = Some fl1"
    "unat (fl_datasize fl1) = length (fl_data fl1)" "unat offset + unat count \<le> length (fl_data fl1)"
    "unat len1 = max (unat (n_length f)) (unat offset + unat count)"
    "take (unat offset) (fl_data fl1) = take (unat offset) (c @ replicate (unat offset - length c) 0)"
    "unat (n_length f) < unat offset + unat count \<or> take (unat (n_length f)) (fl_data fl1) = c" "unat (n_length f) \<le> length (fl_data fl1)"
proof -
  let ?l = "unat (n_length f)" and ?o = "unat offset" and ?c = "unat count"
  have len: "length c = ?l" using block_length [OF assms(2)] .
  have sz: "unat (offset + ucast count) = ?o + ?c" using assms(5) by (intro unat_add_count) simp
  obtain fl where fl: "get_block d s = Some fl" "unat (fl_datasize fl) = length (fl_data fl)" "?l \<le> length (fl_data fl)" "c = take ?l (fl_data fl)"
    using assms(2) by (auto simp: block_def)
  show thesis
  proof (cases "?l < ?o + ?c")
    case True
    obtain fl' where fl': "grow a d offset count s =
        Some (Some (int ?c), set_file a (Some (f\<lparr>n_length := offset + ucast count\<rparr>)) (set_block d (Some fl') s))"
        "unat (fl_datasize fl') = length (fl_data fl')" "?o + ?c \<le> length (fl_data fl')" "take ?o (fl_data fl') = take ?o (c @ replicate (?o - length c) 0)"
      using grow_ok [OF assms(1-5)] True len assms(6) by auto
    show thesis
      by (rule that [of "set_file a (Some (f\<lparr>n_length := offset + ucast count\<rparr>)) (set_block d (Some fl') s)" "offset + ucast count" fl'])
        (use True fl' sz other_files_upd(1) in \<open>simp_all add: max_def\<close>)
  next
    case F: False
    show thesis by (rule that [of s "n_length f" fl]) (use F fl assms(1) len other_files_upd(3) in \<open>auto simp: max_def take_append\<close>)
  qed
qed

lemma write_contents:
  assumes "get_ffid x s = Some r" "get_file (x_file r) s = Some f" "n_aux f = Some d" "block d (n_length f) c s" "c_mal s = []"
    "0 < unat (rf_blksize (t_user (c_env s)))" "unat offset + unat count + unat (rf_blksize (t_user (c_env s))) \<le> 2 ^ 31" "unat count \<le> length data"
    "(word_of_int (x_omode r) :: u32) AND 0x80 = 0"
  shows "\<exists>s' len. rfs_write x offset count (Some data) s = Some (int (unat count), s') \<and> other_files (x_file r) d s s' \<and>
    get_file (x_file r) s' = Some (f\<lparr>n_length := len\<rparr>) \<and> block d len (write_at (unat offset) (take (unat count) data) c) s'"
proof -
  let ?l = "unat (n_length f)" and ?o = "unat offset" and ?c = "unat count" and ?bs = "take (unat count) data"
  have len: "length c = ?l" using block_length [OF assms(4)] .
  have sz: "unat (offset + ucast count) = ?o + ?c" using assms(7) by (intro unat_add_count) simp
  have lt: "n_length f < offset + ucast count \<longleftrightarrow> ?l < ?o + ?c" using sz by (simp add: word_less_nat_alt)
  have n: "sint count = int ?c" using assms(6,7) by (intro sint_small) simp
  have bs: "length ?bs = ?c" using assms(8) by simp
  let ?w = "\<lambda>n s. if n = 0 then Some (0, s)
      else do { fl \<leftarrow> get_block d s; bs \<leftarrow> Some data; bs \<leftarrow> (if 0 \<le> n \<and> nat n \<le> length bs then Some (take (nat n) bs) else None);
                mem \<leftarrow> store_bytes (fl_data fl) ?o bs; Some (n, set_block d (Some (fl\<lparr>fl_data := mem\<rparr>)) s) }"
  have w: "rfs_write x offset count (Some data) s =
      do { (n, s) \<leftarrow> (if ?l < ?o + ?c then grow (x_file r) d offset count s else Some (Some (int ?c), s));
           (case n of None \<Rightarrow> Some (0, s) | Some n \<Rightarrow> ?w n s) }"
    using assms(1-3,9) lt n by (simp add: rfs_write_def)
  show ?thesis
  proof (cases "?c = 0")
    case True
    then have c0: "count = 0" "?bs = []" by (simp_all add: unat_eq_0)
    show ?thesis
    proof (cases "?l < ?o")
      case grown: True
      obtain fl' where t: "file_truncate d offset s = Some (0, set_block d (Some fl') s)" "unat (fl_datasize fl') = length (fl_data fl')"
          "?o \<le> length (fl_data fl')" "take ?l (fl_data fl') = c"
        using truncate_grows [OF assms(4-6), of offset] grown assms(7) by auto
      have "grow (x_file r) d offset count s = Some (Some 0, set_block d (Some fl') s)"
        using t(1-3) assms(2) c0(1) by (simp add: grow_def Let_def word_less_nat_alt)
      then show ?thesis
        using w c0 grown t other_files_upd(2) assms(2) by (intro exI [of _ "set_block d (Some fl') s"] exI [of _ "n_length f"]) (simp add: block_def write_at_def)
    next
      case False
      then show ?thesis using w c0 other_files_upd(3) assms(2,4) by (intro exI [of _ s] exI [of _ "n_length f"]) (simp add: write_at_def)
    qed
  next
    case False
    have pos: "0 < unat count" using False by simp
    obtain s1 fl1 len1 where g: "(if ?l < ?o + ?c then grow (x_file r) d offset count s else Some (Some (int ?c), s)) = Some (Some (int ?c), s1)"
        "other_files (x_file r) d s s1" "get_file (x_file r) s1 = Some (f\<lparr>n_length := len1\<rparr>)" "get_block d s1 = Some fl1"
        "unat (fl_datasize fl1) = length (fl_data fl1)" "?o + ?c \<le> length (fl_data fl1)" "unat len1 = max ?l (?o + ?c)"
        "take ?o (fl_data fl1) = take ?o (c @ replicate (?o - length c) 0)" "?l < ?o + ?c \<or> take ?l (fl_data fl1) = c" "?l \<le> length (fl_data fl1)"
      by (rule write_prepared [OF assms(2,4-7) pos])
    define mem where "mem = take ?o (fl_data fl1) @ ?bs @ drop (?o + ?c) (fl_data fl1)"
    have "store_bytes (fl_data fl1) ?o ?bs = Some mem" using g(6) bs False by (auto simp: store_bytes_def mem_def)
    moreover have "uint count \<noteq> 0" using False by (metis of_nat_0_eq_iff int_nat_eq uint_ge_0 unat_eq_nat_uint)
    ultimately have "?w (int ?c) s1 = Some (int ?c, set_block d (Some (fl1\<lparr>fl_data := mem\<rparr>)) s1)" using g(4) assms(8) by simp
    then have res: "rfs_write x offset count (Some data) s = Some (int ?c, set_block d (Some (fl1\<lparr>fl_data := mem\<rparr>)) s1)"
      unfolding w g(1) by (simp only: bind.bind_lunit prod.case option.case)
    have m: "mem = take ?o (fl_data fl1) @ ?bs @ drop (?o + length ?bs) (fl_data fl1)" by (simp only: mem_def bs)
    have "?bs \<noteq> []" using bs False by auto
    then have "take (max (length c) (?o + length ?bs)) mem = write_at ?o ?bs c"
      unfolding m by (intro store_contents) (use g(6,8,9,10) len in \<open>auto simp: bs simp del: length_take\<close>)
    then have "block d len1 (write_at ?o ?bs c) (set_block d (Some (fl1\<lparr>fl_data := mem\<rparr>)) s1)"
      using g(5,6,7,10) len bs by (auto simp: block_def mem_def)
    then show ?thesis using res g(2,3) other_files_upd(4) by fastforce
  qed
qed

subsection \<open>Tread and Twrite\<close>

text \<open>Filling in the data of an Rread.\<close>

lemma fill_rread:
  assumes "fc_pkt fc = wire Rread NOTAG (enc32 (of_nat n) @ junk)" "length junk = n" "fc_count fc = of_nat n" "n + 11 < 2 ^ 31" "length bs \<le> n"
  shows "\<exists>pkt rc. cb_store (buf_init (fc_pkt fc) 0 0) 11 bs = (buf_init (fc_pkt fc) 0 0)\<lparr>cb_mem := pkt\<rparr> \<and>
    np_set_rread_count (fc\<lparr>fc_pkt := pkt\<rparr>) (of_nat (length bs)) = Some rc \<and>
    take (unat (fc_size rc)) (fc_pkt rc) = wire Rread NOTAG (enc32 (of_nat (length bs)) @ bs)"
proof -
  let ?data = "bs @ drop (length bs) junk"
  let ?pkt = "wire Rread NOTAG (enc32 (of_nat n) @ ?data)"
  have len: "length ?data = n" using assms(2,5) by simp
  have "take 11 (fc_pkt fc) @ bs @ drop (11 + length bs) (fc_pkt fc) = ?pkt" using assms(1,2,5) by (simp add: wire_def)
  moreover have "cb_in_range (buf_init (fc_pkt fc) 0 0) 11 (length bs)" using assms(1,2,5) by (simp add: cb_in_range_def buf_init_def)
  ultimately have st: "cb_store (buf_init (fc_pkt fc) 0 0) 11 bs = (buf_init (fc_pkt fc) 0 0)\<lparr>cb_mem := ?pkt\<rparr>"
    by (simp add: cb_store_def buf_init_def)
  have sz: "unat (of_nat (11 + length bs) :: u32) = 11 + length bs" using assms(4,5) by (intro unat_of_nat_u32) simp
  show ?thesis
    using st set_rread_count_wire [OF assms(4,5) len, of "fc\<lparr>fc_pkt := ?pkt\<rparr>" Rread NOTAG] assms(3) sz by auto
qed

text \<open>A fid that stands for a file, not opened for appending, with its contents.\<close>

definition opened :: "addr \<Rightarrow> addr \<Rightarrow> bytes \<Rightarrow> rconn \<Rightarrow> bool" where
  "opened a b c s \<longleftrightarrow>
     (\<exists>user x r f. at_fid a s = Some (user, x, r) \<and> x_file r = b \<and> get_file b s = Some f \<and> \<not> isdir f \<and> n_ops f \<noteq> None \<and>
       (word_of_int (x_omode r) :: u32) AND 0x80 = 0 \<and> holds_file b c s)"

definition block_of :: "addr \<Rightarrow> rconn \<Rightarrow> ptr" where
  "block_of b s = Option.bind (get_file b s) n_aux"

lemma holds_file_cong:
  assumes "get_file b s' = Some (g f)" "get_file b s = Some f" "n_aux (g f) = n_aux f" "n_length (g f) = n_length f" "\<And>d. get_block d s' = get_block d s"
  shows "holds_file b c s' = holds_file b c s"
  using assms by (simp add: holds_file_def block_def)

lemma opened_read:
  assumes "opened a b c s" "c_mal s = []" "unat offset \<le> length c + 2 ^ 31" "unat count + 11 < 2 ^ 31" "unat offset + unat count < 2 ^ 64"
  defines "bs \<equiv> take (unat count) (drop (unat offset) c)"
  shows "\<exists>rc s'. npfile_read (rfs_ops ismember) junk a offset count s = Some (Some rc, s') \<and> opened a b c s' \<and>
    take (unat (fc_size rc)) (fc_pkt rc) = wire Rread NOTAG (enc32 (of_nat (length bs)) @ bs)"
proof -
  obtain user x r f i where o: "at_fid a s = Some (user, x, r)" "x_file r = b" "get_file b s = Some f" "\<not> isdir f" "n_ops f = Some i"
      "(word_of_int (x_omode r) :: u32) AND 0x80 = 0" "holds_file b c s"
    using assms(1) by (auto simp: opened_def)
  have x: "get_ffid x s = Some r" using o(1) by (auto simp: at_fid_def bind_eq_Some_conv)
  obtain fc data where fc: "np_alloc_rread (Some npfcall0) count = Inr fc" "length data = unat count" "fc_count fc = of_nat (unat count)"
      "fc_pkt fc = wire Rread NOTAG (enc32 (of_nat (unat count)) @ data)"
    using np_alloc_rread_built [OF assms(4), of npfcall0] by auto
  have b: "build (\<lambda>m. np_alloc_rread m count) s = Some (Some fc, s)" using build_unlimited [OF assms(2)] fc(1) by simp
  have rd: "rfs_read x offset count s = Some ((int (length bs), bs), s)"
    using read_contents [OF x] o(2,7) assms(3-5) by (simp add: Let_def bs_def)
  have "length bs \<le> unat count" by (simp add: bs_def)
  then obtain pkt rc where p: "cb_store (buf_init (fc_pkt fc) 0 0) 11 bs = (buf_init (fc_pkt fc) 0 0)\<lparr>cb_mem := pkt\<rparr>"
      "np_set_rread_count (fc\<lparr>fc_pkt := pkt\<rparr>) (of_nat (length bs)) = Some rc"
      "take (unat (fc_size rc)) (fc_pkt rc) = wire Rread NOTAG (enc32 (of_nat (length bs)) @ bs)"
    using fill_rread [OF fc(4,2,3) assms(4)] by blast
  let ?f = "f\<lparr>n_atime := t_now (c_env s)\<rparr>"
  let ?s = "set_file b (Some ?f) s"
  have "npfile_read (rfs_ops ismember) junk a offset count s = Some (Some rc, ?s)"
    using o b rd p(1,2) by (simp add: npfile_read_def rfs_ops_def rfs_fileops_def upd_file_def buf_init_def)
  moreover have "opened a b c ?s"
    using o holds_file_cong [of b ?s "\<lambda>f. f\<lparr>n_atime := t_now (c_env s)\<rparr>" f s c]
    by (auto simp: opened_def at_fid_def intro!: exI [of _ user] exI [of _ x] exI [of _ r])
  ultimately show ?thesis using p(3) by blast
qed

lemma rwrite_built: "\<exists>rc. np_create_rwrite (Some npfcall0) n = Inr rc \<and> fc_pkt rc = wire Rwrite NOTAG (enc32 n)"
  using m9p.created [of "MRwrite n" True npfcall0] by auto

lemma opened_write:
  assumes "opened a b c s" "c_mal s = []" "c_ename s = None" "0 < unat (rf_blksize (t_user (c_env s)))"
    "unat offset + unat count + unat (rf_blksize (t_user (c_env s))) \<le> 2 ^ 31" "unat count \<le> length data"
  shows "\<exists>rc s'. npfile_write (rfs_ops ismember) a offset count (Some data) s = Some (Some rc, s') \<and> fc_pkt rc = wire Rwrite NOTAG (enc32 count) \<and>
    opened a b (write_at (unat offset) (take (unat count) data) c) s' \<and> c_mal s' = [] \<and>
    (\<forall>b' c'. b' \<noteq> b \<and> block_of b' s \<noteq> block_of b s \<longrightarrow> holds_file b' c' s' = holds_file b' c' s)"
proof -
  obtain user x r f i where o: "at_fid a s = Some (user, x, r)" "x_file r = b" "get_file b s = Some f" "\<not> isdir f" "n_ops f = Some i"
      "(word_of_int (x_omode r) :: u32) AND 0x80 = 0" "holds_file b c s"
    using assms(1) by (auto simp: opened_def)
  have x: "get_ffid x s = Some r" using o(1) by (auto simp: at_fid_def bind_eq_Some_conv)
  obtain d where d: "n_aux f = Some d" "block d (n_length f) c s" using o(3,7) by (auto simp: holds_file_def)
  let ?c = "write_at (unat offset) (take (unat count) data) c"
  obtain s1 len where w: "rfs_write x offset count (Some data) s = Some (int (unat count), s1)" "other_files b d s s1"
      "get_file b s1 = Some (f\<lparr>n_length := len\<rparr>)" "block d len ?c s1"
    using write_contents [of x s r f d c offset count data] x o(2,3,6) d assms(2,4-6) by auto
  have s1: "c_ename s1 = None" "c_mal s1 = []" "c_fids s1 = c_fids s" "get_ffid x s1 = Some r" using w(2) assms(2,3) x by (auto simp: other_files_def)
  obtain rc where rc: "np_create_rwrite (Some npfcall0) count = Inr rc" "fc_pkt rc = wire Rwrite NOTAG (enc32 count)" using rwrite_built by blast
  let ?f = "npfile_modified user (t_now (c_env s1)) (f\<lparr>n_length := len\<rparr>)"
  let ?s = "set_file b (Some ?f) s1"
  have "build (\<lambda>m. np_create_rwrite m count) ?s = Some (Some rc, ?s)" using rc(1) s1(2) by (intro build_unlimited) simp_all
  moreover have "\<not> np_haserror s1" using s1(1) by (simp add: np_haserror_def)
  ultimately have "npfile_write (rfs_ops ismember) a offset count (Some data) s = Some (Some rc, ?s)"
    using o w(1,3) by (simp add: npfile_write_def rfs_ops_def rfs_fileops_def upd_file_def)
  moreover have "holds_file b ?c ?s" using w(4) d(1) by (simp add: holds_file_def block_def npfile_modified_def)
  then have "opened a b ?c ?s"
    using o s1(3,4) by (auto simp: opened_def at_fid_def npfile_modified_def bind_eq_Some_conv)
  moreover have "holds_file b' c' ?s = holds_file b' c' s" if "b' \<noteq> b" "block_of b' s \<noteq> block_of b s" for b' c'
    using that w(2) o(3) d(1) by (auto simp: holds_file_def block_def block_of_def other_files_def)
  ultimately show ?thesis using rc(2) s1(2) by auto
qed

text \<open>
  (C24) Files in memory. A Twrite on a fid that stands for a file is answered with its whole count; it replaces the bytes at the
  offset, fills a gap behind the old end with zeros, and leaves the files with other blocks alone. A Tread after it is answered with
  exactly the bytes of the new contents in its range, and changes nothing. This holds up to the sizes an \<^verbatim>\<open>int\<close> can count.
\<close>

theorem ramfs_write_read:
  assumes "opened a b c s" "c_mal s = []" "c_ename s = None" "0 < unat (rf_blksize (t_user (c_env s)))"
    "unat offset + unat count + unat (rf_blksize (t_user (c_env s))) \<le> 2 ^ 31" "unat count \<le> length data" "unat from + unat n + 11 < 2 ^ 31"
  defines "c1 \<equiv> write_at (unat offset) (take (unat count) data) c"
  defines "bs \<equiv> take (unat n) (drop (unat from) c1)"
  shows "\<exists>wc s1 rc s2. npfile_write (rfs_ops ismember) a offset count (Some data) s = Some (Some wc, s1) \<and> fc_pkt wc = wire Rwrite NOTAG (enc32 count) \<and>
    npfile_read (rfs_ops ismember) junk a from n s1 = Some (Some rc, s2) \<and>
    take (unat (fc_size rc)) (fc_pkt rc) = wire Rread NOTAG (enc32 (of_nat (length bs)) @ bs) \<and> opened a b c1 s2 \<and>
    (\<forall>b' c'. b' \<noteq> b \<and> block_of b' s \<noteq> block_of b s \<longrightarrow> holds_file b' c' s1 = holds_file b' c' s)"
proof -
  obtain wc s1 where w: "npfile_write (rfs_ops ismember) a offset count (Some data) s = Some (Some wc, s1)" "fc_pkt wc = wire Rwrite NOTAG (enc32 count)"
      "opened a b c1 s1" "c_mal s1 = []" "\<forall>b' c'. b' \<noteq> b \<and> block_of b' s \<noteq> block_of b s \<longrightarrow> holds_file b' c' s1 = holds_file b' c' s"
    using opened_write [OF assms(1-6)] unfolding c1_def by blast
  have "unat from \<le> length c1 + 2 ^ 31" "unat n + 11 < 2 ^ 31" "unat from + unat n < 2 ^ 64" using assms(7) by simp_all
  then obtain rc s2 where "npfile_read (rfs_ops ismember) junk a from n s1 = Some (Some rc, s2)" "opened a b c1 s2"
      "take (unat (fc_size rc)) (fc_pkt rc) = wire Rread NOTAG (enc32 (of_nat (length bs)) @ bs)"
    using opened_read [OF w(3,4)] unfolding bs_def by blast
  then show ?thesis using w by blast
qed

text \<open>A tree with one file of three bytes, open on the fid at address 0.\<close>

definition ram_file :: Npfile where
  "ram_file = \<lparr>n_refcount = 2, n_parent = None, n_qid = qid0, n_mode = 0x1A4, n_atime = 0, n_mtime = 0, n_length = 3, n_name = cstr ''f'',
     n_uid = None, n_gid = None, n_muid = None, n_extension = None, n_excl = False, n_ops = Some 0, n_aux = Some 3, n_next = None, n_prev = None,
     n_dirfirst = None, n_dirlast = None\<rparr>"

definition ram_conn :: rconn where
  "ram_conn = \<lparr>c_fids = [0 \<mapsto> \<lparr>f_fid = 1, f_refcount = 1, f_omode = 2, f_type = 0, f_diroffset = 0, f_user = None, f_aux = Some 2, f_next = None, f_prev = None\<rparr>],
     c_pool = None, c_brk = 4, c_users = Map.empty, c_groups = Map.empty, c_upool = None, c_gpool = None, c_msize = 8216, c_dotu = True, c_dotl = False,
     c_ename = None, c_ecode = 0, c_mal = [],
     c_env = \<lparr>t_files = [1 \<mapsto> ram_file],
       t_ffids = [2 \<mapsto> \<lparr>x_fid = 0, x_file = 1, x_omode = 2, x_diroffset = 0, x_dirent = None\<rparr>], t_root = 1, t_now = 5,
       t_user = \<lparr>rf_files = [3 \<mapsto> \<lparr>fl_data = [1, 2, 3, 0], fl_datasize = 4\<rparr>], rf_qidpath = 1, rf_blksize = 4, rf_junk = (\<lambda>_. 170)\<rparr>\<rparr>\<rparr>"

lemma ram_opened: "opened 0 1 [1, 2, 3] ram_conn"
  by (simp add: opened_def at_fid_def get_file_def get_ffid_def get_block_def holds_file_def block_def ram_conn_def ram_file_def)

theorem ramfs_write_read_witness:
  "\<exists>wc s1 rc s2. npfile_write (rfs_ops (\<lambda>_ _ _. Some False)) 0 5 2 (Some [8, 9]) ram_conn = Some (Some wc, s1) \<and>
    npfile_read (rfs_ops (\<lambda>_ _ _. Some False)) blank_stat 0 1 100 s1 = Some (Some rc, s2) \<and>
    take (unat (fc_size rc)) (fc_pkt rc) = wire Rread NOTAG (enc32 6 @ [2, 3, 0, 0, 8, 9]) \<and> opened 0 1 [1, 2, 3, 0, 0, 8, 9] s2"
proof -
  have ram: "c_mal ram_conn = []" "c_ename ram_conn = None" "unat (rf_blksize (t_user (c_env ram_conn))) = 4" by (simp_all add: ram_conn_def)
  have c1: "write_at (unat (5 :: u64)) (take (unat (2 :: u32)) [8, 9]) [1, 2, 3] = [1, 2, 3, 0, 0, 8, 9]"
  proof -
    have u: "unat (5 :: u64) = 5" "unat (2 :: u32) = 2" by simp_all
    show ?thesis unfolding u by (simp add: write_at_def eval_nat_numeral)
  qed
  have bs: "take (unat (100 :: u32)) (drop (unat (1 :: u64)) [1, 2, 3, 0, 0, 8, 9 :: u8]) = [2, 3, 0, 0, 8, 9]" by simp
  show ?thesis
    using ramfs_write_read [OF ram_opened ram(1,2), of 5 2 "[8, 9]" 1 100 "\<lambda>_ _ _. Some False" blank_stat] unfolding ram(3) c1 bs
    by simp blast
qed

text \<open>
  (C35) A Tread far behind the end reads memory outside the file. The distance to the end is computed in 64 bits but kept in an
  \<^verbatim>\<open>int\<close>: at an offset between 2 GB and 4 GB behind the end the number of bytes left, which should be negative, becomes positive, and so many bytes
  are copied from behind the file's block.
\<close>

theorem ramfs_far_read:
  assumes "opened a b c s" "c_mal s = []" "0 < k" "k < 2 ^ 31" "unat offset + k = length c + 2 ^ 32" "unat count + 11 < 2 ^ 31" "length c < 2 ^ 31"
    "\<And>d fl. block_of b s = Some d \<Longrightarrow> get_block d s = Some fl \<Longrightarrow> length (fl_data fl) < 2 ^ 31"
  shows "npfile_read (rfs_ops ismember) junk a offset count s = None"
proof -
  obtain user x r f i where o: "at_fid a s = Some (user, x, r)" "x_file r = b" "get_file b s = Some f" "\<not> isdir f" "n_ops f = Some i"
      "(word_of_int (x_omode r) :: u32) AND 0x80 = 0" "holds_file b c s"
    using assms(1) by (auto simp: opened_def)
  have x: "get_ffid x s = Some r" using o(1) by (auto simp: at_fid_def bind_eq_Some_conv)
  obtain d fl where d: "n_aux f = Some d" "get_block d s = Some fl" "length c = unat (n_length f)" using o(3,7) by (auto simp: holds_file_def block_def)
  have small: "length (fl_data fl) < 2 ^ 31" using assms(8) [of d fl] o(3) d(1,2) by (simp add: block_of_def)
  obtain fc where fc: "np_alloc_rread (Some npfcall0) count = Inr fc" using np_alloc_rread_built [OF assms(6), of npfcall0] by auto
  have b: "build (\<lambda>m. np_alloc_rread m count) s = Some (Some fc, s)" using build_unlimited [OF assms(2)] fc(1) by simp
  have sz: "unat (offset + ucast count) = unat offset + unat count" using assms(4-7) by (intro unat_add_count) simp
  have lt: "n_length f < offset + ucast count" using sz assms(4,5) d(3) by (simp add: word_less_nat_alt)
  have "(of_nat (unat offset + k) :: u64) = of_nat (length c + 2 ^ 32)" using assms(5) by (simp only:)
  then have "offset + of_nat k = n_length f + 2 ^ 32" unfolding d(3) by simp
  then have "n_length f - offset = of_nat k - 2 ^ 32" by (simp add: algebra_simps)
  moreover have "ucast (of_nat k - 2 ^ 32 :: u64) = (of_nat k :: u32)" by transfer (simp add: take_bit_eq_mod mod_mod_cancel)
  ultimately have n: "sint (ucast (n_length f - offset) :: u32) = int k" using assms(4) sint_of_nat_u32 by simp
  have "load_bytes (fl_data fl) (unat offset) k = None" using small assms(3-5) by (simp add: load_bytes_def)
  then have "rfs_read x offset count s = None" using x o(2,3) d lt n assms(3) by (simp add: rfs_read_def Let_def)
  then show ?thesis using o b by (simp add: npfile_read_def rfs_ops_def rfs_fileops_def)
qed

theorem ramfs_far_read_witness:
  "opened 0 1 [1, 2, 3] ram_conn \<and> npfile_read (rfs_ops (\<lambda>_ _ _. Some False)) blank_stat 0 4294967291 16 ram_conn = None"
proof -
  have ram: "c_mal ram_conn = []" "block_of 1 ram_conn = Some 3" "get_block 3 ram_conn = Some \<lparr>fl_data = [1, 2, 3, 0], fl_datasize = 4\<rparr>"
    by (simp_all add: ram_conn_def block_of_def get_file_def get_block_def ram_file_def)
  have "npfile_read (rfs_ops (\<lambda>_ _ _. Some False)) blank_stat 0 4294967291 16 ram_conn = None"
    by (rule ramfs_far_read [OF ram_opened ram(1), of 8]) (use ram(2,3) in auto)
  then show ?thesis using ram_opened by blast
qed

end
