(* ===== verification/Ramfs_Dir.thy ===== *)
theory Ramfs_Dir
  imports Ramfs_Data
begin

text \<open>
  The directories of \<open>Ramfs\<close> as lists of files: looking up, creating and removing names through the operations of \<open>Npfile\<close>, and
  what happens to the reference counts.
\<close>

subsection \<open>Directories as lists\<close>

definition set_n_next :: "ptr \<Rightarrow> Npfile \<Rightarrow> Npfile" where
  "set_n_next p f = f\<lparr>n_next := p\<rparr>"

definition set_n_prev :: "ptr \<Rightarrow> Npfile \<Rightarrow> Npfile" where
  "set_n_prev p f = f\<lparr>n_prev := p\<rparr>"

interpretation nl: links n_next n_prev set_n_next set_n_prev n_name
  by unfold_locales (simp_all add: set_n_next_def set_n_prev_def)

abbreviation files :: "'u tconn \<Rightarrow> Npfile heap" where
  "files s \<equiv> t_files (c_env s)"

text \<open>\<open>entries dir as s\<close>: \<open>dir\<close> is a directory with the files \<open>as\<close>; each has a reference and \<open>dir\<close> for its parent.\<close>

definition entries :: "addr \<Rightarrow> addr list \<Rightarrow> 'u tconn \<Rightarrow> bool" where
  "entries dir as s \<longleftrightarrow>
     (\<exists>d. get_file dir s = Some d \<and> isdir d \<and> n_ops d \<noteq> None \<and> nl.dl (files s) None (n_dirfirst d) as None \<and> n_dirlast d = lastp None as) \<and>
     distinct (dir # as) \<and> (\<forall>a\<in>set as. \<exists>f. get_file a s = Some f \<and> 1 \<le> n_refcount f \<and> n_parent f = Some dir)"

definition name_of :: "addr \<Rightarrow> 'u tconn \<Rightarrow> cstring option" where
  "name_of b s = map_option n_name (get_file b s)"

definition refcount_of :: "addr \<Rightarrow> 'u tconn \<Rightarrow> int option" where
  "refcount_of b s = map_option n_refcount (get_file b s)"

text \<open>The first of the files with a name.\<close>

definition named :: "cstring \<Rightarrow> addr list \<Rightarrow> 'u tconn \<Rightarrow> ptr" where
  "named name as s = find (\<lambda>a. name_of a s = Some name) as"

text \<open>A reference more on the file of a pointer.\<close>

definition bump :: "ptr \<Rightarrow> 'u tconn \<Rightarrow> 'u tconn" where
  "bump p s = (case p of None \<Rightarrow> s | Some a \<Rightarrow> set_file a (map_option (\<lambda>f. f\<lparr>n_refcount := n_refcount f + 1\<rparr>) (get_file a s)) s)"

lemma bump_None [simp]: "bump None s = s"
  by (simp add: bump_def)

lemma file_sel [simp]:
  "get_file a (set_file b f s) = (if b = a then f else get_file a s)" "get_ffid x (set_file b f s) = get_ffid x s"
  "get_file a (set_ffid y r s) = get_file a s" "get_ffid x (set_ffid y r s) = (if y = x then r else get_ffid x s)"
  "c_fids (set_file b f s) = c_fids s" "c_fids (set_ffid y r s) = c_fids s"
  "c_mal (set_file b f s) = c_mal s" "c_mal (set_ffid y r s) = c_mal s" "c_ename (set_file b f s) = c_ename s" "c_ename (set_ffid y r s) = c_ename s"
  "set_file a f (set_file a g s) = set_file a f s"
  by (simp_all add: get_file_def get_ffid_def set_file_def set_ffid_def)

lemma set_file_same: "get_file a s = f \<Longrightarrow> set_file a f s = s"
  by (auto simp: get_file_def set_file_def intro!: conn.equality ftree.equality)

lemma files_upd [simp]: "files (set_file b f s) = (files s)(b := f)" "files (set_ffid y r s) = files s"
  by (simp_all add: set_file_def set_ffid_def)

lemma incref_bump: "get_file a s = Some f \<Longrightarrow> 0 \<le> n_refcount f \<Longrightarrow> npfile_incref (Some a) s = Some (bump (Some a) s)"
  by (simp add: npfile_incref_def upd_file_def bump_def)

lemma decref_bump: "get_file a s = Some f \<Longrightarrow> 1 \<le> n_refcount f \<Longrightarrow> npfile_decref tb (Some a) (bump (Some a) s) = Some s"
  by (simp add: npfile_decref_def upd_file_def bump_def set_file_same)

subsection \<open>Looking up a name\<close>

lemma next_bump:
  assumes "get_file a s = Some f" "nl.dl (files s) pr (n_next f) as None" "\<forall>a\<in>set as. \<exists>f. get_file a s = Some f \<and> 1 \<le> n_refcount f"
  shows "rfs_next dir a s = Some (n_next f, bump (n_next f) s)"
  using assms by (cases as) (auto simp: get_file_def rfs_next_def npfile_incref_def upd_file_def bump_def)

lemma find_child_entries:
  assumes "nl.dl (files s) pr p as None" "\<forall>a\<in>set as. \<exists>f. get_file a s = Some f \<and> 1 \<le> n_refcount f"
  shows "find_child tb (rfs_next dir) name p (bump p s) = Some (named name as s, bump (named name as s) s)"
  using assms
proof (induction as arbitrary: pr p)
  case Nil
  then show ?case by (subst find_child.simps) (simp add: named_def)
next
  case (Cons a as)
  obtain f where f: "p = Some a" "get_file a s = Some f" "nl.dl (files s) (Some a) (n_next f) as None" "1 \<le> n_refcount f"
    using Cons.prems(1,2) by (auto simp: get_file_def)
  have b: "get_file a (bump (Some a) s) = Some (f\<lparr>n_refcount := n_refcount f + 1\<rparr>)" using f(2) by (simp add: bump_def)
  show ?case
  proof (cases "n_name f = name")
    case True
    then show ?thesis using f(1,2) b by (subst find_child.simps) (simp add: name_of_def named_def)
  next
    case False
    have "find_child tb (rfs_next dir) name p (bump p s) = find_child tb (rfs_next dir) name (n_next f) (bump (n_next f) s)"
      using False f(1) b decref_bump [OF f(2,4), of tb] next_bump [OF f(2,3)] Cons.prems(2) by (subst find_child.simps) simp
    also have "\<dots> = Some (named name as s, bump (named name as s) s)"
      using Cons.IH [OF f(3)] Cons.prems(2) by simp
    finally show ?thesis using False f(2) by (simp add: name_of_def named_def)
  qed
qed

lemma find_entries:
  assumes "entries dir as s" "name \<noteq> cstr ''..''"
  shows "npfile_find (rfs_ops ismember) dir name s = Some (named name as s, bump (named name as s) s)"
proof -
  obtain d i where d: "get_file dir s = Some d" "n_ops d = Some i" "nl.dl (files s) None (n_dirfirst d) as None" "isdir d"
    using assms(1) by (auto simp: entries_def)
  have rc: "\<forall>a\<in>set as. \<exists>f. get_file a s = Some f \<and> 1 \<le> n_refcount f" using assms(1) by (auto simp: entries_def)
  have "rfs_first dir s = Some (n_dirfirst d, bump (n_dirfirst d) s)"
    using d(1,3) rc by (cases as) (auto simp: get_file_def rfs_first_def npfile_incref_def upd_file_def bump_def)
  then show ?thesis
    using find_child_entries [OF d(3) rc] assms(2) d(1,2,4) by (simp add: npfile_find_def rfs_ops_def rfs_dirops_def)
qed

text \<open>Looking up a name in a plain file calls \<^verbatim>\<open>rfs_write\<close> as if it were \<^verbatim>\<open>rfs_first\<close>.\<close>

lemma find_in_plain_file:
  assumes "get_file b s = Some f" "n_ops f = Some i" "\<not> isdir f" "name \<noteq> cstr ''..''"
  shows "npfile_find (rfs_ops ismember) b name s = None"
  using assms by (simp add: npfile_find_def rfs_ops_def rfs_fileops_def)

subsection \<open>What keeps a directory as it is\<close>

definition same_links :: "Npfile \<Rightarrow> Npfile \<Rightarrow> bool" where
  "same_links f g \<longleftrightarrow> n_next g = n_next f \<and> n_prev g = n_prev f \<and> n_parent g = n_parent f \<and> n_dirfirst g = n_dirfirst f \<and> n_dirlast g = n_dirlast f \<and>
     n_mode g = n_mode f \<and> n_ops g = n_ops f \<and> (1 \<le> n_refcount f \<longrightarrow> 1 \<le> n_refcount g)"

lemma dl_links_cong:
  assumes "nl.dl h pr p as q" "\<And>b f. b \<in> set as \<Longrightarrow> h b = Some f \<Longrightarrow> \<exists>g. h' b = Some g \<and> n_next g = n_next f \<and> n_prev g = n_prev f"
  shows "nl.dl h' pr p as q"
  using assms
proof (induction as arbitrary: pr p)
  case (Cons a as)
  obtain f where f: "p = Some a" "h a = Some f" "n_prev f = pr" "nl.dl h (Some a) (n_next f) as q" using Cons.prems(1) by auto
  obtain g where g: "h' a = Some g" "n_next g = n_next f" "n_prev g = n_prev f" using Cons.prems(2) [OF _ f(2)] by auto
  have "nl.dl h' (Some a) (n_next f) as q" by (rule Cons.IH [OF f(4)]) (use Cons.prems(2) in auto)
  then show ?case using f g by simp
qed simp

lemma entries_cong:
  assumes "entries dir as s" "\<And>b f. b \<in> set (dir # as) \<Longrightarrow> get_file b s = Some f \<Longrightarrow> \<exists>g. get_file b s' = Some g \<and> same_links f g"
  shows "entries dir as s'"
proof -
  obtain d where d: "get_file dir s = Some d" "isdir d" "n_ops d \<noteq> None" "nl.dl (files s) None (n_dirfirst d) as None" "n_dirlast d = lastp None as"
    using assms(1) by (auto simp: entries_def)
  obtain e where e: "get_file dir s' = Some e" "same_links d e" using assms(2) [OF _ d(1)] by auto
  have "nl.dl (files s') None (n_dirfirst d) as None"
    by (rule dl_links_cong [OF d(4)]) (use assms(2) in \<open>fastforce simp: get_file_def same_links_def\<close>)
  moreover have "\<exists>g. get_file b s' = Some g \<and> 1 \<le> n_refcount g \<and> n_parent g = Some dir" if "b \<in> set as" for b
  proof -
    obtain f where f: "get_file b s = Some f" "1 \<le> n_refcount f" "n_parent f = Some dir" using assms(1) \<open>b \<in> set as\<close> by (auto simp: entries_def)
    obtain g where "get_file b s' = Some g" "same_links f g" using assms(2) [OF _ f(1)] \<open>b \<in> set as\<close> by auto
    then show ?thesis using f(2,3) by (auto simp: same_links_def)
  qed
  ultimately show ?thesis using assms(1) d e by (auto simp: entries_def same_links_def)
qed

lemma same_links_refl [simp]: "same_links f f"
  by (simp add: same_links_def)

lemma no_hooks [simp]: "npfile_ref (rfs_ops ismember) a x s = map_option (\<lambda>_. s) (get_file a s)"
  "npfile_unref (rfs_ops ismember) a x s = map_option (\<lambda>_. s) (get_file a s)"
  by (cases "get_file a s"; auto simp: npfile_ref_def npfile_unref_def file_cb_def cb1_def rfs_ops_def rfs_fileops_def rfs_dirops_def split: option.splits)+

lemma ref_then: "Option.bind (map_option (\<lambda>_. t) (get_file b t)) (\<lambda>t. Option.bind (get_file b t) (g t)) = Option.bind (get_file b t) (g t)"
  by (cases "get_file b t") auto

lemma strdup_unlimited: "c_mal s = [] \<Longrightarrow> np_strdup str = Some cs \<Longrightarrow> strdup_act str s = Some (cs, s)"
  by (simp add: strdup_act_def take_mal_plenty)

subsection \<open>Walking\<close>

text \<open>
  (C27) Walking to a name in a directory. When the user may search it, \<^verbatim>\<open>npfile_walk\<close> always returns. If no file of the directory has the name, it
  fails with "file not found" and changes nothing else; otherwise the fid moves to the first file with the name, whose qid is the result,
  the file gets a reference and the directory loses the one of the fid, and the directory keeps its files.
\<close>

theorem ramfs_walk:
  assumes "entries dir as s" "at_fid a s = Some (user, x, r)" "x_file r = dir" "np_strdup wname = Some name" "name \<noteq> cstr ''..''" "c_mal s = []" "c_ename s = None"
    "npfile_checkperm (rfs_ops ismember) dir user 1 s = Some (True, s)" "refcount_of dir s = Some n" "2 \<le> n"
  shows "case named name as s of
      None \<Rightarrow> npfile_walk (rfs_ops ismember) a wname s = Some ((False, qid0), np_werror (Some Enotfound) ENOENT s)
    | Some b \<Rightarrow> \<exists>s' f. npfile_walk (rfs_ops ismember) a wname s = Some ((True, n_qid f), s') \<and> get_file b s = Some f \<and> b \<in> set as \<and> n_name f = name \<and>
        at_fid a s' = Some (user, x, r\<lparr>x_file := b\<rparr>) \<and> entries dir as s' \<and>
        refcount_of b s' = Some (n_refcount f + 1) \<and> refcount_of dir s' = Some (n - 1) \<and>
        (\<forall>c. c \<noteq> b \<and> c \<noteq> dir \<longrightarrow> get_file c s' = get_file c s)"
proof -
  have x: "get_ffid x s = Some r" "c_fids s a \<noteq> None" using assms(2) by (auto simp: at_fid_def bind_eq_Some_conv)
  obtain d where d: "get_file dir s = Some d" "n_refcount d = n" using assms(9) by (auto simp: refcount_of_def)
  note find = find_entries [OF assms(1,5), of ismember]
  note sd = strdup_unlimited [OF assms(6,4)]
  show ?thesis
  proof (cases "named name as s")
    case None
    then show ?thesis using assms(2,3,7,8) find sd by (simp add: npfile_walk_def np_haserror_def)
  next
    case (Some b)
    then have b: "b \<in> set as" "name_of b s = Some name" by (auto simp: named_def find_Some_iff)
    then have ne: "b \<noteq> dir" using assms(1) by (auto simp: entries_def)
    obtain f where f: "get_file b s = Some f" "n_name f = name" using b(2) by (auto simp: name_of_def)
    let ?f = "f\<lparr>n_refcount := n_refcount f + 1\<rparr>" and ?d = "d\<lparr>n_refcount := n_refcount d - 1\<rparr>"
    let ?s = "set_file dir (Some ?d) (set_ffid x (Some (r\<lparr>x_file := b\<rparr>)) (set_file b (Some ?f) s))"
    have "npfile_walk (rfs_ops ismember) a wname s = Some ((True, n_qid f), ?s)"
      using assms(2,3,8,10) find sd Some f d ne x by (simp add: npfile_walk_def bump_def upd_ffid_def upd_file_def npfile_decref_def)
    moreover have "entries dir as ?s" by (rule entries_cong [OF assms(1)]) (use f d assms(10) ne in \<open>auto simp: same_links_def\<close>)
    moreover have "at_fid a ?s = Some (user, x, r\<lparr>x_file := b\<rparr>)" using assms(2) by (auto simp: at_fid_def bind_eq_Some_conv)
    ultimately show ?thesis using Some b(1) f d ne by (auto simp: refcount_of_def)
  qed
qed

text \<open>Walking to the parent again and again.\<close>

primrec walk_up :: "'u optab \<Rightarrow> Npstr \<Rightarrow> addr \<Rightarrow> nat \<Rightarrow> 'u tconn \<Rightarrow> 'u tconn option" where
  "walk_up tb up a 0 s = Some s"
| "walk_up tb up a (Suc k) s = do { ((ok, _), s) \<leftarrow> npfile_walk tb a up s; if ok then walk_up tb up a k s else Some s }"

definition at_root :: "addr \<Rightarrow> addr \<Rightarrow> int \<Rightarrow> 'u tconn \<Rightarrow> bool" where
  "at_root a root n s \<longleftrightarrow>
     (\<exists>u x r d. at_fid a s = Some (Some u, x, r) \<and> x_file r = root \<and> get_file root s = Some d \<and> n_parent d = Some root \<and> n_mode d AND 1 \<noteq> 0 \<and>
       n_refcount d = n \<and> c_mal s = [])"

lemma walk_up_step:
  assumes "at_root a root n s" "np_strdup up = Some (cstr ''..'')"
  shows "n \<noteq> 1 \<Longrightarrow> \<exists>q s'. npfile_walk (rfs_ops ismember) a up s = Some ((True, q), s') \<and> at_root a root (n - 1) s'"
    "n = 1 \<Longrightarrow> npfile_walk (rfs_ops ismember) a up s = None"
proof -
  obtain u x r d where r: "at_fid a s = Some (Some u, x, r)" "x_file r = root" "get_file root s = Some d" "n_parent d = Some root" "n_mode d AND 1 \<noteq> 0"
      "n_refcount d = n" "c_mal s = []"
    using assms(1) by (auto simp: at_root_def)
  have x: "get_ffid x s = Some r" using r(1) by (auto simp: at_fid_def bind_eq_Some_conv)
  have same: "set_ffid x (Some (r\<lparr>x_file := root\<rparr>)) s = s"
    using x r(2) by (auto simp: get_ffid_def set_ffid_def intro!: conn.equality ftree.equality)
  have m: "n_mode d AND 7 AND 1 = n_mode d AND 1" by (simp add: and.assoc)
  have "npfile_checkperm (rfs_ops ismember) root (Some u) 1 s = Some (True, s)"
    using r(3,5) m by (simp add: npfile_checkperm_def check_perm_def)
  then have w: "npfile_walk (rfs_ops ismember) a up s =
      do { s \<leftarrow> npfile_decref (rfs_ops ismember) (Some root) s; f \<leftarrow> get_file root s; Some ((True, n_qid f), s) }"
    using r x strdup_unlimited [OF r(7) assms(2)] same by (simp add: npfile_walk_def npfile_find_def upd_ffid_def ref_then)
  let ?s = "set_file root (Some (d\<lparr>n_refcount := n_refcount d - 1\<rparr>)) s"
  show "\<exists>q s'. npfile_walk (rfs_ops ismember) a up s = Some ((True, q), s') \<and> at_root a root (n - 1) s'" if "n \<noteq> 1"
  proof (intro exI conjI)
    show "npfile_walk (rfs_ops ismember) a up s = Some ((True, n_qid d), ?s)" unfolding w using r that by (simp add: npfile_decref_def upd_file_def)
    show "at_root a root (n - 1) ?s" using r by (auto simp: at_root_def at_fid_def)
  qed
  show "npfile_walk (rfs_ops ismember) a up s = None" if "n = 1"
    unfolding w using r that by (auto simp: npfile_decref_def upd_file_def split: option.splits bind_split)
qed

text \<open>
  (C36) Walking to \<^verbatim>\<open>..\<close> at the root frees it. \<^verbatim>\<open>npfile_find\<close> returns the parent without a reference, but \<^verbatim>\<open>npfile_walk\<close> gives the reference of the
  directory it leaves back. The root is its own parent: with each step it loses a reference, and a client that has walked as often as the
  root had references makes the server use a freed file.
\<close>

theorem walk_dotdot_frees_root:
  assumes "at_root a root (int n) s" "0 < n" "np_strdup up = Some (cstr ''..'')"
  shows "(\<exists>s'. walk_up (rfs_ops ismember) up a (n - 1) s = Some s' \<and> refcount_of root s' = Some 1) \<and> walk_up (rfs_ops ismember) up a n s = None"
  using assms(1,2)
proof (induction n arbitrary: s)
  case (Suc n)
  show ?case
  proof (cases "n = 0")
    case True
    then show ?thesis using Suc.prems(1) walk_up_step(2) [OF Suc.prems(1) assms(3)] by (auto simp: at_root_def refcount_of_def)
  next
    case False
    obtain q s' where w: "npfile_walk (rfs_ops ismember) a up s = Some ((True, q), s')" "at_root a root (int n) s'"
      using walk_up_step(1) [OF Suc.prems(1) assms(3), of ismember] False by auto
    then show ?thesis using Suc.IH [OF w(2)] False by (cases n) auto
  qed
qed simp

subsection \<open>Creating\<close>

definition fresh_addrs :: "'u tconn \<Rightarrow> bool" where
  "fresh_addrs s \<longleftrightarrow> (\<forall>b \<ge> c_brk s. get_file b s = None)"

definition new_file :: "addr \<Rightarrow> cstring \<Rightarrow> u32 \<Rightarrow> u64 \<Rightarrow> addr \<Rightarrow> Npfile \<Rightarrow> ptr \<Rightarrow> ptr \<Rightarrow> ptr \<Rightarrow> cstring \<Rightarrow> Npfile" where
  "new_file dir name perm qp e d uid gid prev ext =
     \<lparr>n_refcount = 2, n_parent = Some dir, n_qid = \<lparr>q_type = ucast (drop_bit 24 perm), q_version = 0, q_path = qp\<rparr>, n_mode = perm,
       n_atime = n_atime d, n_mtime = n_mtime d, n_length = 0, n_name = name, n_uid = uid, n_gid = gid, n_muid = uid, n_extension = Some ext, n_excl = False,
       n_ops = Some (if perm AND Dmdir \<noteq> 0 then 1 else 0), n_aux = Some e, n_next = None, n_prev = prev, n_dirfirst = None, n_dirlast = None\<rparr>"

lemma misc_sel [simp]:
  "get_file a (c_brk_update g s) = get_file a s" "get_ffid x (c_brk_update g s) = get_ffid x s" "get_block e (c_brk_update g (t :: rconn)) = get_block e t"
  "get_file a (upd_ramfs h t) = get_file a t" "get_ffid x (upd_ramfs h t) = get_ffid x t" "c_brk (set_block e fl t) = c_brk t" "c_brk (upd_ramfs h t) = c_brk t"
  "get_block e (upd_ramfs (rf_qidpath_update q) t) = get_block e t" "c_mal (upd_ramfs h t) = c_mal t" "c_fids (upd_ramfs h t) = c_fids t"
  "c_ename (upd_ramfs h t) = c_ename t" "c_ename (set_block e fl t) = c_ename t" "get_block e (set_ffid y r t) = get_block e t"
  by (simp_all add: get_file_def get_ffid_def get_block_def upd_ramfs_def set_block_def set_ffid_def)

text \<open>What \<^verbatim>\<open>rfs_create\<close> leaves behind.\<close>

lemma rfs_create_files:
  assumes "get_file dir s = Some d" "0 \<le> n_refcount d" "n_dirlast d = lastp None as" "as \<noteq> [] \<Longrightarrow> get_file (last as) s = Some l" "dir \<notin> set as"
    "c_mal s = []" "fresh_addrs s" "perm AND Dmlink = 0"
  defines "b \<equiv> c_brk s + 1"
  shows "\<exists>s' qp. rfs_create dir name perm uid gid ext s = Some (Some b, s') \<and>
    get_file dir s' = Some (d\<lparr>n_refcount := n_refcount d + 1, n_dirfirst := if as = [] then Some b else n_dirfirst d, n_dirlast := Some b\<rparr>) \<and>
    get_file b s' = Some (new_file dir name perm qp (c_brk s) d uid gid (lastp None as) ext) \<and>
    (as \<noteq> [] \<longrightarrow> get_file (last as) s' = Some (l\<lparr>n_next := Some b\<rparr>)) \<and>
    (\<forall>c. c \<noteq> dir \<and> c \<noteq> b \<and> (as = [] \<or> c \<noteq> last as) \<longrightarrow> get_file c s' = get_file c s) \<and>
    get_block (c_brk s) s' = Some \<lparr>fl_data = [], fl_datasize = 0\<rparr> \<and> (\<forall>x. get_ffid x s' = get_ffid x s) \<and> c_fids s' = c_fids s \<and>
    c_mal s' = [] \<and> c_ename s' = c_ename s \<and> (\<forall>e. e \<noteq> c_brk s \<longrightarrow> get_block e s' = get_block e s)"
proof -
  have b: "get_file b s = None" "b \<noteq> dir" using assms(1,7) by (auto simp: fresh_addrs_def b_def)
  have bl: "as \<noteq> [] \<Longrightarrow> b \<noteq> last as" using assms(4) b(1) by auto
  have dl: "as \<noteq> [] \<Longrightarrow> last as \<noteq> dir" using assms(5) by auto
  have mal: "new_addr t = Some (c_brk t, t\<lparr>c_brk := c_brk t + 1\<rparr>)" if "c_mal t = []" for t :: rconn
    using that by (simp add: new_addr_def take_mal_plenty)
  let ?e = "c_brk s" and ?qp = "rf_qidpath (t_user (c_env s))" and ?ops = "Some (if perm AND Dmdir \<noteq> 0 then 1 else 0) :: nat option"
  define t where "t = upd_ramfs (\<lambda>u. u\<lparr>rf_qidpath := ?qp + 1\<rparr>) (set_block ?e (Some \<lparr>fl_data = [], fl_datasize = 0\<rparr>) (s\<lparr>c_brk := ?e + 1\<rparr>))\<lparr>c_brk := ?e + 2\<rparr>"
  have t: "get_file c t = get_file c s" "get_ffid x t = get_ffid x s" "c_fids t = c_fids s" "c_mal t = []" "c_ename t = c_ename s"
      "get_block e t = (if e = ?e then Some \<lparr>fl_data = [], fl_datasize = 0\<rparr> else get_block e s)" for c x e
    unfolding t_def using assms(6) by simp_all
  define f where "f = new_file dir name perm ?qp ?e d uid gid None ext"
  define d1 where "d1 = d\<lparr>n_refcount := n_refcount d + 1\<rparr>"
  let ?f0 = "f\<lparr>n_refcount := 0, n_uid := n_uid d, n_gid := n_gid d, n_muid := n_uid d, n_extension := None\<rparr>"
  have al: "do { (e, s) \<leftarrow> file_alloc s; let qp = rf_qidpath (t_user (c_env s)); let s = upd_ramfs (\<lambda>u. u\<lparr>rf_qidpath := qp + 1\<rparr>) s;
        (a, s) \<leftarrow> npfile_alloc (Some dir) name perm qp ?ops (Some e) s; k a s } =
      k b (set_file b (Some ?f0) (set_file dir (Some d1) t))" for k :: "addr \<Rightarrow> rconn \<Rightarrow> (ptr \<times> rconn) option"
  proof -
    have qp: "rf_qidpath (t_user (c_env (set_block e fl (s\<lparr>c_brk := n\<rparr>)))) = ?qp" for e fl n by (simp add: set_block_def upd_ramfs_def)
    have "file_alloc s = Some (?e, set_block ?e (Some \<lparr>fl_data = [], fl_datasize = 0\<rparr>) (s\<lparr>c_brk := ?e + 1\<rparr>))" using assms(6) mal by (simp add: file_alloc_def)
    moreover have "npfile_alloc (Some dir) name perm ?qp ?ops (Some ?e)
        (upd_ramfs (\<lambda>u. u\<lparr>rf_qidpath := ?qp + 1\<rparr>) (set_block ?e (Some \<lparr>fl_data = [], fl_datasize = 0\<rparr>) (s\<lparr>c_brk := ?e + 1\<rparr>))) =
        Some (b, set_file b (Some ?f0) (set_file dir (Some d1) t))"
      using assms(1,2,6) b
      by (simp add: npfile_alloc_def mal npfile_incref_def upd_file_def t_def f_def new_file_def d1_def b_def)
    ultimately show ?thesis by (simp add: qp)
  qed
  let ?last = "\<lambda>s. case n_dirlast d of
      Some l \<Rightarrow> do { s \<leftarrow> upd_file l (\<lambda>f. f\<lparr>n_next := Some b\<rparr>) s; upd_file b (\<lambda>f. f\<lparr>n_prev := Some l\<rparr>) s }
    | None \<Rightarrow> upd_file dir (\<lambda>f. f\<lparr>n_dirfirst := Some b\<rparr>) s"
  have cr: "rfs_create dir name perm uid gid ext s =
      do { s \<leftarrow> ?last (set_file b (Some (f\<lparr>n_extension := None\<rparr>)) (set_file dir (Some d1) t));
           s \<leftarrow> upd_file dir (\<lambda>f. f\<lparr>n_dirlast := Some b\<rparr>) s;
           s \<leftarrow> upd_file b (\<lambda>f. f\<lparr>n_extension := Some ext\<rparr>) s;
           Some (Some b, s) }"
    unfolding rfs_create_def al using assms(8) b(2)
    by (cases "perm AND Dmdir = 0"; cases "n_dirlast d") (simp_all add: upd_file_def npfile_incref_def f_def new_file_def d1_def)
  have f: "f\<lparr>n_extension := Some ext\<rparr> = f" "f\<lparr>n_prev := p, n_extension := Some ext\<rparr> = new_file dir name perm ?qp ?e d uid gid p ext"
      "new_file dir name perm ?qp ?e d uid gid None ext = f" for p
    by (simp_all add: f_def new_file_def)
  show ?thesis
  proof (cases "as = []")
    case True
    let ?s = "set_file b (Some f) (set_file dir (Some (d1\<lparr>n_dirfirst := Some b, n_dirlast := Some b\<rparr>)) (set_file b (Some (f\<lparr>n_extension := None\<rparr>)) (set_file dir (Some d1) t)))"
    have "rfs_create dir name perm uid gid ext s = Some (Some b, ?s)" unfolding cr using True assms(3) b(2) f(1) by (simp add: upd_file_def)
    then show ?thesis using True b t f(3) by (intro exI [of _ ?s] exI [of _ ?qp]) (simp add: d1_def)
  next
    case False
    let ?p = "last as"
    let ?s = "set_file b (Some (new_file dir name perm ?qp ?e d uid gid (Some ?p) ext)) (set_file dir (Some (d1\<lparr>n_dirlast := Some b\<rparr>))
      (set_file b (Some (f\<lparr>n_extension := None, n_prev := Some ?p\<rparr>)) (set_file ?p (Some (l\<lparr>n_next := Some b\<rparr>))
      (set_file b (Some (f\<lparr>n_extension := None\<rparr>)) (set_file dir (Some d1) t)))))"
    have "rfs_create dir name perm uid gid ext s = Some (Some b, ?s)"
      unfolding cr using False assms(3,4) b bl dl t f(2) by (simp add: upd_file_def lastp_def)
    then show ?thesis using False assms(3,4) b bl dl t by (intro exI [of _ ?s] exI [of _ ?qp]) (simp add: d1_def lastp_def)
  qed
qed

text \<open>The new file is the last of its directory; other directories keep their files.\<close>

lemma create_entries:
  assumes "entries dir as s" "get_file dir s = Some d" "b \<notin> set as" "b \<noteq> dir"
    "get_file dir s' = Some d'" "n_dirfirst d' = (if as = [] then Some b else n_dirfirst d)" "n_dirlast d' = Some b" "n_mode d' = n_mode d" "n_ops d' = n_ops d"
    "get_file b s' = Some f" "n_next f = None" "n_prev f = lastp None as" "n_parent f = Some dir" "1 \<le> n_refcount f"
    "as \<noteq> [] \<longrightarrow> (\<exists>l. get_file (last as) s = Some l \<and> get_file (last as) s' = Some (l\<lparr>n_next := Some b\<rparr>))"
    "\<forall>c. c \<noteq> dir \<and> c \<noteq> b \<and> (as = [] \<or> c \<noteq> last as) \<longrightarrow> get_file c s' = get_file c s"
  shows "entries dir (as @ [b]) s'"
proof -
  have d: "isdir d" "n_ops d \<noteq> None" "nl.dl (files s) None (n_dirfirst d) as None" "distinct (dir # as)" using assms(1,2) by (auto simp: entries_def)
  have "nl.dl (files s') None (if as = [] then Some b else n_dirfirst d) (as @ [b]) None"
  proof (cases as rule: rev_cases)
    case Nil
    then show ?thesis using assms(10-12) by (auto simp: get_file_def)
  next
    case (snoc us a)
    obtain l where l: "get_file a s = Some l" "get_file a s' = Some (l\<lparr>n_next := Some b\<rparr>)" using assms(15) snoc by auto
    have us: "nl.dl (files s) None (n_dirfirst d) us (Some a)" "n_prev l = lastp None us" using d(3) snoc l(1) by (auto simp: dseg_append get_file_def)
    have "nl.dl (files s') None (n_dirfirst d) us (Some a)"
    proof (rule dl_links_cong [OF us(1)])
      fix c g assume "c \<in> set us" "files s c = Some g"
      moreover then have "c \<noteq> dir" "c \<noteq> b" "c \<noteq> a" using d(4) assms(3) snoc by auto
      ultimately show "\<exists>h. files s' c = Some h \<and> n_next h = n_next g \<and> n_prev h = n_prev g" using assms(16) snoc by (auto simp: get_file_def)
    qed
    then show ?thesis using us(2) l(2) assms(10-12) snoc by (auto simp: dseg_append get_file_def)
  qed
  moreover have "\<exists>g. get_file c s' = Some g \<and> 1 \<le> n_refcount g \<and> n_parent g = Some dir" if "c \<in> set as" for c
  proof -
    obtain g where g: "get_file c s = Some g" "1 \<le> n_refcount g" "n_parent g = Some dir" using assms(1) \<open>c \<in> set as\<close> by (auto simp: entries_def)
    have "c \<noteq> dir" "c \<noteq> b" using d(4) assms(3) that by auto
    then show ?thesis using g assms(15,16) that by (cases "c = last as") auto
  qed
  ultimately show ?thesis using d(1,2,4) assms(3-10,13,14) by (auto simp: entries_def)
qed

lemma other_entries:
  assumes "entries dir as s" "entries dir' as' s" "dir' \<noteq> dir" "get_file b s = None" "get_file dir s = Some d" "get_file dir s' = Some d'"
    "n_next d' = n_next d" "n_prev d' = n_prev d" "n_parent d' = n_parent d" "1 \<le> n_refcount d \<longrightarrow> 1 \<le> n_refcount d'"
    "\<forall>c. c \<noteq> dir \<and> c \<noteq> b \<and> c \<notin> set as \<longrightarrow> get_file c s' = get_file c s"
    "\<forall>c \<in> set as. \<forall>g. get_file c s = Some g \<longrightarrow> (\<exists>h. get_file c s' = Some h \<and> n_dirfirst h = n_dirfirst g \<and> n_dirlast h = n_dirlast g \<and> n_mode h = n_mode g \<and> n_ops h = n_ops g)"
  shows "entries dir' as' s'"
proof -
  have dis: "c \<notin> set as'" if "c \<in> set as" for c
    using assms(1-3) that by (force simp: entries_def)
  obtain e where e: "get_file dir' s = Some e" "isdir e" "n_ops e \<noteq> None" "nl.dl (files s) None (n_dirfirst e) as' None" "n_dirlast e = lastp None as'" "distinct (dir' # as')"
    using assms(2) by (auto simp: entries_def)
  have ch: "\<exists>h. get_file c s' = Some h \<and> n_next h = n_next g \<and> n_prev h = n_prev g \<and> n_parent h = n_parent g \<and> (1 \<le> n_refcount g \<longrightarrow> 1 \<le> n_refcount h)"
    if "c \<in> set as'" "get_file c s = Some g" for c g
    using that dis [of c] assms(4-11) by (cases "c = dir") auto
  have "\<exists>e'. get_file dir' s' = Some e' \<and> n_dirfirst e' = n_dirfirst e \<and> n_dirlast e' = n_dirlast e \<and> n_mode e' = n_mode e \<and> n_ops e' = n_ops e"
    using assms(3,4,11,12) e(1) by (cases "dir' \<in> set as") auto
  moreover have "nl.dl (files s') None (n_dirfirst e) as' None"
    by (rule dl_links_cong [OF e(4)]) (use ch in \<open>fastforce simp: get_file_def\<close>)
  moreover have "\<exists>g. get_file c s' = Some g \<and> 1 \<le> n_refcount g \<and> n_parent g = Some dir'" if "c \<in> set as'" for c
    using assms(2) that ch [OF that] by (force simp: entries_def)
  ultimately show ?thesis using e by (auto simp: entries_def)
qed

lemma created_others:
  assumes "entries dir as s" "get_file dir s = Some d" "b \<notin> set as" "b \<noteq> dir" "get_file b s = None"
    "get_file dir s' = Some d'" "n_next d' = n_next d" "n_prev d' = n_prev d" "n_parent d' = n_parent d" "n_refcount d' = n_refcount d + 1"
    "as \<noteq> [] \<longrightarrow> (\<exists>l. get_file (last as) s = Some l \<and> get_file (last as) s' = Some (l\<lparr>n_next := Some b\<rparr>))"
    "\<forall>c. c \<noteq> dir \<and> c \<noteq> b \<and> (as = [] \<or> c \<noteq> last as) \<longrightarrow> get_file c s' = get_file c s" "dir' \<noteq> dir" "entries dir' as' s"
  shows "entries dir' as' s'"
proof (rule other_entries [OF assms(1,14,13,5,2,6-9)])
  show "\<forall>c. c \<noteq> dir \<and> c \<noteq> b \<and> c \<notin> set as \<longrightarrow> get_file c s' = get_file c s" using assms(12) by (metis last_in_set)
  show "\<forall>c\<in>set as. \<forall>g. get_file c s = Some g \<longrightarrow>
      (\<exists>h. get_file c s' = Some h \<and> n_dirfirst h = n_dirfirst g \<and> n_dirlast h = n_dirlast g \<and> n_mode h = n_mode g \<and> n_ops h = n_ops g)"
  proof (intro ballI allI impI)
    fix c g assume c: "c \<in> set as" "get_file c s = Some g"
    then have "c \<noteq> dir" "c \<noteq> b" using assms(1,3) by (auto simp: entries_def)
    then show "\<exists>h. get_file c s' = Some h \<and> n_dirfirst h = n_dirfirst g \<and> n_dirlast h = n_dirlast g \<and> n_mode h = n_mode g \<and> n_ops h = n_ops g"
      using c assms(11,12) by (cases "c = last as") auto
  qed
qed (use assms(10) in simp)

lemma rcreate_built: "\<exists>rc. np_create_rcreate (Some npfcall0) q n = Inr rc \<and> fc_pkt rc = wire Rcreate NOTAG (encqid q @ enc32 n)"
  using m9p.created [of "MRcreate q n" True npfcall0] by auto

lemma create_open_ok:
  assumes "get_file dir s = Some d" "get_file b s = Some f" "b \<noteq> dir" "n_ops f = Some i" "get_ffid x s = Some r" "c_mal s = []"
  shows "\<exists>rc s' r' e. create_open (rfs_ops ismember) user dir x b mode s = Some (Some rc, s') \<and> fc_pkt rc = wire Rcreate NOTAG (encqid (n_qid f) @ enc32 0) \<and>
    get_file dir s' = Some (npfile_modified user (t_now (c_env s)) d) \<and> get_file b s' = Some (f\<lparr>n_excl := e\<rparr>) \<and>
    (\<forall>c. c \<noteq> dir \<and> c \<noteq> b \<longrightarrow> get_file c s' = get_file c s) \<and> get_ffid x s' = Some r' \<and> x_file r' = b \<and> x_omode r' = uint mode \<and>
    (\<forall>e. get_block e s' = get_block e s) \<and> c_fids s' = c_fids s \<and> c_mal s' = []"
proof -
  obtain rc where rc: "np_create_rcreate (Some npfcall0) (n_qid f) 0 = Inr rc" "fc_pkt rc = wire Rcreate NOTAG (encqid (n_qid f) @ enc32 0)" using rcreate_built by blast
  let ?r = "(if isdir f then r\<lparr>x_file := b, x_diroffset := 0, x_dirent := None\<rparr> else r\<lparr>x_file := b\<rparr>)\<lparr>x_omode := uint mode\<rparr>"
  let ?e = "mode AND Oexcl \<noteq> 0 \<or> n_excl f"
  let ?d = "npfile_modified user (t_now (c_env s)) d"
  let ?s1 = "set_ffid x (Some (r\<lparr>x_file := b, x_omode := uint mode\<rparr>)) (set_file dir (Some ?d) s)"
  define s2 where "s2 = (if mode AND Oexcl \<noteq> 0 then set_file b (Some (f\<lparr>n_excl := True\<rparr>)) ?s1 else ?s1)"
  have s2: "get_file b s2 = Some (f\<lparr>n_excl := ?e\<rparr>)" "get_ffid x s2 = Some (r\<lparr>x_file := b, x_omode := uint mode\<rparr>)" "c_mal s2 = []"
      "get_file dir s2 = Some ?d" "\<And>e. get_block e s2 = get_block e s" "c_fids s2 = c_fids s" "\<And>c. c \<noteq> dir \<Longrightarrow> c \<noteq> b \<Longrightarrow> get_file c s2 = get_file c s"
    using assms(2,3,6) unfolding s2_def by auto
  let ?s = "set_ffid x (Some ?r) s2"
  have b: "build (\<lambda>m. np_create_rcreate m (n_qid f) 0) ?s = Some (Some rc, ?s)" by (rule build_unlimited) (use s2(3) rc in simp_all)
  have st: "upd_file dir (npfile_modified user (t_now (c_env s))) s = Some (set_file dir (Some ?d) s)"
      "upd_ffid x (\<lambda>r. r\<lparr>x_file := b, x_omode := uint mode\<rparr>) (set_file dir (Some ?d) s) = Some ?s1"
      "(if mode AND Oexcl \<noteq> 0 then upd_file b (\<lambda>f. f\<lparr>n_excl := True\<rparr>) ?s1 else Some ?s1) = Some s2"
    using assms(1-3,5) by (simp_all add: upd_file_def upd_ffid_def s2_def)
  have twice: "set_ffid x p (set_ffid x q s2) = set_ffid x p s2" for p q by (simp add: set_ffid_def)
  have "create_open (rfs_ops ismember) user dir x b mode s = Some (Some rc, ?s)"
    unfolding create_open_def st bind.bind_lunit s2(1)
    using assms(4) s2(1,2) b by (simp add: upd_ffid_def rfs_ops_def rfs_fileops_def twice split: if_splits)
  then show ?thesis
    using rc(2) s2 by (intro exI [of _ rc] exI [of _ ?s] exI [of _ ?r] exI [of _ ?e]) simp
qed

lemma append_bit: "(word_of_int (uint mode) :: u32) AND 0x80 = 0" if "mode AND Oappend = 0" for mode :: u8
proof -
  have "(word_of_int (uint mode) :: u32) AND 0x80 = ucast (mode AND 0x80)" by (simp add: unsigned_and_eq)
  then show ?thesis using that by simp
qed

lemma rfs_ops_sel [simp]:
  "op_dir (rfs_ops ismember) i = rfs_dirops" "do_create rfs_dirops = Some rfs_create" "do_remove rfs_dirops = Some rfs_remove"
  "do_destroy rfs_dirops = Some rfs_destroy" "op_file (rfs_ops ismember) i = rfs_fileops" "fo_destroy rfs_fileops = Some rfs_destroy"
  by (simp_all add: rfs_ops_def rfs_dirops_def rfs_fileops_def)

text \<open>\<^verbatim>\<open>npfile_create\<close> up to the call of the directory's \<^verbatim>\<open>create\<close>.\<close>

lemma create_called:
  assumes "entries dir as s" "at_fid a s = Some (user, x, r)" "x_file r = dir" "get_file dir s = Some d" "n_ops d = Some i"
    "np_strdup name = Some nm" "np_strdup extension = Some ext" "nm \<noteq> cstr ''.''" "nm \<noteq> cstr ''..''" "named nm as s = None" "c_mal s = []" "c_ename s = None"
    "npfile_checkperm (rfs_ops ismember) dir user 2 s = Some (True, s)"
    "check_perm (rfs_ops ismember) (create_perm (n_mode d) perm) user (n_gid d) user (mode2perm mode) s = Some (True, s)"
  shows "npfile_create (rfs_ops ismember) a name perm mode extension s =
    do { (p, s) \<leftarrow> rfs_create dir nm (create_perm (n_mode d) perm) user (n_gid d) ext s;
         (case p of None \<Rightarrow> Some (None, s) | Some b \<Rightarrow> create_open (rfs_ops ismember) user dir x b mode s) }"
proof -
  have f: "npfile_find (rfs_ops ismember) dir nm s = Some (None, s)" using find_entries [OF assms(1,9), of ismember] assms(10) by simp
  show ?thesis
    using assms(2-5,8,9,12-14) f strdup_unlimited [OF assms(11,6)] strdup_unlimited [OF assms(11,7)]
    by (simp add: npfile_create_def np_haserror_def)
qed

text \<open>The files after \<^verbatim>\<open>rfs_create\<close> and the end of \<^verbatim>\<open>npfile_create\<close>.\<close>

lemma created_files:
  assumes "entries dir as s" "get_file dir s = Some d" "0 \<le> n_refcount d" "fresh_addrs s" "c_mal s = []" "perm AND Dmlink = 0" "get_ffid x s = Some r"
  defines "b \<equiv> c_brk s + 1"
  shows "\<exists>s1 rc s' f d' r'. rfs_create dir nm perm user gid ext s = Some (Some b, s1) \<and>
    create_open (rfs_ops ismember) user dir x b mode s1 = Some (Some rc, s') \<and> fc_pkt rc = wire Rcreate NOTAG (encqid (n_qid f) @ enc32 0) \<and>
    (get_file b s' = Some f \<and> n_next f = None \<and> n_prev f = lastp None as \<and> n_parent f = Some dir \<and> n_refcount f = 2 \<and> n_name f = nm \<and> n_mode f = perm \<and>
      n_uid f = user \<and> n_length f = 0 \<and> n_ops f \<noteq> None \<and> n_dirfirst f = None \<and> n_dirlast f = None \<and> n_aux f = Some (c_brk s)) \<and>
    (get_file dir s' = Some d' \<and> n_dirfirst d' = (if as = [] then Some b else n_dirfirst d) \<and> n_dirlast d' = Some b \<and> n_mode d' = n_mode d \<and> n_ops d' = n_ops d \<and>
      n_next d' = n_next d \<and> n_prev d' = n_prev d \<and> n_parent d' = n_parent d \<and> n_refcount d' = n_refcount d + 1) \<and>
    (as \<noteq> [] \<longrightarrow> (\<exists>l. get_file (last as) s = Some l \<and> get_file (last as) s' = Some (l\<lparr>n_next := Some b\<rparr>))) \<and>
    (\<forall>c. c \<noteq> dir \<and> c \<noteq> b \<and> (as = [] \<or> c \<noteq> last as) \<longrightarrow> get_file c s' = get_file c s) \<and>
    get_ffid x s' = Some r' \<and> x_file r' = b \<and> x_omode r' = uint mode \<and> get_block (c_brk s) s' = Some \<lparr>fl_data = [], fl_datasize = 0\<rparr> \<and> c_fids s' = c_fids s"
proof -
  have as: "n_dirlast d = lastp None as" "dir \<notin> set as" using assms(1,2) by (auto simp: entries_def)
  obtain l where l: "as \<noteq> [] \<longrightarrow> get_file (last as) s = Some l" "as \<noteq> [] \<longrightarrow> last as \<in> set as"
    using assms(1) by (cases "as = []") (auto simp: entries_def dest: last_in_set)
  have b: "get_file b s = None" using assms(4) by (simp add: fresh_addrs_def b_def)
  have ne: "b \<noteq> dir" "as \<noteq> [] \<longrightarrow> last as \<noteq> b" "as \<noteq> [] \<longrightarrow> last as \<noteq> dir" using b assms(2) l as(2) by auto
  let ?d = "d\<lparr>n_refcount := n_refcount d + 1, n_dirfirst := if as = [] then Some b else n_dirfirst d, n_dirlast := Some b\<rparr>"
  obtain s1 qp where s1: "rfs_create dir nm perm user gid ext s = Some (Some b, s1)" "get_file dir s1 = Some ?d"
      "get_file b s1 = Some (new_file dir nm perm qp (c_brk s) d user gid (lastp None as) ext)"
      "as \<noteq> [] \<longrightarrow> get_file (last as) s1 = Some (l\<lparr>n_next := Some b\<rparr>)"
      "\<forall>c. c \<noteq> dir \<and> c \<noteq> b \<and> (as = [] \<or> c \<noteq> last as) \<longrightarrow> get_file c s1 = get_file c s"
      "get_block (c_brk s) s1 = Some \<lparr>fl_data = [], fl_datasize = 0\<rparr>" "\<forall>x. get_ffid x s1 = get_ffid x s" "c_fids s1 = c_fids s" "c_mal s1 = []"
    using rfs_create_files [of dir s d as l perm nm user gid ext] assms(2-6) as l unfolding b_def by blast
  let ?f = "new_file dir nm perm qp (c_brk s) d user gid (lastp None as) ext"
  have i: "n_ops ?f = Some (if perm AND Dmdir \<noteq> 0 then 1 else 0)" by (simp add: new_file_def)
  have x1: "get_ffid x s1 = Some r" using s1(7) assms(7) by simp
  obtain rc s' r' ex where c: "create_open (rfs_ops ismember) user dir x b mode s1 = Some (Some rc, s')" "fc_pkt rc = wire Rcreate NOTAG (encqid (n_qid ?f) @ enc32 0)"
      "get_file dir s' = Some (npfile_modified user (t_now (c_env s1)) ?d)" "get_file b s' = Some (?f\<lparr>n_excl := ex\<rparr>)"
      "\<forall>c. c \<noteq> dir \<and> c \<noteq> b \<longrightarrow> get_file c s' = get_file c s1" "get_ffid x s' = Some r'" "x_file r' = b" "x_omode r' = uint mode"
      "\<forall>e. get_block e s' = get_block e s1" "c_fids s' = c_fids s1"
    using create_open_ok [OF s1(2,3) ne(1) i x1 s1(9), of ismember user mode] by blast
  show ?thesis
    by (rule exI [of _ s1], rule exI [of _ rc], rule exI [of _ s'], rule exI [of _ "?f\<lparr>n_excl := ex\<rparr>"],
        rule exI [of _ "npfile_modified user (t_now (c_env s1)) ?d"], rule exI [of _ r'])
      (use c s1 l ne in \<open>simp add: new_file_def npfile_modified_def\<close>)
qed

text \<open>
  (C25) Creating a file. Let a fid stand for a directory, let no file in it have the name, and let the user have the permissions
  \<^verbatim>\<open>npfile_create\<close> asks for. The Tcreate is answered with an Rcreate; the directory has one file more, a new one at its end with the
  name; other directories keep their files. The fid moves to the new file, which is an empty directory or an empty file, opened.
\<close>

theorem ramfs_create:
  assumes "entries dir as s" "at_fid a s = Some (user, x, r)" "x_file r = dir" "get_file dir s = Some d" "0 \<le> n_refcount d" "fresh_addrs s"
    "np_strdup name = Some nm" "np_strdup extension = Some ext" "nm \<noteq> cstr ''.''" "nm \<noteq> cstr ''..''" "named nm as s = None" "c_mal s = []" "c_ename s = None"
    "npfile_checkperm (rfs_ops ismember) dir user 2 s = Some (True, s)"
    "check_perm (rfs_ops ismember) (create_perm (n_mode d) perm) user (n_gid d) user (mode2perm mode) s = Some (True, s)"
    "create_perm (n_mode d) perm AND Dmlink = 0" "mode AND Oappend = 0"
  shows "\<exists>rc s' b f. npfile_create (rfs_ops ismember) a name perm mode extension s = Some (Some rc, s') \<and>
    fc_pkt rc = wire Rcreate NOTAG (encqid (n_qid f) @ enc32 0) \<and> get_file b s = None \<and> entries dir (as @ [b]) s' \<and>
    get_file b s' = Some f \<and> n_name f = nm \<and> n_mode f = create_perm (n_mode d) perm \<and> n_uid f = user \<and>
    (\<exists>r'. at_fid a s' = Some (user, x, r') \<and> x_file r' = b) \<and> (if isdir f then entries b [] s' else opened a b [] s') \<and>
    (\<forall>dir' as'. dir' \<noteq> dir \<and> entries dir' as' s \<longrightarrow> entries dir' as' s')"
proof -
  let ?p = "create_perm (n_mode d) perm" and ?b = "c_brk s + 1"
  obtain i where i: "n_ops d = Some i" "dir \<notin> set as" using assms(1,4) by (auto simp: entries_def)
  have x: "get_ffid x s = Some r" using assms(2) by (auto simp: at_fid_def bind_eq_Some_conv)
  have b: "get_file ?b s = None" using assms(6) by (simp add: fresh_addrs_def)
  have ne: "?b \<notin> set as" "?b \<noteq> dir" using b assms(1,4) by (auto simp: entries_def)
  obtain s1 rc s' f d' r' where c: "rfs_create dir nm ?p user (n_gid d) ext s = Some (Some ?b, s1)"
      "create_open (rfs_ops ismember) user dir x ?b mode s1 = Some (Some rc, s')" "fc_pkt rc = wire Rcreate NOTAG (encqid (n_qid f) @ enc32 0)"
    and f: "get_file ?b s' = Some f" "n_next f = None" "n_prev f = lastp None as" "n_parent f = Some dir" "n_refcount f = 2" "n_name f = nm" "n_mode f = ?p"
      "n_uid f = user" "n_length f = 0" "n_ops f \<noteq> None" "n_dirfirst f = None" "n_dirlast f = None" "n_aux f = Some (c_brk s)"
    and d': "get_file dir s' = Some d'" "n_dirfirst d' = (if as = [] then Some ?b else n_dirfirst d)" "n_dirlast d' = Some ?b" "n_mode d' = n_mode d" "n_ops d' = n_ops d"
      "n_next d' = n_next d" "n_prev d' = n_prev d" "n_parent d' = n_parent d" "n_refcount d' = n_refcount d + 1"
    and l: "as \<noteq> [] \<longrightarrow> (\<exists>l. get_file (last as) s = Some l \<and> get_file (last as) s' = Some (l\<lparr>n_next := Some ?b\<rparr>))"
    and o: "\<forall>c. c \<noteq> dir \<and> c \<noteq> ?b \<and> (as = [] \<or> c \<noteq> last as) \<longrightarrow> get_file c s' = get_file c s"
    and r': "get_ffid x s' = Some r'" "x_file r' = ?b" "x_omode r' = uint mode" "get_block (c_brk s) s' = Some \<lparr>fl_data = [], fl_datasize = 0\<rparr>" "c_fids s' = c_fids s"
    using created_files [OF assms(1,4,5,6,12,16) x, of nm user "n_gid d" ext ismember mode] by (elim exE conjE) (rule that)
  have "npfile_create (rfs_ops ismember) a name perm mode extension s = Some (Some rc, s')"
    using create_called [OF assms(1-4) i(1) assms(7-15)] c(1,2) by simp
  moreover have "entries dir (as @ [?b]) s'"
    by (rule create_entries [OF assms(1,4) ne d'(1-5) f(1-4) _ l o]) (use f(5) in simp)
  moreover have at: "at_fid a s' = Some (user, x, r')" using assms(2) r'(1,5) by (auto simp: at_fid_def bind_eq_Some_conv)
  moreover have "entries ?b [] s'" if "isdir f" using that f by (simp add: entries_def)
  moreover have "opened a ?b [] s'" if "\<not> isdir f"
    using that at f r' append_bit [OF assms(17)] by (auto simp: opened_def holds_file_def block_def)
  moreover have "entries dir' as' s'" if "dir' \<noteq> dir" "entries dir' as' s" for dir' as'
    by (rule created_others [OF assms(1,4) ne b d'(1,6-9) l o that])
  ultimately show ?thesis
    using c(3) b f(1,6-8) r'(2) by (intro exI [of _ rc] exI [of _ s'] exI [of _ ?b] exI [of _ f]) simp
qed

subsection \<open>Removing\<close>

lemma last_neq_hd: "distinct (xs @ b # ys) \<Longrightarrow> xs \<noteq> [] \<Longrightarrow> ys \<noteq> [] \<Longrightarrow> last xs \<noteq> hd ys"
  using last_in_set [of xs] hd_in_set [of ys] by (metis disjoint_iff distinct_append list.set_intros(2))

text \<open>What \<^verbatim>\<open>rfs_remove\<close> leaves behind.\<close>

lemma rfs_remove_files:
  assumes "get_file dir s = Some d" "get_file b s = Some f" "b \<noteq> dir" "n_dirfirst d = Some b \<longleftrightarrow> xs = []"
    "n_prev f = lastp None xs" "n_next f = (if ys = [] then None else Some (hd ys))" "n_dirlast d = Some b \<longleftrightarrow> ys = []" "distinct (dir # xs @ b # ys)"
    "xs \<noteq> [] \<longrightarrow> get_file (last xs) s = Some p" "ys \<noteq> [] \<longrightarrow> get_file (hd ys) s = Some q"
  shows "\<exists>s'. rfs_remove dir b s = Some (1, s') \<and>
    get_file dir s' = Some (d\<lparr>n_dirfirst := if xs = [] then n_next f else n_dirfirst d, n_dirlast := if ys = [] then n_prev f else n_dirlast d\<rparr>) \<and>
    get_file b s' = Some (f\<lparr>n_prev := None, n_next := None, n_parent := None\<rparr>) \<and>
    (xs \<noteq> [] \<longrightarrow> get_file (last xs) s' = Some (p\<lparr>n_next := n_next f\<rparr>)) \<and> (ys \<noteq> [] \<longrightarrow> get_file (hd ys) s' = Some (q\<lparr>n_prev := n_prev f\<rparr>)) \<and>
    (\<forall>c. c \<noteq> dir \<and> c \<noteq> b \<and> (xs = [] \<or> c \<noteq> last xs) \<and> (ys = [] \<or> c \<noteq> hd ys) \<longrightarrow> get_file c s' = get_file c s) \<and>
    (\<forall>x. get_ffid x s' = get_ffid x s) \<and> c_fids s' = c_fids s \<and> c_mal s' = c_mal s"
proof -
  let ?n = "n_next f" and ?v = "n_prev f"
  have l: "xs \<noteq> [] \<longrightarrow> last xs \<noteq> dir \<and> last xs \<noteq> b \<and> (ys \<noteq> [] \<longrightarrow> last xs \<noteq> hd ys)" "ys \<noteq> [] \<longrightarrow> hd ys \<noteq> dir \<and> hd ys \<noteq> b"
    using assms(8) last_neq_hd [of xs b ys] by auto
  let ?d1 = "d\<lparr>n_dirfirst := if xs = [] then ?n else n_dirfirst d\<rparr>"
  define s1 where "s1 = (if xs = [] then set_file dir (Some (d\<lparr>n_dirfirst := ?n\<rparr>)) s else set_file (last xs) (Some (p\<lparr>n_next := ?n\<rparr>)) s)"
  define s2 where "s2 = (if ys = [] then s1 else set_file (hd ys) (Some (q\<lparr>n_prev := ?v\<rparr>)) s1)"
  let ?d2 = "if ys = [] then ?d1\<lparr>n_dirlast := ?v\<rparr> else ?d1"
  let ?s = "set_file b (Some (f\<lparr>n_prev := None, n_next := None, n_parent := None\<rparr>)) (set_file dir (Some ?d2) s2)"
  have s2: "get_file dir s2 = Some ?d1" "get_file b s2 = Some f" "xs \<noteq> [] \<longrightarrow> get_file (last xs) s2 = Some (p\<lparr>n_next := ?n\<rparr>)"
      "ys \<noteq> [] \<longrightarrow> get_file (hd ys) s2 = Some (q\<lparr>n_prev := ?v\<rparr>)" "get_ffid x s2 = get_ffid x s" "c_fids s2 = c_fids s" "c_mal s2 = c_mal s" for x
    using assms(1-3) l by (auto simp: s1_def s2_def)
  have o: "get_file c s2 = get_file c s" if "c \<noteq> dir" "xs = [] \<or> c \<noteq> last xs" "ys = [] \<or> c \<noteq> hd ys" for c using that by (auto simp: s1_def s2_def)
  have "(if n_dirfirst d = Some b then upd_file dir (\<lambda>g. g\<lparr>n_dirfirst := ?n\<rparr>) s else do { p \<leftarrow> ?v; upd_file p (\<lambda>g. g\<lparr>n_next := ?n\<rparr>) s }) = Some s1"
    using assms(1,4,5,9) by (auto simp: s1_def upd_file_def lastp_def)
  moreover have "(case ?n of None \<Rightarrow> Some s1 | Some c \<Rightarrow> upd_file c (\<lambda>g. g\<lparr>n_prev := ?v\<rparr>) s1) = Some s2"
    using assms(6,10) l by (auto simp: s1_def s2_def upd_file_def)
  moreover have "upd_file dir (\<lambda>g. if n_dirlast g = Some b then g\<lparr>n_dirlast := ?v\<rparr> else g) s2 = Some (set_file dir (Some ?d2) s2)"
    using s2(1) assms(7) by (auto simp: upd_file_def)
  ultimately have "rfs_remove dir b s = Some (1, ?s)"
    using assms(1-3) s2(2) unfolding rfs_remove_def by (simp add: upd_file_def [of b])
  then show ?thesis using s2 o assms(3) l by (intro exI [of _ ?s]) (cases "xs = []"; cases "ys = []"; auto)
qed

lemma removed_entries:
  assumes "entries dir (xs @ b # ys) s" "get_file dir s = Some d" "get_file b s = Some f"
    "get_file dir s' = Some d'" "n_dirfirst d' = (if xs = [] then n_next f else n_dirfirst d)" "n_dirlast d' = (if ys = [] then n_prev f else n_dirlast d)"
    "n_mode d' = n_mode d" "n_ops d' = n_ops d"
    "xs \<noteq> [] \<longrightarrow> get_file (last xs) s = Some p \<and> get_file (last xs) s' = Some (p\<lparr>n_next := n_next f\<rparr>)"
    "ys \<noteq> [] \<longrightarrow> get_file (hd ys) s = Some q \<and> get_file (hd ys) s' = Some (q\<lparr>n_prev := n_prev f\<rparr>)"
    "\<forall>c. c \<noteq> dir \<and> c \<noteq> b \<and> (xs = [] \<or> c \<noteq> last xs) \<and> (ys = [] \<or> c \<noteq> hd ys) \<longrightarrow> get_file c s' = get_file c s"
  shows "entries dir (xs @ ys) s'"
proof -
  have d: "isdir d" "n_ops d \<noteq> None" "nl.dl (files s) None (n_dirfirst d) (xs @ b # ys) None" "n_dirlast d = lastp None (xs @ b # ys)"
      "distinct (dir # xs @ b # ys)" "distinct (xs @ b # ys)"
    using assms(1,2) by (auto simp: entries_def)
  have fb: "files s b = Some f" using assms(3) by (simp add: get_file_def)
  note links = dseg_prev [OF d(3) fb]
  obtain h where h: "unlink n_next n_prev set_n_next set_n_prev (files s) b = Some h" "nl.dl h None (if xs = [] then n_next f else n_dirfirst d) (xs @ ys) None"
    using nl.unlink_dl [OF d(3,6) fb] by auto
  have l: "\<not> (xs \<noteq> [] \<and> ys \<noteq> [] \<and> last xs = hd ys)" using last_neq_hd [OF d(6)] by blast
  have hc: "h c = (if ys \<noteq> [] \<and> c = hd ys then Some (q\<lparr>n_prev := n_prev f\<rparr>) else if xs \<noteq> [] \<and> c = last xs then Some (p\<lparr>n_next := n_next f\<rparr>) else files s c)" for c
    using h(1) assms(9,10) l fb unfolding unlink_def
    by (cases "xs = []"; cases "ys = []") (auto simp: links lastp_def get_file_def set_n_next_def set_n_prev_def)
  have "h c = files s' c" if "c \<in> set (xs @ ys)" for c
    using hc [of c] assms(9-11) that d(5) by (auto simp: get_file_def)
  then have "nl.dl (files s') None (n_dirfirst d') (xs @ ys) None" using h(2) dseg_cong [of "xs @ ys" h "files s'"] assms(5) by simp
  moreover have "n_dirlast d' = lastp None (xs @ ys)" using assms(6) d(4) links(1) by (simp add: lastp_def)
  moreover have "\<exists>g. get_file c s' = Some g \<and> 1 \<le> n_refcount g \<and> n_parent g = Some dir" if "c \<in> set (xs @ ys)" for c
  proof -
    obtain g where g: "get_file c s = Some g" "1 \<le> n_refcount g" "n_parent g = Some dir" using assms(1) \<open>c \<in> set (xs @ ys)\<close> by (auto simp: entries_def)
    have "c \<noteq> dir" "c \<noteq> b" using d(5) that by auto
    then show ?thesis using g assms(9-11) l by (cases "xs \<noteq> [] \<and> c = last xs"; cases "ys \<noteq> [] \<and> c = hd ys") auto
  qed
  ultimately show ?thesis using d(1,2,5) assms(4,7,8) by (auto simp: entries_def)
qed

lemma rremove_built: "\<exists>rc. np_create_rremove (Some npfcall0) = Inr rc \<and> fc_pkt rc = wire Rremove NOTAG []"
  using m9p.created [of MRremove True npfcall0] by auto

lemma remove_called:
  assumes "at_fid a s = Some (user, x, r)" "x_file r = b" "get_file b s = Some f" "\<not> isdir f \<or> entries b [] s" "n_parent f = Some dir" "get_file dir s = Some d"
    "n_ops d \<noteq> None" "npfile_checkperm (rfs_ops ismember) dir user 2 s = Some (True, s)"
  shows "npfile_remove (rfs_ops ismember) a s =
    do { (n, s) \<leftarrow> rfs_remove dir b s;
         if n = 0 then Some (None, s)
         else
           do { s \<leftarrow> upd_file dir (npfile_modified user (t_now (c_env s))) s;
                s \<leftarrow> npfile_decref (rfs_ops ismember) (Some b) s;
                s \<leftarrow> npfile_decref (rfs_ops ismember) (Some dir) s;
                build (\<lambda>m. np_create_rremove m) s } }"
proof -
  have first: "do_first rfs_dirops = Some rfs_first" by (simp add: rfs_dirops_def)
  have none: "rfs_first b s = Some (None, s) \<and> n_ops f \<noteq> None" if "isdir f"
    using that assms(3,4) by (auto simp: rfs_first_def entries_def npfile_incref_def)
  obtain i where "n_ops d = Some i" using assms(7) by auto
  then show ?thesis using assms none by (cases "isdir f") (auto simp: npfile_remove_def first)
qed

lemma decref_keeps:
  "get_file a s = Some f \<Longrightarrow> n_refcount f \<noteq> 1 \<Longrightarrow> npfile_decref tb (Some a) s = Some (set_file a (Some (f\<lparr>n_refcount := n_refcount f - 1\<rparr>)) s)"
  by (simp add: npfile_decref_def upd_file_def)

text \<open>The end of \<^verbatim>\<open>npfile_remove\<close>.\<close>

lemma remove_finished:
  assumes "get_file dir s = Some d" "get_file b s = Some f" "b \<noteq> dir" "n_refcount d \<noteq> 1" "n_refcount f \<noteq> 1" "c_mal s = []"
  shows "\<exists>rc s'. do { s \<leftarrow> upd_file dir (npfile_modified user now) s;
        s \<leftarrow> npfile_decref tb (Some b) s;
        s \<leftarrow> npfile_decref tb (Some dir) s;
        build (\<lambda>m. np_create_rremove m) s } = Some (Some rc, s') \<and> fc_pkt rc = wire Rremove NOTAG [] \<and>
    get_file dir s' = Some ((npfile_modified user now d)\<lparr>n_refcount := n_refcount d - 1\<rparr>) \<and>
    get_file b s' = Some (f\<lparr>n_refcount := n_refcount f - 1\<rparr>) \<and> (\<forall>c. c \<noteq> dir \<and> c \<noteq> b \<longrightarrow> get_file c s' = get_file c s)"
proof -
  obtain rc where rc: "np_create_rremove (Some npfcall0) = Inr rc" "fc_pkt rc = wire Rremove NOTAG []" using rremove_built by blast
  let ?d = "npfile_modified user now d"
  define s' where "s' = set_file dir (Some (?d\<lparr>n_refcount := n_refcount d - 1\<rparr>)) (set_file b (Some (f\<lparr>n_refcount := n_refcount f - 1\<rparr>)) (set_file dir (Some ?d) s))"
  have bl: "build (\<lambda>m. np_create_rremove m) s' = Some (Some rc, s')" by (rule build_unlimited) (use rc assms(6) in \<open>simp_all add: s'_def\<close>)
  have d: "n_refcount ?d = n_refcount d" by (simp add: npfile_modified_def)
  have u: "upd_file dir (npfile_modified user now) s = Some (set_file dir (Some ?d) s)" using assms(1) by (simp add: upd_file_def)
  have b: "npfile_decref tb (Some b) (set_file dir (Some ?d) s) = Some (set_file b (Some (f\<lparr>n_refcount := n_refcount f - 1\<rparr>)) (set_file dir (Some ?d) s))"
    by (rule decref_keeps) (use assms(2,3,5) in simp_all)
  have "npfile_decref tb (Some dir) (set_file b (Some (f\<lparr>n_refcount := n_refcount f - 1\<rparr>)) (set_file dir (Some ?d) s)) = Some s'"
    unfolding s'_def d [symmetric] by (rule decref_keeps) (use assms(3,4) d in simp_all)
  then show ?thesis using u b bl rc(2) assms(3) by (intro exI [of _ rc] exI [of _ s']) (simp add: s'_def)
qed

text \<open>
  (C26) Removing a file. Let a fid stand for a file of a directory, which is not a directory with files in it, let the user be allowed
  to write the directory, and let the file and the directory have a reference besides the ones given back. The Tremove is answered with an
  Rremove; the directory has all its other files, in the same order; the file is no longer in a directory; it and the directory
  have one reference less, and files outside the directory are as before.
\<close>

theorem ramfs_remove:
  assumes "entries dir as s" "b \<in> set as" "at_fid a s = Some (user, x, r)" "x_file r = b" "get_file b s = Some f" "\<not> isdir f \<or> entries b [] s"
    "npfile_checkperm (rfs_ops ismember) dir user 2 s = Some (True, s)" "refcount_of dir s = Some n" "2 \<le> n" "2 \<le> n_refcount f" "c_mal s = []"
  shows "\<exists>rc s' f'. npfile_remove (rfs_ops ismember) a s = Some (Some rc, s') \<and> fc_pkt rc = wire Rremove NOTAG [] \<and> entries dir (remove1 b as) s' \<and>
    get_file b s' = Some f' \<and> n_parent f' = None \<and> n_refcount f' = n_refcount f - 1 \<and> refcount_of dir s' = Some (n - 1) \<and>
    (\<forall>c. c \<noteq> dir \<and> c \<notin> set as \<longrightarrow> get_file c s' = get_file c s)"
proof -
  obtain xs ys where as: "as = xs @ b # ys" "b \<notin> set xs" using split_list_first [OF assms(2)] by blast
  obtain d where d: "get_file dir s = Some d" "n_refcount d = n" using assms(8) by (auto simp: refcount_of_def)
  have e: "isdir d" "n_ops d \<noteq> None" "nl.dl (files s) None (n_dirfirst d) (xs @ b # ys) None" "n_dirlast d = lastp None (xs @ b # ys)" "distinct (dir # xs @ b # ys)"
      "n_parent f = Some dir"
    using assms(1,5) as(1) d(1) by (auto simp: entries_def)
  have ne: "b \<noteq> dir" "xs \<noteq> [] \<longrightarrow> last xs \<in> set xs" "ys \<noteq> [] \<longrightarrow> hd ys \<in> set ys" using e(5) by auto
  have al: "\<exists>g. get_file c s = Some g" if "c \<in> set xs \<union> set ys" for c using assms(1) as(1) that by (auto simp: entries_def)
  obtain p q where pq: "xs \<noteq> [] \<longrightarrow> get_file (last xs) s = Some p" "ys \<noteq> [] \<longrightarrow> get_file (hd ys) s = Some q"
    using al [of "last xs"] al [of "hd ys"] ne(2,3) by blast
  have links: "n_prev f = lastp None xs" "n_next f = (if ys = [] then None else Some (hd ys))" using dseg_prev [OF e(3)] assms(5) by (simp_all add: get_file_def)
  have first: "n_dirfirst d = Some b \<longleftrightarrow> xs = []" using dseg_head [OF e(3)] as(2) hd_in_set [of xs] by (cases xs) auto
  have lst: "n_dirlast d = Some b \<longleftrightarrow> ys = []" using e(4,5) last_in_set [of ys] by (cases "ys = []") (auto simp: lastp_def)
  obtain s1 where s1: "rfs_remove dir b s = Some (1, s1)"
      "get_file dir s1 = Some (d\<lparr>n_dirfirst := if xs = [] then n_next f else n_dirfirst d, n_dirlast := if ys = [] then n_prev f else n_dirlast d\<rparr>)"
      "get_file b s1 = Some (f\<lparr>n_prev := None, n_next := None, n_parent := None\<rparr>)"
      "xs \<noteq> [] \<longrightarrow> get_file (last xs) s1 = Some (p\<lparr>n_next := n_next f\<rparr>)" "ys \<noteq> [] \<longrightarrow> get_file (hd ys) s1 = Some (q\<lparr>n_prev := n_prev f\<rparr>)"
      "\<forall>c. c \<noteq> dir \<and> c \<noteq> b \<and> (xs = [] \<or> c \<noteq> last xs) \<and> (ys = [] \<or> c \<noteq> hd ys) \<longrightarrow> get_file c s1 = get_file c s" "c_mal s1 = c_mal s"
    using rfs_remove_files [OF d(1) assms(5) ne(1) first links lst e(5) pq] by blast
  define d1 where "d1 = d\<lparr>n_dirfirst := if xs = [] then n_next f else n_dirfirst d, n_dirlast := if ys = [] then n_prev f else n_dirlast d\<rparr>"
  define f1 where "f1 = f\<lparr>n_prev := None, n_next := None, n_parent := None\<rparr>"
  note g = s1(2,3) [folded d1_def f1_def]
  have rcs: "n_refcount d1 \<noteq> 1" "n_refcount f1 \<noteq> 1" "c_mal s1 = []" using assms(9-11) d(2) s1(7) by (simp_all add: d1_def f1_def)
  let ?d' = "(npfile_modified user (t_now (c_env s1)) d1)\<lparr>n_refcount := n_refcount d1 - 1\<rparr>"
  obtain rc s' where rc: "npfile_remove (rfs_ops ismember) a s = Some (Some rc, s')" "fc_pkt rc = wire Rremove NOTAG []"
      "get_file dir s' = Some ?d'" "get_file b s' = Some (f1\<lparr>n_refcount := n_refcount f1 - 1\<rparr>)" "\<forall>c. c \<noteq> dir \<and> c \<noteq> b \<longrightarrow> get_file c s' = get_file c s1"
    using remove_finished [OF g ne(1) rcs, of user "t_now (c_env s1)" "rfs_ops ismember"]
      remove_called [OF assms(3-6) e(6) d(1) e(2) assms(7)] s1(1) by auto
  have d': "n_dirfirst ?d' = (if xs = [] then n_next f else n_dirfirst d)" "n_dirlast ?d' = (if ys = [] then n_prev f else n_dirlast d)"
      "n_mode ?d' = n_mode d" "n_ops ?d' = n_ops d"
    by (simp_all add: npfile_modified_def d1_def)
  have x: "xs \<noteq> [] \<longrightarrow> last xs \<noteq> dir \<and> last xs \<noteq> b" "ys \<noteq> [] \<longrightarrow> hd ys \<noteq> dir \<and> hd ys \<noteq> b" using e(5) ne(2,3) by auto
  have "entries dir (xs @ ys) s'"
  proof (rule removed_entries [OF _ d(1) assms(5) rc(3) d'])
    show "entries dir (xs @ b # ys) s" using assms(1) as(1) by simp
    show "xs \<noteq> [] \<longrightarrow> get_file (last xs) s = Some p \<and> get_file (last xs) s' = Some (p\<lparr>n_next := n_next f\<rparr>)" using pq(1) s1(4) rc(5) x(1) by simp
    show "ys \<noteq> [] \<longrightarrow> get_file (hd ys) s = Some q \<and> get_file (hd ys) s' = Some (q\<lparr>n_prev := n_prev f\<rparr>)" using pq(2) s1(5) rc(5) x(2) by simp
    show "\<forall>c. c \<noteq> dir \<and> c \<noteq> b \<and> (xs = [] \<or> c \<noteq> last xs) \<and> (ys = [] \<or> c \<noteq> hd ys) \<longrightarrow> get_file c s' = get_file c s" using s1(6) rc(5) by simp
  qed
  moreover have "get_file c s' = get_file c s" if "c \<noteq> dir" "c \<notin> set as" for c
    using that as(1) s1(6) ne(2,3) rc(5) by auto
  ultimately show ?thesis using rc(1-4) as d(2) by (intro exI [of _ rc] exI [of _ s'] exI [of _ "f1\<lparr>n_refcount := n_refcount f1 - 1\<rparr>"]) (simp add: remove1_append refcount_of_def d1_def f1_def)
qed

subsection \<open>A small tree\<close>

text \<open>A root directory at address 1 with one file at address 4. The fid at address 0 stands for the root, the one at address 10 for the file.\<close>

definition dir_root :: Npfile where
  "dir_root = ram_file\<lparr>n_refcount := 3, n_parent := Some 1, n_mode := 0x800001FF, n_length := 0, n_name := [], n_ops := Some 1, n_aux := None,
     n_dirfirst := Some 4, n_dirlast := Some 4\<rparr>"

definition dir_fid :: "addr \<Rightarrow> Npfid" where
  "dir_fid x = \<lparr>f_fid = 1, f_refcount = 1, f_omode = 0, f_type = 0, f_diroffset = 0, f_user = Some 9, f_aux = Some x, f_next = None, f_prev = None\<rparr>"

definition dir_ffid :: "addr \<Rightarrow> addr \<Rightarrow> Npfilefid" where
  "dir_ffid a b = \<lparr>x_fid = a, x_file = b, x_omode = - 1, x_diroffset = 0, x_dirent = None\<rparr>"

definition dir_conn :: rconn where
  "dir_conn = ram_conn\<lparr>c_fids := [0 \<mapsto> dir_fid 2, 10 \<mapsto> dir_fid 5], c_brk := 20,
     c_env := (c_env ram_conn)\<lparr>t_files := [1 \<mapsto> dir_root, 4 \<mapsto> ram_file\<lparr>n_parent := Some 1\<rparr>], t_ffids := [2 \<mapsto> dir_ffid 0 1, 5 \<mapsto> dir_ffid 10 4]\<rparr>\<rparr>"

lemma dir_conn_files: "get_file a dir_conn = ([1 \<mapsto> dir_root, 4 \<mapsto> ram_file\<lparr>n_parent := Some 1\<rparr>] :: Npfile heap) a" "c_mal dir_conn = []" "c_ename dir_conn = None"
    "get_ffid x dir_conn = ([2 \<mapsto> dir_ffid 0 1, 5 \<mapsto> dir_ffid 10 4] :: Npfilefid heap) x" "c_fids dir_conn = [0 \<mapsto> dir_fid 2, 10 \<mapsto> dir_fid 5]" "c_brk dir_conn = 20"
    "files dir_conn = [1 \<mapsto> dir_root, 4 \<mapsto> ram_file\<lparr>n_parent := Some 1\<rparr>]"
  by (simp_all add: dir_conn_def get_file_def get_ffid_def ram_conn_def)

lemma dir_conn_fids: "at_fid 0 dir_conn = Some (Some 9, 2, dir_ffid 0 1)" "at_fid 10 dir_conn = Some (Some 9, 5, dir_ffid 10 4)"
  by (simp_all add: at_fid_def dir_conn_files dir_fid_def)

lemma dir_conn_entries: "entries 1 [4] dir_conn"
  by (simp add: entries_def dir_conn_files dir_root_def ram_file_def)

lemma dir_conn_perm: "npfile_checkperm (rfs_ops ismember) 1 (Some 9) 1 dir_conn = Some (True, dir_conn)" "npfile_checkperm (rfs_ops ismember) 1 (Some 9) 2 dir_conn = Some (True, dir_conn)"
  by (simp_all add: npfile_checkperm_def check_perm_def dir_conn_files dir_root_def)

abbreviation npstr_of :: "string \<Rightarrow> Npstr" where
  "npstr_of t \<equiv> \<lparr>s_len = of_nat (length t), s_str = Some (cstr t)\<rparr>"

theorem ramfs_walk_witness:
  "\<exists>s' f. npfile_walk (rfs_ops (\<lambda>_ _ _. Some False)) 0 (npstr_of ''f'') dir_conn = Some ((True, n_qid f), s') \<and> get_file 4 dir_conn = Some f \<and>
    at_fid 0 s' = Some (Some 9, 2, dir_ffid 0 4) \<and> entries 1 [4] s' \<and> refcount_of 1 s' = Some 2"
proof -
  have "np_strdup (npstr_of ''f'') = Some (cstr ''f'')" "cstr ''f'' \<noteq> cstr ''..''" by (simp_all add: np_strdup_def cstr_def)
  moreover have "named (cstr ''f'') [4] dir_conn = Some 4" by (simp add: named_def name_of_def dir_conn_files ram_file_def)
  moreover have "refcount_of 1 dir_conn = Some 3" by (simp add: refcount_of_def dir_conn_files dir_root_def)
  ultimately show ?thesis
    using ramfs_walk [OF dir_conn_entries dir_conn_fids(1) _ _ _ dir_conn_files(2,3) dir_conn_perm(1), of "npstr_of ''f''" "cstr ''f''" 3 "\<lambda>_ _ _. Some False"]
    by (auto simp: dir_ffid_def)
qed

theorem walk_dotdot_frees_root_witness:
  "walk_up (rfs_ops (\<lambda>_ _ _. Some False)) (npstr_of ''..'') 0 3 dir_conn = None"
proof -
  have "at_root 0 1 (int 3) dir_conn" by (simp add: at_root_def dir_conn_fids dir_conn_files dir_root_def dir_ffid_def)
  moreover have "np_strdup (npstr_of ''..'') = Some (cstr ''..'')" by (simp add: np_strdup_def cstr_def)
  ultimately show ?thesis using walk_dotdot_frees_root [of 0 1 3 dir_conn "npstr_of ''..''" "\<lambda>_ _ _. Some False"] by simp
qed

theorem ramfs_create_witness:
  "\<exists>rc s' b. npfile_create (rfs_ops (\<lambda>_ _ _. Some False)) 0 (npstr_of ''g'') 0x1A4 1 np_strzero dir_conn = Some (Some rc, s') \<and>
    entries 1 [4, b] s' \<and> name_of b s' = Some (cstr ''g'') \<and> opened 0 b [] s'"
proof -
  have d: "get_file 1 dir_conn = Some dir_root" "0 \<le> n_refcount dir_root" "x_file (dir_ffid 0 1) = 1" "n_mode dir_root = 0x800001FF"
    by (simp_all add: dir_conn_files dir_root_def dir_ffid_def)
  have fr: "fresh_addrs dir_conn" by (simp add: fresh_addrs_def dir_conn_files)
  have n: "np_strdup (npstr_of ''g'') = Some (cstr ''g'')" "np_strdup np_strzero = Some []" "cstr ''g'' \<noteq> cstr ''.''" "cstr ''g'' \<noteq> cstr ''..''"
    by (simp_all add: np_strdup_def np_strzero_def cstr_def)
  have nm: "named (cstr ''g'') [4] dir_conn = None" by (simp add: named_def name_of_def dir_conn_files ram_file_def cstr_def)
  have p: "create_perm (n_mode dir_root) 0x1A4 = 0x1A4" by (simp add: create_perm_def d(4))
  have c: "check_perm (rfs_ops (\<lambda>_ _ _. Some False)) (create_perm (n_mode dir_root) 0x1A4) (Some 9) (n_gid dir_root) (Some 9) (mode2perm 1) dir_conn = Some (True, dir_conn)"
    "create_perm (n_mode dir_root) 0x1A4 AND Dmlink = 0" "(1 :: u8) AND Oappend = 0"
    unfolding p by (simp_all add: check_perm_def mode2perm_def)
  show ?thesis
    using ramfs_create [OF dir_conn_entries dir_conn_fids(1) d(3,1,2) fr n nm dir_conn_files(2,3) dir_conn_perm(2) c] p
    by (auto simp: name_of_def) blast
qed

theorem ramfs_remove_witness:
  "\<exists>rc s'. npfile_remove (rfs_ops (\<lambda>_ _ _. Some False)) 10 dir_conn = Some (Some rc, s') \<and> entries 1 [] s' \<and> refcount_of 1 s' = Some 2"
proof -
  have f: "get_file 4 dir_conn = Some (ram_file\<lparr>n_parent := Some 1\<rparr>)" "x_file (dir_ffid 10 4) = 4" "refcount_of 1 dir_conn = Some 3"
    by (simp_all add: dir_conn_files dir_ffid_def refcount_of_def dir_root_def)
  have g: "\<not> isdir (ram_file\<lparr>n_parent := Some 1\<rparr>) \<or> entries 4 [] dir_conn" "2 \<le> n_refcount (ram_file\<lparr>n_parent := Some 1\<rparr>)" "4 \<in> set [4 :: addr]"
    by (simp_all add: ram_file_def)
  show ?thesis
    using ramfs_remove [OF dir_conn_entries g(3) dir_conn_fids(2) f(2,1) g(1) dir_conn_perm(2) [of "\<lambda>_ _ _. Some False"] f(3) _ g(2) dir_conn_files(2)] by auto
qed

end
