(* ===== verification/Ramfs_Readdir.thy ===== *)
theory Ramfs_Readdir
  imports Ramfs_Dir
begin

text \<open>
  Reading a directory of \<open>Ramfs\<close>: the loop of \<^verbatim>\<open>npfile_read\<close> puts the record of every file into the message, and gives back every
  reference it takes on the way.
\<close>

subsection \<open>One record\<close>

lemma serialize_stat_prefix:
  assumes "length (encwstat w dotu) \<le> k" "k \<le> length buf"
  shows "np_serialize_stat junk w buf (int k) dotu =
    (int (length (encwstat w dotu)), cbf (encwstat w dotu) (drop (length (encwstat w dotu)) (take k buf)) (drop k buf) 0)"
proof -
  have "buf_init buf 0 (int k) = cbf [] (take k buf) (drop k buf) 0"
    using cbf_buf_init [of 0 "[]" "int k" "take k buf" "drop k buf"] assms(2) by simp
  then show ?thesis
    using assms buf_put_wstat_fits [of w dotu "take k buf" "[]" "drop k buf" 0 junk]
    by (simp add: np_serialize_stat_def Let_def size_wstat_body encwstat_length)
qed

lemma drop_take_drop: "l \<le> k \<Longrightarrow> drop l (take k xs) @ drop k xs = drop l xs"
  by (metis append_take_drop_id drop_drop drop_take le_add_diff_inverse2)

lemma put_entry_fits:
  assumes "length pkt = 11 + unat count" "n + length (encwstat w dotu) < unat count" "unat count < 2 ^ 31"
  defines "e \<equiv> encwstat w dotu"
  shows "put_entry junk w count dotu n pkt = Some (int (length e), take (11 + n) pkt @ e @ drop (11 + n + length e) pkt)"
proof -
  let ?k = "unat count - n - 1"
  have "count - of_nat n - 1 = of_nat ?k" using assms(2) by (simp add: of_nat_diff)
  then have k: "sint (count - of_nat n - 1) = int ?k" using assms(3) sint_of_nat_u32 [of ?k] by simp
  define buf where "buf = drop (11 + n) pkt"
  have le: "length e \<le> ?k" "?k \<le> length buf" using assms(1,2) by (simp_all add: e_def buf_def)
  have "np_serialize_stat junk w buf (int ?k) dotu = (int (length e), cbf e (drop (length e) (take ?k buf)) (drop ?k buf) 0)"
    using serialize_stat_prefix [of w dotu ?k buf junk] le unfolding e_def .
  moreover have "drop (length e) buf = drop (11 + n + length e) pkt" by (simp add: buf_def add.commute)
  ultimately show ?thesis unfolding put_entry_def k using drop_take_drop [OF le(1), of buf] by (simp flip: buf_def)
qed

subsection \<open>The loop\<close>

definition record_of :: "bool \<Rightarrow> 'u tconn \<Rightarrow> addr \<Rightarrow> bytes" where
  "record_of dotu s a = (case Option.bind (get_file a s) (\<lambda>f. file2wstat f s) of None \<Rightarrow> [] | Some w \<Rightarrow> encwstat w dotu)"

definition records :: "bool \<Rightarrow> 'u tconn \<Rightarrow> addr list \<Rightarrow> bytes" where
  "records dotu s as = concat (map (record_of dotu s) as)"

definition described :: "'u tconn \<Rightarrow> addr \<Rightarrow> bool" where
  "described s a \<longleftrightarrow> (\<exists>f w. get_file a s = Some f \<and> 1 \<le> n_refcount f \<and> file2wstat f s = Some w)"

lemma set_file_swap: "a \<noteq> b \<Longrightarrow> set_file a f (set_file b g s) = set_file b g (set_file a f s)"
  by (auto simp: set_file_def fun_upd_twist)

lemma users_bump [simp]: "c_users (bump p s) = c_users s" "c_groups (bump p s) = c_groups s"
  by (auto simp: bump_def set_file_def split: option.splits)

lemma file2wstat_bump: "file2wstat (f\<lparr>n_refcount := k\<rparr>) (bump p s) = file2wstat f s"
  by (simp add: file2wstat_def)

text \<open>Going on to the next file takes a reference on it and gives the one on the file before back.\<close>

lemma step_over:
  assumes "get_file a s = Some f" "1 \<le> n_refcount f" "nl.dl (files s) (Some a) (n_next f) as None" "a \<notin> set as" "\<forall>b\<in>set as. described s b"
  shows "\<exists>t. rfs_next dir a (bump (Some a) s) = Some (n_next f, t) \<and> npfile_decref tb (Some a) t = Some (bump (n_next f) s)"
proof (cases as)
  case Nil
  then show ?thesis using assms(1-3) decref_bump [OF assms(1,2)] by (simp add: rfs_next_def bump_def npfile_incref_def)
next
  case (Cons b bs)
  have n: "n_next f = Some b" using assms(3) Cons by simp
  obtain g where g: "get_file b s = Some g" "1 \<le> n_refcount g" "b \<noteq> a" using assms(4,5) Cons by (auto simp: described_def)
  have s: "get_file b (bump (Some a) s) = Some g" "get_file a (bump (Some b) s) = Some f" using g assms(1) by (simp_all add: bump_def)
  have "rfs_next dir a (bump (Some a) s) = Some (Some b, bump (Some b) (bump (Some a) s))"
    using assms(1) n g incref_bump [OF s(1)] by (simp add: rfs_next_def) (simp add: bump_def)
  moreover have "bump (Some b) (bump (Some a) s) = bump (Some a) (bump (Some b) s)" using g assms(1) by (simp add: bump_def set_file_swap [of a b])
  ultimately show ?thesis using n decref_bump [OF s(2) assms(2), of tb] by auto
qed

lemma read_dir_all:
  assumes "nl.dl (files s) pr p as None" "distinct as" "\<forall>a\<in>set as. described s a" "length pkt = 11 + unat count"
    "n + length (records dotu s as) < unat count" "unat count < 2 ^ 31"
  shows "read_dir tb (rfs_next dir) junk count dotu n pkt p (bump p s) =
    Some (n + length (records dotu s as), take (11 + n) pkt @ records dotu s as @ drop (11 + n + length (records dotu s as)) pkt, None, s)"
  using assms
proof (induction as arbitrary: pr p n pkt)
  case Nil
  then show ?case by (subst read_dir.simps) (simp add: records_def)
next
  case (Cons a as)
  obtain f where f: "p = Some a" "get_file a s = Some f" "nl.dl (files s) (Some a) (n_next f) as None" using Cons.prems(1) by (auto simp: get_file_def)
  obtain w where w: "file2wstat f s = Some w" "1 \<le> n_refcount f" using Cons.prems(3) f(2) by (auto simp: described_def)
  let ?e = "encwstat w dotu" and ?r = "records dotu s as"
  have r: "records dotu s (a # as) = ?e @ ?r" using f(2) w(1) by (simp add: records_def record_of_def)
  have e: "put_entry junk w count dotu n pkt = Some (int (length ?e), take (11 + n) pkt @ ?e @ drop (11 + n + length ?e) pkt)"
    by (rule put_entry_fits) (use Cons.prems(4-6) r in auto)
  let ?pkt = "take (11 + n) pkt @ ?e @ drop (11 + n + length ?e) pkt"
  obtain t where t: "rfs_next dir a (bump (Some a) s) = Some (n_next f, t)" "npfile_decref tb (Some a) t = Some (bump (n_next f) s)"
    using step_over [OF f(2) w(2) f(3), of dir tb] Cons.prems(2,3) by auto
  have ne: "length ?e \<noteq> 0" by (simp add: encwstat_def)
  have b: "get_file a (bump (Some a) s) = Some (f\<lparr>n_refcount := n_refcount f + 1\<rparr>)" using f(2) by (simp add: bump_def)
  have "read_dir tb (rfs_next dir) junk count dotu n pkt p (bump p s) =
      read_dir tb (rfs_next dir) junk count dotu (n + length ?e) ?pkt (n_next f) (bump (n_next f) s)"
    using f(1) b w(1) e t ne Cons.prems(5) r by (subst read_dir.simps) (simp add: file2wstat_bump)
  also have "\<dots> = Some (n + length ?e + length ?r, take (11 + (n + length ?e)) ?pkt @ ?r @ drop (11 + (n + length ?e) + length ?r) ?pkt, None, s)"
    by (rule Cons.IH [OF f(3)]) (use Cons.prems(2-6) r in auto)
  also have "take (11 + (n + length ?e)) ?pkt = take (11 + n) pkt @ ?e" using Cons.prems(4,5) r by simp
  also have "drop (11 + (n + length ?e) + length ?r) ?pkt = drop (11 + n + length (?e @ ?r)) pkt" using Cons.prems(4,5) r by (simp add: ac_simps)
  finally show ?case unfolding r by simp
qed

subsection \<open>Tread\<close>

lemma set_ffid_sel [simp]: "c_users (set_ffid x r s) = c_users s" "c_groups (set_ffid x r s) = c_groups s" "c_dotu (set_ffid x r s) = c_dotu s"
  by (simp_all add: set_ffid_def)

lemma bump_set_ffid: "set_ffid x r (bump p s) = bump p (set_ffid x r s)"
  by (cases p) (simp_all add: bump_def set_ffid_def set_file_def get_file_def)

lemma records_set_ffid [simp]: "records dotu (set_ffid x r s) as = records dotu s as" "described (set_ffid x r s) b = described s b"
proof -
  have "record_of dotu (set_ffid x r s) = record_of dotu s" by (simp add: record_of_def file2wstat_def fun_eq_iff)
  then show "records dotu (set_ffid x r s) as = records dotu s as" by (simp add: records_def)
qed (simp add: described_def file2wstat_def)

lemma bump_sel [simp]: "c_dotu (bump p s) = c_dotu s" "get_ffid x (bump p s) = get_ffid x s"
  by (cases p; simp add: bump_def set_file_def get_ffid_def)+

lemma first_bump:
  assumes "entries dir as s" "get_file dir s = Some d"
  shows "rfs_first dir s = Some (n_dirfirst d, bump (n_dirfirst d) s)"
proof (cases as)
  case Nil
  then show ?thesis using assms by (auto simp: entries_def rfs_first_def npfile_incref_def)
next
  case (Cons b bs)
  then obtain f where "n_dirfirst d = Some b" "get_file b s = Some f" "1 \<le> n_refcount f" using assms by (auto simp: entries_def)
  then show ?thesis using assms(2) incref_bump [of b s f] by (simp add: rfs_first_def)
qed

text \<open>
  (C28) Listing a directory. Let a fid stand for a directory and let the stat records of its files, with their users and groups known, fit into
  the count of a Tread with one byte to spare. The Tread at offset 0 is answered with exactly these records, one for each file and in
  the order of the directory; the directory keeps its files, and every file has as many references as before.
\<close>

theorem ramfs_readdir:
  assumes "entries dir as s" "at_fid a s = Some (user, x, r)" "x_file r = dir" "x_dirent r = None" "\<forall>b\<in>set as. described s b" "c_mal s = []"
    "length (records (c_dotu s) s as) < unat count" "unat count + 11 < 2 ^ 31"
  shows "\<exists>rc s'. npfile_read (rfs_ops ismember) junk a 0 count s = Some (Some rc, s') \<and>
    take (unat (fc_size rc)) (fc_pkt rc) = wire Rread NOTAG (enc32 (of_nat (length (records (c_dotu s) s as))) @ records (c_dotu s) s as) \<and>
    entries dir as s' \<and> (\<forall>c. refcount_of c s' = refcount_of c s)"
proof -
  let ?R = "records (c_dotu s) s as"
  obtain d i where d: "get_file dir s = Some d" "isdir d" "n_ops d = Some i" "nl.dl (files s) None (n_dirfirst d) as None" "distinct as"
    using assms(1) by (auto simp: entries_def)
  have x: "get_ffid x s = Some r" using assms(2) by (auto simp: at_fid_def bind_eq_Some_conv)
  obtain fc data where fc: "np_alloc_rread (Some npfcall0) count = Inr fc" "length data = unat count" "fc_count fc = of_nat (unat count)"
      "fc_pkt fc = wire Rread NOTAG (enc32 (of_nat (unat count)) @ data)"
    using np_alloc_rread_built [OF assms(8), of npfcall0] by auto
  have b: "build (\<lambda>m. np_alloc_rread m count) s = Some (Some fc, s)" using build_unlimited [OF assms(6)] fc(1) by simp
  have len: "length (fc_pkt fc) = 11 + unat count" using fc(2,4) by simp
  let ?p = "n_dirfirst d" and ?r = "r\<lparr>x_dirent := n_dirfirst d, x_diroffset := 0\<rparr>"
  let ?s = "set_ffid x (Some ?r) s"
  let ?pkt = "take 11 (fc_pkt fc) @ ?R @ drop (11 + length ?R) (fc_pkt fc)"
  have "nl.dl (files ?s) None ?p as None" using d(4) by simp
  then have l: "read_dir (rfs_ops ismember) (rfs_next dir) junk count (c_dotu s) 0 (fc_pkt fc) ?p (bump ?p ?s) = Some (length ?R, ?pkt, None, ?s)"
    using read_dir_all [OF _ d(5), of ?s None ?p "fc_pkt fc" count 0 "c_dotu s" "rfs_ops ismember" dir junk] assms(5,7,8) len by simp
  have sz: "unat (of_nat (11 + length ?R) :: u32) = 11 + length ?R" using assms(7,8) by (intro unat_of_nat_u32) simp
  have pkt: "?pkt = wire Rread NOTAG (enc32 (of_nat (unat count)) @ ?R @ drop (length ?R) data)" using fc(2,4) assms(7) by (simp add: wire_def of_nat_diff)
  obtain rc where rc: "np_set_rread_count (fc\<lparr>fc_pkt := ?pkt\<rparr>) (of_nat (length ?R)) = Some rc"
      "take (unat (fc_size rc)) (fc_pkt rc) = wire Rread NOTAG (enc32 (of_nat (length ?R)) @ ?R)"
    using set_rread_count_wire [OF assms(8), of "length ?R" "?R @ drop (length ?R) data" "fc\<lparr>fc_pkt := ?pkt\<rparr>" Rread NOTAG] assms(7) fc(2,3) pkt sz by auto
  let ?s2 = "set_ffid x (Some (?r\<lparr>x_diroffset := of_nat (length ?R), x_dirent := None\<rparr>)) ?s"
  let ?s' = "set_file dir (Some (d\<lparr>n_atime := t_now (c_env ?s2)\<rparr>)) ?s2"
  have "npfile_read (rfs_ops ismember) junk a 0 count s = Some (Some rc, ?s')"
  proof -
    have ops: "do_first rfs_dirops = Some rfs_first" "do_next rfs_dirops = Some rfs_next" by (simp_all add: rfs_dirops_def)
    have "upd_ffid x (\<lambda>r. r\<lparr>x_dirent := ?p, x_diroffset := 0\<rparr>) (bump ?p s) = Some (bump ?p ?s)"
      using x by (simp add: upd_ffid_def bump_set_ffid)
    moreover have "get_ffid x (bump ?p ?s) = Some ?r" by simp
    moreover have "upd_ffid x (\<lambda>r. r\<lparr>x_diroffset := x_diroffset r + of_nat (length ?R), x_dirent := None\<rparr>) ?s = Some ?s2" by (simp add: upd_ffid_def)
    moreover have "upd_file dir (\<lambda>f. f\<lparr>n_atime := t_now (c_env ?s2)\<rparr>) ?s2 = Some ?s'" using d(1) by (simp add: upd_file_def)
    ultimately show ?thesis
      using assms(2-4) b d(1-3) ops first_bump [OF assms(1) d(1)] l rc(1) by (simp add: npfile_read_def npfile_decref_def [of _ None])
  qed
  moreover have "entries dir as ?s'" by (rule entries_cong [OF assms(1)]) (use d(1) in \<open>auto simp: same_links_def\<close>)
  ultimately show ?thesis using rc(2) d(1) by (intro exI [of _ rc] exI [of _ ?s']) (simp add: refcount_of_def)
qed

text \<open>The tree of \<open>dir_conn\<close>, with owners.\<close>

definition list_conn :: rconn where
  "list_conn = set_file 4 (Some (ram_file\<lparr>n_parent := Some 1, n_uid := Some 9, n_gid := Some 8, n_muid := Some 9\<rparr>))
     (dir_conn\<lparr>c_users := [9 \<mapsto> \<lparr>u_refcount = 1, u_uname = cstr ''joe'', u_uid = 1000, u_dfltgroup = None, u_groups = [], u_next = None\<rparr>],
       c_groups := [8 \<mapsto> \<lparr>g_refcount = 1, g_gname = cstr ''staff'', g_gid = 50, g_next = None\<rparr>]\<rparr>)"

lemma list_conn_sel: "get_file a list_conn = ([1 \<mapsto> dir_root, 4 \<mapsto> ram_file\<lparr>n_parent := Some 1, n_uid := Some 9, n_gid := Some 8, n_muid := Some 9\<rparr>] :: Npfile heap) a"
    "c_mal list_conn = []" "c_dotu list_conn = True" "c_users list_conn 9 = Some \<lparr>u_refcount = 1, u_uname = cstr ''joe'', u_uid = 1000, u_dfltgroup = None, u_groups = [], u_next = None\<rparr>"
    "c_groups list_conn 8 = Some \<lparr>g_refcount = 1, g_gname = cstr ''staff'', g_gid = 50, g_next = None\<rparr>" "at_fid 0 list_conn = Some (Some 9, 2, dir_ffid 0 1)"
  using dir_conn_files(1) [of a] dir_conn_fids(1)
  by (auto simp: list_conn_def dir_conn_def ram_conn_def set_file_def get_file_def get_ffid_def at_fid_def)

lemma list_conn_entries: "entries 1 [4] list_conn"
  using list_conn_sel(1) by (auto simp: entries_def dir_root_def ram_file_def get_file_def)

theorem ramfs_readdir_witness:
  "\<exists>rc s'. npfile_read (rfs_ops (\<lambda>_ _ _. Some False)) blank_stat 0 0 200 list_conn = Some (Some rc, s') \<and>
    take (unat (fc_size rc)) (fc_pkt rc) = wire Rread NOTAG (enc32 (of_nat (length (records True list_conn [4]))) @ records True list_conn [4]) \<and>
    length (records True list_conn [4]) = 75 \<and> entries 1 [4] s'"
proof -
  have len: "length (records True list_conn [4]) = 75"
    by (simp add: records_def record_of_def list_conn_sel file2wstat_def ram_file_def encwstat_length encwstat_body_def cstr_def encstr_def)
  have d: "\<forall>b\<in>set [4]. described list_conn b" by (simp add: described_def list_conn_sel file2wstat_def ram_file_def)
  have x: "x_file (dir_ffid 0 1) = 1" "x_dirent (dir_ffid 0 1) = None" by (simp_all add: dir_ffid_def)
  show ?thesis
    using ramfs_readdir [OF list_conn_entries list_conn_sel(6) x d list_conn_sel(2), of 200 "\<lambda>_ _ _. Some False" blank_stat] len list_conn_sel(3) by auto
qed

end
