(* ===== verification/Spec2Isabelle.thy ===== *)
theory Spec2Isabelle
  imports Packets Faults Guards Conn_Close Npcwalk Ramfs_Readdir
begin

text \<open>
  \<^bold>\<open>npfs, a library for 9P file servers and clients.\<close>

  A 9P connection carries messages in both directions. The server library (\<^verbatim>\<open>src/libnpfs\<close>) reads messages
  (\<^verbatim>\<open>conn.c\<close>, \<^verbatim>\<open>np.c\<close>), queues a request for each (\<^verbatim>\<open>srv.c\<close>), lets worker threads run the handler for
  the message's type (\<^verbatim>\<open>srv.c\<close>, \<^verbatim>\<open>fcall.c\<close>), which looks up the fids of the connection (\<^verbatim>\<open>fidpool.c\<close>) and its users
  (\<^verbatim>\<open>user.c\<close>, \<^verbatim>\<open>pvusers.c\<close>) and calls the operations of a file server through function pointers, and writes
  the reply. The client library (\<^verbatim>\<open>src/libnpclient\<close>) takes tags and fids from pools (\<^verbatim>\<open>pool.c\<close>), queues
  and writes requests and gives each the response with its tag (\<^verbatim>\<open>fsys.c\<close>).

  \<^bold>\<open>How the code is represented.\<close>
  Integers have the width they have in C (\<open>u8\<close>, \<open>u16\<close>, \<open>u32\<close>, \<open>u64\<close> of \<^verbatim>\<open>Np_Prelude\<close>), so that sizes, counts and
  offsets wrap where the code's do; reference counts and counters that cannot overflow are \<open>int\<close> or \<open>nat\<close>.
  A C string is the list of its bytes. Structures that are linked by pointers live in heaps, maps from addresses
  to records (\<open>Links\<close>); freeing removes the entry. A definition that would touch unallocated memory, or
  loop for ever, has the value \<open>None\<close>; a packet access outside the packet sets \<open>cb_fault\<close>. Loops over linked
  lists are \<open>partial_function (option)\<close>; no definition needs fuel. The other loops, the reader's among them, are
  recursive functions with a termination proof. Allocation failures are inputs (\<open>c_mal\<close> of a connection, the \<open>mem\<close>
  and \<open>fc\<close> arguments). Code behind function pointers is a parameter: the file server, the authentication server
  and the user pool of \<open>Srvops\<close>. What the library relies on there is stated in the locales of \<open>Contract\<close>, and
  these are interpreted on the operations \<^verbatim>\<open>np_srv_create\<close> installs and on the private user pool.

  \<^bold>\<open>The packet layer.\<close>
  \<open>Cbuf\<close> is \<^verbatim>\<open>struct cbuf\<close> of \<^verbatim>\<open>np.c\<close> with its readers and writers, \<open>Npfcall\<close> and \<open>Np_Fields\<close> the structures of
  \<^verbatim>\<open>npfs.h\<close> and the composite fields, \<open>Np_Create\<close> and \<open>Np_Create_L\<close> the constructors \<^verbatim>\<open>np_create_*\<close>,
  \<open>Np_Deserialize\<close> the parser \<^verbatim>\<open>np_deserialize\<close>. \<open>Wire\<close>, \<open>Wire_9P\<close> and \<open>Wire_L\<close> specify the protocol's
  messages independently of the code, as a datatype with an encoding. \<open>Packets\<close> shows that the parser never
  leaves the packet, that constructors and parser are inverse to each other and agree with the
  specification, and where they do not: the exceptions are theorems as well.

  \<^bold>\<open>Fids, users and handlers.\<close>
  \<open>Npstate\<close> is the state of a connection, \<open>Fidpool\<close> the hash table of fids, \<open>Users\<close> the lists of the private user
  pool, \<open>Fcall\<close> and \<open>Fcall_L\<close> every handler of \<^verbatim>\<open>fcall.c\<close> but \<^verbatim>\<open>np_flush\<close> and \<^verbatim>\<open>np_version\<close>, which work on the
  requests (below), and \<open>Srv\<close> the table of handlers, the error replies and the end of a request. \<open>Fidpool_Spec\<close> shows that the hash table implements a
  map from numbers to fids (the locale \<open>fid_store\<close>). \<open>Fcall_Safe\<close>, \<open>Fcall_Inv\<close>, \<open>Fcall_Fids\<close>, \<open>Fcall_Auth\<close> and
  \<open>Serve\<close> show that serving any message, with any file server that keeps its contract, returns, touches no
  freed fid or user and keeps the invariant of the connection. \<open>Guards\<close> shows what every call of the file
  server can rely on. \<open>Faults\<close> has the error replies and the requests that break the reference counts.

  \<^bold>\<open>Requests.\<close>
  \<open>Reqs\<close> has the queue of requests, the list of requests worked on and the pool of unused ones, with flushing and
  responding (\<^verbatim>\<open>srv.c\<close>, \<^verbatim>\<open>np_flush\<close> of \<^verbatim>\<open>fcall.c\<close>, replies and references of \<^verbatim>\<open>conn.c\<close>). \<open>Reqs_Spec\<close>, \<open>Reqs_Inv\<close> and \<open>Reqs_Flush\<close>
  relate them to lists of addresses. \<open>Reqs_Steps\<close> composes them to a state machine of arriving messages, workers and a
  file server that may answer later. A step is one operation of a thread: a message is queued, a request is taken, a Tflush is handled
  and answered, a request is responded to. The C code gives up the server's lock and takes it again inside of \<^verbatim>\<open>np_respond\<close>, and between
  \<^verbatim>\<open>np_flush\<close> and the response; interleavings inside of these steps are not represented.
  \<open>Reqs_Answers\<close> follows what a step writes to the connections. \<open>Reqs_Live\<close> and \<open>Reqs_Order\<close> show the invariant of the machine, that
  everything the workers call returns, that it comes to rest with every request answered or dropped by a flush that is
  answered, and the order of replies. There are at most \<open>n\<close> requests outstanding; the liveness theorems need
  \<open>n \<le> 64\<close>, the size of the pool of requests, and a theorem shows what happens beyond. \<open>Conn\<close> is the loop of the reader of a
  connection: whatever blocks the transport delivers, the messages arrive. \<open>Reset\<close> is the version negotiation with the reset
  of a connection, which works on the requests and on the fids. \<open>Conn_Close\<close> is the whole reader, which closes and resets the connection
  after the loop: a message that is too long ends the connection.

  \<^bold>\<open>The client.\<close>
  \<open>Npcpool\<close> is the bit map of identifiers, \<open>Npcfsys\<close> the queue and the list of pending requests. \<open>Npcfsys_Inv\<close> and
  \<open>Npcfsys_Props\<close> show that outstanding requests have different tags and that a response reaches its
  request, and how cancelling the requests of a fid corrupts the list of pending ones. \<open>Npcio\<close> is a call that waits for its
  response (\<^verbatim>\<open>npc_rpc\<close>) with reading and writing (\<^verbatim>\<open>read.c\<close>, \<^verbatim>\<open>write.c\<close>), \<open>Npcwalk\<close> walking, opening, creating and removing
  (\<^verbatim>\<open>fid.c\<close>, \<^verbatim>\<open>walk.c\<close>, \<^verbatim>\<open>open.c\<close>, \<^verbatim>\<open>remove.c\<close>), both for a client with a single thread and a server that is a function from
  packets to responses. What such a server does is stated by predicates (\<open>serves_file\<close>, \<open>stores_file\<close>, \<open>serves_walk\<close> and others); the theorems
  show that the operations return and do to the server's files what they promise. The end of this theory connects
  the client and the server: what the one sends the other receives.

  \<^bold>\<open>File trees.\<close>
  \<open>Npfile\<close> is the file server of \<^verbatim>\<open>file.c\<close>, which programs fill with files and directories of their own, \<open>Ramfs\<close> the operations of
  \<^verbatim>\<open>fs/ramfs2.c\<close>, one such program, which keeps the files in memory. \<open>Ramfs_Data\<close> shows that its files are lists of bytes, up to the sizes
  the code can count, and what a read far behind the end does; \<open>Ramfs_Dir\<close> that its directories are lists of files, which walking searches and creating
  and removing change, and how walking to \<^verbatim>\<open>..\<close> frees the root; \<open>Ramfs_Readdir\<close> that reading a directory lists all files.

  \<^bold>\<open>Not modelled.\<close>
  Mutexes and condition variables, except that the steps of the state machines are atomic, and that an
  operation is \<open>None\<close> where the code would block on a lock it holds or wait for another thread. The pools of message
  buffers, the creation of connections, the start and end of worker threads and their confinement to a directory
  (\<^verbatim>\<open>np_srv_confine\<close>; a worker that could not be confined takes no requests), the shutdown of a server, failures of the allocations in \<^verbatim>\<open>np_werror\<close>.
  The formatting of messages for debugging (\<^verbatim>\<open>fmt.c\<close>), transports (system calls), the system's user database
  (\<^verbatim>\<open>uxusers.c\<close>, \<^verbatim>\<open>simpleusers.c\<close>), authentication protocols (\<^verbatim>\<open>libnpauth\<close>),
  the client's mounting, directory reading, stat and callback operations, and the file servers in \<^verbatim>\<open>fs\<close> other than \<^verbatim>\<open>ramfs2.c\<close>, \<^verbatim>\<open>libufs\<close> and \<^verbatim>\<open>xfer\<close>.
\<close>

subsection \<open>From the client to the server\<close>

text \<open>
  (C9) Messages get from the client to the server. Take any state the client can reach in which it is connected and
  has nothing left to write, any messages of 9P2000 or 9P2000.u other than Tversion that fit into \<open>msize\<close> bytes (without the Tauth and Tcreate
  of 9P2000.u, which the constructors do not build as specified, see \<open>msg_creatable\<close>), and enough
  free tags. The client builds, queues and writes them all; and however the transport cuts the
  bytes written into blocks, the server's reader ends with one request for each message, in order,
  with the message's type and fields, and with a tag that no other request of the client has.
\<close>

theorem client_to_server:
  assumes "client\<^sup>*\<^sup>* (npc_create_fsys, 0) (fs, n)" "fs_trans fs" "fs_unsent_first fs = None"
    "list_all (sendable msize dotu) ms" "msize < 2 ^ 31" "card (used (fs_tagpool fs)) + length ms \<le> 65535" "reading c q"
  shows "\<exists>fs' tags. send_all dotu fc ms fs = Some fs' \<and> length tags = length ms \<and> distinct tags \<and>
    unat ` set tags \<inter> used (fs_tagpool fs) = {} \<and>
    (\<forall>input. concat (fs_sent fs @ input) = concat (fs_sent fs') \<and> [] \<notin> set input \<longrightarrow>
      (\<exists>fcs q'. np_conn_read c msize dotu fc0 [] input q = Some q' \<and> receive_all (map (Pair c) fcs) q = Some q' \<and>
        list_all2 (parsed dotu) (zip tags ms) fcs))"
proof -
  obtain us ps where l: "fs_lists fs us ps" "fs_tags fs" using client_reach [OF assms(1)] by (auto simp: client_inv_def)
  then have "us = []" using assms(3) by (cases us) (auto simp: fs_lists_def)
  then have "ready_to_send fs" using l assms(2) by (auto simp: ready_to_send_def)
  then obtain fs' tags where s: "send_all dotu fc ms fs = Some fs'" "length tags = length ms" "distinct tags"
      "unat ` set tags \<inter> used (fs_tagpool fs) = {}" "fs_sent fs' = fs_sent fs @ map (packet dotu) (zip tags ms)"
    using send_all_sent [of fs msize dotu ms fc] assms(4-6) by blast
  have fit: "list_all (fits_msize msize dotu) (zip tags ms)"
    using assms(4) by (auto simp: list_all_iff fits_msize_def sendable_def dest!: set_zip_rightD)
  have "\<exists>fcs q'. np_conn_read c msize dotu fc0 [] input q = Some q' \<and> receive_all (map (Pair c) fcs) q = Some q' \<and>
      list_all2 (parsed dotu) (zip tags ms) fcs"
    if "concat (fs_sent fs @ input) = concat (fs_sent fs')" "[] \<notin> set input" for input
    by (rule stream_arrives [OF _ that(2) fit assms(5,7)]) (use that(1) s(5) in simp)
  then show ?thesis using s by blast
qed

theorem client_to_server_witness:
  "\<exists>fs' tags. send_all True npfcall0 [MTread 1 0 8, MTclunk 9] npc_create_fsys = Some fs' \<and> length tags = length [MTread 1 0 8, MTclunk 9] \<and> distinct tags \<and>
    (\<forall>input. concat input = concat (fs_sent fs') \<and> [] \<notin> set input \<longrightarrow>
      (\<exists>fcs q'. np_conn_read 0 8192 True npfcall0 [] input (start conns1) = Some q' \<and>
        receive_all (map (Pair 0) fcs) (start conns1) = Some q' \<and>
        list_all2 (parsed True) (zip tags [MTread 1 0 8, MTclunk 9]) fcs))"
proof -
  have "used (fs_tagpool npc_create_fsys) = {}" by (auto simp: npc_create_fsys_def npc_create_pool_def used_def)
  moreover have "fs_trans npc_create_fsys" "fs_unsent_first npc_create_fsys = None" "fs_sent npc_create_fsys = []"
    by (simp_all add: npc_create_fsys_def)
  ultimately show ?thesis
    using client_to_server [of npc_create_fsys 0 8192 True "[MTread 1 0 8, MTclunk 9]" 0 "start conns1" npfcall0 npfcall0] start_reading
    by (simp add: sendable_def del: send_all.simps)
qed

end
